(* ===== verification/Prelude.thy ===== *)
theory Prelude
  imports "HOL-Library.Word" "HOL-Library.List_Lexorder" "HOL-Library.AList"
begin

text \<open>
  The shared vocabulary of the development: the machine-integer types of the Rust sources, the
  three-way outcome of a Rust call (a value, an \<^verbatim>\<open>Err\<close>, a panic), the pieces of the Rust standard
  library that the sources use (\<^verbatim>\<open>Iterator::position\<close>, \<^verbatim>\<open>to_be_bytes\<close>, \<^verbatim>\<open>BTreeMap\<close>, \<^verbatim>\<open>HashMap\<close>), and
  the generic lemmas on them that the component theories rest on.
\<close>

named_theorems outcome_simps \<open>evaluation and inversion rules for outcomes\<close>
named_theorems btree_simps \<open>lookup, key and sortedness rules for the ordered-map model\<close>

section \<open>Machine integers\<close>

type_synonym u8 = "8 word"
type_synonym u16 = "16 word"
type_synonym u32 = "32 word"
type_synonym u64 = "64 word"
type_synonym u128 = "128 word"
type_synonym bytes = "u8 list"

section \<open>Outcomes of Rust calls\<close>

text \<open>
  \<open>Ok\<close> and \<open>Err\<close> are Rust's \<^verbatim>\<open>Result\<close>; \<open>Panic\<close> stands for a failed assertion, an \<^verbatim>\<open>unwrap\<close> of
  an error, an \<^verbatim>\<open>unreachable!\<close> or an out-of-range index, after which the caller does not continue.
\<close>

datatype ('e, 'a) outcome = Ok 'a | Err 'e | Panic

fun obind :: "('e, 'a) outcome \<Rightarrow> ('a \<Rightarrow> ('e, 'b) outcome) \<Rightarrow> ('e, 'b) outcome" where
  "obind (Ok x) f = f x"
| "obind (Err e) f = Err e"
| "obind Panic f = Panic"

fun omap :: "('a \<Rightarrow> 'b) \<Rightarrow> ('e, 'a) outcome \<Rightarrow> ('e, 'b) outcome" where
  "omap f (Ok x) = Ok (f x)"
| "omap f (Err e) = Err e"
| "omap f Panic = Panic"

text \<open>\<^verbatim>\<open>Result::unwrap\<close>: an error becomes a panic, which no caller can catch.\<close>

fun unwrap :: "('e, 'a) outcome \<Rightarrow> ('f, 'a) outcome" where
  "unwrap (Ok x) = Ok x"
| "unwrap (Err e) = Panic"
| "unwrap Panic = Panic"

fun is_Ok :: "('e, 'a) outcome \<Rightarrow> bool" where
  "is_Ok (Ok x) = True"
| "is_Ok (Err e) = False"
| "is_Ok Panic = False"

text \<open>\<^verbatim>\<open>Result::map_err\<close>.\<close>

fun omap_err :: "('e \<Rightarrow> 'f) \<Rightarrow> ('e, 'a) outcome \<Rightarrow> ('f, 'a) outcome" where
  "omap_err f (Ok x) = Ok x"
| "omap_err f (Err e) = Err (f e)"
| "omap_err f Panic = Panic"

lemma obind_eq_Ok [outcome_simps]: "obind m f = Ok y \<longleftrightarrow> (\<exists>x. m = Ok x \<and> f x = Ok y)"
  by (cases m) auto

lemma obind_eq_Err [outcome_simps]:
  "obind m f = Err e \<longleftrightarrow> m = Err e \<or> (\<exists>x. m = Ok x \<and> f x = Err e)"
  by (cases m) auto

lemma obind_eq_Panic [outcome_simps]:
  "obind m f = Panic \<longleftrightarrow> m = Panic \<or> (\<exists>x. m = Ok x \<and> f x = Panic)"
  by (cases m) auto

lemma omap_eq_Ok [outcome_simps]: "omap f m = Ok y \<longleftrightarrow> (\<exists>x. m = Ok x \<and> y = f x)"
  by (cases m) auto

lemma unwrap_eq_Ok [outcome_simps]: "unwrap m = Ok y \<longleftrightarrow> m = Ok y"
  by (cases m) auto

lemma omap_err_eq_Ok [outcome_simps]: "omap_err f m = Ok y \<longleftrightarrow> m = Ok y"
  by (cases m) auto

lemma is_Ok_iff: "is_Ok m \<longleftrightarrow> (\<exists>x. m = Ok x)"
  by (cases m) auto

text \<open>Running a fallible step over a list of inputs, stopping at the first failure (\<^verbatim>\<open>?\<close> in a loop).\<close>

fun ofold :: "('x \<Rightarrow> 's \<Rightarrow> ('e, 's) outcome) \<Rightarrow> 'x list \<Rightarrow> 's \<Rightarrow> ('e, 's) outcome" where
  "ofold f [] s = Ok s"
| "ofold f (x # xs) s = obind (f x s) (ofold f xs)"

lemma ofold_append: "ofold f (xs @ ys) s = obind (ofold f xs s) (ofold f ys)"
proof (induction xs arbitrary: s)
  case (Cons x xs)
  then show ?case by (cases "f x s") simp_all
qed simp

lemma ofold_invariant:
  assumes "ofold f xs s = Ok s'" and "I s"
    and "\<And>x s s'. x \<in> set xs \<Longrightarrow> I s \<Longrightarrow> f x s = Ok s' \<Longrightarrow> I s'"
  shows "I s'"
  using assms
proof (induction xs arbitrary: s)
  case (Cons x xs)
  from Cons.prems(1) obtain s1 where s1: "f x s = Ok s1" "ofold f xs s1 = Ok s'"
    by (auto simp: outcome_simps)
  have "I s1" by (rule Cons.prems(3) [OF _ Cons.prems(2) s1(1)]) simp
  with s1(2) show ?case by (rule Cons.IH) (auto intro: Cons.prems(3))
qed simp

section \<open>Iterator helpers\<close>

text \<open>\<^verbatim>\<open>Iterator::find\<close> and \<^verbatim>\<open>Iterator::position\<close>.\<close>

definition iter_find :: "('a \<Rightarrow> bool) \<Rightarrow> 'a list \<Rightarrow> 'a option" where
  "iter_find P xs = List.find P xs"

fun position :: "('a \<Rightarrow> bool) \<Rightarrow> 'a list \<Rightarrow> nat option" where
  "position P [] = None"
| "position P (x # xs) = (if P x then Some 0 else map_option Suc (position P xs))"

lemma position_None [simp]: "position P xs = None \<longleftrightarrow> (\<forall>x\<in>set xs. \<not> P x)"
  by (induction xs) auto

lemma position_SomeD: "position P xs = Some i \<Longrightarrow> i < length xs \<and> P (xs ! i)"
  by (induction xs arbitrary: i) (auto split: if_splits)

text \<open>\<^verbatim>\<open>VecDeque::remove(pos)\<close> at the first position of an element.\<close>

lemma position_remove1:
  "position (\<lambda>y. y = x) xs = Some i \<Longrightarrow> take i xs @ drop (Suc i) xs = remove1 x xs"
  by (induction xs arbitrary: i) (auto split: if_splits)

lemma find_Some_iff_ex: "List.find P xs = None \<longleftrightarrow> (\<forall>x\<in>set xs. \<not> P x)"
  by (auto simp: find_None_iff)

lemma find_SomeD: "List.find P xs = Some x \<Longrightarrow> x \<in> set xs \<and> P x"
  by (auto simp: find_Some_iff)

section \<open>Big-endian byte strings\<close>

text \<open>
  \<open>be_bytes k n\<close> is \<^verbatim>\<open>to_be_bytes\<close> of a \<open>k\<close>-byte unsigned integer with value \<open>n\<close>, and \<open>be_val\<close> is
  \<^verbatim>\<open>from_be_bytes\<close>. Little-endian strings are their reverses.
\<close>

fun be_bytes :: "nat \<Rightarrow> nat \<Rightarrow> bytes" where
  "be_bytes 0 n = []"
| "be_bytes (Suc k) n = be_bytes k (n div 256) @ [word_of_nat n]"

definition be_val :: "bytes \<Rightarrow> nat" where
  "be_val bs = foldl (\<lambda>a b. a * 256 + unat b) 0 bs"

lemma length_be_bytes [simp]: "length (be_bytes k n) = k"
  by (induction k arbitrary: n) auto

lemma be_val_Nil [simp]: "be_val [] = 0"
  by (simp add: be_val_def)

lemma be_val_snoc [simp]: "be_val (bs @ [b]) = be_val bs * 256 + unat b"
  by (simp add: be_val_def)

lemma unat_word_of_nat8: "unat (word_of_nat n :: u8) = n mod 256"
  by (simp add: unat_of_nat)

lemma be_val_be_bytes: "be_val (be_bytes k n) = n mod 256 ^ k"
proof (induction k arbitrary: n)
  case (Suc k)
  have "(n div 256) mod 256 ^ k * 256 + n mod 256 = n mod (256 * 256 ^ k)"
    by (simp add: mod_mult2_eq)
  with Suc show ?case by (simp add: unat_word_of_nat8)
qed simp

lemma be_val_less: "be_val bs < 256 ^ length bs"
proof (induction bs rule: rev_induct)
  case (snoc b bs)
  have "unat b < 256" using unsigned_less [of b] by simp
  with snoc show ?case by simp
qed simp

lemma be_bytes_be_val: "length bs = k \<Longrightarrow> be_bytes k (be_val bs) = bs"
proof (induction bs arbitrary: k rule: rev_induct)
  case (snoc b bs)
  have b: "unat b < 256" using unsigned_less [of b] by simp
  then have "(be_val bs * 256 + unat b) div 256 = be_val bs" by simp
  moreover have "(word_of_nat (be_val bs * 256 + unat b) :: u8) = b"
    unfolding word_unat_eq_iff unat_word_of_nat8 using b by simp
  ultimately show ?case using snoc by auto
qed simp

lemma be_bytes_inject:
  "be_bytes k m = be_bytes k n \<Longrightarrow> m < 256 ^ k \<Longrightarrow> n < 256 ^ k \<Longrightarrow> m = n"
  by (metis be_val_be_bytes mod_less)

text \<open>Big-endian strings of one length compare (bytewise, as a sorted store does) like their values.\<close>

lemma list_less_append_same_length:
  fixes xs ys :: "'a::linorder list"
  assumes "length xs = length ys"
  shows "xs @ us < ys @ vs \<longleftrightarrow> xs < ys \<or> xs = ys \<and> us < vs"
  using assms by (induction xs ys rule: list_induct2) auto

lemma be_bytes_less:
  "m < 256 ^ k \<Longrightarrow> n < 256 ^ k \<Longrightarrow> be_bytes k m < be_bytes k n \<longleftrightarrow> m < n"
proof (induction k arbitrary: m n)
  case (Suc k)
  have eq: "be_bytes k (m div 256) = be_bytes k (n div 256) \<longleftrightarrow> m div 256 = n div 256"
    using Suc.prems be_bytes_inject [of k "m div 256" "n div 256"]
    by (auto simp: less_mult_imp_div_less mult.commute)
  have less: "be_bytes k (m div 256) < be_bytes k (n div 256) \<longleftrightarrow> m div 256 < n div 256"
    using Suc by (simp add: less_mult_imp_div_less mult.commute)
  have last: "(word_of_nat m :: u8) < word_of_nat n \<longleftrightarrow> m mod 256 < n mod 256"
    by (simp add: word_less_nat_alt unat_word_of_nat8)
  have "m < n \<longleftrightarrow> m div 256 < n div 256 \<or> m div 256 = n div 256 \<and> m mod 256 < n mod 256"
    using div_mult_mod_eq [of m 256] div_mult_mod_eq [of n 256]
      mod_less_divisor [of 256 m] mod_less_divisor [of 256 n]
    by linarith
  then show ?case
    by (simp add: list_less_append_same_length eq less last)
qed simp

section \<open>Ordered and hashed maps of the standard library\<close>

text \<open>
  A \<^verbatim>\<open>BTreeMap\<close> is an association list with strictly increasing keys, so iteration order is the
  list's order. A \<^verbatim>\<open>HashMap\<close> is an association list with distinct keys, in one of the orders the
  source may iterate it in; lookups go through \<open>map_of\<close>.
\<close>

type_synonym ('k, 'v) btree = "('k \<times> 'v) list"
type_synonym ('k, 'v) hashmap = "('k \<times> 'v) list"

fun bt_insert :: "'k::linorder \<Rightarrow> 'v \<Rightarrow> ('k, 'v) btree \<Rightarrow> ('k, 'v) btree" where
  "bt_insert k v [] = [(k, v)]"
| "bt_insert k v ((k', v') # m) =
     (if k < k' then (k, v) # (k', v') # m
      else if k = k' then (k, v) # m
      else (k', v') # bt_insert k v m)"

definition bt_remove :: "'k \<Rightarrow> ('k, 'v) btree \<Rightarrow> ('k, 'v) btree" where
  "bt_remove k m = filter (\<lambda>(k', _). k' \<noteq> k) m"

definition bt_keys :: "('k, 'v) btree \<Rightarrow> 'k list" where
  "bt_keys m = map fst m"

definition bt_ok :: "('k::linorder, 'v) btree \<Rightarrow> bool" where
  "bt_ok m \<longleftrightarrow> sorted_wrt (<) (bt_keys m)"

lemma bt_ok_Nil [simp]: "bt_ok []"
  by (simp add: bt_ok_def bt_keys_def)

lemma set_bt_keys_insert [btree_simps]: "set (bt_keys (bt_insert k v m)) = insert k (set (bt_keys m))"
  by (induction k v m rule: bt_insert.induct) (auto simp: bt_keys_def)

lemma bt_insert_ok [btree_simps]: "bt_ok m \<Longrightarrow> bt_ok (bt_insert k v m)"
proof (induction k v m rule: bt_insert.induct)
  case (2 k v k' v' m)
  have "set (map fst (bt_insert k v m)) = insert k (set (map fst m))"
    using set_bt_keys_insert [of k v m] by (simp add: bt_keys_def)
  with 2 show ?case
    by (auto simp: bt_ok_def bt_keys_def dest: less_trans)
qed (simp add: bt_ok_def bt_keys_def)

lemma bt_insert_lookup [btree_simps]:
  "bt_ok m \<Longrightarrow> map_of (bt_insert k v m) = (map_of m)(k \<mapsto> v)"
proof (induction k v m rule: bt_insert.induct)
  case (2 k v k' v' m)
  have "k \<notin> fst ` set m" if "k < k'"
    using 2(2) that by (auto simp: bt_ok_def bt_keys_def)
  then show ?case using 2
    by (auto simp: bt_ok_def bt_keys_def fun_eq_iff map_of_eq_None_iff)
qed simp

lemma bt_keys_distinct [btree_simps]: "bt_ok m \<Longrightarrow> distinct (map fst m)"
  by (simp add: bt_ok_def bt_keys_def strict_sorted_iff)

lemma bt_remove_ok [btree_simps]: "bt_ok m \<Longrightarrow> bt_ok (bt_remove k m)"
  by (induction m) (auto simp: bt_ok_def bt_keys_def bt_remove_def)

lemma bt_remove_lookup [btree_simps]: "map_of (bt_remove k m) = (map_of m)(k := None)"
  by (induction m) (auto simp: bt_remove_def fun_eq_iff)

lemma set_bt_keys_remove [btree_simps]: "set (bt_keys (bt_remove k m)) = set (bt_keys m) - {k}"
  by (auto simp: bt_remove_def bt_keys_def)

lemma map_of_None_keys [btree_simps]: "map_of m k = None \<longleftrightarrow> k \<notin> set (bt_keys m)"
  by (simp add: bt_keys_def map_of_eq_None_iff)

lemma length_bt_insert [btree_simps]:
  "bt_ok m \<Longrightarrow> length (bt_insert k v m) = (if k \<in> set (bt_keys m) then length m else Suc (length m))"
proof (induction k v m rule: bt_insert.induct)
  case (2 k v k' v' m)
  then show ?case by (force simp: bt_ok_def bt_keys_def)
qed (simp add: bt_keys_def)

lemma strict_sorted_unique:
  fixes xs ys :: "('k::linorder \<times> 'v) list"
  assumes "sorted_wrt (<) (map fst xs)" "sorted_wrt (<) (map fst ys)" "set xs = set ys"
  shows "xs = ys"
proof -
  have "distinct (map fst xs)" "distinct (map fst ys)" "sorted (map fst xs)" "sorted (map fst ys)"
    using assms by (auto simp: strict_sorted_iff)
  moreover have "inj_on fst (set xs)" using calculation(1) by (simp add: distinct_map)
  ultimately show ?thesis
    using assms(3) map_sorted_distinct_set_unique [of fst xs ys] by (auto simp: distinct_map)
qed

lemma bt_eqI: "bt_ok m \<Longrightarrow> bt_ok m' \<Longrightarrow> set m = set m' \<Longrightarrow> m = m'"
  by (rule strict_sorted_unique) (simp_all add: bt_ok_def bt_keys_def)

text \<open>The interface of a finite map, which both standard-library maps implement.\<close>

locale std_map =
  fixes empty :: 'm
    and insert :: "'k \<Rightarrow> 'v \<Rightarrow> 'm \<Rightarrow> 'm"
    and remove :: "'k \<Rightarrow> 'm \<Rightarrow> 'm"
    and get :: "'m \<Rightarrow> 'k \<Rightarrow> 'v option"
    and invar :: "'m \<Rightarrow> bool"
  assumes get_empty: "get empty k = None"
    and get_insert: "invar m \<Longrightarrow> get (insert k v m) k' = (if k' = k then Some v else get m k')"
    and get_remove: "invar m \<Longrightarrow> get (remove k m) k' = (if k' = k then None else get m k')"
    and invar_empty: "invar empty"
    and invar_insert: "invar m \<Longrightarrow> invar (insert k v m)"
    and invar_remove: "invar m \<Longrightarrow> invar (remove k m)"
begin

lemma invar_fold_insert: "invar m \<Longrightarrow> invar (fold (\<lambda>(k, v). insert k v) kvs m)"
  by (induction kvs arbitrary: m) (auto simp: invar_insert)

lemma get_fold_insert:
  "invar m \<Longrightarrow> get (fold (\<lambda>(k, v). insert k v) kvs m) k =
     (case map_of (rev kvs) k of Some v \<Rightarrow> Some v | None \<Rightarrow> get m k)"
  by (induction kvs arbitrary: m)
    (auto simp: invar_insert get_insert map_add_def split: option.splits)

lemma get_fold_remove:
  "invar m \<Longrightarrow> get (fold remove ks m) k = (if k \<in> set ks then None else get m k)"
  by (induction ks arbitrary: m) (auto simp: invar_remove get_remove)

lemma invar_fold_remove: "invar m \<Longrightarrow> invar (fold remove ks m)"
  by (induction ks arbitrary: m) (auto simp: invar_remove)

end

interpretation btree: std_map "[]" bt_insert bt_remove map_of bt_ok
  by unfold_locales (auto simp: btree_simps)

interpretation hmap: std_map "[]" AList.update AList.delete map_of "\<lambda>m. distinct (map fst m)"
  by unfold_locales
    (auto simp: update_conv' delete_conv' distinct_update distinct_delete)

section \<open>Hash maps as association lists\<close>

lemma update_fresh: "map_of m k = None \<Longrightarrow> AList.update k v m = m @ [(k, v)]"
  by (induction m) (auto split: if_splits)

end
