(* ===== verification/Element.thy ===== *)
theory Element
  imports Prelude
begin

text \<open>
  The field-element type of \<^verbatim>\<open>pkg/zk-primitives\<close>: \<^verbatim>\<open>Element\<close>, a 256-bit unsigned integer, with its
  constants, integer and byte conversions (\<^verbatim>\<open>element/mod.rs\<close>, \<^verbatim>\<open>element/convert.rs\<close>), the
  least-significant-bit view that addresses slots of the Merkle tree (\<^verbatim>\<open>element/lsb.rs\<close>,
  \<^verbatim>\<open>element/collision.rs\<close>), the conversion to and from the prime field (\<^verbatim>\<open>element/halo2.rs\<close>) and the
  hash helpers (\<^verbatim>\<open>hash.rs\<close>, \<^verbatim>\<open>path.rs\<close>). The Poseidon permutation and the prime-field type come
  from other packages and are parameters.
\<close>

section \<open>The element type and its constants\<close>

type_synonym element = "256 word"

definition ZERO :: element where
  "ZERO = 0"

definition ONE :: element where
  "ONE = 1"

definition ELEMENT_MAX :: element where
  "ELEMENT_MAX = - 1"

definition NULL_HASH :: element where
  "NULL_HASH = ZERO"

definition BYTE_HASH_IV :: element where
  "BYTE_HASH_IV = 2"

definition element_new :: "u64 \<Rightarrow> element" where
  "element_new i = ucast i"

definition as_bool :: "element \<Rightarrow> bool option" where
  "as_bool e = (if e = ZERO then Some False else if e = ONE then Some True else None)"

definition is_zero :: "element \<Rightarrow> bool" where
  "is_zero e \<longleftrightarrow> e = ZERO"

definition element_of_bool :: "bool \<Rightarrow> element" where
  "element_of_bool b = (case b of False \<Rightarrow> ZERO | True \<Rightarrow> ONE)"

text \<open>
  \<^verbatim>\<open>From<u*>\<close> and \<^verbatim>\<open>TryFrom<Element> for u*\<close>, for every width the macro is used at: the narrowing
  conversion fails when the value does not fit.
\<close>

definition element_from :: "'a::len word \<Rightarrow> element" where
  "element_from v = ucast v"

definition element_try_into :: "element \<Rightarrow> 'a::len word option" where
  "element_try_into e = (if unat e < 2 ^ LENGTH('a) then Some (ucast e) else None)"

section \<open>Bytes\<close>

definition to_be_bytes :: "element \<Rightarrow> bytes" where
  "to_be_bytes e = be_bytes 32 (unat e)"

definition from_be_bytes :: "bytes \<Rightarrow> element" where
  "from_be_bytes bs = word_of_nat (be_val bs)"

definition to_le_bytes :: "element \<Rightarrow> bytes" where
  "to_le_bytes e = rev (be_bytes 32 (unat e))"

definition from_le_bytes :: "bytes \<Rightarrow> element" where
  "from_le_bytes bs = word_of_nat (be_val (rev bs))"

section \<open>The least significant bits\<close>

text \<open>All 256 bits, most significant first (\<^verbatim>\<open>BitArray<[u8; 32], Msb0>\<close>).\<close>

definition to_be_bits :: "element \<Rightarrow> bool list" where
  "to_be_bits e = map (bit e) (rev [0..<256])"

record Lsb =
  bits :: "bool list"
  count :: nat

definition lsb :: "element \<Rightarrow> nat \<Rightarrow> Lsb" where
  "lsb e n = \<lparr>bits = to_be_bits e, count = n\<rparr>"

text \<open>The slice panics when more bits are asked for than there are.\<close>

definition as_slice :: "Lsb \<Rightarrow> (unit, bool list) outcome" where
  "as_slice l =
     (if length (bits l) < count l then Panic
      else Ok (drop (length (bits l) - count l) (bits l)))"

text \<open>
  The bits themselves, for the counts (at most 256) at which the slice exists. The tree code
  below works with \<open>lsb_bits e (D - 1)\<close> for a depth \<open>D\<close> of at most 257.
\<close>

definition lsb_bits :: "element \<Rightarrow> nat \<Rightarrow> bool list" where
  "lsb_bits e n = drop (256 - n) (to_be_bits e)"

definition collides_with :: "nat \<Rightarrow> element \<Rightarrow> element \<Rightarrow> bool" where
  "collides_with D a b \<longleftrightarrow> lsb_bits a (D - 1) = lsb_bits b (D - 1)"

lemma lsb_bits_eq: "n \<le> 256 \<Longrightarrow> lsb_bits e n = map (bit e) (rev [0..<n])"
  by (simp add: lsb_bits_def to_be_bits_def drop_map rev_take [symmetric] drop_rev)

lemma length_lsb_bits: "n \<le> 256 \<Longrightarrow> length (lsb_bits e n) = n"
  by (simp add: lsb_bits_eq)

lemma as_slice_lsb: "n \<le> 256 \<Longrightarrow> as_slice (lsb e n) = Ok (lsb_bits e n)"
  by (simp add: as_slice_def lsb_def lsb_bits_def to_be_bits_def)

lemma lsb_bits_agree:
  assumes "n \<le> 256"
  shows "lsb_bits a n = lsb_bits b n \<longleftrightarrow> (\<forall>i<n. bit a i = bit b i)"
  using assms by (auto simp: lsb_bits_eq rev_map [symmetric])

lemma lsb_bits_take_bit:
  assumes "n \<le> 256"
  shows "lsb_bits a n = lsb_bits b n \<longleftrightarrow> take_bit n a = take_bit n b"
  using assms unfolding lsb_bits_agree [OF assms] bit_eq_iff
  by (simp add: bit_take_bit_iff) (metis less_le_trans)

section \<open>The prime field\<close>

definition MODULUS :: element where
  "MODULUS = 0x30644e72e131a029b85045b68181585d2833e84879b9709143e1f593f0000001"

definition canonicalize :: "element \<Rightarrow> element" where
  "canonicalize e = e mod MODULUS"

definition is_canonical :: "element \<Rightarrow> bool" where
  "is_canonical e \<longleftrightarrow> e = canonicalize e"

definition u8s_to_u64 :: "bytes \<Rightarrow> u64 list" where
  "u8s_to_u64 u8s =
     [word_of_nat (be_val (rev (take 8 u8s))),
      word_of_nat (be_val (rev (take 8 (drop 8 u8s)))),
      word_of_nat (be_val (rev (take 8 (drop 16 u8s)))),
      word_of_nat (be_val (rev (take 8 (drop 24 u8s))))]"

text \<open>\<^verbatim>\<open>Base::from_raw\<close> and \<^verbatim>\<open>Base::to_repr\<close> belong to the curve package and are parameters.\<close>

definition to_base :: "(u64 list \<Rightarrow> 'b) \<Rightarrow> element \<Rightarrow> 'b" where
  "to_base from_raw e = from_raw (u8s_to_u64 (to_le_bytes e))"

definition from_base :: "('b \<Rightarrow> bytes) \<Rightarrow> 'b \<Rightarrow> element" where
  "from_base to_repr b = from_le_bytes (to_repr b)"

section \<open>Hashing\<close>

text \<open>
  \<^verbatim>\<open>hash_merge\<close> runs the Poseidon sponge (a parameter) on the field images of its inputs. The rest
  of the code only calls it on two elements, and takes that two-argument function as \<open>hm\<close>.
\<close>

definition hash_merge ::
    "('b list \<Rightarrow> 'b) \<Rightarrow> (u64 list \<Rightarrow> 'b) \<Rightarrow> ('b \<Rightarrow> bytes) \<Rightarrow> element list \<Rightarrow> element" where
  "hash_merge poseidon from_raw to_repr es =
     from_base to_repr (poseidon (map (to_base from_raw) es))"

definition hashed_with :: "(element \<Rightarrow> element \<Rightarrow> element) \<Rightarrow> element \<Rightarrow> element \<Rightarrow> element" where
  "hashed_with hm e other = hm e other"

definition bytes_to_element :: "bytes \<Rightarrow> (unit, element) outcome" where
  "bytes_to_element bs =
     (if 16 < length bs then Panic
      else Ok (word_of_nat (be_val (bs @ replicate (16 - length bs) 0))))"

text \<open>\<^verbatim>\<open>slice::chunks\<close>: consecutive blocks of \<open>n > 0\<close> items, the last one possibly shorter.\<close>

function chunks :: "nat \<Rightarrow> 'a list \<Rightarrow> 'a list list" where
  "chunks n xs = (if xs = [] \<or> n = 0 then [] else take n xs # chunks n (drop n xs))"
  by pat_completeness auto
termination
  by (relation "measure (\<lambda>(n, xs). length xs)") auto

declare chunks.simps [simp del]

fun hash_chunks :: "(element \<Rightarrow> element \<Rightarrow> element) \<Rightarrow> bytes list \<Rightarrow> element \<Rightarrow> (unit, element) outcome" where
  "hash_chunks hm [] acc = Ok acc"
| "hash_chunks hm (c # cs) acc =
     obind (bytes_to_element c) (\<lambda>e. hash_chunks hm cs (hm acc e))"

definition hash_bytes :: "(element \<Rightarrow> element \<Rightarrow> element) \<Rightarrow> bytes \<Rightarrow> (unit, element) outcome" where
  "hash_bytes hm bs = hash_chunks hm (chunks 16 bs) BYTE_HASH_IV"

text \<open>The Merkle root above a leaf: \<open>False\<close> puts the sibling on the right, \<open>True\<close> on the left.\<close>

fun compute_merkle_root ::
    "(element \<Rightarrow> element \<Rightarrow> element) \<Rightarrow> element \<Rightarrow> (element \<times> bool) list \<Rightarrow> element" where
  "compute_merkle_root hm leaf [] = leaf"
| "compute_merkle_root hm leaf ((sibling, b) # rest) =
     (case b of
        False \<Rightarrow> compute_merkle_root hm (hm leaf sibling) rest
      | True \<Rightarrow> compute_merkle_root hm (hm sibling leaf) rest)"

lemma compute_merkle_root_append:
  "compute_merkle_root hm leaf (xs @ ys) =
     compute_merkle_root hm (compute_merkle_root hm leaf xs) ys"
  by (induction hm leaf xs rule: compute_merkle_root.induct) (auto split: bool.splits)

section \<open>Lemmas\<close>

lemma pow256_32: "(256 :: nat) ^ 32 = 2 ^ 256"
  by simp

lemma unat_element_less: "unat (e :: element) < 256 ^ 32"
  using unsigned_less [of e] unfolding pow256_32 by simp

lemma be_val_to_be_bytes: "be_val (be_bytes 32 (unat (e :: element))) = unat e"
  unfolding be_val_be_bytes by (rule mod_less [OF unat_element_less])

lemma from_to_be_bytes: "from_be_bytes (to_be_bytes e) = e"
  by (simp add: from_be_bytes_def to_be_bytes_def be_val_to_be_bytes)

lemma from_to_le_bytes: "from_le_bytes (to_le_bytes e) = e"
  by (simp add: from_le_bytes_def to_le_bytes_def be_val_to_be_bytes)

lemma unat_from_be_bytes:
  assumes "length bs = 32"
  shows "unat (from_be_bytes bs) = be_val bs"
proof -
  have "be_val bs < 2 ^ LENGTH(256)"
    using be_val_less [of bs] unfolding assms pow256_32 by simp
  then show ?thesis by (simp only: from_be_bytes_def unat_of_nat mod_less)
qed

lemma to_from_be_bytes: "length bs = 32 \<Longrightarrow> to_be_bytes (from_be_bytes bs) = bs"
  by (simp add: to_be_bytes_def unat_from_be_bytes be_bytes_be_val)

lemma be_val_append: "be_val (xs @ ys) = be_val xs * 256 ^ length ys + be_val ys"
proof (induction ys rule: rev_induct)
  case (snoc y ys)
  have "be_val (xs @ ys @ [y]) = be_val (xs @ ys) * 256 + unat y"
    by (simp flip: append_assoc)
  with snoc show ?case by (simp add: algebra_simps)
qed simp

text \<open>The value of a little-endian limb vector, and that \<open>u8s_to_u64\<close> keeps the integer.\<close>

definition limbs_val :: "u64 list \<Rightarrow> nat" where
  "limbs_val ls = (\<Sum>i<length ls. unat (ls ! i) * 2 ^ (64 * i))"

lemma unat_limb:
  assumes "length bs = 8"
  shows "unat (word_of_nat (be_val bs) :: u64) = be_val bs"
proof -
  have "be_val bs < 2 ^ LENGTH(64)" using be_val_less [of bs] assms by simp
  then show ?thesis by (simp only: unat_of_nat mod_less)
qed

lemma limbs_val_u8s_to_u64:
  assumes "length u8s = 32"
  shows "limbs_val (u8s_to_u64 u8s) = be_val (rev u8s)"
proof -
  define a b c d where "a = take 8 u8s" and "b = take 8 (drop 8 u8s)"
    and "c = take 8 (drop 16 u8s)" and "d = take 8 (drop 24 u8s)"
  have len: "length a = 8" "length b = 8" "length c = 8" "length d = 8"
    using assms by (simp_all add: a_def b_def c_def d_def)
  have "u8s = a @ b @ c @ d"
    using assms append_take_drop_id [of 8 u8s] append_take_drop_id [of 8 "drop 8 u8s"]
      append_take_drop_id [of 8 "drop 16 u8s"]
    by (simp add: a_def b_def c_def d_def)
  then have "be_val (rev u8s) = be_val (rev d @ rev c @ rev b @ rev a)" by simp
  also have "\<dots> = be_val (rev d) * 2 ^ 192 + be_val (rev c) * 2 ^ 128 + be_val (rev b) * 2 ^ 64
      + be_val (rev a)"
    by (simp add: be_val_append len)
  finally show ?thesis
    by (simp add: limbs_val_def u8s_to_u64_def unat_limb len lessThan_nat_numeral
        flip: a_def b_def c_def d_def)
qed

text \<open>
  What the code relies on of the field type: \<^verbatim>\<open>from_raw\<close> takes an integer, given as four
  little-endian limbs, to the field element it is congruent to, and \<^verbatim>\<open>to_repr\<close> gives the
  little-endian bytes of the canonical representative.
\<close>

locale base_field =
  fixes from_raw :: "u64 list \<Rightarrow> 'b" and to_repr :: "'b \<Rightarrow> bytes"
  assumes repr_raw:
    "length ls = 4 \<Longrightarrow> to_repr (from_raw ls) = rev (be_bytes 32 (limbs_val ls mod unat MODULUS))"
begin

lemma repr_to_base: "to_repr (to_base from_raw e) = rev (be_bytes 32 (unat e mod unat MODULUS))"
proof -
  have "length (u8s_to_u64 (to_le_bytes e)) = 4" by (simp add: u8s_to_u64_def)
  moreover have "limbs_val (u8s_to_u64 (to_le_bytes e)) = unat e"
    by (simp add: limbs_val_u8s_to_u64 to_le_bytes_def be_val_to_be_bytes)
  ultimately show ?thesis by (simp add: to_base_def repr_raw)
qed

lemma from_base_to_base: "from_base to_repr (to_base from_raw e) = canonicalize e"
  by (simp add: from_base_def repr_to_base from_le_bytes_def canonicalize_def be_val_to_be_bytes
      flip: unat_mod_distrib)

lemma to_base_canonicalize_repr:
  "to_repr (to_base from_raw (canonicalize e)) = to_repr (to_base from_raw e)"
  by (simp add: repr_to_base canonicalize_def unat_mod_distrib)

end

text \<open>The field of integers below the modulus is such a field.\<close>

interpretation fr: base_field "\<lambda>ls. limbs_val ls mod unat MODULUS" "\<lambda>b. rev (be_bytes 32 b)"
  by unfold_locales simp

section \<open>Properties\<close>

text \<open>
  Converting an element to the prime field and back is the canonical form, for every field
  implementation with the documented conversions; it is the identity exactly on the elements that
  \<^verbatim>\<open>is_canonical\<close> accepts.
\<close>

theorem base_round_trip:
  assumes "base_field from_raw to_repr"
  shows "from_base to_repr (to_base from_raw e) = canonicalize e
    \<and> (from_base to_repr (to_base from_raw e) = e \<longleftrightarrow> is_canonical e)
    \<and> unat (from_base to_repr (to_base from_raw e)) = unat e mod unat MODULUS"
  using base_field.from_base_to_base [OF assms, of e]
  by (auto simp: is_canonical_def canonicalize_def unat_mod_distrib)

theorem base_round_trip_witness:
  "from_base (\<lambda>b. rev (be_bytes 32 b)) (to_base (\<lambda>ls. limbs_val ls mod unat MODULUS) (MODULUS + 5)) = 5
    \<and> \<not> is_canonical (MODULUS + 5)"
proof -
  have "base_field (\<lambda>ls. limbs_val ls mod unat MODULUS) (\<lambda>b. rev (be_bytes 32 b))"
    by unfold_locales
  note base_round_trip [OF this, of "MODULUS + 5"]
  moreover have "canonicalize (MODULUS + 5) = 5"
    by (simp add: canonicalize_def MODULUS_def)
  ultimately show ?thesis by (simp add: is_canonical_def MODULUS_def)
qed

text \<open>
  Two elements collide in a tree of depth \<open>D\<close> exactly when they agree modulo \<open>2 ^ (D - 1)\<close>,
  that is, when they would occupy the same slot.
\<close>

lemma collides_iff_mod:
  assumes "1 \<le> D" "D \<le> 257"
  shows "collides_with D a b \<longleftrightarrow> unat a mod 2 ^ (D - 1) = unat b mod 2 ^ (D - 1)"
proof -
  have "collides_with D a b \<longleftrightarrow> take_bit (D - 1) a = take_bit (D - 1) b"
    using assms by (simp add: collides_with_def lsb_bits_take_bit)
  also have "\<dots> \<longleftrightarrow> unat (take_bit (D - 1) a) = unat (take_bit (D - 1) b)"
    by (simp add: word_unat_eq_iff)
  finally show ?thesis by (simp add: unsigned_take_bit_eq flip: take_bit_eq_mod)
qed

lemma chunks_append_zero:
  assumes "length bs mod 16 \<noteq> 0"
  shows "\<exists>cs c. chunks 16 bs = cs @ [c] \<and> chunks 16 (bs @ [z]) = cs @ [c @ [z]]
    \<and> length c < 16 \<and> (\<forall>d\<in>set cs. length d \<le> 16)"
  using assms
proof (induction "16 :: nat" bs rule: chunks.induct)
  case (1 bs)
  show ?case
  proof (cases "length bs < 16")
    case True
    with "1.prems" show ?thesis by (auto simp: chunks.simps [of 16 bs] chunks.simps [of 16 "bs @ [z]"] chunks.simps [of 16 "[]"])
  next
    case False
    then have ne: "bs \<noteq> []" by auto
    from False "1.prems" have "length (drop 16 bs) mod 16 \<noteq> 0" by (simp add: le_mod_geq)
    with "1.hyps" ne obtain cs c where
      "chunks 16 (drop 16 bs) = cs @ [c]" "chunks 16 (drop 16 bs @ [z]) = cs @ [c @ [z]]"
      "length c < 16" "\<forall>d\<in>set cs. length d \<le> 16" by auto
    with False ne show ?thesis
      by (intro exI [of _ "take 16 bs # cs"] exI [of _ c])
        (simp add: chunks.simps [of 16 bs] chunks.simps [of 16 "bs @ [z]"])
  qed
qed

lemma hash_chunks_append:
  "hash_chunks hm (xs @ ys) acc = obind (hash_chunks hm xs acc) (hash_chunks hm ys)"
proof (induction xs arbitrary: acc)
  case (Cons c cs)
  then show ?case by (cases "bytes_to_element c") simp_all
qed simp

lemma bytes_to_element_pad:
  assumes "length c < 16"
  shows "bytes_to_element (c @ [0]) = bytes_to_element c"
proof -
  have "Suc (15 - length c) = 16 - length c" using assms by simp
  then show ?thesis using assms by (simp add: bytes_to_element_def flip: replicate_Suc)
qed

text \<open>
  Byte hashing: \<^verbatim>\<open>hash_bytes\<close> does not separate inputs of different lengths: appending a zero byte inside the
  last 16-byte chunk leaves the hash unchanged, whatever the underlying two-to-one hash is. The
  snapshot test of the repository records this for one zero byte and sixteen zero bytes.
\<close>

theorem hash_bytes_zero_padding:
  assumes "length bs mod 16 \<noteq> 0"
  shows "hash_bytes hm (bs @ [0]) = hash_bytes hm bs"
proof -
  from chunks_append_zero [OF assms, of 0] obtain cs c where
    "chunks 16 bs = cs @ [c]" "chunks 16 (bs @ [0]) = cs @ [c @ [0]]" "length c < 16"
    by blast
  moreover from this have "hash_chunks hm [c @ [0]] = hash_chunks hm [c]"
    by (auto simp: fun_eq_iff bytes_to_element_pad)
  ultimately show ?thesis by (simp add: hash_bytes_def hash_chunks_append)
qed

theorem hash_bytes_zero_padding_witness:
  "hash_bytes (\<lambda>l r. 3 * l + r) [0] = hash_bytes (\<lambda>l r. 3 * l + r) [0, 0]"
  using hash_bytes_zero_padding [of "[0]" "\<lambda>l r. 3 * l + r"] by simp

end
