(* ===== verification/Smirk_Hash.thy ===== *)
theory Smirk_Hash
  imports Element "HOL-Library.Product_Lexorder"
begin

text \<open>
  Hashing support of \<^verbatim>\<open>pkg/smirk\<close>: the table of empty-subtree hashes (\<^verbatim>\<open>hash.rs\<close>), the \<^verbatim>\<open>HashCache\<close>
  interface and its two implementations (\<^verbatim>\<open>hash_cache/mod.rs\<close>, \<^verbatim>\<open>hash_cache/metrics/mod.rs\<close>). The
  two-to-one hash \<open>hm\<close> is a parameter throughout.
\<close>

type_synonym hash2 = "element \<Rightarrow> element \<Rightarrow> element"

section \<open>Hashes of empty subtrees\<close>

definition COMPUTE_DEPTH :: nat where
  "COMPUTE_DEPTH = 257"

fun cache_loop :: "hash2 \<Rightarrow> nat \<Rightarrow> element list \<Rightarrow> element list" where
  "cache_loop hm 0 vec = vec"
| "cache_loop hm (Suc n) vec = (let hash = last vec in cache_loop hm n (vec @ [hm hash hash]))"

definition get_cache :: "hash2 \<Rightarrow> element list" where
  "get_cache hm = cache_loop hm (COMPUTE_DEPTH - 1) [NULL_HASH]"

fun fallback :: "hash2 \<Rightarrow> nat \<Rightarrow> (unit, element) outcome" where
  "fallback hm 0 = Panic"
| "fallback hm (Suc d) =
     (if Suc d \<le> COMPUTE_DEPTH then Ok (get_cache hm ! d)
      else obind (fallback hm d) (\<lambda>hash. Ok (hm hash hash)))"

definition empty_tree_hash :: "hash2 \<Rightarrow> nat \<Rightarrow> (unit, element) outcome" where
  "empty_tree_hash hm depth =
     (if depth = 0 then Panic
      else if depth - 1 < length (get_cache hm) then Ok (get_cache hm ! (depth - 1))
      else fallback hm depth)"

text \<open>The recursive characterisation that the documentation of \<^verbatim>\<open>empty_tree_hash\<close> gives.\<close>

fun empty_hash :: "hash2 \<Rightarrow> nat \<Rightarrow> element" where
  "empty_hash hm 0 = NULL_HASH"
| "empty_hash hm (Suc 0) = NULL_HASH"
| "empty_hash hm (Suc (Suc d)) = (let h = empty_hash hm (Suc d) in hm h h)"

lemma cache_loop_spec:
  assumes "vec = map (empty_hash hm) [1..<Suc k]" "0 < k"
  shows "cache_loop hm n vec = map (empty_hash hm) [1..<Suc (k + n)]"
  using assms
proof (induction n arbitrary: vec k)
  case (Suc n)
  then have "last vec = empty_hash hm k" by (simp add: last_map)
  moreover obtain k' where "k = Suc k'" using Suc.prems(2) by (cases k) auto
  ultimately have "vec @ [hm (last vec) (last vec)] = map (empty_hash hm) [1..<Suc (Suc k)]"
    using Suc.prems(1) by (simp add: Let_def)
  from Suc.IH [OF this] show ?case by (simp add: Let_def)
qed simp

lemma get_cache_spec: "get_cache hm = map (empty_hash hm) [1..<Suc COMPUTE_DEPTH]"
  using cache_loop_spec [of "[NULL_HASH]" hm 1 "COMPUTE_DEPTH - 1"]
  by (simp add: get_cache_def COMPUTE_DEPTH_def)

lemma fallback_spec: "fallback hm (Suc d) = Ok (empty_hash hm (Suc d))"
proof (induction d)
  case (Suc d)
  show ?case
  proof (cases "Suc (Suc d) \<le> COMPUTE_DEPTH")
    case True
    then show ?thesis by (simp add: get_cache_spec nth_append nth_upt del: upt_Suc)
  next
    case False
    then show ?thesis
      using Suc.IH by (auto simp: COMPUTE_DEPTH_def Let_def split: if_splits)
  qed
qed (simp add: get_cache_spec COMPUTE_DEPTH_def del: upt_Suc)

lemma empty_tree_hash_eq: "empty_tree_hash hm d = (if d = 0 then Panic else Ok (empty_hash hm d))"
  by (cases d) (auto simp: empty_tree_hash_def fallback_spec get_cache_spec nth_upt
      simp del: upt_Suc fallback.simps)

section \<open>Hash caches\<close>

record KnownHash =
  kh_left :: element
  kh_right :: element
  kh_result :: element

record CacheMetrics =
  hashes :: u64
  cache_hits :: u64
  cache_misses :: u64

definition incr_hashes :: "CacheMetrics \<Rightarrow> CacheMetrics" where
  "incr_hashes m = m\<lparr>hashes := hashes m + 1\<rparr>"

definition incr_cache_hits :: "CacheMetrics \<Rightarrow> CacheMetrics" where
  "incr_cache_hits m = m\<lparr>cache_hits := cache_hits m + 1\<rparr>"

definition incr_cache_misses :: "CacheMetrics \<Rightarrow> CacheMetrics" where
  "incr_cache_misses m = m\<lparr>cache_misses := cache_misses m + 1\<rparr>"

datatype NoopHashCache = NoopHashCache

definition noop_hash :: "hash2 \<Rightarrow> NoopHashCache \<Rightarrow> element \<Rightarrow> element \<Rightarrow> element \<times> NoopHashCache" where
  "noop_hash hm c left right = (hm left right, c)"

record SimpleHashCache =
  inner :: "(element \<times> element, element) hashmap"
  initial :: "KnownHash list"
  metrics :: CacheMetrics

definition simple_new :: SimpleHashCache where
  "simple_new = \<lparr>inner = [], initial = [],
     metrics = \<lparr>hashes = 0, cache_hits = 0, cache_misses = 0\<rparr>\<rparr>"

text \<open>
  \<^verbatim>\<open>binary_search_by_key\<close> on the sorted table of known hashes: it finds an entry with the given
  key exactly when there is one.
\<close>

definition search_known :: "KnownHash list \<Rightarrow> element \<times> element \<Rightarrow> KnownHash option" where
  "search_known ks key = iter_find (\<lambda>h. (kh_left h, kh_right h) = key) ks"

definition simple_hash ::
    "hash2 \<Rightarrow> SimpleHashCache \<Rightarrow> element \<Rightarrow> element \<Rightarrow> element \<times> SimpleHashCache" where
  "simple_hash hm c left right =
     (let c1 = c\<lparr>metrics := incr_hashes (metrics c)\<rparr> in
      case search_known (initial c1) (left, right) of
        Some k \<Rightarrow> (kh_result k, c1\<lparr>metrics := incr_cache_hits (metrics c1)\<rparr>)
      | None \<Rightarrow>
          (case map_of (inner c1) (left, right) of
             Some h \<Rightarrow> (h, c1\<lparr>metrics := incr_cache_hits (metrics c1)\<rparr>)
           | None \<Rightarrow>
               (let h = hm left right in
                (h, c1\<lparr>metrics := incr_cache_misses (metrics c1),
                       inner := AList.update (left, right) h (inner c1)\<rparr>))))"

definition simple_len :: "SimpleHashCache \<Rightarrow> nat" where
  "simple_len c = length (inner c)"

definition simple_is_empty :: "SimpleHashCache \<Rightarrow> bool" where
  "simple_is_empty c \<longleftrightarrow> length (inner c) = 0"

definition provide_known_hashes ::
    "KnownHash list \<Rightarrow> SimpleHashCache \<Rightarrow> (unit, SimpleHashCache) outcome" where
  "provide_known_hashes hs c =
     (if initial c \<noteq> [] then Panic
      else Ok (c\<lparr>initial := sort_key (\<lambda>h. (kh_left h, kh_right h)) hs\<rparr>))"

definition evict :: "element \<Rightarrow> element \<Rightarrow> SimpleHashCache \<Rightarrow> SimpleHashCache" where
  "evict left right c = c\<lparr>inner := AList.delete (left, right) (inner c)\<rparr>"

definition evict_all :: "SimpleHashCache \<Rightarrow> SimpleHashCache" where
  "evict_all c = c\<lparr>inner := []\<rparr>"

text \<open>
  A cache is sound when every hash it stores is the hash of its key; the comment on
  \<^verbatim>\<open>provide_known_hashes\<close> makes the caller responsible for the hashes it hands in.
\<close>

definition known_sound :: "hash2 \<Rightarrow> KnownHash \<Rightarrow> bool" where
  "known_sound hm k \<longleftrightarrow> kh_result k = hm (kh_left k) (kh_right k)"

definition simple_sound :: "hash2 \<Rightarrow> SimpleHashCache \<Rightarrow> bool" where
  "simple_sound hm c \<longleftrightarrow>
     list_all (known_sound hm) (initial c) \<and> (\<forall>((l, r), h) \<in> set (inner c). h = hm l r)"

text \<open>The interface: a cache may keep state, but always answers with the hash.\<close>

locale hash_cache =
  fixes hm :: hash2
    and chash :: "'c \<Rightarrow> element \<Rightarrow> element \<Rightarrow> element \<times> 'c"
    and sound :: "'c \<Rightarrow> bool"
  assumes chash_result: "sound c \<Longrightarrow> fst (chash c l r) = hm l r"
    and chash_sound: "sound c \<Longrightarrow> sound (snd (chash c l r))"
begin

lemma chash_eq: "sound c \<Longrightarrow> \<exists>c'. chash c l r = (hm l r, c') \<and> sound c'"
  using chash_result [of c l r] chash_sound [of c l r] by (cases "chash c l r") auto

end

interpretation noop: hash_cache hm "noop_hash hm" "\<lambda>_. True" for hm
  by unfold_locales (simp_all add: noop_hash_def)

lemma search_known_sound:
  "list_all (known_sound hm) ks \<Longrightarrow> search_known ks (l, r) = Some k \<Longrightarrow> kh_result k = hm l r"
  by (auto simp: search_known_def iter_find_def list_all_iff known_sound_def dest!: find_SomeD)

lemma set_update_subset: "set (AList.update k v m) \<subseteq> insert (k, v) (set m)"
  by (induction m) auto

lemma set_delete_subset: "set (AList.delete k m) \<subseteq> set m"
  by (auto simp: AList.delete_eq)

interpretation simple: hash_cache hm "simple_hash hm" "simple_sound hm" for hm
proof
  fix c l r
  assume c: "simple_sound hm c"
  show "fst (simple_hash hm c l r) = hm l r"
    using c by (auto simp: simple_hash_def simple_sound_def Let_def
        dest: search_known_sound map_of_SomeD split: option.splits)
  show "simple_sound hm (snd (simple_hash hm c l r))"
    using c set_update_subset [of "(l, r)" "hm l r" "inner c"]
    by (auto simp: simple_hash_def simple_sound_def Let_def split: option.splits)
qed

lemma simple_new_sound: "simple_sound hm simple_new"
  by (simp add: simple_new_def simple_sound_def)

lemma evict_sound: "simple_sound hm c \<Longrightarrow> simple_sound hm (evict l r c)"
  using set_delete_subset [of "(l, r)" "inner c"]
  by (auto simp: simple_sound_def evict_def)

lemma evict_all_sound: "simple_sound hm c \<Longrightarrow> simple_sound hm (evict_all c)"
  by (simp add: simple_sound_def evict_all_def)

lemma provide_known_hashes_sound:
  assumes "provide_known_hashes hs c = Ok c'" "simple_sound hm c" "list_all (known_sound hm) hs"
  shows "simple_sound hm c'"
  using assms by (auto simp: provide_known_hashes_def simple_sound_def list_all_iff split: if_splits)

end
