(* ===== verification/Smirk_Node.thy ===== *)
theory Smirk_Node
  imports Smirk_Hash
begin

text \<open>
  The tree representation behind the sparse Merkle tree (\<^verbatim>\<open>pkg/smirk/src/tree/tree_repr.rs\<close> and
  \<^verbatim>\<open>known_hashes.rs\<close>): nodes with cached hashes, bulk insertion that marks hashes dirty, the
  recalculation pass, and the what-if hash \<^verbatim>\<open>hash_with\<close>. The two parallel slices of elements and
  bit vectors that the source passes down are one list of pairs here. The abstract view of a node
  of depth \<open>d\<close> is \<open>slot\<close>, a partial map from paths of \<open>d - 1\<close> bits to elements, and its hash is
  \<open>merkle\<close> of that map.
\<close>

section \<open>Nodes\<close>

datatype Node =
    Leaf element
  | Empty nat
  | Parent Node Node element bool

datatype StructName = BatchName | TreeName

record Collision =
  in_tree :: element
  inserted :: element
  depth :: nat
  struct_name :: StructName

fun node_hash :: "hash2 \<Rightarrow> Node \<Rightarrow> element" where
  "node_hash hm (Leaf hash) = hash"
| "node_hash hm (Parent l r hash hash_dirty) = hash"
| "node_hash hm (Empty d) = empty_hash hm d"

text \<open>
  The number of leading entries whose bit at \<open>path_depth\<close> is 0: \<^verbatim>\<open>position(|b| b[path_depth])\<close> with
  the list's length as default. Reading a bit out of range panics.
\<close>

fun right_start :: "nat \<Rightarrow> (element \<times> bool list) list \<Rightarrow> (Collision, nat) outcome" where
  "right_start pd [] = Ok 0"
| "right_start pd ((e, b) # kbs) =
     (if length b \<le> pd then Panic
      else if b ! pd then Ok 0
      else omap Suc (right_start pd kbs))"

text \<open>A bound on the remaining recursion: every split of an empty node lowers it.\<close>

fun node_height :: "Node \<Rightarrow> nat" where
  "node_height (Leaf e) = 0"
| "node_height (Empty d) = 2 * d"
| "node_height (Parent l r h b) = Suc (max (node_height l) (node_height r))"

definition split_empty :: "hash2 \<Rightarrow> nat \<Rightarrow> Node" where
  "split_empty hm d = Parent (Empty (d - 1)) (Empty (d - 1)) (empty_hash hm d) False"

function node_insert ::
    "hash2 \<Rightarrow> nat \<Rightarrow> Node \<Rightarrow> (element \<times> bool list) list \<Rightarrow> nat
      \<Rightarrow> Node \<times> (Collision, bool) outcome" where
  "node_insert hm N (Leaf e) kbs pd =
     (Leaf e,
      if e \<in> fst ` set kbs then Ok False
      else if lsb_bits e (N - 1) \<in> snd ` set kbs
      then Err \<lparr>in_tree = e, inserted = fst (hd kbs), depth = N, struct_name = TreeName\<rparr>
      else Panic)"
| "node_insert hm N (Parent l r h dirty) kbs pd =
     (case right_start pd kbs of
        Ok k \<Rightarrow>
          (let lefts = take k kbs; rights = drop k kbs in
           if lefts = [] \<and> rights = [] then (Parent l r h dirty, Ok False)
           else
             let (r', res_r) = (if rights = [] then (r, Ok False)
                                else node_insert hm N r rights (Suc pd));
                 (l', res_l) = (if lefts = [] then (l, Ok False)
                                else node_insert hm N l lefts (Suc pd));
                 (left, right) = (if lefts \<noteq> [] \<and> rights \<noteq> [] then (res_r, res_l)
                                  else (res_l, res_r));
                 hash_dirty = (right = Ok True \<or> left = Ok True)
             in (Parent l' r' h hash_dirty,
                 if left = Panic \<or> right = Panic then Panic
                 else obind right (\<lambda>_. obind left (\<lambda>_. Ok hash_dirty))))
      | _ \<Rightarrow> (Parent l r h dirty, Panic))"
| "node_insert hm N (Empty d) kbs pd =
     (if d = 0 then (Empty d, Panic)
      else if d = 1
      then (if length kbs = 1 then (Leaf (fst (hd kbs)), Ok True) else (Empty d, Panic))
      else node_insert hm N (split_empty hm d) kbs pd)"
  by pat_completeness auto
termination
  by (relation "measure (\<lambda>(hm, N, n, kbs, pd). node_height n)") (auto simp: split_empty_def)

function hash_with_inner ::
    "hash2 \<Rightarrow> ('c \<Rightarrow> element \<Rightarrow> element \<Rightarrow> element \<times> 'c) \<Rightarrow> Node \<Rightarrow> 'c
      \<Rightarrow> (element \<times> bool list) list \<Rightarrow> nat \<Rightarrow> (Collision, element \<times> 'c) outcome" where
  "hash_with_inner hm chash (Leaf e) c kbs pd = Ok (e, c)"
| "hash_with_inner hm chash (Parent l r h dirty) c kbs pd =
     (case right_start pd kbs of
        Ok k \<Rightarrow>
          (let lefts = take k kbs; rights = drop k kbs in
           obind (if lefts = [] then Ok (node_hash hm l, c)
                  else hash_with_inner hm chash l c lefts (Suc pd))
             (\<lambda>(left_hash, c1).
                obind (if rights = [] then Ok (node_hash hm r, c1)
                       else hash_with_inner hm chash r c1 rights (Suc pd))
                  (\<lambda>(right_hash, c2). Ok (chash c2 left_hash right_hash))))
      | _ \<Rightarrow> Panic)"
| "hash_with_inner hm chash (Empty d) c kbs pd =
     (if d = 0 then Panic
      else if d = 1
      then (if 1 < length kbs then Panic
            else Ok (case kbs of (e, _) # _ \<Rightarrow> e | [] \<Rightarrow> empty_hash hm 1, c))
      else hash_with_inner hm chash (split_empty hm d) c kbs pd)"
  by pat_completeness auto
termination
  by (relation "measure (\<lambda>(hm, chash, n, c, kbs, pd). node_height n)") (auto simp: split_empty_def)

definition hash_with ::
    "hash2 \<Rightarrow> ('c \<Rightarrow> element \<Rightarrow> element \<Rightarrow> element \<times> 'c) \<Rightarrow> nat \<Rightarrow> Node \<Rightarrow> 'c \<Rightarrow> element list
      \<Rightarrow> (Collision, element \<times> 'c) outcome" where
  "hash_with hm chash D n c extra_elements =
     hash_with_inner hm chash n c
       (sort_key snd (map (\<lambda>e. (e, lsb_bits e (D - 1))) extra_elements)) 0"

text \<open>
  The recalculation pass. The callbacks of the source are recorded as the list of their calls.
  \<^verbatim>\<open>rayon::join\<close> may run the two recursive calls in parallel; the model runs the left one first.
\<close>

datatype hash_event = HashRemove element element | HashSet element element element

fun recalculate_hashes ::
    "hash2 \<Rightarrow> ('c \<Rightarrow> element \<Rightarrow> element \<Rightarrow> element \<times> 'c) \<Rightarrow> Node \<Rightarrow> 'c
      \<Rightarrow> Node \<times> 'c \<times> hash_event list" where
  "recalculate_hashes hm chash (Leaf e) c = (Leaf e, c, [])"
| "recalculate_hashes hm chash (Empty d) c = (Empty d, c, [])"
| "recalculate_hashes hm chash (Parent l r h hash_dirty) c =
     (if \<not> hash_dirty then (Parent l r h hash_dirty, c, [])
      else
        let (l', c1, ev_l) = recalculate_hashes hm chash l c;
            (r', c2, ev_r) = recalculate_hashes hm chash r c1;
            left_hash = node_hash hm l';
            right_hash = node_hash hm r';
            (hash, c3) = chash c2 left_hash right_hash
        in (Parent l' r' hash False, c3,
            HashRemove (node_hash hm l) (node_hash hm r) # ev_l @ ev_r
              @ [HashSet left_hash right_hash hash]))"

fun known_hashes_inner :: "hash2 \<Rightarrow> Node \<Rightarrow> KnownHash list \<Rightarrow> (unit, KnownHash list) outcome" where
  "known_hashes_inner hm (Leaf e) hs = Ok hs"
| "known_hashes_inner hm (Empty d) hs = Ok hs"
| "known_hashes_inner hm (Parent l r h hash_dirty) hs =
     (if hash_dirty then Panic
      else obind
        (known_hashes_inner hm l
           (hs @ [\<lparr>kh_left = node_hash hm l, kh_right = node_hash hm r, kh_result = h\<rparr>]))
        (known_hashes_inner hm r))"

definition node_known_hashes :: "hash2 \<Rightarrow> Node \<Rightarrow> (unit, KnownHash list) outcome" where
  "node_known_hashes hm n = known_hashes_inner hm n []"

declare node_insert.simps(2,3) [simp del] hash_with_inner.simps(2,3) [simp del]

section \<open>The abstract view\<close>

fun slot :: "Node \<Rightarrow> bool list \<Rightarrow> element option" where
  "slot (Leaf e) p = (if p = [] then Some e else None)"
| "slot (Empty d) p = None"
| "slot (Parent l r h dirty) [] = None"
| "slot (Parent l r h dirty) (x # p) = slot (if x then r else l) p"

fun node_ok :: "nat \<Rightarrow> Node \<Rightarrow> bool" where
  "node_ok d (Leaf e) \<longleftrightarrow> d = 1"
| "node_ok d (Empty k) \<longleftrightarrow> k = d \<and> 1 \<le> d"
| "node_ok d (Parent l r h dirty) \<longleftrightarrow> 2 \<le> d \<and> node_ok (d - 1) l \<and> node_ok (d - 1) r"

fun merkle :: "hash2 \<Rightarrow> nat \<Rightarrow> (bool list \<Rightarrow> element option) \<Rightarrow> element" where
  "merkle hm 0 f = NULL_HASH"
| "merkle hm (Suc 0) f = (case f [] of Some e \<Rightarrow> e | None \<Rightarrow> NULL_HASH)"
| "merkle hm (Suc (Suc d)) f =
     hm (merkle hm (Suc d) (\<lambda>p. f (False # p))) (merkle hm (Suc d) (\<lambda>p. f (True # p)))"

text \<open>No hash is dirty and every cached hash is the hash of its children.\<close>

fun node_clean :: "hash2 \<Rightarrow> Node \<Rightarrow> bool" where
  "node_clean hm (Leaf e) \<longleftrightarrow> True"
| "node_clean hm (Empty d) \<longleftrightarrow> True"
| "node_clean hm (Parent l r h dirty) \<longleftrightarrow>
     \<not> dirty \<and> h = hm (node_hash hm l) (node_hash hm r) \<and> node_clean hm l \<and> node_clean hm r"

text \<open>Between insertion and recalculation: below every node that is not dirty all is clean.\<close>

fun node_marked :: "hash2 \<Rightarrow> Node \<Rightarrow> bool" where
  "node_marked hm (Leaf e) \<longleftrightarrow> True"
| "node_marked hm (Empty d) \<longleftrightarrow> True"
| "node_marked hm (Parent l r h dirty) \<longleftrightarrow>
     node_marked hm l \<and> node_marked hm r \<and> (\<not> dirty \<longrightarrow> node_clean hm (Parent l r h dirty))"

lemma node_clean_marked: "node_clean hm n \<Longrightarrow> node_marked hm n"
  by (induction hm n rule: node_clean.induct) auto

lemma merkle_empty: "merkle hm d (\<lambda>_. None) = empty_hash hm d"
  by (induction hm d rule: empty_hash.induct) (auto simp: Let_def)

lemma merkle_cong:
  assumes "\<And>p. length p = d - 1 \<Longrightarrow> f p = g p"
  shows "merkle hm d f = merkle hm d g"
  using assms
proof (induction hm d f arbitrary: g rule: merkle.induct)
  case (3 hm d f)
  have "merkle hm (Suc d) (\<lambda>p. f (x # p)) = merkle hm (Suc d) (\<lambda>p. g (x # p))" for x
    using 3 by (cases x) simp_all
  then show ?case by simp
qed simp_all

lemma node_ok_pos: "node_ok d n \<Longrightarrow> 1 \<le> d"
  by (cases n) auto

lemma slot_length: "node_ok d n \<Longrightarrow> slot n p = Some e \<Longrightarrow> length p = d - 1"
proof (induction n p arbitrary: d rule: slot.induct)
  case (4 l r h dirty x p)
  then show ?case by (cases x) fastforce+
qed (auto split: if_splits)

lemma node_hash_merkle: "node_ok d n \<Longrightarrow> node_clean hm n \<Longrightarrow> node_hash hm n = merkle hm d (slot n)"
proof (induction n arbitrary: d)
  case (Parent l r h dirty)
  then obtain k where "d = Suc (Suc k)" by (cases d; cases "d - 1") auto
  moreover from this Parent have "node_hash hm l = merkle hm (Suc k) (slot l)"
    and "node_hash hm r = merkle hm (Suc k) (slot r)" by simp_all
  ultimately show ?case using Parent.prems by simp
next
  case (Empty k)
  then show ?case using merkle_empty [of hm k] by simp
qed simp

lemma slot_split_empty: "slot (split_empty hm d) p = None"
  by (cases p) (auto simp: split_empty_def)

lemma slot_split_empty_eq: "slot (split_empty hm d) = slot (Empty d)"
  by (simp add: fun_eq_iff slot_split_empty)

lemma split_empty_ok: "2 \<le> d \<Longrightarrow> node_ok d (split_empty hm d) \<and> node_clean hm (split_empty hm d)"
  by (cases d; cases "d - 1") (auto simp: split_empty_def Let_def)

section \<open>Bulk insertion\<close>

text \<open>
  The entries still to be placed below a node at path depth \<open>pd\<close>: every bit vector has exactly the
  remaining length, and the remaining paths are strictly increasing.
\<close>

definition paths_ok :: "nat \<Rightarrow> nat \<Rightarrow> (element \<times> bool list) list \<Rightarrow> bool" where
  "paths_ok d pd kbs \<longleftrightarrow>
     (\<forall>(e, b) \<in> set kbs. length b = pd + (d - 1)) \<and>
     sorted_wrt (\<lambda>x y. drop pd (snd x) < drop pd (snd y)) kbs"

definition pending :: "nat \<Rightarrow> (element \<times> bool list) list \<Rightarrow> bool list \<Rightarrow> element option" where
  "pending pd kbs p = map_of (map (\<lambda>(e, b). (drop pd b, e)) kbs) p"

text \<open>The entries that go to the right (\<open>True\<close>) or left child.\<close>

definition branch :: "nat \<Rightarrow> bool \<Rightarrow> (element \<times> bool list) list \<Rightarrow> (element \<times> bool list) list" where
  "branch pd x kbs = filter (\<lambda>(e, b). b ! pd = x) kbs"

definition overlay :: "(bool list \<Rightarrow> element option) \<Rightarrow> (bool list \<Rightarrow> element option)
    \<Rightarrow> bool list \<Rightarrow> element option" where
  "overlay new old p = (case new p of Some e \<Rightarrow> Some e | None \<Rightarrow> old p)"

lemma drop_less_first_bit:
  fixes b b' :: "bool list"
  assumes "pd < length b" "pd < length b'" "drop pd b < drop pd b'"
  shows "b ! pd < b' ! pd \<or> b ! pd = b' ! pd \<and> drop (Suc pd) b < drop (Suc pd) b'"
  using assms(3) unfolding Cons_nth_drop_Suc [OF assms(1), symmetric]
    Cons_nth_drop_Suc [OF assms(2), symmetric] by simp

lemma right_start_split:
  assumes "paths_ok d pd kbs" "2 \<le> d"
  shows "\<exists>k. right_start pd kbs = Ok k \<and> take k kbs = branch pd False kbs \<and> drop k kbs = branch pd True kbs"
  using assms
proof (induction kbs)
  case (Cons kb kbs)
  obtain e b where kb: "kb = (e, b)" by (cases kb)
  have len: "pd < length b" and lens: "\<forall>(e, b) \<in> set kbs. pd < length b"
    using Cons.prems by (auto simp: kb paths_ok_def)
  have IH: "\<exists>k. right_start pd kbs = Ok k \<and> take k kbs = branch pd False kbs \<and> drop k kbs = branch pd True kbs"
    using Cons by (simp add: paths_ok_def)
  show ?case
  proof (cases "b ! pd")
    case True
    have "\<forall>(e', b') \<in> set kbs. b' ! pd"
      using Cons.prems lens True drop_less_first_bit [OF len]
      by (fastforce simp: kb paths_ok_def)
    then have "branch pd True kbs = kbs" "branch pd False kbs = []"
      by (auto simp: branch_def filter_id_conv filter_empty_conv)
    with True len show ?thesis by (simp add: kb branch_def)
  next
    case False
    with IH len show ?thesis by (auto simp: kb branch_def)
  qed
qed (simp add: branch_def)

lemma branch_paths_ok:
  assumes "paths_ok d pd kbs" "2 \<le> d"
  shows "paths_ok (d - 1) (Suc pd) (branch pd x kbs)"
proof -
  have "sorted_wrt (\<lambda>x y. drop pd (snd x) < drop pd (snd y)) (branch pd x kbs)"
    using assms(1) by (simp add: paths_ok_def branch_def sorted_wrt_filter)
  then have "sorted_wrt (\<lambda>x y. drop (Suc pd) (snd x) < drop (Suc pd) (snd y)) (branch pd x kbs)"
  proof (rule sorted_wrt_mono_rel [rotated])
    fix u v
    assume "u \<in> set (branch pd x kbs)" "v \<in> set (branch pd x kbs)"
      and less: "drop pd (snd u) < drop pd (snd v)"
    then have "pd < length (snd u)" "pd < length (snd v)" "snd u ! pd = snd v ! pd"
      using assms by (auto simp: branch_def paths_ok_def)
    with drop_less_first_bit [OF _ _ less] show "drop (Suc pd) (snd u) < drop (Suc pd) (snd v)"
      by auto
  qed
  with assms show ?thesis by (auto simp: paths_ok_def branch_def)
qed

lemma pending_branch:
  assumes "paths_ok d pd kbs" "2 \<le> d"
  shows "pending pd kbs (x # p) = pending (Suc pd) (branch pd x kbs) p"
    and "pending pd kbs [] = None"
proof -
  have "\<forall>(e, b) \<in> set kbs. drop pd b = b ! pd # drop (Suc pd) b"
    using assms by (auto simp: paths_ok_def Cons_nth_drop_Suc)
  then show "pending pd kbs (x # p) = pending (Suc pd) (branch pd x kbs) p"
    and "pending pd kbs [] = None"
    by (induction kbs) (auto simp: pending_def branch_def)
qed

lemma branch_drop:
  assumes "paths_ok d pd kbs" "2 \<le> d" "(e, b) \<in> set (branch pd x kbs)"
  shows "drop pd b = x # drop (Suc pd) b" "(e, b) \<in> set kbs"
proof -
  from assms have "pd < length b" "b ! pd = x" by (auto simp: paths_ok_def branch_def)
  then show "drop pd b = x # drop (Suc pd) b" using Cons_nth_drop_Suc [of pd b] by simp
  show "(e, b) \<in> set kbs" using assms(3) by (simp add: branch_def)
qed

lemma overlay_child:
  assumes "paths_ok d pd kbs" "2 \<le> d"
  shows "(\<lambda>p. overlay (pending pd kbs) (slot (Parent l r h dirty)) (x # p))
    = overlay (pending (Suc pd) (branch pd x kbs)) (slot (if x then r else l))"
  using pending_branch [OF assms] by (auto simp: overlay_def fun_eq_iff split: option.split)

lemma overlay_Nil: "overlay (pending pd []) f = f"
  by (simp add: overlay_def pending_def fun_eq_iff)

lemma paths_ok_leaf: "paths_ok 1 pd kbs \<Longrightarrow> kbs \<noteq> [] \<Longrightarrow> \<exists>e b. kbs = [(e, b)] \<and> drop pd b = []"
  by (cases kbs; cases "tl kbs") (auto simp: paths_ok_def)

lemma node_insert_Parent:
  assumes "right_start pd kbs = Ok k" "take k kbs = L" "drop k kbs = R" "kbs \<noteq> []"
    and "(if L = [] then (l, Ok False) else node_insert hm N l L (Suc pd)) = (l', Ok (L \<noteq> []))"
    and "(if R = [] then (r, Ok False) else node_insert hm N r R (Suc pd)) = (r', Ok (R \<noteq> []))"
  shows "node_insert hm N (Parent l r h dirty) kbs pd = (Parent l' r' h True, Ok True)"
proof -
  have "L \<noteq> [] \<or> R \<noteq> []" using assms(2-4) append_take_drop_id [of k kbs] by auto
  with assms show ?thesis by (auto simp: node_insert.simps(2) Let_def split: if_splits)
qed

lemma node_insert_spec:
  assumes "node_ok d n" "node_clean hm n" "paths_ok d pd kbs" "kbs \<noteq> []"
    and "\<forall>(e, b) \<in> set kbs. slot n (drop pd b) = None"
  shows "\<exists>n'. node_insert hm N n kbs pd = (n', Ok True) \<and> node_ok d n' \<and> node_marked hm n'
    \<and> slot n' = overlay (pending pd kbs) (slot n)"
  using assms
proof (induction "node_height n" arbitrary: n d kbs pd rule: less_induct)
  case less
  show ?case
  proof (cases n)
    case (Leaf e)
    with less.prems paths_ok_leaf [of pd kbs] show ?thesis by auto
  next
    case (Empty k)
    show ?thesis
    proof (cases "d = 1")
      case True
      with less.prems Empty paths_ok_leaf [of pd kbs] show ?thesis
        by (auto simp: node_insert.simps(3) overlay_def pending_def fun_eq_iff)
    next
      case False
      with less.prems Empty have d: "2 \<le> d" "k = d" by auto
      have "node_height (split_empty hm d) < node_height n"
        using d Empty by (simp add: split_empty_def)
      then have "\<exists>n'. node_insert hm N (split_empty hm d) kbs pd = (n', Ok True) \<and> node_ok d n'
          \<and> node_marked hm n' \<and> slot n' = overlay (pending pd kbs) (slot (split_empty hm d))"
        using less.prems d split_empty_ok [of d hm]
        by (intro less.hyps) (auto simp: slot_split_empty)
      with d Empty show ?thesis
        by (auto simp: node_insert.simps(3) slot_split_empty_eq)
    qed
  next
    case (Parent l r h dirty)
    with less.prems have d: "2 \<le> d" and ok: "node_ok (d - 1) l" "node_ok (d - 1) r"
      and clean: "node_clean hm l" "node_clean hm r" by auto
    let ?B = "\<lambda>x. branch pd x kbs"
    have child: "\<exists>c'. (if ?B x = [] then (c, Ok False) else node_insert hm N c (?B x) (Suc pd))
        = (c', Ok (?B x \<noteq> [])) \<and> node_ok (d - 1) c' \<and> node_marked hm c'
        \<and> slot c' = overlay (pending (Suc pd) (?B x)) (slot c)" if c: "c = (if x then r else l)" for c x
    proof (cases "?B x = []")
      case True
      with c ok clean show ?thesis
        by (auto simp: overlay_def pending_def node_clean_marked fun_eq_iff)
    next
      case False
      have "\<forall>(e, b) \<in> set (?B x). slot c (drop (Suc pd) b) = None"
        using branch_drop [OF less.prems(3) d] less.prems(5) Parent c by fastforce
      then have "\<exists>c'. node_insert hm N c (?B x) (Suc pd) = (c', Ok True) \<and> node_ok (d - 1) c'
          \<and> node_marked hm c' \<and> slot c' = overlay (pending (Suc pd) (?B x)) (slot c)"
        using False c ok clean Parent branch_paths_ok [OF less.prems(3) d]
        by (intro less.hyps) auto
      with False show ?thesis by auto
    qed
    obtain l' where l': "(if ?B False = [] then (l, Ok False) else node_insert hm N l (?B False) (Suc pd))
        = (l', Ok (?B False \<noteq> []))" "node_ok (d - 1) l'" "node_marked hm l'"
        "slot l' = overlay (pending (Suc pd) (?B False)) (slot l)"
      using child [of l False] by auto
    obtain r' where r': "(if ?B True = [] then (r, Ok False) else node_insert hm N r (?B True) (Suc pd))
        = (r', Ok (?B True \<noteq> []))" "node_ok (d - 1) r'" "node_marked hm r'"
        "slot r' = overlay (pending (Suc pd) (?B True)) (slot r)"
      using child [of r True] by auto
    obtain k where k: "right_start pd kbs = Ok k" "take k kbs = ?B False" "drop k kbs = ?B True"
      using right_start_split [OF less.prems(3) d] by auto
    have "node_insert hm N n kbs pd = (Parent l' r' h True, Ok True)"
      unfolding Parent by (rule node_insert_Parent [OF k less.prems(4) l'(1) r'(1)])
    moreover have "slot (Parent l' r' h True) = overlay (pending pd kbs) (slot n)"
    proof
      fix p
      show "slot (Parent l' r' h True) p = overlay (pending pd kbs) (slot n) p"
        using pending_branch [OF less.prems(3) d] l'(4) r'(4) Parent
        by (cases p) (auto simp: overlay_def split: option.split)
    qed
    ultimately show ?thesis using d l' r' by auto
  qed
qed

section \<open>Recalculation and the what-if hash\<close>

fun event_sound :: "hash2 \<Rightarrow> hash_event \<Rightarrow> bool" where
  "event_sound hm (HashRemove l r) \<longleftrightarrow> True"
| "event_sound hm (HashSet l r h) \<longleftrightarrow> h = hm l r"

lemma slot_Parent_cong:
  "slot l = slot l' \<Longrightarrow> slot r = slot r' \<Longrightarrow> slot (Parent l r h d) = slot (Parent l' r' h' d')"
  by (rule ext, rename_tac p, case_tac p) auto

lemma hash_with_inner_Parent:
  assumes "right_start pd kbs = Ok k" "take k kbs = L" "drop k kbs = R"
    and "(if L = [] then Ok (node_hash hm l, c) else hash_with_inner hm chash l c L (Suc pd)) = Ok (lh, c1)"
    and "(if R = [] then Ok (node_hash hm r, c1) else hash_with_inner hm chash r c1 R (Suc pd)) = Ok (rh, c2)"
  shows "hash_with_inner hm chash (Parent l r h dirty) c kbs pd = Ok (chash c2 lh rh)"
  using assms(1-3) by (simp add: hash_with_inner.simps(2) Let_def assms(4,5) del: if_split)

context hash_cache
begin

lemma recalculate_hashes_spec:
  assumes "sound c" "node_marked hm n" "node_ok d n"
  shows "\<exists>n' c' ev. recalculate_hashes hm chash n c = (n', c', ev) \<and> sound c' \<and> node_clean hm n'
    \<and> node_ok d n' \<and> slot n' = slot n \<and> list_all (event_sound hm) ev"
  using assms
proof (induction n arbitrary: c d)
  case (Parent l r h dirty)
  show ?case
  proof (cases dirty)
    case True
    from Parent.prems have sub: "node_marked hm l" "node_marked hm r" "node_ok (d - 1) l" "node_ok (d - 1) r" "2 \<le> d"
      by auto
    from Parent.IH(1) [OF Parent.prems(1) sub(1,3)] obtain l' c1 ev_l where
      l: "recalculate_hashes hm chash l c = (l', c1, ev_l)" "sound c1" "node_clean hm l'"
        "node_ok (d - 1) l'" "slot l' = slot l" "list_all (event_sound hm) ev_l" by blast
    from Parent.IH(2) [OF l(2) sub(2,4)] obtain r' c2 ev_r where
      r: "recalculate_hashes hm chash r c1 = (r', c2, ev_r)" "sound c2" "node_clean hm r'"
        "node_ok (d - 1) r'" "slot r' = slot r" "list_all (event_sound hm) ev_r" by blast
    obtain c3 where c3: "chash c2 (node_hash hm l') (node_hash hm r')
        = (hm (node_hash hm l') (node_hash hm r'), c3)" "sound c3"
      using chash_eq [OF r(2)] by blast
    have "recalculate_hashes hm chash (Parent l r h dirty) c =
        (Parent l' r' (hm (node_hash hm l') (node_hash hm r')) False, c3,
         HashRemove (node_hash hm l) (node_hash hm r) # ev_l @ ev_r
           @ [HashSet (node_hash hm l') (node_hash hm r') (hm (node_hash hm l') (node_hash hm r'))])"
      using True l(1) r(1) c3(1) by (simp add: Let_def)
    moreover have "slot (Parent l' r' (hm (node_hash hm l') (node_hash hm r')) False) = slot (Parent l r h dirty)"
      by (rule slot_Parent_cong [OF l(5) r(5)])
    ultimately show ?thesis using l r c3(2) sub(5) by simp
  qed (use Parent.prems in auto)
qed auto

lemma hash_with_inner_spec:
  assumes "sound c" "node_ok d n" "node_clean hm n" "paths_ok d pd kbs" "kbs \<noteq> []"
    and "\<forall>(e, b) \<in> set kbs. slot n (drop pd b) \<in> {None, Some e}"
  shows "\<exists>c'. hash_with_inner hm chash n c kbs pd
      = Ok (merkle hm d (overlay (pending pd kbs) (slot n)), c') \<and> sound c'"
  using assms
proof (induction "node_height n" arbitrary: n d c kbs pd rule: less_induct)
  case less
  show ?case
  proof (cases n)
    case (Leaf e)
    with less.prems paths_ok_leaf [of pd kbs] show ?thesis
      by (auto simp: overlay_def pending_def)
  next
    case (Empty k)
    show ?thesis
    proof (cases "d = 1")
      case True
      with less.prems Empty paths_ok_leaf [of pd kbs] show ?thesis
        by (auto simp: hash_with_inner.simps(3) overlay_def pending_def)
    next
      case False
      with less.prems Empty have d: "2 \<le> d" "k = d" by auto
      have "node_height (split_empty hm d) < node_height n"
        using d Empty by (simp add: split_empty_def)
      then have "\<exists>c'. hash_with_inner hm chash (split_empty hm d) c kbs pd
          = Ok (merkle hm d (overlay (pending pd kbs) (slot (split_empty hm d))), c') \<and> sound c'"
        using less.prems d split_empty_ok [of d hm]
        by (intro less.hyps) (auto simp: slot_split_empty)
      with d Empty show ?thesis by (auto simp: hash_with_inner.simps(3) slot_split_empty_eq)
    qed
  next
    case (Parent l r h dirty)
    with less.prems have d: "2 \<le> d" by auto
    let ?B = "\<lambda>x. branch pd x kbs"
    have view: "(\<lambda>p. overlay (pending pd kbs) (slot n) (x # p))
        = overlay (pending (Suc pd) (?B x)) (slot (if x then r else l))" for x
      unfolding Parent by (rule overlay_child [OF less.prems(4) d])
    have child: "\<exists>c'. (if ?B x = [] then Ok (node_hash hm m, c0) else hash_with_inner hm chash m c0 (?B x) (Suc pd))
        = Ok (merkle hm (d - 1) (\<lambda>p. overlay (pending pd kbs) (slot n) (x # p)), c') \<and> sound c'"
      if m: "m = (if x then r else l)" and c0: "sound c0" for m x c0
    proof (cases "?B x = []")
      case True
      have "node_ok (d - 1) m" "node_clean hm m" using m less.prems(2,3) Parent by auto
      with True m c0 show ?thesis by (simp add: view node_hash_merkle overlay_Nil)
    next
      case False
      have "\<forall>(e, b) \<in> set (?B x). slot m (drop (Suc pd) b) \<in> {None, Some e}"
        using branch_drop [OF less.prems(4) d] less.prems(6) Parent m by fastforce
      then have "\<exists>c'. hash_with_inner hm chash m c0 (?B x) (Suc pd)
          = Ok (merkle hm (d - 1) (overlay (pending (Suc pd) (?B x)) (slot m)), c') \<and> sound c'"
        using False m c0 less.prems Parent branch_paths_ok [OF less.prems(4) d]
        by (intro less.hyps) auto
      with False m show ?thesis by (simp add: view)
    qed
    obtain k where k: "right_start pd kbs = Ok k" "take k kbs = ?B False" "drop k kbs = ?B True"
      using right_start_split [OF less.prems(4) d] by auto
    obtain c1 where c1: "(if ?B False = [] then Ok (node_hash hm l, c) else hash_with_inner hm chash l c (?B False) (Suc pd))
        = Ok (merkle hm (d - 1) (\<lambda>p. overlay (pending pd kbs) (slot n) (False # p)), c1)" "sound c1"
      using child [of l False c] less.prems(1) by auto
    obtain c2 where c2: "(if ?B True = [] then Ok (node_hash hm r, c1) else hash_with_inner hm chash r c1 (?B True) (Suc pd))
        = Ok (merkle hm (d - 1) (\<lambda>p. overlay (pending pd kbs) (slot n) (True # p)), c2)" "sound c2"
      using child [of r True c1] c1(2) by auto
    obtain d' where "d = Suc (Suc d')" using d by (cases d; cases "d - 1") auto
    moreover have "hash_with_inner hm chash n c kbs pd
        = Ok (chash c2 (merkle hm (d - 1) (\<lambda>p. overlay (pending pd kbs) (slot n) (False # p)))
                (merkle hm (d - 1) (\<lambda>p. overlay (pending pd kbs) (slot n) (True # p))))"
      by (subst Parent) (rule hash_with_inner_Parent [OF k c1(1) c2(1)])
    ultimately show ?thesis using chash_eq [OF c2(2)] by auto
  qed
qed

text \<open>Whatever the extra elements are, the hashes that are cached are right.\<close>

lemma hash_with_inner_sound:
  "sound c \<Longrightarrow> hash_with_inner hm chash n c kbs pd = Ok (h, c') \<Longrightarrow> sound c'"
proof (induction "node_height n" arbitrary: n c kbs pd h c' rule: less_induct)
  case less
  show ?case
  proof (cases n)
    case (Leaf e)
    with less.prems show ?thesis by simp
  next
    case (Empty d)
    with less.prems less.hyps [of "split_empty hm d" c kbs pd h c'] show ?thesis
      by (auto simp: hash_with_inner.simps(3) split_empty_def split: if_splits)
  next
    case (Parent l r h0 dirty)
    obtain k where k: "right_start pd kbs = Ok k"
      using less.prems(2) Parent by (cases "right_start pd kbs") (auto simp: hash_with_inner.simps(2))
    have child: "sound c2" if "sound c1" "m \<in> {l, r}"
      "(if ks = [] then Ok (node_hash hm m, c1) else hash_with_inner hm chash m c1 ks (Suc pd)) = Ok (x, c2)" for m c1 ks x c2
    proof (cases "ks = []")
      case False
      have "node_height m < node_height n" using that(2) Parent by auto
      from less.hyps [OF this that(1)] that(3) False show ?thesis by simp
    qed (use that in simp)
    obtain a c1 b c2 where
      1: "(if take k kbs = [] then Ok (node_hash hm l, c) else hash_with_inner hm chash l c (take k kbs) (Suc pd)) = Ok (a, c1)"
      and 2: "(if drop k kbs = [] then Ok (node_hash hm r, c1) else hash_with_inner hm chash r c1 (drop k kbs) (Suc pd)) = Ok (b, c2)"
      and 3: "(h, c') = chash c2 a b"
      using less.prems(2) k unfolding Parent by (auto simp: hash_with_inner.simps(2) outcome_simps Let_def simp del: take_eq_Nil drop_eq_Nil)
    from child [OF less.prems(1) _ 1] have "sound c1" by simp
    from child [OF this _ 2] have "sound c2" by simp
    with chash_sound 3 show ?thesis by (metis snd_conv)
  qed
qed

lemma hash_with_inner_Nil:
  assumes "sound c" "node_ok d n" "node_clean hm n"
  shows "\<exists>c'. hash_with_inner hm chash n c [] pd = Ok (node_hash hm n, c') \<and> sound c'"
proof -
  have parent: "\<exists>c'. hash_with_inner hm chash (Parent l r h dirty) c [] pd = Ok (hm (node_hash hm l) (node_hash hm r), c') \<and> sound c'"
    for l r h dirty
    using chash_eq [OF assms(1), of "node_hash hm l" "node_hash hm r"] by (auto simp: hash_with_inner.simps(2))
  show ?thesis
  proof (cases n)
    case (Empty k)
    show ?thesis
    proof (cases "k = 1")
      case True
      with Empty assms show ?thesis by (simp add: hash_with_inner.simps(3))
    next
      case False
      with Empty assms(2) obtain j where j: "k = Suc (Suc j)" by (cases k; cases "k - 1") auto
      with parent [of "Empty (Suc j)" "Empty (Suc j)" "empty_hash hm k" False] Empty show ?thesis
        by (simp add: hash_with_inner.simps(3) split_empty_def Let_def)
    qed
  qed (use parent assms in auto)
qed

end

end
