(* ===== verification/Smirk_Batch.thy ===== *)
theory Smirk_Batch
  imports Smirk_Node
begin

text \<open>
  Batches of entries to insert into a tree (\<^verbatim>\<open>pkg/smirk/src/batch/mod.rs\<close>, \<^verbatim>\<open>batch/merge.rs\<close>) and the
  collision errors of \<^verbatim>\<open>tree/error.rs\<close>. A batch keeps the list of its entries and the set of their
  least significant bits (here a list without duplicates), and refuses an entry whose slot is taken.
\<close>

record CollisionError =
  collisions :: "Collision list"

definition ce_new :: CollisionError where
  "ce_new = \<lparr>collisions = []\<rparr>"

definition ce_push :: "CollisionError \<Rightarrow> Collision \<Rightarrow> CollisionError" where
  "ce_push e c = e\<lparr>collisions := collisions e @ [c]\<rparr>"

definition ce_is_empty :: "CollisionError \<Rightarrow> bool" where
  "ce_is_empty e \<longleftrightarrow> collisions e = []"

record 'v Batch =
  entries :: "(element \<times> 'v) list"
  lsbs :: "bool list list"

definition batch_new :: "'v Batch" where
  "batch_new = \<lparr>entries = [], lsbs = []\<rparr>"

definition batch_is_empty :: "'v Batch \<Rightarrow> bool" where
  "batch_is_empty b \<longleftrightarrow> entries b = []"

definition elements :: "'v Batch \<Rightarrow> element list" where
  "elements b = map fst (entries b)"

definition find_element_with_lsb :: "nat \<Rightarrow> 'v Batch \<Rightarrow> bool list \<Rightarrow> element option" where
  "find_element_with_lsb D b l = iter_find (\<lambda>e. lsb_bits e (D - 1) = l) (elements b)"

definition batch_insert ::
    "nat \<Rightarrow> element \<Rightarrow> 'v \<Rightarrow> 'v Batch \<Rightarrow> (CollisionError, 'v Batch) outcome" where
  "batch_insert D e v b =
     (let l = lsb_bits e (D - 1) in
      if l \<in> set (lsbs b)
      then (case find_element_with_lsb D b (lsb_bits e (D - 1)) of
              None \<Rightarrow> Panic
            | Some t \<Rightarrow> Err \<lparr>collisions = [\<lparr>in_tree = t, inserted = e, depth = D, struct_name = BatchName\<rparr>]\<rparr>)
      else Ok (b\<lparr>lsbs := List.insert l (lsbs b), entries := entries b @ [(e, v)]\<rparr>))"

definition from_entries :: "nat \<Rightarrow> (element \<times> 'v) list \<Rightarrow> (CollisionError, 'v Batch) outcome" where
  "from_entries D es = ofold (\<lambda>(e, v) b. batch_insert D e v b) es batch_new"

definition from_elements :: "nat \<Rightarrow> 'v \<Rightarrow> element list \<Rightarrow> (CollisionError, 'v Batch) outcome" where
  "from_elements D v_default es = from_entries D (map (\<lambda>e. (e, v_default)) es)"

text \<open>The collisions of a merge, one per common slot; a missing element would be an \<^verbatim>\<open>unwrap\<close> panic.\<close>

fun merge_collisions ::
    "nat \<Rightarrow> 'v Batch \<Rightarrow> 'v Batch \<Rightarrow> bool list list \<Rightarrow> (CollisionError, Collision list) outcome" where
  "merge_collisions D a b [] = Ok []"
| "merge_collisions D a b (l # ls) =
     (case (find_element_with_lsb D a l, find_element_with_lsb D b l) of
        (Some x, Some y) \<Rightarrow>
          omap (\<lambda>cs. \<lparr>in_tree = x, inserted = y, depth = D, struct_name = BatchName\<rparr> # cs)
            (merge_collisions D a b ls)
      | _ \<Rightarrow> Panic)"

definition merge_batch :: "nat \<Rightarrow> 'v Batch \<Rightarrow> 'v Batch \<Rightarrow> (CollisionError, 'v Batch) outcome" where
  "merge_batch D a b =
     (let colliding_lsbs = filter (\<lambda>l. l \<in> set (lsbs b)) (lsbs a) in
      if length colliding_lsbs \<noteq> 0
      then obind (merge_collisions D a b colliding_lsbs) (\<lambda>cs. Err \<lparr>collisions = cs\<rparr>)
      else Ok (a\<lparr>entries := entries a @ entries b,
                 lsbs := fold List.insert (lsbs b) (lsbs a)\<rparr>))"

section \<open>The batch invariant\<close>

text \<open>The slots are exactly those of the entries, and no two entries share one.\<close>

definition batch_ok :: "nat \<Rightarrow> 'v Batch \<Rightarrow> bool" where
  "batch_ok D b \<longleftrightarrow>
     distinct (map (\<lambda>e. lsb_bits e (D - 1)) (elements b)) \<and>
     set (lsbs b) = (\<lambda>e. lsb_bits e (D - 1)) ` set (elements b) \<and> distinct (lsbs b)"

lemma batch_new_ok: "batch_ok D batch_new"
  by (simp add: batch_ok_def batch_new_def elements_def)

lemma find_element_with_lsb_Some:
  assumes "batch_ok D b" "l \<in> set (lsbs b)"
  shows "\<exists>e. find_element_with_lsb D b l = Some e \<and> e \<in> set (elements b) \<and> lsb_bits e (D - 1) = l"
proof -
  from assms have "find_element_with_lsb D b l \<noteq> None"
    by (auto simp: batch_ok_def find_element_with_lsb_def iter_find_def find_None_iff)
  then show ?thesis
    by (auto simp: find_element_with_lsb_def iter_find_def dest: find_SomeD)
qed

lemma batch_insert_cases:
  assumes "batch_ok D b"
  shows "(\<exists>t \<in> set (elements b). collides_with D t e
            \<and> batch_insert D e v b = Err \<lparr>collisions =
                [\<lparr>in_tree = t, inserted = e, depth = D, struct_name = BatchName\<rparr>]\<rparr>)
    \<or> (\<forall>t \<in> set (elements b). \<not> collides_with D t e) \<and>
        (\<exists>b'. batch_insert D e v b = Ok b' \<and> entries b' = entries b @ [(e, v)] \<and> batch_ok D b')"
proof (cases "lsb_bits e (D - 1) \<in> set (lsbs b)")
  case True
  from find_element_with_lsb_Some [OF assms True] True show ?thesis
    by (auto simp: batch_insert_def collides_with_def Let_def)
next
  case False
  then have "\<forall>t \<in> set (elements b). \<not> collides_with D t e"
    using assms unfolding batch_ok_def collides_with_def by (metis image_eqI)
  moreover have "\<exists>b'. batch_insert D e v b = Ok b' \<and> entries b' = entries b @ [(e, v)] \<and> batch_ok D b'"
    using False assms by (auto simp: batch_insert_def batch_ok_def elements_def Let_def)
  ultimately show ?thesis by blast
qed

lemma batch_insert_Ok:
  assumes "batch_ok D b" "batch_insert D e v b = Ok b'"
  shows "batch_ok D b' \<and> entries b' = entries b @ [(e, v)]"
  using batch_insert_cases [OF assms(1), of e v] assms(2) by auto

lemma from_entries_gen:
  "batch_ok D b \<Longrightarrow> ofold (\<lambda>(e, v) b. batch_insert D e v b) es b = Ok b' \<Longrightarrow>
     batch_ok D b' \<and> entries b' = entries b @ es"
proof (induction es arbitrary: b)
  case (Cons ev es)
  obtain e v where ev: "ev = (e, v)" by (cases ev)
  from Cons.prems(2) obtain b1 where b1: "batch_insert D e v b = Ok b1"
    "ofold (\<lambda>(e, v) b. batch_insert D e v b) es b1 = Ok b'"
    by (auto simp: ev outcome_simps)
  with batch_insert_Ok [OF Cons.prems(1) b1(1)] Cons.IH [of b1] show ?case by (simp add: ev)
qed simp

lemma from_entries_Ok:
  "from_entries D es = Ok b \<Longrightarrow> batch_ok D b \<and> entries b = es"
  using from_entries_gen [OF batch_new_ok, of D es b]
  by (simp add: from_entries_def batch_new_def)

lemma from_entries_total:
  assumes "distinct (map (\<lambda>(e, v). lsb_bits e (D - 1)) es)"
  shows "\<exists>b. from_entries D es = Ok b"
proof -
  have "\<exists>b'. ofold (\<lambda>(e, v) b. batch_insert D e v b) es b = Ok b'"
    if "batch_ok D b" "distinct (map (\<lambda>(e, v). lsb_bits e (D - 1)) (entries b @ es))" for b
    using that
  proof (induction es arbitrary: b)
    case (Cons ev es)
    obtain e v where ev: "ev = (e, v)" by (cases ev)
    have "\<forall>t \<in> set (elements b). \<not> collides_with D t e"
      using Cons.prems(2) by (force simp: ev elements_def collides_with_def)
    with batch_insert_cases [OF Cons.prems(1), of e v] obtain b1 where
      "batch_insert D e v b = Ok b1" "entries b1 = entries b @ [(e, v)]" "batch_ok D b1" by blast
    with Cons.IH [of b1] Cons.prems(2) show ?case by (simp add: ev)
  qed simp
  from this [OF batch_new_ok] assms show ?thesis
    by (simp add: from_entries_def batch_new_def)
qed

lemma fold_insert_set: "set (fold List.insert xs ys) = set xs \<union> set ys"
  by (induction xs arbitrary: ys) auto

lemma fold_insert_distinct: "distinct ys \<Longrightarrow> distinct (fold List.insert xs ys)"
  by (induction xs arbitrary: ys) auto

lemma merge_collisions_total:
  assumes "batch_ok D a" "batch_ok D b" "set ls \<subseteq> set (lsbs a) \<inter> set (lsbs b)"
  shows "\<exists>cs. merge_collisions D a b ls = Ok cs \<and> length cs = length ls \<and>
    (\<forall>c \<in> set cs. in_tree c \<in> set (elements a) \<and> inserted c \<in> set (elements b)
       \<and> collides_with D (in_tree c) (inserted c) \<and> depth c = D \<and> struct_name c = BatchName)"
  using assms(3)
proof (induction ls)
  case (Cons l ls)
  then obtain cs where cs: "merge_collisions D a b ls = Ok cs" "length cs = length ls"
    "\<forall>c \<in> set cs. in_tree c \<in> set (elements a) \<and> inserted c \<in> set (elements b)
       \<and> collides_with D (in_tree c) (inserted c) \<and> depth c = D \<and> struct_name c = BatchName"
    by auto
  from Cons.prems find_element_with_lsb_Some [OF assms(1), of l]
    find_element_with_lsb_Some [OF assms(2), of l]
  obtain x y where "find_element_with_lsb D a l = Some x" "find_element_with_lsb D b l = Some y"
    "x \<in> set (elements a)" "y \<in> set (elements b)" "lsb_bits x (D - 1) = l" "lsb_bits y (D - 1) = l"
    by auto
  with cs show ?case by (simp add: collides_with_def)
qed simp

lemma lsbs_disjoint_iff:
  assumes "batch_ok D a" "batch_ok D b"
  shows "set (lsbs a) \<inter> set (lsbs b) = {} \<longleftrightarrow>
    (\<forall>x \<in> set (elements a). \<forall>y \<in> set (elements b). \<not> collides_with D x y)"
  using assms unfolding batch_ok_def collides_with_def by auto

text \<open>
  Merging two well-formed batches never panics. Without colliding elements the result is
  well formed and has the entries of both in order; otherwise the error lists, for each common
  slot, one element of each batch that occupies it.
\<close>

theorem merge_batch_spec:
  assumes "batch_ok D a" "batch_ok D b"
  shows "if \<forall>x \<in> set (elements a). \<forall>y \<in> set (elements b). \<not> collides_with D x y
    then \<exists>m. merge_batch D a b = Ok m \<and> batch_ok D m \<and> entries m = entries a @ entries b
    else \<exists>e. merge_batch D a b = Err e \<and> collisions e \<noteq> [] \<and>
      (\<forall>c \<in> set (collisions e). in_tree c \<in> set (elements a) \<and> inserted c \<in> set (elements b)
         \<and> collides_with D (in_tree c) (inserted c))"
proof (cases "set (lsbs a) \<inter> set (lsbs b) = {}")
  case True
  then have f: "filter (\<lambda>l. l \<in> set (lsbs b)) (lsbs a) = []" by (auto simp: filter_empty_conv)
  have free: "\<forall>x \<in> set (elements a). \<forall>y \<in> set (elements b). \<not> collides_with D x y"
    using True lsbs_disjoint_iff [OF assms] by simp
  have d: "distinct (map (\<lambda>e. lsb_bits e (D - 1)) (elements a @ elements b))"
    using assms True by (simp add: batch_ok_def)
  have "merge_batch D a b = Ok (a\<lparr>entries := entries a @ entries b,
      lsbs := fold List.insert (lsbs b) (lsbs a)\<rparr>)"
    by (simp add: merge_batch_def f)
  moreover have "batch_ok D (a\<lparr>entries := entries a @ entries b,
      lsbs := fold List.insert (lsbs b) (lsbs a)\<rparr>)"
    using assms d by (auto simp: batch_ok_def elements_def fold_insert_set fold_insert_distinct)
  ultimately show ?thesis using free by simp
next
  case False
  let ?ls = "filter (\<lambda>l. l \<in> set (lsbs b)) (lsbs a)"
  from False have ne: "?ls \<noteq> []" by (auto simp: filter_empty_conv)
  have clash: "\<not> (\<forall>x \<in> set (elements a). \<forall>y \<in> set (elements b). \<not> collides_with D x y)"
    using False lsbs_disjoint_iff [OF assms] by simp
  from merge_collisions_total [OF assms, of ?ls] obtain cs where
    cs: "merge_collisions D a b ?ls = Ok cs" "length cs = length ?ls"
      "\<forall>c \<in> set cs. in_tree c \<in> set (elements a) \<and> inserted c \<in> set (elements b)
       \<and> collides_with D (in_tree c) (inserted c)" by auto
  with ne have "cs \<noteq> []" by auto
  moreover have "merge_batch D a b = Err \<lparr>collisions = cs\<rparr>"
    using ne cs(1) by (simp add: merge_batch_def)
  ultimately show ?thesis using cs(3) clash by auto
qed

theorem merge_batch_spec_witness:
  "\<exists>a b m. from_entries 4 [(1 :: element, 10 :: nat)] = Ok a \<and> from_entries 4 [(6, 20)] = Ok b
    \<and> merge_batch 4 a b = Ok m \<and> entries m = [(1, 10), (6, 20)]"
proof -
  obtain a where a: "from_entries 4 [(1 :: element, 10 :: nat)] = Ok a"
    using from_entries_total [of 4 "[(1 :: element, 10 :: nat)]"] by auto
  obtain b where b: "from_entries 4 [(6 :: element, 20 :: nat)] = Ok b"
    using from_entries_total [of 4 "[(6 :: element, 20 :: nat)]"] by auto
  have "\<not> collides_with 4 1 6" by (simp add: collides_with_def lsb_bits_eq upt_rec)
  with merge_batch_spec [of 4 a b] from_entries_Ok [OF a] from_entries_Ok [OF b] a b show ?thesis
    by (auto simp: elements_def)
qed

end
