(* ===== verification/Smirk_Tree.thy ===== *)
theory Smirk_Tree
  imports Smirk_Batch "HOL-Library.Multiset"
begin

text \<open>
  The sparse Merkle tree of \<^verbatim>\<open>pkg/smirk/src/tree\<close>: the \<^verbatim>\<open>Tree\<close> struct and its queries (\<^verbatim>\<open>mod.rs\<close>),
  insertion (\<^verbatim>\<open>insert.rs\<close>, \<^verbatim>\<open>raw_api.rs\<close>, \<^verbatim>\<open>batch.rs\<close>) and Merkle paths (\<^verbatim>\<open>path.rs\<close>). The const
  generic \<^verbatim>\<open>DEPTH\<close> is the argument \<open>D\<close>; the theorems take it between 1 and 257, the depths at
  which an element has enough bits. Functions that take \<^verbatim>\<open>&mut self\<close> return the tree beside their
  result, so that what an error leaves behind is visible.
\<close>

record ('v, 'c) Tree =
  tree :: Node
  tree_entries :: "(element, 'v) btree"
  cache :: 'c

type_synonym 'c chash = "'c \<Rightarrow> element \<Rightarrow> element \<Rightarrow> element \<times> 'c"

definition new_with_cache :: "nat \<Rightarrow> 'c \<Rightarrow> ('v, 'c) Tree" where
  "new_with_cache D c = \<lparr>tree = Empty D, tree_entries = [], cache = c\<rparr>"

definition tree_len :: "('v, 'c) Tree \<Rightarrow> nat" where
  "tree_len t = length (tree_entries t)"

definition tree_is_empty :: "('v, 'c) Tree \<Rightarrow> bool" where
  "tree_is_empty t \<longleftrightarrow> tree_entries t = []"

definition contains_element :: "('v, 'c) Tree \<Rightarrow> element \<Rightarrow> bool" where
  "contains_element t e \<longleftrightarrow> map_of (tree_entries t) e \<noteq> None"

definition tree_get :: "('v, 'c) Tree \<Rightarrow> element \<Rightarrow> 'v option" where
  "tree_get t e = map_of (tree_entries t) e"

definition root_hash :: "hash2 \<Rightarrow> ('v, 'c) Tree \<Rightarrow> element" where
  "root_hash hm t = node_hash hm (tree t)"

definition tree_eq :: "hash2 \<Rightarrow> ('v, 'c) Tree \<Rightarrow> ('v, 'c) Tree \<Rightarrow> bool" where
  "tree_eq hm t u \<longleftrightarrow> root_hash hm t = root_hash hm u"

definition root_hash_with ::
    "hash2 \<Rightarrow> 'c chash \<Rightarrow> nat \<Rightarrow> ('v, 'c) Tree \<Rightarrow> element list
      \<Rightarrow> (Collision, element \<times> 'c) outcome" where
  "root_hash_with hm chash D t extra = hash_with hm chash D (tree t) (cache t) extra"

definition tree_elements :: "('v, 'c) Tree \<Rightarrow> (element \<times> 'v) list" where
  "tree_elements t = tree_entries t"

definition known_hashes :: "hash2 \<Rightarrow> ('v, 'c) Tree \<Rightarrow> (unit, KnownHash list) outcome" where
  "known_hashes hm t = node_known_hashes hm (tree t)"

section \<open>Insertion\<close>

fun check_loop ::
    "nat \<Rightarrow> 'v Batch \<Rightarrow> element list \<Rightarrow> CollisionError \<Rightarrow> (CollisionError, CollisionError) outcome" where
  "check_loop D batch [] err = Ok err"
| "check_loop D batch (tree_element # ks) err =
     (let tree_lsb = lsb_bits tree_element (D - 1) in
      if tree_lsb \<in> set (lsbs batch)
      then (case iter_find (\<lambda>e. lsb_bits e (D - 1) = tree_lsb) (elements batch) of
              None \<Rightarrow> Panic
            | Some batch_element \<Rightarrow>
                check_loop D batch ks
                  (ce_push err \<lparr>in_tree = tree_element, inserted = batch_element, depth = D,
                               struct_name = TreeName\<rparr>))
      else check_loop D batch ks err)"

definition check_collisions ::
    "nat \<Rightarrow> ('v, 'c) Tree \<Rightarrow> 'v Batch \<Rightarrow> (CollisionError, unit) outcome" where
  "check_collisions D t batch =
     obind (check_loop D batch (bt_keys (tree_entries t)) ce_new)
       (\<lambda>err. if \<not> ce_is_empty err then Err err else Ok ())"

definition insert_without_hashing ::
    "hash2 \<Rightarrow> nat \<Rightarrow> ('v, 'c) Tree \<Rightarrow> (element \<times> 'v) list
      \<Rightarrow> ('v, 'c) Tree \<times> (Collision, unit) outcome" where
  "insert_without_hashing hm D t es =
     (if es = [] then (t, Ok ())
      else if \<exists>(e, v) \<in> set es. e = NULL_HASH
      then (t, Err \<lparr>in_tree = NULL_HASH, inserted = NULL_HASH, depth = D, struct_name = TreeName\<rparr>)
      else
        (case iter_find (\<lambda>(e, v). e \<in> set (bt_keys (tree_entries t))) es of
           Some (e, v) \<Rightarrow>
             (t, Err \<lparr>in_tree = e, inserted = e, depth = D, struct_name = TreeName\<rparr>)
         | None \<Rightarrow>
             (let kbs = sort_key snd (map (\<lambda>(e, v). (e, lsb_bits e (D - 1))) es);
                  (n, result) = node_insert hm D (tree t) kbs 0
              in (case result of
                    Ok True \<Rightarrow>
                      (t\<lparr>tree := n,
                         tree_entries := fold (\<lambda>(e, v). bt_insert e v) es (tree_entries t)\<rparr>, Ok ())
                  | Ok False \<Rightarrow> (t\<lparr>tree := n\<rparr>, Panic)
                  | Err c \<Rightarrow> (t\<lparr>tree := n\<rparr>, Err c)
                  | Panic \<Rightarrow> (t\<lparr>tree := n\<rparr>, Panic)))))"

definition insert_batch ::
    "hash2 \<Rightarrow> 'c chash \<Rightarrow> nat \<Rightarrow> ('v, 'c) Tree \<Rightarrow> 'v Batch
      \<Rightarrow> ('v, 'c) Tree \<times> hash_event list \<times> (CollisionError, unit) outcome" where
  "insert_batch hm chash D t batch =
     (case check_collisions D t batch of
        Err e \<Rightarrow> (t, [], Err e)
      | Panic \<Rightarrow> (t, [], Panic)
      | Ok _ \<Rightarrow>
          (let (t1, res) = insert_without_hashing hm D t (entries batch) in
           case res of
             Ok _ \<Rightarrow>
               (let (n, c, ev) = recalculate_hashes hm chash (tree t1) (cache t1)
                in (t1\<lparr>tree := n, cache := c\<rparr>, ev, Ok ()))
           | _ \<Rightarrow> (t1, [], Panic)))"

definition tree_insert ::
    "hash2 \<Rightarrow> 'c chash \<Rightarrow> nat \<Rightarrow> ('v, 'c) Tree \<Rightarrow> element \<Rightarrow> 'v
      \<Rightarrow> ('v, 'c) Tree \<times> (CollisionError, unit) outcome" where
  "tree_insert hm chash D t e v =
     (case unwrap (batch_insert D e v batch_new) of
        Ok batch \<Rightarrow> (let (t', ev, res) = insert_batch hm chash D t batch in (t', res))
      | Err x \<Rightarrow> (t, Err x)
      | Panic \<Rightarrow> (t, Panic))"

section \<open>Merkle paths\<close>

record Path =
  siblings :: "element list"
  path_root_hash :: element

definition fill_empty :: "hash2 \<Rightarrow> nat \<Rightarrow> nat \<Rightarrow> element list \<Rightarrow> element list" where
  "fill_empty hm d index sib =
     fold (\<lambda>(i, dep) s. s[index + i := node_hash hm (Empty dep)]) (enumerate 0 (rev [1..<d])) sib"

fun path_loop ::
    "hash2 \<Rightarrow> Node \<Rightarrow> bool list \<Rightarrow> nat \<Rightarrow> element list \<Rightarrow> (CollisionError, element list) outcome" where
  "path_loop hm n [] index sib = Ok sib"
| "path_loop hm (Parent l r h dirty) (b # bs) index sib =
     (case b of
        False \<Rightarrow> path_loop hm l bs (Suc index) (sib[index := node_hash hm r])
      | True \<Rightarrow> path_loop hm r bs (Suc index) (sib[index := node_hash hm l]))"
| "path_loop hm (Empty d) (b # bs) index sib = Ok (fill_empty hm d index sib)"
| "path_loop hm (Leaf e) (b # bs) index sib = Panic"

definition path_for ::
    "hash2 \<Rightarrow> nat \<Rightarrow> ('v, 'c) Tree \<Rightarrow> element \<Rightarrow> (CollisionError, Path) outcome" where
  "path_for hm D t e =
     obind (path_loop hm (tree t) (lsb_bits e (D - 1)) 0 (replicate D NULL_HASH))
       (\<lambda>sib. let sib' = sib[D - 1 := e] in
          Ok \<lparr>siblings = rev (take (D - 1) sib') @ drop (D - 1) sib',
              path_root_hash = root_hash hm t\<rparr>)"

definition siblings_deepest_first :: "nat \<Rightarrow> Path \<Rightarrow> element list" where
  "siblings_deepest_first D p = take (D - 1) (siblings p)"

definition path_element :: "Path \<Rightarrow> element" where
  "path_element p = last (siblings p)"

definition path_lsb :: "nat \<Rightarrow> Path \<Rightarrow> bool list" where
  "path_lsb D p = lsb_bits (path_element p) (D - 1)"

definition compute_root_hash :: "hash2 \<Rightarrow> nat \<Rightarrow> Path \<Rightarrow> element \<Rightarrow> element" where
  "compute_root_hash hm D p e =
     compute_merkle_root hm e (zip (siblings_deepest_first D p) (rev (path_lsb D p)))"

definition actual_root_hash :: "Path \<Rightarrow> element" where
  "actual_root_hash p = path_root_hash p"

definition proves :: "hash2 \<Rightarrow> nat \<Rightarrow> Path \<Rightarrow> element \<Rightarrow> bool" where
  "proves hm D p e \<longleftrightarrow> compute_root_hash hm D p e = actual_root_hash p"

fun insert_with_paths ::
    "hash2 \<Rightarrow> 'c chash \<Rightarrow> nat \<Rightarrow> ('v, 'c) Tree \<Rightarrow> (element \<times> 'v) list
      \<Rightarrow> ('v, 'c) Tree \<times> (CollisionError, Path list) outcome" where
  "insert_with_paths hm chash D t [] = (t, Ok [])"
| "insert_with_paths hm chash D t ((e, v) # es) =
     (let (t1, res) = tree_insert hm chash D t e v in
      case res of
        Err x \<Rightarrow> (t1, Err x)
      | Panic \<Rightarrow> (t1, Panic)
      | Ok _ \<Rightarrow>
          (case path_for hm D t1 e of
             Ok p \<Rightarrow> (let (t2, ps) = insert_with_paths hm chash D t1 es in (t2, omap (\<lambda>r. p # r) ps))
           | Err x \<Rightarrow> (t1, Err x)
           | Panic \<Rightarrow> (t1, Panic)))"

definition insert_with_paths_default ::
    "hash2 \<Rightarrow> 'c chash \<Rightarrow> nat \<Rightarrow> 'v \<Rightarrow> ('v, 'c) Tree \<Rightarrow> element list
      \<Rightarrow> ('v, 'c) Tree \<times> (CollisionError, Path list) outcome" where
  "insert_with_paths_default hm chash D v_default t es =
     insert_with_paths hm chash D t (map (\<lambda>e. (e, v_default)) es)"

section \<open>The tree invariant\<close>

definition tree_keys :: "('v, 'c) Tree \<Rightarrow> element set" where
  "tree_keys t = set (bt_keys (tree_entries t))"

definition tree_ok :: "hash2 \<Rightarrow> nat \<Rightarrow> ('v, 'c) Tree \<Rightarrow> bool" where
  "tree_ok hm D t \<longleftrightarrow>
     1 \<le> D \<and> D \<le> 257 \<and> node_ok D (tree t) \<and> node_clean hm (tree t) \<and> bt_ok (tree_entries t)
     \<and> NULL_HASH \<notin> tree_keys t
     \<and> (\<forall>p e. slot (tree t) p = Some e \<longleftrightarrow> e \<in> tree_keys t \<and> p = lsb_bits e (D - 1))"

lemma new_with_cache_ok: "1 \<le> D \<Longrightarrow> D \<le> 257 \<Longrightarrow> tree_ok hm D (new_with_cache D c)"
  by (simp add: tree_ok_def new_with_cache_def tree_keys_def bt_keys_def)

lemma contains_element_iff: "contains_element t e \<longleftrightarrow> e \<in> tree_keys t"
  unfolding contains_element_def tree_keys_def by (simp add: map_of_None_keys)

lemma tree_ok_no_collision:
  assumes "tree_ok hm D t" "a \<in> tree_keys t" "b \<in> tree_keys t" "collides_with D a b"
  shows "a = b"
proof -
  have "slot (tree t) (lsb_bits a (D - 1)) = Some a" "slot (tree t) (lsb_bits b (D - 1)) = Some b"
    using assms unfolding tree_ok_def by blast+
  with assms(4) show ?thesis by (simp add: collides_with_def)
qed

lemma slot_free_iff:
  assumes "tree_ok hm D t"
  shows "slot (tree t) (lsb_bits e (D - 1)) = None \<longleftrightarrow> (\<forall>k \<in> tree_keys t. \<not> collides_with D k e)"
proof -
  have "slot (tree t) (lsb_bits e (D - 1)) = Some k \<longleftrightarrow> k \<in> tree_keys t \<and> collides_with D k e" for k
    using assms by (auto simp: tree_ok_def collides_with_def)
  then show ?thesis by (metis not_Some_eq)
qed

lemma check_loop_spec:
  assumes "batch_ok D batch"
  shows "\<exists>cs. check_loop D batch ks err = Ok \<lparr>collisions = collisions err @ cs\<rparr>
    \<and> (cs = [] \<longleftrightarrow> (\<forall>k \<in> set ks. \<forall>e \<in> set (elements batch). \<not> collides_with D k e))
    \<and> (\<forall>c \<in> set cs. in_tree c \<in> set ks \<and> inserted c \<in> set (elements batch)
          \<and> collides_with D (in_tree c) (inserted c) \<and> depth c = D \<and> struct_name c = TreeName)"
proof (induction ks arbitrary: err)
  case (Cons k ks)
  show ?case
  proof (cases "lsb_bits k (D - 1) \<in> set (lsbs batch)")
    case True
    from find_element_with_lsb_Some [OF assms True] obtain e where
      e: "iter_find (\<lambda>e. lsb_bits e (D - 1) = lsb_bits k (D - 1)) (elements batch) = Some e"
        "e \<in> set (elements batch)" "collides_with D k e"
      unfolding find_element_with_lsb_def collides_with_def by metis
    let ?c = "\<lparr>in_tree = k, inserted = e, depth = D, struct_name = TreeName\<rparr>"
    from Cons.IH [of "ce_push err ?c"] obtain cs where
      "check_loop D batch ks (ce_push err ?c) = Ok \<lparr>collisions = collisions err @ ?c # cs\<rparr>"
      "\<forall>c \<in> set cs. in_tree c \<in> set ks \<and> inserted c \<in> set (elements batch)
          \<and> collides_with D (in_tree c) (inserted c) \<and> depth c = D \<and> struct_name c = TreeName"
      by (auto simp: ce_push_def)
    with True e show ?thesis by (intro exI [of _ "?c # cs"]) (auto simp: Let_def)
  next
    case False
    then have "\<forall>e \<in> set (elements batch). \<not> collides_with D k e"
      using assms unfolding batch_ok_def collides_with_def by (metis image_eqI)
    with False Cons.IH [of err] show ?thesis by (auto simp: Let_def)
  qed
qed (intro exI [of _ "[]"], simp)

lemma check_collisions_Ok_iff:
  assumes "batch_ok D batch"
  shows "check_collisions D t batch = Ok () \<longleftrightarrow>
    (\<forall>k \<in> tree_keys t. \<forall>e \<in> set (elements batch). \<not> collides_with D k e)"
  using check_loop_spec [OF assms, of "bt_keys (tree_entries t)" ce_new]
  by (auto simp: check_collisions_def ce_new_def ce_is_empty_def tree_keys_def)

lemma check_collisions_Err:
  assumes "batch_ok D batch" "k \<in> tree_keys t" "e \<in> set (elements batch)" "collides_with D k e"
  shows "\<exists>err. check_collisions D t batch = Err err \<and> collisions err \<noteq> [] \<and>
    (\<forall>c \<in> set (collisions err). in_tree c \<in> tree_keys t \<and> inserted c \<in> set (elements batch)
          \<and> collides_with D (in_tree c) (inserted c) \<and> depth c = D \<and> struct_name c = TreeName)"
proof -
  from check_loop_spec [OF assms(1), of "bt_keys (tree_entries t)" ce_new] obtain cs where
    cs: "check_loop D batch (bt_keys (tree_entries t)) ce_new = Ok \<lparr>collisions = cs\<rparr>"
      "cs = [] \<longleftrightarrow> (\<forall>k \<in> tree_keys t. \<forall>e \<in> set (elements batch). \<not> collides_with D k e)"
      "\<forall>c \<in> set cs. in_tree c \<in> tree_keys t \<and> inserted c \<in> set (elements batch)
          \<and> collides_with D (in_tree c) (inserted c) \<and> depth c = D \<and> struct_name c = TreeName"
    by (auto simp: ce_new_def tree_keys_def)
  moreover from cs(2) assms(2-4) have "cs \<noteq> []" by auto
  ultimately show ?thesis by (simp add: check_collisions_def ce_is_empty_def)
qed

lemma keyed_paths_ok:
  assumes "1 \<le> D" "D \<le> 257" "distinct (map (\<lambda>e. lsb_bits e (D - 1)) es)"
  shows "paths_ok D 0 (sort_key snd (map (\<lambda>e. (e, lsb_bits e (D - 1))) es))"
proof -
  let ?kbs = "sort_key snd (map (\<lambda>e. (e, lsb_bits e (D - 1))) es)"
  have "mset (map snd ?kbs) = mset (map (\<lambda>e. lsb_bits e (D - 1)) es)"
    by (simp add: mset_map image_mset.compositionality comp_def)
  from mset_eq_imp_distinct_iff [OF this] assms(3) have "distinct (map snd ?kbs)" by (rule iffD2)
  moreover have "sorted (map snd ?kbs)" by (rule sorted_sort_key)
  ultimately have "sorted_wrt (<) (map snd ?kbs)" by (simp only: strict_sorted_iff)
  then show ?thesis
    using assms(1,2) by (auto simp: paths_ok_def sorted_wrt_map length_lsb_bits)
qed

lemma keyed_pending:
  assumes "distinct (map (\<lambda>e. lsb_bits e (D - 1)) es)"
  shows "pending 0 (sort_key snd (map (\<lambda>e. (e, lsb_bits e (D - 1))) es)) p = Some e
    \<longleftrightarrow> e \<in> set es \<and> p = lsb_bits e (D - 1)"
proof -
  let ?kbs = "sort_key snd (map (\<lambda>e. (e, lsb_bits e (D - 1))) es)"
  have "mset (map fst (map (\<lambda>(e, b). (drop 0 b, e)) ?kbs)) = mset (map (\<lambda>e. lsb_bits e (D - 1)) es)"
    by (simp add: mset_map image_mset.compositionality comp_def case_prod_beta)
  from mset_eq_imp_distinct_iff [OF this] assms
  have "distinct (map fst (map (\<lambda>(e, b). (drop 0 b, e)) ?kbs))" by (rule iffD2)
  then show ?thesis unfolding pending_def by (subst map_of_eq_Some_iff) auto
qed

lemma fold_bt_insert:
  assumes "bt_ok m"
  shows "bt_ok (fold (\<lambda>(e, v). bt_insert e v) es m)"
    and "set (bt_keys (fold (\<lambda>(e, v). bt_insert e v) es m)) = set (bt_keys m) \<union> fst ` set es"
proof -
  show "bt_ok (fold (\<lambda>(e, v). bt_insert e v) es m)"
    by (rule btree.invar_fold_insert [OF assms])
  show "set (bt_keys (fold (\<lambda>(e, v). bt_insert e v) es m)) = set (bt_keys m) \<union> fst ` set es"
    by (induction es arbitrary: m) (auto simp: set_bt_keys_insert)
qed

text \<open>What a batch without collisions and without the null element does to the unhashed tree.\<close>

lemma insert_without_hashing_spec:
  assumes ok: "tree_ok hm D t" and b: "batch_ok D batch" "NULL_HASH \<notin> set (elements batch)"
    and free: "\<forall>k \<in> tree_keys t. \<forall>e \<in> set (elements batch). \<not> collides_with D k e"
  shows "\<exists>t1. insert_without_hashing hm D t (entries batch) = (t1, Ok ()) \<and> cache t1 = cache t
    \<and> tree_entries t1 = fold (\<lambda>(e, v). bt_insert e v) (entries batch) (tree_entries t)
    \<and> node_ok D (tree t1) \<and> node_marked hm (tree t1)
    \<and> (\<forall>p e. slot (tree t1) p = Some e \<longleftrightarrow>
          (e \<in> tree_keys t \<or> e \<in> set (elements batch)) \<and> p = lsb_bits e (D - 1))"
proof (cases "entries batch = []")
  case True
  then show ?thesis
    using ok by (auto simp: insert_without_hashing_def tree_ok_def elements_def node_clean_marked)
next
  case False
  let ?es = "elements batch"
  let ?kbs = "sort_key snd (map (\<lambda>e. (e, lsb_bits e (D - 1))) ?es)"
  have D: "1 \<le> D" "D \<le> 257" and dist: "distinct (map (\<lambda>e. lsb_bits e (D - 1)) ?es)"
    using ok b by (auto simp: tree_ok_def batch_ok_def)
  have kbs: "map (\<lambda>(e, v). (e, lsb_bits e (D - 1))) (entries batch) = map (\<lambda>e. (e, lsb_bits e (D - 1))) ?es"
    by (simp add: elements_def case_prod_beta)
  have "length ?kbs = length (entries batch)" by (simp add: elements_def)
  then have ne: "?kbs \<noteq> []" using False by (metis length_0_conv)
  have "\<forall>(e, p) \<in> set ?kbs. slot (tree t) (drop 0 p) = None"
    using slot_free_iff [OF ok] free by auto
  from node_insert_spec [OF _ _ keyed_paths_ok [OF D dist] ne this, of hm D] ok
  obtain n where n: "node_insert hm D (tree t) ?kbs 0 = (n, Ok True)" "node_ok D n" "node_marked hm n"
    "slot n = overlay (pending 0 ?kbs) (slot (tree t))" by (auto simp: tree_ok_def)
  have fresh: "iter_find (\<lambda>(e, v). e \<in> set (bt_keys (tree_entries t))) (entries batch) = None"
    using free by (fastforce simp: iter_find_def find_None_iff tree_keys_def elements_def collides_with_def)
  have nonull: "\<not> (\<exists>(e, v) \<in> set (entries batch). e = NULL_HASH)"
    using b(2) by (force simp: elements_def)
  have "slot n p = Some e \<longleftrightarrow> (e \<in> tree_keys t \<or> e \<in> set ?es) \<and> p = lsb_bits e (D - 1)" for p e
  proof (cases "pending 0 ?kbs p")
    case None
    then have "\<not> (e \<in> set ?es \<and> p = lsb_bits e (D - 1))"
      using keyed_pending [OF dist, of p e] by simp
    with None n(4) ok show ?thesis by (auto simp: overlay_def tree_ok_def)
  next
    case (Some x)
    then have "x \<in> set ?es" "p = lsb_bits x (D - 1)" using keyed_pending [OF dist] by auto
    moreover from this have "e \<notin> tree_keys t" if "p = lsb_bits e (D - 1)"
      using free that by (auto simp: collides_with_def)
    ultimately show ?thesis
      using Some n(4) keyed_pending [OF dist, of p e] by (auto simp: overlay_def)
  qed
  moreover have "insert_without_hashing hm D t (entries batch) = (t\<lparr>tree := n,
      tree_entries := fold (\<lambda>(e, v). bt_insert e v) (entries batch) (tree_entries t)\<rparr>, Ok ())"
    using False fresh nonull unfolding insert_without_hashing_def kbs Let_def n(1) by simp
  ultimately show ?thesis using n by simp
qed

context hash_cache
begin

lemma insert_batch_spec:
  assumes ok: "tree_ok hm D t" "sound (cache t)" and b: "batch_ok D batch" "NULL_HASH \<notin> set (elements batch)"
    and free: "\<forall>k \<in> tree_keys t. \<forall>e \<in> set (elements batch). \<not> collides_with D k e"
  shows "\<exists>t' ev. insert_batch hm chash D t batch = (t', ev, Ok ()) \<and> tree_ok hm D t' \<and> sound (cache t')
    \<and> tree_keys t' = tree_keys t \<union> set (elements batch)
    \<and> tree_entries t' = fold (\<lambda>(e, v). bt_insert e v) (entries batch) (tree_entries t)
    \<and> list_all (event_sound hm) ev"
proof -
  from insert_without_hashing_spec [OF ok(1) b free] obtain t1 where
    t1: "insert_without_hashing hm D t (entries batch) = (t1, Ok ())" "cache t1 = cache t"
      "tree_entries t1 = fold (\<lambda>(e, v). bt_insert e v) (entries batch) (tree_entries t)"
      "node_ok D (tree t1)" "node_marked hm (tree t1)"
      "\<forall>p e. slot (tree t1) p = Some e \<longleftrightarrow>
          (e \<in> tree_keys t \<or> e \<in> set (elements batch)) \<and> p = lsb_bits e (D - 1)" by auto
  from recalculate_hashes_spec [OF _ t1(5,4), of "cache t1"] ok(2) t1(2) obtain n c ev where
    r: "recalculate_hashes hm chash (tree t1) (cache t1) = (n, c, ev)" "sound c" "node_clean hm n"
      "node_ok D n" "slot n = slot (tree t1)" "list_all (event_sound hm) ev" by auto
  have bt: "bt_ok (tree_entries t)" using ok(1) by (simp add: tree_ok_def)
  let ?t = "t1\<lparr>tree := n, cache := c\<rparr>"
  have keys: "tree_keys ?t = tree_keys t \<union> set (elements batch)"
    using fold_bt_insert(2) [OF bt] t1(3) by (simp add: tree_keys_def elements_def)
  have "check_collisions D t batch = Ok ()" by (rule check_collisions_Ok_iff [OF b(1), THEN iffD2, OF free])
  then have "insert_batch hm chash D t batch = (?t, ev, Ok ())"
    using t1(1) r(1) by (simp add: insert_batch_def)
  moreover have "tree_ok hm D ?t"
    using ok(1) b(2) r t1 keys fold_bt_insert(1) [OF bt] by (auto simp: tree_ok_def)
  ultimately show ?thesis using keys r t1(3) by simp
qed

lemma insert_batch_collision:
  assumes "batch_ok D batch" "k \<in> tree_keys t" "e \<in> set (elements batch)" "collides_with D k e"
  shows "\<exists>err. insert_batch hm chash D t batch = (t, [], Err err) \<and> collisions err \<noteq> [] \<and>
    (\<forall>c \<in> set (collisions err). in_tree c \<in> tree_keys t \<and> inserted c \<in> set (elements batch)
          \<and> collides_with D (in_tree c) (inserted c))"
  using check_collisions_Err [OF assms] by (auto simp: insert_batch_def)

end

end
