(* ===== verification/Smirk_Correct.thy ===== *)
theory Smirk_Correct
  imports Smirk_Tree
begin

text \<open>
  The correctness theorems of the sparse Merkle tree: outcomes of insertion, the what-if hash,
  Merkle paths (that the path of a slot proves exactly its content, up to collisions of the hash
  among the values the proof hashes), and the binding of the root hash to the set of elements.
\<close>

section \<open>Sibling lists\<close>

fun sibs :: "hash2 \<Rightarrow> Node \<Rightarrow> bool list \<Rightarrow> element list" where
  "sibs hm n [] = []"
| "sibs hm (Parent l r h dirty) (b # bs) =
     node_hash hm (if b then l else r) # sibs hm (if b then r else l) bs"
| "sibs hm (Empty d) (b # bs) = map (empty_hash hm) (rev [1..<d])"
| "sibs hm (Leaf e) (b # bs) = []"

lemma fill_loop:
  assumes "j + k + length xs \<le> length s"
  shows "fold (\<lambda>(i, x) s. s[j + i := f x]) (enumerate k xs) s
    = take (j + k) s @ map f xs @ drop (j + k + length xs) s"
  using assms
proof (induction xs arbitrary: k s)
  case (Cons x xs)
  then have "fold (\<lambda>(i, x) s. s[j + i := f x]) (enumerate (Suc k) xs) (s[j + k := f x])
    = take (j + Suc k) (s[j + k := f x]) @ map f xs @ drop (j + Suc k + length xs) (s[j + k := f x])"
    by (intro Cons.IH) simp
  also have "take (j + Suc k) (s[j + k := f x]) = take (j + k) s @ [f x]"
    using Cons.prems by (simp add: take_Suc_conv_app_nth)
  finally show ?case using Cons.prems by (simp add: drop_update_cancel)
qed simp

lemma path_loop_spec:
  assumes "node_ok d n" "length p = d - 1" "index + (d - 1) \<le> length s"
  shows "path_loop hm n p index s = Ok (take index s @ sibs hm n p @ drop (index + (d - 1)) s)
    \<and> length (sibs hm n p) = d - 1"
  using assms
proof (induction hm n p index s arbitrary: d rule: path_loop.induct)
  case (2 hm l r h dirty b bs index s)
  then obtain k where k: "d = Suc (Suc k)" by (cases d; cases "d - 1") auto
  with 2 have d: "length bs = Suc k - 1" "Suc index + (Suc k - 1) \<le> length s"
    "node_ok (Suc k) l" "node_ok (Suc k) r" by auto
  have upd: "take (Suc index) (s[index := x]) = take index s @ [x]"
    "drop (Suc (index + k)) (s[index := x]) = drop (Suc (index + k)) s" for x
    using d by (simp_all add: take_Suc_conv_app_nth)
  show ?case
  proof (cases b)
    case True
    with 2(1) [OF _ d(4,1)] d show ?thesis by (simp add: k upd)
  next
    case False
    with 2(2) [OF _ d(3,1)] d show ?thesis by (simp add: k upd)
  qed
next
  case (3 hm k b bs index s)
  then show ?case
    using fill_loop [of index 0 "rev [1..<d]" s "empty_hash hm"] by (simp add: fill_empty_def)
qed auto

lemma sibs_split_empty:
  "length p = d - 1 \<Longrightarrow> sibs hm (Empty d) p = sibs hm (split_empty hm d) p"
proof (cases p)
  case (Cons b bs)
  assume "length p = d - 1"
  then obtain k where d: "d = Suc (Suc k)" "length bs = k" using Cons by (cases d; cases "d - 1") auto
  have "sibs hm (Empty (Suc k)) bs = map (empty_hash hm) (rev [1..<Suc k])"
    using d(2) by (cases bs) auto
  then show ?thesis using Cons d by (simp add: split_empty_def)
qed simp

lemma compute_path_merkle:
  assumes "node_ok d n" "node_clean hm n" "length p = d - 1"
  shows "compute_merkle_root hm x (zip (rev (sibs hm n p)) (rev p)) = merkle hm d ((slot n)(p \<mapsto> x))"
  using assms
proof (induction p arbitrary: n d)
  case Nil
  then have "d = 1" using node_ok_pos [of d n] by simp
  then show ?case by simp
next
  case (Cons b bs)
  then obtain k where d: "d = Suc (Suc k)" by (cases d; cases "d - 1") auto
  have step: "compute_merkle_root hm x (zip (rev (sibs hm (Parent l r h dirty) (b # bs))) (rev (b # bs)))
      = merkle hm d ((slot (Parent l r h dirty))(b # bs \<mapsto> x))"
    if P: "node_ok d (Parent l r h dirty)" "node_clean hm (Parent l r h dirty)" for l r h dirty
  proof -
    let ?m = "if b then r else l" and ?s = "if b then l else r"
    have m: "node_ok (Suc k) ?m" "node_clean hm ?m" "node_ok (Suc k) ?s" "node_clean hm ?s"
      using P d by auto
    have len: "length (sibs hm ?m bs) = length bs"
      using path_loop_spec [OF m(1), of bs 0 "replicate k 0" hm] Cons.prems(3) d by simp
    have IH: "compute_merkle_root hm x (zip (rev (sibs hm ?m bs)) (rev bs))
        = merkle hm (Suc k) ((slot ?m)(bs \<mapsto> x))"
      by (rule Cons.IH [OF m(1,2)]) (use Cons.prems(3) d in simp)
    have sib: "node_hash hm ?s = merkle hm (Suc k) (slot ?s)" by (rule node_hash_merkle [OF m(3,4)])
    have view: "(\<lambda>q. ((slot (Parent l r h dirty))(b # bs \<mapsto> x)) (c # q))
        = (if c = b then (slot ?m)(bs \<mapsto> x) else slot ?s)" for c
      by (auto simp: fun_eq_iff)
    show ?thesis
      using IH sib view [of True] view [of False] len
      by (cases b) (simp_all add: d zip_append compute_merkle_root_append)
  qed
  show ?case
  proof (cases n)
    case (Leaf e)
    with Cons.prems d show ?thesis by simp
  next
    case (Empty j)
    with Cons.prems(1) have j: "j = d" by simp
    have "compute_merkle_root hm x (zip (rev (sibs hm (split_empty hm d) (b # bs))) (rev (b # bs)))
        = merkle hm d ((slot (split_empty hm d))(b # bs \<mapsto> x))"
      unfolding split_empty_def
      by (rule step) (use split_empty_ok [of d hm] d in \<open>auto simp: split_empty_def\<close>)
    then show ?thesis
      unfolding Empty j slot_split_empty_eq sibs_split_empty [OF Cons.prems(3), of hm] .
  next
    case (Parent l r h dirty)
    with Cons.prems step show ?thesis by blast
  qed
qed

lemma path_for_spec:
  assumes "tree_ok hm D t"
  shows "path_for hm D t e = Ok \<lparr>siblings = rev (sibs hm (tree t) (lsb_bits e (D - 1))) @ [e],
    path_root_hash = root_hash hm t\<rparr>"
    and "length (sibs hm (tree t) (lsb_bits e (D - 1))) = D - 1"
proof -
  have D: "1 \<le> D" "D \<le> 257" "node_ok D (tree t)" using assms by (auto simp: tree_ok_def)
  let ?p = "lsb_bits e (D - 1)"
  have len: "length ?p = D - 1" using D by (simp add: length_lsb_bits)
  from path_loop_spec [OF D(3) len, of 0 "replicate D NULL_HASH" hm] D
  have loop: "path_loop hm (tree t) ?p 0 (replicate D NULL_HASH) = Ok (sibs hm (tree t) ?p @ [NULL_HASH])"
    and sl: "length (sibs hm (tree t) ?p) = D - 1" by auto
  show "length (sibs hm (tree t) ?p) = D - 1" by (rule sl)
  have "(sibs hm (tree t) ?p @ [NULL_HASH])[D - 1 := e] = sibs hm (tree t) ?p @ [e]"
    using sl by (simp add: list_update_append)
  then show "path_for hm D t e = Ok \<lparr>siblings = rev (sibs hm (tree t) ?p) @ [e],
      path_root_hash = root_hash hm t\<rparr>"
    unfolding path_for_def loop using sl by simp
qed

lemma compute_root_hash_eq:
  assumes "tree_ok hm D t" "path_for hm D t e = Ok p"
  shows "compute_root_hash hm D p x
      = compute_merkle_root hm x (zip (rev (sibs hm (tree t) (lsb_bits e (D - 1)))) (rev (lsb_bits e (D - 1))))"
    and "compute_root_hash hm D p x = merkle hm D ((slot (tree t))(lsb_bits e (D - 1) \<mapsto> x))"
    and "actual_root_hash p = root_hash hm t"
proof -
  have p: "p = \<lparr>siblings = rev (sibs hm (tree t) (lsb_bits e (D - 1))) @ [e], path_root_hash = root_hash hm t\<rparr>"
    using path_for_spec(1) [OF assms(1), of e] assms(2) by simp
  show 1: "compute_root_hash hm D p x
      = compute_merkle_root hm x (zip (rev (sibs hm (tree t) (lsb_bits e (D - 1)))) (rev (lsb_bits e (D - 1))))"
    using path_for_spec(2) [OF assms(1), of e]
    by (simp add: p compute_root_hash_def siblings_deepest_first_def path_lsb_def path_element_def)
  show "compute_root_hash hm D p x = merkle hm D ((slot (tree t))(lsb_bits e (D - 1) \<mapsto> x))"
    unfolding 1 using assms(1) by (intro compute_path_merkle) (auto simp: tree_ok_def length_lsb_bits)
  show "actual_root_hash p = root_hash hm t" by (simp add: p actual_root_hash_def)
qed

lemma root_hash_merkle: "tree_ok hm D t \<Longrightarrow> root_hash hm t = merkle hm D (slot (tree t))"
  by (simp add: root_hash_def tree_ok_def node_hash_merkle)

lemma slot_eqI:
  assumes "tree_ok hm D t" "tree_ok hm D u" "tree_keys t = tree_keys u"
  shows "slot (tree t) = slot (tree u)"
proof
  fix p
  have "slot (tree t) p = Some e \<longleftrightarrow> slot (tree u) p = Some e" for e
    using assms by (simp add: tree_ok_def)
  then show "slot (tree t) p = slot (tree u) p" by (metis not_Some_eq)
qed

lemma slot_singleton:
  assumes "tree_ok hm D t" "tree_keys t = {e}"
  shows "slot (tree t) = (\<lambda>_. None)(lsb_bits e (D - 1) \<mapsto> e)"
proof
  fix p
  have "slot (tree t) p = Some x \<longleftrightarrow> x = e \<and> p = lsb_bits e (D - 1)" for x
    using assms by (auto simp: tree_ok_def)
  then show "slot (tree t) p = ((\<lambda>_. None)(lsb_bits e (D - 1) \<mapsto> e)) p" by (metis fun_upd_apply not_Some_eq)
qed

text \<open>What a slot holds: the element of the tree with these low bits, or the null hash.\<close>

definition slot_content :: "nat \<Rightarrow> ('v, 'c) Tree \<Rightarrow> element \<Rightarrow> element" where
  "slot_content D t e =
     (case iter_find (\<lambda>k. collides_with D k e) (bt_keys (tree_entries t)) of
        Some k \<Rightarrow> k | None \<Rightarrow> NULL_HASH)"

lemma slot_content_slot:
  assumes "tree_ok hm D t"
  shows "slot_content D t e = (case slot (tree t) (lsb_bits e (D - 1)) of Some k \<Rightarrow> k | None \<Rightarrow> NULL_HASH)"
proof (cases "slot (tree t) (lsb_bits e (D - 1))")
  case None
  then show ?thesis using slot_free_iff [OF assms, of e]
    by (auto simp: slot_content_def iter_find_def tree_keys_def dest: find_SomeD split: option.split)
next
  case (Some k)
  then have k: "k \<in> tree_keys t" "collides_with D k e"
    using assms by (auto simp: tree_ok_def collides_with_def)
  then have "iter_find (\<lambda>k. collides_with D k e) (bt_keys (tree_entries t)) \<noteq> None"
    by (auto simp: iter_find_def find_None_iff tree_keys_def)
  then obtain k' where k': "iter_find (\<lambda>k. collides_with D k e) (bt_keys (tree_entries t)) = Some k'"
    by blast
  then have "k' \<in> tree_keys t" "collides_with D k' e"
    by (auto simp: iter_find_def tree_keys_def dest: find_SomeD)
  with k tree_ok_no_collision [OF assms] have "k' = k" by (simp add: collides_with_def)
  with k' Some show ?thesis by (simp add: slot_content_def)
qed

lemma merkle_null: "merkle hm d (f(p \<mapsto> NULL_HASH)) = merkle hm d (f(p := None))"
proof (induction hm d f arbitrary: p rule: merkle.induct)
  case (3 hm d f)
  show ?case
  proof (cases p)
    case (Cons b q)
    then have "(\<lambda>a. (f(p := v)) (c # a)) = (if c = b then (\<lambda>a. f (c # a))(q := v) else (\<lambda>a. f (c # a)))" for c v
      by (auto simp: fun_eq_iff)
    with 3 show ?thesis by (cases b) (simp_all add: fun_upd_def)
  qed simp
qed auto

lemma proves_slot_content:
  assumes "tree_ok hm D t" "path_for hm D t e = Ok p"
  shows "compute_root_hash hm D p (slot_content D t e) = root_hash hm t"
proof (cases "slot (tree t) (lsb_bits e (D - 1))")
  case None
  then have "(slot (tree t))(lsb_bits e (D - 1) := None) = slot (tree t)" by auto
  with None show ?thesis
    by (simp add: compute_root_hash_eq(2) [OF assms] slot_content_slot [OF assms(1)] merkle_null
        root_hash_merkle [OF assms(1)] del: One_nat_def)
next
  case (Some k)
  then have "(slot (tree t))(lsb_bits e (D - 1) \<mapsto> k) = slot (tree t)" by auto
  with Some show ?thesis
    by (simp add: compute_root_hash_eq(2) [OF assms] slot_content_slot [OF assms(1)]
        root_hash_merkle [OF assms(1)] del: One_nat_def)
qed

section \<open>Single insertions\<close>

lemma batch_singleton:
  "\<exists>b. batch_insert D e v batch_new = Ok b \<and> batch_ok D b \<and> entries b = [(e, v)]"
  using batch_insert_cases [OF batch_new_ok, of D e v]
  by (auto simp: batch_new_def elements_def)

lemma map_of_rev_distinct: "distinct (map fst xs) \<Longrightarrow> map_of (rev xs) = map_of xs"
  by (rule map_of_eqI) (auto simp: rev_map [symmetric] map_of_eq_Some_iff)

lemma tree_get_insert:
  assumes "bt_ok m" "batch_ok D b"
  shows "map_of (fold (\<lambda>(e, v). bt_insert e v) (entries b) m) e =
    (case map_of (entries b) e of Some v \<Rightarrow> Some v | None \<Rightarrow> map_of m e)"
proof -
  have "distinct (elements b)"
    using assms(2) unfolding batch_ok_def distinct_map by simp
  then have "distinct (map fst (entries b))" by (simp add: elements_def)
  then show ?thesis
    using btree.get_fold_insert [OF assms(1), of "entries b" e] by (simp add: map_of_rev_distinct)
qed

context hash_cache
begin

lemma tree_insert_collides:
  assumes "k \<in> tree_keys t" "collides_with D k e"
  shows "\<exists>err. tree_insert hm chash D t e v = (t, Err err) \<and> collisions err \<noteq> [] \<and>
    (\<forall>c \<in> set (collisions err). in_tree c \<in> tree_keys t \<and> inserted c = e \<and> collides_with D (in_tree c) e)"
proof -
  obtain b where b: "batch_insert D e v batch_new = Ok b" "batch_ok D b" "entries b = [(e, v)]"
    using batch_singleton [of D e v] by blast
  then have el: "elements b = [e]" by (simp add: elements_def)
  from insert_batch_collision [OF b(2) assms(1), of e] assms(2) obtain err where
    "insert_batch hm chash D t b = (t, [], Err err)" "collisions err \<noteq> []"
    "\<forall>c \<in> set (collisions err). in_tree c \<in> tree_keys t \<and> inserted c \<in> {e} \<and> collides_with D (in_tree c) (inserted c)"
    by (auto simp: el)
  with b(1) show ?thesis by (auto simp: tree_insert_def)
qed

lemma tree_insert_null:
  assumes "\<forall>k \<in> tree_keys t. \<not> collides_with D k NULL_HASH"
  shows "tree_insert hm chash D t NULL_HASH v = (t, Panic)"
proof -
  obtain b where b: "batch_insert D NULL_HASH v batch_new = Ok b" "batch_ok D b" "entries b = [(NULL_HASH, v)]"
    using batch_singleton [of D NULL_HASH v] by blast
  have "check_collisions D t b = Ok ()"
    using assms b(3) by (intro check_collisions_Ok_iff [OF b(2), THEN iffD2]) (auto simp: elements_def)
  with b show ?thesis by (simp add: tree_insert_def insert_batch_def insert_without_hashing_def)
qed

lemma tree_insert_free:
  assumes "tree_ok hm D t" "sound (cache t)" "\<forall>k \<in> tree_keys t. \<not> collides_with D k e" "e \<noteq> NULL_HASH"
  shows "\<exists>t'. tree_insert hm chash D t e v = (t', Ok ()) \<and> tree_ok hm D t' \<and> sound (cache t')
    \<and> tree_keys t' = Set.insert e (tree_keys t) \<and> tree_get t' = (tree_get t)(e \<mapsto> v)
    \<and> slot (tree t') = (slot (tree t))(lsb_bits e (D - 1) \<mapsto> e)"
proof -
  obtain b where b: "batch_insert D e v batch_new = Ok b" "batch_ok D b" "entries b = [(e, v)]"
    using batch_singleton [of D e v] by blast
  then have el: "elements b = [e]" by (simp add: elements_def)
  have bt: "bt_ok (tree_entries t)" using assms(1) by (simp add: tree_ok_def)
  obtain t' ev where t': "insert_batch hm chash D t b = (t', ev, Ok ())" "tree_ok hm D t'" "sound (cache t')"
    "tree_keys t' = tree_keys t \<union> {e}" "tree_entries t' = bt_insert e v (tree_entries t)"
    using insert_batch_spec [OF assms(1,2) b(2)] assms(3,4) by (auto simp: el b(3))
  have "slot (tree t') p = ((slot (tree t))(lsb_bits e (D - 1) \<mapsto> e)) p" for p
  proof -
    have "slot (tree t') p = Some x \<longleftrightarrow> ((slot (tree t))(lsb_bits e (D - 1) \<mapsto> e)) p = Some x" for x
      using assms(1,3) t'(2,4) by (auto simp: tree_ok_def collides_with_def)
    then show ?thesis by (metis not_Some_eq)
  qed
  then have "slot (tree t') = (slot (tree t))(lsb_bits e (D - 1) \<mapsto> e)" by blast
  with t' b(1) bt show ?thesis
    by (auto simp: tree_insert_def tree_get_def bt_insert_lookup fun_eq_iff)
qed

end

section \<open>Binding: what the root hash commits to\<close>

text \<open>The pairs that are hashed when a root is computed, from a map of slots or from a path.\<close>

fun merkle_pairs :: "hash2 \<Rightarrow> nat \<Rightarrow> (bool list \<Rightarrow> element option) \<Rightarrow> (element \<times> element) set" where
  "merkle_pairs hm 0 f = {}"
| "merkle_pairs hm (Suc 0) f = {}"
| "merkle_pairs hm (Suc (Suc d)) f =
     {(merkle hm (Suc d) (\<lambda>p. f (False # p)), merkle hm (Suc d) (\<lambda>p. f (True # p)))}
     \<union> merkle_pairs hm (Suc d) (\<lambda>p. f (False # p)) \<union> merkle_pairs hm (Suc d) (\<lambda>p. f (True # p))"

fun root_pairs :: "hash2 \<Rightarrow> element \<Rightarrow> (element \<times> bool) list \<Rightarrow> (element \<times> element) list" where
  "root_pairs hm leaf [] = []"
| "root_pairs hm leaf ((s, b) # rest) =
     (let pr = (if b then (s, leaf) else (leaf, s)) in pr # root_pairs hm (hm (fst pr) (snd pr)) rest)"

definition slot_value :: "element option \<Rightarrow> element" where
  "slot_value x = (case x of Some e \<Rightarrow> e | None \<Rightarrow> NULL_HASH)"

lemma slot_value_key:
  assumes "tree_ok hm D t"
  shows "e \<in> tree_keys t \<longleftrightarrow> e \<noteq> NULL_HASH \<and> slot_value (slot (tree t) (lsb_bits e (D - 1))) = e"
proof (cases "slot (tree t) (lsb_bits e (D - 1))")
  case None
  moreover have "slot (tree t) (lsb_bits e (D - 1)) = Some e" if "e \<in> tree_keys t"
    using that assms unfolding tree_ok_def by blast
  ultimately show ?thesis by (auto simp: slot_value_def simp del: One_nat_def)
next
  case (Some x)
  then have "x \<in> tree_keys t" using assms unfolding tree_ok_def by blast
  moreover have "slot (tree t) (lsb_bits e (D - 1)) = Some e" if "e \<in> tree_keys t"
    using that assms unfolding tree_ok_def by blast
  moreover have "NULL_HASH \<notin> tree_keys t" using assms unfolding tree_ok_def by blast
  ultimately show ?thesis using Some by (auto simp: slot_value_def simp del: One_nat_def)
qed

lemma merkle_binding:
  assumes "merkle hm d f = merkle hm d g"
    and "inj_on (\<lambda>(l, r). hm l r) (merkle_pairs hm d f \<union> merkle_pairs hm d g)"
    and "length p = d - 1" "1 \<le> d"
  shows "slot_value (f p) = slot_value (g p)"
  using assms
proof (induction hm d f arbitrary: g p rule: merkle.induct)
  case (3 hm d f)
  obtain b q where p: "p = b # q" "length q = d" using 3(5) by (cases p) auto
  let ?f = "\<lambda>c p. f (c # p)" and ?g = "\<lambda>c p. g (c # p)"
  have "(merkle hm (Suc d) (?f False), merkle hm (Suc d) (?f True))
      = (merkle hm (Suc d) (?g False), merkle hm (Suc d) (?g True))"
    using 3(3) by (intro inj_onD [OF 3(4)]) auto
  then have eq: "merkle hm (Suc d) (?f b) = merkle hm (Suc d) (?g b)" by (cases b) auto
  have "inj_on (\<lambda>(l, r). hm l r) (merkle_pairs hm (Suc d) (?f b) \<union> merkle_pairs hm (Suc d) (?g b))"
    by (rule inj_on_subset [OF 3(4)]) (cases b; auto)
  with eq 3(1,2) [of "?g b" q] p show ?case by (cases b) auto
qed (auto simp: slot_value_def)

lemma compute_merkle_root_collision:
  assumes "compute_merkle_root hm x ss = compute_merkle_root hm y ss" "x \<noteq> y"
  shows "\<exists>i < length ss. root_pairs hm x ss ! i \<noteq> root_pairs hm y ss ! i
    \<and> case_prod hm (root_pairs hm x ss ! i) = case_prod hm (root_pairs hm y ss ! i)"
  using assms
proof (induction ss arbitrary: x y)
  case (Cons sb ss)
  obtain s b where sb: "sb = (s, b)" by (cases sb)
  let ?px = "if b then (s, x) else (x, s)" and ?py = "if b then (s, y) else (y, s)"
  have ne: "?px \<noteq> ?py" using Cons.prems(2) by auto
  show ?case
  proof (cases "case_prod hm ?px = case_prod hm ?py")
    case True
    with ne sb show ?thesis by (intro exI [of _ 0]) (auto simp: Let_def split: if_splits)
  next
    case False
    moreover have "compute_merkle_root hm (case_prod hm ?px) ss = compute_merkle_root hm (case_prod hm ?py) ss"
      using Cons.prems(1) sb by (cases b) auto
    ultimately obtain i where "i < length ss"
      "root_pairs hm (case_prod hm ?px) ss ! i \<noteq> root_pairs hm (case_prod hm ?py) ss ! i"
      "case_prod hm (root_pairs hm (case_prod hm ?px) ss ! i)
        = case_prod hm (root_pairs hm (case_prod hm ?py) ss ! i)"
      using Cons.IH by blast
    then show ?thesis
      by (intro exI [of _ "Suc i"]) (auto simp: sb Let_def split: if_splits)
  qed
qed simp

section \<open>Roots as functions of the key set\<close>

text \<open>The map of slots that a set of elements without collisions determines.\<close>

definition key_slots :: "nat \<Rightarrow> element set \<Rightarrow> bool list \<Rightarrow> element option" where
  "key_slots D K p =
     (if \<exists>e \<in> K. p = lsb_bits e (D - 1) then Some (THE e. e \<in> K \<and> p = lsb_bits e (D - 1)) else None)"

lemma key_slots_eqI:
  assumes "\<And>p e. f p = Some e \<longleftrightarrow> e \<in> K \<and> p = lsb_bits e (D - 1)"
  shows "f = key_slots D K"
proof
  fix p
  show "f p = key_slots D K p"
  proof (cases "f p")
    case None
    then show ?thesis using assms [of p] by (auto simp: key_slots_def)
  next
    case (Some e)
    then have "e \<in> K" "p = lsb_bits e (D - 1)" "\<And>x. x \<in> K \<and> p = lsb_bits x (D - 1) \<Longrightarrow> x = e"
      using assms [of p] by (metis option.inject)+
    then show ?thesis unfolding key_slots_def using Some by (auto intro!: the_equality [symmetric])
  qed
qed

lemma slot_key_slots: "tree_ok hm D t \<Longrightarrow> slot (tree t) = key_slots D (tree_keys t)"
  by (rule key_slots_eqI) (simp add: tree_ok_def)

lemma overlay_key_slots:
  assumes ok: "tree_ok hm D t" and d: "distinct (map (\<lambda>e. lsb_bits e (D - 1)) es)"
    and free: "\<forall>k \<in> tree_keys t. \<forall>e \<in> set es. \<not> collides_with D k e"
  shows "overlay (pending 0 (sort_key snd (map (\<lambda>e. (e, lsb_bits e (D - 1))) es))) (slot (tree t))
    = key_slots D (tree_keys t \<union> set es)"
proof (rule key_slots_eqI)
  fix p x
  let ?P = "pending 0 (sort_key snd (map (\<lambda>e. (e, lsb_bits e (D - 1))) es))"
  note pend = keyed_pending [OF d, of p]
  have tr: "slot (tree t) p = Some x \<longleftrightarrow> x \<in> tree_keys t \<and> p = lsb_bits x (D - 1)"
    using ok unfolding tree_ok_def by blast
  show "overlay ?P (slot (tree t)) p = Some x \<longleftrightarrow> x \<in> tree_keys t \<union> set es \<and> p = lsb_bits x (D - 1)"
  proof (cases "?P p")
    case None
    then show ?thesis using tr pend [of x] by (auto simp: overlay_def)
  next
    case (Some y)
    then have "y \<in> set es" "p = lsb_bits y (D - 1)" using pend by blast+
    with Some tr pend free show ?thesis unfolding overlay_def collides_with_def by (simp; metis)
  qed
qed

context hash_cache
begin

lemma root_hash_with_spec:
  assumes ok: "tree_ok hm D t" "sound (cache t)" and b: "batch_ok D batch" "elements batch \<noteq> []"
    and free: "\<forall>k \<in> tree_keys t. \<forall>e \<in> set (elements batch). \<not> collides_with D k e"
  shows "\<exists>c. root_hash_with hm chash D t (elements batch)
    = Ok (merkle hm D (key_slots D (tree_keys t \<union> set (elements batch))), c) \<and> sound c"
proof -
  let ?kbs = "sort_key snd (map (\<lambda>e. (e, lsb_bits e (D - 1))) (elements batch))"
  have D: "1 \<le> D" "D \<le> 257" "node_ok D (tree t)" "node_clean hm (tree t)"
    and dist: "distinct (map (\<lambda>e. lsb_bits e (D - 1)) (elements batch))"
    using ok b by (auto simp: tree_ok_def batch_ok_def)
  have "length ?kbs = length (elements batch)" by simp
  then have ne: "?kbs \<noteq> []" using b(2) by (metis length_0_conv)
  have "\<forall>(e, p) \<in> set ?kbs. slot (tree t) (drop 0 p) \<in> {None, Some e}"
    using slot_free_iff [OF ok(1)] free by auto
  from hash_with_inner_spec [OF ok(2) D(3,4) keyed_paths_ok [OF D(1,2) dist] ne this]
  show ?thesis unfolding root_hash_with_def hash_with_def overlay_key_slots [OF ok(1) dist free] .
qed

end

lemma slot_content_key:
  assumes "tree_ok hm D t" "e \<in> tree_keys t"
  shows "slot_content D t e = e"
proof -
  have "slot (tree t) (lsb_bits e (D - 1)) = Some e" using assms unfolding tree_ok_def by blast
  then show ?thesis unfolding slot_content_slot [OF assms(1)] by simp
qed

lemma tree_ok_keys_singleton:
  assumes "tree_ok hm D t" "tree_keys t = {e}"
  shows "bt_keys (tree_entries t) = [e]"
proof -
  have "distinct (bt_keys (tree_entries t))"
    using assms(1) bt_keys_distinct unfolding tree_ok_def bt_keys_def by blast
  then have "length (bt_keys (tree_entries t)) = 1"
    using assms(2) unfolding tree_keys_def by (metis distinct_card is_singletonI is_singleton_altdef)
  with assms(2) show ?thesis unfolding tree_keys_def by (cases "bt_keys (tree_entries t)") auto
qed

lemma merkle_const: "2 \<le> d \<Longrightarrow> merkle (\<lambda>_ _. c) d f = c"
  by (cases d; cases "d - 1") auto

lemma known_hashes_inner_spec:
  "node_clean hm n \<Longrightarrow> list_all (known_sound hm) hs \<Longrightarrow>
    \<exists>hs'. known_hashes_inner hm n hs = Ok hs' \<and> list_all (known_sound hm) hs'"
proof (induction n arbitrary: hs)
  case (Parent l r h dirty)
  let ?k = "\<lparr>kh_left = node_hash hm l, kh_right = node_hash hm r, kh_result = h\<rparr>"
  have "list_all (known_sound hm) (hs @ [?k])" using Parent.prems by (auto simp: list_all_iff known_sound_def)
  with Parent.IH(1) [of "hs @ [?k]"] Parent.prems obtain hs1 where
    "known_hashes_inner hm l (hs @ [?k]) = Ok hs1" "list_all (known_sound hm) hs1" by auto
  with Parent.IH(2) [of hs1] Parent.prems show ?case by auto
qed simp_all

lemma sort_key_eq_Nil: "sort_key f xs = [] \<longleftrightarrow> xs = []"
  by (metis length_0_conv length_sort)

end
