(* ===== verification/Smirk_Props.thy ===== *)
theory Smirk_Props
  imports Smirk_Correct
begin

text \<open>
  The properties of the sparse Merkle tree. They hold for every two-to-one hash \<open>hm\<close> and every
  cache that satisfies the contract \<open>hash_cache\<close>; the witnesses run them with the cache-less
  \<open>NoopHashCache\<close> and an arithmetic hash.
\<close>

abbreviation sample_hash :: hash2 where
  "sample_hash l r \<equiv> 3 * l + 5 * r + 7"

abbreviation sample_empty :: "(nat, NoopHashCache) Tree" where
  "sample_empty \<equiv> new_with_cache 4 NoopHashCache"

lemma sample_empty_ok: "tree_ok hm 4 sample_empty" "tree_keys sample_empty = {}"
  by (simp_all add: new_with_cache_ok) (simp add: tree_keys_def new_with_cache_def bt_keys_def)

lemma sample_tree:
  "\<exists>t. tree_insert sample_hash (noop_hash sample_hash) 4 sample_empty 5 v = (t, Ok ())
    \<and> tree_ok sample_hash 4 t \<and> tree_keys t = {5}"
  using noop.tree_insert_free [OF sample_empty_ok(1), where hm = sample_hash and e = 5 and v = v]
  by (auto simp: NULL_HASH_def ZERO_def sample_empty_ok)

lemma sample_batch:
  "\<exists>b. from_entries 4 [(1, 10), (6 :: element, 20 :: nat)] = Ok b \<and> batch_ok 4 b
    \<and> entries b = [(1, 10), (6, 20)] \<and> elements b = [1, 6]"
proof -
  have "distinct (map (\<lambda>(e, v). lsb_bits e (4 - 1)) [(1, 10), (6 :: element, 20 :: nat)])"
    by (simp add: lsb_bits_eq upt_rec)
  then obtain b :: "nat Batch" where b: "from_entries 4 [(1, 10), (6 :: element, 20 :: nat)] = Ok b"
    using from_entries_total by blast
  with from_entries_Ok [OF b] show ?thesis by (auto simp: elements_def)
qed

section \<open>Insertion\<close>

text \<open>
  C21: inserting a batch without the null element into a well-formed tree. If some element of the
  batch needs the slot of an element of the tree, the tree is unchanged and the error lists
  colliding pairs; otherwise the insertion succeeds, the invariant holds again (with every hash up
  to date), the keys are the union, the values are those of the batch where it has one, and each
  hash reported to the callbacks as set is the hash of its children.
\<close>

theorem insert_batch_outcome:
  assumes "hash_cache hm chash sound" "tree_ok hm D t" "sound (cache t)"
    and "batch_ok D batch" "NULL_HASH \<notin> set (elements batch)"
  shows "if \<forall>k \<in> tree_keys t. \<forall>e \<in> set (elements batch). \<not> collides_with D k e
    then \<exists>t' ev. insert_batch hm chash D t batch = (t', ev, Ok ()) \<and> tree_ok hm D t' \<and> sound (cache t')
      \<and> tree_keys t' = tree_keys t \<union> set (elements batch)
      \<and> (\<forall>e. tree_get t' e = (case map_of (entries batch) e of Some v \<Rightarrow> Some v | None \<Rightarrow> tree_get t e))
      \<and> list_all (event_sound hm) ev
    else \<exists>err. insert_batch hm chash D t batch = (t, [], Err err) \<and> collisions err \<noteq> []
      \<and> (\<forall>c \<in> set (collisions err). in_tree c \<in> tree_keys t \<and> inserted c \<in> set (elements batch)
            \<and> collides_with D (in_tree c) (inserted c))"
proof -
  have bt: "bt_ok (tree_entries t)" using assms(2) by (simp add: tree_ok_def)
  show ?thesis
  proof (cases "\<forall>k \<in> tree_keys t. \<forall>e \<in> set (elements batch). \<not> collides_with D k e")
    case True
    with hash_cache.insert_batch_spec [OF assms] tree_get_insert [OF bt assms(4)]
    show ?thesis unfolding tree_get_def by auto
  next
    case False
    then obtain k e where "k \<in> tree_keys t" "e \<in> set (elements batch)" "collides_with D k e" by blast
    from hash_cache.insert_batch_collision [OF assms(1,4) this] False show ?thesis by auto
  qed
qed

theorem insert_batch_outcome_witness:
  "\<exists>b t ev. from_entries 4 [(1, 10), (6 :: element, 20 :: nat)] = Ok b
    \<and> insert_batch sample_hash (noop_hash sample_hash) 4 sample_empty b = (t, ev, Ok ())
    \<and> tree_keys t = {1, 6} \<and> tree_get t 6 = Some 20"
proof -
  obtain b where b: "from_entries 4 [(1, 10), (6 :: element, 20 :: nat)] = Ok b" and
    e: "batch_ok 4 b" "entries b = [(1, 10), (6, 20)]" "elements b = [1, 6]" using sample_batch by blast
  from insert_batch_outcome [OF noop.hash_cache_axioms sample_empty_ok(1) _ e(1), where hm = sample_hash]
  show ?thesis using b e by (auto simp: NULL_HASH_def ZERO_def sample_empty_ok(2))
qed

text \<open>
  Inserting one element into a well-formed tree. A taken slot gives an error and leaves the
  tree unchanged; otherwise the null element panics (the error of \<^verbatim>\<open>insert_without_hashing\<close> is
  unwrapped), and any other element is stored with its value, in its slot, with correct hashes.
\<close>

theorem tree_insert_outcome:
  assumes "hash_cache hm chash sound" "tree_ok hm D t" "sound (cache t)"
  shows "if \<exists>k \<in> tree_keys t. collides_with D k e
    then \<exists>err. tree_insert hm chash D t e v = (t, Err err) \<and> collisions err \<noteq> []
    else if e = NULL_HASH then tree_insert hm chash D t e v = (t, Panic)
    else \<exists>t'. tree_insert hm chash D t e v = (t', Ok ()) \<and> tree_ok hm D t' \<and> sound (cache t')
      \<and> tree_keys t' = Set.insert e (tree_keys t) \<and> tree_get t' = (tree_get t)(e \<mapsto> v)
      \<and> root_hash hm t' = merkle hm D ((slot (tree t))(lsb_bits e (D - 1) \<mapsto> e))"
proof (cases "\<exists>k \<in> tree_keys t. collides_with D k e")
  case True
  with hash_cache.tree_insert_collides [OF assms(1)] show ?thesis by fastforce
next
  case False
  then have free: "\<forall>k \<in> tree_keys t. \<not> collides_with D k e" by blast
  show ?thesis
  proof (cases "e = NULL_HASH")
    case True
    with False free hash_cache.tree_insert_null [OF assms(1)] show ?thesis by auto
  next
    case nonnull: False
    from hash_cache.tree_insert_free [OF assms free nonnull, of v] obtain t' where
      t': "tree_insert hm chash D t e v = (t', Ok ())" "tree_ok hm D t'" "sound (cache t')"
        "tree_keys t' = Set.insert e (tree_keys t)" "tree_get t' = (tree_get t)(e \<mapsto> v)"
        "slot (tree t') = (slot (tree t))(lsb_bits e (D - 1) \<mapsto> e)" by blast
    from root_hash_merkle [OF t'(2)] t' False nonnull show ?thesis by simp
  qed
qed

theorem tree_insert_outcome_witness:
  "\<exists>t t2 err. tree_insert sample_hash (noop_hash sample_hash) 4 sample_empty 5 0 = (t, Ok ())
    \<and> tree_insert sample_hash (noop_hash sample_hash) 4 t 13 1 = (t, Err err)
    \<and> tree_insert sample_hash (noop_hash sample_hash) 4 t 0 1 = (t, Panic)
    \<and> tree_insert sample_hash (noop_hash sample_hash) 4 t 6 1 = (t2, Ok ()) \<and> tree_keys t2 = {5, 6}"
proof -
  obtain t where t: "tree_insert sample_hash (noop_hash sample_hash) 4 sample_empty 5 0 = (t, Ok ())"
    "tree_ok sample_hash 4 t" "tree_keys t = {5}" using sample_tree [of 0] by blast
  have c: "collides_with 4 5 13" "\<not> collides_with 4 5 0" "\<not> collides_with 4 5 6"
    by (simp_all add: collides_with_def lsb_bits_eq upt_rec)
  note out = tree_insert_outcome [OF noop.hash_cache_axioms t(2), where v = 1]
  from out [of 13] out [of 0] out [of 6] c t show ?thesis by (auto simp: NULL_HASH_def ZERO_def insert_commute)
qed

section \<open>What the root hash commits to\<close>

text \<open>
  The root hash is canonical: two well-formed trees of one depth with the same elements have
  the same root hash, whatever the order in which they were inserted, their values and caches.
\<close>

theorem root_hash_canonical:
  assumes "tree_ok hm D t" "tree_ok hm D u" "tree_keys t = tree_keys u"
  shows "root_hash hm t = root_hash hm u"
proof -
  have "slot (tree t) = slot (tree u)" by (rule slot_eqI [OF assms])
  then show ?thesis using root_hash_merkle [OF assms(1)] root_hash_merkle [OF assms(2)] by simp
qed

theorem root_hash_canonical_witness:
  "\<exists>t u. tree_insert sample_hash (noop_hash sample_hash) 4 (new_with_cache 4 NoopHashCache) 5 (0 :: nat) = (t, Ok ())
    \<and> tree_insert sample_hash (noop_hash sample_hash) 4 (new_with_cache 4 NoopHashCache) 5 (9 :: nat) = (u, Ok ())
    \<and> root_hash sample_hash t = root_hash sample_hash u"
proof -
  obtain t where t: "tree_insert sample_hash (noop_hash sample_hash) 4 sample_empty 5 0 = (t, Ok ())"
    "tree_ok sample_hash 4 t" "tree_keys t = {5}" using sample_tree [of 0] by blast
  obtain u where u: "tree_insert sample_hash (noop_hash sample_hash) 4 sample_empty 5 9 = (u, Ok ())"
    "tree_ok sample_hash 4 u" "tree_keys u = {5}" using sample_tree [of 9] by blast
  from root_hash_canonical [OF t(2) u(2)] t u show ?thesis by auto
qed

text \<open>
  C20: the root hash is binding: if two well-formed trees of one depth have the same root hash and
  the hash has no collision among the pairs hashed in the two trees, they have the same elements.
\<close>

theorem root_hash_binding:
  assumes "tree_ok hm D t" "tree_ok hm D u" "root_hash hm t = root_hash hm u"
    and "inj_on (\<lambda>(l, r). hm l r) (merkle_pairs hm D (slot (tree t)) \<union> merkle_pairs hm D (slot (tree u)))"
  shows "tree_keys t = tree_keys u"
proof -
  have m: "merkle hm D (slot (tree t)) = merkle hm D (slot (tree u))"
    using assms(3) root_hash_merkle [OF assms(1)] root_hash_merkle [OF assms(2)] by simp
  have D: "1 \<le> D" "D - 1 \<le> 256" using assms(1) by (auto simp: tree_ok_def)
  have "e \<in> tree_keys t \<longleftrightarrow> e \<in> tree_keys u" for e
  proof -
    have "slot_value (slot (tree t) (lsb_bits e (D - 1))) = slot_value (slot (tree u) (lsb_bits e (D - 1)))"
      using D by (intro merkle_binding [OF m assms(4)]) (simp_all add: length_lsb_bits)
    then show ?thesis
      using slot_value_key [OF assms(1), of e] slot_value_key [OF assms(2), of e] by simp
  qed
  then show ?thesis by blast
qed

theorem root_hash_binding_witness:
  "\<exists>t u. tree_insert sample_hash (noop_hash sample_hash) 4 (new_with_cache 4 NoopHashCache) 5 (0 :: nat) = (t, Ok ())
    \<and> tree_insert sample_hash (noop_hash sample_hash) 4 (new_with_cache 4 NoopHashCache) 5 (9 :: nat) = (u, Ok ())
    \<and> tree_keys t = tree_keys u"
proof -
  obtain t where t: "tree_insert sample_hash (noop_hash sample_hash) 4 sample_empty 5 0 = (t, Ok ())"
    "tree_ok sample_hash 4 t" "tree_keys t = {5}" using sample_tree [of 0] by blast
  obtain u where u: "tree_insert sample_hash (noop_hash sample_hash) 4 sample_empty 5 9 = (u, Ok ())"
    "tree_ok sample_hash 4 u" "tree_keys u = {5}" using sample_tree [of 9] by blast
  have four: "4 = Suc (Suc (Suc (Suc 0)))" by simp
  have s: "slot (tree t) = (\<lambda>_. None)([True, False, True] \<mapsto> 5)" "slot (tree u) = slot (tree t)"
    using slot_singleton [OF t(2,3)] slot_singleton [OF u(2,3)] by (simp_all add: lsb_bits_eq upt_rec)
  have "root_hash sample_hash t = root_hash sample_hash u"
    using root_hash_merkle [OF t(2)] root_hash_merkle [OF u(2)] s by simp
  moreover have "inj_on (\<lambda>(l, r). sample_hash l r) (merkle_pairs sample_hash 4 (slot (tree t)))"
    unfolding s four by (simp add: inj_on_def NULL_HASH_def ZERO_def)
  ultimately have "tree_keys t = tree_keys u"
    by (intro root_hash_binding [OF t(2) u(2)]) (simp_all add: s)
  with t u show ?thesis by blast
qed

section \<open>The what-if hash\<close>

text \<open>
  For a non-empty batch that can be inserted, \<^verbatim>\<open>root_hash_with\<close> computes, without changing the
  tree, the root hash that the tree has after the batch is inserted.
\<close>

theorem root_hash_with_insert:
  assumes "hash_cache hm chash sound" "tree_ok hm D t" "sound (cache t)"
    and "batch_ok D batch" "NULL_HASH \<notin> set (elements batch)" "elements batch \<noteq> []"
    and "\<forall>k \<in> tree_keys t. \<forall>e \<in> set (elements batch). \<not> collides_with D k e"
  shows "\<exists>t' ev c. insert_batch hm chash D t batch = (t', ev, Ok ())
    \<and> root_hash_with hm chash D t (elements batch) = Ok (root_hash hm t', c)"
proof -
  from hash_cache.insert_batch_spec [OF assms(1-5,7)] obtain t' ev where
    t': "insert_batch hm chash D t batch = (t', ev, Ok ())" "tree_ok hm D t'"
      "tree_keys t' = tree_keys t \<union> set (elements batch)" by blast
  from hash_cache.root_hash_with_spec [OF assms(1-4,6,7)] obtain c where
    c: "root_hash_with hm chash D t (elements batch)
      = Ok (merkle hm D (key_slots D (tree_keys t \<union> set (elements batch))), c)" by blast
  have "root_hash hm t' = merkle hm D (key_slots D (tree_keys t'))"
    using root_hash_merkle [OF t'(2)] slot_key_slots [OF t'(2)] by simp
  with t' c show ?thesis by auto
qed

theorem root_hash_with_insert_witness:
  "\<exists>t b t' ev c. tree_insert sample_hash (noop_hash sample_hash) 4 sample_empty 5 0 = (t, Ok ())
    \<and> from_entries 4 [(1, 10), (6 :: element, 20 :: nat)] = Ok b
    \<and> insert_batch sample_hash (noop_hash sample_hash) 4 t b = (t', ev, Ok ())
    \<and> root_hash_with sample_hash (noop_hash sample_hash) 4 t [1, 6] = Ok (root_hash sample_hash t', c)"
proof -
  obtain t where t: "tree_insert sample_hash (noop_hash sample_hash) 4 sample_empty 5 0 = (t, Ok ())"
    "tree_ok sample_hash 4 t" "tree_keys t = {5}" using sample_tree [of 0] by blast
  obtain b where b: "from_entries 4 [(1, 10), (6 :: element, 20 :: nat)] = Ok b" "batch_ok 4 b"
    "elements b = [1, 6]" using sample_batch by blast
  have "\<not> collides_with 4 5 1" "\<not> collides_with 4 5 6"
    by (simp_all add: collides_with_def lsb_bits_eq upt_rec)
  with root_hash_with_insert [OF noop.hash_cache_axioms t(2) _ b(2)] t b show ?thesis
    by (auto simp: NULL_HASH_def ZERO_def)
qed

section \<open>Merkle paths\<close>

text \<open>
  The path for an element always exists, it is labelled with the root hash of the tree, and it
  proves exactly what the tree holds in the slot of the element: the element of the tree there, or
  the null hash for a free slot (so that a path shows both presence and absence).
\<close>

theorem path_for_proves:
  assumes "tree_ok hm D t"
  shows "\<exists>p. path_for hm D t e = Ok p \<and> proves hm D p (slot_content D t e)
    \<and> actual_root_hash p = root_hash hm t \<and> path_element p = e
    \<and> (contains_element t e \<longrightarrow> proves hm D p e)"
proof -
  obtain p where p: "path_for hm D t e = Ok p" using path_for_spec(1) [OF assms] by blast
  note facts = proves_slot_content [OF assms p] compute_root_hash_eq(3) [OF assms p]
  have "path_element p = e" using p path_for_spec(1) [OF assms, of e] by (auto simp: path_element_def)
  moreover have "contains_element t e \<Longrightarrow> slot_content D t e = e"
    by (rule slot_content_key [OF assms]) (simp add: contains_element_iff)
  ultimately show ?thesis using p facts by (auto simp: proves_def)
qed

theorem path_for_proves_witness:
  "\<exists>t p q. tree_insert sample_hash (noop_hash sample_hash) 4 sample_empty 5 0 = (t, Ok ())
    \<and> path_for sample_hash 4 t 5 = Ok p \<and> proves sample_hash 4 p 5
    \<and> path_for sample_hash 4 t 6 = Ok q \<and> proves sample_hash 4 q 0"
proof -
  obtain t where t: "tree_insert sample_hash (noop_hash sample_hash) 4 sample_empty 5 0 = (t, Ok ())"
    "tree_ok sample_hash 4 t" "tree_keys t = {5}" using sample_tree [of 0] by blast
  then have k: "bt_keys (tree_entries t) = [5]" by (simp add: tree_ok_keys_singleton)
  have "contains_element t 5" using t by (simp add: contains_element_iff)
  moreover have "slot_content 4 t 6 = 0"
    by (simp add: slot_content_def k iter_find_def collides_with_def lsb_bits_eq upt_rec NULL_HASH_def ZERO_def)
  ultimately show ?thesis
    using t path_for_proves [OF t(2), of 5] path_for_proves [OF t(2), of 6] by auto
qed

text \<open>
  Paths are sound: a value other than the content of the slot that a path of the tree appears
  to prove yields a collision of the hash, at a level of the path: two different pairs, hashed to
  one value, among those hashed in checking the value and the true content.
\<close>

theorem path_sound:
  assumes "tree_ok hm D t" "path_for hm D t e = Ok p" "proves hm D p x" "x \<noteq> slot_content D t e"
  shows "\<exists>i < D - 1.
    let ss = zip (siblings_deepest_first D p) (rev (path_lsb D p));
        a = root_pairs hm x ss ! i; b = root_pairs hm (slot_content D t e) ss ! i
    in a \<noteq> b \<and> hm (fst a) (snd a) = hm (fst b) (snd b)"
proof -
  let ?ss = "zip (siblings_deepest_first D p) (rev (path_lsb D p))"
  have D: "D - 1 \<le> 256" using assms(1) by (auto simp: tree_ok_def)
  have len: "length ?ss \<le> D - 1" by (simp add: siblings_deepest_first_def)
  have "compute_merkle_root hm x ?ss = compute_merkle_root hm (slot_content D t e) ?ss"
    using assms(3) proves_slot_content [OF assms(1,2)] compute_root_hash_eq(3) [OF assms(1,2)]
    by (simp add: proves_def compute_root_hash_def)
  from compute_merkle_root_collision [OF this assms(4)] obtain i where "i < length ?ss"
    "root_pairs hm x ?ss ! i \<noteq> root_pairs hm (slot_content D t e) ?ss ! i"
    "case_prod hm (root_pairs hm x ?ss ! i) = case_prod hm (root_pairs hm (slot_content D t e) ?ss ! i)"
    by blast
  moreover have "i < D - 1" using \<open>i < length ?ss\<close> len by (rule order_less_le_trans)
  ultimately show ?thesis unfolding Let_def case_prod_beta by blast
qed

theorem path_sound_witness:
  "\<exists>t p. tree_insert (\<lambda>_ _. 1) (noop_hash (\<lambda>_ _. 1)) 4 sample_empty 5 0 = (t, Ok ())
    \<and> path_for (\<lambda>_ _. 1) 4 t 5 = Ok p
    \<and> (\<exists>i < 4 - 1.
         let ss = zip (siblings_deepest_first 4 p) (rev (path_lsb 4 p));
             a = root_pairs (\<lambda>_ _. 1) 9 ss ! i; b = root_pairs (\<lambda>_ _. 1) (slot_content 4 t 5) ss ! i
         in a \<noteq> b \<and> (1 :: element) = 1)"
proof -
  let ?hm = "\<lambda>_ _. 1"
  obtain t where t: "tree_insert ?hm (noop_hash ?hm) 4 sample_empty 5 0 = (t, Ok ())"
    "tree_ok ?hm 4 t" "tree_keys t = {5}"
    using noop.tree_insert_free [OF sample_empty_ok(1), where hm = ?hm and e = 5 and v = 0]
    by (auto simp: NULL_HASH_def ZERO_def sample_empty_ok)
  obtain p where p: "path_for ?hm 4 t 5 = Ok p" using path_for_spec(1) [OF t(2)] by blast
  have five: "slot_content 4 t 5 = 5" using t by (intro slot_content_key [OF t(2)]) simp
  have "compute_root_hash ?hm 4 p y = 1" for y
    by (simp add: compute_root_hash_eq(2) [OF t(2) p] merkle_const)
  then have "proves ?hm 4 p 9" using proves_slot_content [OF t(2) p] compute_root_hash_eq(3) [OF t(2) p]
    by (simp add: proves_def)
  from path_sound [OF t(2) p this] t p five show ?thesis by (auto simp: Let_def)
qed

text \<open>
  Inserting a sequence of elements with paths. For non-null elements with pairwise different
  free slots it succeeds with one path per element; each path proves its element; read with the null
  hash instead, it gives the root hash before that insertion: that of the initial tree for the first
  path, the root hash recorded in the previous path for the others. The last path records the root of
  the final tree, which holds the old and the new elements. This chain is what the insertion circuit
  consumes.
\<close>

theorem insert_with_paths_chain:
  assumes "hash_cache hm chash sound" "tree_ok hm D t" "sound (cache t)"
    and "distinct (map (\<lambda>(e, v). lsb_bits e (D - 1)) es)" "NULL_HASH \<notin> fst ` set es"
    and "\<forall>k \<in> tree_keys t. \<forall>e \<in> fst ` set es. \<not> collides_with D k e"
  shows "\<exists>t' ps. insert_with_paths hm chash D t es = (t', Ok ps) \<and> tree_ok hm D t' \<and> sound (cache t')
    \<and> tree_keys t' = tree_keys t \<union> fst ` set es \<and> length ps = length es
    \<and> (\<forall>i < length es. proves hm D (ps ! i) (fst (es ! i)))
    \<and> map (\<lambda>p. compute_root_hash hm D p NULL_HASH) ps @ [root_hash hm t']
        = root_hash hm t # map actual_root_hash ps"
  using assms(2-6)
proof (induction es arbitrary: t)
  case (Cons ev es)
  obtain e v where ev: "ev = (e, v)" by (cases ev)
  from hash_cache.tree_insert_free [OF assms(1) Cons.prems(1,2), of e v] Cons.prems(4,5) ev obtain t1 where
    t1: "tree_insert hm chash D t e v = (t1, Ok ())" "tree_ok hm D t1" "sound (cache t1)"
      "tree_keys t1 = Set.insert e (tree_keys t)"
      "slot (tree t1) = (slot (tree t))(lsb_bits e (D - 1) \<mapsto> e)" by auto
  obtain p where p: "path_for hm D t1 e = Ok p" using path_for_spec(1) [OF t1(2)] by blast
  have "slot (tree t) (lsb_bits e (D - 1)) = None"
    using slot_free_iff [OF Cons.prems(1), of e] Cons.prems(5) ev by auto
  then have before: "compute_root_hash hm D p NULL_HASH = root_hash hm t"
    unfolding compute_root_hash_eq(2) [OF t1(2) p] merkle_null t1(5) root_hash_merkle [OF Cons.prems(1)]
    by (simp add: fun_upd_idem)
  have here: "proves hm D p e" "actual_root_hash p = root_hash hm t1"
    using proves_slot_content [OF t1(2) p] slot_content_key [OF t1(2), of e] t1(4)
      compute_root_hash_eq(3) [OF t1(2) p] by (simp_all add: proves_def)
  have "\<forall>k \<in> tree_keys t1. \<forall>x \<in> fst ` set es. \<not> collides_with D k x"
    using Cons.prems(3,5) ev t1(4) by (force simp: collides_with_def)
  with Cons.IH [OF t1(2,3)] Cons.prems(3,4) obtain t2 ps where
    r: "insert_with_paths hm chash D t1 es = (t2, Ok ps)" "tree_ok hm D t2" "sound (cache t2)"
      "tree_keys t2 = tree_keys t1 \<union> fst ` set es" "length ps = length es"
      "\<forall>i < length es. proves hm D (ps ! i) (fst (es ! i))"
      "map (\<lambda>p. compute_root_hash hm D p NULL_HASH) ps @ [root_hash hm t2] = root_hash hm t1 # map actual_root_hash ps"
    by auto
  have "insert_with_paths hm chash D t (ev # es) = (t2, Ok (p # ps))" using t1(1) p r(1) by (simp add: ev)
  moreover have "\<forall>i < length (ev # es). proves hm D ((p # ps) ! i) (fst ((ev # es) ! i))"
    using r(6) here(1) ev by (auto simp: less_Suc_eq_0_disj)
  ultimately show ?case using r t1(4) here before ev by auto
qed simp

theorem insert_with_paths_chain_witness:
  "\<exists>t p q. insert_with_paths sample_hash (noop_hash sample_hash) 4 sample_empty [(5, 0), (6, 1)] = (t, Ok [p, q])
    \<and> proves sample_hash 4 q 6 \<and> compute_root_hash sample_hash 4 q NULL_HASH = actual_root_hash p
    \<and> actual_root_hash q = root_hash sample_hash t"
proof -
  have "distinct (map (\<lambda>(e, v). lsb_bits e (4 - 1)) [(5, 0), (6 :: element, 1 :: nat)])"
    by (simp add: lsb_bits_eq upt_rec)
  note chain = insert_with_paths_chain [OF noop.hash_cache_axioms sample_empty_ok(1) _ this, where hm = sample_hash]
  have "NULL_HASH \<notin> {5, 6}" by (simp add: NULL_HASH_def ZERO_def)
  with chain
  obtain t ps where r: "insert_with_paths sample_hash (noop_hash sample_hash) 4 sample_empty [(5, 0), (6, 1)] = (t, Ok ps)"
    "length ps = 2" "\<forall>i < Suc (Suc 0). proves sample_hash 4 (ps ! i) (fst ([(5, 0), (6, 1 :: nat)] ! i))"
    "map (\<lambda>p. compute_root_hash sample_hash 4 p NULL_HASH) ps @ [root_hash sample_hash t]
      = root_hash sample_hash sample_empty # map actual_root_hash ps"
    by (auto simp: sample_empty_ok(2) simp del: insert_with_paths.simps One_nat_def)
  then obtain p q where ps: "ps = [p, q]" by (auto simp: numeral_2_eq_2 length_Suc_conv)
  have "proves sample_hash 4 q 6" using r(3) ps by (auto dest: spec [of _ "Suc 0"])
  with r ps show ?thesis by auto
qed

section \<open>Empty trees and caches\<close>

text \<open>
  The memoised hash of an empty tree agrees with its recursive definition at every depth, beyond
  the table too; depth 0 panics.
\<close>

theorem empty_tree_hash_recursive:
  "empty_tree_hash hm 0 = Panic \<and> empty_tree_hash hm 1 = Ok NULL_HASH
    \<and> (\<exists>h. empty_tree_hash hm (Suc d) = Ok h \<and> empty_tree_hash hm (Suc (Suc d)) = Ok (hm h h))
    \<and> empty_tree_hash hm (Suc d) = Ok (root_hash hm (new_with_cache (Suc d) c))"
  by (simp add: empty_tree_hash_eq Let_def root_hash_def new_with_cache_def)

text \<open>
  The hashes that a tree exports are those of its inner nodes: exporting from a well-formed tree
  does not panic, and a cache provided with them (which can be done once) still answers every request
  with the hash and stays sound, also after evictions.
\<close>

theorem known_hashes_provide:
  assumes "tree_ok hm D t"
  shows "\<exists>hs c. known_hashes hm t = Ok hs \<and> list_all (known_sound hm) hs
    \<and> provide_known_hashes hs simple_new = Ok c \<and> mset (initial c) = mset hs
    \<and> provide_known_hashes hs' c = (if hs = [] then provide_known_hashes hs' simple_new else Panic)
    \<and> fst (simple_hash hm (evict a b c) l r) = hm l r
    \<and> simple_sound hm (snd (simple_hash hm (evict a b c) l r))"
proof -
  have "node_clean hm (tree t)" using assms by (simp add: tree_ok_def)
  from known_hashes_inner_spec [OF this, of "[]"] obtain hs where
    hs: "known_hashes hm t = Ok hs" "list_all (known_sound hm) hs"
    by (auto simp: known_hashes_def node_known_hashes_def)
  obtain c where c: "provide_known_hashes hs simple_new = Ok c" "mset (initial c) = mset hs" "initial c = [] \<longleftrightarrow> hs = []"
    "inner c = []" "metrics c = metrics simple_new"
    by (simp add: provide_known_hashes_def simple_new_def sort_key_eq_Nil)
  have s: "simple_sound hm (evict a b c)"
    by (intro evict_sound provide_known_hashes_sound [OF c(1) simple_new_sound hs(2)])
  have "provide_known_hashes hs' c = (if hs = [] then provide_known_hashes hs' simple_new else Panic)"
    using c by (cases c) (auto simp: provide_known_hashes_def simple_new_def)
  with hs c simple.chash_result [OF s] simple.chash_sound [OF s] show ?thesis by blast
qed

theorem known_hashes_provide_witness:
  "\<exists>t hs c. tree_insert sample_hash (noop_hash sample_hash) 4 sample_empty 5 0 = (t, Ok ())
    \<and> known_hashes sample_hash t = Ok hs \<and> provide_known_hashes hs simple_new = Ok c
    \<and> fst (simple_hash sample_hash (evict 1 2 c) 3 4) = 36"
proof -
  obtain t where t: "tree_insert sample_hash (noop_hash sample_hash) 4 sample_empty 5 0 = (t, Ok ())"
    "tree_ok sample_hash 4 t" using sample_tree [of 0] by blast
  from known_hashes_provide [OF t(2), of undefined 1 2 3 4] t show ?thesis by auto
qed

end
