(* ===== verification/Wire_Message.thy ===== *)
theory Wire_Message
  imports Prelude
begin

text \<open>
  Versioned messages (\<^verbatim>\<open>pkg/wire-message\<close>): the error kinds and the upgrade loop of the trait
  \<^verbatim>\<open>WireMessage\<close>. The functions that an implementor supplies, \<^verbatim>\<open>version\<close> and \<^verbatim>\<open>upgrade_once\<close>, are
  arguments; the context that an upgrade may change is threaded through. The encoding itself is the
  Borsh crate's and appears as an argument where it is used.
\<close>

datatype ErrorKind = Serialize | Deserialize | Upgrade | MaxVersion u64

fun is_serialize :: "ErrorKind \<Rightarrow> bool" where
  "is_serialize Serialize = True"
| "is_serialize _ = False"

fun is_deserialize :: "ErrorKind \<Rightarrow> bool" where
  "is_deserialize Deserialize = True"
| "is_deserialize _ = False"

fun is_upgrade :: "ErrorKind \<Rightarrow> bool" where
  "is_upgrade Upgrade = True"
| "is_upgrade _ = False"

fun is_max_version :: "ErrorKind \<Rightarrow> bool" where
  "is_max_version (MaxVersion v) = True"
| "is_max_version _ = False"

definition max_version_error :: "u64 \<Rightarrow> ErrorKind" where
  "max_version_error max_version = MaxVersion max_version"

text \<open>\<open>from_bytes\<close> and \<open>to_bytes\<close> classify the errors of the encoding.\<close>

definition wire_from_bytes :: "(bytes \<Rightarrow> ('io, 'm) outcome) \<Rightarrow> bytes \<Rightarrow> (ErrorKind, 'm) outcome" where
  "wire_from_bytes deserialize bs = omap_err (\<lambda>_. Deserialize) (deserialize bs)"

definition wire_to_bytes :: "('m \<Rightarrow> ('io, bytes) outcome) \<Rightarrow> 'm \<Rightarrow> (ErrorKind, bytes) outcome" where
  "wire_to_bytes to_vec m = omap_err (\<lambda>_. Serialize) (to_vec m)"

definition wire_from_reader :: "('r \<Rightarrow> ('io, 'm) outcome \<times> 'r) \<Rightarrow> 'r \<Rightarrow> (ErrorKind, 'm) outcome \<times> 'r" where
  "wire_from_reader deserialize_reader reader = apfst (omap_err (\<lambda>_. Deserialize)) (deserialize_reader reader)"

definition wire_to_bytes_in :: "('w \<Rightarrow> 'm \<Rightarrow> ('io, unit) outcome \<times> 'w) \<Rightarrow> 'm \<Rightarrow> 'w \<Rightarrow> (ErrorKind, unit) outcome \<times> 'w" where
  "wire_to_bytes_in to_writer m writer = apfst (omap_err (\<lambda>_. Serialize)) (to_writer writer m)"

text \<open>The loop of \<^verbatim>\<open>upgrade\<close>; \<open>None\<close> is a loop that never ends.\<close>

partial_function (option) upgrade ::
    "('m \<Rightarrow> u64) \<Rightarrow> ('m \<Rightarrow> 'c \<Rightarrow> ('e, 'm) outcome \<times> 'c) \<Rightarrow> u64 \<Rightarrow> 'm \<Rightarrow> 'c
      \<Rightarrow> (('e, 'm) outcome \<times> 'c) option" where
  "upgrade version upgrade_once max_version m ctx =
     (if version m < max_version
      then (case upgrade_once m ctx of
              (Ok m', ctx') \<Rightarrow> upgrade version upgrade_once max_version m' ctx'
            | (Err e, ctx') \<Rightarrow> Some (Err e, ctx')
            | (Panic, ctx') \<Rightarrow> Some (Panic, ctx'))
      else Some (Ok m, ctx))"

text \<open>
  Upgrading ends. When a successful single upgrade raises the version, the loop returns, either
  with the error of a single upgrade or with a message of at least the maximum version; a message
  that is already there is returned unchanged.
\<close>

theorem upgrade_terminates:
  assumes "\<And>m ctx m' ctx'. upgrade_once m ctx = (Ok m', ctx') \<Longrightarrow> version m < version m'"
  shows "\<exists>r ctx'. upgrade version upgrade_once max_version m ctx = Some (r, ctx')
    \<and> (\<forall>m'. r = Ok m' \<longrightarrow> max_version \<le> version m')
    \<and> (max_version \<le> version m \<longrightarrow> r = Ok m \<and> ctx' = ctx)"
proof (induction "unat max_version - unat (version m)" arbitrary: m ctx rule: less_induct)
  case less
  show ?case
  proof (cases "version m < max_version")
    case False
    then show ?thesis by (subst upgrade.simps) (auto simp: not_less)
  next
    case lt: True
    obtain r c where r: "upgrade_once m ctx = (r, c)" by (cases "upgrade_once m ctx")
    show ?thesis
    proof (cases r)
      case (Ok m')
      have "version m < version m'" using assms r Ok by blast
      then have "unat max_version - unat (version m') < unat max_version - unat (version m)"
        using lt by (simp add: word_less_nat_alt)
      from less [OF this, of c] lt r Ok show ?thesis
        by (subst upgrade.simps) (auto simp: not_le)
    next
      case (Err e)
      with lt r show ?thesis by (subst upgrade.simps) (auto simp: not_le)
    next
      case Panic
      with lt r show ?thesis by (subst upgrade.simps) (auto simp: not_le)
    qed
  qed
qed

theorem upgrade_terminates_witness:
  "\<exists>r ctx. upgrade (\<lambda>m. m) (\<lambda>m (c :: nat). if m < 3 then (Ok (m + 1), Suc c) else (Err (max_version_error 3), c)) 3 (1 :: u64) 0
      = Some (r, ctx) \<and> (\<forall>m'. r = Ok m' \<longrightarrow> 3 \<le> m')"
proof -
  have inc: "m < m'" if "(if m < 3 then (Ok (m + 1), Suc c) else (Err (max_version_error 3), c)) = (Ok m', c')"
    for m m' :: u64 and c c' :: nat
  proof -
    have "m < 3" "m' = m + 1" using that by (auto split: if_splits)
    then show ?thesis by (simp add: word_less_nat_alt unat_word_ariths)
  qed
  have "\<exists>r ctx. upgrade (\<lambda>m. m) (\<lambda>m (c :: nat). if m < 3 then (Ok (m + 1), Suc c) else (Err (max_version_error 3), c)) 3 (1 :: u64) 0
      = Some (r, ctx) \<and> (\<forall>m'. r = Ok m' \<longrightarrow> 3 \<le> m') \<and> (3 \<le> (1 :: u64) \<longrightarrow> r = Ok 1 \<and> ctx = 0)"
    by (rule upgrade_terminates) (erule inc)
  then show ?thesis by blast
qed

end
