(* ===== verification/Smirk_Storage.thy ===== *)
theory Smirk_Storage
  imports Smirk_Correct Wire_Message
begin

text \<open>
  The persistent tree of \<^verbatim>\<open>pkg/smirk/src/storage\<close>: the formats of its database entries (\<^verbatim>\<open>format.rs\<close>),
  loading a tree (\<^verbatim>\<open>load.rs\<close>), storing hashes (\<^verbatim>\<open>store.rs\<close>) and inserting batches (\<^verbatim>\<open>batch.rs\<close>,
  \<^verbatim>\<open>mod.rs\<close>). The database is a parameter (a record of the operations that the code calls), as is the
  Borsh encoding of keys and values. Hash maps are iterated in the order of insertion; the entries
  that the code writes from them have different keys, so that the order does not matter.
\<close>

section \<open>Parameters and formats\<close>

datatype write_op = Put bytes bytes | Delete bytes

record 'db smirk_db =
  sdb_write :: "'db \<Rightarrow> write_op list \<Rightarrow> (unit, 'db) outcome"
  sdb_iterator :: "'db \<Rightarrow> (unit, bytes \<times> bytes) outcome list"

datatype KeyV2 = ElementKey element | KnownHashKey element element
datatype KeyFormat = KeyFormatV1 element | KeyFormatV2 KeyV2

datatype 'v ValueV2 = Metadata 'v | KnownHashValue element
datatype 'v ValueFormat = ValueFormatV1 'v | ValueFormatV2 "'v ValueV2"

record 'v storage_codec =
  key_to_bytes :: "KeyFormat \<Rightarrow> (ErrorKind, bytes) outcome"
  key_from_bytes :: "bytes \<Rightarrow> (ErrorKind, KeyFormat) outcome"
  value_to_bytes :: "'v ValueFormat \<Rightarrow> (ErrorKind, bytes) outcome"
  value_from_bytes :: "bytes \<Rightarrow> (ErrorKind, 'v ValueFormat) outcome"

fun key_version :: "KeyFormat \<Rightarrow> u64" where
  "key_version (KeyFormatV1 _) = 1"
| "key_version (KeyFormatV2 _) = 2"

fun key_upgrade_once :: "KeyFormat \<Rightarrow> (ErrorKind, KeyFormat) outcome" where
  "key_upgrade_once (KeyFormatV1 e) = Ok (KeyFormatV2 (ElementKey e))"
| "key_upgrade_once (KeyFormatV2 _) = Err (max_version_error 2)"

fun value_version :: "'v ValueFormat \<Rightarrow> u64" where
  "value_version (ValueFormatV1 _) = 1"
| "value_version (ValueFormatV2 _) = 2"

fun value_upgrade_once :: "'v ValueFormat \<Rightarrow> (ErrorKind, 'v ValueFormat) outcome" where
  "value_upgrade_once (ValueFormatV1 x) = Ok (ValueFormatV2 (Metadata x))"
| "value_upgrade_once (ValueFormatV2 _) = Err (max_version_error 2)"

datatype StorageError =
    StorageRocksdb
  | StorageCollision CollisionError
  | StorageWire ErrorKind
  | DatabaseConsistency

datatype 'v RocksbEntry = SmirkKV element 'v | KnownHashEntry KnownHash

section \<open>Loading\<close>

text \<open>The meaning of a pair of formats.\<close>

fun entry_of_formats :: "KeyFormat \<Rightarrow> 'v ValueFormat \<Rightarrow> (StorageError, 'v RocksbEntry) outcome" where
  "entry_of_formats (KeyFormatV1 key) (ValueFormatV1 x) = Ok (SmirkKV key x)"
| "entry_of_formats (KeyFormatV1 key) (ValueFormatV2 (Metadata x)) = Ok (SmirkKV key x)"
| "entry_of_formats (KeyFormatV2 (ElementKey key)) (ValueFormatV1 x) = Ok (SmirkKV key x)"
| "entry_of_formats (KeyFormatV2 (ElementKey key)) (ValueFormatV2 (Metadata x)) = Ok (SmirkKV key x)"
| "entry_of_formats (KeyFormatV2 (KnownHashKey l r)) (ValueFormatV2 (KnownHashValue h)) =
     Ok (KnownHashEntry \<lparr>kh_left = l, kh_right = r, kh_result = h\<rparr>)"
| "entry_of_formats _ _ = Err DatabaseConsistency"

definition storage_entry :: "'v storage_codec \<Rightarrow> bytes \<times> bytes \<Rightarrow> (StorageError, 'v RocksbEntry) outcome" where
  "storage_entry C kv =
     obind (omap_err StorageWire (key_from_bytes C (fst kv))) (\<lambda>key_format.
     obind (omap_err StorageWire (value_from_bytes C (snd kv))) (\<lambda>value_format.
     entry_of_formats key_format value_format))"

fun ok_value :: "('e, 'a) outcome \<Rightarrow> 'a option" where
  "ok_value (Ok x) = Some x"
| "ok_value _ = None"

text \<open>Entries that cannot be read are skipped (\<^verbatim>\<open>filter_map(Result::ok)\<close>).\<close>

definition storage_entries :: "'db smirk_db \<Rightarrow> 'v storage_codec \<Rightarrow> 'db \<Rightarrow> (StorageError, 'v RocksbEntry) outcome list" where
  "storage_entries R C db = map (storage_entry C) (List.map_filter ok_value (sdb_iterator R db))"

fun load_loop ::
    "(StorageError, 'v RocksbEntry) outcome list \<Rightarrow> KnownHash list \<Rightarrow> (element \<times> 'v) list
      \<Rightarrow> (StorageError, KnownHash list \<times> (element \<times> 'v) list) outcome" where
  "load_loop [] hs kvs = Ok (hs, kvs)"
| "load_loop (Ok (KnownHashEntry h) # es) hs kvs = load_loop es (hs @ [h]) kvs"
| "load_loop (Ok (SmirkKV k x) # es) hs kvs = load_loop es hs (kvs @ [(k, x)])"
| "load_loop (Err e # es) hs kvs = Err e"
| "load_loop (Panic # es) hs kvs = Panic"

definition load_tree ::
    "hash2 \<Rightarrow> 'v storage_codec \<Rightarrow> nat \<Rightarrow> 'db smirk_db \<Rightarrow> 'db \<Rightarrow> (StorageError, ('v, SimpleHashCache) Tree) outcome" where
  "load_tree hm C D R db =
     obind (load_loop (storage_entries R C db) [] []) (\<lambda>(hs, smirk_kv).
     obind (unwrap (provide_known_hashes hs simple_new)) (\<lambda>cache.
     obind (omap_err StorageCollision (ofold (\<lambda>(key, v) b. batch_insert D key v b) smirk_kv batch_new)) (\<lambda>batch.
     let (t, _, res) = insert_batch hm (simple_hash hm) D (new_with_cache D cache) batch
     in omap (\<lambda>_. t) (omap_err StorageCollision res))))"

section \<open>The persistent tree\<close>

record ('v, 'db) Persistent =
  ptree :: "('v, SimpleHashCache) Tree"
  pdb :: 'db

definition persistent_new :: "nat \<Rightarrow> (unit, 'db) outcome \<Rightarrow> (StorageError, ('v, 'db) Persistent) outcome" where
  "persistent_new D opened =
     omap (\<lambda>db. \<lparr>ptree = new_with_cache D simple_new, pdb = db\<rparr>) (omap_err (\<lambda>_. StorageRocksdb) opened)"

definition persistent_load ::
    "hash2 \<Rightarrow> 'v storage_codec \<Rightarrow> nat \<Rightarrow> 'db smirk_db \<Rightarrow> (unit, 'db) outcome \<Rightarrow> (StorageError, ('v, 'db) Persistent) outcome" where
  "persistent_load hm C D R opened =
     obind (omap_err (\<lambda>_. StorageRocksdb) opened) (\<lambda>db.
     omap (\<lambda>t. \<lparr>ptree = t, pdb = db\<rparr>) (load_tree hm C D R db))"

definition put_op :: "'v storage_codec \<Rightarrow> KeyFormat \<Rightarrow> 'v ValueFormat \<Rightarrow> (StorageError, write_op) outcome" where
  "put_op C k v = obind (unwrap (key_to_bytes C k)) (\<lambda>kb. omap (Put kb) (unwrap (value_to_bytes C v)))"

definition delete_op :: "'v storage_codec \<Rightarrow> KeyFormat \<Rightarrow> (StorageError, write_op) outcome" where
  "delete_op C k = omap Delete (unwrap (key_to_bytes C k))"

fun collect_ops :: "(StorageError, write_op) outcome list \<Rightarrow> (StorageError, write_op list) outcome" where
  "collect_ops [] = Ok []"
| "collect_ops (r # rs) = obind r (\<lambda>x. omap (\<lambda>xs. x # xs) (collect_ops rs))"

text \<open>The callbacks of the insertion, collected in a map from pairs to the new hash, if any.\<close>

fun hash_change ::
    "hash_event \<Rightarrow> (element \<times> element, element option) hashmap \<Rightarrow> (element \<times> element, element option) hashmap" where
  "hash_change (HashRemove l r) m = AList.update (l, r) None m"
| "hash_change (HashSet l r h) m = AList.update (l, r) (Some h) m"

definition batch_ops ::
    "'v storage_codec \<Rightarrow> (element \<times> 'v) list \<Rightarrow> hash_event list \<Rightarrow> (StorageError, write_op) outcome list" where
  "batch_ops C new_kv_pairs events =
     (let hash_changes = fold hash_change events [];
          hashes_to_insert = filter (\<lambda>(_, result). result \<noteq> None) hash_changes;
          hashes_to_remove = filter (\<lambda>(_, result). result = None) hash_changes
      in concat (map (\<lambda>(key, v).
            [put_op C (KeyFormatV2 (ElementKey key)) (ValueFormatV2 (Metadata v)),
             delete_op C (KeyFormatV1 key)]) new_kv_pairs)
         @ map (\<lambda>((l, r), _). delete_op C (KeyFormatV2 (KnownHashKey l r))) hashes_to_remove
         @ map (\<lambda>((l, r), result).
             case result of
               None \<Rightarrow> Panic
             | Some h \<Rightarrow> put_op C (KeyFormatV2 (KnownHashKey l r)) (ValueFormatV2 (KnownHashValue h)))
             hashes_to_insert)"

text \<open>When the write fails, the tree in memory has changed already.\<close>

definition persistent_insert_batch ::
    "hash2 \<Rightarrow> 'v storage_codec \<Rightarrow> nat \<Rightarrow> 'db smirk_db \<Rightarrow> ('v, 'db) Persistent \<Rightarrow> 'v Batch
      \<Rightarrow> ('v, 'db) Persistent \<times> (StorageError, unit) outcome" where
  "persistent_insert_batch hm C D R p batch =
     (if batch_is_empty batch then (p, Ok ())
      else
        (let (t, events, res) = insert_batch hm (simple_hash hm) D (ptree p) batch;
             p1 = p\<lparr>ptree := t\<rparr>
         in case res of
              Err e \<Rightarrow> (p1, Err (StorageCollision e))
            | Panic \<Rightarrow> (p1, Panic)
            | Ok _ \<Rightarrow>
                (case obind (collect_ops (batch_ops C (entries batch) events))
                   (\<lambda>ops. omap_err (\<lambda>_. StorageRocksdb) (sdb_write R (pdb p) ops)) of
                   Ok db' \<Rightarrow> (p1\<lparr>pdb := db'\<rparr>, Ok ())
                 | Err e \<Rightarrow> (p1, Err e)
                 | Panic \<Rightarrow> (p1, Panic))))"

definition persistent_insert ::
    "hash2 \<Rightarrow> 'v storage_codec \<Rightarrow> nat \<Rightarrow> 'db smirk_db \<Rightarrow> ('v, 'db) Persistent \<Rightarrow> element \<Rightarrow> 'v
      \<Rightarrow> ('v, 'db) Persistent \<times> (StorageError, unit) outcome" where
  "persistent_insert hm C D R p e v =
     (case unwrap (batch_insert D e v batch_new) of
        Ok batch \<Rightarrow> persistent_insert_batch hm C D R p batch
      | Err x \<Rightarrow> (p, Err x)
      | Panic \<Rightarrow> (p, Panic))"

text \<open>Storing the hashes of the tree that the database does not have.\<close>

definition db_known_hash :: "'v storage_codec \<Rightarrow> (unit, bytes \<times> bytes) outcome \<Rightarrow> KnownHash option" where
  "db_known_hash C r =
     (case r of
        Ok (key, v) \<Rightarrow>
          (case (key_from_bytes C key, value_from_bytes C v) of
             (Ok (KeyFormatV2 (KnownHashKey l r)), Ok (ValueFormatV2 (KnownHashValue h))) \<Rightarrow>
               Some \<lparr>kh_left = l, kh_right = r, kh_result = h\<rparr>
           | _ \<Rightarrow> None)
      | _ \<Rightarrow> None)"

definition synchronize_hashes ::
    "hash2 \<Rightarrow> 'v storage_codec \<Rightarrow> 'db smirk_db \<Rightarrow> 'db \<Rightarrow> ('v, SimpleHashCache) Tree \<Rightarrow> (StorageError, 'db) outcome" where
  "synchronize_hashes hm C R db t =
     obind (unwrap (known_hashes hm t)) (\<lambda>in_memory_hashes.
     let in_db_hashes = List.map_filter (db_known_hash C) (sdb_iterator R db);
         hashes_to_insert = filter (\<lambda>h. h \<notin> set in_db_hashes) in_memory_hashes
     in obind (collect_ops (map (\<lambda>h.
            obind (omap_err StorageWire (key_to_bytes C (KeyFormatV2 (KnownHashKey (kh_left h) (kh_right h))))) (\<lambda>kb.
            omap (Put kb) (omap_err StorageWire (value_to_bytes C (ValueFormatV2 (KnownHashValue (kh_result h)))))))
          hashes_to_insert))
        (\<lambda>ops. omap_err (\<lambda>_. StorageRocksdb) (sdb_write R db ops)))"

definition persist_hashes ::
    "hash2 \<Rightarrow> 'v storage_codec \<Rightarrow> 'db smirk_db \<Rightarrow> ('v, 'db) Persistent \<Rightarrow> (StorageError, 'db) outcome" where
  "persist_hashes hm C R p = synchronize_hashes hm C R (pdb p) (ptree p)"

end
