(* ===== verification/Smirk_Storage_Correct.thy ===== *)
theory Smirk_Storage_Correct
  imports Smirk_Storage
begin

text \<open>
  Correctness of the persistent tree over any database that behaves as an ordered map (the locale
  \<open>kv_db\<close>): the database always describes the tree in memory, so that loading it gives the tree back.
\<close>

section \<open>Databases and encodings\<close>

fun apply_op :: "write_op \<Rightarrow> (bytes, bytes) btree \<Rightarrow> (bytes, bytes) btree" where
  "apply_op (Put k v) m = bt_insert k v m"
| "apply_op (Delete k) m = bt_remove k m"

locale kv_db =
  fixes R :: "'db smirk_db"
    and invar :: "'db \<Rightarrow> bool"
    and contents :: "'db \<Rightarrow> (bytes, bytes) btree"
  assumes contents_sorted: "invar d \<Longrightarrow> bt_ok (contents d)"
    and write_contents: "invar d \<Longrightarrow> \<exists>d'. sdb_write R d ops = Ok d' \<and> invar d' \<and> contents d' = fold apply_op ops (contents d)"
    and iterator_contents: "invar d \<Longrightarrow> sdb_iterator R d = map Ok (contents d)"

definition mem_smirk_db :: "(bytes, bytes) btree smirk_db" where
  "mem_smirk_db = \<lparr>sdb_write = (\<lambda>d ops. Ok (fold apply_op ops d)), sdb_iterator = map Ok\<rparr>"

fun op_kv :: "write_op \<Rightarrow> bytes \<times> bytes option" where
  "op_kv (Put k v) = (k, Some v)"
| "op_kv (Delete k) = (k, None)"

lemma apply_op_ok: "bt_ok m \<Longrightarrow> bt_ok (apply_op opn m)"
  by (cases opn) (auto simp: btree_simps)

lemma apply_op_lookup: "bt_ok m \<Longrightarrow> map_of (apply_op opn m) = (map_of m)(fst (op_kv opn) := snd (op_kv opn))"
  by (cases opn) (auto simp: btree_simps)

lemma fold_ops_ok: "bt_ok m \<Longrightarrow> bt_ok (fold apply_op ops m)"
  by (induction ops arbitrary: m) (auto simp: apply_op_ok)

lemma fold_ops_lookup:
  "bt_ok m \<Longrightarrow> map_of (fold apply_op ops m) k
    = (case map_of (rev (map op_kv ops)) k of Some r \<Rightarrow> r | None \<Rightarrow> map_of m k)"
proof (induction ops arbitrary: m)
  case (Cons opn ops)
  obtain k' r where kr: "op_kv opn = (k', r)" by fastforce
  show ?case using Cons.IH [OF apply_op_ok [OF Cons.prems], of opn]
    by (auto simp: apply_op_lookup [OF Cons.prems] kr map_add_def split: option.split)
qed simp

interpretation mem_db: kv_db mem_smirk_db bt_ok "\<lambda>d. d"
  by unfold_locales (simp_all add: mem_smirk_db_def fold_ops_ok)

definition storage_codec_ok :: "'v storage_codec \<Rightarrow> bool" where
  "storage_codec_ok C \<longleftrightarrow>
     (\<forall>k. \<exists>b. key_to_bytes C k = Ok b \<and> key_from_bytes C b = Ok k) \<and>
     (\<forall>v. \<exists>b. value_to_bytes C v = Ok b \<and> value_from_bytes C b = Ok v)"

definition kb :: "'v storage_codec \<Rightarrow> KeyFormat \<Rightarrow> bytes" where
  "kb C k = (case key_to_bytes C k of Ok b \<Rightarrow> b | _ \<Rightarrow> [])"

definition vb :: "'v storage_codec \<Rightarrow> 'v ValueFormat \<Rightarrow> bytes" where
  "vb C v = (case value_to_bytes C v of Ok b \<Rightarrow> b | _ \<Rightarrow> [])"

lemma codec_eqs:
  assumes "storage_codec_ok C"
  shows "key_to_bytes C k = Ok (kb C k)" "key_from_bytes C (kb C k) = Ok k"
    "value_to_bytes C v = Ok (vb C v)" "value_from_bytes C (vb C v) = Ok v"
proof -
  from assms obtain b where "key_to_bytes C k = Ok b" "key_from_bytes C b = Ok k" by (auto simp: storage_codec_ok_def)
  then show "key_to_bytes C k = Ok (kb C k)" "key_from_bytes C (kb C k) = Ok k" by (simp_all add: kb_def)
  from assms obtain b where "value_to_bytes C v = Ok b" "value_from_bytes C b = Ok v" by (auto simp: storage_codec_ok_def)
  then show "value_to_bytes C v = Ok (vb C v)" "value_from_bytes C (vb C v) = Ok v" by (simp_all add: vb_def)
qed

lemma kb_inj: "storage_codec_ok C \<Longrightarrow> kb C a = kb C b \<longleftrightarrow> a = b"
  by (metis codec_eqs(2) outcome.inject(1))

section \<open>What a database describes\<close>

definition entry_ok :: "hash2 \<Rightarrow> (element \<Rightarrow> 'v option) \<Rightarrow> KeyFormat \<Rightarrow> 'v ValueFormat \<Rightarrow> bool" where
  "entry_ok hm get k v \<longleftrightarrow>
     (\<exists>e x. entry_of_formats k v = Ok (SmirkKV e x) \<and> get e = Some x)
     \<or> (\<exists>h. entry_of_formats k v = Ok (KnownHashEntry h) \<and> known_sound hm h)"

text \<open>
  Every entry is a known hash that is right or an element of the tree with its value, and every
  element is stored under exactly one of its two keys.
\<close>

definition storage_ok :: "hash2 \<Rightarrow> 'v storage_codec \<Rightarrow> (element \<Rightarrow> 'v option) \<Rightarrow> (bytes, bytes) btree \<Rightarrow> bool" where
  "storage_ok hm C get m \<longleftrightarrow> bt_ok m
     \<and> (\<forall>(k, v) \<in> set m. \<exists>K V. k = kb C K \<and> v = vb C V \<and> entry_ok hm get K V)
     \<and> (\<forall>e. get e \<noteq> None \<longrightarrow>
          (map_of m (kb C (KeyFormatV1 e)) = None \<longleftrightarrow> map_of m (kb C (KeyFormatV2 (ElementKey e))) \<noteq> None))"

lemma storage_ok_empty: "storage_ok hm C (\<lambda>_. None) []"
  by (simp add: storage_ok_def)

fun hash_part :: "(StorageError, 'v RocksbEntry) outcome \<Rightarrow> KnownHash option" where
  "hash_part (Ok (KnownHashEntry h)) = Some h"
| "hash_part _ = None"

fun kv_part :: "(StorageError, 'v RocksbEntry) outcome \<Rightarrow> (element \<times> 'v) option" where
  "kv_part (Ok (SmirkKV k x)) = Some (k, x)"
| "kv_part _ = None"

lemma load_loop_spec:
  "\<forall>e \<in> set es. \<exists>x. e = Ok x \<Longrightarrow> load_loop es hs kvs = Ok (hs @ List.map_filter hash_part es, kvs @ List.map_filter kv_part es)"
  by (induction es hs kvs rule: load_loop.induct) (auto simp: List.map_filter_simps)

lemma entry_key:
  assumes "entry_of_formats K V = Ok (SmirkKV e x)"
  shows "K = KeyFormatV1 e \<or> K = KeyFormatV2 (ElementKey e)"
  using assms by (cases "(K, V)" rule: entry_of_formats.cases) auto

lemma set_map_filter: "set (List.map_filter f xs) = {y. \<exists>x \<in> set xs. f x = Some y}"
  by (auto simp: List.map_filter_def image_iff) force+

lemma map_filter_Ok: "List.map_filter ok_value (map Ok xs) = xs"
  by (induction xs) (auto simp: List.map_filter_simps)

text \<open>The elements that are read from a good database: those of the tree, each once.\<close>

lemma storage_kvs:
  assumes C: "storage_codec_ok C" and ok: "storage_ok hm C get m"
  defines "es \<equiv> map (storage_entry C) m"
  shows "\<forall>e \<in> set es. \<exists>x. e = Ok x" "list_all (known_sound hm) (List.map_filter hash_part es)"
    "distinct (map fst (List.map_filter kv_part es))" "(e, x) \<in> set (List.map_filter kv_part es) \<longleftrightarrow> get e = Some x"
proof -
  have ent: "\<exists>K V. kv = (kb C K, vb C V) \<and> entry_ok hm get K V \<and> storage_entry C kv = entry_of_formats K V"
    if "kv \<in> set m" for kv
  proof -
    from ok that obtain K V where "kv = (kb C K, vb C V)" "entry_ok hm get K V" by (fastforce simp: storage_ok_def)
    then show ?thesis by (auto simp: storage_entry_def codec_eqs [OF C])
  qed
  show "\<forall>e \<in> set es. \<exists>x. e = Ok x"
  proof
    fix r assume "r \<in> set es"
    then obtain kv where kv: "kv \<in> set m" "r = storage_entry C kv" by (auto simp: es_def)
    from ent [OF kv(1)] kv(2) show "\<exists>x. r = Ok x" by (auto simp: entry_ok_def)
  qed
  show "list_all (known_sound hm) (List.map_filter hash_part es)"
  proof -
    have "known_sound hm h" if "h \<in> set (List.map_filter hash_part es)" for h
    proof -
      from that obtain kv where kv: "kv \<in> set m" "hash_part (storage_entry C kv) = Some h" by (auto simp: set_map_filter es_def)
      from ent [OF kv(1)] kv(2) show ?thesis by (auto simp: entry_ok_def)
    qed
    then show ?thesis by (simp add: list_all_iff)
  qed
  have key: "\<exists>K. fst kv = kb C K \<and> (K = KeyFormatV1 e \<or> K = KeyFormatV2 (ElementKey e)) \<and> get e = Some x"
    if "kv \<in> set m" "kv_part (storage_entry C kv) = Some (e, x)" for kv e x
  proof -
    from ent [OF that(1)] obtain K V where KV: "kv = (kb C K, vb C V)" "entry_ok hm get K V"
      "storage_entry C kv = entry_of_formats K V" by blast
    with that(2) have "entry_of_formats K V = Ok (SmirkKV e x)" by (auto simp: entry_ok_def)
    with entry_key [OF this] KV show ?thesis by (auto simp: entry_ok_def)
  qed
  have bt: "distinct (map fst m)" using ok by (simp add: storage_ok_def bt_keys_distinct)
  have one: "kv = kv'" if "kv \<in> set m" "kv' \<in> set m" "kv_part (storage_entry C kv) = Some (e, x)"
    "kv_part (storage_entry C kv') = Some (e, x')" for kv kv' e x x'
  proof -
    from key [OF that(1,3)] key [OF that(2,4)] obtain K K' where K: "fst kv = kb C K" "fst kv' = kb C K'"
      "K = KeyFormatV1 e \<or> K = KeyFormatV2 (ElementKey e)" "K' = KeyFormatV1 e \<or> K' = KeyFormatV2 (ElementKey e)"
      and get: "get e = Some x" by blast
    have "map_of m (kb C K) \<noteq> None" "map_of m (kb C K') \<noteq> None"
      using that(1,2) K(1,2) by (metis map_of_eq_None_iff image_eqI)+
    with K(3,4) get ok have "K = K'" by (auto simp: storage_ok_def)
    with K(1,2) that(1,2) bt show ?thesis by (metis eq_key_imp_eq_value prod.collapse)
  qed
  show "distinct (map fst (List.map_filter kv_part es))"
  proof -
    have "distinct (map fst (List.map_filter kv_part (map (storage_entry C) l)))"
      if "set l \<subseteq> set m" "distinct l" for l
      using that
    proof (induction l)
      case (Cons kv l)
      show ?case
      proof (cases "kv_part (storage_entry C kv)")
        case (Some ex)
        obtain e x where ex: "ex = (e, x)" by fastforce
        have "e \<notin> fst ` set (List.map_filter kv_part (map (storage_entry C) l))"
        proof
          assume "e \<in> fst ` set (List.map_filter kv_part (map (storage_entry C) l))"
          then obtain kv' x' where "kv' \<in> set l" "kv_part (storage_entry C kv') = Some (e, x')" by (auto simp: set_map_filter)
          with one [of kv kv' e x x'] Cons.prems Some ex show False by auto
        qed
        with Cons Some ex show ?thesis by (simp add: List.map_filter_simps)
      qed (use Cons in \<open>simp add: List.map_filter_simps\<close>)
    qed (simp add: List.map_filter_simps)
    then show ?thesis unfolding es_def using bt by (simp add: distinct_map)
  qed
  show "(e, x) \<in> set (List.map_filter kv_part es) \<longleftrightarrow> get e = Some x"
  proof
    assume "(e, x) \<in> set (List.map_filter kv_part es)"
    then obtain kv where "kv \<in> set m" "kv_part (storage_entry C kv) = Some (e, x)" by (auto simp: set_map_filter es_def)
    with key show "get e = Some x" by blast
  next
    assume get: "get e = Some x"
    with ok obtain K where K: "map_of m (kb C K) \<noteq> None" "K = KeyFormatV1 e \<or> K = KeyFormatV2 (ElementKey e)"
      unfolding storage_ok_def by (metis option.distinct(1))
    then obtain v where v: "(kb C K, v) \<in> set m" by (metis map_of_SomeD not_None_eq)
    from ent [OF v] obtain K' V where KV: "kb C K = kb C K'" "v = vb C V" "entry_ok hm get K' V"
      "storage_entry C (kb C K, v) = entry_of_formats K' V" by auto
    then have "K' = K" by (simp add: kb_inj [OF C])
    with KV(3) K(2) get have "entry_of_formats K V = Ok (SmirkKV e x)"
      by (cases "(K, V)" rule: entry_of_formats.cases) (auto simp: entry_ok_def)
    with v KV(4) \<open>K' = K\<close> show "(e, x) \<in> set (List.map_filter kv_part es)"
      unfolding set_map_filter es_def by (auto intro!: bexI [of _ "(kb C K, v)"])
  qed
qed

section \<open>Loading\<close>

lemma map_graph_entries: "distinct (map fst xs) \<Longrightarrow> set xs = {(k, v). map_of xs k = Some v}"
  by auto

lemma load_tree_spec:
  fixes C :: "'v storage_codec" and t :: "('v, 'x) Tree"
  assumes kv: "kv_db R invar contents" and d: "invar d" and C: "storage_codec_ok C"
    and t: "tree_ok hm D t" and ok: "storage_ok hm C (tree_get t) (contents d)"
  shows "\<exists>t'. load_tree hm C D R d = Ok t' \<and> tree_ok hm D t' \<and> simple_sound hm (cache t')
    \<and> tree_entries t' = tree_entries t \<and> root_hash hm t' = root_hash hm t"
proof -
  let ?es = "map (storage_entry C) (contents d)"
  let ?kvs = "List.map_filter kv_part ?es" and ?hs = "List.map_filter hash_part ?es"
  note s = storage_kvs [OF C ok]
  have bt: "bt_ok (tree_entries t)" and D: "1 \<le> D" "D \<le> 257" and null: "NULL_HASH \<notin> tree_keys t" using t by (auto simp: tree_ok_def)
  have set: "set ?kvs = set (tree_entries t)"
    using s(4) bt_keys_distinct [OF bt] by (auto simp: tree_get_def)
  have "storage_entries R C d = ?es"
    unfolding storage_entries_def kv_db.iterator_contents [OF kv d] by (simp add: map_filter_Ok)
  with load_loop_spec [OF s(1), of "[]" "[]"] have l: "load_loop (storage_entries R C d) [] [] = Ok (?hs, ?kvs)" by simp
  define c where "c = simple_new\<lparr>initial := sort_key (\<lambda>h. (kh_left h, kh_right h)) ?hs\<rparr>"
  have c: "provide_known_hashes ?hs simple_new = Ok c" by (simp add: provide_known_hashes_def c_def simple_new_def)
  have sound: "simple_sound hm c" using provide_known_hashes_sound [OF c simple_new_sound s(2)] .
  have keys: "fst ` set ?kvs = tree_keys t" by (simp add: set tree_keys_def bt_keys_def)
  have "inj_on (\<lambda>e. lsb_bits e (D - 1)) (tree_keys t)"
    using tree_ok_no_collision [OF t] by (auto simp: inj_on_def collides_with_def)
  then have "distinct (map (\<lambda>e. lsb_bits e (D - 1)) (map fst ?kvs))" using s(3) keys by (subst distinct_map) simp
  then have "distinct (map (\<lambda>(e, v). lsb_bits e (D - 1)) ?kvs)" by (simp add: comp_def case_prod_beta')
  from from_entries_total [OF this] obtain b where b: "from_entries D ?kvs = Ok b" by blast
  from from_entries_Ok [OF b] have b_ok: "batch_ok D b" "entries b = ?kvs" by simp_all
  have e: "tree_ok hm D (new_with_cache D c :: ('v, SimpleHashCache) Tree)"
    "tree_keys (new_with_cache D c :: ('v, SimpleHashCache) Tree) = {}"
    using D by (simp_all add: new_with_cache_ok) (simp add: tree_keys_def new_with_cache_def bt_keys_def)
  have nonull: "NULL_HASH \<notin> set (elements b)" using null keys by (simp add: elements_def b_ok)
  have new: "simple_sound hm (cache (new_with_cache D c :: ('v, SimpleHashCache) Tree))"
    "tree_entries (new_with_cache D c :: ('v, SimpleHashCache) Tree) = []"
    using sound by (simp_all add: new_with_cache_def)
  have free: "\<forall>k \<in> tree_keys (new_with_cache D c :: ('v, SimpleHashCache) Tree). \<forall>e \<in> set (elements b). \<not> collides_with D k e" using e(2) by simp
  from simple.insert_batch_spec [OF e(1) new(1) b_ok(1) nonull free] obtain t' ev where
    t': "insert_batch hm (simple_hash hm) D (new_with_cache D c) b = (t', ev, Ok ())" "tree_ok hm D t'" "simple_sound hm (cache t')"
      "tree_keys t' = set (elements b)" "tree_entries t' = fold (\<lambda>(e, v). bt_insert e v) ?kvs []"
    unfolding e(2) new(2) b_ok(2) by auto
  have "load_tree hm C D R d = Ok t'"
    unfolding load_tree_def l using b c t'(1) by (simp add: from_entries_def)
  moreover have "tree_entries t' = tree_entries t"
  proof (rule bt_eqI)
    show "bt_ok (tree_entries t')" using t'(2) by (simp add: tree_ok_def)
    have "map_of (tree_entries t') e = map_of ?kvs e" for e
      unfolding t'(5) btree.get_fold_insert [OF bt_ok_Nil] using s(3) by (simp add: map_of_rev_distinct split: option.split)
    then have "map_of (tree_entries t') = map_of ?kvs" by (rule ext)
    with map_graph_entries [OF bt_keys_distinct [OF \<open>bt_ok (tree_entries t')\<close>]] map_graph_entries [OF s(3)]
    have "set (tree_entries t') = set ?kvs" by simp
    with set show "set (tree_entries t') = set (tree_entries t)" by simp
  qed (rule bt)
  moreover from this have "tree_keys t' = tree_keys t" by (simp add: tree_keys_def)
  then have "root_hash hm t' = root_hash hm t"
    using slot_eqI [OF t'(2) t] root_hash_merkle [OF t'(2)] root_hash_merkle [OF t] by simp
  ultimately show ?thesis using t'(2,3) by blast
qed

section \<open>Inserting\<close>

lemma hash_changes_sound:
  assumes "list_all (event_sound hm) ev"
  shows "((l, r), Some h) \<in> set (fold hash_change ev []) \<Longrightarrow> h = hm l r"
proof -
  have "((l, r), Some h) \<in> set (fold hash_change ev m) \<longrightarrow> h = hm l r"
    if "\<forall>l r h. ((l, r), Some h) \<in> set m \<longrightarrow> h = hm l r" for m
    using assms that
  proof (induction ev arbitrary: m)
    case (Cons e ev)
    have "\<forall>l r h. ((l, r), Some h) \<in> set (hash_change e m) \<longrightarrow> h = hm l r"
      using Cons.prems set_update_subset by (cases e) (fastforce simp: list_all_iff)+
    with Cons show ?case by simp
  qed simp
  from this [of "[]"] show "((l, r), Some h) \<in> set (fold hash_change ev []) \<Longrightarrow> h = hm l r" by simp
qed

lemma collect_ops_Ok: "\<forall>r \<in> set rs. \<exists>x. r = Ok x \<Longrightarrow> \<exists>xs. collect_ops rs = Ok xs \<and> rs = map Ok xs"
proof (induction rs)
  case (Cons r rs)
  then obtain x xs where "r = Ok x" "collect_ops rs = Ok xs" "rs = map Ok xs" by auto
  then show ?case by (intro exI [of _ "x # xs"]) simp
qed simp

text \<open>What the writes of a batch are: puts of elements and of sound hashes, deletions of old keys and of hashes.\<close>

lemma batch_ops_spec:
  assumes C: "storage_codec_ok C" and ev: "list_all (event_sound hm) ev"
  shows "\<exists>ops. collect_ops (batch_ops C kvs ev) = Ok ops
    \<and> (\<forall>k v. Put k v \<in> set ops \<longrightarrow>
         (\<exists>(e, x) \<in> set kvs. k = kb C (KeyFormatV2 (ElementKey e)) \<and> v = vb C (ValueFormatV2 (Metadata x)))
         \<or> (\<exists>l r. k = kb C (KeyFormatV2 (KnownHashKey l r)) \<and> v = vb C (ValueFormatV2 (KnownHashValue (hm l r)))))
    \<and> (\<forall>k. Delete k \<in> set ops \<longrightarrow> (\<exists>(e, x) \<in> set kvs. k = kb C (KeyFormatV1 e)) \<or> (\<exists>l r. k = kb C (KeyFormatV2 (KnownHashKey l r))))
    \<and> (\<forall>(e, x) \<in> set kvs. Put (kb C (KeyFormatV2 (ElementKey e))) (vb C (ValueFormatV2 (Metadata x))) \<in> set ops
         \<and> Delete (kb C (KeyFormatV1 e)) \<in> set ops)"
proof -
  have put: "put_op C K V = Ok (Put (kb C K) (vb C V))" and del: "delete_op C K = Ok (Delete (kb C K))" for K V
    by (simp_all add: put_op_def delete_op_def codec_eqs [OF C])
  let ?hc = "fold hash_change ev []"
  have mem: "r \<in> set (batch_ops C kvs ev) \<longleftrightarrow>
      (\<exists>(e, x) \<in> set kvs. r = Ok (Put (kb C (KeyFormatV2 (ElementKey e))) (vb C (ValueFormatV2 (Metadata x))))
          \<or> r = Ok (Delete (kb C (KeyFormatV1 e))))
      \<or> (\<exists>l r'. ((l, r'), None) \<in> set ?hc \<and> r = Ok (Delete (kb C (KeyFormatV2 (KnownHashKey l r')))))
      \<or> (\<exists>l r' h. ((l, r'), Some h) \<in> set ?hc
          \<and> r = Ok (Put (kb C (KeyFormatV2 (KnownHashKey l r'))) (vb C (ValueFormatV2 (KnownHashValue h)))))" for r
    unfolding batch_ops_def Let_def put del by (auto simp: image_iff split: prod.splits) (force+)?
  have "\<forall>r \<in> set (batch_ops C kvs ev). \<exists>x. r = Ok x"
  proof
    fix r assume "r \<in> set (batch_ops C kvs ev)"
    then show "\<exists>x. r = Ok x" unfolding mem by auto
  qed
  from collect_ops_Ok [OF this] obtain ops where ops: "collect_ops (batch_ops C kvs ev) = Ok ops" "batch_ops C kvs ev = map Ok ops" by blast
  have in_ops: "opn \<in> set ops \<longleftrightarrow> Ok opn \<in> set (batch_ops C kvs ev)" for opn unfolding ops(2) by auto
  have hs: "((l, r), Some h) \<in> set ?hc \<longleftrightarrow> ((l, r), Some h) \<in> set ?hc \<and> h = hm l r" for l r h
    using hash_changes_sound [OF ev] by blast
  show ?thesis
  proof (intro exI [of _ ops] conjI allI impI)
    fix k v assume "Put k v \<in> set ops"
    then show "(\<exists>(e, x) \<in> set kvs. k = kb C (KeyFormatV2 (ElementKey e)) \<and> v = vb C (ValueFormatV2 (Metadata x)))
         \<or> (\<exists>l r. k = kb C (KeyFormatV2 (KnownHashKey l r)) \<and> v = vb C (ValueFormatV2 (KnownHashValue (hm l r))))"
      unfolding in_ops mem by (subst (asm) hs) auto
  next
    fix k assume "Delete k \<in> set ops"
    then show "(\<exists>(e, x) \<in> set kvs. k = kb C (KeyFormatV1 e)) \<or> (\<exists>l r. k = kb C (KeyFormatV2 (KnownHashKey l r)))"
      unfolding in_ops mem by auto
  qed (use ops(1) in \<open>auto simp: in_ops mem\<close>)
qed

lemma ops_lookup_cases:
  "map_of (rev (map op_kv ops)) k = Some (Some v) \<Longrightarrow> Put k v \<in> set ops"
  "map_of (rev (map op_kv ops)) k = Some None \<Longrightarrow> Delete k \<in> set ops"
  "map_of (rev (map op_kv ops)) k = None \<longleftrightarrow> (\<forall>opn \<in> set ops. fst (op_kv opn) \<noteq> k)"
proof -
  show "map_of (rev (map op_kv ops)) k = Some (Some v) \<Longrightarrow> Put k v \<in> set ops"
    by (drule map_of_SomeD) (auto, metis op_kv.elims option.distinct(1) option.inject prod.inject)
  show "map_of (rev (map op_kv ops)) k = Some None \<Longrightarrow> Delete k \<in> set ops"
    by (drule map_of_SomeD) (auto, metis op_kv.elims option.distinct(1) option.inject prod.inject)
  show "map_of (rev (map op_kv ops)) k = None \<longleftrightarrow> (\<forall>opn \<in> set ops. fst (op_kv opn) \<noteq> k)"
    by (auto simp: map_of_eq_None_iff)
qed

lemma storage_ok_insert:
  assumes C: "storage_codec_ok C" and ok: "storage_ok hm C get m" and ev: "list_all (event_sound hm) ev"
    and kvs: "distinct (map fst kvs)" "\<forall>e \<in> fst ` set kvs. get e = None"
  shows "\<exists>ops. collect_ops (batch_ops C kvs ev) = Ok ops
    \<and> storage_ok hm C (\<lambda>e. case map_of kvs e of Some x \<Rightarrow> Some x | None \<Rightarrow> get e) (fold apply_op ops m)"
proof -
  let ?get = "\<lambda>e. case map_of kvs e of Some x \<Rightarrow> Some x | None \<Rightarrow> get e"
  from batch_ops_spec [OF C ev, of kvs] obtain ops where ops: "collect_ops (batch_ops C kvs ev) = Ok ops"
    and puts: "\<And>k v. Put k v \<in> set ops \<Longrightarrow>
         (\<exists>(e, x) \<in> set kvs. k = kb C (KeyFormatV2 (ElementKey e)) \<and> v = vb C (ValueFormatV2 (Metadata x)))
         \<or> (\<exists>l r. k = kb C (KeyFormatV2 (KnownHashKey l r)) \<and> v = vb C (ValueFormatV2 (KnownHashValue (hm l r))))"
    and dels: "\<And>k. Delete k \<in> set ops \<Longrightarrow>
         (\<exists>(e, x) \<in> set kvs. k = kb C (KeyFormatV1 e)) \<or> (\<exists>l r. k = kb C (KeyFormatV2 (KnownHashKey l r)))"
    and has: "\<And>e x. (e, x) \<in> set kvs \<Longrightarrow> Put (kb C (KeyFormatV2 (ElementKey e))) (vb C (ValueFormatV2 (Metadata x))) \<in> set ops
         \<and> Delete (kb C (KeyFormatV1 e)) \<in> set ops" by (elim exE conjE) blast
  have bt: "bt_ok m" using ok by (simp add: storage_ok_def)
  let ?m = "fold apply_op ops m"
  note look = fold_ops_lookup [OF bt, of ops]
  have ext: "get e = Some x \<Longrightarrow> ?get e = Some x" for e x using kvs(2) by (force split: option.split dest: map_of_SomeD)
  have "\<exists>K V. k = kb C K \<and> v = vb C V \<and> entry_ok hm ?get K V" if "(k, v) \<in> set ?m" for k v
  proof -
    from that have "map_of ?m k = Some v" using bt_keys_distinct [OF fold_ops_ok [OF bt]] by simp
    then consider "Put k v \<in> set ops" | "map_of m k = Some v"
      unfolding look by (auto split: option.splits dest: ops_lookup_cases(1))
    then show ?thesis
    proof cases
      case 1
      from puts [OF this] show ?thesis
      proof
        assume "\<exists>(e, x) \<in> set kvs. k = kb C (KeyFormatV2 (ElementKey e)) \<and> v = vb C (ValueFormatV2 (Metadata x))"
        then obtain e x where e: "(e, x) \<in> set kvs" "k = kb C (KeyFormatV2 (ElementKey e))" "v = vb C (ValueFormatV2 (Metadata x))" by auto
        moreover have "map_of kvs e = Some x" using kvs(1) e(1) by simp
        ultimately show ?thesis by (intro exI conjI) (auto simp: entry_ok_def)
      next
        assume "\<exists>l r. k = kb C (KeyFormatV2 (KnownHashKey l r)) \<and> v = vb C (ValueFormatV2 (KnownHashValue (hm l r)))"
        then obtain l r where "k = kb C (KeyFormatV2 (KnownHashKey l r))" "v = vb C (ValueFormatV2 (KnownHashValue (hm l r)))" by blast
        then show ?thesis by (intro exI conjI) (auto simp: entry_ok_def known_sound_def)
      qed
    next
      case 2
      with ok obtain K V where "k = kb C K" "v = vb C V" "entry_ok hm get K V"
        unfolding storage_ok_def by (blast dest: map_of_SomeD)
      moreover from this(3) ext have "entry_ok hm ?get K V" unfolding entry_ok_def by blast
      ultimately show ?thesis by blast
    qed
  qed
  moreover have "map_of ?m (kb C (KeyFormatV1 e)) = None \<longleftrightarrow> map_of ?m (kb C (KeyFormatV2 (ElementKey e))) \<noteq> None"
    if "?get e \<noteq> None" for e
  proof (cases "e \<in> fst ` set kvs")
    case True
    then obtain x where x: "(e, x) \<in> set kvs" by auto
    let ?k1 = "kb C (KeyFormatV1 e)" and ?k2 = "kb C (KeyFormatV2 (ElementKey e))"
    have "Put ?k1 v \<notin> set ops" "Delete ?k2 \<notin> set ops" for v
      using puts [of ?k1 v] dels [of ?k2] by (auto simp: kb_inj [OF C])
    moreover have "map_of (rev (map op_kv ops)) ?k1 \<noteq> None" "map_of (rev (map op_kv ops)) ?k2 \<noteq> None"
      unfolding ops_lookup_cases(3) using has [OF x] by (metis fst_conv op_kv.simps)+
    ultimately have "map_of (rev (map op_kv ops)) ?k1 = Some None" "\<exists>v. map_of (rev (map op_kv ops)) ?k2 = Some (Some v)"
      using ops_lookup_cases(1) [of ops ?k1] ops_lookup_cases(2) [of ops ?k2] by (metis not_None_eq)+
    then show ?thesis unfolding look by auto
  next
    case False
    then have "map_of kvs e = None" by (simp add: map_of_eq_None_iff)
    with that have "get e \<noteq> None" by simp
    moreover have "map_of (rev (map op_kv ops)) (kb C K) = None" if K: "K = KeyFormatV1 e \<or> K = KeyFormatV2 (ElementKey e)" for K
    proof -
      have "fst (op_kv opn) \<noteq> kb C K" if "opn \<in> set ops" for opn
      proof (cases opn)
        case (Put k v)
        with puts [of k v] that K False show ?thesis by (force simp: kb_inj [OF C])
      next
        case (Delete k)
        with dels [of k] that K False show ?thesis by (force simp: kb_inj [OF C])
      qed
      then show ?thesis unfolding ops_lookup_cases(3) by blast
    qed
    ultimately show ?thesis unfolding look using ok by (auto simp: storage_ok_def)
  qed
  ultimately have "storage_ok hm C ?get ?m" unfolding storage_ok_def using fold_ops_ok [OF bt] by blast
  with ops show ?thesis by blast
qed

section \<open>The persistent tree\<close>

definition persistent_ok ::
    "hash2 \<Rightarrow> 'v storage_codec \<Rightarrow> nat \<Rightarrow> ('db \<Rightarrow> bool) \<Rightarrow> ('db \<Rightarrow> (bytes, bytes) btree) \<Rightarrow> ('v, 'db) Persistent \<Rightarrow> bool" where
  "persistent_ok hm C D invar contents p \<longleftrightarrow>
     tree_ok hm D (ptree p) \<and> simple_sound hm (cache (ptree p)) \<and> invar (pdb p)
     \<and> storage_ok hm C (tree_get (ptree p)) (contents (pdb p))"

lemma persistent_insert_batch_ok:
  assumes kv: "kv_db R invar contents" and C: "storage_codec_ok C" and ok: "persistent_ok hm C D invar contents p"
    and b: "batch_ok D batch" "NULL_HASH \<notin> set (elements batch)"
    and free: "\<forall>k \<in> tree_keys (ptree p). \<forall>e \<in> set (elements batch). \<not> collides_with D k e"
  shows "\<exists>p'. persistent_insert_batch hm C D R p batch = (p', Ok ()) \<and> persistent_ok hm C D invar contents p'
    \<and> tree_keys (ptree p') = tree_keys (ptree p) \<union> set (elements batch)
    \<and> (\<forall>e. tree_get (ptree p') e = (case map_of (entries batch) e of Some v \<Rightarrow> Some v | None \<Rightarrow> tree_get (ptree p) e))"
proof (cases "batch_is_empty batch")
  case True
  with ok show ?thesis by (intro exI [of _ p]) (simp add: persistent_insert_batch_def batch_is_empty_def elements_def)
next
  case False
  let ?t = "ptree p"
  have p: "tree_ok hm D ?t" "simple_sound hm (cache ?t)" "invar (pdb p)" "storage_ok hm C (tree_get ?t) (contents (pdb p))"
    using ok by (simp_all add: persistent_ok_def)
  have bt: "bt_ok (tree_entries ?t)" using p(1) by (simp add: tree_ok_def)
  from simple.insert_batch_spec [OF p(1,2) b free] obtain t ev where
    t: "insert_batch hm (simple_hash hm) D ?t batch = (t, ev, Ok ())" "tree_ok hm D t" "simple_sound hm (cache t)"
      "tree_keys t = tree_keys ?t \<union> set (elements batch)"
      "tree_entries t = fold (\<lambda>(e, v). bt_insert e v) (entries batch) (tree_entries ?t)" "list_all (event_sound hm) ev" by blast
  have get: "tree_get t e = (case map_of (entries batch) e of Some v \<Rightarrow> Some v | None \<Rightarrow> tree_get ?t e)" for e
    using tree_get_insert [OF bt b(1), of e] by (simp add: tree_get_def t(5) cong: option.case_cong)
  then have get': "tree_get t = (\<lambda>e. case map_of (entries batch) e of Some v \<Rightarrow> Some v | None \<Rightarrow> tree_get ?t e)" by blast
  have dist: "distinct (map fst (entries batch))" using b(1) by (auto simp: batch_ok_def elements_def distinct_map intro: inj_on_imageI2)
  have fresh: "\<forall>e \<in> fst ` set (entries batch). tree_get ?t e = None"
  proof
    fix e assume "e \<in> fst ` set (entries batch)"
    then have "e \<in> set (elements batch)" by (simp add: elements_def)
    with free have "e \<notin> tree_keys ?t" by (auto simp: collides_with_def)
    then show "tree_get ?t e = None" by (simp add: tree_get_def tree_keys_def map_of_None_keys)
  qed
  from storage_ok_insert [OF C p(4) t(6) dist fresh] obtain ops where
    ops: "collect_ops (batch_ops C (entries batch) ev) = Ok ops" "storage_ok hm C (tree_get t) (fold apply_op ops (contents (pdb p)))"
    unfolding get' by blast
  from kv_db.write_contents [OF kv p(3), of ops] obtain db' where
    db': "sdb_write R (pdb p) ops = Ok db'" "invar db'" "contents db' = fold apply_op ops (contents (pdb p))" by blast
  let ?p = "p\<lparr>ptree := t, pdb := db'\<rparr>"
  have "persistent_insert_batch hm C D R p batch = (?p, Ok ())"
    using False t(1) ops(1) db'(1) by (simp add: persistent_insert_batch_def)
  moreover have "persistent_ok hm C D invar contents ?p" using t db' ops by (simp add: persistent_ok_def)
  ultimately show ?thesis using t(4) get by (intro exI [of _ ?p]) simp
qed

end
