(* ===== verification/Smirk_Storage_Props.thy ===== *)
theory Smirk_Storage_Props
  imports Smirk_Storage_Correct Smirk_Props
begin

text \<open>
  The property of the persistent tree, with a witness on an in-memory database and a tagged encoding.
\<close>

section \<open>A sample encoding\<close>

fun sample_key :: "KeyFormat \<Rightarrow> bytes" where
  "sample_key (KeyFormatV1 e) = 1 # to_be_bytes e"
| "sample_key (KeyFormatV2 (ElementKey e)) = 2 # to_be_bytes e"
| "sample_key (KeyFormatV2 (KnownHashKey l r)) = 3 # to_be_bytes l @ to_be_bytes r"

fun sample_value :: "nat ValueFormat \<Rightarrow> bytes" where
  "sample_value (ValueFormatV1 n) = 1 # replicate n 0"
| "sample_value (ValueFormatV2 (Metadata n)) = 2 # replicate n 0"
| "sample_value (ValueFormatV2 (KnownHashValue h)) = 3 # to_be_bytes h"

definition sample_codec :: "nat storage_codec" where
  "sample_codec = \<lparr>
     key_to_bytes = (\<lambda>k. Ok (sample_key k)),
     key_from_bytes = (\<lambda>b. case b of
         [] \<Rightarrow> Err Deserialize
       | t # e \<Rightarrow> Ok (if t = 1 then KeyFormatV1 (from_be_bytes e)
           else if t = 2 then KeyFormatV2 (ElementKey (from_be_bytes e))
           else KeyFormatV2 (KnownHashKey (from_be_bytes (take 32 e)) (from_be_bytes (drop 32 e))))),
     value_to_bytes = (\<lambda>v. Ok (sample_value v)),
     value_from_bytes = (\<lambda>b. case b of
         [] \<Rightarrow> Err Deserialize
       | t # e \<Rightarrow> Ok (if t = 1 then ValueFormatV1 (length e)
           else if t = 2 then ValueFormatV2 (Metadata (length e))
           else ValueFormatV2 (KnownHashValue (from_be_bytes e))))\<rparr>"

lemma length_to_be_bytes32: "length (to_be_bytes e) = 32"
  by (simp add: to_be_bytes_def)

lemma sample_codec_ok: "storage_codec_ok sample_codec"
proof -
  have "key_from_bytes sample_codec (sample_key k) = Ok k" for k
    by (cases k rule: sample_key.cases) (simp_all add: sample_codec_def from_to_be_bytes length_to_be_bytes32)
  moreover have "value_from_bytes sample_codec (sample_value v) = Ok v" for v
    by (cases v rule: sample_value.cases) (simp_all add: sample_codec_def from_to_be_bytes)
  ultimately show ?thesis by (simp add: storage_codec_ok_def) (simp add: sample_codec_def)
qed

definition sample_persistent :: "(nat, (bytes, bytes) btree) Persistent" where
  "sample_persistent = \<lparr>ptree = new_with_cache 4 simple_new, pdb = []\<rparr>"

lemma sample_persistent_ok:
  "persistent_ok hm sample_codec 4 bt_ok (\<lambda>d. d) sample_persistent" "tree_keys (ptree sample_persistent) = {}"
proof -
  let ?t = "new_with_cache 4 simple_new :: (nat, SimpleHashCache) Tree"
  have "tree_get ?t = (\<lambda>_. None)" by (simp add: fun_eq_iff tree_get_def new_with_cache_def)
  then show "persistent_ok hm sample_codec 4 bt_ok (\<lambda>d. d) sample_persistent"
    by (simp add: persistent_ok_def sample_persistent_def new_with_cache_ok storage_ok_empty)
       (simp add: new_with_cache_def simple_new_sound)
  show "tree_keys (ptree sample_persistent) = {}"
    by (simp add: sample_persistent_def tree_keys_def new_with_cache_def bt_keys_def)
qed

section \<open>Round trip through the database\<close>

text \<open>
  C26: the persistent tree. From a state in which the database describes the tree, inserting a batch
  without the null element either reports a collision and changes nothing, or succeeds; then the
  database describes the new tree again, and loading it gives a tree with the same entries and the
  same root hash.
\<close>

theorem persistent_round_trip:
  assumes "kv_db R invar contents" "storage_codec_ok C" "persistent_ok hm C D invar contents p"
    and "batch_ok D batch" "NULL_HASH \<notin> set (elements batch)"
  shows "if \<forall>k \<in> tree_keys (ptree p). \<forall>e \<in> set (elements batch). \<not> collides_with D k e
    then \<exists>p' t. persistent_insert_batch hm C D R p batch = (p', Ok ()) \<and> persistent_ok hm C D invar contents p'
      \<and> tree_keys (ptree p') = tree_keys (ptree p) \<union> set (elements batch)
      \<and> load_tree hm C D R (pdb p') = Ok t \<and> tree_ok hm D t
      \<and> tree_entries t = tree_entries (ptree p') \<and> root_hash hm t = root_hash hm (ptree p')
    else \<exists>err. persistent_insert_batch hm C D R p batch = (p, Err (StorageCollision err)) \<and> collisions err \<noteq> []"
proof (cases "\<forall>k \<in> tree_keys (ptree p). \<forall>e \<in> set (elements batch). \<not> collides_with D k e")
  case True
  from persistent_insert_batch_ok [OF assms True] obtain p' where
    p': "persistent_insert_batch hm C D R p batch = (p', Ok ())" "persistent_ok hm C D invar contents p'"
      "tree_keys (ptree p') = tree_keys (ptree p) \<union> set (elements batch)" by blast
  from p'(2) have "invar (pdb p')" "tree_ok hm D (ptree p')" "storage_ok hm C (tree_get (ptree p')) (contents (pdb p'))"
    by (simp_all add: persistent_ok_def)
  from load_tree_spec [OF assms(1) this(1) assms(2) this(2,3)] p' True show ?thesis by auto
next
  case False
  then obtain k e where ke: "k \<in> tree_keys (ptree p)" "e \<in> set (elements batch)" "collides_with D k e" by blast
  from simple.insert_batch_collision [OF assms(4) ke] obtain err where
    "insert_batch hm (simple_hash hm) D (ptree p) batch = (ptree p, [], Err err)" "collisions err \<noteq> []" by blast
  moreover have "\<not> batch_is_empty batch" using ke(2) by (auto simp: batch_is_empty_def elements_def)
  ultimately show ?thesis using False by (auto simp: persistent_insert_batch_def)
qed

theorem persistent_round_trip_witness:
  "\<exists>b p' t. from_entries 4 [(1, 10), (6 :: element, 20 :: nat)] = Ok b
    \<and> persistent_insert_batch sample_hash sample_codec 4 mem_smirk_db sample_persistent b = (p', Ok ())
    \<and> tree_keys (ptree p') = {1, 6} \<and> load_tree sample_hash sample_codec 4 mem_smirk_db (pdb p') = Ok t
    \<and> root_hash sample_hash t = root_hash sample_hash (ptree p')"
proof -
  obtain b where b: "from_entries 4 [(1, 10), (6 :: element, 20 :: nat)] = Ok b" "batch_ok 4 b"
    "elements b = [1, 6]" using sample_batch by blast
  have "NULL_HASH \<notin> set (elements b)" by (simp add: b(3) NULL_HASH_def ZERO_def)
  from persistent_round_trip [OF mem_db.kv_db_axioms sample_codec_ok sample_persistent_ok(1) b(2) this, where hm = sample_hash]
  obtain p' t where "persistent_insert_batch sample_hash sample_codec 4 mem_smirk_db sample_persistent b = (p', Ok ())"
    "tree_keys (ptree p') = {} \<union> set (elements b)" "load_tree sample_hash sample_codec 4 mem_smirk_db (pdb p') = Ok t"
    "root_hash sample_hash t = root_hash sample_hash (ptree p')"
    unfolding sample_persistent_ok(2) by auto
  with b show ?thesis by (intro exI [of _ b] exI [of _ p'] exI [of _ t]) simp
qed

end
