(* ===== verification/Primitives.thy ===== *)
theory Primitives
  imports Prelude
begin

text \<open>
  The shared chain types of \<^verbatim>\<open>pkg/primitives\<close>: block heights, 32-byte hashes, addresses and
  recoverable signatures (\<^verbatim>\<open>block_height.rs\<close>, \<^verbatim>\<open>hash.rs\<close>, \<^verbatim>\<open>peer.rs\<close>, \<^verbatim>\<open>sig.rs\<close>). Byte arrays of a
  fixed length are words in big-endian reading. The hash functions and the elliptic-curve
  operations of secp256k1 are parameters; what signing relies on is stated as hypotheses.
\<close>

type_synonym BlockHeight = u64
type_synonym CryptoHash = "256 word"
type_synonym Address = "160 word"

definition height_next :: "BlockHeight \<Rightarrow> BlockHeight" where
  "height_next h = h + 1"

section \<open>Hashes and addresses\<close>

definition hash_bytes32 :: "CryptoHash \<Rightarrow> bytes" where
  "hash_bytes32 h = be_bytes 32 (unat h)"

definition hash_of_bytes :: "bytes \<Rightarrow> CryptoHash" where
  "hash_of_bytes bs = word_of_nat (be_val bs)"

definition hash_from_u64 :: "u64 \<Rightarrow> CryptoHash" where
  "hash_from_u64 n = hash_of_bytes (replicate 24 0 @ be_bytes 8 (unat n))"

definition hash_as_u256 :: "CryptoHash \<Rightarrow> 256 word" where
  "hash_as_u256 h = word_of_nat (be_val (rev (hash_bytes32 h)))"

definition hash_genesis :: CryptoHash where
  "hash_genesis = hash_of_bytes (replicate 32 0)"

definition from_vec_hash :: "(bytes \<Rightarrow> bytes) \<Rightarrow> bytes \<Rightarrow> CryptoHash" where
  "from_vec_hash sha256 v = hash_of_bytes (sha256 v)"

definition address_bytes :: "Address \<Rightarrow> bytes" where
  "address_bytes a = be_bytes 20 (unat a)"

definition address_to_u256 :: "Address \<Rightarrow> 256 word" where
  "address_to_u256 a = word_of_nat (be_val (rev (address_bytes a)))"

text \<open>The last 20 bytes of the hash of the uncompressed key without its leading tag byte.\<close>

definition from_public_key :: "(bytes \<Rightarrow> bytes) \<Rightarrow> ('pk \<Rightarrow> bytes) \<Rightarrow> 'pk \<Rightarrow> Address" where
  "from_public_key keccak serialize_uncompressed pk =
     (let hashed_pubkey = keccak (drop 1 (serialize_uncompressed pk))
      in word_of_nat (be_val (drop (length hashed_pubkey - 20) hashed_pubkey)))"

definition from_secret_key ::
    "(bytes \<Rightarrow> bytes) \<Rightarrow> ('pk \<Rightarrow> bytes) \<Rightarrow> ('sk \<Rightarrow> 'pk) \<Rightarrow> 'sk \<Rightarrow> Address" where
  "from_secret_key keccak serialize_uncompressed pk_of sk =
     from_public_key keccak serialize_uncompressed (pk_of sk)"

section \<open>Signatures\<close>

type_synonym Signature = bytes

definition NETWORK :: bytes where
  "NETWORK = [84, 101, 109, 112, 111]"

text \<open>The digest that is signed: the length of the network name, the name, the message.\<close>

definition sig_digest :: "(bytes \<Rightarrow> bytes) \<Rightarrow> CryptoHash \<Rightarrow> bytes" where
  "sig_digest keccak msg = keccak (be_bytes 8 (length NETWORK) @ NETWORK @ hash_bytes32 msg)"

text \<open>
  \<^verbatim>\<open>Signature::verify\<close>: an unknown recovery id gives \<open>None\<close>, a compact signature that does not parse
  is unwrapped and panics, and a key that cannot be recovered gives \<open>None\<close>.
\<close>

definition sig_verify ::
    "(bytes \<Rightarrow> bytes) \<Rightarrow> ('pk \<Rightarrow> bytes) \<Rightarrow> (bytes \<Rightarrow> nat \<Rightarrow> 'rs option) \<Rightarrow> (bytes \<Rightarrow> 'rs \<Rightarrow> 'pk option)
      \<Rightarrow> Signature \<Rightarrow> CryptoHash \<Rightarrow> (unit, Address option) outcome" where
  "sig_verify keccak serialize_uncompressed from_compact recover_ecdsa sig msg =
     (let d = sig_digest keccak msg; rid = unat (sig ! 64) in
      if 4 \<le> rid then Ok None
      else
        (case from_compact (take 64 sig) rid of
           None \<Rightarrow> Panic
         | Some s \<Rightarrow>
             Ok (map_option (from_public_key keccak serialize_uncompressed) (recover_ecdsa d s))))"

definition signer_sign ::
    "(bytes \<Rightarrow> bytes) \<Rightarrow> (bytes \<Rightarrow> 'sk \<Rightarrow> 'rs) \<Rightarrow> ('rs \<Rightarrow> nat \<times> bytes) \<Rightarrow> 'sk \<Rightarrow> CryptoHash \<Rightarrow> Signature" where
  "signer_sign keccak sign_ecdsa_recoverable serialize_compact sk msg =
     (let (recovery, rest) = serialize_compact (sign_ecdsa_recoverable (sig_digest keccak msg) sk)
      in take 64 rest @ [word_of_nat recovery])"

text \<open>\<^verbatim>\<open>Address::verify\<close>: a signature from which no key is recovered counts as the zero address.\<close>

definition address_verify :: "(unit, Address option) outcome \<Rightarrow> Address \<Rightarrow> (unit, bool) outcome" where
  "address_verify verified a = omap (\<lambda>r. (case r of Some x \<Rightarrow> x | None \<Rightarrow> 0) = a) verified"

text \<open>
  A signature made by a signer verifies to the address of the signer's key, and never panics,
  given what the signature library documents: a signature serialises to a recovery id below 4 and
  64 bytes, parses back from them, and recovers the public key of the key that made it.
\<close>

theorem verify_sign:
  assumes shape: "\<And>s. fst (serialize_compact s) < 4 \<and> length (snd (serialize_compact s)) = 64"
    and parse: "\<And>s. from_compact (snd (serialize_compact s)) (fst (serialize_compact s)) = Some s"
    and recover: "\<And>d sk. recover_ecdsa d (sign_ecdsa_recoverable d sk) = Some (pk_of sk)"
  shows "sig_verify keccak ser from_compact recover_ecdsa
      (signer_sign keccak sign_ecdsa_recoverable serialize_compact sk msg) msg
    = Ok (Some (from_secret_key keccak ser pk_of sk))"
proof -
  let ?s = "sign_ecdsa_recoverable (sig_digest keccak msg) sk"
  obtain r rest where s: "serialize_compact ?s = (r, rest)" by (cases "serialize_compact ?s")
  with shape [of ?s] have "r < 4" "length rest = 64" by auto
  moreover from this have "unat (word_of_nat r :: u8) = r" by (simp add: unat_of_nat)
  ultimately show ?thesis
    using parse [of ?s] recover s
    by (simp add: sig_verify_def signer_sign_def from_secret_key_def Let_def nth_append)
qed

theorem verify_sign_witness:
  "sig_verify (\<lambda>bs. bs) (\<lambda>pk. [4, pk]) (\<lambda>bs r. Some (hd bs)) (\<lambda>d s. Some s)
      (signer_sign (\<lambda>bs. bs) (\<lambda>d sk. sk) (\<lambda>s. (0, s # replicate 63 0)) (7 :: u8) 9) 9
    = Ok (Some (from_secret_key (\<lambda>bs. bs) (\<lambda>pk. [4, pk]) (\<lambda>sk. sk) (7 :: u8)))"
  by (rule verify_sign) simp_all

end
