(* ===== verification/Doomslug.thy ===== *)
theory Doomslug
  imports Primitives
begin

text \<open>
  The block-production gadget of \<^verbatim>\<open>pkg/doomslug\<close>: approvals (\<^verbatim>\<open>approval.rs\<close>), the trackers that
  collect them and the timer that emits them (\<^verbatim>\<open>doomslug.rs\<close>). Heights and balances keep their
  width, and sums wrap as in a release build. Instants and durations are numbers of nanoseconds; the
  clock readings that the source takes for itself are arguments. \<^verbatim>\<open>debug_assert!\<close> is not part of a
  release build and is left out. Hash maps are association lists.
\<close>

section \<open>Approvals\<close>

type_synonym Balance = u128
type_synonym Instant = nat
type_synonym Duration = nat
type_synonym DateTime = int

datatype ApprovalInner = Endorsement CryptoHash | Skip BlockHeight

record ApprovalContent =
  inner :: ApprovalInner
  target_height :: BlockHeight

record Approval =
  ap_content :: ApprovalContent
  ap_signature :: Signature

record ApprovalValidated =
  content :: ApprovalContent
  signature :: Signature
  validator :: Address

record ApprovalStake =
  stake_validator :: Address
  stake_this_epoch :: Balance
  stake_next_epoch :: Balance

record ApprovalAtHeightStatus =
  status_approvals :: "(Address, ApprovalInner \<times> DateTime) hashmap"
  ready_at :: "DateTime option"

record ApprovalHistoryEntry =
  entry_parent_height :: BlockHeight
  entry_target_height :: BlockHeight
  approval_creation_time :: DateTime
  timer_started_ago_millis :: u64
  expected_delay_millis :: u64

datatype DoomslugError = InvalidSignature

definition approval_inner_new :: "CryptoHash \<Rightarrow> BlockHeight \<Rightarrow> BlockHeight \<Rightarrow> ApprovalInner" where
  "approval_inner_new parent_hash parent_height target =
     (if target = parent_height + 1 then Endorsement parent_hash else Skip parent_height)"

definition approval_content_new :: "CryptoHash \<Rightarrow> BlockHeight \<Rightarrow> BlockHeight \<Rightarrow> ApprovalContent" where
  "approval_content_new parent_hash parent_height target =
     \<lparr>inner = approval_inner_new parent_hash parent_height target, target_height = target\<rparr>"

definition new_endorsement :: "CryptoHash \<Rightarrow> BlockHeight \<Rightarrow> ApprovalContent" where
  "new_endorsement parent_hash target = \<lparr>inner = Endorsement parent_hash, target_height = target\<rparr>"

text \<open>The hash that is signed; for a skip it is a \<^verbatim>\<open>todo!\<close>.\<close>

definition approval_hash :: "(bytes \<Rightarrow> bytes) \<Rightarrow> ApprovalContent \<Rightarrow> ('e, CryptoHash) outcome" where
  "approval_hash keccak c =
     (case inner c of
        Endorsement h \<Rightarrow>
          Ok (hash_of_bytes (keccak (be_bytes 32 (unat (target_height c)) @ hash_bytes32 h)))
      | Skip _ \<Rightarrow> Panic)"

definition approval_validate ::
    "(bytes \<Rightarrow> bytes) \<Rightarrow> (Signature \<Rightarrow> CryptoHash \<Rightarrow> (DoomslugError, Address option) outcome)
      \<Rightarrow> Approval \<Rightarrow> (DoomslugError, ApprovalValidated) outcome" where
  "approval_validate keccak verify msg =
     obind (approval_hash keccak (ap_content msg)) (\<lambda>h.
     obind (verify (ap_signature msg) h) (\<lambda>a.
       case a of
         None \<Rightarrow> Err InvalidSignature
       | Some v \<Rightarrow> Ok \<lparr>content = ap_content msg, signature = ap_signature msg, validator = v\<rparr>))"

definition to_approval ::
    "(bytes \<Rightarrow> bytes) \<Rightarrow> (CryptoHash \<Rightarrow> Signature) \<Rightarrow> ApprovalContent \<Rightarrow> ('e, Approval) outcome" where
  "to_approval keccak sign c =
     omap (\<lambda>h. \<lparr>ap_content = c, ap_signature = sign h\<rparr>) (approval_hash keccak c)"

definition to_approval_validated ::
    "(bytes \<Rightarrow> bytes) \<Rightarrow> (CryptoHash \<Rightarrow> Signature) \<Rightarrow> Address \<Rightarrow> ApprovalContent
      \<Rightarrow> ('e, ApprovalValidated) outcome" where
  "to_approval_validated keccak sign peer c =
     omap (\<lambda>h. \<lparr>content = c, signature = sign h, validator = peer\<rparr>) (approval_hash keccak c)"

section \<open>The approvals of one parent\<close>

datatype DoomslugThresholdMode = NoApprovals | TwoThirds

datatype DoomslugBlockProductionReadiness = NotReady | ReadySince Instant

record DoomslugApprovalsTracker =
  witness :: "(Address, ApprovalValidated \<times> DateTime) hashmap"
  account_id_to_stakes :: "(Address, Balance \<times> Balance) hashmap"
  total_stake_this_epoch :: Balance
  approved_stake_this_epoch :: Balance
  total_stake_next_epoch :: Balance
  approved_stake_next_epoch :: Balance
  time_passed_threshold :: "Instant option"
  tracker_threshold_mode :: DoomslugThresholdMode

definition tracker_new ::
    "(Address, Balance \<times> Balance) hashmap \<Rightarrow> DoomslugThresholdMode \<Rightarrow> DoomslugApprovalsTracker" where
  "tracker_new stakes mode =
     \<lparr>witness = [], account_id_to_stakes = stakes,
      total_stake_this_epoch = (\<Sum>(_, x, _) \<leftarrow> stakes. x), approved_stake_this_epoch = 0,
      total_stake_next_epoch = (\<Sum>(_, _, x) \<leftarrow> stakes. x), approved_stake_next_epoch = 0,
      time_passed_threshold = None, tracker_threshold_mode = mode\<rparr>"

definition get_block_production_readiness ::
    "Instant \<Rightarrow> DoomslugApprovalsTracker \<Rightarrow> DoomslugApprovalsTracker \<times> DoomslugBlockProductionReadiness" where
  "get_block_production_readiness now tr =
     (if (approved_stake_this_epoch tr > total_stake_this_epoch tr * 2 div 3
          \<and> (approved_stake_next_epoch tr > total_stake_next_epoch tr * 2 div 3
             \<or> total_stake_next_epoch tr = 0))
         \<or> tracker_threshold_mode tr = NoApprovals
      then
        (let tr' = (if time_passed_threshold tr = None then tr\<lparr>time_passed_threshold := Some now\<rparr> else tr)
         in (tr', ReadySince (the (time_passed_threshold tr'))))
      else (tr, NotReady))"

definition stakes_of :: "DoomslugApprovalsTracker \<Rightarrow> Address \<Rightarrow> Balance \<times> Balance" where
  "stakes_of tr v = (case map_of (account_id_to_stakes tr) v of Some x \<Rightarrow> x | None \<Rightarrow> (0, 0))"

definition tracker_process_approval ::
    "Instant \<Rightarrow> DateTime \<Rightarrow> ApprovalValidated \<Rightarrow> DoomslugApprovalsTracker
      \<Rightarrow> DoomslugApprovalsTracker \<times> DoomslugBlockProductionReadiness" where
  "tracker_process_approval now utc approval tr =
     (let increment_approved_stake = (map_of (witness tr) (validator approval) = None);
          tr1 = (if increment_approved_stake
                 then tr\<lparr>witness := AList.update (validator approval) (approval, utc) (witness tr)\<rparr>
                 else tr);
          tr2 = (if increment_approved_stake
                 then (let stakes = stakes_of tr1 (validator approval) in
                       tr1\<lparr>approved_stake_this_epoch := approved_stake_this_epoch tr1 + fst stakes,
                           approved_stake_next_epoch := approved_stake_next_epoch tr1 + snd stakes\<rparr>)
                 else tr1)
      in get_block_production_readiness now tr2)"

definition withdraw_approval :: "Address \<Rightarrow> DoomslugApprovalsTracker \<Rightarrow> DoomslugApprovalsTracker" where
  "withdraw_approval v tr =
     (case map_of (witness tr) v of
        None \<Rightarrow> tr
      | Some (approval, _) \<Rightarrow>
          (let stakes = stakes_of tr (validator approval) in
           tr\<lparr>witness := AList.delete v (witness tr),
              approved_stake_this_epoch := approved_stake_this_epoch tr - fst stakes,
              approved_stake_next_epoch := approved_stake_next_epoch tr - snd stakes\<rparr>))"

definition get_witnesses :: "DoomslugApprovalsTracker \<Rightarrow> (Address \<times> DateTime) list" where
  "get_witnesses tr = map (\<lambda>(k, _, arrival_time). (k, arrival_time)) (witness tr)"

section \<open>The approvals of one height\<close>

record DoomslugApprovalsTrackersAtHeight =
  approval_trackers :: "(ApprovalInner, DoomslugApprovalsTracker) hashmap"
  last_approval_per_account :: "(Address, ApprovalInner) hashmap"

definition trackers_new :: DoomslugApprovalsTrackersAtHeight where
  "trackers_new = \<lparr>approval_trackers = [], last_approval_per_account = []\<rparr>"

text \<open>The first part: the account's previous approval is withdrawn, and an empty tracker removed.\<close>

definition withdraw_last ::
    "Address \<Rightarrow> DoomslugApprovalsTrackersAtHeight \<Rightarrow> DoomslugApprovalsTrackersAtHeight" where
  "withdraw_last v th =
     (case map_of (last_approval_per_account th) v of
        None \<Rightarrow> th
      | Some last_parent \<Rightarrow>
          (case map_of (approval_trackers th) last_parent of
             None \<Rightarrow> th
           | Some x \<Rightarrow>
               (let x' = withdraw_approval v x;
                    ts = AList.update last_parent x' (approval_trackers th)
                in th\<lparr>approval_trackers :=
                        (if witness x' = [] then AList.delete last_parent ts else ts)\<rparr>)))"

definition collect_stakes :: "(ApprovalStake \<times> bool) list \<Rightarrow> (Address, Balance \<times> Balance) hashmap" where
  "collect_stakes stakes =
     fold (\<lambda>(x, is_slashed) m.
       if is_slashed then m
       else AList.update (stake_validator x) (stake_this_epoch x, stake_next_epoch x) m) stakes []"

text \<open>
  \<^verbatim>\<open>assert_eq!\<close> on the number of collected stakes panics when a validator is slashed or listed
  twice. The withdrawal before it has happened by then.
\<close>

definition process_approval ::
    "Instant \<Rightarrow> DateTime \<Rightarrow> ApprovalValidated \<Rightarrow> (ApprovalStake \<times> bool) list \<Rightarrow> DoomslugThresholdMode
      \<Rightarrow> DoomslugApprovalsTrackersAtHeight
      \<Rightarrow> (unit, DoomslugApprovalsTrackersAtHeight \<times> DoomslugBlockProductionReadiness) outcome" where
  "process_approval now utc approval stakes mode th =
     (let th1 = withdraw_last (validator approval) th;
          acc = collect_stakes stakes
      in if length acc \<noteq> length stakes then Panic
      else if map_of acc (validator approval) = None then Ok (th1, NotReady)
      else
        let th2 = th1\<lparr>last_approval_per_account :=
                        AList.update (validator approval) (inner (content approval))
                          (last_approval_per_account th1)\<rparr>;
            tr = (case map_of (approval_trackers th2) (inner (content approval)) of
                    Some tr \<Rightarrow> tr | None \<Rightarrow> tracker_new acc mode);
            (tr', ready) = tracker_process_approval now utc approval tr
        in Ok (th2\<lparr>approval_trackers :=
                     AList.update (inner (content approval)) tr' (approval_trackers th2)\<rparr>, ready))"

text \<open>\<^verbatim>\<open>status\<close>, at an instant \<open>now\<close> and wall-clock time \<open>utc\<close> (the fallback of a day never applies).\<close>

definition status ::
    "Instant \<Rightarrow> DateTime \<Rightarrow> DoomslugApprovalsTrackersAtHeight \<Rightarrow> ApprovalAtHeightStatus" where
  "status now utc th =
     \<lparr>status_approvals =
        fold (\<lambda>(approval, tracker) m.
          fold (\<lambda>(account, time) m. AList.update account (approval, time) m) (get_witnesses tracker) m)
          (approval_trackers th) [],
      ready_at =
        (case List.map_filter (\<lambda>(_, tracker). time_passed_threshold tracker) (approval_trackers th) of
           [] \<Rightarrow> None
         | t # ts \<Rightarrow> Some (utc - int (now - fold min ts t)))\<rparr>"

section \<open>The gadget\<close>

record DoomslugTimer =
  started :: Instant
  last_endorsement_sent :: Instant
  timer_height :: BlockHeight
  endorsement_delay :: Duration
  min_delay :: Duration
  delay_step :: Duration
  max_delay :: Duration

record DoomslugTip =
  block_hash :: CryptoHash
  tip_height :: BlockHeight

record Doomslug =
  approval_tracking :: "(BlockHeight, DoomslugApprovalsTrackersAtHeight) hashmap"
  largest_sent_target_height :: BlockHeight
  largest_final_height :: BlockHeight
  largest_threshold_approvals_height :: BlockHeight
  largest_approval_target_height :: BlockHeight
  tip :: DoomslugTip
  endorsement_pending :: bool
  timer :: DoomslugTimer
  threshold_mode :: DoomslugThresholdMode
  history :: "ApprovalHistoryEntry list"

definition MAX_TIMER_ITERS :: nat where "MAX_TIMER_ITERS = 20"
definition MAX_HEIGHTS_AHEAD_TO_STORE_APPROVALS :: BlockHeight where
  "MAX_HEIGHTS_AHEAD_TO_STORE_APPROVALS = 10000"
definition MAX_HEIGHTS_BEFORE_TO_STORE_APPROVALS :: u64 where
  "MAX_HEIGHTS_BEFORE_TO_STORE_APPROVALS = 20"
definition MAX_HISTORY_SIZE :: nat where "MAX_HISTORY_SIZE = 1000"

text \<open>\<^verbatim>\<open>Duration\<close> holds less than \<open>2^64\<close> seconds; its arithmetic panics beyond.\<close>

definition DURATION_LIMIT :: nat where "DURATION_LIMIT = 2 ^ 64 * 10 ^ 9"

definition sat_sub :: "u64 \<Rightarrow> u64 \<Rightarrow> u64" where
  "sat_sub a b = (if a \<le> b then 0 else a - b)"

definition get_delay :: "DoomslugTimer \<Rightarrow> u64 \<Rightarrow> (unit, Duration) outcome" where
  "get_delay t n =
     (let n32 = (if unat n < 2 ^ 32 then unat n else 2 ^ 32 - 1);
          step = delay_step t * (n32 - 2)
      in if DURATION_LIMIT \<le> step \<or> DURATION_LIMIT \<le> min_delay t + step then Panic
      else Ok (min (max_delay t) (min_delay t + step)))"

definition doomslug_new ::
    "Instant \<Rightarrow> Instant \<Rightarrow> BlockHeight \<Rightarrow> Duration \<Rightarrow> Duration \<Rightarrow> Duration \<Rightarrow> Duration
      \<Rightarrow> DoomslugThresholdMode \<Rightarrow> Doomslug" where
  "doomslug_new now1 now2 largest_sent e_delay mn_delay d_step mx_delay mode =
     \<lparr>approval_tracking = [], largest_sent_target_height = largest_sent,
      largest_final_height = 0, largest_threshold_approvals_height = 0,
      largest_approval_target_height = 0,
      tip = \<lparr>block_hash = 0, tip_height = 0\<rparr>, endorsement_pending = False,
      timer = \<lparr>started = now1, last_endorsement_sent = now2, timer_height = 0,
               endorsement_delay = e_delay, min_delay = mn_delay, delay_step = d_step,
               max_delay = mx_delay\<rparr>,
      threshold_mode = mode, history = []\<rparr>"

definition get_tip :: "Doomslug \<Rightarrow> CryptoHash \<times> BlockHeight" where
  "get_tip s = (block_hash (tip s), tip_height (tip s))"

text \<open>The loop of \<^verbatim>\<open>update_history\<close> drops from the front until there is room.\<close>

definition update_history :: "ApprovalHistoryEntry \<Rightarrow> Doomslug \<Rightarrow> Doomslug" where
  "update_history entry s =
     s\<lparr>history := drop (length (history s) - (MAX_HISTORY_SIZE - 1)) (history s) @ [entry]\<rparr>"

definition create_approval :: "Doomslug \<Rightarrow> BlockHeight \<Rightarrow> ApprovalContent option" where
  "create_approval s target =
     Some (approval_content_new (block_hash (tip s)) (tip_height (tip s)) target)"

text \<open>Milliseconds since an instant, as a \<^verbatim>\<open>u64\<close>.\<close>

definition millis :: "nat \<Rightarrow> u64" where
  "millis ns = word_of_nat (ns div 10 ^ 6)"

text \<open>
  The two halves of an iteration of \<^verbatim>\<open>process_timer\<close>: the endorsement of a recent block, and the
  timeout. \<open>clk\<close> is what the clocks say when the history entry is written.
\<close>

definition timer_endorse :: "Instant \<times> DateTime \<Rightarrow> Instant \<Rightarrow> Doomslug \<Rightarrow> Doomslug \<times> ApprovalContent list" where
  "timer_endorse clk cur_time s =
     (if endorsement_pending s
         \<and> cur_time \<ge> last_endorsement_sent (timer s) + endorsement_delay (timer s)
      then
        (let th = tip_height (tip s);
             (s1, out) =
               (if th \<ge> largest_sent_target_height s
                then
                  (let s0 = s\<lparr>largest_sent_target_height := th + 1\<rparr>;
                       out = (case create_approval s0 (th + 1) of Some a \<Rightarrow> [a] | None \<Rightarrow> [])
                   in (update_history
                         \<lparr>entry_parent_height = th, entry_target_height = th + 1,
                          approval_creation_time = snd clk,
                          timer_started_ago_millis = millis (fst clk - last_endorsement_sent (timer s0)),
                          expected_delay_millis = millis (endorsement_delay (timer s0))\<rparr> s0, out))
                else (s, []))
         in (s1\<lparr>timer := (timer s1)\<lparr>last_endorsement_sent := cur_time\<rparr>, endorsement_pending := False\<rparr>, out))
      else (s, []))"

definition timer_skip :: "Instant \<times> DateTime \<Rightarrow> Duration \<Rightarrow> Doomslug \<Rightarrow> Doomslug \<times> ApprovalContent list" where
  "timer_skip clk skip_delay s =
     (let target = timer_height (timer s) + 1;
          s1 = s\<lparr>largest_sent_target_height := max target (largest_sent_target_height s)\<rparr>;
          out = (case create_approval s1 target of Some a \<Rightarrow> [a] | None \<Rightarrow> []);
          s2 = update_history
                 \<lparr>entry_parent_height = tip_height (tip s), entry_target_height = target,
                  approval_creation_time = snd clk,
                  timer_started_ago_millis = millis (fst clk - started (timer s1)),
                  expected_delay_millis = millis skip_delay\<rparr> s1
      in (s2\<lparr>timer := (timer s2)\<lparr>started := started (timer s2) + skip_delay,
                                timer_height := timer_height (timer s2) + 1\<rparr>\<rparr>, out))"

fun timer_loop ::
    "(nat \<Rightarrow> bool \<Rightarrow> Instant \<times> DateTime) \<Rightarrow> Instant \<Rightarrow> nat \<Rightarrow> Doomslug
      \<Rightarrow> (unit, Doomslug \<times> ApprovalContent list) outcome" where
  "timer_loop clk cur_time 0 s = Ok (s, [])"
| "timer_loop clk cur_time (Suc k) s =
     obind (get_delay (timer s) (sat_sub (timer_height (timer s)) (largest_final_height s)))
       (\<lambda>skip_delay.
          let (s1, out1) = timer_endorse (clk k False) cur_time s in
          if cur_time \<ge> started (timer s1) + skip_delay
          then (let (s2, out2) = timer_skip (clk k True) skip_delay s1 in
                omap (\<lambda>(s3, out3). (s3, out1 @ out2 @ out3)) (timer_loop clk cur_time k s2))
          else Ok (s1, out1))"

definition process_timer ::
    "(nat \<Rightarrow> bool \<Rightarrow> Instant \<times> DateTime) \<Rightarrow> Instant \<Rightarrow> Doomslug
      \<Rightarrow> (unit, Doomslug \<times> ApprovalContent list) outcome" where
  "process_timer clk cur_time s = timer_loop clk cur_time MAX_TIMER_ITERS s"

definition can_approved_block_be_produced ::
    "DoomslugThresholdMode \<Rightarrow> bool option list \<Rightarrow> (Balance \<times> Balance \<times> bool) list \<Rightarrow> bool" where
  "can_approved_block_be_produced mode approvals stakes =
     (if mode = NoApprovals then True
      else
        let threshold1 = (\<Sum>(x, _, _) \<leftarrow> stakes. x) * 2 div 3;
            threshold2 = (\<Sum>(_, x, _) \<leftarrow> stakes. x) * 2 div 3;
            kept = filter (\<lambda>(_, _, _, is_slashed). \<not> is_slashed) (zip approvals stakes);
            approved_stake1 = (\<Sum>(a, stake, _, _) \<leftarrow> kept. if a \<noteq> None then stake else 0);
            approved_stake2 = (\<Sum>(a, _, stake, _) \<leftarrow> kept. if a \<noteq> None then stake else 0)
        in (approved_stake1 > threshold1 \<or> threshold1 = 0)
           \<and> (approved_stake2 > threshold2 \<or> threshold2 = 0))"

definition get_witness ::
    "Doomslug \<Rightarrow> CryptoHash \<Rightarrow> BlockHeight \<Rightarrow> BlockHeight
      \<Rightarrow> (Address, ApprovalValidated \<times> DateTime) hashmap" where
  "get_witness s prev_hash parent_height target =
     (case map_of (approval_tracking s) target of
        Some th \<Rightarrow>
          (case map_of (approval_trackers th) (approval_inner_new prev_hash parent_height target) of
             None \<Rightarrow> [] | Some tr \<Rightarrow> witness tr)
      | None \<Rightarrow> [])"

definition on_block :: "Instant \<Rightarrow> CryptoHash \<Rightarrow> BlockHeight \<Rightarrow> BlockHeight \<Rightarrow> Doomslug \<Rightarrow> Doomslug" where
  "on_block now hash height last_final_height s =
     (let s1 = s\<lparr>tip := \<lparr>block_hash = hash, tip_height = height\<rparr>,
                 largest_final_height := last_final_height,
                 timer := (timer s)\<lparr>timer_height := height + 1, started := now\<rparr>\<rparr>
      in s1\<lparr>approval_tracking :=
              filter (\<lambda>(h, _). h > sat_sub height MAX_HEIGHTS_BEFORE_TO_STORE_APPROVALS
                                \<and> h \<le> height + MAX_HEIGHTS_AHEAD_TO_STORE_APPROVALS) (approval_tracking s1),
            endorsement_pending := True\<rparr>)"

definition on_approval_internal ::
    "Instant \<Rightarrow> DateTime \<Rightarrow> ApprovalValidated \<Rightarrow> (ApprovalStake \<times> bool) list \<Rightarrow> Doomslug
      \<Rightarrow> (unit, Doomslug \<times> DoomslugBlockProductionReadiness) outcome" where
  "on_approval_internal now utc approval stakes s =
     (let target = target_height (content approval);
          th = (case map_of (approval_tracking s) target of Some th \<Rightarrow> th | None \<Rightarrow> trackers_new)
      in omap (\<lambda>(th', ret).
           let s1 = s\<lparr>approval_tracking := AList.update target th' (approval_tracking s)\<rparr>;
               s2 = (if target > largest_approval_target_height s1
                     then s1\<lparr>largest_approval_target_height := target\<rparr> else s1);
               s3 = (if ret \<noteq> NotReady \<and> target > largest_threshold_approvals_height s2
                     then s2\<lparr>largest_threshold_approvals_height := target\<rparr> else s2)
           in (s3, ret))
         (process_approval now utc approval stakes (threshold_mode s) th))"

definition on_approval ::
    "Instant \<Rightarrow> DateTime \<Rightarrow> ApprovalValidated \<Rightarrow> (ApprovalStake \<times> bool) list \<Rightarrow> Doomslug
      \<Rightarrow> (unit, Doomslug) outcome" where
  "on_approval now utc approval stakes s =
     (if target_height (content approval) < tip_height (tip s)
         \<or> target_height (content approval) > tip_height (tip s) + MAX_HEIGHTS_AHEAD_TO_STORE_APPROVALS
      then Ok s
      else omap fst (on_approval_internal now utc approval stakes s))"

definition approval_status_at_height ::
    "Instant \<Rightarrow> DateTime \<Rightarrow> BlockHeight \<Rightarrow> Doomslug \<Rightarrow> ApprovalAtHeightStatus" where
  "approval_status_at_height now utc h s =
     (case map_of (approval_tracking s) h of
        Some th \<Rightarrow> status now utc th
      | None \<Rightarrow> \<lparr>status_approvals = [], ready_at = None\<rparr>)"

definition ready_to_produce_block ::
    "Instant \<Rightarrow> BlockHeight \<Rightarrow> bool \<Rightarrow> Doomslug \<Rightarrow> (unit, Doomslug \<times> bool) outcome" where
  "ready_to_produce_block now target has_enough_chunks s =
     (let key = approval_inner_new (block_hash (tip s)) (tip_height (tip s)) target in
      case map_of (approval_tracking s) target of
        None \<Rightarrow> Ok (s, False)
      | Some th \<Rightarrow>
          (case map_of (approval_trackers th) key of
             None \<Rightarrow> Ok (s, False)
           | Some tr \<Rightarrow>
               (let (tr', readiness) = get_block_production_readiness now tr;
                    s' = s\<lparr>approval_tracking :=
                             AList.update target
                               (th\<lparr>approval_trackers := AList.update key tr' (approval_trackers th)\<rparr>)
                               (approval_tracking s)\<rparr>
                in case readiness of
                     NotReady \<Rightarrow> Ok (s', False)
                   | ReadySince when_ \<Rightarrow>
                       if has_enough_chunks then Ok (s', True)
                       else omap (\<lambda>delay. (s', now > when_ + delay div 6))
                              (get_delay (timer s') (sat_sub (timer_height (timer s')) (largest_final_height s'))))))"

end
