(* ===== verification/Doomslug_Props.thy ===== *)
theory Doomslug_Props
  imports Doomslug_Correct
begin

text \<open>
  Runs of the gadget and its properties. A run is a sequence of calls of the public operations in
  any order; heights stay away from the end of the \<^verbatim>\<open>u64\<close> range (a node would need more than ten
  quintillion blocks to get there).
\<close>

section \<open>Runs\<close>

inductive doomslug_step :: "Doomslug \<Rightarrow> ApprovalContent list \<Rightarrow> Doomslug \<Rightarrow> bool" where
  step_block: "unat height < 2 ^ 64 - 1 \<Longrightarrow> doomslug_step s [] (on_block now hash height last_final s)"
| step_approval: "on_approval now utc a stakes s = Ok s' \<Longrightarrow> doomslug_step s [] s'"
| step_timer: "process_timer clk cur_time s = Ok (s', out) \<Longrightarrow>
     unat (timer_height (timer s)) + MAX_TIMER_ITERS < 2 ^ 64 - 1 \<Longrightarrow> doomslug_step s out s'"
| step_ready: "ready_to_produce_block now target chunks s = Ok (s', b) \<Longrightarrow> doomslug_step s [] s'"

inductive doomslug_run :: "Doomslug \<Rightarrow> ApprovalContent list \<Rightarrow> Doomslug \<Rightarrow> bool" where
  run_start: "doomslug_run s [] s"
| run_step: "doomslug_run s outs s1 \<Longrightarrow> doomslug_step s1 out s2 \<Longrightarrow> doomslug_run s (outs @ out) s2"

inductive_cases doomslug_stepE: "doomslug_step s out s'"

section \<open>The invariant of the gadget\<close>

definition doomslug_ok :: "Doomslug \<Rightarrow> bool" where
  "doomslug_ok s \<longleftrightarrow>
     distinct (map fst (approval_tracking s)) \<and>
     (\<forall>h th. map_of (approval_tracking s) h = Some th \<longrightarrow> trackers_ok th
        \<and> unat h \<le> unat (tip_height (tip s)) + 10000 \<and> unat (tip_height (tip s)) \<le> unat h + 20) \<and>
     length (history s) \<le> MAX_HISTORY_SIZE"

lemma doomslug_okD:
  assumes "doomslug_ok s" "map_of (approval_tracking s) h = Some th"
  shows "trackers_ok th" "unat h \<le> unat (tip_height (tip s)) + 10000" "unat (tip_height (tip s)) \<le> unat h + 20"
  using assms unfolding doomslug_ok_def by blast+

lemma doomslug_new_ok: "doomslug_ok (doomslug_new n1 n2 h d1 d2 d3 d4 mode)"
  by (simp add: doomslug_ok_def doomslug_new_def)

lemma unat_add_le: "unat (a + b :: 'a::len word) \<le> unat a + unat b"
  by (simp add: unat_word_ariths)

lemma unat_sat_sub: "unat (sat_sub a b) = unat a - unat b"
  by (auto simp: sat_sub_def word_le_nat_alt unat_sub)

lemma on_block_ok:
  assumes "doomslug_ok s"
  shows "doomslug_ok (on_block now hash height final s)"
proof -
  let ?s = "on_block now hash height final s"
  have d: "distinct (map fst (approval_tracking s))" using assms by (simp add: doomslug_ok_def)
  have "trackers_ok th \<and> unat h \<le> unat height + 10000 \<and> unat height \<le> unat h + 20"
    if "map_of (approval_tracking ?s) h = Some th" for h th
  proof -
    from map_of_SomeD [OF that] have m: "(h, th) \<in> set (approval_tracking s)"
      and w: "sat_sub height 20 < h" "h \<le> height + 10000"
      by (auto simp: on_block_def Let_def MAX_HEIGHTS_BEFORE_TO_STORE_APPROVALS_def
          MAX_HEIGHTS_AHEAD_TO_STORE_APPROVALS_def)
    have "map_of (approval_tracking s) h = Some th" using m d by simp
    moreover have "unat h \<le> unat height + 10000"
      using w(2) unat_add_le [of height 10000] by (simp add: word_le_nat_alt)
    moreover have "unat height \<le> unat h + 20"
      using w(1) unat_sat_sub [of height 20] by (simp add: word_less_nat_alt)
    ultimately show ?thesis using doomslug_okD(1) [OF assms] by blast
  qed
  moreover have "distinct (map fst (approval_tracking ?s))"
    using d by (simp add: on_block_def Let_def distinct_map_filter)
  moreover have "tip_height (tip ?s) = height" "length (history ?s) \<le> MAX_HISTORY_SIZE"
    using assms by (simp_all add: doomslug_ok_def on_block_def Let_def)
  ultimately show ?thesis unfolding doomslug_ok_def by (metis (no_types))
qed

lemma on_approval_ok:
  assumes "doomslug_ok s" "on_approval now utc a stakes s = Ok s'"
  shows "doomslug_ok s'"
proof (cases "target_height (content a) < tip_height (tip s)
    \<or> target_height (content a) > tip_height (tip s) + MAX_HEIGHTS_AHEAD_TO_STORE_APPROVALS")
  case True
  with assms show ?thesis by (simp add: on_approval_def)
next
  case False
  let ?t = "target_height (content a)"
  let ?th = "case map_of (approval_tracking s) ?t of Some th \<Rightarrow> th | None \<Rightarrow> trackers_new"
  from False assms(2) obtain th' r where p: "process_approval now utc a stakes (threshold_mode s) ?th = Ok (th', r)"
    and s': "approval_tracking s' = AList.update ?t th' (approval_tracking s)" "tip s' = tip s" "history s' = history s"
    by (auto simp: on_approval_def on_approval_internal_def Let_def outcome_simps split: if_splits)
  have "trackers_ok ?th" using trackers_new_ok doomslug_okD(1) [OF assms(1)] by (simp split: option.split)
  from process_approval_spec(1) [OF this p] have ok: "trackers_ok th'" .
  have w: "unat (tip_height (tip s)) \<le> unat ?t" "unat ?t \<le> unat (tip_height (tip s)) + 10000"
    using False unat_add_le [of "tip_height (tip s)" 10000]
    by (auto simp: MAX_HEIGHTS_AHEAD_TO_STORE_APPROVALS_def not_less word_le_nat_alt)
  show ?thesis
    using assms(1) ok w unfolding doomslug_ok_def s' by (auto simp: update_conv' distinct_update)
qed

lemma ready_ok:
  assumes "doomslug_ok s" "ready_to_produce_block now target chunks s = Ok (s', b)"
  shows "doomslug_ok s'"
proof -
  have "s' = s \<or> (\<exists>th tr tr' r k. map_of (approval_tracking s) target = Some th \<and> map_of (approval_trackers th) k = Some tr
      \<and> get_block_production_readiness now tr = (tr', r)
      \<and> s' = s\<lparr>approval_tracking := AList.update target (th\<lparr>approval_trackers := AList.update k tr' (approval_trackers th)\<rparr>)
                 (approval_tracking s)\<rparr>)"
    using assms(2)
    by (auto simp: ready_to_produce_block_def Let_def outcome_simps split: option.splits prod.splits
        DoomslugBlockProductionReadiness.splits if_splits)
  then show ?thesis
  proof (elim disjE exE conjE)
    fix th tr tr' r k
    assume th: "map_of (approval_tracking s) target = Some th" and tr: "map_of (approval_trackers th) k = Some tr"
      and g: "get_block_production_readiness now tr = (tr', r)"
      and s': "s' = s\<lparr>approval_tracking := AList.update target (th\<lparr>approval_trackers := AList.update k tr' (approval_trackers th)\<rparr>)
                 (approval_tracking s)\<rparr>"
    note fr = readiness_frame [OF g] and ok = doomslug_okD [OF assms(1) th]
    have "trackers_ok (th\<lparr>approval_trackers := AList.update k tr' (approval_trackers th)\<rparr>)"
      using ok(1) tr fr unfolding trackers_ok_def by (auto simp: update_conv' distinct_update)
    with assms(1) ok(2,3) show ?thesis
      unfolding doomslug_ok_def s' by (auto simp: update_conv' distinct_update)
  qed (use assms in simp)
qed

section \<open>The timer\<close>

lemma history_bound: "length (history (update_history e s)) \<le> MAX_HISTORY_SIZE"
  by (simp add: update_history_def MAX_HISTORY_SIZE_def)

lemma update_history_frame:
  "approval_tracking (update_history e s) = approval_tracking s" "tip (update_history e s) = tip s"
  "timer (update_history e s) = timer s" "largest_sent_target_height (update_history e s) = largest_sent_target_height s"
  "largest_final_height (update_history e s) = largest_final_height s"
  by (simp_all add: update_history_def)

lemma timer_endorse_frame:
  assumes "timer_endorse clk cur s = (s', out)"
  shows "approval_tracking s' = approval_tracking s" "tip s' = tip s" "timer_height (timer s') = timer_height (timer s)"
    "history s' = history s \<or> length (history s') \<le> MAX_HISTORY_SIZE"
  using assms history_bound
  by (auto simp: timer_endorse_def Let_def update_history_frame split: if_splits prod.splits)

lemma timer_skip_frame:
  assumes "timer_skip clk d s = (s', out)"
  shows "approval_tracking s' = approval_tracking s" "tip s' = tip s"
    "timer_height (timer s') = timer_height (timer s) + 1" "length (history s') \<le> MAX_HISTORY_SIZE"
  using assms history_bound by (auto simp: timer_skip_def Let_def update_history_frame)

lemma timer_loop_ok:
  "timer_loop clk cur k s = Ok (s', out) \<Longrightarrow> doomslug_ok s \<Longrightarrow> doomslug_ok s'"
proof (induction clk cur k s arbitrary: s' out rule: timer_loop.induct)
  case (2 clk cur k s)
  obtain s1 o1 where e: "timer_endorse (clk k False) cur s = (s1, o1)" by (cases "timer_endorse (clk k False) cur s")
  from 2(3) timer_endorse_frame [OF e] have ok1: "doomslug_ok s1" by (auto simp: doomslug_ok_def)
  from 2(2) obtain d where d: "get_delay (timer s) (sat_sub (timer_height (timer s)) (largest_final_height s)) = Ok d"
    by (auto simp: outcome_simps)
  obtain s2 o2 where k: "timer_skip (clk k True) d s1 = (s2, o2)" by (cases "timer_skip (clk k True) d s1")
  from ok1 timer_skip_frame [OF k] have ok2: "doomslug_ok s2" by (auto simp: doomslug_ok_def)
  show ?case
  proof (cases "cur \<ge> started (timer s1) + d")
    case True
    with 2(2) d e k obtain o3 where "timer_loop clk cur k s2 = Ok (s', o3)" by (auto simp: outcome_simps)
    with 2(1) [OF e [symmetric] refl True k [symmetric] refl] ok2 show ?thesis by blast
  next
    case False
    with 2(2) d e ok1 show ?thesis by auto
  qed
qed simp

text \<open>The target heights of the endorsements among a list of approvals.\<close>

definition endorsed :: "ApprovalContent list \<Rightarrow> nat list" where
  "endorsed out = [unat (target_height c). c \<leftarrow> out, (case inner c of Endorsement _ \<Rightarrow> True | Skip _ \<Rightarrow> False)]"

lemma endorsed_append: "endorsed (xs @ ys) = endorsed xs @ endorsed ys"
  by (simp add: endorsed_def)

definition sent :: "Doomslug \<Rightarrow> nat" where
  "sent s = unat (largest_sent_target_height s)"

text \<open>One step of a run: what it endorses lies strictly between the old and the new mark.\<close>

definition advances :: "Doomslug \<Rightarrow> nat list \<Rightarrow> Doomslug \<Rightarrow> bool" where
  "advances s es s' \<longleftrightarrow> sorted_wrt (<) es \<and> (\<forall>e \<in> set es. sent s < e \<and> e \<le> sent s') \<and> sent s \<le> sent s'"

lemma advances_refl: "sent s' = sent s \<Longrightarrow> advances s [] s'"
  by (simp add: advances_def)

lemma advances_trans: "advances s xs s1 \<Longrightarrow> advances s1 ys s2 \<Longrightarrow> advances s (xs @ ys) s2"
  unfolding advances_def by (fastforce simp: sorted_wrt_append)

lemma unat_Suc_word: "unat (h :: u64) < 2 ^ 64 - 1 \<Longrightarrow> unat (h + 1) = Suc (unat h)"
  by (simp add: unat_word_ariths)

lemma timer_endorse_advances:
  assumes "timer_endorse clk cur s = (s', out)" "unat (tip_height (tip s)) < 2 ^ 64 - 1"
  shows "advances s (endorsed out) s'"
proof -
  have "out = [] \<and> sent s' = sent s \<or> sent s \<le> unat (tip_height (tip s)) \<and> sent s' = Suc (unat (tip_height (tip s)))
      \<and> endorsed out = [Suc (unat (tip_height (tip s)))]"
    using assms(1) unat_Suc_word [OF assms(2)]
    by (auto simp: timer_endorse_def Let_def update_history_frame sent_def create_approval_def endorsed_def
        approval_content_new_def approval_inner_new_def word_le_nat_alt split: if_splits)
  moreover have "endorsed [] = []" by (simp add: endorsed_def)
  ultimately show ?thesis by (auto simp: advances_def)
qed

lemma timer_skip_advances:
  assumes "timer_skip clk d s = (s', out)" "unat (tip_height (tip s)) < unat (timer_height (timer s))"
    and "unat (timer_height (timer s)) < 2 ^ 64 - 1"
  shows "advances s (endorsed out) s'"
proof -
  have "unat (tip_height (tip s)) < 2 ^ 64 - 1" using assms(2,3) by simp
  then have "timer_height (timer s) + 1 \<noteq> tip_height (tip s) + 1" using assms(2) by auto
  moreover have "unat (largest_sent_target_height s) \<le> unat (max x (largest_sent_target_height s))" for x
    by (simp add: max_def word_le_nat_alt)
  ultimately show ?thesis
    using assms(1)
    by (auto simp: timer_skip_def Let_def update_history_frame sent_def create_approval_def endorsed_def
        approval_content_new_def approval_inner_new_def advances_def)
qed

lemma timer_loop_advances:
  "timer_loop clk cur k s = Ok (s', out) \<Longrightarrow> unat (tip_height (tip s)) < unat (timer_height (timer s)) \<Longrightarrow>
     unat (timer_height (timer s)) + k < 2 ^ 64 - 1 \<Longrightarrow>
     advances s (endorsed out) s' \<and> unat (tip_height (tip s')) < unat (timer_height (timer s'))"
proof (induction clk cur k s arbitrary: s' out rule: timer_loop.induct)
  case (2 clk cur k s)
  obtain s1 o1 where e: "timer_endorse (clk k False) cur s = (s1, o1)" by (cases "timer_endorse (clk k False) cur s")
  note fe = timer_endorse_frame [OF e]
  have a1: "advances s (endorsed o1) s1" by (rule timer_endorse_advances [OF e]) (use 2(3,4) in simp)
  from 2(2) obtain d where d: "get_delay (timer s) (sat_sub (timer_height (timer s)) (largest_final_height s)) = Ok d"
    by (auto simp: outcome_simps)
  obtain s2 o2 where k: "timer_skip (clk k True) d s1 = (s2, o2)" by (cases "timer_skip (clk k True) d s1")
  note fk = timer_skip_frame [OF k]
  have th: "unat (timer_height (timer s2)) = Suc (unat (timer_height (timer s)))"
    using fk(3) fe(3) unat_Suc_word [of "timer_height (timer s)"] 2(4) by simp
  have a2: "advances s1 (endorsed o2) s2" by (rule timer_skip_advances [OF k]) (use 2(3,4) fe in simp_all)
  show ?case
  proof (cases "cur \<ge> started (timer s1) + d")
    case True
    with 2(2) d e k obtain o3 where o3: "timer_loop clk cur k s2 = Ok (s', o3)" "out = o1 @ o2 @ o3"
      by (auto simp: outcome_simps)
    have "advances s2 (endorsed o3) s' \<and> unat (tip_height (tip s')) < unat (timer_height (timer s'))"
      by (rule 2(1) [OF e [symmetric] refl True k [symmetric] refl o3(1)]) (use fk fe th 2(3,4) in simp_all)
    then show ?thesis using advances_trans [OF a1 advances_trans [OF a2]] o3(2) by (simp add: endorsed_append)
  next
    case False
    with 2(2-4) d e a1 fe show ?thesis by auto
  qed
qed (auto simp: endorsed_def advances_def)

section \<open>Properties\<close>

lemma step_ok: "doomslug_step s out s' \<Longrightarrow> doomslug_ok s \<Longrightarrow> doomslug_ok s'"
  by (erule doomslug_stepE)
    (auto simp: process_timer_def intro: on_block_ok on_approval_ok timer_loop_ok ready_ok)

text \<open>
  C22: in every state that a run reaches from a new gadget, the tracked heights lie between 20 below
  and 10000 above the tip and each has one entry; at each tracked height, every tracker counts exactly
  the stake of its witnesses, each witness is recorded under its own address with the approval of that
  parent, and no account witnesses two parents; the debug history has at most 1000 entries.
\<close>

theorem doomslug_invariant:
  assumes "doomslug_run (doomslug_new n1 n2 h d1 d2 d3 d4 mode) outs s"
  shows "doomslug_ok s"
proof -
  have "doomslug_run s0 outs s \<Longrightarrow> doomslug_ok s0 \<Longrightarrow> doomslug_ok s" for s0
    by (induction rule: doomslug_run.induct) (auto intro: step_ok)
  then show ?thesis using assms doomslug_new_ok by blast
qed

theorem doomslug_invariant_witness:
  "doomslug_ok (on_block 5 7 3 1 (doomslug_new 0 0 0 1 2 3 4 TwoThirds))"
  by (rule doomslug_invariant [OF run_step [OF run_start step_block]]) simp

lemma step_advances:
  assumes "doomslug_step s out s'" "unat (tip_height (tip s)) < unat (timer_height (timer s))"
  shows "advances s (endorsed out) s' \<and> unat (tip_height (tip s')) < unat (timer_height (timer s'))"
  using assms
proof (cases rule: doomslug_step.cases)
  case (step_block height now hash last_final)
  then show ?thesis using unat_Suc_word [of height]
    by (simp add: on_block_def Let_def endorsed_def advances_def sent_def)
next
  case (step_approval now utc a stakes)
  then have "tip s' = tip s" "timer s' = timer s" "sent s' = sent s"
    by (auto simp: on_approval_def on_approval_internal_def Let_def outcome_simps sent_def split: if_splits)
  with assms(2) step_approval show ?thesis by (simp add: endorsed_def advances_refl)
next
  case (step_timer clk cur_time)
  then show ?thesis using timer_loop_advances [of clk cur_time MAX_TIMER_ITERS s] assms(2)
    by (simp add: process_timer_def)
next
  case (step_ready now target chunks b)
  then have "tip s' = tip s" "timer s' = timer s" "sent s' = sent s"
    by (auto simp: ready_to_produce_block_def Let_def outcome_simps sent_def split: option.splits prod.splits
        DoomslugBlockProductionReadiness.splits if_splits)
  with assms(2) step_ready show ?thesis by (simp add: endorsed_def advances_refl)
qed

text \<open>
  C19: a node endorses at most one block per height. Once it has a tip (so that the timer runs ahead
  of it), the endorsements it emits in a run have strictly increasing target heights, above every
  target it sent before; the mark that records them only grows.
\<close>

theorem no_double_endorsement:
  assumes "doomslug_run s outs s'" "tip_height (tip s) < timer_height (timer s)"
  shows "sorted_wrt (<) (endorsed outs)
    \<and> (\<forall>e \<in> set (endorsed outs). unat (largest_sent_target_height s) < e)
    \<and> largest_sent_target_height s \<le> largest_sent_target_height s'"
proof -
  have "advances s (endorsed outs) s' \<and> unat (tip_height (tip s')) < unat (timer_height (timer s'))"
    using assms
  proof (induction rule: doomslug_run.induct)
    case (run_start s)
    then show ?case by (simp add: endorsed_def advances_refl word_less_nat_alt)
  next
    case (run_step s outs s1 out s2)
    with step_advances [OF run_step.hyps(2)] show ?case by (auto simp: endorsed_append intro: advances_trans)
  qed
  then show ?thesis by (auto simp: advances_def sent_def word_le_nat_alt)
qed

abbreviation sample_gadget :: Doomslug where
  "sample_gadget \<equiv> on_block 0 7 3 1 (doomslug_new 0 0 0 1 2 3 4 TwoThirds)"

lemma sample_timer:
  "\<exists>s. process_timer (\<lambda>_ _. (0, 0)) 1 sample_gadget
    = Ok (s, [new_endorsement 7 4])"
proof -
  have it: "MAX_TIMER_ITERS = Suc 19" by (simp add: MAX_TIMER_ITERS_def)
  show ?thesis unfolding process_timer_def it timer_loop.simps(2)
    by (simp add: on_block_def doomslug_new_def get_delay_def Let_def DURATION_LIMIT_def sat_sub_def timer_endorse_def update_history_def
       create_approval_def approval_content_new_def approval_inner_new_def new_endorsement_def)
qed

theorem no_double_endorsement_witness:
  "\<exists>s out. process_timer (\<lambda>_ _. (0, 0)) 1 sample_gadget = Ok (s, out) \<and> endorsed out = [4]
    \<and> sorted_wrt (<) (endorsed out) \<and> largest_sent_target_height sample_gadget \<le> largest_sent_target_height s"
proof -
  obtain s where s: "process_timer (\<lambda>_ _. (0, 0)) 1 sample_gadget = Ok (s, [new_endorsement 7 4])"
    using sample_timer by blast
  have g: "tip_height (tip sample_gadget) < timer_height (timer sample_gadget)"
    "unat (timer_height (timer sample_gadget)) + MAX_TIMER_ITERS < 2 ^ 64 - 1"
    by (simp_all add: on_block_def doomslug_new_def Let_def MAX_TIMER_ITERS_def)
  have "doomslug_run sample_gadget ([] @ [new_endorsement 7 4]) s"
    by (rule run_step [OF run_start step_timer [OF s g(2)]])
  from no_double_endorsement [OF this g(1)] s show ?thesis
    by (simp add: endorsed_def new_endorsement_def)
qed

text \<open>
  C18: two different parents never both have enough approvals at one height. If both trackers require
  two thirds of the stake, know the same stakes and the sum of the stakes is below half of the \<^verbatim>\<open>u128\<close>
  range, at most one of them reports that its block can be produced.
\<close>

theorem one_parent_ready:
  assumes "trackers_ok th"
    and "map_of (approval_trackers th) i = Some a" "map_of (approval_trackers th) j = Some b" "i \<noteq> j"
    and "tracker_threshold_mode a = TwoThirds" "tracker_threshold_mode b = TwoThirds"
    and "account_id_to_stakes a = account_id_to_stakes b" "stake_sum (account_id_to_stakes a) < 2 ^ 127"
  shows "snd (get_block_production_readiness now a) = NotReady
    \<or> snd (get_block_production_readiness now' b) = NotReady"
proof (rule ccontr)
  assume "\<not> ?thesis"
  then have r: "snd (get_block_production_readiness now a) \<noteq> NotReady"
    "snd (get_block_production_readiness now' b) \<noteq> NotReady" by auto
  note oka = trackers_okD(1) [OF assms(1,2)] and okb = trackers_okD(1) [OF assms(1,3)]
  let ?A = "fst ` set (witness a)" and ?B = "fst ` set (witness b)" and ?S = "stake_sum (account_id_to_stakes a)"
  have "approved_stake a + approved_stake b = (\<Sum>v \<in> ?A \<union> ?B. unat (fst (stakes_of a v)))"
    using witnesses_disjoint [OF assms(1-4)] stakes_of_cong [OF assms(7)]
    by (simp add: approved_stake_def sum.union_disjoint)
  also have "\<dots> \<le> ?S" by (rule stakes_le_sum [OF oka]) simp
  finally have "approved_stake a + approved_stake b \<le> ?S" .
  moreover have "3 * approved_stake a > 2 * ?S" by (rule ready_two_thirds [OF oka assms(5,8) r(1)])
  moreover have "3 * approved_stake b > 2 * ?S"
    using ready_two_thirds [OF okb assms(6) _ r(2)] assms(7,8) by simp
  ultimately show False by linarith
qed

abbreviation vote :: "Address \<Rightarrow> CryptoHash \<Rightarrow> ApprovalValidated" where
  "vote v h \<equiv> \<lparr>content = new_endorsement h 4, signature = [], validator = v\<rparr>"

abbreviation three_stakes :: "(ApprovalStake \<times> bool) list" where
  "three_stakes \<equiv> map (\<lambda>v. (\<lparr>stake_validator = v, stake_this_epoch = 1, stake_next_epoch = 1\<rparr>, False)) [1, 2, 3]"

lemma sample_votes:
  "\<exists>th1 th2 a b. process_approval 0 0 (vote 1 10) three_stakes TwoThirds trackers_new = Ok (th1, NotReady)
    \<and> process_approval 0 0 (vote 2 11) three_stakes TwoThirds th1 = Ok (th2, NotReady)
    \<and> trackers_ok th1 \<and> trackers_ok th2
    \<and> map_of (approval_trackers th2) (Endorsement 10) = Some a \<and> map_of (approval_trackers th2) (Endorsement 11) = Some b
    \<and> tracker_threshold_mode a = TwoThirds \<and> tracker_threshold_mode b = TwoThirds
    \<and> account_id_to_stakes a = account_id_to_stakes b \<and> stake_sum (account_id_to_stakes a) < 2 ^ 127"
proof -
  define tr where "tr = (\<lambda>v h. (tracker_new (collect_stakes three_stakes) TwoThirds)
      \<lparr>witness := [(v, vote v h, 0)], approved_stake_this_epoch := 1, approved_stake_next_epoch := 1\<rparr>)"
  define th1 where "th1 = \<lparr>approval_trackers = [(Endorsement 10, tr 1 10)],
      last_approval_per_account = [(1, Endorsement 10)]\<rparr>"
  define th2 where "th2 = \<lparr>approval_trackers = [(Endorsement 10, tr 1 10), (Endorsement 11, tr 2 11)],
      last_approval_per_account = [(1, Endorsement 10), (2, Endorsement 11)]\<rparr>"
  have p1: "process_approval 0 0 (vote 1 10) three_stakes TwoThirds trackers_new = Ok (th1, NotReady)"
    by (simp add: process_approval_def withdraw_last_def trackers_new_def collect_stakes_def tracker_process_approval_def
        tracker_new_def stakes_of_def get_block_production_readiness_def new_endorsement_def Let_def th1_def tr_def)
  have p2: "process_approval 0 0 (vote 2 11) three_stakes TwoThirds th1 = Ok (th2, NotReady)"
    by (simp add: process_approval_def withdraw_last_def collect_stakes_def tracker_process_approval_def
        tracker_new_def stakes_of_def get_block_production_readiness_def new_endorsement_def Let_def th1_def th2_def tr_def)
  have ok: "trackers_ok th1" "trackers_ok th2"
    by (rule process_approval_spec(1) [OF trackers_new_ok p1],
        rule process_approval_spec(1) [OF process_approval_spec(1) [OF trackers_new_ok p1] p2])
  have m: "map_of (approval_trackers th2) (Endorsement 10) = Some (tr 1 10)"
    "map_of (approval_trackers th2) (Endorsement 11) = Some (tr 2 11)"
    by (simp_all add: th2_def)
  have "tracker_threshold_mode (tr v h) = TwoThirds" "account_id_to_stakes (tr v h) = collect_stakes three_stakes" for v h
    by (simp_all add: tr_def tracker_new_def)
  moreover have "stake_sum (collect_stakes three_stakes) < 2 ^ 127" by (simp add: collect_stakes_def stake_sum_def)
  ultimately show ?thesis using p1 p2 ok m
    by - (rule exI [of _ th1], rule exI [of _ th2], rule exI [of _ "tr 1 10"], rule exI [of _ "tr 2 11"], simp)
qed

theorem one_parent_ready_witness:
  "\<exists>th1 r1 th2 r2 a b. process_approval 0 0 (vote 1 10) three_stakes TwoThirds trackers_new = Ok (th1, r1)
    \<and> process_approval 0 0 (vote 2 11) three_stakes TwoThirds th1 = Ok (th2, r2)
    \<and> map_of (approval_trackers th2) (Endorsement 10) = Some a \<and> map_of (approval_trackers th2) (Endorsement 11) = Some b
    \<and> (snd (get_block_production_readiness 5 a) = NotReady \<or> snd (get_block_production_readiness 6 b) = NotReady)"
proof -
  obtain th1 th2 a b where v: "process_approval 0 0 (vote 1 10) three_stakes TwoThirds trackers_new = Ok (th1, NotReady)"
    "process_approval 0 0 (vote 2 11) three_stakes TwoThirds th1 = Ok (th2, NotReady)" "trackers_ok th2"
    "map_of (approval_trackers th2) (Endorsement 10) = Some a" "map_of (approval_trackers th2) (Endorsement 11) = Some b"
    "tracker_threshold_mode a = TwoThirds" "tracker_threshold_mode b = TwoThirds"
    "account_id_to_stakes a = account_id_to_stakes b" "stake_sum (account_id_to_stakes a) < 2 ^ 127"
    using sample_votes by blast
  have "snd (get_block_production_readiness 5 a) = NotReady \<or> snd (get_block_production_readiness 6 b) = NotReady"
    by (rule one_parent_ready [OF v(3-5) _ v(6-9)]) simp
  with v show ?thesis by blast
qed

text \<open>
  The last approval of an account counts. After an approval is processed without a panic, the
  invariant holds; if its validator has a stake, it is a witness (with this approval) of the approved
  parent and of no other parent, and otherwise it is a witness of no parent.
\<close>

theorem process_approval_last_wins:
  assumes "trackers_ok th" "process_approval now utc a stakes mode th = Ok (th', r)"
    and "map_of (approval_trackers th') i = Some tr"
  shows "trackers_ok th' \<and> map_of (witness tr) (validator a) =
    (if map_of (collect_stakes stakes) (validator a) \<noteq> None \<and> i = inner (content a) then Some (a, utc) else None)"
proof (cases "map_of (collect_stakes stakes) (validator a) \<noteq> None")
  case True
  from process_approval_spec(2) [OF assms(1,2) True] obtain tr0 where
    tr0: "map_of (approval_trackers th') (inner (content a)) = Some tr0" "map_of (witness tr0) (validator a) = Some (a, utc)"
    by blast
  note ok = process_approval_spec(1) [OF assms(1,2)]
  show ?thesis
  proof (cases "i = inner (content a)")
    case True
    with tr0 assms(3) \<open>map_of (collect_stakes stakes) (validator a) \<noteq> None\<close> ok show ?thesis by auto
  next
    case False
    with trackers_okD(4) [OF ok assms(3), of "validator a"] trackers_okD(4) [OF ok tr0(1,2)] ok show ?thesis
      by (cases "map_of (witness tr) (validator a)") auto
  qed
next
  case False
  with assms(2) have "th' = withdraw_last (validator a) th"
    by (auto simp: process_approval_def Let_def split: if_splits)
  with False withdraw_last_spec(2) [OF assms(1), of "validator a" i tr] assms(3)
    process_approval_spec(1) [OF assms(1,2)] show ?thesis by auto
qed

theorem process_approval_last_wins_witness:
  "\<exists>th1 th2 a b. process_approval 0 0 (vote 1 10) three_stakes TwoThirds trackers_new = Ok (th1, NotReady)
    \<and> process_approval 0 0 (vote 2 11) three_stakes TwoThirds th1 = Ok (th2, NotReady)
    \<and> map_of (approval_trackers th2) (Endorsement 10) = Some a \<and> map_of (approval_trackers th2) (Endorsement 11) = Some b
    \<and> map_of (witness a) 2 = None \<and> map_of (witness b) 2 = Some (vote 2 11, 0)"
proof -
  obtain th1 th2 a b where v: "process_approval 0 0 (vote 1 10) three_stakes TwoThirds trackers_new = Ok (th1, NotReady)"
    "process_approval 0 0 (vote 2 11) three_stakes TwoThirds th1 = Ok (th2, NotReady)" "trackers_ok th1"
    "map_of (approval_trackers th2) (Endorsement 10) = Some a" "map_of (approval_trackers th2) (Endorsement 11) = Some b"
    using sample_votes by blast
  have s: "map_of (collect_stakes three_stakes) 2 \<noteq> None" by (simp add: collect_stakes_def)
  from process_approval_last_wins [OF v(3,2,4)] process_approval_last_wins [OF v(3,2,5)] s
  have "map_of (witness a) 2 = None" "map_of (witness b) 2 = Some (vote 2 11, 0)"
    by (simp_all add: new_endorsement_def)
  with v show ?thesis by blast
qed

lemma length_update: "length (AList.update k v m) = (if map_of m k = None then Suc (length m) else length m)"
  by (induction m) auto

lemma collect_stakes_length:
  "length (fold (\<lambda>(x, is_slashed) m.
       if is_slashed then m
       else AList.update (stake_validator x) (stake_this_epoch x, stake_next_epoch x) m) stakes m) \<le> length m + length stakes
   \<and> (length (fold (\<lambda>(x, is_slashed) m.
       if is_slashed then m
       else AList.update (stake_validator x) (stake_this_epoch x, stake_next_epoch x) m) stakes m) = length m + length stakes
     \<longleftrightarrow> (\<forall>(x, sl) \<in> set stakes. \<not> sl) \<and> distinct (map (\<lambda>(x, _). stake_validator x) stakes)
       \<and> (\<forall>(x, _) \<in> set stakes. map_of m (stake_validator x) = None))"
proof (induction stakes arbitrary: m)
  case (Cons y stakes)
  obtain x sl where y: "y = (x, sl)" by (cases y)
  show ?case
  proof (cases sl)
    case True
    with Cons.IH [of m] y show ?thesis by auto
  next
    case False
    let ?m = "AList.update (stake_validator x) (stake_this_epoch x, stake_next_epoch x) m"
    have k: "(\<forall>(x', _) \<in> set stakes. map_of ?m (stake_validator x') = None) \<longleftrightarrow>
        stake_validator x \<notin> set (map (\<lambda>(x, _). stake_validator x) stakes)
        \<and> (\<forall>(x', _) \<in> set stakes. map_of m (stake_validator x') = None)"
      unfolding update_conv' by (induction stakes) (auto split: if_splits)
    show ?thesis
    proof (cases "map_of m (stake_validator x)")
      case None
      with False Cons.IH [of ?m] y k show ?thesis by (simp add: length_update) blast
    next
      case (Some s)
      with False Cons.IH [of ?m] y show ?thesis by (simp add: length_update)
    qed
  qed
qed simp

text \<open>
  Processing an approval panics exactly when a listed validator is slashed or listed twice (the
  code filters slashed validators out, and then asserts that nothing was filtered out).
\<close>

theorem process_approval_panic_iff:
  "process_approval now utc a stakes mode th = Panic \<longleftrightarrow>
     (\<exists>(x, sl) \<in> set stakes. sl) \<or> \<not> distinct (map (\<lambda>(x, _). stake_validator x) stakes)"
  using collect_stakes_length [where m = "[]" and stakes = stakes]
  by (auto simp: process_approval_def collect_stakes_def Let_def split: prod.splits)

theorem process_approval_panic_iff_witness:
  "process_approval 0 0 (vote 1 10) (map (\<lambda>(x, _). (x, True)) three_stakes) TwoThirds trackers_new = Panic
   \<and> process_approval 0 0 (vote 1 10) three_stakes TwoThirds trackers_new \<noteq> Panic"
  unfolding process_approval_panic_iff by simp

lemma selected_sum_le:
  "(\<Sum>(a, s) \<leftarrow> zip as ss. if P a s then (f s :: nat) else 0) \<le> (\<Sum>s \<leftarrow> ss. f s)"
proof (induction as arbitrary: ss)
  case (Cons a as)
  show ?case
  proof (cases ss)
    case (Cons s ss')
    then show ?thesis using Cons.IH [of ss'] by (simp add: trans_le_add2)
  qed simp
qed simp

lemma threshold_iff:
  fixes f :: "'s \<Rightarrow> u128"
  assumes "(\<Sum>s \<leftarrow> ss. unat (f s)) < 2 ^ 127"
  shows "((\<Sum>s \<leftarrow> ss. f s) * 2 div 3 < (\<Sum>(a, s) \<leftarrow> zip as ss. if P a s then f s else 0)
      \<or> (\<Sum>s \<leftarrow> ss. f s) * 2 div 3 = 0)
    \<longleftrightarrow> 2 * (\<Sum>s \<leftarrow> ss. unat (f s)) < 3 * (\<Sum>(a, s) \<leftarrow> zip as ss. if P a s then unat (f s) else 0)
      \<or> (\<Sum>s \<leftarrow> ss. unat (f s)) \<le> 1"
proof -
  let ?t = "\<Sum>s \<leftarrow> ss. f s" and ?a = "\<Sum>(a, s) \<leftarrow> zip as ss. if P a s then f s else 0"
  let ?T = "\<Sum>s \<leftarrow> ss. unat (f s)" and ?A = "\<Sum>(a, s) \<leftarrow> zip as ss. if P a s then unat (f s) else 0"
  have T: "?T < 2 ^ 128" using assms by (rule order_less_trans) simp
  have t: "unat ?t = ?T" using unat_sum_list [of "map f ss"] T by (simp add: comp_def)
  have eq: "map unat (map (\<lambda>(a, s). if P a s then f s else 0) (zip as ss)) = map (\<lambda>(a, s). if P a s then unat (f s) else 0) (zip as ss)"
    by auto
  have "?A < 2 ^ 128" using selected_sum_le [where f = "\<lambda>s. unat (f s)"] T by (rule order_le_less_trans)
  then have a: "unat ?a = ?A" using unat_sum_list [of "map (\<lambda>(a, s). if P a s then f s else 0) (zip as ss)"] unfolding eq by simp
  have "unat (?t * 2 div 3) = unat ?t * 2 div 3" using assms t by (simp add: unat_div unat_word_ariths)
  then have "?t * 2 div 3 = 0 \<longleftrightarrow> ?T \<le> 1" using t by (simp add: unat_eq_zero [symmetric] div_eq_0_iff) linarith
  moreover have "?t * 2 div 3 < ?a \<longleftrightarrow> 2 * ?T < 3 * ?A" using two_thirds_unat [of ?t ?a] assms t a by simp
  ultimately show ?thesis by blast
qed

text \<open>
  The check of a block's approvals. In \<^verbatim>\<open>TwoThirds\<close> mode, when the stakes of both epochs sum up
  below half of the \<^verbatim>\<open>u128\<close> range, a block may be produced exactly when in each epoch the approving
  validators that are not slashed hold more than two thirds of the whole stake, or the whole stake is
  at most 1 (then no approval is needed).
\<close>

theorem can_approved_block_iff:
  assumes "(\<Sum>(x, _, _) \<leftarrow> stakes. unat x) < 2 ^ 127" "(\<Sum>(_, y, _) \<leftarrow> stakes. unat y) < 2 ^ 127"
  shows "can_approved_block_be_produced TwoThirds approvals stakes \<longleftrightarrow>
    (2 * (\<Sum>(x, _, _) \<leftarrow> stakes. unat x)
       < 3 * (\<Sum>(a, x, _, slashed) \<leftarrow> zip approvals stakes. if a \<noteq> None \<and> \<not> slashed then unat x else 0)
     \<or> (\<Sum>(x, _, _) \<leftarrow> stakes. unat x) \<le> 1)
    \<and> (2 * (\<Sum>(_, y, _) \<leftarrow> stakes. unat y)
       < 3 * (\<Sum>(a, _, y, slashed) \<leftarrow> zip approvals stakes. if a \<noteq> None \<and> \<not> slashed then unat y else 0)
     \<or> (\<Sum>(_, y, _) \<leftarrow> stakes. unat y) \<le> 1)"
proof -
  have sel: "(\<Sum>(a, x, y, sl) \<leftarrow> filter (\<lambda>(_, _, _, sl). \<not> sl) zs. if a \<noteq> None then f x y else 0)
      = (\<Sum>(a, s) \<leftarrow> zs. if a \<noteq> None \<and> \<not> snd (snd s) then f (fst s) (fst (snd s)) else 0)"
    for zs :: "(bool option \<times> Balance \<times> Balance \<times> bool) list" and f :: "Balance \<Rightarrow> Balance \<Rightarrow> Balance"
    by (induction zs) auto
  show ?thesis
    using threshold_iff [of fst stakes "\<lambda>a s. a \<noteq> None \<and> \<not> snd (snd s)" approvals]
      threshold_iff [of "\<lambda>s. fst (snd s)" stakes "\<lambda>a s. a \<noteq> None \<and> \<not> snd (snd s)" approvals]
      assms sel [of "\<lambda>x y. x" "zip approvals stakes"] sel [of "\<lambda>x y. y" "zip approvals stakes"]
    unfolding can_approved_block_be_produced_def Let_def case_prod_beta by simp
qed

theorem can_approved_block_iff_witness:
  "can_approved_block_be_produced TwoThirds [Some True, None, Some True, Some True] [(1, 1, False), (1, 1, False), (1, 1, False), (1, 1, False)]
   \<and> \<not> can_approved_block_be_produced TwoThirds [Some True, None, Some True, Some True] [(1, 1, False), (1, 1, False), (1, 1, False), (1, 1, True)]"
  using can_approved_block_iff [of "[(1, 1, False), (1, 1, False), (1, 1, False), (1, 1, False)]" "[Some True, None, Some True, Some True]"]
    can_approved_block_iff [of "[(1, 1, False), (1, 1, False), (1, 1, False), (1, 1, True)]" "[Some True, None, Some True, Some True]"]
  by (simp del: not_None_eq)

text \<open>
  C23: the delay of the timer. When the largest step fits into a \<^verbatim>\<open>Duration\<close>, the delay is computed
  without a panic, lies between the minimum (capped) and the maximum, and grows with the number of
  heights since the last final block.
\<close>

theorem get_delay_monotone:
  assumes "min_delay t + delay_step t * (2 ^ 32 - 3) < DURATION_LIMIT" "n \<le> m"
  shows "\<exists>d e. get_delay t n = Ok d \<and> get_delay t m = Ok e \<and> min (max_delay t) (min_delay t) \<le> d
    \<and> d \<le> e \<and> e \<le> max_delay t"
proof -
  let ?k = "\<lambda>n :: u64. (if unat n < 2 ^ 32 then unat n else 2 ^ 32 - 1) - 2"
  have k: "?k n \<le> ?k m" "?k m \<le> 2 ^ 32 - 3" using assms(2) by (auto simp: word_le_nat_alt)
  have step: "delay_step t * ?k n \<le> delay_step t * ?k m" "delay_step t * ?k m \<le> delay_step t * (2 ^ 32 - 3)"
    by (rule mult_le_mono2 [OF k(1)], rule mult_le_mono2 [OF k(2)])
  have ok: "get_delay t x = Ok (min (max_delay t) (min_delay t + delay_step t * ?k x))"
    if "delay_step t * ?k x \<le> delay_step t * (2 ^ 32 - 3)" for x
  proof -
    have "min_delay t + delay_step t * ?k x < DURATION_LIMIT" using that assms(1) by linarith
    then have "\<not> (DURATION_LIMIT \<le> delay_step t * ?k x \<or> DURATION_LIMIT \<le> min_delay t + delay_step t * ?k x)"
      by linarith
    then show ?thesis unfolding get_delay_def Let_def by (rule if_not_P)
  qed
  have bounds: "min x y \<le> min x (y + a) \<and> min x (y + a) \<le> min x (y + b) \<and> min x (y + b) \<le> x"
    if "a \<le> b" for x y a b :: nat using that by (auto simp: min_def)
  from ok [OF order_trans [OF step]] ok [OF step(2)] bounds [OF step(1)] show ?thesis by blast
qed

theorem get_delay_monotone_witness:
  "\<exists>d e. get_delay (timer (doomslug_new 0 0 0 1 2 3 4 TwoThirds)) 1 = Ok d
    \<and> get_delay (timer (doomslug_new 0 0 0 1 2 3 4 TwoThirds)) 5 = Ok e \<and> d \<le> e"
  using get_delay_monotone [of "timer (doomslug_new 0 0 0 1 2 3 4 TwoThirds)" 1 5]
  by (auto simp: doomslug_new_def DURATION_LIMIT_def)

text \<open>
  A skip approval cannot be signed nor received: validating a received one panics before the
  signature is looked at, and so does signing one. An endorsement that is signed by a peer validates
  to that peer, when the signature scheme verifies its own signatures.
\<close>

theorem approval_validate_outcome:
  assumes "\<And>h. verify (sign h) h = Ok (Some peer)"
  shows "(\<forall>h sg. approval_validate keccak verify
        \<lparr>ap_content = \<lparr>inner = Skip h, target_height = t\<rparr>, ap_signature = sg\<rparr> = Panic)
    \<and> to_approval keccak sign \<lparr>inner = Skip h', target_height = t\<rparr> = Panic
    \<and> (\<exists>a. to_approval keccak sign (new_endorsement p t) = Ok a
        \<and> approval_validate keccak verify a = to_approval_validated keccak sign peer (new_endorsement p t)
        \<and> is_Ok (approval_validate keccak verify a))"
  using assms
  by (simp add: approval_validate_def approval_hash_def to_approval_def to_approval_validated_def new_endorsement_def)

theorem approval_validate_outcome_witness:
  "approval_validate (\<lambda>bs. bs) (\<lambda>s h. Ok (Some 3))
     \<lparr>ap_content = \<lparr>inner = Skip 5, target_height = 6\<rparr>, ap_signature = [1]\<rparr> = Panic
   \<and> (\<exists>a. to_approval (\<lambda>bs. bs) (\<lambda>h. []) (new_endorsement 9 6) = Ok a
        \<and> is_Ok (approval_validate (\<lambda>bs. bs) (\<lambda>s h. Ok (Some 3)) a))"
  using approval_validate_outcome [of "\<lambda>s h. Ok (Some 3)" "\<lambda>h. []" 3 "\<lambda>bs. bs" 6 5 9] by blast

end
