(* ===== verification/Pagination.thy ===== *)
theory Pagination
  imports Prelude
begin

text \<open>
  Cursors and the paginating iterator of \<^verbatim>\<open>pkg/primitives/src/pagination.rs\<close>. A page carries a cursor
  whose \<open>before\<close> is the position of its first positioned item and whose \<open>after\<close> is that of its last.
  The wrapper \<^verbatim>\<open>Opaque\<close> encodes its content by JSON and base64, which are third-party crates: their
  encoders and decoders are arguments.
\<close>

datatype 'p bound = Included 'p | Excluded 'p | Unbounded

datatype 'p CursorChoiceAfter = After 'p | AfterInclusive 'p
datatype 'p CursorChoiceBefore = Before 'p | BeforeInclusive 'p
datatype 'p CursorChoice = ChoiceAfter "'p CursorChoiceAfter" | ChoiceBefore "'p CursorChoiceBefore"

record 'p Cursor =
  after :: "'p CursorChoiceAfter option"
  before :: "'p CursorChoiceBefore option"

fun after_inner :: "'p CursorChoiceAfter \<Rightarrow> 'p" where
  "after_inner (After p) = p"
| "after_inner (AfterInclusive p) = p"

fun after_inclusive :: "'p CursorChoiceAfter \<Rightarrow> 'p CursorChoiceAfter" where
  "after_inclusive (After p) = AfterInclusive p"
| "after_inclusive (AfterInclusive p) = AfterInclusive p"

fun after_to_bound :: "'p CursorChoiceAfter \<Rightarrow> 'p bound" where
  "after_to_bound (After p) = Excluded p"
| "after_to_bound (AfterInclusive p) = Included p"

fun after_map_pos :: "('p \<Rightarrow> 'q) \<Rightarrow> 'p CursorChoiceAfter \<Rightarrow> 'q CursorChoiceAfter" where
  "after_map_pos f (After p) = After (f p)"
| "after_map_pos f (AfterInclusive p) = AfterInclusive (f p)"

fun before_inner :: "'p CursorChoiceBefore \<Rightarrow> 'p" where
  "before_inner (Before p) = p"
| "before_inner (BeforeInclusive p) = p"

fun before_inclusive :: "'p CursorChoiceBefore \<Rightarrow> 'p CursorChoiceBefore" where
  "before_inclusive (Before p) = BeforeInclusive p"
| "before_inclusive (BeforeInclusive p) = BeforeInclusive p"

fun before_to_bound :: "'p CursorChoiceBefore \<Rightarrow> 'p bound" where
  "before_to_bound (Before p) = Excluded p"
| "before_to_bound (BeforeInclusive p) = Included p"

fun before_map_pos :: "('p \<Rightarrow> 'q) \<Rightarrow> 'p CursorChoiceBefore \<Rightarrow> 'q CursorChoiceBefore" where
  "before_map_pos f (Before p) = Before (f p)"
| "before_map_pos f (BeforeInclusive p) = BeforeInclusive (f p)"

fun choice_inner :: "'p CursorChoice \<Rightarrow> 'p" where
  "choice_inner (ChoiceAfter a) = after_inner a"
| "choice_inner (ChoiceBefore b) = before_inner b"

fun choice_map_pos :: "('p \<Rightarrow> 'q) \<Rightarrow> 'p CursorChoice \<Rightarrow> 'q CursorChoice" where
  "choice_map_pos f (ChoiceAfter a) = ChoiceAfter (after_map_pos f a)"
| "choice_map_pos f (ChoiceBefore b) = ChoiceBefore (before_map_pos f b)"

fun choice_inclusive :: "'p CursorChoice \<Rightarrow> 'p CursorChoice" where
  "choice_inclusive (ChoiceAfter a) = ChoiceAfter (after_inclusive a)"
| "choice_inclusive (ChoiceBefore b) = ChoiceBefore (before_inclusive b)"

section \<open>Opaque values\<close>

datatype 'a Opaque = Opaque (into_inner: 'a)

datatype OpaqueError = JsonError | Base64Error

definition opaque_serialize :: "('a \<Rightarrow> (unit, bytes) outcome) \<Rightarrow> (bytes \<Rightarrow> string) \<Rightarrow> 'a Opaque \<Rightarrow> (OpaqueError, string) outcome" where
  "opaque_serialize to_vec encode x = omap encode (omap_err (\<lambda>_. JsonError) (to_vec (into_inner x)))"

definition opaque_deserialize ::
    "(bytes \<Rightarrow> (unit, 'a) outcome) \<Rightarrow> (string \<Rightarrow> (unit, bytes) outcome) \<Rightarrow> string \<Rightarrow> (OpaqueError, 'a Opaque) outcome" where
  "opaque_deserialize from_slice decode b64 =
     obind (omap_err (\<lambda>_. Base64Error) (decode b64)) (\<lambda>bytes.
     omap Opaque (omap_err (\<lambda>_. JsonError) (from_slice bytes)))"

record 'p OpaqueCursor =
  opaque_after :: "'p CursorChoiceAfter Opaque option"
  opaque_before :: "'p CursorChoiceBefore Opaque option"

definition into_opaque :: "'p Cursor \<Rightarrow> 'p OpaqueCursor" where
  "into_opaque c = \<lparr>opaque_after = map_option Opaque (after c), opaque_before = map_option Opaque (before c)\<rparr>"

definition choice_opaque :: "'p CursorChoice \<Rightarrow> 'p CursorChoice Opaque" where
  "choice_opaque c = Opaque c"

record ('l, 'p) PaginatedList =
  pl_cursor :: "'p Cursor"
  pl_list :: 'l

definition paginated_list_result :: "(('e, 'l) outcome, 'p) PaginatedList \<Rightarrow> ('e, ('l, 'p) PaginatedList) outcome" where
  "paginated_list_result pl = omap (\<lambda>l. \<lparr>pl_cursor = pl_cursor pl, pl_list = l\<rparr>) (pl_list pl)"

section \<open>The paginator\<close>

record ('i, 'p) Paginator =
  iter :: "'i list"
  pag_before :: "'p CursorChoiceBefore option"
  pag_after :: "'p CursorChoiceAfter option"

definition paginator_new :: "'i list \<Rightarrow> ('i, 'p) Paginator" where
  "paginator_new items = \<lparr>iter = items, pag_before = None, pag_after = None\<rparr>"

definition paginator_next :: "('i \<Rightarrow> 'p option) \<Rightarrow> ('i, 'p) Paginator \<Rightarrow> ('i, 'p) Paginator \<times> 'i option" where
  "paginator_next item_to_pos pg =
     (case iter pg of
        [] \<Rightarrow> (pg, None)
      | item # rest \<Rightarrow>
          (let pg1 = pg\<lparr>iter := rest\<rparr> in
           case item_to_pos item of
             None \<Rightarrow> (pg1, Some item)
           | Some pos \<Rightarrow>
               (let pg2 = (if pag_before pg1 = None then pg1\<lparr>pag_before := Some (Before pos)\<rparr> else pg1)
                in (pg2\<lparr>pag_after := Some (After pos)\<rparr>, Some item))))"

lemma paginator_next_iter: "iter (fst (paginator_next f pg)) = tl (iter pg)"
  by (simp add: paginator_next_def Let_def split: list.split option.split)

function paginator_drain :: "('i \<Rightarrow> 'p option) \<Rightarrow> ('i, 'p) Paginator \<Rightarrow> ('i, 'p) Paginator \<times> 'i list" where
  "paginator_drain f pg =
     (if iter pg = [] then (pg, [])
      else
        (let pg1 = fst (paginator_next f pg); item = snd (paginator_next f pg);
             (pg2, rest) = paginator_drain f pg1
         in (pg2, (case item of Some x \<Rightarrow> x # rest | None \<Rightarrow> rest))))"
  by pat_completeness auto
termination
  by (relation "measure (\<lambda>(f, pg). length (iter pg))") (auto simp: paginator_next_iter)

declare paginator_drain.simps [simp del]

definition paginator_collect :: "('i \<Rightarrow> 'p option) \<Rightarrow> ('i, 'p) Paginator \<Rightarrow> 'p Cursor \<times> 'i list" where
  "paginator_collect f pg =
     (let (pg', items) = paginator_drain f pg
      in (\<lparr>after = pag_after pg', before = pag_before pg'\<rparr>, items))"

lemma paginator_drain_spec:
  "paginator_drain f pg =
     (\<lparr>iter = [],
       pag_before = (case pag_before pg of Some b \<Rightarrow> Some b
                     | None \<Rightarrow> (case List.map_filter f (iter pg) of [] \<Rightarrow> None | p # _ \<Rightarrow> Some (Before p))),
       pag_after = (case List.map_filter f (iter pg) of [] \<Rightarrow> pag_after pg | ps \<Rightarrow> Some (After (last ps)))\<rparr>,
      iter pg)"
proof (induction "iter pg" arbitrary: pg)
  case Nil
  then show ?case by (cases pg) (simp add: paginator_drain.simps List.map_filter_simps split: option.split)
next
  case (Cons x xs)
  then have "iter (fst (paginator_next f pg)) = xs" by (metis list.sel(3) paginator_next_iter)
  with Cons.hyps(1) [of "fst (paginator_next f pg)"] Cons.hyps(2) [symmetric] show ?case
    by (subst paginator_drain.simps)
      (auto simp: paginator_next_def Let_def List.map_filter_simps split: option.split list.split)
qed

text \<open>
  Paginating over a list yields all its items in order, with the cursor that starts before the
  first and after the last item that has a position; a page without positions has an empty cursor.
\<close>

lemma paginator_collect_spec:
  "paginator_collect f (paginator_new items) =
     (let ps = List.map_filter f items in
      \<lparr>after = (if ps = [] then None else Some (After (last ps))),
       before = (if ps = [] then None else Some (Before (hd ps)))\<rparr>, items)"
  by (cases "List.map_filter f items")
    (simp_all add: paginator_collect_def paginator_drain_spec paginator_new_def)

end
