(* ===== verification/Block_Store.thy ===== *)
theory Block_Store
  imports Primitives Pagination Wire_Message
begin

text \<open>
  The block store of \<^verbatim>\<open>pkg/block-store\<close>: keys and their encoding (\<^verbatim>\<open>keys.rs\<close>), listings and pages
  (\<^verbatim>\<open>list.rs\<close>), reading and writing blocks (\<^verbatim>\<open>lib.rs\<close>) and the migration (\<^verbatim>\<open>migration.rs\<close>). RocksDB is
  a parameter: a record of the operations that the code calls on a database of type \<open>'db\<close>. What they
  are documented to do is the locale \<open>kv_store\<close>. The block type of the generic \<^verbatim>\<open>BlockStore<B>\<close> is a
  parameter too: a record of its trait methods and of its encoding.
\<close>

section \<open>Parameters\<close>

text \<open>The iterator's flag is \<open>True\<close> for \<^verbatim>\<open>IteratorMode::Start\<close>; each of its items may be an I/O error.\<close>

record 'db rocksdb =
  db_get :: "'db \<Rightarrow> bytes \<Rightarrow> (unit, bytes option) outcome"
  db_put :: "'db \<Rightarrow> bytes \<Rightarrow> bytes \<Rightarrow> (unit, 'db) outcome"
  db_write :: "'db \<Rightarrow> (bytes \<times> bytes) list \<Rightarrow> (unit, 'db) outcome"
  db_iterator :: "'db \<Rightarrow> bytes \<Rightarrow> bytes \<Rightarrow> bool \<Rightarrow> (unit, bytes \<times> bytes) outcome list"

record ('b, 't) block_ops =
  block_height :: "'b \<Rightarrow> BlockHeight"
  block_hash :: "'b \<Rightarrow> CryptoHash"
  txns :: "'b \<Rightarrow> 't list"
  txn_hash :: "'t \<Rightarrow> CryptoHash"
  block_to_bytes :: "'b \<Rightarrow> (ErrorKind, bytes) outcome"
  block_from_bytes :: "bytes \<Rightarrow> (ErrorKind, 'b) outcome"
  txn_to_bytes :: "'t \<Rightarrow> (ErrorKind, bytes) outcome"
  txn_from_bytes :: "bytes \<Rightarrow> (ErrorKind, 't) outcome"

datatype StoreError = InvalidKey | InvalidVersion u32 | RocksDB | StoreWire ErrorKind | StoreIo

section \<open>Keys\<close>

datatype Key =
    KeyBlock BlockHeight
  | MaxHeight
  | BlockHashToHeight CryptoHash
  | PendingBlock
  | TxnByHash CryptoHash
  | StoreVersion
  | KeyNonEmptyBlock BlockHeight

fun key_kind :: "Key \<Rightarrow> u8" where
  "key_kind (KeyBlock _) = 0"
| "key_kind MaxHeight = 1"
| "key_kind (BlockHashToHeight _) = 2"
| "key_kind PendingBlock = 3"
| "key_kind (TxnByHash _) = 4"
| "key_kind StoreVersion = 5"
| "key_kind (KeyNonEmptyBlock _) = 6"

definition height_bytes :: "BlockHeight \<Rightarrow> bytes" where
  "height_bytes h = be_bytes 8 (unat h)"

fun key_serialize :: "Key \<Rightarrow> bytes" where
  "key_serialize (KeyBlock h) = key_kind (KeyBlock h) # height_bytes h"
| "key_serialize MaxHeight = [key_kind MaxHeight]"
| "key_serialize (BlockHashToHeight b) = key_kind (BlockHashToHeight b) # hash_bytes32 b"
| "key_serialize PendingBlock = [key_kind PendingBlock]"
| "key_serialize (TxnByHash t) = key_kind (TxnByHash t) # hash_bytes32 t"
| "key_serialize StoreVersion = [key_kind StoreVersion]"
| "key_serialize (KeyNonEmptyBlock h) = key_kind (KeyNonEmptyBlock h) # height_bytes h"

text \<open>Slices \<^verbatim>\<open>&bytes[0..n]\<close> panic on a shorter input.\<close>

definition slice0 :: "nat \<Rightarrow> bytes \<Rightarrow> (StoreError, bytes) outcome" where
  "slice0 n bs = (if length bs < n then Panic else Ok (take n bs))"

definition key_height_deserialize :: "bytes \<Rightarrow> (StoreError, BlockHeight) outcome" where
  "key_height_deserialize bs = omap (\<lambda>b. word_of_nat (be_val b)) (slice0 8 bs)"

definition key_deserialize :: "bytes \<Rightarrow> (StoreError, Key) outcome" where
  "key_deserialize bytes =
     (case bytes of
        [] \<Rightarrow> Err InvalidKey
      | kind # bs \<Rightarrow>
          if kind = 0 then omap KeyBlock (key_height_deserialize bs)
          else if kind = 1 then Ok MaxHeight
          else if kind = 2 then omap (\<lambda>b. BlockHashToHeight (hash_of_bytes b)) (slice0 32 bs)
          else if kind = 3 then Ok PendingBlock
          else if kind = 4 then omap (\<lambda>b. TxnByHash (hash_of_bytes b)) (slice0 32 bs)
          else if kind = 5 then Ok StoreVersion
          else if kind = 6 then omap KeyNonEmptyBlock (key_height_deserialize bs)
          else Err InvalidKey)"

definition serialize_immediate_successor :: "Key \<Rightarrow> bytes" where
  "serialize_immediate_successor k = key_serialize k @ [0]"

datatype BlockListOrder = LowestToHighest | HighestToLowest

fun is_indexed_order :: "BlockListOrder \<Rightarrow> bool" where
  "is_indexed_order LowestToHighest = True"
| "is_indexed_order HighestToLowest = False"

fun order_reverse :: "BlockListOrder \<Rightarrow> BlockListOrder" where
  "order_reverse LowestToHighest = HighestToLowest"
| "order_reverse HighestToLowest = LowestToHighest"

definition non_empty_from_block :: "('b, 't) block_ops \<Rightarrow> 'b \<Rightarrow> BlockHeight option" where
  "non_empty_from_block B b = (if txns B b = [] then None else Some (block_height B b))"

section \<open>Listings\<close>

record StoreListing =
  start_key :: Key
  end_key :: Key
  lower_exclusive :: bool
  upper_inclusive :: bool
  start_to_end :: bool

text \<open>
  \<^verbatim>\<open>ListableKey::list\<close> for the two key types, which differ in the constructor \<open>to_key\<close> only; their
  smallest and largest values are the heights 0 and \<^verbatim>\<open>u64::MAX\<close>.
\<close>

definition listable_list :: "(BlockHeight \<Rightarrow> Key) \<Rightarrow> BlockHeight bound \<times> BlockHeight bound \<Rightarrow> BlockListOrder \<Rightarrow> StoreListing" where
  "listable_list to_key rng order =
     \<lparr>start_key = (case fst rng of Included x \<Rightarrow> to_key x | Excluded x \<Rightarrow> to_key x | Unbounded \<Rightarrow> to_key 0),
      end_key = (case snd rng of Included x \<Rightarrow> to_key x | Excluded x \<Rightarrow> to_key x | Unbounded \<Rightarrow> to_key (- 1)),
      lower_exclusive = (case fst rng of Included _ \<Rightarrow> False | Excluded _ \<Rightarrow> True | Unbounded \<Rightarrow> False),
      upper_inclusive = (case snd rng of Included _ \<Rightarrow> True | Excluded _ \<Rightarrow> False | Unbounded \<Rightarrow> True),
      start_to_end = is_indexed_order order\<rparr>"

definition listing_item ::
    "(bytes \<Rightarrow> (ErrorKind, 'v) outcome) \<Rightarrow> (unit, bytes \<times> bytes) outcome \<Rightarrow> (StoreError, Key \<times> 'v) outcome" where
  "listing_item dec r =
     obind (omap_err (\<lambda>_. RocksDB) r) (\<lambda>(key, value).
     obind (omap_err (\<lambda>_. InvalidKey) (key_deserialize key)) (\<lambda>k.
     omap (\<lambda>v. (k, v)) (omap_err StoreWire (dec value))))"

definition into_iterator ::
    "'db rocksdb \<Rightarrow> (bytes \<Rightarrow> (ErrorKind, 'v) outcome) \<Rightarrow> 'db \<Rightarrow> StoreListing \<Rightarrow> (StoreError, Key \<times> 'v) outcome list" where
  "into_iterator R dec db l =
     (let lower_bound = (if lower_exclusive l then serialize_immediate_successor (start_key l)
                         else key_serialize (start_key l));
          upper_bound = (if upper_inclusive l then serialize_immediate_successor (end_key l)
                         else key_serialize (end_key l))
      in map (listing_item dec) (db_iterator R db lower_bound upper_bound (start_to_end l)))"

definition listing_reverse :: "StoreListing \<Rightarrow> StoreListing" where
  "listing_reverse l = l\<lparr>start_to_end := \<not> start_to_end l\<rparr>"

text \<open>Collecting an iterator of results stops at the first error.\<close>

fun collect_results :: "('e, 'a) outcome list \<Rightarrow> ('e, 'a list) outcome" where
  "collect_results [] = Ok []"
| "collect_results (r # rs) = obind r (\<lambda>x. omap (\<lambda>xs. x # xs) (collect_results rs))"

definition listable_list_paginated ::
    "'db rocksdb \<Rightarrow> (bytes \<Rightarrow> (ErrorKind, 'v) outcome) \<Rightarrow> (BlockHeight \<Rightarrow> Key) \<Rightarrow> 'db
      \<Rightarrow> BlockHeight CursorChoice option \<Rightarrow> BlockListOrder \<Rightarrow> nat \<Rightarrow> (StoreError, (Key \<times> 'v) list) outcome" where
  "listable_list_paginated R dec to_key db cursor order limit =
     (let (start0, end0) =
            (case cursor of
               None \<Rightarrow> (Unbounded, Unbounded)
             | Some (ChoiceBefore b) \<Rightarrow> (Unbounded, before_to_bound b)
             | Some (ChoiceAfter a) \<Rightarrow> (after_to_bound a, Unbounded));
          (start1, end1) = (if is_indexed_order order then (start0, end0) else (end0, start0));
          (reverse_results, order1) =
            (case cursor of
               None \<Rightarrow> (False, order)
             | Some (ChoiceAfter _) \<Rightarrow> (False, order)
             | Some (ChoiceBefore _) \<Rightarrow> (True, order_reverse order))
      in omap (\<lambda>results. if reverse_results then rev results else results)
           (collect_results (take limit (into_iterator R dec db (listable_list to_key (start1, end1) order1)))))"

fun as_key_block :: "(StoreError, Key \<times> 'v) outcome \<Rightarrow> (StoreError, BlockHeight \<times> 'v) outcome" where
  "as_key_block (Ok (KeyBlock h, v)) = Ok (h, v)"
| "as_key_block (Ok (_, v)) = Err InvalidKey"
| "as_key_block (Err e) = Err e"
| "as_key_block Panic = Panic"

fun as_key_non_empty :: "(StoreError, Key \<times> 'v) outcome \<Rightarrow> (StoreError, BlockHeight \<times> 'v) outcome" where
  "as_key_non_empty (Ok (KeyNonEmptyBlock h, v)) = Ok (h, v)"
| "as_key_non_empty (Ok (_, v)) = Err InvalidKey"
| "as_key_non_empty (Err e) = Err e"
| "as_key_non_empty Panic = Panic"

definition store_list ::
    "'db rocksdb \<Rightarrow> ('b, 't) block_ops \<Rightarrow> 'db \<Rightarrow> BlockHeight bound \<times> BlockHeight bound \<Rightarrow> BlockListOrder
      \<Rightarrow> (StoreError, BlockHeight \<times> 'b) outcome list" where
  "store_list R B db rng order =
     map as_key_block (into_iterator R (block_from_bytes B) db (listable_list KeyBlock rng order))"

definition store_list_paginated ::
    "'db rocksdb \<Rightarrow> ('b, 't) block_ops \<Rightarrow> 'db \<Rightarrow> BlockHeight CursorChoice option \<Rightarrow> BlockListOrder \<Rightarrow> nat
      \<Rightarrow> (StoreError, (StoreError, BlockHeight \<times> 'b) outcome list) outcome" where
  "store_list_paginated R B db cursor order limit =
     omap (map (\<lambda>kv. as_key_block (Ok kv)))
       (listable_list_paginated R (block_from_bytes B) KeyBlock db cursor order limit)"

definition store_list_non_empty ::
    "'db rocksdb \<Rightarrow> ('b, 't) block_ops \<Rightarrow> 'db \<Rightarrow> BlockHeight bound \<times> BlockHeight bound \<Rightarrow> BlockListOrder
      \<Rightarrow> (StoreError, BlockHeight \<times> 'b) outcome list" where
  "store_list_non_empty R B db rng order =
     map as_key_non_empty (into_iterator R (block_from_bytes B) db (listable_list KeyNonEmptyBlock rng order))"

definition store_list_non_empty_paginated ::
    "'db rocksdb \<Rightarrow> ('b, 't) block_ops \<Rightarrow> 'db \<Rightarrow> BlockHeight CursorChoice option \<Rightarrow> BlockListOrder \<Rightarrow> nat
      \<Rightarrow> (StoreError, (StoreError, BlockHeight \<times> 'b) outcome list) outcome" where
  "store_list_non_empty_paginated R B db cursor order limit =
     omap (map (\<lambda>kv. as_key_non_empty (Ok kv)))
       (listable_list_paginated R (block_from_bytes B) KeyNonEmptyBlock db cursor order limit)"

definition store_list_txns ::
    "'db rocksdb \<Rightarrow> ('b, 't) block_ops \<Rightarrow> 'db \<Rightarrow> (StoreError, 't) outcome list" where
  "store_list_txns R B db =
     map (\<lambda>r. obind (omap_err (\<lambda>_. RocksDB) r) (\<lambda>(_, value). omap_err StoreWire (txn_from_bytes B value)))
       (db_iterator R db (key_serialize (TxnByHash 0)) (serialize_immediate_successor (TxnByHash (- 1))) True)"

section \<open>Reading and writing\<close>

definition read_u64 :: "bytes \<Rightarrow> (StoreError, u64) outcome" where
  "read_u64 bs = (if length bs = 8 then Ok (word_of_nat (be_val bs)) else Panic)"

definition store_get ::
    "'db rocksdb \<Rightarrow> ('b, 't) block_ops \<Rightarrow> 'db \<Rightarrow> BlockHeight \<Rightarrow> (StoreError, 'b option) outcome" where
  "store_get R B db block_number =
     obind (omap_err (\<lambda>_. RocksDB) (db_get R db (key_serialize (KeyBlock block_number)))) (\<lambda>r.
       case r of
         None \<Rightarrow> Ok None
       | Some bytes \<Rightarrow> omap Some (omap_err StoreWire (block_from_bytes B bytes)))"

definition get_max_height :: "'db rocksdb \<Rightarrow> 'db \<Rightarrow> (StoreError, BlockHeight option) outcome" where
  "get_max_height R db =
     obind (omap_err (\<lambda>_. RocksDB) (db_get R db (key_serialize MaxHeight))) (\<lambda>r.
       case r of None \<Rightarrow> Ok None | Some bytes \<Rightarrow> omap Some (read_u64 bytes))"

definition get_block_height_by_hash ::
    "'db rocksdb \<Rightarrow> 'db \<Rightarrow> CryptoHash \<Rightarrow> (StoreError, BlockHeight option) outcome" where
  "get_block_height_by_hash R db h =
     obind (omap_err (\<lambda>_. RocksDB) (db_get R db (key_serialize (BlockHashToHeight h)))) (\<lambda>r.
       case r of None \<Rightarrow> Ok None | Some bytes \<Rightarrow> omap Some (read_u64 bytes))"

definition get_pending_block ::
    "'db rocksdb \<Rightarrow> ('b, 't) block_ops \<Rightarrow> 'db \<Rightarrow> (StoreError, 'b option) outcome" where
  "get_pending_block R B db =
     obind (omap_err (\<lambda>_. RocksDB) (db_get R db (key_serialize PendingBlock))) (\<lambda>r.
       case r of
         None \<Rightarrow> Ok None
       | Some bytes \<Rightarrow> omap Some (omap_err StoreWire (block_from_bytes B bytes)))"

definition get_txn_by_hash ::
    "'db rocksdb \<Rightarrow> ('b, 't) block_ops \<Rightarrow> 'db \<Rightarrow> CryptoHash \<Rightarrow> (StoreError, 't option) outcome" where
  "get_txn_by_hash R B db h =
     obind (omap_err (\<lambda>_. RocksDB) (db_get R db (key_serialize (TxnByHash h)))) (\<lambda>r.
       case r of
         None \<Rightarrow> Ok None
       | Some bytes \<Rightarrow> omap Some (omap_err StoreWire (txn_from_bytes B bytes)))"

definition store_version :: "'db rocksdb \<Rightarrow> 'db \<Rightarrow> (StoreError, u32) outcome" where
  "store_version R db =
     obind (omap_err (\<lambda>_. RocksDB) (db_get R db (key_serialize StoreVersion))) (\<lambda>r.
       case r of
         None \<Rightarrow> Ok 0
       | Some bytes \<Rightarrow> if length bytes = 4 then Ok (word_of_nat (be_val bytes)) else Panic)"

definition set_store_version :: "'db rocksdb \<Rightarrow> 'db \<Rightarrow> u32 \<Rightarrow> (StoreError, 'db) outcome" where
  "set_store_version R db version =
     omap_err (\<lambda>_. RocksDB) (db_put R db (key_serialize StoreVersion) (be_bytes 4 (unat version)))"

definition txn_entries :: "('b, 't) block_ops \<Rightarrow> 'b \<Rightarrow> (StoreError, Key \<times> bytes) outcome list" where
  "txn_entries B b =
     map (\<lambda>tx. omap (\<lambda>v. (TxnByHash (txn_hash B tx), v)) (omap_err StoreWire (txn_to_bytes B tx))) (txns B b)"

text \<open>The puts of the transaction index and of the index of non-empty blocks, which two operations write.\<close>

definition index_puts :: "('b, 't) block_ops \<Rightarrow> 'b \<Rightarrow> (StoreError, (bytes \<times> bytes) list) outcome" where
  "index_puts B b =
     obind (collect_results (txn_entries B b)) (\<lambda>entries.
     let puts = map (\<lambda>(k, v). (key_serialize k, v)) entries in
     case non_empty_from_block B b of
       None \<Rightarrow> Ok puts
     | Some h \<Rightarrow>
         omap (\<lambda>bytes. puts @ [(key_serialize (KeyNonEmptyBlock h), bytes)])
           (omap_err StoreWire (block_to_bytes B b)))"

definition store_set ::
    "'db rocksdb \<Rightarrow> ('b, 't) block_ops \<Rightarrow> 'db \<Rightarrow> 'b \<Rightarrow> (StoreError, 'db) outcome" where
  "store_set R B db block =
     (let height = block_height B block in
      obind (omap_err StoreWire (block_to_bytes B block)) (\<lambda>bytes.
      obind (get_max_height R db) (\<lambda>max_height.
      let batch1 = [(key_serialize (KeyBlock height), bytes)]
                   @ (if (case max_height of None \<Rightarrow> True | Some m \<Rightarrow> m < height)
                      then [(key_serialize MaxHeight, height_bytes height)] else [])
                   @ [(key_serialize (BlockHashToHeight (block_hash B block)), height_bytes height)]
      in obind (index_puts B block) (\<lambda>puts.
         omap_err (\<lambda>_. RocksDB) (db_write R db (batch1 @ puts))))))"

definition LATEST_VERSION :: u32 where
  "LATEST_VERSION = 1"

text \<open>
  Opening a store. The argument \<open>open_db\<close> is \<^verbatim>\<open>DB::open\<close> on the path, by the flag \<^verbatim>\<open>create_if_missing\<close>;
  \<open>dir\<close> is what the file system says of the path: \<open>None\<close> when it does not exist, otherwise whether
  the directory has an entry.
\<close>

definition store_create ::
    "'db rocksdb \<Rightarrow> (bool \<Rightarrow> (unit, 'db) outcome) \<Rightarrow> (StoreError, 'db) outcome" where
  "store_create R open_db =
     obind (omap_err (\<lambda>_. RocksDB) (open_db True)) (\<lambda>db. set_store_version R db LATEST_VERSION)"

definition load_existing :: "(bool \<Rightarrow> (unit, 'db) outcome) \<Rightarrow> (StoreError, 'db) outcome" where
  "load_existing open_db = omap_err (\<lambda>_. RocksDB) (open_db False)"

definition create_or_load ::
    "'db rocksdb \<Rightarrow> (unit, bool) outcome option \<Rightarrow> (bool \<Rightarrow> (unit, 'db) outcome) \<Rightarrow> (StoreError, 'db) outcome" where
  "create_or_load R dir open_db =
     (case dir of
        None \<Rightarrow> store_create R open_db
      | Some entries \<Rightarrow>
          obind (omap_err (\<lambda>_. StoreIo) entries) (\<lambda>non_empty.
            if non_empty then load_existing open_db else store_create R open_db))"

section \<open>Migration\<close>

text \<open>The listing reads a snapshot, taken when the iteration starts; each block is written in its own batch.\<close>

fun migrate_blocks ::
    "'db rocksdb \<Rightarrow> ('b, 't) block_ops \<Rightarrow> (StoreError, BlockHeight \<times> 'b) outcome list \<Rightarrow> 'db
      \<Rightarrow> 'db \<times> (StoreError, unit) outcome" where
  "migrate_blocks R B [] db = (db, Ok ())"
| "migrate_blocks R B (r # rs) db =
     (case obind r (\<lambda>(_, block). obind (index_puts B block)
             (\<lambda>puts. omap_err (\<lambda>_. RocksDB) (db_write R db puts))) of
        Ok db' \<Rightarrow> migrate_blocks R B rs db'
      | Err e \<Rightarrow> (db, Err e)
      | Panic \<Rightarrow> (db, Panic))"

definition migrate_to_v1 ::
    "'db rocksdb \<Rightarrow> ('b, 't) block_ops \<Rightarrow> 'db \<Rightarrow> 'db \<times> (StoreError, unit) outcome" where
  "migrate_to_v1 R B db =
     (case migrate_blocks R B (store_list R B db (Unbounded, Unbounded) LowestToHighest) db of
        (db1, Ok _) \<Rightarrow>
          (case set_store_version R db1 1 of
             Ok db2 \<Rightarrow> (db2, Ok ()) | Err e \<Rightarrow> (db1, Err e) | Panic \<Rightarrow> (db1, Panic))
      | (db1, r) \<Rightarrow> (db1, r))"

partial_function (option) migrate ::
    "'db rocksdb \<Rightarrow> ('b, 't) block_ops \<Rightarrow> 'db \<Rightarrow> ('db \<times> (StoreError, unit) outcome) option" where
  "migrate R B db =
     (case store_version R db of
        Ok version \<Rightarrow>
          if version = 0
          then (case migrate_to_v1 R B db of
                  (db', Ok _) \<Rightarrow> migrate R B db'
                | (db', r) \<Rightarrow> Some (db', r))
          else if version = 1 then Some (db, Ok ())
          else Some (db, Err (InvalidVersion version))
      | Err e \<Rightarrow> Some (db, Err e)
      | Panic \<Rightarrow> Some (db, Panic))"

end
