(* ===== verification/Block_Store_Correct.thy ===== *)
theory Block_Store_Correct
  imports Block_Store
begin

text \<open>
  Correctness of the block store over any database that behaves as an ordered map from byte strings
  to byte strings (the locale \<open>kv_store\<close>, which the ordered association list implements).
\<close>

section \<open>Keys\<close>

lemma height_bytes_less [simp]: "height_bytes a < height_bytes b \<longleftrightarrow> a < b"
proof -
  have "unat a < 256 ^ 8" "unat b < 256 ^ 8" using unsigned_less [of a] unsigned_less [of b] by simp_all
  from be_bytes_less [OF this] show ?thesis by (simp add: height_bytes_def word_less_nat_alt)
qed

lemma length_height_bytes [simp]: "length (height_bytes a) = 8"
  by (simp add: height_bytes_def)

lemma height_bytes_le [simp]: "height_bytes a \<le> height_bytes b \<longleftrightarrow> a \<le> b"
  by (simp add: linorder_not_less [symmetric])

lemma height_bytes_inj [simp]: "height_bytes a = height_bytes b \<longleftrightarrow> a = b"
  by (metis height_bytes_less linorder_neq_iff)

lemma be_val_height_bytes [simp]: "word_of_nat (be_val (height_bytes h)) = h"
proof -
  have "unat h < 256 ^ 8" using unsigned_less [of h] by simp
  then show ?thesis by (simp add: height_bytes_def be_val_be_bytes)
qed

lemma hash_of_bytes32 [simp]: "hash_of_bytes (hash_bytes32 h) = h"
proof -
  have "unat h < 256 ^ 32" using unsigned_less [of h] by simp
  then show ?thesis by (simp add: hash_of_bytes_def hash_bytes32_def be_val_be_bytes)
qed

lemma length_hash_bytes32 [simp]: "length (hash_bytes32 h) = 32"
  by (simp add: hash_bytes32_def)

lemma key_round_trip [simp]: "key_deserialize (key_serialize k) = Ok k"
  by (cases k) (simp_all add: key_deserialize_def key_height_deserialize_def slice0_def)

lemma key_serialize_inj [simp]: "key_serialize a = key_serialize b \<longleftrightarrow> a = b"
  by (metis key_round_trip outcome.inject(1))

text \<open>The two kinds of keys that are listed.\<close>

definition listable :: "(BlockHeight \<Rightarrow> Key) \<Rightarrow> bool" where
  "listable C \<longleftrightarrow> C = KeyBlock \<or> C = KeyNonEmptyBlock"

fun in_lower :: "BlockHeight bound \<Rightarrow> BlockHeight \<Rightarrow> bool" where
  "in_lower (Included x) h \<longleftrightarrow> x \<le> h"
| "in_lower (Excluded x) h \<longleftrightarrow> x < h"
| "in_lower Unbounded h \<longleftrightarrow> True"

fun in_upper :: "BlockHeight bound \<Rightarrow> BlockHeight \<Rightarrow> bool" where
  "in_upper (Included x) h \<longleftrightarrow> h \<le> x"
| "in_upper (Excluded x) h \<longleftrightarrow> h < x"
| "in_upper Unbounded h \<longleftrightarrow> True"

definition lower_bound :: "StoreListing \<Rightarrow> bytes" where
  "lower_bound l = (if lower_exclusive l then serialize_immediate_successor (start_key l) else key_serialize (start_key l))"

definition upper_bound :: "StoreListing \<Rightarrow> bytes" where
  "upper_bound l = (if upper_inclusive l then serialize_immediate_successor (end_key l) else key_serialize (end_key l))"

lemma listable_inj: "listable C \<Longrightarrow> inj (\<lambda>(h, b). Ok (C h, b))"
  by (auto simp: listable_def inj_def)

lemma append_zero_le: "height_bytes a @ [0] \<le> height_bytes h \<longleftrightarrow> a < h"
  using list_less_append_same_length [of "height_bytes h" "height_bytes a" "[]" "[0]"]
  by (auto simp: linorder_not_less [symmetric])

lemma less_append_zero: "height_bytes h < height_bytes a @ [0] \<longleftrightarrow> h \<le> a"
  using append_zero_le [of a h] by (auto simp: linorder_not_less [symmetric])

lemma word_max_least: "h \<le> (- 1 :: 'a::len word)"
  by simp

lemma same_kind_bounds:
  assumes "listable C"
  shows "lower_bound (listable_list C rng order) \<le> key_serialize (C h) \<longleftrightarrow> in_lower (fst rng) h"
    and "key_serialize (C h) < upper_bound (listable_list C rng order) \<longleftrightarrow> in_upper (snd rng) h"
proof -
  show "lower_bound (listable_list C rng order) \<le> key_serialize (C h) \<longleftrightarrow> in_lower (fst rng) h"
    using assms by (cases "fst rng")
      (auto simp: listable_def lower_bound_def listable_list_def serialize_immediate_successor_def append_zero_le)
  show "key_serialize (C h) < upper_bound (listable_list C rng order) \<longleftrightarrow> in_upper (snd rng) h"
    using assms by (cases "snd rng")
      (auto simp: listable_def upper_bound_def listable_list_def serialize_immediate_successor_def less_append_zero)
qed

lemma other_kind_bounds:
  assumes "listable C" "\<And>h. K \<noteq> C h"
  shows "\<not> (lower_bound (listable_list C rng order) \<le> key_serialize K \<and> key_serialize K < upper_bound (listable_list C rng order))"
proof -
  have "\<exists>bs. lower_bound (listable_list C rng order) = key_kind (C 0) # bs"
    "\<exists>bs. upper_bound (listable_list C rng order) = key_kind (C 0) # bs"
    using assms(1) by (auto simp: listable_def lower_bound_def upper_bound_def listable_list_def serialize_immediate_successor_def
        split: bound.split)
  moreover have "\<exists>bs. key_serialize K = key_kind K # bs" by (cases K) auto
  moreover have "key_kind K \<noteq> key_kind (C 0)" using assms by (cases K) (auto simp: listable_def)
  ultimately show ?thesis by auto
qed

section \<open>Databases\<close>

text \<open>What the operations of the database do, when no I/O error occurs.\<close>

locale kv_store =
  fixes R :: "'db rocksdb"
    and invar :: "'db \<Rightarrow> bool"
    and contents :: "'db \<Rightarrow> (bytes, bytes) btree"
  assumes contents_sorted: "invar d \<Longrightarrow> bt_ok (contents d)"
    and get_contents: "invar d \<Longrightarrow> db_get R d k = Ok (map_of (contents d) k)"
    and put_contents: "invar d \<Longrightarrow> \<exists>d'. db_put R d k v = Ok d' \<and> invar d' \<and> contents d' = bt_insert k v (contents d)"
    and write_contents: "invar d \<Longrightarrow> \<exists>d'. db_write R d ps = Ok d' \<and> invar d'
        \<and> contents d' = fold (\<lambda>(k, v). bt_insert k v) ps (contents d)"
    and iterator_contents: "invar d \<Longrightarrow> db_iterator R d lo hi fwd =
        map Ok ((if fwd then id else rev) (filter (\<lambda>(k, v). lo \<le> k \<and> k < hi) (contents d)))"

definition mem_rocksdb :: "(bytes, bytes) btree rocksdb" where
  "mem_rocksdb =
     \<lparr>db_get = (\<lambda>d k. Ok (map_of d k)),
      db_put = (\<lambda>d k v. Ok (bt_insert k v d)),
      db_write = (\<lambda>d ps. Ok (fold (\<lambda>(k, v). bt_insert k v) ps d)),
      db_iterator = (\<lambda>d lo hi fwd. map Ok ((if fwd then id else rev) (filter (\<lambda>(k, v). lo \<le> k \<and> k < hi) d)))\<rparr>"

interpretation mem: kv_store mem_rocksdb bt_ok "\<lambda>d. d"
  by unfold_locales (auto simp: mem_rocksdb_def btree_simps btree.invar_fold_insert)

text \<open>What the encodings of blocks and transactions promise.\<close>

definition codec_ok :: "('b, 't) block_ops \<Rightarrow> bool" where
  "codec_ok B \<longleftrightarrow>
     (\<forall>b. \<exists>bs. block_to_bytes B b = Ok bs \<and> block_from_bytes B bs = Ok b) \<and>
     (\<forall>t. \<exists>bs. txn_to_bytes B t = Ok bs \<and> txn_from_bytes B bs = Ok t)"

text \<open>Which values may be stored under a key.\<close>

fun value_ok :: "('b, 't) block_ops \<Rightarrow> Key \<Rightarrow> bytes \<Rightarrow> bool" where
  "value_ok B (KeyBlock h) v \<longleftrightarrow> (\<exists>b. block_from_bytes B v = Ok b \<and> block_height B b = h)"
| "value_ok B (KeyNonEmptyBlock h) v \<longleftrightarrow>
     (\<exists>b. block_from_bytes B v = Ok b \<and> block_height B b = h \<and> txns B b \<noteq> [])"
| "value_ok B (TxnByHash h) v \<longleftrightarrow> (\<exists>t. txn_from_bytes B v = Ok t \<and> txn_hash B t = h)"
| "value_ok B MaxHeight v \<longleftrightarrow> length v = 8"
| "value_ok B (BlockHashToHeight h) v \<longleftrightarrow> length v = 8"
| "value_ok B StoreVersion v \<longleftrightarrow> length v = 4"
| "value_ok B PendingBlock v \<longleftrightarrow> True"

definition entries_ok :: "('b, 't) block_ops \<Rightarrow> (bytes, bytes) btree \<Rightarrow> bool" where
  "entries_ok B m \<longleftrightarrow> (\<forall>(k, v) \<in> set m. \<exists>K. k = key_serialize K \<and> value_ok B K v)"

lemma entries_ok_get:
  "entries_ok B m \<Longrightarrow> map_of m (key_serialize K) = Some v \<Longrightarrow> value_ok B K v"
  by (auto simp: entries_ok_def dest!: map_of_SomeD)

lemma set_bt_insert: "set (bt_insert k v m) \<subseteq> insert (k, v) (set m)"
  by (induction k v m rule: bt_insert.induct) auto

lemma entries_ok_insert:
  "entries_ok B m \<Longrightarrow> value_ok B K v \<Longrightarrow> entries_ok B (bt_insert (key_serialize K) v m)"
  using set_bt_insert [of "key_serialize K" v m] by (auto simp: entries_ok_def)

lemma entries_ok_fold:
  assumes "entries_ok B m" "\<forall>(k, v) \<in> set ps. \<exists>K. k = key_serialize K \<and> value_ok B K v"
  shows "entries_ok B (fold (\<lambda>(k, v). bt_insert k v) ps m)"
  using assms by (induction ps arbitrary: m) (auto intro: entries_ok_insert)

section \<open>Listings\<close>

context kv_store
begin

lemma into_iterator_spec:
  assumes d: "invar d" "entries_ok B (contents d)" and C: "listable C"
  shows "\<exists>xs. into_iterator R (block_from_bytes B) d (listable_list C rng order) = map (\<lambda>(h, b). Ok (C h, b)) xs
    \<and> sorted_wrt (if is_indexed_order order then (<) else (>)) (map fst xs)
    \<and> (\<forall>h b. (h, b) \<in> set xs \<longleftrightarrow>
         (\<exists>bs. map_of (contents d) (key_serialize (C h)) = Some bs \<and> block_from_bytes B bs = Ok b)
         \<and> in_lower (fst rng) h \<and> in_upper (snd rng) h)"
proof -
  let ?l = "listable_list C rng order"
  define fwd where "fwd = is_indexed_order order"
  define L where "L = filter (\<lambda>(k, v). lower_bound ?l \<le> k \<and> k < upper_bound ?l) (contents d)"
  have shape: "\<exists>h b. k = key_serialize (C h) \<and> block_from_bytes B v = Ok b"
    if "(k, v) \<in> set L" for k v
  proof -
    from that d(2) obtain K where K: "k = key_serialize K" "value_ok B K v"
      by (auto simp: L_def entries_ok_def)
    have "\<exists>h. K = C h"
    proof (rule ccontr)
      assume "\<nexists>h. K = C h"
      with other_kind_bounds [OF C, of K rng order] that K(1) show False by (auto simp: L_def)
    qed
    then obtain h where "K = C h" by blast
    with K C show ?thesis by (auto simp: listable_def)
  qed
  define g where "g = (\<lambda>(k, v). (THE h. k = key_serialize (C h), THE b. block_from_bytes B v = Ok b))"
  have Cinj: "C a = C b \<longleftrightarrow> a = b" for a b using C by (auto simp: listable_def)
  have g: "g (key_serialize (C h), v) = (h, b)" if "block_from_bytes B v = Ok b" for h v b
    using that Cinj by (simp add: g_def)
  have item: "listing_item (block_from_bytes B) (Ok kv) = Ok (C (fst (g kv)), snd (g kv))" if "kv \<in> set L" for kv
    using shape [of "fst kv" "snd kv"] that g by (cases kv) (auto simp: listing_item_def)
  have ste: "start_to_end ?l = fwd" by (simp add: listable_list_def fwd_def)
  have raw: "into_iterator R (block_from_bytes B) d ?l = map (listing_item (block_from_bytes B)) (map Ok ((if fwd then id else rev) L))"
    unfolding into_iterator_def Let_def lower_bound_def [symmetric] upper_bound_def [symmetric]
      iterator_contents [OF d(1)] ste L_def by (rule refl)
  have it: "into_iterator R (block_from_bytes B) d ?l = map (\<lambda>(h, b). Ok (C h, b)) (map g ((if fwd then id else rev) L))"
    unfolding raw using item by (cases fwd) (simp_all add: case_prod_beta)
  have bt: "sorted_wrt (<) (map fst (contents d))" using contents_sorted [OF d(1)] by (simp add: bt_ok_def bt_keys_def)
  then have "sorted_wrt (\<lambda>x y. fst x < fst y) L" unfolding L_def by (auto simp: sorted_wrt_map intro: sorted_wrt_filter)
  then have "sorted_wrt (\<lambda>x y. fst (g x) < fst (g y)) L"
  proof (rule sorted_wrt_mono_rel [rotated])
    fix x y
    assume xy: "x \<in> set L" "y \<in> set L" "fst x < fst y"
    from shape [of "fst x" "snd x"] xy(1) obtain h b where x: "x = (key_serialize (C h), snd x)" "block_from_bytes B (snd x) = Ok b"
      by (metis prod.collapse)
    from shape [of "fst y" "snd y"] xy(2) obtain h' b' where y: "y = (key_serialize (C h'), snd y)" "block_from_bytes B (snd y) = Ok b'"
      by (metis prod.collapse)
    have "key_serialize (C h) < key_serialize (C h')" using xy(3) x(1) y(1) by (metis fst_conv)
    then have "h < h'" using C by (auto simp: listable_def)
    moreover have "fst (g x) = h" "fst (g y) = h'" using g [OF x(2), of h] g [OF y(2), of h'] x(1) y(1) by (metis fst_conv)+
    ultimately show "fst (g x) < fst (g y)" by simp
  qed
  then have sorted: "sorted_wrt (if fwd then (<) else (>)) (map fst (map g ((if fwd then id else rev) L)))"
    by (simp add: sorted_wrt_map sorted_wrt_rev)
  have mem: "(h, b) \<in> g ` set L \<longleftrightarrow>
      (\<exists>bs. map_of (contents d) (key_serialize (C h)) = Some bs \<and> block_from_bytes B bs = Ok b)
      \<and> in_lower (fst rng) h \<and> in_upper (snd rng) h" for h b
  proof
    assume "(h, b) \<in> g ` set L"
    then obtain k v where kv: "(k, v) \<in> set L" "g (k, v) = (h, b)" by auto
    from shape [OF kv(1)] obtain h' b' where k: "k = key_serialize (C h')" "block_from_bytes B v = Ok b'" by blast
    with g [of v b' h'] kv(2) have eq: "h' = h" "b' = b" by auto
    have "map_of (contents d) k = Some v"
      using kv(1) contents_sorted [OF d(1)] by (intro map_of_is_SomeI) (auto simp: L_def btree_simps)
    moreover have "lower_bound ?l \<le> k" "k < upper_bound ?l" using kv(1) by (auto simp: L_def)
    ultimately show "(\<exists>bs. map_of (contents d) (key_serialize (C h)) = Some bs \<and> block_from_bytes B bs = Ok b)
      \<and> in_lower (fst rng) h \<and> in_upper (snd rng) h"
      using k eq same_kind_bounds [OF C] by auto
  next
    assume a: "(\<exists>bs. map_of (contents d) (key_serialize (C h)) = Some bs \<and> block_from_bytes B bs = Ok b)
      \<and> in_lower (fst rng) h \<and> in_upper (snd rng) h"
    then obtain bs where bs: "map_of (contents d) (key_serialize (C h)) = Some bs" "block_from_bytes B bs = Ok b" by blast
    with a have "(key_serialize (C h), bs) \<in> set L"
      using same_kind_bounds [OF C] by (auto simp: L_def dest: map_of_SomeD)
    with g [OF bs(2), of h] show "(h, b) \<in> g ` set L" by (metis image_eqI)
  qed
  have "(h, b) \<in> set (map g ((if fwd then id else rev) L)) \<longleftrightarrow>
      (\<exists>bs. map_of (contents d) (key_serialize (C h)) = Some bs \<and> block_from_bytes B bs = Ok b)
      \<and> in_lower (fst rng) h \<and> in_upper (snd rng) h" for h b
    unfolding mem [symmetric] by (cases fwd) simp_all
  with it sorted show ?thesis unfolding fwd_def by blast
qed

end

section \<open>Pages\<close>

lemma pair_set_eqI: "(\<And>a b. (a, b) \<in> A \<longleftrightarrow> (a, b) \<in> B) \<Longrightarrow> A = B"
  by auto

lemma collect_results_map: "\<forall>x \<in> set xs. f x = Ok (g x) \<Longrightarrow> collect_results (map f xs) = Ok (map g xs)"
  by (induction xs) auto

lemma ordered_unique:
  fixes xs ys :: "('k::linorder \<times> 'v) list"
  assumes "sorted_wrt (if fwd then (<) else (>)) (map fst xs)" "sorted_wrt (if fwd then (<) else (>)) (map fst ys)"
    and "set xs = set ys"
  shows "xs = ys"
proof (cases fwd)
  case True
  with assms strict_sorted_unique [of xs ys] show ?thesis by simp
next
  case False
  with assms strict_sorted_unique [of "rev xs" "rev ys"] show ?thesis by (simp add: sorted_wrt_rev rev_map [symmetric])
qed

lemma sorted_wrt_map_filter: "sorted_wrt P (map f xs) \<Longrightarrow> sorted_wrt P (map f (filter Q xs))"
  by (simp add: sorted_wrt_map sorted_wrt_filter)

text \<open>Whether a position lies after (before) a cursor, in the order of the listing.\<close>

fun past :: "BlockListOrder \<Rightarrow> BlockHeight CursorChoiceAfter \<Rightarrow> BlockHeight \<Rightarrow> bool" where
  "past LowestToHighest (After p) h \<longleftrightarrow> p < h"
| "past LowestToHighest (AfterInclusive p) h \<longleftrightarrow> p \<le> h"
| "past HighestToLowest (After p) h \<longleftrightarrow> h < p"
| "past HighestToLowest (AfterInclusive p) h \<longleftrightarrow> h \<le> p"

fun ahead :: "BlockListOrder \<Rightarrow> BlockHeight CursorChoiceBefore \<Rightarrow> BlockHeight \<Rightarrow> bool" where
  "ahead LowestToHighest (Before p) h \<longleftrightarrow> h < p"
| "ahead LowestToHighest (BeforeInclusive p) h \<longleftrightarrow> h \<le> p"
| "ahead HighestToLowest (Before p) h \<longleftrightarrow> p < h"
| "ahead HighestToLowest (BeforeInclusive p) h \<longleftrightarrow> p \<le> h"

text \<open>The part of a listing that a page takes: the next \<open>limit\<close> entries, or the last ones before the cursor.\<close>

fun page :: "BlockListOrder \<Rightarrow> BlockHeight CursorChoice option \<Rightarrow> nat \<Rightarrow> (BlockHeight \<times> 'b) list \<Rightarrow> (BlockHeight \<times> 'b) list" where
  "page order None limit L = take limit L"
| "page order (Some (ChoiceAfter a)) limit L = take limit (filter (\<lambda>(h, b). past order a h) L)"
| "page order (Some (ChoiceBefore c)) limit L = rev (take limit (rev (filter (\<lambda>(h, b). ahead order c h) L)))"

context kv_store
begin

lemma listing_filter:
  assumes d: "invar d" "entries_ok B (contents d)" and C: "listable C"
    and L: "into_iterator R (block_from_bytes B) d (listable_list C (Unbounded, Unbounded) order) = map (\<lambda>(h, b). Ok (C h, b)) L"
  shows "into_iterator R (block_from_bytes B) d (listable_list C rng order)
      = map (\<lambda>(h, b). Ok (C h, b)) (filter (\<lambda>(h, b). in_lower (fst rng) h \<and> in_upper (snd rng) h) L)"
    and "into_iterator R (block_from_bytes B) d (listable_list C rng (order_reverse order))
      = map (\<lambda>(h, b). Ok (C h, b)) (rev (filter (\<lambda>(h, b). in_lower (fst rng) h \<and> in_upper (snd rng) h) L))"
proof -
  let ?F = "filter (\<lambda>(h, b). in_lower (fst rng) h \<and> in_upper (snd rng) h) L"
  from into_iterator_spec [OF d C, of "(Unbounded, Unbounded)" order] obtain xs where
    xs: "into_iterator R (block_from_bytes B) d (listable_list C (Unbounded, Unbounded) order) = map (\<lambda>(h, b). Ok (C h, b)) xs"
      "sorted_wrt (if is_indexed_order order then (<) else (>)) (map fst xs)"
      "\<forall>h b. (h, b) \<in> set xs \<longleftrightarrow>
         (\<exists>bs. map_of (contents d) (key_serialize (C h)) = Some bs \<and> block_from_bytes B bs = Ok b)" by auto
  have "xs = L" using xs(1) unfolding L inj_map_eq_map [OF listable_inj [OF C]] by simp
  with xs have s: "sorted_wrt (if is_indexed_order order then (<) else (>)) (map fst ?F)"
    and m: "\<And>h b. (h, b) \<in> set ?F \<longleftrightarrow>
         (\<exists>bs. map_of (contents d) (key_serialize (C h)) = Some bs \<and> block_from_bytes B bs = Ok b)
         \<and> in_lower (fst rng) h \<and> in_upper (snd rng) h" by (auto intro: sorted_wrt_map_filter)
  from into_iterator_spec [OF d C, of rng order] obtain ys where
    ys: "into_iterator R (block_from_bytes B) d (listable_list C rng order) = map (\<lambda>(h, b). Ok (C h, b)) ys"
      "sorted_wrt (if is_indexed_order order then (<) else (>)) (map fst ys)"
      "\<forall>h b. (h, b) \<in> set ys \<longleftrightarrow>
         (\<exists>bs. map_of (contents d) (key_serialize (C h)) = Some bs \<and> block_from_bytes B bs = Ok b)
         \<and> in_lower (fst rng) h \<and> in_upper (snd rng) h" by auto
  have "set ys = set ?F" by (rule pair_set_eqI) (use ys(3) m in blast)
  with ordered_unique [OF ys(2) s] ys(1)
  show "into_iterator R (block_from_bytes B) d (listable_list C rng order) = map (\<lambda>(h, b). Ok (C h, b)) ?F" by simp
  from into_iterator_spec [OF d C, of rng "order_reverse order"] obtain zs where
    zs: "into_iterator R (block_from_bytes B) d (listable_list C rng (order_reverse order)) = map (\<lambda>(h, b). Ok (C h, b)) zs"
      "sorted_wrt (if is_indexed_order (order_reverse order) then (<) else (>)) (map fst zs)"
      "\<forall>h b. (h, b) \<in> set zs \<longleftrightarrow>
         (\<exists>bs. map_of (contents d) (key_serialize (C h)) = Some bs \<and> block_from_bytes B bs = Ok b)
         \<and> in_lower (fst rng) h \<and> in_upper (snd rng) h" by auto
  have "sorted_wrt (if is_indexed_order (order_reverse order) then (<) else (>)) (map fst (rev ?F))"
    using s by (cases order) (simp_all add: sorted_wrt_rev rev_map [symmetric])
  moreover have "set zs = set (rev ?F)" unfolding set_rev by (rule pair_set_eqI) (use zs(3) m in blast)
  ultimately have "zs = rev ?F" by (rule ordered_unique [OF zs(2)])
  with zs(1) show "into_iterator R (block_from_bytes B) d (listable_list C rng (order_reverse order))
      = map (\<lambda>(h, b). Ok (C h, b)) (rev ?F)" by simp
qed

lemma paginated_spec:
  fixes B :: "('b, 't) block_ops"
  assumes d: "invar d" "entries_ok B (contents d)" and C: "listable C"
    and L: "into_iterator R (block_from_bytes B) d (listable_list C (Unbounded, Unbounded) order) = map (\<lambda>(h, b). Ok (C h, b)) L"
  shows "listable_list_paginated R (block_from_bytes B) C d cursor order limit
    = Ok (map (\<lambda>(h, b). (C h, b)) (page order cursor limit L))"
proof -
  note lf = listing_filter [OF d C L]
  have coll: "collect_results (take limit (map (\<lambda>(h, b). Ok (C h, b)) xs)) = Ok (map (\<lambda>(h, b). (C h, b)) (take limit xs))"
    for xs :: "(BlockHeight \<times> 'b) list"
    unfolding take_map by (rule collect_results_map) auto
  have rv: "rev (map (\<lambda>(h, b). (C h, b)) xs) = map (\<lambda>(h, b). (C h, b)) (rev xs)" for xs :: "(BlockHeight \<times> 'b) list"
    by (simp add: rev_map)
  show ?thesis
  proof (cases cursor)
    case None
    then show ?thesis using L unfolding listable_list_paginated_def by (cases order) (simp_all add: coll)
  next
    case (Some c)
    show ?thesis
    proof (cases c)
      case (ChoiceAfter a)
      have "past order a = (if is_indexed_order order then in_lower (after_to_bound a) else in_upper (after_to_bound a))"
        by (cases order; cases a) (auto simp: fun_eq_iff)
      then show ?thesis
        using Some ChoiceAfter lf(1) [of "(after_to_bound a, Unbounded)"] lf(1) [of "(Unbounded, after_to_bound a)"]
        unfolding listable_list_paginated_def by (cases order) (simp_all add: coll)
    next
      case (ChoiceBefore b)
      have "ahead order b = (if is_indexed_order order then in_upper (before_to_bound b) else in_lower (before_to_bound b))"
        by (cases order; cases b) (auto simp: fun_eq_iff)
      then show ?thesis
        using Some ChoiceBefore lf(2) [of "(Unbounded, before_to_bound b)"] lf(2) [of "(before_to_bound b, Unbounded)"]
        unfolding listable_list_paginated_def by (cases order) (simp_all add: coll rv)
    qed
  qed
qed

end

end
