(* ===== verification/Block_Store_Props.thy ===== *)
theory Block_Store_Props
  imports Block_Store_Correct
begin

text \<open>The properties of the block store, over any database that satisfies \<open>kv_store\<close>.\<close>

declare key_serialize.simps [simp del]

section \<open>Writing\<close>

context kv_store
begin

lemma get_max_height_ok:
  assumes "invar d" "entries_ok B (contents d)"
  shows "get_max_height R d = Ok (map_option (\<lambda>v. word_of_nat (be_val v)) (map_of (contents d) (key_serialize MaxHeight)))"
  using entries_ok_get [OF assms(2), of MaxHeight] get_contents [OF assms(1)]
  by (simp add: get_max_height_def read_u64_def split: option.split)

end

lemma collect_txn_entries:
  assumes "codec_ok B"
  shows "collect_results (map (\<lambda>tx. omap (\<lambda>v. (TxnByHash (txn_hash B tx), v)) (omap_err StoreWire (txn_to_bytes B tx))) ts)
    = Ok (map (\<lambda>tx. (TxnByHash (txn_hash B tx), case txn_to_bytes B tx of Ok bs \<Rightarrow> bs)) ts)"
proof (induction ts)
  case (Cons t ts)
  obtain bs where "txn_to_bytes B t = Ok bs" using assms by (auto simp: codec_ok_def)
  with Cons show ?case by simp
qed simp

lemma index_puts_spec:
  assumes "codec_ok B"
  shows "\<exists>puts. index_puts B b = Ok puts
    \<and> (\<forall>(k, v) \<in> set puts. \<exists>K. k = key_serialize K \<and> value_ok B K v
         \<and> ((\<exists>t \<in> set (txns B b). K = TxnByHash (txn_hash B t) \<and> txn_from_bytes B v = Ok t)
            \<or> K = KeyNonEmptyBlock (block_height B b) \<and> block_from_bytes B v = Ok b))
    \<and> key_serialize ` (\<lambda>t. TxnByHash (txn_hash B t)) ` set (txns B b) \<subseteq> fst ` set puts
    \<and> (key_serialize (KeyNonEmptyBlock (block_height B b)) \<in> fst ` set puts \<longleftrightarrow> txns B b \<noteq> [])"
proof -
  let ?tp = "map (\<lambda>tx. (key_serialize (TxnByHash (txn_hash B tx)), case txn_to_bytes B tx of Ok bs \<Rightarrow> bs)) (txns B b)"
  obtain bs where bs: "block_to_bytes B b = Ok bs" "block_from_bytes B bs = Ok b" using assms by (auto simp: codec_ok_def)
  have tx: "txn_from_bytes B (case txn_to_bytes B t of Ok bs \<Rightarrow> bs) = Ok t" for t
  proof -
    obtain v where "txn_to_bytes B t = Ok v" "txn_from_bytes B v = Ok t" using assms by (auto simp: codec_ok_def)
    then show ?thesis by simp
  qed
  have "index_puts B b = Ok (?tp @ (if txns B b = [] then [] else [(key_serialize (KeyNonEmptyBlock (block_height B b)), bs)]))"
    unfolding index_puts_def txn_entries_def collect_txn_entries [OF assms]
    using bs(1) by (auto simp: non_empty_from_block_def Let_def)
  moreover have "\<exists>K. k = key_serialize K \<and> value_ok B K v
         \<and> ((\<exists>t \<in> set (txns B b). K = TxnByHash (txn_hash B t) \<and> txn_from_bytes B v = Ok t)
            \<or> K = KeyNonEmptyBlock (block_height B b) \<and> block_from_bytes B v = Ok b)"
    if kv: "(k, v) \<in> set (?tp @ (if txns B b = [] then [] else [(key_serialize (KeyNonEmptyBlock (block_height B b)), bs)]))"
    for k v
  proof (cases "(k, v) \<in> set ?tp")
    case True
    then obtain t where t: "t \<in> set (txns B b)" "k = key_serialize (TxnByHash (txn_hash B t))"
      "v = (case txn_to_bytes B t of Ok bs \<Rightarrow> bs)" by auto
    with tx [of t] show ?thesis by (intro exI [of _ "TxnByHash (txn_hash B t)"]) auto
  next
    case False
    with kv have "k = key_serialize (KeyNonEmptyBlock (block_height B b))" "v = bs" "txns B b \<noteq> []"
      by (auto split: if_splits)
    with bs(2) show ?thesis by (intro exI [of _ "KeyNonEmptyBlock (block_height B b)"]) simp
  qed
  moreover have "key_serialize (KeyNonEmptyBlock (block_height B b)) \<notin> fst ` set ?tp"
    by (auto)
  ultimately show ?thesis by (intro exI conjI) (auto simp: image_iff)
qed

lemma map_of_fold_insert:
  assumes "bt_ok m"
  shows "map_of (fold (\<lambda>(k, v). bt_insert k v) ps m) k = (case map_of (rev ps) k of Some v \<Rightarrow> Some v | None \<Rightarrow> map_of m k)"
  by (rule btree.get_fold_insert [OF assms])

lemma map_of_rev_None: "map_of (rev ps) k = None \<longleftrightarrow> k \<notin> fst ` set ps"
  by (simp add: map_of_eq_None_iff)

context kv_store
begin

lemma store_set_writes:
  assumes d: "invar d" "entries_ok B (contents d)" and c: "codec_ok B"
  shows "\<exists>d' bs puts top. store_set R B d b = Ok d' \<and> invar d' \<and> entries_ok B (contents d')
    \<and> block_from_bytes B bs = Ok b \<and> index_puts B b = Ok puts
    \<and> contents d' = fold (\<lambda>(k, v). bt_insert k v)
        ([(key_serialize (KeyBlock (block_height B b)), bs)] @ top
         @ [(key_serialize (BlockHashToHeight (block_hash B b)), height_bytes (block_height B b))] @ puts) (contents d)
    \<and> top = (if (\<forall>m. get_max_height R d = Ok (Some m) \<longrightarrow> m < block_height B b)
             then [(key_serialize MaxHeight, height_bytes (block_height B b))] else [])"
proof -
  let ?h = "block_height B b"
  obtain bs where bs: "block_to_bytes B b = Ok bs" "block_from_bytes B bs = Ok b" using c by (auto simp: codec_ok_def)
  obtain mh where mh: "get_max_height R d = Ok mh" using get_max_height_ok [OF d] by blast
  from index_puts_spec [OF c, of b] obtain puts where puts: "index_puts B b = Ok puts"
    "\<forall>(k, v) \<in> set puts. \<exists>K. k = key_serialize K \<and> value_ok B K v
       \<and> ((\<exists>t \<in> set (txns B b). K = TxnByHash (txn_hash B t) \<and> txn_from_bytes B v = Ok t)
          \<or> K = KeyNonEmptyBlock ?h \<and> block_from_bytes B v = Ok b)" by (elim exE conjE)
  define top where "top = (if (\<forall>m. get_max_height R d = Ok (Some m) \<longrightarrow> m < ?h)
      then [(key_serialize MaxHeight, height_bytes ?h)] else [])"
  have top: "top = (if (case mh of None \<Rightarrow> True | Some m \<Rightarrow> m < ?h) then [(key_serialize MaxHeight, height_bytes ?h)] else [])"
    by (auto simp: top_def mh split: option.split)
  let ?batch = "[(key_serialize (KeyBlock ?h), bs)] @ top
         @ [(key_serialize (BlockHashToHeight (block_hash B b)), height_bytes ?h)] @ puts"
  obtain d' where d': "db_write R d ?batch = Ok d'" "invar d'" "contents d' = fold (\<lambda>(k, v). bt_insert k v) ?batch (contents d)"
    using write_contents [OF d(1), of ?batch] by blast
  have "store_set R B d b = omap_err (\<lambda>_. RocksDB) (db_write R d ?batch)"
    unfolding store_set_def Let_def bs(1) mh by (simp add: puts(1) top)
  then have set: "store_set R B d b = Ok d'" using d'(1) by simp
  have entry: "\<exists>K. k = key_serialize K \<and> value_ok B K v" if "(k, v) \<in> set ?batch" for k v
  proof -
    from that consider "k = key_serialize (KeyBlock ?h)" "v = bs" | "k = key_serialize MaxHeight" "v = height_bytes ?h"
      | "k = key_serialize (BlockHashToHeight (block_hash B b))" "v = height_bytes ?h" | "(k, v) \<in> set puts"
      by (auto simp: top_def split: if_splits)
    then show ?thesis
    proof cases
      case 1
      with bs(2) show ?thesis by (intro exI [of _ "KeyBlock ?h"]) simp
    next
      case 2
      then show ?thesis by (intro exI [of _ MaxHeight]) simp
    next
      case 3
      then show ?thesis by (intro exI [of _ "BlockHashToHeight (block_hash B b)"]) simp
    next
      case 4
      with puts(2) show ?thesis by blast
    qed
  qed
  have "entries_ok B (contents d')" unfolding d'(3) by (rule entries_ok_fold [OF d(2)]) (use entry in blast)
  with set d'(2,3) bs(2) puts(1) show ?thesis unfolding top_def by blast
qed

end

text \<open>What a block writes under a key, and the keys it writes.\<close>

fun block_entry :: "('b, 't) block_ops \<Rightarrow> 'b \<Rightarrow> Key \<Rightarrow> bytes \<Rightarrow> bool" where
  "block_entry B b (KeyBlock h) v \<longleftrightarrow> h = block_height B b \<and> block_from_bytes B v = Ok b"
| "block_entry B b MaxHeight v \<longleftrightarrow> v = height_bytes (block_height B b)"
| "block_entry B b (BlockHashToHeight x) v \<longleftrightarrow> x = block_hash B b \<and> v = height_bytes (block_height B b)"
| "block_entry B b (TxnByHash x) v \<longleftrightarrow> (\<exists>t \<in> set (txns B b). x = txn_hash B t \<and> txn_from_bytes B v = Ok t)"
| "block_entry B b (KeyNonEmptyBlock h) v \<longleftrightarrow> h = block_height B b \<and> block_from_bytes B v = Ok b"
| "block_entry B b PendingBlock v \<longleftrightarrow> False"
| "block_entry B b StoreVersion v \<longleftrightarrow> False"

definition index_keys :: "('b, 't) block_ops \<Rightarrow> 'b \<Rightarrow> Key set" where
  "index_keys B b = (\<lambda>t. TxnByHash (txn_hash B t)) ` set (txns B b)
     \<union> (if txns B b = [] then {} else {KeyNonEmptyBlock (block_height B b)})"

text \<open>Writing a batch: the last value written under a key counts, other keys keep theirs.\<close>

lemma lookup_batch:
  assumes "bt_ok m"
    and "\<forall>(k, v) \<in> set ps. \<exists>K. k = key_serialize K \<and> P K v"
    and "\<And>K. K \<in> W \<longleftrightarrow> key_serialize K \<in> fst ` set ps"
  shows "K \<in> W \<Longrightarrow> \<exists>v. map_of (fold (\<lambda>(k, v). bt_insert k v) ps m) (key_serialize K) = Some v \<and> P K v"
    and "K \<notin> W \<Longrightarrow> map_of (fold (\<lambda>(k, v). bt_insert k v) ps m) (key_serialize K) = map_of m (key_serialize K)"
proof -
  note look = map_of_fold_insert [OF assms(1), of ps "key_serialize K"]
  show "\<exists>v. map_of (fold (\<lambda>(k, v). bt_insert k v) ps m) (key_serialize K) = Some v \<and> P K v" if "K \<in> W"
  proof -
    from that assms(3) have "map_of (rev ps) (key_serialize K) \<noteq> None" by (simp only: map_of_rev_None not_not)
    then obtain v where v: "map_of (rev ps) (key_serialize K) = Some v" by blast
    then have "(key_serialize K, v) \<in> set ps" using map_of_SomeD [OF v] by simp
    from bspec [OF assms(2) this] have "P K v" by auto
    with look v show ?thesis by simp
  qed
  show "map_of (fold (\<lambda>(k, v). bt_insert k v) ps m) (key_serialize K) = map_of m (key_serialize K)" if "K \<notin> W"
  proof -
    from that assms(3) have "map_of (rev ps) (key_serialize K) = None" by (simp only: map_of_rev_None not_False_eq_True)
    with look show ?thesis by simp
  qed
qed

lemma index_puts_entries:
  assumes "codec_ok B"
  shows "\<exists>puts. index_puts B b = Ok puts
    \<and> (\<forall>(k, v) \<in> set puts. \<exists>K. k = key_serialize K \<and> value_ok B K v \<and> block_entry B b K v)
    \<and> (\<forall>K. K \<in> index_keys B b \<longleftrightarrow> key_serialize K \<in> fst ` set puts)"
proof -
  from index_puts_spec [OF assms, of b] obtain puts where puts: "index_puts B b = Ok puts"
    "\<forall>(k, v) \<in> set puts. \<exists>K. k = key_serialize K \<and> value_ok B K v
       \<and> ((\<exists>t \<in> set (txns B b). K = TxnByHash (txn_hash B t) \<and> txn_from_bytes B v = Ok t)
          \<or> K = KeyNonEmptyBlock (block_height B b) \<and> block_from_bytes B v = Ok b)"
    "key_serialize ` (\<lambda>t. TxnByHash (txn_hash B t)) ` set (txns B b) \<subseteq> fst ` set puts"
    "key_serialize (KeyNonEmptyBlock (block_height B b)) \<in> fst ` set puts \<longleftrightarrow> txns B b \<noteq> []" by (elim exE conjE)
  have e: "\<exists>K. k = key_serialize K \<and> value_ok B K v \<and> block_entry B b K v" if "(k, v) \<in> set puts" for k v
  proof -
    from puts(2) that obtain K where K: "k = key_serialize K" "value_ok B K v"
      "(\<exists>t \<in> set (txns B b). K = TxnByHash (txn_hash B t) \<and> txn_from_bytes B v = Ok t)
          \<or> K = KeyNonEmptyBlock (block_height B b) \<and> block_from_bytes B v = Ok b" by blast
    then have "block_entry B b K v" by auto
    with K show ?thesis by blast
  qed
  have "K \<in> index_keys B b" if "key_serialize K \<in> fst ` set puts" for K
  proof -
    from that obtain v where "(key_serialize K, v) \<in> set puts" by auto
    from bspec [OF puts(2) this] have "(\<exists>t \<in> set (txns B b). K = TxnByHash (txn_hash B t)) \<or> K = KeyNonEmptyBlock (block_height B b)"
      by auto
    with that puts(4) show ?thesis by (auto simp: index_keys_def)
  qed
  moreover have "key_serialize K \<in> fst ` set puts" if "K \<in> index_keys B b" for K
    using that puts(3,4) by (auto simp: index_keys_def image_subset_iff split: if_splits)
  ultimately show ?thesis using puts(1) e by blast
qed

context kv_store
begin

lemma store_set_lookup:
  fixes b :: 'b and B :: "('b, 't) block_ops"
  assumes d: "invar d" "entries_ok B (contents d)" and c: "codec_ok B"
  defines "newmax \<equiv> (\<forall>m. get_max_height R d = Ok (Some m) \<longrightarrow> m < block_height B b)"
  defines "W \<equiv> {KeyBlock (block_height B b), BlockHashToHeight (block_hash B b)} \<union> index_keys B b
      \<union> (if newmax then {MaxHeight} else {})"
  shows "\<exists>d'. store_set R B d b = Ok d' \<and> invar d' \<and> entries_ok B (contents d')
    \<and> (\<forall>K. K \<in> W \<longrightarrow> (\<exists>v. map_of (contents d') (key_serialize K) = Some v \<and> block_entry B b K v))
    \<and> (\<forall>K. K \<notin> W \<longrightarrow> map_of (contents d') (key_serialize K) = map_of (contents d) (key_serialize K))"
proof -
  let ?h = "block_height B b"
  from store_set_writes [OF d c, of b] obtain d' bs puts top where
    s: "store_set R B d b = Ok d'" "invar d'" "entries_ok B (contents d')" "block_from_bytes B bs = Ok b" "index_puts B b = Ok puts"
      "contents d' = fold (\<lambda>(k, v). bt_insert k v)
        ([(key_serialize (KeyBlock ?h), bs)] @ top
         @ [(key_serialize (BlockHashToHeight (block_hash B b)), height_bytes ?h)] @ puts) (contents d)"
      "top = (if newmax then [(key_serialize MaxHeight, height_bytes ?h)] else [])" unfolding newmax_def by (elim exE conjE)
  from index_puts_entries [OF c, of b] s(5)
  have p: "\<And>k v. (k, v) \<in> set puts \<Longrightarrow> \<exists>K. k = key_serialize K \<and> value_ok B K v \<and> block_entry B b K v"
    "\<And>K. K \<in> index_keys B b \<longleftrightarrow> key_serialize K \<in> fst ` set puts" by auto
  let ?batch = "[(key_serialize (KeyBlock ?h), bs)] @ top
         @ [(key_serialize (BlockHashToHeight (block_hash B b)), height_bytes ?h)] @ puts"
  have e: "\<exists>K. k = key_serialize K \<and> block_entry B b K v" if "(k, v) \<in> set ?batch" for k v
  proof -
    from that s(7) consider "k = key_serialize (KeyBlock ?h)" "v = bs" | "k = key_serialize MaxHeight" "v = height_bytes ?h"
      | "k = key_serialize (BlockHashToHeight (block_hash B b))" "v = height_bytes ?h" | "(k, v) \<in> set puts"
      by (auto split: if_splits)
    then show ?thesis
    proof cases
      case 1
      then show ?thesis by (intro exI [of _ "KeyBlock ?h"]) (simp add: s(4))
    next
      case 2
      then show ?thesis by (intro exI [of _ MaxHeight]) simp
    next
      case 3
      then show ?thesis by (intro exI [of _ "BlockHashToHeight (block_hash B b)"]) simp
    next
      case 4
      with p(1) show ?thesis by blast
    qed
  qed
  have keys: "K \<in> W \<longleftrightarrow> key_serialize K \<in> fst ` set ?batch" for K
    using p(2) [of K] s(7) by (auto simp: W_def)
  note look = lookup_batch [OF contents_sorted [OF d(1)] _ keys, of "block_entry B b"]
  have "K \<in> W \<Longrightarrow> \<exists>v. map_of (contents d') (key_serialize K) = Some v \<and> block_entry B b K v"
    "K \<notin> W \<Longrightarrow> map_of (contents d') (key_serialize K) = map_of (contents d) (key_serialize K)" for K
    unfolding s(6) using look [of K] e by blast+
  with s(1-3) show ?thesis by blast
qed

end

lemma store_get_lookup:
  assumes "kv_store R invar contents" "invar d"
  shows "store_get R B d h = (case map_of (contents d) (key_serialize (KeyBlock h)) of None \<Rightarrow> Ok None
      | Some bs \<Rightarrow> omap Some (omap_err StoreWire (block_from_bytes B bs)))"
    and "get_txn_by_hash R B d x = (case map_of (contents d) (key_serialize (TxnByHash x)) of None \<Rightarrow> Ok None
      | Some bs \<Rightarrow> omap Some (omap_err StoreWire (txn_from_bytes B bs)))"
    and "get_block_height_by_hash R d x = (case map_of (contents d) (key_serialize (BlockHashToHeight x)) of None \<Rightarrow> Ok None
      | Some bs \<Rightarrow> omap Some (read_u64 bs))"
    and "get_max_height R d = (case map_of (contents d) (key_serialize MaxHeight) of None \<Rightarrow> Ok None
      | Some bs \<Rightarrow> omap Some (read_u64 bs))"
  unfolding store_get_def get_txn_by_hash_def get_block_height_by_hash_def get_max_height_def
    kv_store.get_contents [OF assms] by (simp_all split: option.split)

lemma read_u64_height: "read_u64 (height_bytes h) = Ok h"
  by (simp add: read_u64_def)

text \<open>What storing a block changes.\<close>

lemma store_set_effect:
  assumes "kv_store R invar contents" "invar d" "entries_ok B (contents d)" "codec_ok B"
  shows "\<exists>d'. store_set R B d b = Ok d' \<and> invar d' \<and> entries_ok B (contents d')
    \<and> store_get R B d' (block_height B b) = Ok (Some b)
    \<and> (\<forall>h. h \<noteq> block_height B b \<longrightarrow> store_get R B d' h = store_get R B d h)
    \<and> get_block_height_by_hash R d' (block_hash B b) = Ok (Some (block_height B b))
    \<and> (inj_on (txn_hash B) (set (txns B b)) \<longrightarrow> (\<forall>t \<in> set (txns B b). get_txn_by_hash R B d' (txn_hash B t) = Ok (Some t)))
    \<and> get_max_height R d' = omap (\<lambda>m. Some (case m of Some m \<Rightarrow> max m (block_height B b) | None \<Rightarrow> block_height B b))
        (get_max_height R d)"
proof -
  let ?h = "block_height B b"
  let ?new = "\<forall>m. get_max_height R d = Ok (Some m) \<longrightarrow> m < ?h"
  let ?W = "{KeyBlock ?h, BlockHashToHeight (block_hash B b)} \<union> index_keys B b \<union> (if ?new then {MaxHeight} else {})"
  from kv_store.store_set_lookup [OF assms(1-4), of b] obtain d' where
    d': "store_set R B d b = Ok d'" "invar d'" "entries_ok B (contents d')"
    and wr: "\<And>K. K \<in> ?W \<Longrightarrow> \<exists>v. map_of (contents d') (key_serialize K) = Some v \<and> block_entry B b K v"
    and keep: "\<And>K. K \<notin> ?W \<Longrightarrow> map_of (contents d') (key_serialize K) = map_of (contents d) (key_serialize K)" by blast
  note look = store_get_lookup(1) [OF assms(1,2), where B = B] store_get_lookup(4) [OF assms(1,2)]
  note look' = store_get_lookup(1,2) [OF assms(1) d'(2), where B = B] store_get_lookup(3,4) [OF assms(1) d'(2)]
  have g: "store_get R B d' ?h = Ok (Some b)" using wr [of "KeyBlock ?h"] look'(1) by auto
  have o: "store_get R B d' h = store_get R B d h" if "h \<noteq> ?h" for h
  proof -
    have "KeyBlock h \<notin> ?W" using that by (simp add: index_keys_def image_iff)
    from keep [OF this] show ?thesis by (simp add: look(1) look'(1))
  qed
  have hh: "get_block_height_by_hash R d' (block_hash B b) = Ok (Some ?h)"
    using wr [of "BlockHashToHeight (block_hash B b)"] look'(3) by (auto simp: read_u64_height)
  have t: "get_txn_by_hash R B d' (txn_hash B t) = Ok (Some t)" if inj: "inj_on (txn_hash B) (set (txns B b))" and "t \<in> set (txns B b)" for t
  proof -
    have "TxnByHash (txn_hash B t) \<in> ?W" using that(2) by (simp add: index_keys_def)
    from wr [OF this] obtain v t' where "map_of (contents d') (key_serialize (TxnByHash (txn_hash B t))) = Some v"
      "t' \<in> set (txns B b)" "txn_hash B t = txn_hash B t'" "txn_from_bytes B v = Ok t'" by auto
    with look'(2) inj_onD [OF inj] that(2) show ?thesis by fastforce
  qed
  obtain mh where mh: "get_max_height R d = Ok mh" using kv_store.get_max_height_ok [OF assms(1-3)] by blast
  have m: "get_max_height R d' = Ok (Some (case mh of Some m \<Rightarrow> max m ?h | None \<Rightarrow> ?h))"
  proof (cases ?new)
    case True
    then have "(case mh of Some m \<Rightarrow> max m ?h | None \<Rightarrow> ?h) = ?h" using mh by (auto split: option.split)
    with wr [of MaxHeight] True look'(4) show ?thesis by (auto simp: read_u64_height)
  next
    case False
    then obtain m where "mh = Some m" "?h \<le> m" using mh by auto
    moreover have "MaxHeight \<notin> ?W" using False by (simp only: if_False) (simp add: index_keys_def image_iff)
    from keep [OF this] have "get_max_height R d' = get_max_height R d" by (simp only: look(2) look'(4))
    ultimately show ?thesis using mh by (simp add: max_absorb1)
  qed
  show ?thesis using d' g o hh t m mh by auto
qed

text \<open>
  Storing a block. On a well-formed store, with an encoding that round-trips, it succeeds and
  keeps the store well formed. The block is read back at its height and found by its hash, every
  transaction of the block is found by its hash (when the hashes differ), blocks at other heights are
  unchanged, and the maximal height is the larger of the old one and the height of the block.
\<close>

theorem store_set_spec:
  assumes "kv_store R invar contents" "invar d" "entries_ok B (contents d)" "codec_ok B"
    and "inj_on (txn_hash B) (set (txns B b))"
  shows "\<exists>d'. store_set R B d b = Ok d' \<and> invar d' \<and> entries_ok B (contents d')
    \<and> store_get R B d' (block_height B b) = Ok (Some b)
    \<and> (\<forall>h. h \<noteq> block_height B b \<longrightarrow> store_get R B d' h = store_get R B d h)
    \<and> get_block_height_by_hash R d' (block_hash B b) = Ok (Some (block_height B b))
    \<and> (\<forall>t \<in> set (txns B b). get_txn_by_hash R B d' (txn_hash B t) = Ok (Some t))
    \<and> get_max_height R d' = omap (\<lambda>m. Some (case m of Some m \<Rightarrow> max m (block_height B b) | None \<Rightarrow> block_height B b))
        (get_max_height R d)"
  using store_set_effect [OF assms(1-4), of b] assms(5) by blast

section \<open>Listing\<close>

lemma as_key_block_map: "map as_key_block (map (\<lambda>(h, b). Ok (KeyBlock h, b)) xs) = map Ok xs"
  by auto

lemma store_get_Some:
  assumes "kv_store R invar contents" "invar d"
  shows "store_get R B d h = Ok (Some b) \<longleftrightarrow>
    (\<exists>bs. map_of (contents d) (key_serialize (KeyBlock h)) = Some bs \<and> block_from_bytes B bs = Ok b)"
  unfolding store_get_lookup(1) [OF assms] by (auto simp: outcome_simps split: option.split)

lemma store_list_blocks:
  assumes "kv_store R invar contents" "invar d" "entries_ok B (contents d)"
  shows "\<exists>xs. store_list R B d rng order = map Ok xs
    \<and> sorted_wrt (if is_indexed_order order then (<) else (>)) (map fst xs)
    \<and> (\<forall>h b. (h, b) \<in> set xs \<longleftrightarrow> store_get R B d h = Ok (Some b) \<and> in_lower (fst rng) h \<and> in_upper (snd rng) h)"
proof -
  have "listable KeyBlock" by (simp add: listable_def)
  from kv_store.into_iterator_spec [OF assms this, of rng order] obtain xs where
    xs: "into_iterator R (block_from_bytes B) d (listable_list KeyBlock rng order) = map (\<lambda>(h, b). Ok (KeyBlock h, b)) xs"
      "sorted_wrt (if is_indexed_order order then (<) else (>)) (map fst xs)"
      "\<forall>h b. (h, b) \<in> set xs \<longleftrightarrow>
         (\<exists>bs. map_of (contents d) (key_serialize (KeyBlock h)) = Some bs \<and> block_from_bytes B bs = Ok b)
         \<and> in_lower (fst rng) h \<and> in_upper (snd rng) h" by (elim exE conjE)
  have "store_list R B d rng order = map Ok xs" unfolding store_list_def xs(1) by (rule as_key_block_map)
  with xs(2,3) store_get_Some [OF assms(1,2), of B] show ?thesis by auto
qed

text \<open>
  Listing a range of heights yields, without errors, exactly the stored blocks of the range, in
  increasing or decreasing order of their heights.
\<close>

theorem store_list_spec:
  assumes "kv_store R invar contents" "invar d" "entries_ok B (contents d)"
  shows "\<exists>xs. store_list R B d rng order = map Ok xs
    \<and> sorted_wrt (if is_indexed_order order then (<) else (>)) (map fst xs)
    \<and> (\<forall>h b. (h, b) \<in> set xs \<longleftrightarrow> store_get R B d h = Ok (Some b) \<and> in_lower (fst rng) h \<and> in_upper (snd rng) h)"
  by (rule store_list_blocks [OF assms])

text \<open>
  C24: a page of blocks. With \<open>L\<close> the whole listing in the requested order, a page without cursor is
  the first \<open>limit\<close> blocks of \<open>L\<close>, a page after a cursor the first \<open>limit\<close> blocks of \<open>L\<close> behind it, and
  a page before a cursor the last \<open>limit\<close> blocks of \<open>L\<close> in front of it, in the order of \<open>L\<close>.
\<close>

theorem store_list_paginated_spec:
  assumes "kv_store R invar contents" "invar d" "entries_ok B (contents d)"
  shows "\<exists>L. store_list R B d (Unbounded, Unbounded) order = map Ok L
    \<and> store_list_paginated R B d cursor order limit = Ok (map Ok (page order cursor limit L))"
proof -
  have C: "listable KeyBlock" by (simp add: listable_def)
  from kv_store.into_iterator_spec [OF assms this, of "(Unbounded, Unbounded)" order] obtain xs where
    xs: "into_iterator R (block_from_bytes B) d (listable_list KeyBlock (Unbounded, Unbounded) order)
      = map (\<lambda>(h, b). Ok (KeyBlock h, b)) xs" by (elim exE conjE)
  have "store_list R B d (Unbounded, Unbounded) order = map Ok xs" unfolding store_list_def xs by (rule as_key_block_map)
  moreover have "map (\<lambda>kv. as_key_block (Ok kv)) (map (\<lambda>(h, b). (KeyBlock h, b)) ys) = map Ok ys" for ys :: "(BlockHeight \<times> 'b) list"
    by auto
  ultimately show ?thesis
    unfolding store_list_paginated_def kv_store.paginated_spec [OF assms C xs]
    by (intro exI [of _ xs]) (auto simp: case_prod_beta)
qed

section \<open>Migration\<close>

context kv_store
begin

lemma index_write_lookup:
  assumes d: "invar d" "entries_ok B (contents d)" and c: "codec_ok B"
  shows "\<exists>puts d'. index_puts B b = Ok puts \<and> db_write R d puts = Ok d' \<and> invar d' \<and> entries_ok B (contents d')
    \<and> (\<forall>K. K \<in> index_keys B b \<longrightarrow> (\<exists>v. map_of (contents d') (key_serialize K) = Some v \<and> block_entry B b K v))
    \<and> (\<forall>K. K \<notin> index_keys B b \<longrightarrow> map_of (contents d') (key_serialize K) = map_of (contents d) (key_serialize K))"
proof -
  from index_puts_entries [OF c, of b] obtain puts where puts: "index_puts B b = Ok puts"
    "\<forall>(k, v) \<in> set puts. \<exists>K. k = key_serialize K \<and> value_ok B K v \<and> block_entry B b K v"
    "\<And>K. K \<in> index_keys B b \<longleftrightarrow> key_serialize K \<in> fst ` set puts" by blast
  obtain d' where d': "db_write R d puts = Ok d'" "invar d'" "contents d' = fold (\<lambda>(k, v). bt_insert k v) puts (contents d)"
    using write_contents [OF d(1), of puts] by blast
  have "entries_ok B (contents d')" unfolding d'(3) by (rule entries_ok_fold [OF d(2)]) (use puts(2) in blast)
  moreover have "\<forall>(k, v) \<in> set puts. \<exists>K. k = key_serialize K \<and> block_entry B b K v" using puts(2) by blast
  note look = lookup_batch [OF contents_sorted [OF d(1)] this puts(3), folded d'(3)]
  ultimately show ?thesis using puts(1) d'(1,2) look by blast
qed

lemma migrate_blocks_spec:
  assumes "invar d" "entries_ok B (contents d)" "codec_ok B"
  shows "\<exists>d'. migrate_blocks R B (map Ok xs) d = (d', Ok ()) \<and> invar d' \<and> entries_ok B (contents d')
    \<and> (\<forall>K. (\<exists>x \<in> set xs. K \<in> index_keys B (snd x)) \<longrightarrow>
         (\<exists>x \<in> set xs. \<exists>v. map_of (contents d') (key_serialize K) = Some v \<and> block_entry B (snd x) K v))
    \<and> (\<forall>K. (\<forall>x \<in> set xs. K \<notin> index_keys B (snd x)) \<longrightarrow>
         map_of (contents d') (key_serialize K) = map_of (contents d) (key_serialize K))"
  using assms(1,2)
proof (induction xs arbitrary: d)
  case Nil
  then show ?case by simp
next
  case (Cons x xs)
  from index_write_lookup [OF Cons.prems assms(3), of "snd x"] obtain puts d1 where
    d1: "index_puts B (snd x) = Ok puts" "db_write R d puts = Ok d1" "invar d1" "entries_ok B (contents d1)"
    and w1: "\<And>K. K \<in> index_keys B (snd x) \<Longrightarrow> \<exists>v. map_of (contents d1) (key_serialize K) = Some v \<and> block_entry B (snd x) K v"
    and k1: "\<And>K. K \<notin> index_keys B (snd x) \<Longrightarrow> map_of (contents d1) (key_serialize K) = map_of (contents d) (key_serialize K)" by blast
  from Cons.IH [OF d1(3,4)] obtain d' where
    d': "migrate_blocks R B (map Ok xs) d1 = (d', Ok ())" "invar d'" "entries_ok B (contents d')"
    and w: "\<And>K. \<exists>x \<in> set xs. K \<in> index_keys B (snd x) \<Longrightarrow>
         \<exists>x \<in> set xs. \<exists>v. map_of (contents d') (key_serialize K) = Some v \<and> block_entry B (snd x) K v"
    and k: "\<And>K. \<forall>x \<in> set xs. K \<notin> index_keys B (snd x) \<Longrightarrow>
         map_of (contents d') (key_serialize K) = map_of (contents d1) (key_serialize K)" by blast
  have "migrate_blocks R B (map Ok (x # xs)) d = (d', Ok ())" using d1(1,2) d'(1) by (cases x) simp
  moreover have "\<exists>x' \<in> set (x # xs). \<exists>v. map_of (contents d') (key_serialize K) = Some v \<and> block_entry B (snd x') K v"
    if "\<exists>x' \<in> set (x # xs). K \<in> index_keys B (snd x')" for K
  proof (cases "\<exists>x \<in> set xs. K \<in> index_keys B (snd x)")
    case True
    with w show ?thesis by (meson list.set_intros(2))
  next
    case False
    with that have "K \<in> index_keys B (snd x)" by auto
    with w1 [of K] k [of K] False show ?thesis by auto
  qed
  moreover have "map_of (contents d') (key_serialize K) = map_of (contents d) (key_serialize K)"
    if "\<forall>x' \<in> set (x # xs). K \<notin> index_keys B (snd x')" for K
    using that k [of K] k1 [of K] by simp
  ultimately show ?case using d'(2,3) by blast
qed

end

lemma version_lookup:
  assumes "kv_store R invar contents" "invar d"
  shows "store_version R d = (case map_of (contents d) (key_serialize StoreVersion) of None \<Rightarrow> Ok 0
      | Some bs \<Rightarrow> if length bs = 4 then Ok (word_of_nat (be_val bs)) else Panic)"
  unfolding store_version_def kv_store.get_contents [OF assms] by (simp split: option.split)

lemma version_bytes: "word_of_nat (be_val (be_bytes 4 (unat (v :: u32)))) = v"
proof -
  have "unat v < 256 ^ 4" using unsigned_less [of v, where 'a = nat] by simp
  then show ?thesis by (simp add: be_val_be_bytes)
qed

lemma set_version_lookup:
  fixes B :: "('b, 't) block_ops"
  assumes kv: "kv_store R invar contents" and d: "invar d" "entries_ok B (contents d)"
  shows "\<exists>d'. set_store_version R d v = Ok d' \<and> invar d' \<and> entries_ok B (contents d')
    \<and> store_version R d' = Ok v
    \<and> (\<forall>K. K \<noteq> StoreVersion \<longrightarrow> map_of (contents d') (key_serialize K) = map_of (contents d) (key_serialize K))"
proof -
  let ?v = "be_bytes 4 (unat v)"
  obtain d' where d': "db_put R d (key_serialize StoreVersion) ?v = Ok d'" "invar d'"
      "contents d' = bt_insert (key_serialize StoreVersion) ?v (contents d)"
    using kv_store.put_contents [OF kv d(1), of "key_serialize StoreVersion" ?v] by blast
  have look: "map_of (contents d') (key_serialize K) = (if K = StoreVersion then Some ?v else map_of (contents d) (key_serialize K))" for K
    using btree.get_insert [OF kv_store.contents_sorted [OF kv d(1)]] d'(3) by simp
  have "entries_ok B (contents d')" unfolding d'(3) using d(2) by (rule entries_ok_insert) simp
  moreover have "store_version R d' = Ok v" unfolding version_lookup [OF kv d'(2)] look by (simp add: version_bytes)
  ultimately show ?thesis using d'(1,2) look by (intro exI [of _ d']) (simp add: set_store_version_def)
qed

lemma store_get_height:
  assumes "kv_store R invar contents" "invar d" "entries_ok B (contents d)" "store_get R B d h = Ok (Some b)"
  shows "block_height B b = h"
  using assms(4) entries_ok_get [OF assms(3), of "KeyBlock h"] unfolding store_get_Some [OF assms(1,2)] by auto

lemma migrate_to_v1_spec:
  fixes B :: "('b, 't) block_ops"
  assumes kv: "kv_store R invar contents" and d: "invar d" "entries_ok B (contents d)" and c: "codec_ok B"
  shows "\<exists>d'. migrate_to_v1 R B d = (d', Ok ()) \<and> invar d' \<and> entries_ok B (contents d') \<and> store_version R d' = Ok 1
    \<and> (\<forall>K. K \<noteq> StoreVersion \<longrightarrow> (\<exists>h b. store_get R B d h = Ok (Some b) \<and> K \<in> index_keys B b) \<longrightarrow>
         (\<exists>h b v. store_get R B d h = Ok (Some b) \<and> map_of (contents d') (key_serialize K) = Some v \<and> block_entry B b K v))
    \<and> (\<forall>K. K \<noteq> StoreVersion \<longrightarrow> (\<forall>h b. store_get R B d h = Ok (Some b) \<longrightarrow> K \<notin> index_keys B b) \<longrightarrow>
         map_of (contents d') (key_serialize K) = map_of (contents d) (key_serialize K))"
proof -
  have C: "listable KeyBlock" by (simp add: listable_def)
  from kv_store.into_iterator_spec [OF kv d C, of "(Unbounded, Unbounded)" LowestToHighest] obtain xs where
    xs: "into_iterator R (block_from_bytes B) d (listable_list KeyBlock (Unbounded, Unbounded) LowestToHighest)
        = map (\<lambda>(h, b). Ok (KeyBlock h, b)) xs"
      "\<And>h b. (h, b) \<in> set xs \<longleftrightarrow> store_get R B d h = Ok (Some b)"
    unfolding store_get_Some [OF kv d(1), of B] by auto
  have l: "store_list R B d (Unbounded, Unbounded) LowestToHighest = map Ok xs"
    unfolding store_list_def xs(1) by (rule as_key_block_map)
  from kv_store.migrate_blocks_spec [OF kv d c, of xs] obtain d1 where
    d1: "migrate_blocks R B (map Ok xs) d = (d1, Ok ())" "invar d1" "entries_ok B (contents d1)"
    and w: "\<And>K. \<exists>x \<in> set xs. K \<in> index_keys B (snd x) \<Longrightarrow>
         \<exists>x \<in> set xs. \<exists>v. map_of (contents d1) (key_serialize K) = Some v \<and> block_entry B (snd x) K v"
    and k: "\<And>K. \<forall>x \<in> set xs. K \<notin> index_keys B (snd x) \<Longrightarrow>
         map_of (contents d1) (key_serialize K) = map_of (contents d) (key_serialize K)" by blast
  from set_version_lookup [OF kv d1(2,3), of 1] obtain d' where
    d': "set_store_version R d1 1 = Ok d'" "invar d'" "entries_ok B (contents d')" "store_version R d' = Ok 1"
      "\<And>K. K \<noteq> StoreVersion \<Longrightarrow> map_of (contents d') (key_serialize K) = map_of (contents d1) (key_serialize K)" by blast
  have "migrate_to_v1 R B d = (d', Ok ())" unfolding migrate_to_v1_def l d1(1) using d'(1) by simp
  moreover have "\<exists>h b v. store_get R B d h = Ok (Some b) \<and> map_of (contents d') (key_serialize K) = Some v \<and> block_entry B b K v"
    if K: "K \<noteq> StoreVersion" and "\<exists>h b. store_get R B d h = Ok (Some b) \<and> K \<in> index_keys B b" for K
  proof -
    from that(2) have "\<exists>x \<in> set xs. K \<in> index_keys B (snd x)" using xs(2) by (metis snd_conv)
    from w [OF this] obtain h b v where "(h, b) \<in> set xs" "map_of (contents d1) (key_serialize K) = Some v" "block_entry B b K v" by auto
    with xs(2) d'(5) [OF K] show ?thesis by auto
  qed
  moreover have "map_of (contents d') (key_serialize K) = map_of (contents d) (key_serialize K)"
    if "K \<noteq> StoreVersion" and "\<forall>h b. store_get R B d h = Ok (Some b) \<longrightarrow> K \<notin> index_keys B b" for K
    using that k [of K] d'(5) [of K] xs(2) by (metis prod.collapse)
  ultimately show ?thesis using d'(2-4) by blast
qed

lemma migrate_version_1: "store_version R d = Ok 1 \<Longrightarrow> migrate R B d = Some (d, Ok ())"
  by (subst migrate.simps) simp

lemma migrate_version_0:
  "store_version R d = Ok 0 \<Longrightarrow> migrate_to_v1 R B d = (d', Ok ()) \<Longrightarrow> store_version R d' = Ok 1
    \<Longrightarrow> migrate R B d = Some (d', Ok ())"
  by (subst migrate.simps) (simp add: migrate_version_1)

text \<open>
  C25: the migration ends. A store of version 1 is left as it is and a later version is an error.
  A store of version 0 becomes one of version 1 with the same blocks and the same heights by hash, in
  which every transaction of a stored block is found by its hash (when the hashes of the stored
  transactions identify them) and every block with transactions is in the listing of the non-empty blocks.
\<close>

theorem migrate_spec:
  assumes "kv_store R invar contents" "invar d" "entries_ok B (contents d)" "codec_ok B"
    and "inj_on (txn_hash B) {t. \<exists>h b. store_get R B d h = Ok (Some b) \<and> t \<in> set (txns B b)}"
    and "store_version R d = Ok version"
  shows "(version = 1 \<longrightarrow> migrate R B d = Some (d, Ok ()))
    \<and> (1 < version \<longrightarrow> migrate R B d = Some (d, Err (InvalidVersion version)))
    \<and> (version = 0 \<longrightarrow> (\<exists>d'. migrate R B d = Some (d', Ok ()) \<and> store_version R d' = Ok 1
        \<and> invar d' \<and> entries_ok B (contents d')
        \<and> (\<forall>h. store_get R B d' h = store_get R B d h)
        \<and> (\<forall>x. get_block_height_by_hash R d' x = get_block_height_by_hash R d x)
        \<and> (\<forall>h b. store_get R B d h = Ok (Some b) \<longrightarrow>
             (\<forall>t \<in> set (txns B b). get_txn_by_hash R B d' (txn_hash B t) = Ok (Some t))
             \<and> (txns B b \<noteq> [] \<longrightarrow> Ok (h, b) \<in> set (store_list_non_empty R B d' (Unbounded, Unbounded) LowestToHighest)))))"
proof -
  note kv = assms(1) and d = assms(2,3) and c = assms(4)
  have "migrate R B d = Some (d, Err (InvalidVersion version))" if "1 < version"
  proof -
    from that have "version \<noteq> 0" "version \<noteq> 1" by auto
    with assms(6) show ?thesis by (subst migrate.simps) simp
  qed
  moreover have "migrate R B d = Some (d, Ok ())" if "version = 1" using assms(6) that by (simp add: migrate_version_1)
  moreover have "\<exists>d'. migrate R B d = Some (d', Ok ()) \<and> store_version R d' = Ok 1
        \<and> invar d' \<and> entries_ok B (contents d')
        \<and> (\<forall>h. store_get R B d' h = store_get R B d h)
        \<and> (\<forall>x. get_block_height_by_hash R d' x = get_block_height_by_hash R d x)
        \<and> (\<forall>h b. store_get R B d h = Ok (Some b) \<longrightarrow>
             (\<forall>t \<in> set (txns B b). get_txn_by_hash R B d' (txn_hash B t) = Ok (Some t))
             \<and> (txns B b \<noteq> [] \<longrightarrow> Ok (h, b) \<in> set (store_list_non_empty R B d' (Unbounded, Unbounded) LowestToHighest)))"
    if v: "version = 0"
  proof -
    from migrate_to_v1_spec [OF kv d c] obtain d' where
      d': "migrate_to_v1 R B d = (d', Ok ())" "invar d'" "entries_ok B (contents d')" "store_version R d' = Ok 1"
      and w0: "\<forall>K. K \<noteq> StoreVersion \<longrightarrow> (\<exists>h b. store_get R B d h = Ok (Some b) \<and> K \<in> index_keys B b) \<longrightarrow>
         (\<exists>h b v. store_get R B d h = Ok (Some b) \<and> map_of (contents d') (key_serialize K) = Some v \<and> block_entry B b K v)"
      and k: "\<forall>K. K \<noteq> StoreVersion \<longrightarrow> (\<forall>h b. store_get R B d h = Ok (Some b) \<longrightarrow> K \<notin> index_keys B b) \<longrightarrow>
         map_of (contents d') (key_serialize K) = map_of (contents d) (key_serialize K)" by (elim exE conjE)
    have w: "\<exists>h b v. store_get R B d h = Ok (Some b) \<and> map_of (contents d') (key_serialize K) = Some v \<and> block_entry B b K v"
      if "K \<noteq> StoreVersion" "store_get R B d h = Ok (Some b)" "K \<in> index_keys B b" for K h b
      using w0 [THEN spec, of K] that by blast
    have m: "migrate R B d = Some (d', Ok ())" using migrate_version_0 [OF _ d'(1,4)] assms(6) v by simp
    have g: "store_get R B d' h = store_get R B d h" for h
      unfolding store_get_lookup(1) [OF kv d(1)] store_get_lookup(1) [OF kv d'(2)]
      using k [THEN spec, of "KeyBlock h"] by (simp add: index_keys_def image_iff)
    have hh: "get_block_height_by_hash R d' x = get_block_height_by_hash R d x" for x
      unfolding store_get_lookup(3) [OF kv d(1)] store_get_lookup(3) [OF kv d'(2)]
      using k [THEN spec, of "BlockHashToHeight x"] by (simp add: index_keys_def image_iff)
    have t: "get_txn_by_hash R B d' (txn_hash B t) = Ok (Some t)" if "store_get R B d h = Ok (Some b)" "t \<in> set (txns B b)" for h b t
    proof -
      have ik: "TxnByHash (txn_hash B t) \<in> index_keys B b" using that(2) by (simp add: index_keys_def)
      have ns: "TxnByHash (txn_hash B t) \<noteq> StoreVersion" by simp
      from w [OF ns that(1) ik] obtain h' b' v where
        e: "map_of (contents d') (key_serialize (TxnByHash (txn_hash B t))) = Some v" "block_entry B b' (TxnByHash (txn_hash B t)) v"
        and b': "store_get R B d h' = Ok (Some b')"
        by (elim exE conjE)
      from e(2) obtain t' where t': "t' \<in> set (txns B b')" "txn_hash B t = txn_hash B t'" "txn_from_bytes B v = Ok t'" by auto
      moreover have "t' = t" using inj_onD [OF assms(5) t'(2)] that b' t'(1) by blast
      ultimately show ?thesis unfolding store_get_lookup(2) [OF kv d'(2)] using e(1) by simp
    qed
    have n: "Ok (h, b) \<in> set (store_list_non_empty R B d' (Unbounded, Unbounded) LowestToHighest)"
      if b: "store_get R B d h = Ok (Some b)" and "txns B b \<noteq> []" for h b
    proof -
      have C: "listable KeyNonEmptyBlock" by (simp add: listable_def)
      have hb: "block_height B b = h" using store_get_height [OF kv d b] .
      then have ik: "KeyNonEmptyBlock h \<in> index_keys B b" using that(2) by (simp add: index_keys_def)
      have ns: "KeyNonEmptyBlock h \<noteq> StoreVersion" by simp
      from w [OF ns b ik] obtain h' b' v where
        b': "store_get R B d h' = Ok (Some b')" "map_of (contents d') (key_serialize (KeyNonEmptyBlock h)) = Some v"
          "block_entry B b' (KeyNonEmptyBlock h) v" by (elim exE conjE)
      from b'(3) have e: "h = block_height B b'" "block_from_bytes B v = Ok b'" by simp_all
      with store_get_height [OF kv d b'(1)] b b'(1) have "b' = b" by simp
      with e b'(2) kv_store.into_iterator_spec [OF kv d'(2,3) C, of "(Unbounded, Unbounded)" LowestToHighest] obtain xs where
        "into_iterator R (block_from_bytes B) d' (listable_list KeyNonEmptyBlock (Unbounded, Unbounded) LowestToHighest)
          = map (\<lambda>(h, b). Ok (KeyNonEmptyBlock h, b)) xs" "(h, b) \<in> set xs" by auto
      then show ?thesis unfolding store_list_non_empty_def by force
    qed
    show ?thesis using m d'(2-4) g hh t n by blast
  qed
  ultimately show ?thesis by blast
qed

section \<open>Keys\<close>

lemma no_list_between:
  fixes xs ys :: "u8 list"
  shows "\<not> (xs < ys \<and> ys < xs @ [0])"
proof (induction xs arbitrary: ys)
  case Nil
  then show ?case by (cases ys) auto
next
  case (Cons x xs)
  then show ?case by (cases ys) auto
qed

text \<open>
  Keys. Decoding inverts encoding; byte order is height order within the two listed kinds of
  keys; nothing lies strictly between a key and its immediate successor. Decoding fails exactly on the
  empty string and on unknown kinds, and panics exactly on truncated keys.
\<close>

theorem key_codec_spec:
  "key_deserialize (key_serialize k) = Ok k
   \<and> (key_serialize (KeyBlock a) < key_serialize (KeyBlock b) \<longleftrightarrow> a < b)
   \<and> (key_serialize (KeyNonEmptyBlock a) < key_serialize (KeyNonEmptyBlock b) \<longleftrightarrow> a < b)
   \<and> key_serialize k < serialize_immediate_successor k
   \<and> \<not> (key_serialize k < bs \<and> bs < serialize_immediate_successor k)
   \<and> (key_deserialize bs = Err e \<longleftrightarrow> e = InvalidKey \<and> (bs = [] \<or> 6 < hd bs))
   \<and> (key_deserialize bs = Panic \<longleftrightarrow>
        (\<exists>kind r. bs = kind # r \<and> (kind \<in> {0, 6} \<and> length r < 8 \<or> kind \<in> {2, 4} \<and> length r < 32)))"
proof -
  have "6 < kind \<longleftrightarrow> kind \<noteq> 0 \<and> kind \<noteq> 1 \<and> kind \<noteq> 2 \<and> kind \<noteq> 3 \<and> kind \<noteq> 4 \<and> kind \<noteq> 5 \<and> kind \<noteq> 6" for kind :: u8
  proof -
    have "unat kind \<le> 6 \<longleftrightarrow> unat kind \<in> {0, 1, 2, 3, 4, 5, 6}" by auto
    also have "\<dots> \<longleftrightarrow> kind \<in> {0, 1, 2, 3, 4, 5, 6}" by (auto simp: word_unat_eq_iff)
    finally show ?thesis by (auto simp: word_less_nat_alt word_le_nat_alt)
  qed
  note kinds = this
  have "key_deserialize bs = Err e \<longleftrightarrow> e = InvalidKey \<and> (bs = [] \<or> 6 < hd bs)"
    by (cases bs) (auto simp: key_deserialize_def key_height_deserialize_def slice0_def kinds)
  moreover have "key_deserialize bs = Panic \<longleftrightarrow>
        (\<exists>kind r. bs = kind # r \<and> (kind \<in> {0, 6} \<and> length r < 8 \<or> kind \<in> {2, 4} \<and> length r < 32))"
    by (cases bs) (auto simp: key_deserialize_def key_height_deserialize_def slice0_def)
  moreover have "xs < xs @ [0]" for xs :: bytes by (induction xs) auto
  ultimately show ?thesis
    using no_list_between [of "key_serialize k" bs] by (simp add: key_serialize.simps serialize_immediate_successor_def)
qed

section \<open>Instances\<close>

text \<open>
  A small block type: a byte string whose first byte is its height and whose other bytes are its
  transactions.
\<close>

definition byte_blocks :: "(bytes, u8) block_ops" where
  "byte_blocks =
     \<lparr>block_height = (\<lambda>b. case b of [] \<Rightarrow> 0 | x # _ \<Rightarrow> ucast x),
      block_hash = hash_of_bytes,
      txns = tl,
      txn_hash = (\<lambda>t. ucast t),
      block_to_bytes = Ok,
      block_from_bytes = Ok,
      txn_to_bytes = (\<lambda>t. Ok [t]),
      txn_from_bytes = (\<lambda>bs. case bs of [t] \<Rightarrow> Ok t | _ \<Rightarrow> Err Deserialize)\<rparr>"

lemma byte_blocks_codec: "codec_ok byte_blocks"
  by (simp add: codec_ok_def byte_blocks_def)

lemma byte_blocks_inj: "inj (txn_hash byte_blocks)"
proof (rule injI)
  fix x y :: u8
  assume "txn_hash byte_blocks x = txn_hash byte_blocks y"
  then have "unat (ucast x :: 256 word) = unat (ucast y :: 256 word)" by (simp add: byte_blocks_def)
  moreover have "unat (ucast z :: 256 word) = unat z" for z :: u8
    using unsigned_less [of z, where 'a = nat] by (simp add: unsigned_ucast_eq take_bit_nat_eq_self)
  ultimately show "x = y" by (simp add: word_unat_eq_iff)
qed

lemma one_block: "bt_ok [(key_serialize (KeyBlock 5), [5, 1, 2])]"
  "entries_ok byte_blocks [(key_serialize (KeyBlock 5), [5, 1, 2])]"
proof -
  show "bt_ok [(key_serialize (KeyBlock 5), [5, 1, 2])]" by (simp add: bt_ok_def bt_keys_def)
  have "value_ok byte_blocks (KeyBlock 5) [5, 1, 2]" by (simp add: byte_blocks_def)
  then show "entries_ok byte_blocks [(key_serialize (KeyBlock 5), [5, 1, 2])]"
    by (auto simp: entries_ok_def intro!: exI [of _ "KeyBlock 5"])
qed

theorem store_set_spec_witness:
  "\<exists>d'. store_set mem_rocksdb byte_blocks [] [5, 1, 2] = Ok d'
     \<and> store_get mem_rocksdb byte_blocks d' 5 = Ok (Some [5, 1, 2])
     \<and> get_txn_by_hash mem_rocksdb byte_blocks d' 2 = Ok (Some 2)
     \<and> get_max_height mem_rocksdb d' = Ok (Some 5)"
proof -
  have "inj_on (txn_hash byte_blocks) (set (txns byte_blocks [5, 1, 2]))" using byte_blocks_inj by (rule inj_on_subset) simp
  moreover have "block_height byte_blocks [5, 1, 2] = 5" "2 \<in> set (txns byte_blocks [5, 1, 2])" "txn_hash byte_blocks 2 = 2"
    by (simp_all add: byte_blocks_def)
  moreover have "get_max_height mem_rocksdb [] = Ok None" by (simp add: get_max_height_def mem_rocksdb_def)
  moreover have "entries_ok byte_blocks []" by (simp add: entries_ok_def)
  ultimately show ?thesis
    using store_set_spec [OF mem.kv_store_axioms, of "[]" byte_blocks "[5, 1, 2]"] byte_blocks_codec by force
qed

theorem store_list_spec_witness:
  "\<exists>xs. store_list mem_rocksdb byte_blocks [(key_serialize (KeyBlock 5), [5, 1, 2])] (Included 3, Unbounded) HighestToLowest = map Ok xs
     \<and> (5, [5, 1, 2]) \<in> set xs"
proof -
  have "store_get mem_rocksdb byte_blocks [(key_serialize (KeyBlock 5), [5, 1, 2])] 5 = Ok (Some [5, 1, 2])"
    by (simp add: store_get_def mem_rocksdb_def byte_blocks_def)
  with store_list_spec [OF mem.kv_store_axioms one_block, of "(Included 3, Unbounded)" HighestToLowest]
  show ?thesis by auto
qed

theorem store_list_paginated_spec_witness:
  "\<exists>L. store_list mem_rocksdb byte_blocks [(key_serialize (KeyBlock 5), [5, 1, 2])] (Unbounded, Unbounded) LowestToHighest = map Ok L
     \<and> store_list_paginated mem_rocksdb byte_blocks [(key_serialize (KeyBlock 5), [5, 1, 2])]
          (Some (ChoiceBefore (Before 7))) LowestToHighest 10
        = Ok (map Ok (page LowestToHighest (Some (ChoiceBefore (Before 7))) 10 L))"
  using store_list_paginated_spec [OF mem.kv_store_axioms one_block] .

theorem migrate_spec_witness:
  "\<exists>d'. migrate mem_rocksdb byte_blocks [(key_serialize (KeyBlock 5), [5, 1, 2])] = Some (d', Ok ())
     \<and> store_version mem_rocksdb d' = Ok 1
     \<and> get_txn_by_hash mem_rocksdb byte_blocks d' 2 = Ok (Some 2)
     \<and> Ok (5, [5, 1, 2]) \<in> set (store_list_non_empty mem_rocksdb byte_blocks d' (Unbounded, Unbounded) LowestToHighest)"
proof -
  have "store_version mem_rocksdb [(key_serialize (KeyBlock 5), [5, 1, 2])] = Ok 0"
    by (simp add: store_version_def mem_rocksdb_def)
  from migrate_spec [OF mem.kv_store_axioms one_block byte_blocks_codec inj_on_subset [OF byte_blocks_inj subset_UNIV] this] obtain d' where
    d': "migrate mem_rocksdb byte_blocks [(key_serialize (KeyBlock 5), [5, 1, 2])] = Some (d', Ok ())" "store_version mem_rocksdb d' = Ok 1"
    and b: "\<forall>h b. store_get mem_rocksdb byte_blocks [(key_serialize (KeyBlock 5), [5, 1, 2])] h = Ok (Some b) \<longrightarrow>
        (\<forall>t \<in> set (txns byte_blocks b). get_txn_by_hash mem_rocksdb byte_blocks d' (txn_hash byte_blocks t) = Ok (Some t))
        \<and> (txns byte_blocks b \<noteq> [] \<longrightarrow>
            Ok (h, b) \<in> set (store_list_non_empty mem_rocksdb byte_blocks d' (Unbounded, Unbounded) LowestToHighest))" by auto
  have "store_get mem_rocksdb byte_blocks [(key_serialize (KeyBlock 5), [5, 1, 2])] 5 = Ok (Some [5, 1, 2])"
    by (simp add: store_get_def mem_rocksdb_def byte_blocks_def)
  from b [rule_format, OF this] d' have
    "\<forall>t \<in> set (txns byte_blocks [5, 1, 2]). get_txn_by_hash mem_rocksdb byte_blocks d' (txn_hash byte_blocks t) = Ok (Some t)"
    "Ok (5, [5, 1, 2]) \<in> set (store_list_non_empty mem_rocksdb byte_blocks d' (Unbounded, Unbounded) LowestToHighest)"
    by (simp_all add: byte_blocks_def)
  moreover have "2 \<in> set (txns byte_blocks [5, 1, 2])" "txn_hash byte_blocks 2 = 2" by (simp_all add: byte_blocks_def)
  ultimately show ?thesis using d' by fastforce
qed

end
