(* ===== verification/Mempool.thy ===== *)
theory Mempool
  imports Prelude "HOL-Library.Multiset"
begin

text \<open>
  The pool of pending transactions (\<^verbatim>\<open>pkg/node/src/mempool.rs\<close>). A transaction waits in the pool or is
  leased to a proposal; committing a lease removes the committed transactions, answers the requests
  that wait for them and returns the other leased ones to the front of the pool.

  A \<^verbatim>\<open>HashSet\<close> of keys is a list without duplicates; the order in which \<^verbatim>\<open>free\<close> iterates it is the
  argument \<open>shuffle\<close>. The \<^verbatim>\<open>oneshot\<close> senders are tokens; what happens to them (a result sent, or the
  sender dropped without one) is the list of signals that an operation returns.
\<close>

record ('v, 'c, 's) MempoolTxn =
  mtxn :: 'v
  msender :: "'s option"
  mchanges :: "'c list"

record ('k, 'v, 'l, 'c, 's) MempoolState =
  mp_txns :: "('k, ('v, 'c, 's) MempoolTxn) hashmap"
  mp_pool :: "'k list"
  mp_leased :: "('l, 'k list) hashmap"

datatype ('s, 'r) signal = Sent 's 'r | Dropped 's

definition mempool_default :: "('k, 'v, 'l, 'c, 's) MempoolState" where
  "mempool_default = \<lparr>mp_txns = [], mp_pool = [], mp_leased = []\<rparr>"

text \<open>The internal \<^verbatim>\<open>_add\<close>; the second component lists the senders that it drops.\<close>

definition mempool_add_inner ::
    "'k \<Rightarrow> 'v \<Rightarrow> 'c list \<Rightarrow> 's option \<Rightarrow> ('k, 'v, 'l, 'c, 's) MempoolState
      \<Rightarrow> ('k, 'v, 'l, 'c, 's) MempoolState \<times> 's list" where
  "mempool_add_inner key txn changes sender st =
     (if map_of (mp_txns st) key \<noteq> None
      then (st, (case sender of Some s \<Rightarrow> [s] | None \<Rightarrow> []))
      else
        (st\<lparr>mp_txns := AList.update key \<lparr>mtxn = txn, msender = sender, mchanges = changes\<rparr> (mp_txns st),
            mp_pool := mp_pool st @ [key]\<rparr>, []))"

definition mempool_add ::
    "'k \<Rightarrow> 'v \<Rightarrow> 'c list \<Rightarrow> ('k, 'v, 'l, 'c, 's) MempoolState \<Rightarrow> ('k, 'v, 'l, 'c, 's) MempoolState" where
  "mempool_add key txn changes st = fst (mempool_add_inner key txn changes None st)"

text \<open>
  \<^verbatim>\<open>add_wait\<close> registers a fresh sender and then waits for it: the answer is what is sent to it, a
  panic (\<^verbatim>\<open>expect("recv error")\<close>) when it is dropped, and \<open>None\<close> while neither has happened.
\<close>

definition mempool_add_wait ::
    "'k \<Rightarrow> 'v \<Rightarrow> 'c list \<Rightarrow> 's \<Rightarrow> ('k, 'v, 'l, 'c, 's) MempoolState
      \<Rightarrow> ('k, 'v, 'l, 'c, 's) MempoolState \<times> ('s, 'r) signal list" where
  "mempool_add_wait key txn changes s st = apsnd (map Dropped) (mempool_add_inner key txn changes (Some s) st)"

fun recv_await :: "'s \<Rightarrow> ('s, 'r) signal list \<Rightarrow> (unit, 'r) outcome option" where
  "recv_await s [] = None"
| "recv_await s (Sent s' r # sigs) = (if s' = s then Some (Ok r) else recv_await s sigs)"
| "recv_await s (Dropped s' # sigs) = (if s' = s then Some Panic else recv_await s sigs)"

definition mempool_free ::
    "('k list \<Rightarrow> 'k list) \<Rightarrow> 'l \<Rightarrow> ('k, 'v, 'l, 'c, 's) MempoolState \<Rightarrow> ('k, 'v, 'l, 'c, 's) MempoolState" where
  "mempool_free shuffle lease st =
     (let keys = (case map_of (mp_leased st) lease of Some ks \<Rightarrow> ks | None \<Rightarrow> [])
      in st\<lparr>mp_leased := AList.delete lease (mp_leased st),
            mp_pool := fold (\<lambda>k pool. k # pool) (shuffle keys) (mp_pool st)\<rparr>)"

definition commit_key ::
    "'l \<Rightarrow> 'k \<times> 'r \<Rightarrow> ('k, 'v, 'l, 'c, 's) MempoolState \<Rightarrow> ('k, 'v, 'l, 'c, 's) MempoolState \<times> ('s, 'r) signal list" where
  "commit_key lease kr st =
     (let (key, result) = kr;
          signals = (case map_of (mp_txns st) key of
                       Some t \<Rightarrow> (case msender t of Some s \<Rightarrow> [Sent s result] | None \<Rightarrow> [])
                     | None \<Rightarrow> []);
          leased = (case map_of (mp_leased st) lease of
                      Some ks \<Rightarrow> AList.update lease (removeAll key ks) (mp_leased st)
                    | None \<Rightarrow> mp_leased st);
          pool = (case position (\<lambda>x. x = key) (mp_pool st) of
                    Some pos \<Rightarrow> take pos (mp_pool st) @ drop (Suc pos) (mp_pool st)
                  | None \<Rightarrow> mp_pool st)
      in (st\<lparr>mp_txns := AList.delete key (mp_txns st), mp_leased := leased, mp_pool := pool\<rparr>, signals))"

fun commit_keys ::
    "'l \<Rightarrow> ('k \<times> 'r) list \<Rightarrow> ('k, 'v, 'l, 'c, 's) MempoolState \<Rightarrow> ('k, 'v, 'l, 'c, 's) MempoolState \<times> ('s, 'r) signal list" where
  "commit_keys lease [] st = (st, [])"
| "commit_keys lease (kr # krs) st =
     (let (st1, sigs1) = commit_key lease kr st;
          (st2, sigs2) = commit_keys lease krs st1
      in (st2, sigs1 @ sigs2))"

definition mempool_commit ::
    "('k list \<Rightarrow> 'k list) \<Rightarrow> 'l \<Rightarrow> ('k \<times> 'r) list \<Rightarrow> ('k, 'v, 'l, 'c, 's) MempoolState
      \<Rightarrow> ('k, 'v, 'l, 'c, 's) MempoolState \<times> ('s, 'r) signal list" where
  "mempool_commit shuffle lease keys_with_results st =
     (let (st', sigs) = commit_keys lease keys_with_results st in (mempool_free shuffle lease st', sigs))"

definition lease_insert :: "'l \<Rightarrow> 'k \<Rightarrow> ('l, 'k list) hashmap \<Rightarrow> ('l, 'k list) hashmap" where
  "lease_insert lease key leased =
     (let ks = (case map_of leased lease of Some ks \<Rightarrow> ks | None \<Rightarrow> [])
      in AList.update lease (if key \<in> set ks then ks else ks @ [key]) leased)"

fun lease_txns :: "'l \<Rightarrow> 'k list \<Rightarrow> ('k, 'v, 'l, 'c, 's) MempoolState \<Rightarrow> ('k, 'v, 'l, 'c, 's) MempoolState" where
  "lease_txns lease [] st = st"
| "lease_txns lease (key # keys) st =
     lease_txns lease keys
       (st\<lparr>mp_pool := (case position (\<lambda>x. x = key) (mp_pool st) of
                         Some p \<Rightarrow> take p (mp_pool st) @ drop (Suc p) (mp_pool st)
                       | None \<Rightarrow> mp_pool st),
           mp_leased := lease_insert lease key (mp_leased st)\<rparr>)"

text \<open>
  The loop of \<^verbatim>\<open>lease_batch\<close> over the pool: it returns the rest of the pool, the leases, the leased
  transactions and the discarded keys.
\<close>

fun lease_loop ::
    "('k, ('v, 'c, 's) MempoolTxn) hashmap \<Rightarrow> 'l \<Rightarrow> nat \<Rightarrow> 'k list \<Rightarrow> ('l, 'k list) hashmap
      \<Rightarrow> ('k \<times> 'v) list \<Rightarrow> 'k list \<Rightarrow> 'c set
      \<Rightarrow> (unit, 'k list \<times> ('l, 'k list) hashmap \<times> ('k \<times> 'v) list \<times> 'k list) outcome" where
  "lease_loop ts lease max_count [] leased txns discard conflicts = Ok ([], leased, txns, discard)"
| "lease_loop ts lease max_count (key # pool) leased txns discard conflicts =
     (case map_of ts key of
        None \<Rightarrow> Panic
      | Some t \<Rightarrow>
          if list_ex (\<lambda>c. c \<in> conflicts) (mchanges t)
          then lease_loop ts lease max_count pool leased txns (discard @ [key]) conflicts
          else
            (let leased' = lease_insert lease key leased;
                 txns' = txns @ [(key, mtxn t)]
             in if length txns' \<ge> max_count then Ok (pool, leased', txns', discard)
                else lease_loop ts lease max_count pool leased' txns' discard (conflicts \<union> set (mchanges t))))"

definition lease_batch ::
    "'l \<Rightarrow> nat \<Rightarrow> ('k, 'v, 'l, 'c, 's) MempoolState
      \<Rightarrow> (unit, ('k, 'v, 'l, 'c, 's) MempoolState \<times> ('k \<times> 'v) list) outcome" where
  "lease_batch lease max_count st =
     omap (\<lambda>(pool, leased, txns, discard). (st\<lparr>mp_pool := pool @ discard, mp_leased := leased\<rparr>, txns))
       (lease_loop (mp_txns st) lease max_count (mp_pool st) (mp_leased st) [] [] {})"

section \<open>Invariant\<close>

text \<open>Every key of a transaction is in the pool or in one lease, once, and there are no other keys.\<close>

definition held :: "('k, 'v, 'l, 'c, 's) MempoolState \<Rightarrow> 'k list" where
  "held st = mp_pool st @ concat (map snd (mp_leased st))"

definition mempool_ok :: "('k, 'v, 'l, 'c, 's) MempoolState \<Rightarrow> bool" where
  "mempool_ok st \<longleftrightarrow> distinct (held st) \<and> set (held st) = dom (map_of (mp_txns st))
     \<and> distinct (map fst (mp_txns st)) \<and> distinct (map fst (mp_leased st))"

definition lease_of :: "('l, 'k list) hashmap \<Rightarrow> 'l \<Rightarrow> 'k list" where
  "lease_of leased l = (case map_of leased l of Some ks \<Rightarrow> ks | None \<Rightarrow> [])"

lemma position_remove: "(case position (\<lambda>x. x = key) xs of
      Some p \<Rightarrow> take p xs @ drop (Suc p) xs | None \<Rightarrow> xs) = remove1 key xs"
  by (auto simp: position_remove1 remove1_idem split: option.split)

text \<open>How the leases change as multisets of keys.\<close>

abbreviation leased_mset :: "('l, 'k list) hashmap \<Rightarrow> 'k multiset" where
  "leased_mset leased \<equiv> mset (concat (map snd leased))"

lemma leased_mset_delete:
  "distinct (map fst leased) \<Longrightarrow> leased_mset leased = mset (lease_of leased l) + leased_mset (AList.delete l leased)"
proof (induction leased)
  case (Cons x leased)
  then have "fst x = l \<Longrightarrow> AList.delete l leased = leased" by (auto intro: AList.delete_idem)
  with Cons show ?case by (cases x) (auto simp: lease_of_def AList.delete_eq case_prod_beta)
qed (simp add: lease_of_def)

lemma delete_update: "AList.delete l (AList.update l ks leased) = AList.delete l leased"
  by (induction leased) (auto simp: AList.delete_eq case_prod_beta)

lemma leased_mset_update:
  assumes "distinct (map fst leased)"
  shows "leased_mset (AList.update l ks leased) = mset ks + leased_mset (AList.delete l leased)"
proof -
  have "distinct (map fst (AList.update l ks leased))" using assms by (rule distinct_update)
  from leased_mset_delete [OF this, of l] show ?thesis by (simp add: lease_of_def update_conv' delete_update)
qed

lemma mset_held: "mset (held st) = mset (mp_pool st) + leased_mset (mp_leased st)"
  by (simp add: held_def)

lemma mempool_ok_iff:
  "mempool_ok st \<longleftrightarrow> mset (held st) = mset_set (dom (map_of (mp_txns st)))
     \<and> distinct (map fst (mp_txns st)) \<and> distinct (map fst (mp_leased st))"
proof -
  have "distinct (held st) \<and> set (held st) = dom (map_of (mp_txns st))
      \<longleftrightarrow> mset (held st) = mset_set (dom (map_of (mp_txns st)))"
    by (metis finite_dom_map_of finite_set_mset_mset_set mset_set_set set_mset_mset distinct_count_atmost_1
        count_mset_set' mset_eq_imp_distinct_iff finite_distinct_list)
  then show ?thesis by (auto simp: mempool_ok_def)
qed

lemma lease_insert_spec:
  assumes "distinct (map fst leased)" "key \<notin># leased_mset leased"
  shows "leased_mset (lease_insert l key leased) = {#key#} + leased_mset leased"
    and "distinct (map fst (lease_insert l key leased))"
    and "lease_of (lease_insert l key leased) l' = (if l' = l then lease_of leased l @ [key] else lease_of leased l')"
proof -
  have "key \<notin> set (lease_of leased l)"
    using assms(2) unfolding leased_mset_delete [OF assms(1), of l] by auto
  then have eq: "lease_insert l key leased = AList.update l (lease_of leased l @ [key]) leased"
    by (auto simp: lease_insert_def lease_of_def Let_def split: option.splits)
  show "leased_mset (lease_insert l key leased) = {#key#} + leased_mset leased"
    unfolding eq leased_mset_update [OF assms(1)] leased_mset_delete [OF assms(1), of l] by simp
  show "distinct (map fst (lease_insert l key leased))" unfolding eq using assms(1) by (rule distinct_update)
  show "lease_of (lease_insert l key leased) l' = (if l' = l then lease_of leased l @ [key] else lease_of leased l')"
    unfolding eq by (simp add: lease_of_def update_conv')
qed

definition changes_of :: "('k, ('v, 'c, 's) MempoolTxn) hashmap \<Rightarrow> 'k \<Rightarrow> 'c set" where
  "changes_of ts k = (case map_of ts k of Some t \<Rightarrow> set (mchanges t) | None \<Rightarrow> {})"

lemma lease_loop_spec:
  assumes "distinct (map fst leased)" "set pool \<subseteq> dom (map_of ts)" "distinct pool"
    and "\<forall>k \<in> set pool. k \<notin># leased_mset leased" "txns = [] \<or> length txns < max_count"
  shows "\<exists>pool' leased' new dis. lease_loop ts lease max_count pool leased txns discard conflicts
      = Ok (pool', leased', txns @ new, discard @ dis)
    \<and> mset pool = mset pool' + mset (map fst new) + mset dis
    \<and> leased_mset leased' = leased_mset leased + mset (map fst new) \<and> distinct (map fst leased')
    \<and> (\<forall>l. lease_of leased' l = (if l = lease then lease_of leased l @ map fst new else lease_of leased l))
    \<and> (\<forall>(k, v) \<in> set new. map_option mtxn (map_of ts k) = Some v \<and> changes_of ts k \<inter> conflicts = {})
    \<and> sorted_wrt (\<lambda>x y. changes_of ts (fst x) \<inter> changes_of ts (fst y) = {}) new
    \<and> length (txns @ new) \<le> max 1 max_count
    \<and> (\<forall>k \<in> set dis. changes_of ts k \<inter> (conflicts \<union> (\<Union>x \<in> set new. changes_of ts (fst x))) \<noteq> {})
    \<and> (pool' = [] \<or> max_count \<le> length (txns @ new))"
  using assms
proof (induction pool arbitrary: leased txns discard conflicts)
  case Nil
  then show ?case by (intro exI [of _ "[]"] exI [of _ leased]) auto
next
  case (Cons key pool)
  from Cons.prems(2) obtain t where t: "map_of ts key = Some t" by auto
  then have ch: "changes_of ts key = set (mchanges t)" by (simp add: changes_of_def)
  show ?case
  proof (cases "list_ex (\<lambda>c. c \<in> conflicts) (mchanges t)")
    case True
    then have "changes_of ts key \<inter> conflicts \<noteq> {}" by (auto simp: ch list_ex_iff)
    moreover from Cons.prems have "set pool \<subseteq> dom (map_of ts)" "distinct pool" "\<forall>k \<in> set pool. k \<notin># leased_mset leased" by auto
    from Cons.IH [OF Cons.prems(1) this Cons.prems(5), of "discard @ [key]" conflicts] obtain pool' leased' new dis where
      "lease_loop ts lease max_count pool leased txns (discard @ [key]) conflicts = Ok (pool', leased', txns @ new, (discard @ [key]) @ dis)"
      "mset pool = mset pool' + mset (map fst new) + mset dis"
      "leased_mset leased' = leased_mset leased + mset (map fst new)" "distinct (map fst leased')"
      "\<forall>l. lease_of leased' l = (if l = lease then lease_of leased l @ map fst new else lease_of leased l)"
      "\<forall>(k, v) \<in> set new. map_option mtxn (map_of ts k) = Some v \<and> changes_of ts k \<inter> conflicts = {}"
      "sorted_wrt (\<lambda>x y. changes_of ts (fst x) \<inter> changes_of ts (fst y) = {}) new"
      "length (txns @ new) \<le> max 1 max_count"
      "\<forall>k \<in> set dis. changes_of ts k \<inter> (conflicts \<union> (\<Union>x \<in> set new. changes_of ts (fst x))) \<noteq> {}"
      "pool' = [] \<or> max_count \<le> length (txns @ new)" by (elim exE conjE)
    ultimately show ?thesis using True t
      by (intro exI [of _ pool'] exI [of _ leased'] exI [of _ new] exI [of _ "key # dis"] conjI) auto
  next
    case False
    then have free: "changes_of ts key \<inter> conflicts = {}" by (auto simp: ch list_ex_iff)
    let ?leased = "lease_insert lease key leased" and ?x = "(key, mtxn t)"
    have "key \<notin># leased_mset leased" using Cons.prems(4) by simp
    note ins = lease_insert_spec [OF Cons.prems(1) this]
    show ?thesis
    proof (cases "max_count \<le> length (txns @ [?x])")
      case True
      with Cons.prems(5) have "length (txns @ [?x]) \<le> max 1 max_count" by auto
      moreover have "lease_loop ts lease max_count (key # pool) leased txns discard conflicts = Ok (pool, ?leased, txns @ [?x], discard)"
        using False True t by (simp add: Let_def)
      ultimately show ?thesis using t free ins True
        by (intro exI [of _ pool] exI [of _ ?leased] exI [of _ "[?x]"] exI [of _ "[]"] conjI) auto
    next
      case less: False
      have h4: "\<forall>k \<in> set pool. k \<notin># leased_mset ?leased" using Cons.prems(3,4) ins(1) by auto
      have h: "set pool \<subseteq> dom (map_of ts)" "distinct pool" "txns @ [?x] = [] \<or> length (txns @ [?x]) < max_count"
        using Cons.prems(2,3) less by auto
      obtain pool' leased' new dis where IH:
        "lease_loop ts lease max_count pool ?leased (txns @ [?x]) discard (conflicts \<union> set (mchanges t))
          = Ok (pool', leased', (txns @ [?x]) @ new, discard @ dis)"
        "mset pool = mset pool' + mset (map fst new) + mset dis"
        "leased_mset leased' = leased_mset ?leased + mset (map fst new)" "distinct (map fst leased')"
        "\<forall>l. lease_of leased' l = (if l = lease then lease_of ?leased l @ map fst new else lease_of ?leased l)"
        "\<forall>(k, v) \<in> set new. map_option mtxn (map_of ts k) = Some v \<and> changes_of ts k \<inter> (conflicts \<union> set (mchanges t)) = {}"
        "sorted_wrt (\<lambda>x y. changes_of ts (fst x) \<inter> changes_of ts (fst y) = {}) new"
        "length ((txns @ [?x]) @ new) \<le> max 1 max_count"
        "\<forall>k \<in> set dis. changes_of ts k \<inter> ((conflicts \<union> set (mchanges t)) \<union> (\<Union>x \<in> set new. changes_of ts (fst x))) \<noteq> {}"
        "pool' = [] \<or> max_count \<le> length ((txns @ [?x]) @ new)"
        using Cons.IH [OF ins(2) h(1,2) h4 h(3), of discard "conflicts \<union> set (mchanges t)"] by (elim exE conjE)
      have "lease_loop ts lease max_count (key # pool) leased txns discard conflicts = Ok (pool', leased', txns @ ?x # new, discard @ dis)"
        using False less t IH(1) by (simp add: Let_def)
      moreover have "sorted_wrt (\<lambda>x y. changes_of ts (fst x) \<inter> changes_of ts (fst y) = {}) (?x # new)"
        using IH(6,7) unfolding sorted_wrt.simps ch fst_conv by (auto dest!: bspec)
      moreover have "\<forall>(k, v) \<in> set (?x # new). map_option mtxn (map_of ts k) = Some v \<and> changes_of ts k \<inter> conflicts = {}"
        using IH(6) t free by auto
      moreover have "\<forall>k \<in> set dis. changes_of ts k \<inter> (conflicts \<union> (\<Union>x \<in> set (?x # new). changes_of ts (fst x))) \<noteq> {}"
        using IH(9) by (auto simp: ch)
      moreover have "\<forall>l. lease_of leased' l = (if l = lease then lease_of leased l @ map fst (?x # new) else lease_of leased l)"
        using IH(5) ins(3) by simp
      ultimately show ?thesis using IH(2-4,8,10) ins(1)
        by (intro exI [of _ pool'] exI [of _ leased'] exI [of _ "?x # new"] exI [of _ dis] conjI) simp_all
    qed
  qed
qed

section \<open>The operations keep the invariant\<close>

lemma mempool_ok_default: "mempool_ok mempool_default"
  by (simp add: mempool_ok_def mempool_default_def held_def)

lemma dom_update: "dom (map_of (AList.update k v m)) = insert k (dom (map_of m))"
  by (simp add: update_conv')

lemma dom_delete: "dom (map_of (AList.delete k m)) = dom (map_of m) - {k}"
  by (auto simp: delete_conv')

lemma add_ok:
  assumes "mempool_ok st"
  shows "mempool_ok (fst (mempool_add_inner key txn changes sender st))"
proof (cases "map_of (mp_txns st) key")
  case None
  let ?st = "fst (mempool_add_inner key txn changes sender st)"
  from None have new: "key \<notin> dom (map_of (mp_txns st))" by auto
  have "mset (held ?st) = {#key#} + mset (held st)" using None by (simp add: mempool_add_inner_def mset_held)
  moreover have "dom (map_of (mp_txns ?st)) = insert key (dom (map_of (mp_txns st)))"
    using None by (simp add: mempool_add_inner_def update_conv')
  ultimately show ?thesis
    using assms new None unfolding mempool_ok_iff by (simp add: mempool_add_inner_def distinct_update finite_dom_map_of)
qed (use assms in \<open>simp add: mempool_add_inner_def\<close>)

lemma free_spec:
  fixes shuffle :: "'k list \<Rightarrow> 'k list"
  assumes sh: "\<And>xs. mset (shuffle xs) = mset xs" and ok: "mempool_ok st"
  shows "mempool_ok (mempool_free shuffle lease st)"
    and "mp_pool (mempool_free shuffle lease st) = rev (shuffle (lease_of (mp_leased st) lease)) @ mp_pool st"
    and "mp_txns (mempool_free shuffle lease st) = mp_txns st"
    and "map_of (mp_leased (mempool_free shuffle lease st)) = (map_of (mp_leased st))(lease := None)"
proof -
  have push: "fold (\<lambda>k pool. k # pool) xs pool = rev xs @ pool" for xs pool :: "'k list"
    by (induction xs arbitrary: pool) auto
  show pool: "mp_pool (mempool_free shuffle lease st) = rev (shuffle (lease_of (mp_leased st) lease)) @ mp_pool st"
    by (simp add: mempool_free_def push lease_of_def Let_def)
  show txns: "mp_txns (mempool_free shuffle lease st) = mp_txns st" by (simp add: mempool_free_def Let_def)
  show leased: "map_of (mp_leased (mempool_free shuffle lease st)) = (map_of (mp_leased st))(lease := None)"
    by (simp add: mempool_free_def Let_def delete_conv')
  have d: "distinct (map fst (mp_leased st))" using ok by (simp add: mempool_ok_def)
  have l: "mp_leased (mempool_free shuffle lease st) = AList.delete lease (mp_leased st)" by (simp add: mempool_free_def Let_def)
  have "mset (held (mempool_free shuffle lease st)) = mset (held st)"
    unfolding mset_held pool l using leased_mset_delete [OF d, of lease] sh by simp
  with ok d show "mempool_ok (mempool_free shuffle lease st)"
    unfolding mempool_ok_iff txns by (simp add: l distinct_delete)
qed

lemma commit_key_ok:
  assumes ok: "mempool_ok st" and other: "\<forall>l \<noteq> lease. key \<notin> set (lease_of (mp_leased st) l)"
  shows "mempool_ok (fst (commit_key lease (key, r) st))"
    and "dom (map_of (mp_txns (fst (commit_key lease (key, r) st)))) = dom (map_of (mp_txns st)) - {key}"
    and "lease_of (mp_leased (fst (commit_key lease (key, r) st))) l
      = (if l = lease then removeAll key (lease_of (mp_leased st) l) else lease_of (mp_leased st) l)"
    and "mp_pool (fst (commit_key lease (key, r) st)) = removeAll key (mp_pool st)"
proof -
  let ?st = "fst (commit_key lease (key, r) st)" and ?L = "mp_leased st"
  have d: "distinct (map fst ?L)" "distinct (held st)" using ok by (simp_all add: mempool_ok_def)
  show dom: "dom (map_of (mp_txns ?st)) = dom (map_of (mp_txns st)) - {key}"
    by (simp add: commit_key_def Let_def dom_delete)
  have leased: "mp_leased ?st = (if map_of ?L lease = None then ?L else AList.update lease (removeAll key (lease_of ?L lease)) ?L)"
    by (auto simp: commit_key_def Let_def lease_of_def)
  show "lease_of (mp_leased ?st) l = (if l = lease then removeAll key (lease_of ?L l) else lease_of ?L l)"
    unfolding leased by (auto simp: lease_of_def update_conv')
  have "mp_pool ?st = remove1 key (mp_pool st)" by (simp add: commit_key_def Let_def position_remove)
  with d(2) show pool: "mp_pool ?st = removeAll key (mp_pool st)" by (simp add: held_def distinct_remove1_removeAll)
  have lm: "leased_mset (mp_leased ?st) = filter_mset (\<lambda>k. k \<noteq> key) (leased_mset ?L)"
  proof -
    have "key \<notin># leased_mset (AList.delete lease ?L)"
    proof
      assume "key \<in># leased_mset (AList.delete lease ?L)"
      then obtain l ks where lk: "(l, ks) \<in> set (AList.delete lease ?L)" "key \<in> set ks" by auto
      then have "map_of ?L l = Some ks" "l \<noteq> lease" using d(1) by (auto simp: AList.delete_eq)
      with other lk(2) show False by (auto simp: lease_of_def)
    qed
    then have fd: "filter_mset (\<lambda>k. k \<noteq> key) (leased_mset (AList.delete lease ?L)) = leased_mset (AList.delete lease ?L)"
      by (auto simp: filter_mset_eq_conv)
    have "mset (removeAll key ks) = filter_mset (\<lambda>k. k \<noteq> key) (mset ks)" for ks
      by (simp add: removeAll_filter_not_eq neq_commute)
    moreover have "map_of ?L lease = None \<Longrightarrow> AList.delete lease ?L = ?L"
      by (simp add: map_of_eq_None_iff AList.delete_idem)
    ultimately show ?thesis
      unfolding leased leased_mset_delete [OF d(1), of lease] filter_union_mset fd
      by (auto simp: leased_mset_update [OF d(1)] lease_of_def)
  qed
  have "mset (held ?st) = filter_mset (\<lambda>k. k \<noteq> key) (mset (held st))"
    unfolding mset_held pool lm filter_union_mset by (simp add: removeAll_filter_not_eq neq_commute)
  also have "\<dots> = mset_set (dom (map_of (mp_txns st)) - {key})"
    using ok unfolding mempool_ok_iff by (auto simp: filter_mset_mset_set finite_dom_map_of intro: arg_cong [of _ _ mset_set])
  finally show "mempool_ok ?st"
    using ok d(1) unfolding mempool_ok_iff dom leased
    by (auto simp: commit_key_def Let_def distinct_delete distinct_update)
qed

end
