(* ===== verification/Mempool_Props.thy ===== *)
theory Mempool_Props
  imports Mempool
begin

text \<open>
  The properties of the mempool. \<open>mempool_step\<close> is what a validator does with it: it adds
  transactions, leases batches and commits keys that no other lease holds (a proposal only commits
  the transactions of its own lease).
\<close>

inductive mempool_step ::
    "('k list \<Rightarrow> 'k list) \<Rightarrow> ('k, 'v, 'l, 'c, 's) MempoolState \<Rightarrow> ('s, 'r) signal list
      \<Rightarrow> ('k, 'v, 'l, 'c, 's) MempoolState \<Rightarrow> bool"
  for shuffle where
  add_step: "mempool_add_inner key txn changes sender st = (st', dropped) \<Longrightarrow> mempool_step shuffle st (map Dropped dropped) st'"
| lease_step: "lease_batch lease n st = Ok (st', txns) \<Longrightarrow> mempool_step shuffle st [] st'"
| commit_step: "\<forall>(k, r) \<in> set krs. \<forall>l \<noteq> lease. k \<notin> set (lease_of (mp_leased st) l)
    \<Longrightarrow> mempool_commit shuffle lease krs st = (st', sigs) \<Longrightarrow> mempool_step shuffle st sigs st'"

inductive mempool_run ::
    "('k list \<Rightarrow> 'k list) \<Rightarrow> ('s, 'r) signal list \<Rightarrow> ('k, 'v, 'l, 'c, 's) MempoolState \<Rightarrow> bool"
  for shuffle where
  run_start: "mempool_run shuffle [] mempool_default"
| run_step: "mempool_run shuffle sigs st \<Longrightarrow> mempool_step shuffle st sigs' st' \<Longrightarrow> mempool_run shuffle (sigs @ sigs') st'"

lemma lease_batch_total:
  assumes ok: "mempool_ok st"
  shows "\<exists>st' txns dis rest. lease_batch lease max_count st = Ok (st', txns) \<and> mempool_ok st'
    \<and> mp_txns st' = mp_txns st \<and> mp_pool st' = rest @ dis
    \<and> mset (mp_pool st) = mset (map fst txns) + mset (rest @ dis)
    \<and> (\<forall>l. lease_of (mp_leased st') l = (if l = lease then lease_of (mp_leased st) l @ map fst txns else lease_of (mp_leased st) l))
    \<and> (\<forall>(k, v) \<in> set txns. map_option mtxn (map_of (mp_txns st) k) = Some v)
    \<and> sorted_wrt (\<lambda>x y. changes_of (mp_txns st) (fst x) \<inter> changes_of (mp_txns st) (fst y) = {}) txns
    \<and> length txns \<le> max 1 max_count
    \<and> (\<forall>k \<in> set dis. changes_of (mp_txns st) k \<inter> (\<Union>x \<in> set txns. changes_of (mp_txns st) (fst x)) \<noteq> {})
    \<and> (rest = [] \<or> max_count \<le> length txns)"
proof -
  have d: "distinct (map fst (mp_leased st))" "set (mp_pool st) \<subseteq> dom (map_of (mp_txns st))" "distinct (mp_pool st)"
    "\<forall>k \<in> set (mp_pool st). k \<notin># leased_mset (mp_leased st)" "[] = [] \<or> length [] < max_count"
    using ok by (auto simp: mempool_ok_def held_def)
  from lease_loop_spec [OF d(1-4), of "[]" max_count lease "[]" "{}"] obtain pool' leased' new dis where
    l: "lease_loop (mp_txns st) lease max_count (mp_pool st) (mp_leased st) [] [] {} = Ok (pool', leased', new, dis)"
      "mset (mp_pool st) = mset pool' + mset (map fst new) + mset dis"
      "leased_mset leased' = leased_mset (mp_leased st) + mset (map fst new)" "distinct (map fst leased')"
      "\<forall>l. lease_of leased' l = (if l = lease then lease_of (mp_leased st) l @ map fst new else lease_of (mp_leased st) l)"
      "\<forall>(k, v) \<in> set new. map_option mtxn (map_of (mp_txns st) k) = Some v"
      "sorted_wrt (\<lambda>x y. changes_of (mp_txns st) (fst x) \<inter> changes_of (mp_txns st) (fst y) = {}) new"
      "length new \<le> max 1 max_count"
      "\<forall>k \<in> set dis. changes_of (mp_txns st) k \<inter> (\<Union>x \<in> set new. changes_of (mp_txns st) (fst x)) \<noteq> {}"
      "pool' = [] \<or> max_count \<le> length new" by (auto simp: case_prod_beta)
  let ?st = "st\<lparr>mp_pool := pool' @ dis, mp_leased := leased'\<rparr>"
  have "mset (held ?st) = mset (held st)" unfolding mset_held using l(2,3) by simp
  with ok l(4) have "mempool_ok ?st" unfolding mempool_ok_iff by simp
  moreover have "lease_batch lease max_count st = Ok (?st, new)" by (simp add: lease_batch_def l(1))
  ultimately show ?thesis using l(2,5-10)
    by (intro exI [of _ ?st] exI [of _ new] exI [of _ dis] exI [of _ pool'] conjI) simp_all
qed

lemma commit_keys_spec:
  assumes "mempool_ok st" "\<forall>(k, r) \<in> set krs. \<forall>l \<noteq> lease. k \<notin> set (lease_of (mp_leased st) l)"
  shows "mempool_ok (fst (commit_keys lease krs st))
    \<and> map_of (mp_txns (fst (commit_keys lease krs st))) = map_of (mp_txns st) |` (- fst ` set krs)
    \<and> (\<forall>l. lease_of (mp_leased (fst (commit_keys lease krs st))) l
        = (if l = lease then filter (\<lambda>k. k \<notin> fst ` set krs) (lease_of (mp_leased st) l) else lease_of (mp_leased st) l))
    \<and> mp_pool (fst (commit_keys lease krs st)) = filter (\<lambda>k. k \<notin> fst ` set krs) (mp_pool st)"
  using assms
proof (induction krs arbitrary: st)
  case Nil
  then show ?case by (simp add: restrict_map_def)
next
  case (Cons kr krs)
  obtain k r where kr: "kr = (k, r)" by fastforce
  let ?st = "fst (commit_key lease kr st)"
  have other: "\<forall>l \<noteq> lease. k \<notin> set (lease_of (mp_leased st) l)" using Cons.prems(2) kr by auto
  note c = commit_key_ok [OF Cons.prems(1) other, of r, folded kr]
  have prem: "\<forall>(k, r) \<in> set krs. \<forall>l \<noteq> lease. k \<notin> set (lease_of (mp_leased ?st) l)" using Cons.prems(2) c(3) by auto
  have "map_of (mp_txns ?st) = (map_of (mp_txns st))(k := None)" by (simp add: commit_key_def kr Let_def delete_conv')
  moreover have "fst (commit_keys lease (kr # krs) st) = fst (commit_keys lease krs ?st)" by (simp add: case_prod_beta Let_def)
  ultimately show ?case using Cons.IH [OF c(1) prem] c(3,4) kr
    by (auto simp: restrict_map_def fun_eq_iff removeAll_filter_not_eq conj_commute intro: filter_cong)
qed

lemma commit_signals:
  assumes "distinct (map fst krs)"
  shows "snd (commit_keys lease krs st) = concat (map (\<lambda>(k, r). case map_of (mp_txns st) k of
      Some t \<Rightarrow> (case msender t of Some s \<Rightarrow> [Sent s r] | None \<Rightarrow> []) | None \<Rightarrow> []) krs)"
  using assms
proof (induction krs arbitrary: st)
  case (Cons kr krs)
  obtain k r where kr: "kr = (k, r)" by fastforce
  let ?st = "fst (commit_key lease kr st)"
  have "\<forall>x \<in> set krs. map_of (mp_txns ?st) (fst x) = map_of (mp_txns st) (fst x)"
    using Cons.prems by (force simp: commit_key_def kr Let_def delete_conv')
  then have m: "map (\<lambda>(k, r). case map_of (mp_txns ?st) k of
      Some t \<Rightarrow> (case msender t of Some s \<Rightarrow> [Sent s r] | None \<Rightarrow> []) | None \<Rightarrow> []) krs
    = map (\<lambda>(k, r). case map_of (mp_txns st) k of
      Some t \<Rightarrow> (case msender t of Some s \<Rightarrow> [Sent s r] | None \<Rightarrow> []) | None \<Rightarrow> []) krs"
    by (simp add: case_prod_beta cong: map_cong)
  have "snd (commit_keys lease (kr # krs) st) = snd (commit_key lease kr st) @ snd (commit_keys lease krs ?st)"
    by (simp add: case_prod_beta Let_def)
  moreover have "snd (commit_keys lease krs ?st) = concat (map (\<lambda>(k, r). case map_of (mp_txns st) k of
      Some t \<Rightarrow> (case msender t of Some s \<Rightarrow> [Sent s r] | None \<Rightarrow> []) | None \<Rightarrow> []) krs)"
    using Cons.IH [of ?st] Cons.prems unfolding m by simp
  ultimately show ?case by (simp add: commit_key_def kr Let_def)
qed simp

lemma commit_spec:
  assumes "\<And>xs. mset (shuffle xs) = mset xs" "mempool_ok st"
    and "\<forall>(k, r) \<in> set krs. \<forall>l \<noteq> lease. k \<notin> set (lease_of (mp_leased st) l)"
  shows "mempool_ok (fst (mempool_commit shuffle lease krs st))"
    and "map_of (mp_txns (fst (mempool_commit shuffle lease krs st))) = map_of (mp_txns st) |` (- fst ` set krs)"
    and "mp_pool (fst (mempool_commit shuffle lease krs st))
      = rev (shuffle (filter (\<lambda>k. k \<notin> fst ` set krs) (lease_of (mp_leased st) lease))) @ filter (\<lambda>k. k \<notin> fst ` set krs) (mp_pool st)"
    and "lease_of (mp_leased (fst (mempool_commit shuffle lease krs st))) l = (if l = lease then [] else lease_of (mp_leased st) l)"
proof -
  let ?st = "fst (commit_keys lease krs st)"
  note c = commit_keys_spec [OF assms(2,3)]
  have eq: "fst (mempool_commit shuffle lease krs st) = mempool_free shuffle lease ?st"
    by (simp add: mempool_commit_def case_prod_beta Let_def)
  note f = free_spec [OF assms(1) conjunct1 [OF c], of lease]
  show "mempool_ok (fst (mempool_commit shuffle lease krs st))" using f(1) eq by simp
  show "map_of (mp_txns (fst (mempool_commit shuffle lease krs st))) = map_of (mp_txns st) |` (- fst ` set krs)"
    using f(3) c eq by simp
  show "mp_pool (fst (mempool_commit shuffle lease krs st))
      = rev (shuffle (filter (\<lambda>k. k \<notin> fst ` set krs) (lease_of (mp_leased st) lease))) @ filter (\<lambda>k. k \<notin> fst ` set krs) (mp_pool st)"
    using f(2) c eq by simp
  have "lease_of (mp_leased (mempool_free shuffle lease ?st)) l = (if l = lease then [] else lease_of (mp_leased ?st) l)"
    using f(4) by (simp add: lease_of_def)
  with c eq show "lease_of (mp_leased (fst (mempool_commit shuffle lease krs st))) l = (if l = lease then [] else lease_of (mp_leased st) l)"
    by simp
qed

text \<open>
  C27: in every state that a validator reaches, each pending transaction is in the pool or in one
  lease, exactly once, and leasing a batch never panics.
\<close>

theorem mempool_invariant:
  assumes "\<And>xs. mset (shuffle xs) = mset xs" "mempool_run shuffle sigs st"
  shows "mempool_ok st \<and> (\<exists>st' txns. lease_batch lease n st = Ok (st', txns))"
proof -
  from assms(2) have "mempool_ok st"
  proof (induction rule: mempool_run.induct)
    case run_start
    show ?case by (rule mempool_ok_default)
  next
    case (run_step sigs st sigs' st')
    from run_step.hyps(2) run_step.IH show ?case
    proof (cases rule: mempool_step.cases)
      case (add_step key txn changes sender dropped)
      with add_ok [OF run_step.IH, of key txn changes sender] show ?thesis by simp
    next
      case (lease_step lease n txns)
      with lease_batch_total [OF run_step.IH, of lease n] show ?thesis by auto
    next
      case (commit_step krs lease)
      with commit_spec(1) [OF assms(1) run_step.IH commit_step(1)] show ?thesis by (metis fst_conv)
    qed
  qed
  with lease_batch_total [OF this, of lease n] show ?thesis by blast
qed

text \<open>
  Leasing a batch. It takes transactions from the pool, at most \<open>max_count\<close> (but at least one
  from a pool that is not empty), and no two of them change the same element. Each is handed out with
  its content and moved to the lease, other leases do not change, and the pool keeps the rest: keys
  that were not reached, which happens only when the batch is full, then the keys that conflict with
  the batch.
\<close>

theorem lease_batch_spec:
  assumes "mempool_ok st"
  shows "\<exists>st' txns dis rest. lease_batch lease max_count st = Ok (st', txns) \<and> mempool_ok st'
    \<and> mp_txns st' = mp_txns st \<and> mp_pool st' = rest @ dis
    \<and> mset (mp_pool st) = mset (map fst txns) + mset (rest @ dis)
    \<and> (mp_pool st \<noteq> [] \<longrightarrow> txns \<noteq> [])
    \<and> (\<forall>l. lease_of (mp_leased st') l = (if l = lease then lease_of (mp_leased st) l @ map fst txns else lease_of (mp_leased st) l))
    \<and> (\<forall>(k, v) \<in> set txns. map_option mtxn (map_of (mp_txns st) k) = Some v)
    \<and> sorted_wrt (\<lambda>x y. changes_of (mp_txns st) (fst x) \<inter> changes_of (mp_txns st) (fst y) = {}) txns
    \<and> length txns \<le> max 1 max_count
    \<and> (\<forall>k \<in> set dis. changes_of (mp_txns st) k \<inter> (\<Union>x \<in> set txns. changes_of (mp_txns st) (fst x)) \<noteq> {})
    \<and> (rest = [] \<or> max_count \<le> length txns)"
proof -
  from lease_batch_total [OF assms, of lease max_count] obtain st' txns dis rest where
    b: "lease_batch lease max_count st = Ok (st', txns)" "mempool_ok st'"
      "mp_txns st' = mp_txns st" "mp_pool st' = rest @ dis"
      "mset (mp_pool st) = mset (map fst txns) + mset (rest @ dis)"
      "\<forall>l. lease_of (mp_leased st') l = (if l = lease then lease_of (mp_leased st) l @ map fst txns else lease_of (mp_leased st) l)"
      "\<forall>(k, v) \<in> set txns. map_option mtxn (map_of (mp_txns st) k) = Some v"
      "sorted_wrt (\<lambda>x y. changes_of (mp_txns st) (fst x) \<inter> changes_of (mp_txns st) (fst y) = {}) txns"
      "length txns \<le> max 1 max_count"
      "\<forall>k \<in> set dis. changes_of (mp_txns st) k \<inter> (\<Union>x \<in> set txns. changes_of (mp_txns st) (fst x)) \<noteq> {}"
      "rest = [] \<or> max_count \<le> length txns" by (elim exE conjE)
  have "mp_pool st \<noteq> [] \<longrightarrow> txns \<noteq> []"
  proof
    assume "mp_pool st \<noteq> []"
    then obtain k ks where pool: "mp_pool st = k # ks" by (cases "mp_pool st") auto
    then have "k \<in> set (held st)" by (simp add: held_def)
    then obtain t where t: "map_of (mp_txns st) k = Some t" using assms by (auto simp: mempool_ok_def)
    have "txns = [] \<Longrightarrow> rest = []"
    proof -
      assume "txns = []"
      show "rest = []"
      proof (cases "max_count = 0")
        case True
        with b(1) pool t show ?thesis using \<open>txns = []\<close> by (auto simp: lease_batch_def list_ex_iff Let_def)
      qed (use b(11) \<open>txns = []\<close> in simp)
    qed
    with b(5,10) pool show "txns \<noteq> []" by (cases dis) auto
  qed
  with b show ?thesis by (intro exI [of _ st'] exI [of _ txns] exI [of _ dis] exI [of _ rest] conjI) assumption+
qed

text \<open>
  Committing a lease, for keys that no other lease holds. The committed transactions are gone
  from everywhere, every request that waited for one of them is sent its result, the other leased
  transactions are back at the front of the pool and the lease is empty; other leases do not change.
\<close>

theorem mempool_commit_spec:
  assumes "\<And>xs. mset (shuffle xs) = mset xs" "mempool_ok st" "distinct (map fst krs)"
    and "\<forall>(k, r) \<in> set krs. \<forall>l \<noteq> lease. k \<notin> set (lease_of (mp_leased st) l)"
  shows "\<exists>st' front. mempool_commit shuffle lease krs st = (st',
      concat (map (\<lambda>(k, r). case map_of (mp_txns st) k of
        Some t \<Rightarrow> (case msender t of Some s \<Rightarrow> [Sent s r] | None \<Rightarrow> []) | None \<Rightarrow> []) krs))
    \<and> mempool_ok st' \<and> map_of (mp_txns st') = map_of (mp_txns st) |` (- fst ` set krs)
    \<and> mp_pool st' = front @ filter (\<lambda>k. k \<notin> fst ` set krs) (mp_pool st)
    \<and> mset front = mset (filter (\<lambda>k. k \<notin> fst ` set krs) (lease_of (mp_leased st) lease))
    \<and> (\<forall>l. lease_of (mp_leased st') l = (if l = lease then [] else lease_of (mp_leased st) l))"
proof -
  let ?st = "fst (mempool_commit shuffle lease krs st)"
  let ?front = "rev (shuffle (filter (\<lambda>k. k \<notin> fst ` set krs) (lease_of (mp_leased st) lease)))"
  note c = commit_spec [OF assms(1,2,4)]
  have "snd (mempool_commit shuffle lease krs st) = snd (commit_keys lease krs st)"
    by (simp add: mempool_commit_def case_prod_beta Let_def)
  then have "mempool_commit shuffle lease krs st = (?st,
      concat (map (\<lambda>(k, r). case map_of (mp_txns st) k of
        Some t \<Rightarrow> (case msender t of Some s \<Rightarrow> [Sent s r] | None \<Rightarrow> []) | None \<Rightarrow> []) krs))"
    by (metis commit_signals [OF assms(3)] prod.collapse)
  with c assms(1) show ?thesis by (intro exI [of _ ?st] exI [of _ ?front] conjI) simp_all
qed

text \<open>
  What a client that submits a transaction and waits gets. When the transaction is new, the
  commit of its key answers the client with the result; when its key is already pending, the sender
  is dropped and the waiting call panics.
\<close>

theorem add_wait_outcome:
  assumes "\<forall>t \<in> ran (map_of (mp_txns st)). msender t \<noteq> Some s" "distinct (map fst krs)" "(key, r) \<in> set krs"
  shows "if map_of (mp_txns st) key = None
    then \<exists>st'. mempool_add_wait key txn changes s st = (st', []) \<and> mp_pool st' = mp_pool st @ [key]
      \<and> recv_await s (snd (mempool_commit shuffle lease krs st')) = Some (Ok r)
    else recv_await s (snd (mempool_add_wait key txn changes s st)) = Some Panic"
proof (cases "map_of (mp_txns st) key = None")
  case True
  let ?st = "fst (mempool_add_inner key txn changes (Some s) st)"
  have t: "map_of (mp_txns ?st) = (map_of (mp_txns st))(key \<mapsto> \<lparr>mtxn = txn, msender = Some s, mchanges = changes\<rparr>)"
    using True by (simp add: mempool_add_inner_def update_conv')
  have skip: "recv_await s (concat (map (\<lambda>(k, r). case map_of (mp_txns ?st) k of
        Some t \<Rightarrow> (case msender t of Some s \<Rightarrow> [Sent s r] | None \<Rightarrow> []) | None \<Rightarrow> []) krs)) = Some (Ok r)"
    using assms(2,3)
  proof (induction krs)
    case (Cons kr krs)
    obtain k r' where kr: "kr = (k, r')" by fastforce
    show ?case
    proof (cases "k = key")
      case True
      with Cons.prems kr have "r' = r" by (auto simp: rev_image_eqI)
      with True kr t show ?thesis by simp
    next
      case False
      with Cons.prems kr have IH: "distinct (map fst krs)" "(key, r) \<in> set krs" by auto
      have "msender t' \<noteq> Some s" if "map_of (mp_txns st) k = Some t'" for t' using assms(1) that by (auto simp: ran_def)
      with Cons.IH [OF IH] False kr t show ?thesis by (auto split: option.split)
    qed
  qed simp
  have "snd (mempool_commit shuffle lease krs ?st) = snd (commit_keys lease krs ?st)"
    by (simp add: mempool_commit_def case_prod_beta Let_def)
  with skip commit_signals [OF assms(2), of lease ?st] True show ?thesis
    by (simp add: mempool_add_wait_def mempool_add_inner_def)
qed (auto simp: mempool_add_wait_def mempool_add_inner_def)

section \<open>Instances\<close>

text \<open>A pool with three transactions; the first two change element 7.\<close>

definition sample_pool :: "(nat, string, nat, nat, nat) MempoolState" where
  "sample_pool = mempool_add 3 ''c'' [9] (mempool_add 2 ''b'' [7] (fst (mempool_add_inner 11 ''a'' [7, 8] (Some 40) mempool_default)))"

lemma sample_pool_ok: "mempool_ok sample_pool"
  unfolding sample_pool_def mempool_add_def by (intro add_ok mempool_ok_default)

lemma sample_pool_eq: "mp_pool sample_pool = [11, 2, 3]" "mp_leased sample_pool = []"
  "map_of (mp_txns sample_pool) 11 = Some \<lparr>mtxn = ''a'', msender = Some 40, mchanges = [7, 8]\<rparr>"
  "map_of (mp_txns sample_pool) 4 = None"
  by (simp_all add: sample_pool_def mempool_add_def mempool_add_inner_def mempool_default_def)

theorem mempool_invariant_witness:
  "\<exists>st' txns. lease_batch (5 :: nat) 2 (mempool_add 3 ''c'' [9 :: nat] (mempool_default :: (nat, string, nat, nat, nat) MempoolState)) = Ok (st', txns)"
proof -
  let ?st = "mempool_add 3 ''c'' [9 :: nat] (mempool_default :: (nat, string, nat, nat, nat) MempoolState)"
  have "mempool_add_inner 3 ''c'' [9 :: nat] None (mempool_default :: (nat, string, nat, nat, nat) MempoolState) = (?st, [])"
    by (simp add: mempool_add_def mempool_add_inner_def mempool_default_def)
  then have "mempool_step rev mempool_default (map Dropped [] :: (nat, nat) signal list) ?st" by (rule add_step)
  then have "mempool_run rev ([] @ map Dropped [] :: (nat, nat) signal list) ?st"
    by (rule run_step [OF run_start])
  from mempool_invariant [of rev, OF _ this, of 5 2] show ?thesis by simp
qed

theorem lease_batch_spec_witness:
  "\<exists>st' txns. lease_batch (5 :: nat) 2 sample_pool = Ok (st', txns) \<and> txns \<noteq> [] \<and> length txns \<le> 2 \<and> mempool_ok st'"
  using lease_batch_spec [OF sample_pool_ok, of 5 2] by (auto simp: sample_pool_eq)

theorem mempool_commit_spec_witness:
  "\<exists>st' sigs. mempool_commit rev (5 :: nat) [(11, True)] sample_pool = (st', sigs) \<and> sigs = [Sent 40 True]
    \<and> mp_pool st' = [2, 3] \<and> mempool_ok st'"
proof -
  have "\<forall>(k, r) \<in> set [(11 :: nat, True)]. \<forall>l \<noteq> 5. k \<notin> set (lease_of (mp_leased sample_pool) l)"
    by (simp add: sample_pool_eq lease_of_def)
  from mempool_commit_spec [of rev, OF _ sample_pool_ok _ this] show ?thesis
    by (auto simp: sample_pool_eq lease_of_def)
qed

theorem add_wait_outcome_witness:
  "(\<exists>st'. mempool_add_wait 4 ''d'' [5] 41 sample_pool = (st', [])
      \<and> recv_await 41 (snd (mempool_commit rev (5 :: nat) [(4, True), (11, False)] st')) = Some (Ok True))
    \<and> recv_await 41 (snd (mempool_add_wait 11 ''d'' [5] 41 sample_pool) :: (nat, bool) signal list) = Some Panic"
proof -
  have "\<forall>t \<in> ran (map_of (mp_txns sample_pool)). msender t \<noteq> Some 41"
    by (auto simp: sample_pool_def mempool_add_def mempool_add_inner_def mempool_default_def ran_def split: if_splits)
  from add_wait_outcome [OF this, of "[(4, True), (11, False)]" 4 True "''d''" "[5]" rev "5 :: nat"]
    add_wait_outcome [OF this, of "[(4, True), (11, False)]" 11 False "''d''" "[5]" rev "5 :: nat"]
  show ?thesis by (auto simp: sample_pool_eq)
qed

end
