(* ===== verification/Node_Types.thy ===== *)
theory Node_Types
  imports Element Primitives Block_Store
begin

text \<open>
  The data of the node: transactions (\<^verbatim>\<open>zk-circuits/src/data.rs\<close>, \<^verbatim>\<open>utxo/proof.rs\<close>), blocks
  (\<^verbatim>\<open>node/src/block.rs\<close>) and their stored formats (\<^verbatim>\<open>node/block_format.rs\<close>, \<^verbatim>\<open>node/txn_format.rs\<close>). Arrays of
  two elements are pairs. Keccak and the Borsh encoding of a block header are parameters.
\<close>

section \<open>Transactions\<close>

record UTXOProof =
  recent_root :: element
  mb_hash :: element
  mb_value :: element
  input_leaves :: "element \<times> element"
  output_leaves :: "element \<times> element"
  utxo_proof :: bytes

record SnarkWitnessV1 =
  sw_instances :: "element list list"
  sw_proof :: bytes

datatype SnarkWitness = SnarkV1 SnarkWitnessV1

definition snark_version :: "SnarkWitness \<Rightarrow> u64" where
  "snark_version w = (case w of SnarkV1 _ \<Rightarrow> 1)"

definition snark_upgrade_once :: "SnarkWitness \<Rightarrow> (ErrorKind, SnarkWitness) outcome" where
  "snark_upgrade_once w = Err (max_version_error 1)"

abbreviation pair_list :: "'a \<times> 'a \<Rightarrow> 'a list" where
  "pair_list p \<equiv> [fst p, snd p]"

definition utxo_new ::
    "element \<Rightarrow> element \<Rightarrow> element \<Rightarrow> element \<times> element \<Rightarrow> element \<times> element \<Rightarrow> bytes \<Rightarrow> UTXOProof" where
  "utxo_new root mbh mbv ins outs prf =
     \<lparr>recent_root = root, mb_hash = mbh, mb_value = mbv, input_leaves = ins, output_leaves = outs, utxo_proof = prf\<rparr>"

text \<open>The hash that identifies a transaction; the proof is not part of it, and the leaves are sorted.\<close>

definition utxo_hash :: "(bytes \<Rightarrow> bytes) \<Rightarrow> UTXOProof \<Rightarrow> CryptoHash" where
  "utxo_hash keccak u =
     hash_of_bytes (keccak
       (to_be_bytes (recent_root u) @ to_be_bytes (mb_hash u) @ to_be_bytes (mb_value u)
        @ concat (map to_be_bytes (sort (pair_list (input_leaves u))))
        @ concat (map to_be_bytes (sort (pair_list (output_leaves u))))))"

definition is_mint_or_burn :: "UTXOProof \<Rightarrow> bool" where
  "is_mint_or_burn u \<longleftrightarrow> mb_hash u \<noteq> NULL_HASH \<or> mb_value u \<noteq> NULL_HASH"

definition is_mint :: "UTXOProof \<Rightarrow> bool" where
  "is_mint u \<longleftrightarrow> is_mint_or_burn u \<and> list_all (\<lambda>l. l = NULL_HASH) (pair_list (input_leaves u))"

definition is_burn :: "UTXOProof \<Rightarrow> bool" where
  "is_burn u \<longleftrightarrow> is_mint_or_burn u \<and> list_all (\<lambda>l. l = NULL_HASH) (pair_list (output_leaves u))"

definition utxo_leaves :: "UTXOProof \<Rightarrow> element list" where
  "utxo_leaves u = pair_list (input_leaves u) @ pair_list (output_leaves u)"

definition utxo_instances :: "UTXOProof \<Rightarrow> element list" where
  "utxo_instances u = [recent_root u, mb_hash u, mb_value u] @ utxo_leaves u"

definition to_snark_witness :: "UTXOProof \<Rightarrow> SnarkWitness" where
  "to_snark_witness u = SnarkV1 \<lparr>sw_instances = [utxo_instances u], sw_proof = utxo_proof u\<rparr>"

text \<open>Indexing beyond the end panics.\<close>

definition index_at :: "'a list \<Rightarrow> nat \<Rightarrow> ('e, 'a) outcome" where
  "index_at xs i = (if i < length xs then Ok (xs ! i) else Panic)"

definition from_snark_witness :: "SnarkWitness \<Rightarrow> (unit, UTXOProof) outcome" where
  "from_snark_witness w =
     (case w of SnarkV1 snark \<Rightarrow>
        obind (index_at (sw_instances snark) 0) (\<lambda>instances.
        obind (index_at instances 0) (\<lambda>root.
        obind (index_at instances 1) (\<lambda>mbh.
        obind (index_at instances 2) (\<lambda>mbv.
        obind (index_at instances 3) (\<lambda>i0.
        obind (index_at instances 4) (\<lambda>i1.
        obind (index_at instances 5) (\<lambda>o0.
        obind (index_at instances 6) (\<lambda>o1.
          Ok (utxo_new root mbh mbv (i0, i1) (o0, o1) (sw_proof snark)))))))))))"

text \<open>\<open>snark_verify\<close> is the verifier of the proof system for the UTXO circuit, which may panic.\<close>

definition utxo_verify :: "(SnarkWitnessV1 \<Rightarrow> ('e, bool) outcome) \<Rightarrow> UTXOProof \<Rightarrow> ('e, bool) outcome" where
  "utxo_verify snark_verify u = (case to_snark_witness u of SnarkV1 sw \<Rightarrow> snark_verify sw)"

section \<open>Blocks\<close>

record BlockHeader =
  height :: BlockHeight
  last_block_hash :: CryptoHash
  epoch_id :: u64
  last_final_block_hash :: CryptoHash
  approvals :: "Signature list"

record BlockState =
  state_root_hash :: element
  state_txns :: "UTXOProof list"

record BlockContent =
  header :: BlockHeader
  state :: BlockState

record Block =
  bcontent :: BlockContent
  bsignature :: Signature

abbreviation bheight :: "Block \<Rightarrow> BlockHeight" where
  "bheight b \<equiv> height (header (bcontent b))"

abbreviation btxns :: "Block \<Rightarrow> UTXOProof list" where
  "btxns b \<equiv> state_txns (state (bcontent b))"

abbreviation broot :: "Block \<Rightarrow> element" where
  "broot b \<equiv> state_root_hash (state (bcontent b))"

definition block_state_new :: "element \<Rightarrow> UTXOProof list \<Rightarrow> BlockState" where
  "block_state_new root ts = \<lparr>state_root_hash = root, state_txns = ts\<rparr>"

definition block_leaves :: "BlockState \<Rightarrow> element list" where
  "block_leaves s = concat (map utxo_leaves (state_txns s))"

definition leaves_non_null :: "BlockState \<Rightarrow> element list" where
  "leaves_non_null s = filter (\<lambda>e. e \<noteq> NULL_HASH) (block_leaves s)"

definition genesis_content :: BlockContent where
  "genesis_content =
     \<lparr>header = \<lparr>height = 0, last_block_hash = 0, epoch_id = 0, last_final_block_hash = 0, approvals = []\<rparr>,
      state = \<lparr>state_root_hash = ZERO, state_txns = []\<rparr>\<rparr>"

definition block_genesis :: Block where
  "block_genesis = \<lparr>bcontent = genesis_content, bsignature = replicate 65 0\<rparr>"

text \<open>The functions that the code takes from other crates to hash and sign blocks.\<close>

record hash_env =
  keccak :: "bytes \<Rightarrow> bytes"
  header_to_vec :: "BlockHeader \<Rightarrow> bytes"

definition header_hash :: "hash_env \<Rightarrow> BlockContent \<Rightarrow> CryptoHash" where
  "header_hash H c = hash_of_bytes (keccak H (header_to_vec H (header c)))"

definition content_hash :: "hash_env \<Rightarrow> BlockContent \<Rightarrow> CryptoHash" where
  "content_hash H c =
     hash_of_bytes (keccak H
       (to_be_bytes (state_root_hash (state c)) @ be_bytes 32 (unat (height (header c))) @ hash_bytes32 (header_hash H c)))"

definition bhash :: "hash_env \<Rightarrow> Block \<Rightarrow> CryptoHash" where
  "bhash H b = content_hash H (bcontent b)"

definition content_sign :: "hash_env \<Rightarrow> (CryptoHash \<Rightarrow> Signature) \<Rightarrow> BlockContent \<Rightarrow> Signature" where
  "content_sign H sign c = sign (content_hash H c)"

definition to_block :: "hash_env \<Rightarrow> (CryptoHash \<Rightarrow> Signature) \<Rightarrow> BlockContent \<Rightarrow> Block" where
  "to_block H sign c = \<lparr>bcontent = c, bsignature = content_sign H sign c\<rparr>"

section \<open>Stored formats\<close>

record TxnMetadata =
  tm_block_height :: BlockHeight
  tm_block_time :: "u64 option"
  tm_block_hash :: CryptoHash
  tm_block_txn_index :: u32

datatype TxnFormat = TxnV1 UTXOProof TxnMetadata

record BlockMetadata =
  timestamp_unix_s :: "u64 option"

datatype BlockFormat = BlockV1 Block | BlockV2 Block BlockMetadata

fun into_block :: "BlockFormat \<Rightarrow> Block" where
  "into_block (BlockV1 b) = b"
| "into_block (BlockV2 b _) = b"

fun format_metadata :: "BlockFormat \<Rightarrow> BlockMetadata" where
  "format_metadata (BlockV1 _) = \<lparr>timestamp_unix_s = None\<rparr>"
| "format_metadata (BlockV2 _ m) = m"

fun block_version :: "BlockFormat \<Rightarrow> u64" where
  "block_version (BlockV1 _) = 1"
| "block_version (BlockV2 _ _) = 2"

fun block_upgrade_once :: "BlockFormat \<Rightarrow> (ErrorKind, BlockFormat) outcome" where
  "block_upgrade_once (BlockV1 b) = Ok (BlockV2 b \<lparr>timestamp_unix_s = None\<rparr>)"
| "block_upgrade_once (BlockV2 _ _) = Err (max_version_error 2)"

definition txn_version :: "TxnFormat \<Rightarrow> u64" where
  "txn_version t = (case t of TxnV1 _ _ \<Rightarrow> 1)"

definition txn_upgrade_once :: "TxnFormat \<Rightarrow> (ErrorKind, TxnFormat) outcome" where
  "txn_upgrade_once t = (case t of TxnV1 _ _ \<Rightarrow> Err (max_version_error 1))"

definition txn_format_hash :: "hash_env \<Rightarrow> TxnFormat \<Rightarrow> CryptoHash" where
  "txn_format_hash H t = (case t of TxnV1 u _ \<Rightarrow> utxo_hash (keccak H) u)"

definition plain_txns :: "hash_env \<Rightarrow> Block \<Rightarrow> TxnFormat list" where
  "plain_txns H b =
     map (\<lambda>(i, t). TxnV1 t
        \<lparr>tm_block_height = bheight b, tm_block_time = None, tm_block_hash = bhash H b, tm_block_txn_index = word_of_nat i\<rparr>)
       (enumerate 0 (btxns b))"

fun format_txns :: "hash_env \<Rightarrow> BlockFormat \<Rightarrow> TxnFormat list" where
  "format_txns H (BlockV1 b) = plain_txns H b"
| "format_txns H (BlockV2 b m) =
     map (\<lambda>f. case f of TxnV1 t tm \<Rightarrow> TxnV1 t (tm\<lparr>tm_block_time := timestamp_unix_s m\<rparr>)) (plain_txns H b)"

record format_codec =
  bf_to_bytes :: "BlockFormat \<Rightarrow> (ErrorKind, bytes) outcome"
  bf_from_bytes :: "bytes \<Rightarrow> (ErrorKind, BlockFormat) outcome"
  tf_to_bytes :: "TxnFormat \<Rightarrow> (ErrorKind, bytes) outcome"
  tf_from_bytes :: "bytes \<Rightarrow> (ErrorKind, TxnFormat) outcome"

text \<open>The instance of the block store's traits for the stored format.\<close>

definition format_ops :: "hash_env \<Rightarrow> format_codec \<Rightarrow> (BlockFormat, TxnFormat) block_ops" where
  "format_ops H F =
     \<lparr>block_height = (\<lambda>f. bheight (into_block f)),
      block_hash = (\<lambda>f. bhash H (into_block f)),
      txns = format_txns H,
      txn_hash = txn_format_hash H,
      block_to_bytes = bf_to_bytes F, block_from_bytes = bf_from_bytes F,
      txn_to_bytes = tf_to_bytes F, txn_from_bytes = tf_from_bytes F\<rparr>"

end
