(* ===== verification/Block_Cache.thy ===== *)
theory Block_Cache
  imports Node_Types
begin

text \<open>
  The cache of the confirmed block and of the blocks that wait to be committed
  (\<^verbatim>\<open>pkg/node/src/cache.rs\<close>). The hash map of blocks is an association list.
\<close>

record BlockCache =
  cheight :: BlockHeight
  cmax_height :: BlockHeight
  cblocks :: "(CryptoHash, Block) hashmap"
  block_hash_heights :: "(BlockHeight, CryptoHash) btree"
  max_cache_size :: nat

text \<open>A missing entry is unwrapped.\<close>

definition cache_hash :: "BlockCache \<Rightarrow> (unit, CryptoHash) outcome" where
  "cache_hash c = (case map_of (block_hash_heights c) (cheight c) of Some x \<Rightarrow> Ok x | None \<Rightarrow> Panic)"

definition cache_remove :: "CryptoHash \<Rightarrow> BlockCache \<Rightarrow> BlockCache" where
  "cache_remove x c =
     (case map_of (cblocks c) x of
        None \<Rightarrow> c
      | Some b \<Rightarrow>
          c\<lparr>cblocks := AList.delete x (cblocks c),
            block_hash_heights := bt_remove (bheight b) (block_hash_heights c)\<rparr>)"

definition cache_insert :: "hash_env \<Rightarrow> Block \<Rightarrow> BlockCache \<Rightarrow> BlockCache" where
  "cache_insert H block c =
     (let h = bheight block; x = bhash H block in
      if cheight c > h then c
      else
        (let c1 = (if h > cmax_height c then c\<lparr>cmax_height := h\<rparr> else c);
             (max_height, max_hash) =
               (if block_hash_heights c1 = [] then (0, 0) else last (block_hash_heights c1));
             cache_at_capacity = (max_cache_size c1 \<le> length (cblocks c1))
         in if cache_at_capacity \<and> h > max_height then c1
            else
              (let c2 = (if cache_at_capacity then cache_remove max_hash c1 else c1)
               in c2\<lparr>block_hash_heights := bt_insert h x (block_hash_heights c2),
                     cblocks := AList.update x block (cblocks c2)\<rparr>)))"

definition cache_new :: "hash_env \<Rightarrow> Block \<Rightarrow> nat \<Rightarrow> BlockCache" where
  "cache_new H start_block cap =
     cache_insert H start_block
       \<lparr>cheight = bheight start_block, cmax_height = bheight start_block, cblocks = [], block_hash_heights = [],
        max_cache_size = cap\<rparr>"

definition confirm_remove :: "BlockHeight \<Rightarrow> BlockCache \<Rightarrow> BlockCache" where
  "confirm_remove h c =
     (case map_of (block_hash_heights c) h of
        None \<Rightarrow> c
      | Some x \<Rightarrow>
          c\<lparr>block_hash_heights := bt_remove h (block_hash_heights c), cblocks := AList.delete x (cblocks c)\<rparr>)"

definition cache_confirm :: "BlockHeight \<Rightarrow> BlockCache \<Rightarrow> BlockCache" where
  "cache_confirm h c =
     (let heights_to_remove = filter (\<lambda>k. k < h) (bt_keys (block_hash_heights c))
      in fold confirm_remove heights_to_remove (c\<lparr>cheight := h\<rparr>))"

text \<open>A range whose start is after its end panics in \<^verbatim>\<open>BTreeMap::range\<close>.\<close>

definition get_range :: "BlockCache \<Rightarrow> BlockHeight \<Rightarrow> BlockHeight \<Rightarrow> (unit, Block list) outcome" where
  "get_range c start end =
     (if end < start then Panic
      else Ok (List.map_filter (\<lambda>(_, x). map_of (cblocks c) x)
        (filter (\<lambda>(k, _). start \<le> k \<and> k < end) (block_hash_heights c))))"

definition get_by_height :: "BlockCache \<Rightarrow> BlockHeight \<Rightarrow> Block option" where
  "get_by_height c h =
     (case map_of (block_hash_heights c) h of Some x \<Rightarrow> map_of (cblocks c) x | None \<Rightarrow> None)"

text \<open>The last key of an empty map is unwrapped.\<close>

definition is_out_of_sync :: "BlockCache \<Rightarrow> (unit, bool) outcome" where
  "is_out_of_sync c =
     (if block_hash_heights c = [] then Panic
      else if cmax_height c > fst (last (block_hash_heights c)) then Ok True
      else Ok (list_ex (\<lambda>n. map_of (block_hash_heights c) (word_of_nat n) = None)
             [unat (cheight c + 1) ..< Suc (unat (cmax_height c))]))"

definition get_next_commit_block :: "BlockCache \<Rightarrow> Block option" where
  "get_next_commit_block c = get_by_height c (cheight c + 1)"

section \<open>Invariant\<close>

text \<open>
  Every cached height is at or above the confirmed height, not above the maximal one, and names a
  cached block of that height and hash.
\<close>

definition cache_ok :: "hash_env \<Rightarrow> BlockCache \<Rightarrow> bool" where
  "cache_ok H c \<longleftrightarrow> bt_ok (block_hash_heights c) \<and> distinct (map fst (cblocks c))
     \<and> (\<forall>x b. map_of (cblocks c) x = Some b \<longrightarrow> bhash H b = x)
     \<and> (\<forall>h x. map_of (block_hash_heights c) h = Some x \<longrightarrow>
          cheight c \<le> h \<and> h \<le> cmax_height c \<and> (\<exists>b. map_of (cblocks c) x = Some b \<and> bheight b = h))"

definition cached_in :: "Block set \<Rightarrow> BlockCache \<Rightarrow> bool" where
  "cached_in S c \<longleftrightarrow> snd ` set (cblocks c) \<subseteq> S"

text \<open>No two blocks of a set have the same hash and different heights.\<close>

definition height_bound_by_hash :: "hash_env \<Rightarrow> Block set \<Rightarrow> bool" where
  "height_bound_by_hash H S \<longleftrightarrow> (\<forall>b \<in> S. \<forall>b' \<in> S. bhash H b = bhash H b' \<longrightarrow> bheight b = bheight b')"

end
