(* ===== verification/Block_Cache_Props.thy ===== *)
theory Block_Cache_Props
  imports Block_Cache
begin

text \<open>The block cache keeps its invariant, and what its queries answer.\<close>

section \<open>Preservation\<close>

lemma cache_okD:
  assumes "cache_ok H c"
  shows "bt_ok (block_hash_heights c)" "distinct (map fst (cblocks c))"
    and "map_of (cblocks c) x = Some b \<Longrightarrow> bhash H b = x"
    and "map_of (block_hash_heights c) h = Some x \<Longrightarrow>
      cheight c \<le> h \<and> h \<le> cmax_height c \<and> (\<exists>b. map_of (cblocks c) x = Some b \<and> bheight b = h)"
  using assms unfolding cache_ok_def by (simp_all del: map_of_eq_Some_iff)

lemma cache_remove_ok:
  assumes ok: "cache_ok H c"
  shows "cache_ok H (cache_remove x c)"
proof (cases "map_of (cblocks c) x")
  case None
  with ok show ?thesis by (simp add: cache_remove_def)
next
  case (Some b)
  have "x' \<noteq> x" if "h \<noteq> bheight b" "map_of (block_hash_heights c) h = Some x'" for h x'
    using cache_okD(4) [OF ok that(2)] that(1) Some by auto
  then show ?thesis using ok Some
    by (auto simp: cache_ok_def cache_remove_def btree_simps distinct_delete delete_conv' simp del: map_of_eq_Some_iff)
qed

lemma cache_remove_fields [simp]:
  "cheight (cache_remove x c) = cheight c" "cmax_height (cache_remove x c) = cmax_height c"
  "max_cache_size (cache_remove x c) = max_cache_size c"
  by (simp_all add: cache_remove_def split: option.split)

lemma cache_put_ok:
  assumes ok: "cache_ok H c" and S: "cached_in S c" "block \<in> S" "height_bound_by_hash H S"
    and h: "cheight c \<le> bheight block" "bheight block \<le> cmax_height c"
  shows "cache_ok H (c\<lparr>block_hash_heights := bt_insert (bheight block) (bhash H block) (block_hash_heights c),
      cblocks := AList.update (bhash H block) block (cblocks c)\<rparr>)"
proof -
  have "bheight b = bheight block" if "map_of (cblocks c) (bhash H block) = Some b" for b
  proof -
    have "b \<in> S" using S(1) that unfolding cached_in_def by (force dest: map_of_SomeD)
    with S(2,3) cache_okD(3) [OF ok that] show ?thesis unfolding height_bound_by_hash_def by metis
  qed
  then have "h = bheight block" if "map_of (block_hash_heights c) h = Some (bhash H block)" for h
    using cache_okD(4) [OF ok that] by auto
  with ok h show ?thesis
    unfolding cache_ok_def by (auto simp: btree_simps distinct_update update_conv' simp del: map_of_eq_Some_iff split: if_splits)
qed

lemma set_AList_delete: "set (AList.delete k m) \<subseteq> set m"
  by (auto simp: AList.delete_eq)

lemma set_AList_update: "snd ` set (AList.update k v m) \<subseteq> insert v (snd ` set m)"
  by (induction m) auto

lemma cached_in_remove: "cached_in S c \<Longrightarrow> cached_in S (cache_remove x c)"
  using set_AList_delete [of x "cblocks c"] by (fastforce simp: cached_in_def cache_remove_def split: option.split)

lemma cached_in_put:
  "cached_in S c \<Longrightarrow> block \<in> S \<Longrightarrow>
    cached_in S (c\<lparr>block_hash_heights := m, cblocks := AList.update x block (cblocks c)\<rparr>)"
  using set_AList_update [of x block "cblocks c"] unfolding cached_in_def by (simp, blast)

text \<open>What an insertion does, by cases.\<close>

definition full_for :: "BlockCache \<Rightarrow> BlockHeight \<Rightarrow> bool" where
  "full_for c h \<longleftrightarrow> max_cache_size c \<le> length (cblocks c)
     \<and> (block_hash_heights c = [] \<and> 0 < h \<or> block_hash_heights c \<noteq> [] \<and> fst (last (block_hash_heights c)) < h)"

lemma cache_insert_cases:
  fixes H block c
  defines "c1 \<equiv> c\<lparr>cmax_height := max (cmax_height c) (bheight block)\<rparr>"
  obtains "bheight block < cheight c" "cache_insert H block c = c"
  | "cheight c \<le> bheight block" "full_for c (bheight block)" "cache_insert H block c = c1"
  | c2 where "cheight c \<le> bheight block" "\<not> full_for c (bheight block)"
      "c2 = (if max_cache_size c \<le> length (cblocks c)
         then cache_remove (if block_hash_heights c = [] then 0 else snd (last (block_hash_heights c))) c1 else c1)"
      "cache_insert H block c = c2\<lparr>block_hash_heights := bt_insert (bheight block) (bhash H block) (block_hash_heights c2),
          cblocks := AList.update (bhash H block) block (cblocks c2)\<rparr>"
proof -
  have c1: "(if bheight block > cmax_height c then c\<lparr>cmax_height := bheight block\<rparr> else c) = c1"
    by (simp add: c1_def max_def)
  show thesis
  proof (cases "bheight block < cheight c")
    case True
    then show thesis by (intro that(1)) (simp_all add: cache_insert_def Let_def)
  next
    case le: False
    show thesis
    proof (cases "full_for c (bheight block)")
      case True
      with le show thesis
        by (intro that(2)) (auto simp: cache_insert_def Let_def full_for_def c1_def max_def split: prod.split)
    next
      case False
      with le show thesis
        by (intro that(3) [OF _ _ refl])
          (auto simp: cache_insert_def Let_def full_for_def c1_def max_def split: prod.split)
    qed
  qed
qed

lemma cache_insert_ok:
  assumes ok: "cache_ok H c" and S: "cached_in S c" "block \<in> S" "height_bound_by_hash H S"
  shows "cache_ok H (cache_insert H block c) \<and> cached_in S (cache_insert H block c)"
proof -
  let ?c1 = "c\<lparr>cmax_height := max (cmax_height c) (bheight block)\<rparr>"
  have c1: "cache_ok H ?c1" "cached_in S ?c1"
    using ok S(1) by (fastforce simp: cache_ok_def max_def cached_in_def)+
  show ?thesis
  proof (cases rule: cache_insert_cases [where H = H and block = block and c = c])
    case 1
    with ok S show ?thesis by simp
  next
    case 2
    with c1 show ?thesis by simp
  next
    case (3 c2)
    have c2: "cache_ok H c2" "cached_in S c2" unfolding 3(3) using c1 cache_remove_ok cached_in_remove by auto
    moreover have "cheight c2 \<le> bheight block" "bheight block \<le> cmax_height c2" using 3 by auto
    ultimately show ?thesis unfolding 3(4) using cache_put_ok S cached_in_put by blast
  qed
qed

lemma confirm_remove_fields [simp]:
  "cheight (confirm_remove h c) = cheight c" "cmax_height (confirm_remove h c) = cmax_height c"
  by (simp_all add: confirm_remove_def split: option.split)

text \<open>Confirming may raise the height above cached heights before they are removed.\<close>

definition cache_ok_above :: "hash_env \<Rightarrow> BlockHeight \<Rightarrow> BlockCache \<Rightarrow> bool" where
  "cache_ok_above H l c \<longleftrightarrow> cache_ok H (c\<lparr>cheight := l\<rparr>)"

lemma confirm_remove_ok:
  assumes "cache_ok_above H l c"
  shows "cache_ok_above H l (confirm_remove h c)"
    "map_of (block_hash_heights (confirm_remove h c)) = (map_of (block_hash_heights c))(h := None)"
proof -
  have ok: "cache_ok H (c\<lparr>cheight := l\<rparr>)" using assms by (simp add: cache_ok_above_def)
  have "x' \<noteq> x" if "h' \<noteq> h" "map_of (block_hash_heights c) h = Some x" "map_of (block_hash_heights c) h' = Some x'" for h' x x'
    using cache_okD(4) [OF ok, of h x] cache_okD(4) [OF ok, of h' x'] that by auto
  then show "cache_ok_above H l (confirm_remove h c)"
    using ok by (auto simp: cache_ok_above_def cache_ok_def confirm_remove_def btree_simps distinct_delete delete_conv'
      simp del: map_of_eq_Some_iff split: option.split)
  show "map_of (block_hash_heights (confirm_remove h c)) = (map_of (block_hash_heights c))(h := None)"
    by (auto simp: confirm_remove_def btree_simps fun_eq_iff split: option.split)
qed

lemma confirm_fold:
  "cache_ok_above H l c \<Longrightarrow> cache_ok_above H l (fold confirm_remove hs c)
    \<and> cheight (fold confirm_remove hs c) = cheight c
    \<and> map_of (block_hash_heights (fold confirm_remove hs c)) = (\<lambda>k. if k \<in> set hs then None else map_of (block_hash_heights c) k)"
proof (induction hs arbitrary: c)
  case (Cons h hs)
  from Cons.IH [OF confirm_remove_ok(1) [OF Cons.prems, of h]] show ?case
    by (simp add: confirm_remove_ok(2) [OF Cons.prems] fun_eq_iff)
qed simp

lemma cache_confirm_ok:
  assumes ok: "cache_ok H c"
  shows "cache_ok H (cache_confirm h c)"
    "map_of (block_hash_heights (cache_confirm h c)) k = (if k < h then None else map_of (block_hash_heights c) k)"
    "cheight (cache_confirm h c) = h"
proof -
  let ?c = "c\<lparr>cheight := h\<rparr>" and ?hs = "filter (\<lambda>k. k < h) (bt_keys (block_hash_heights c))"
  have "cache_ok_above H 0 ?c" using ok by (auto simp: cache_ok_above_def cache_ok_def)
  from confirm_fold [OF this, of ?hs] have f: "cache_ok_above H 0 (cache_confirm h c)" "cheight (cache_confirm h c) = h"
    "map_of (block_hash_heights (cache_confirm h c)) = (\<lambda>k. if k \<in> set ?hs then None else map_of (block_hash_heights c) k)"
    by (simp_all add: cache_confirm_def fun_eq_iff)
  then show m: "map_of (block_hash_heights (cache_confirm h c)) k = (if k < h then None else map_of (block_hash_heights c) k)" for k
    by (auto simp: btree_simps)
  show "cheight (cache_confirm h c) = h" by (rule f(2))
  have "h \<le> k" if "map_of (block_hash_heights (cache_confirm h c)) k = Some x" for k x
    using that unfolding m by (simp split: if_splits)
  with f show "cache_ok H (cache_confirm h c)" unfolding cache_ok_above_def cache_ok_def by auto
qed

lemma cached_in_confirm: "cached_in S c \<Longrightarrow> cached_in S (cache_confirm h c)"
proof -
  have "cached_in S (confirm_remove k d)" if "cached_in S d" for k d
    using that set_AList_delete by (fastforce simp: cached_in_def confirm_remove_def split: option.split)
  then have "cached_in S d \<Longrightarrow> cached_in S (fold confirm_remove ks d)" for ks d
    by (induction ks arbitrary: d) auto
  then show "cached_in S c \<Longrightarrow> cached_in S (cache_confirm h c)"
    by (simp add: cache_confirm_def Let_def) (simp add: cached_in_def)
qed

lemma cache_new_ok:
  assumes "block \<in> S" "height_bound_by_hash H S"
  shows "cache_ok H (cache_new H block cap) \<and> cached_in S (cache_new H block cap)"
  unfolding cache_new_def using assms by (intro cache_insert_ok) (auto simp: cache_ok_def cached_in_def)

section \<open>Reachable caches\<close>

inductive cache_run :: "hash_env \<Rightarrow> Block set \<Rightarrow> BlockCache \<Rightarrow> bool" for H S where
  run_new: "b \<in> S \<Longrightarrow> cache_run H S (cache_new H b cap)"
| run_insert: "cache_run H S c \<Longrightarrow> b \<in> S \<Longrightarrow> cache_run H S (cache_insert H b c)"
| run_confirm: "cache_run H S c \<Longrightarrow> cache_run H S (cache_confirm h c)"
| run_remove: "cache_run H S c \<Longrightarrow> cache_run H S (cache_remove x c)"

lemma cache_run_ok:
  assumes "cache_run H S c" "height_bound_by_hash H S"
  shows "cache_ok H c \<and> cached_in S c"
  using assms(1)
proof induction
  case run_new
  then show ?case using cache_new_ok assms(2) by blast
next
  case run_insert
  then show ?case using cache_insert_ok assms(2) by blast
next
  case run_confirm
  then show ?case using cache_confirm_ok(1) cached_in_confirm by blast
next
  case run_remove
  then show ?case using cache_remove_ok cached_in_remove by blast
qed

lemma last_is_max:
  fixes m :: "('k::linorder, 'v) btree"
  assumes "bt_ok m" "m \<noteq> []" "map_of m k = Some v"
  shows "k \<le> fst (last m)"
proof -
  have "k \<in> set (bt_keys m)" using assms(3) map_of_None_keys [of m k] by force
  moreover have "sorted (bt_keys m)" using assms(1) by (simp add: bt_ok_def strict_sorted_iff)
  moreover have "fst (last m) = last (bt_keys m)" using assms(2) by (simp add: bt_keys_def last_map)
  moreover have "x \<le> last xs" if "sorted xs" "x \<in> set xs" for x and xs :: "'k list"
    using that by (induction xs) auto
  ultimately show ?thesis by simp
qed

lemma word_range_ex:
  fixes a b :: BlockHeight
  shows "list_ex (\<lambda>n. P (word_of_nat n)) [unat a ..< Suc (unat b)] \<longleftrightarrow> (\<exists>h. a \<le> h \<and> h \<le> b \<and> P h)"
proof -
  have "(\<exists>h. a \<le> h \<and> h \<le> b \<and> P h) \<longleftrightarrow> (\<exists>n. unat a \<le> n \<and> n \<le> unat b \<and> P (word_of_nat n))" (is "?L \<longleftrightarrow> ?R")
  proof
    assume ?L
    then obtain h where "a \<le> h" "h \<le> b" "P h" by blast
    then show ?R by (intro exI [of _ "unat h"]) (simp add: word_le_nat_alt)
  next
    assume ?R
    then obtain n where n: "unat a \<le> n" "n \<le> unat b" "P (word_of_nat n)" by blast
    then have "unat (word_of_nat n :: BlockHeight) = n"
      using unsigned_less [of b, where 'a = nat] by (simp add: unat_of_nat)
    with n show ?L by (intro exI [of _ "word_of_nat n"]) (simp add: word_le_nat_alt)
  qed
  then show ?thesis by (auto simp: list_ex_iff)
qed

lemma height_succ_le:
  fixes a h :: BlockHeight
  assumes "a + 1 \<noteq> 0"
  shows "a + 1 \<le> h \<longleftrightarrow> a < h"
proof -
  have "unat (a + 1) = Suc (unat a)" using assms unatSuc [of a] by (simp add: add.commute)
  then show ?thesis by (simp add: word_le_nat_alt word_less_nat_alt Suc_le_eq)
qed

lemma out_of_sync_iff:
  assumes ok: "cache_ok H c" and ne: "block_hash_heights c \<noteq> []" and no: "cheight c + 1 \<noteq> 0"
  shows "is_out_of_sync c = Ok (\<exists>h. cheight c < h \<and> h \<le> cmax_height c \<and> get_by_height c h = None)"
proof -
  have g: "get_by_height c h = None \<longleftrightarrow> map_of (block_hash_heights c) h = None" for h
    using cache_okD(4) [OF ok, of h] by (auto simp: get_by_height_def split: option.splits)
  have s: "cheight c + 1 \<le> h \<longleftrightarrow> cheight c < h" for h using no by (rule height_succ_le)
  show ?thesis
  proof (cases "cmax_height c > fst (last (block_hash_heights c))")
    case True
    have "map_of (block_hash_heights c) (cmax_height c) = None"
      using last_is_max [OF cache_okD(1) [OF ok] ne, of "cmax_height c"] True by (cases "map_of (block_hash_heights c) (cmax_height c)") auto
    moreover have "cheight c < cmax_height c"
    proof -
      obtain h x where "last (block_hash_heights c) = (h, x)" by fastforce
      then have "map_of (block_hash_heights c) h = Some x"
        using ne bt_keys_distinct [OF cache_okD(1) [OF ok]] by (metis last_in_set map_of_is_SomeI)
      with cache_okD(4) [OF ok this] True \<open>last _ = (h, x)\<close> show ?thesis by (auto intro: le_less_trans)
    qed
    ultimately show ?thesis using True ne g by (auto simp: is_out_of_sync_def)
  next
    case False
    then show ?thesis using ne word_range_ex [of "\<lambda>h. map_of (block_hash_heights c) h = None" "cheight c + 1" "cmax_height c"]
      by (simp add: is_out_of_sync_def s g)
  qed
qed

lemma get_by_height_ok:
  assumes "cache_ok H c" "get_by_height c h = Some b"
  shows "bheight b = h" "cheight c \<le> h" "h \<le> cmax_height c"
proof -
  obtain x where x: "map_of (block_hash_heights c) h = Some x" "map_of (cblocks c) x = Some b"
    using assms(2) by (auto simp: get_by_height_def split: option.splits)
  with cache_okD(4) [OF assms(1) x(1)] show "bheight b = h" "cheight c \<le> h" "h \<le> cmax_height c" by auto
qed

lemma get_by_height_insert:
  assumes "cache_ok H c" "cheight c \<le> bheight block" "\<not> full_for c (bheight block)"
  shows "get_by_height (cache_insert H block c) (bheight block) = Some block"
proof (cases rule: cache_insert_cases [where H = H and block = block and c = c])
  case (3 c2)
  have "cache_ok H (c\<lparr>cmax_height := max (cmax_height c) (bheight block)\<rparr>)"
    using assms(1) by (fastforce simp: cache_ok_def max_def)
  then have "cache_ok H c2" unfolding 3(3) by (simp add: cache_remove_ok)
  then show ?thesis unfolding 3(4) using cache_okD(1)
    by (simp add: get_by_height_def btree_simps update_conv')
qed (use assms in auto)

lemma confirm_blocks_sub: "map_of (cblocks (cache_confirm h c)) x = Some b \<Longrightarrow> map_of (cblocks c) x = Some b"
proof -
  have "map_of (cblocks (confirm_remove k d)) x = Some b \<Longrightarrow> map_of (cblocks d) x = Some b" for k d
    by (auto simp: confirm_remove_def delete_conv' split: option.splits if_splits)
  note step = this
  have "map_of (cblocks (fold confirm_remove ks d)) x = Some b \<Longrightarrow> map_of (cblocks d) x = Some b" for ks d
  proof (induction ks arbitrary: d)
    case (Cons k ks)
    from Cons.IH [of "confirm_remove k d"] Cons.prems step [of k d] show ?case by (simp del: map_of_eq_Some_iff)
  qed simp
  from this [of "filter (\<lambda>k. k < h) (bt_keys (block_hash_heights c))" "c\<lparr>cheight := h\<rparr>"]
  show "map_of (cblocks (cache_confirm h c)) x = Some b \<Longrightarrow> map_of (cblocks c) x = Some b"
    by (simp add: cache_confirm_def)
qed

lemma get_by_height_confirm:
  assumes "cache_ok H c"
  shows "get_by_height (cache_confirm h c) k = (if k < h then None else get_by_height c k)"
proof (cases "map_of (block_hash_heights (cache_confirm h c)) k")
  case None
  then show ?thesis using cache_confirm_ok(2) [OF assms, of h k] by (auto simp: get_by_height_def split: if_splits)
next
  case (Some x)
  then have k: "\<not> k < h" "map_of (block_hash_heights c) k = Some x"
    using cache_confirm_ok(2) [OF assms, of h k] by (auto split: if_splits)
  from cache_okD(4) [OF cache_confirm_ok(1) [OF assms] Some] obtain b where
    "map_of (cblocks (cache_confirm h c)) x = Some b" by blast
  with confirm_blocks_sub [OF this] Some k show ?thesis by (simp add: get_by_height_def)
qed

section \<open>Properties\<close>

text \<open>
  C28: the block cache, in every state that insertions, confirmations and removals of blocks reach,
  when no two of the blocks have one hash at different heights. A block found by height has that
  height, at or above the confirmed one, and the next block to commit is the successor of the
  confirmed one. A block that is not older than the confirmed one is found after its insertion,
  unless the cache is full and has lower heights only. Confirming forgets exactly the lower heights.
  The synchronisation test panics when no height is cached, and otherwise reports exactly whether a
  height up to the maximal one is missing.
\<close>

theorem cache_run_spec:
  assumes "cache_run H S c" "height_bound_by_hash H S"
  shows "(\<forall>h b. get_by_height c h = Some b \<longrightarrow> bheight b = h \<and> cheight c \<le> h \<and> h \<le> cmax_height c \<and> b \<in> S)
    \<and> (\<forall>b. get_next_commit_block c = Some b \<longrightarrow> bheight b = cheight c + 1)
    \<and> (\<forall>b \<in> S. cheight c \<le> bheight b \<and> \<not> full_for c (bheight b) \<longrightarrow>
         get_by_height (cache_insert H b c) (bheight b) = Some b)
    \<and> (\<forall>h k. get_by_height (cache_confirm h c) k = (if k < h then None else get_by_height c k))
    \<and> (block_hash_heights c = [] \<longrightarrow> is_out_of_sync c = Panic)
    \<and> (block_hash_heights c \<noteq> [] \<and> cheight c + 1 \<noteq> 0 \<longrightarrow>
         is_out_of_sync c = Ok (\<exists>h. cheight c < h \<and> h \<le> cmax_height c \<and> get_by_height c h = None))"
proof -
  have ok: "cache_ok H c" "cached_in S c" using cache_run_ok [OF assms] by simp_all
  have "b \<in> S" if "get_by_height c h = Some b" for h b
    using that ok(2) by (force simp: get_by_height_def cached_in_def split: option.splits dest: map_of_SomeD)
  moreover have "bheight b = cheight c + 1" if "get_next_commit_block c = Some b" for b
    using get_by_height_ok(1) [OF ok(1)] that by (simp add: get_next_commit_block_def)
  moreover have "block_hash_heights c = [] \<longrightarrow> is_out_of_sync c = Panic" by (simp add: is_out_of_sync_def)
  ultimately show ?thesis
    using get_by_height_ok [OF ok(1)] get_by_height_insert [OF ok(1)] get_by_height_confirm [OF ok(1)]
      out_of_sync_iff [OF ok(1)] by blast
qed

definition sample_block :: "BlockHeight \<Rightarrow> Block" where
  "sample_block h = block_genesis\<lparr>bcontent := genesis_content\<lparr>header := (header genesis_content)\<lparr>height := h\<rparr>\<rparr>\<rparr>"

text \<open>A header encoding and a hash that keep the height.\<close>

definition height_env :: hash_env where
  "height_env = \<lparr>keccak = (\<lambda>bs. take 32 (drop 32 bs)), header_to_vec = (\<lambda>_. [])\<rparr>"

lemma height_env_hash: "bhash height_env b = word_of_nat (unat (bheight b))"
proof -
  have "unat (bheight b) < 256 ^ 32" using unsigned_less [of "bheight b", where 'a = nat] by (rule order_less_le_trans) simp
  then show ?thesis
    by (simp add: bhash_def content_hash_def height_env_def to_be_bytes_def hash_of_bytes_def be_val_be_bytes)
qed

lemma height_env_bound: "height_bound_by_hash height_env S"
proof -
  have "bheight b = bheight b'" if "word_of_nat (unat (bheight b)) = (word_of_nat (unat (bheight b')) :: CryptoHash)" for b b'
  proof -
    have "unat (bheight b) < 2 ^ 256" for b
      using unsigned_less [of "bheight b", where 'a = nat] by (rule order_less_le_trans) simp
    then have "unat (word_of_nat (unat (bheight b)) :: CryptoHash) = unat (bheight b)" for b
      unfolding unat_of_nat by simp
    with arg_cong [OF that, of unat] show ?thesis by (simp only: word_unat_eq_iff)
  qed
  then show ?thesis by (simp add: height_bound_by_hash_def height_env_hash)
qed

theorem cache_run_spec_witness:
  "let c = cache_insert height_env (sample_block 11) (cache_new height_env (sample_block 0) 10)
   in get_by_height c 11 = Some (sample_block 11)
      \<and> get_by_height (cache_confirm 11 c) 0 = None
      \<and> is_out_of_sync (cache_insert height_env (sample_block 15) c)
         = Ok (\<exists>h. 0 < h \<and> h \<le> 15 \<and> get_by_height (cache_insert height_env (sample_block 15) c) h = None)"
proof -
  let ?start = "cache_new height_env (sample_block 0) 10"
  let ?c = "cache_insert height_env (sample_block 11) ?start" and ?d = "cache_insert height_env (sample_block 15) (cache_insert height_env (sample_block 11) ?start)"
  have run: "cache_run height_env UNIV ?start" "cache_run height_env UNIV ?c" "cache_run height_env UNIV ?d"
    by (intro cache_run.intros UNIV_I)+
  have b: "bheight (sample_block h) = h" for h by (simp add: sample_block_def)
  have c0: "cheight ?start = 0" "\<not> full_for ?start 11"
    by (simp_all add: cache_new_def cache_insert_def b full_for_def Let_def)
  have d: "cheight ?d = 0" "cmax_height ?d = 15" "block_hash_heights ?d \<noteq> []"
    by (simp_all add: cache_new_def cache_insert_def b height_env_hash Let_def)
  note props = cache_run_spec [OF run(1) height_env_bound] cache_run_spec [OF run(2) height_env_bound]
    cache_run_spec [OF run(3) height_env_bound]
  have "\<forall>b \<in> UNIV. cheight ?start \<le> bheight b \<and> \<not> full_for ?start (bheight b) \<longrightarrow>
      get_by_height (cache_insert height_env b ?start) (bheight b) = Some b" using props(1) by (elim conjE)
  from bspec [OF this UNIV_I, of "sample_block 11"] have "get_by_height ?c 11 = Some (sample_block 11)" using c0 b [of 11] by simp
  moreover have "\<forall>h k. get_by_height (cache_confirm h ?c) k = (if k < h then None else get_by_height ?c k)"
    using props(2) by (elim conjE)
  from spec [OF spec [OF this, of 11], of 0] have "get_by_height (cache_confirm 11 ?c) 0 = None" by simp
  moreover have "block_hash_heights ?d \<noteq> [] \<and> cheight ?d + 1 \<noteq> 0 \<longrightarrow>
      is_out_of_sync ?d = Ok (\<exists>h. cheight ?d < h \<and> h \<le> cmax_height ?d \<and> get_by_height ?d h = None)"
    using props(3) by (elim conjE)
  with d have "is_out_of_sync ?d = Ok (\<exists>h. 0 < h \<and> h \<le> 15 \<and> get_by_height ?d h = None)" by simp
  ultimately show ?thesis unfolding Let_def by blast
qed

end
