(* ===== verification/Node_Effects.thy ===== *)
theory Node_Effects
  imports Prelude
begin

text \<open>
  Operations of the node as functions from a state to a new state, the list of outputs (messages,
  answers, notifications) and the outcome. An operation that fails or panics keeps the changes it
  has made, since the locks of the node are released without rolling back.
\<close>

type_synonym ('s, 'o, 'e, 'a) op = "'s \<Rightarrow> 's \<times> 'o list \<times> ('e, 'a) outcome"

definition nlift :: "('e, 'a) outcome \<Rightarrow> ('s, 'o, 'e, 'a) op" where
  "nlift r = (\<lambda>s. (s, [], r))"

abbreviation nret :: "'a \<Rightarrow> ('s, 'o, 'e, 'a) op" where
  "nret x \<equiv> nlift (Ok x)"

definition nget :: "('s \<Rightarrow> 'a) \<Rightarrow> ('s, 'o, 'e, 'a) op" where
  "nget f = (\<lambda>s. (s, [], Ok (f s)))"

definition nmod :: "('s \<Rightarrow> 's) \<Rightarrow> ('s, 'o, 'e, unit) op" where
  "nmod f = (\<lambda>s. (f s, [], Ok ()))"

definition nout :: "'o list \<Rightarrow> ('s, 'o, 'e, unit) op" where
  "nout os = (\<lambda>s. (s, os, Ok ()))"

definition nbind :: "('s, 'o, 'e, 'a) op \<Rightarrow> ('a \<Rightarrow> ('s, 'o, 'e, 'b) op) \<Rightarrow> ('s, 'o, 'e, 'b) op" where
  "nbind m f = (\<lambda>s.
     case m s of
       (s1, os1, Ok x) \<Rightarrow> (case f x s1 of (s2, os2, r) \<Rightarrow> (s2, os1 @ os2, r))
     | (s1, os1, Err e) \<Rightarrow> (s1, os1, Err e)
     | (s1, os1, Panic) \<Rightarrow> (s1, os1, Panic))"

text \<open>The result of an operation as a value; a panic still propagates.\<close>

definition ntry :: "('s, 'o, 'e, 'a) op \<Rightarrow> ('s, 'o, 'f, ('e, 'a) outcome) op" where
  "ntry m = (\<lambda>s.
     case m s of
       (s1, os, Panic) \<Rightarrow> (s1, os, Panic)
     | (s1, os, r) \<Rightarrow> (s1, os, Ok r))"

lemma nlift_run [simp]: "nlift r s = (s, [], r)"
  by (simp add: nlift_def)

lemma nget_run [simp]: "nget f s = (s, [], Ok (f s))"
  by (simp add: nget_def)

lemma nmod_run [simp]: "nmod f s = (f s, [], Ok ())"
  by (simp add: nmod_def)

lemma nout_run [simp]: "nout os s = (s, os, Ok ())"
  by (simp add: nout_def)

lemma nbind_Ok: "m s = (s1, os1, Ok x) \<Longrightarrow> nbind m f s = (case f x s1 of (s2, os2, r) \<Rightarrow> (s2, os1 @ os2, r))"
  by (simp add: nbind_def)

lemma nbind_Ok_iff:
  "nbind m f s = (s2, os, Ok y) \<longleftrightarrow>
     (\<exists>s1 os1 x os2. m s = (s1, os1, Ok x) \<and> f x s1 = (s2, os2, Ok y) \<and> os = os1 @ os2)"
  by (auto simp: nbind_def split: prod.splits outcome.splits)

end
