(* ===== verification/Node.thy ===== *)
theory Node
  imports Block_Cache Smirk_Storage Mempool Doomslug Node_Effects
begin

text \<open>
  The node (\<^verbatim>\<open>pkg/node/src/node.rs\<close> and \<^verbatim>\<open>pkg/node/src/node\<close>): validation of transactions
  and blocks, committing and proposing blocks, and the ticker. The functions that other crates
  provide are the fields of \<open>node_env\<close>: the two databases and their encodings, the hashes, the proof
  verifier, and the signatures. Clock readings are arguments; logging is left out.
\<close>

section \<open>Errors, configuration and state\<close>

definition MERKLE_TREE_DEPTH :: nat where "MERKLE_TREE_DEPTH = 161"
definition RECENT_ROOT_COUNT :: u64 where "RECENT_ROOT_COUNT = 64"

record SmirkMetadata =
  inserted_in :: u64

text \<open>The variants of the node's errors that the modelled operations construct.\<close>

datatype NodeError =
    InvalidProof
  | NoteAlreadySpent element CryptoHash
  | LeafAlreadyInsertedInTheSameBlock element CryptoHash CryptoHash
  | OutputNoteExists element
  | InvalidElementSize element
  | UtxoRootIsNotRecentEnough element "element list" CryptoHash
  | ElementNotInTree element
  | ElementNotInTxn element BlockHeight
  | BlockNotFound BlockHeight
  | BlockHashNotFound CryptoHash
  | MintIsNotInTheContract element
  | BurnIsNotInTheContract element
  | InvalidMintOrBurnLeaves
  | InvalidBlockSignature
  | InvalidTransaction CryptoHash
  | InvalidBlockRoot element element
  | TxnNotFound CryptoHash
  | FailedToParseHash string
  | FailedToGetEthBlockNumber
  | NodeDoomslugError DoomslugError
  | NodeBlockStore StoreError
  | NodeSmirk StorageError
  | NodeContracts
  | NodeIo
  | NodeCollision CollisionError

datatype Mode = Validator | NodeMode | Prover | MockProver

fun is_prover :: "Mode \<Rightarrow> bool" where
  "is_prover Prover = True"
| "is_prover MockProver = True"
| "is_prover _ = False"

record ValidatorSet =
  vs_validators :: "Address list"
  valid_from :: "256 word"

record Config =
  mode :: Mode
  block_txns_count :: nat
  sync_chunk_size :: u64
  fast_sync_threshold :: u64
  bad_blocks :: "u64 list"
  safe_eth_height_offset :: u64

record ('db, 'sdb) node_env =
  config :: Config
  hash_merge2 :: hash2
  henv :: hash_env
  snark_verify :: "SnarkWitnessV1 \<Rightarrow> (NodeError, bool) outcome"
  verify_signature :: "Signature \<Rightarrow> CryptoHash \<Rightarrow> (NodeError, Address option) outcome"
  sign_hash :: "CryptoHash \<Rightarrow> Signature"
  self_peer :: Address
  validator_sets :: "ValidatorSet list"
  store_db :: "'db rocksdb"
  store_codec :: format_codec
  tree_db :: "'sdb smirk_db"
  tree_codec :: "SmirkMetadata storage_codec"
  shuffle_keys :: "CryptoHash list \<Rightarrow> CryptoHash list"

abbreviation store_ops :: "('db, 'sdb) node_env \<Rightarrow> (BlockFormat, TxnFormat) block_ops" where
  "store_ops E \<equiv> format_ops (henv E) (store_codec E)"

abbreviation txn_key :: "('db, 'sdb) node_env \<Rightarrow> UTXOProof \<Rightarrow> CryptoHash" where
  "txn_key E u \<equiv> utxo_hash (keccak (henv E)) u"

type_synonym 'sdb note_tree = "(SmirkMetadata, 'sdb) Persistent"

record ('db, 'sdb, 's, 'l) NodeShared =
  doomslug :: Doomslug
  mempool :: "(CryptoHash, UTXOProof, BlockHeight, element, 's) MempoolState"
  block_cache :: BlockCache
  block_store :: 'db
  notes_tree :: "'sdb note_tree"
  last_commit :: "Instant option"
  listeners :: "'l list"

section \<open>Network events\<close>

datatype SnapshotKind = Slow | Fast

record SnapshotRequest =
  sr_snapshot_id :: u64
  sr_from_height :: BlockHeight
  sr_to_height :: BlockHeight
  sr_kind :: SnapshotKind

record SnapshotAccept =
  sa_snapshot_id :: u64
  sa_from_height :: BlockHeight
  sa_to_height :: BlockHeight
  sa_kind :: SnapshotKind

record SnapshotChunkSlow =
  scs_snapshot_id :: u64
  scs_chunk :: "Block list"

record SnapshotChunkFast =
  scf_snapshot_id :: u64
  scf_block :: "Block option"
  scf_elements :: "element list"

datatype SnapshotChunk = ChunkSlow SnapshotChunkSlow | ChunkFast SnapshotChunkFast

fun chunk_snapshot_id :: "SnapshotChunk \<Rightarrow> u64" where
  "chunk_snapshot_id (ChunkSlow sc) = scs_snapshot_id sc"
| "chunk_snapshot_id (ChunkFast sc) = scf_snapshot_id sc"

datatype NetworkEvent =
    EvApproval Approval
  | EvBlock Block
  | EvTransaction UTXOProof
  | EvSnapshotRequest SnapshotRequest
  | EvSnapshotOffer u64
  | EvSnapshotAccept SnapshotAccept
  | EvSnapshotChunk SnapshotChunk

text \<open>A peer of \<^verbatim>\<open>libp2p\<close> is identified by a byte string.\<close>

type_synonym PeerId = bytes

text \<open>
  What an operation emits: signals to requests that wait for a transaction, notifications of commit
  listeners, messages to all peers or to one, and a wake-up of the ticker.
\<close>

datatype ('s, 'l) node_output =
    Resolved "('s, (NodeError, Block) outcome) signal"
  | Notified 'l Block
  | SendAll NetworkEvent
  | SendTo PeerId NetworkEvent
  | WakeTicker

type_synonym ('db, 'sdb, 's, 'l, 'a) node_op =
  "(('db, 'sdb, 's, 'l) NodeShared, ('s, 'l) node_output, NodeError, 'a) op"

section \<open>Validators\<close>

text \<open>
  \<^verbatim>\<open>RollupContract::validators_for_height\<close>: the last set that is valid from the height on. A bound
  that does not fit 64 bits panics, as does the absence of a set.
\<close>

definition validators_for_height :: "ValidatorSet list \<Rightarrow> u64 \<Rightarrow> ('e, Address list) outcome" where
  "validators_for_height sets h =
     (if list_ex (\<lambda>v. 2 ^ 64 \<le> unat (valid_from v)) sets then Panic
      else
        (let valid = filter (\<lambda>v. unat (valid_from v) \<le> unat h) sets
         in if valid = [] then Panic else Ok (vs_validators (last valid))))"

text \<open>The remainder by an empty number of validators panics.\<close>

definition get_leader_for_block_height :: "('db, 'sdb) node_env \<Rightarrow> BlockHeight \<Rightarrow> ('e, Address) outcome" where
  "get_leader_for_block_height E h =
     obind (validators_for_height (validator_sets E) h) (\<lambda>validators.
       if validators = [] then Panic
       else Ok (validators ! (unat h mod length validators)))"

definition is_validator_for_height :: "('db, 'sdb) node_env \<Rightarrow> BlockHeight \<Rightarrow> ('e, bool) outcome" where
  "is_validator_for_height E h =
     (if mode (config E) \<noteq> Validator then Ok False
      else omap (\<lambda>validators. list_ex (\<lambda>p. self_peer E = p) validators) (validators_for_height (validator_sets E) h))"

section \<open>Validation of transactions and blocks\<close>

text \<open>The root hashes of the stored blocks below a height, at most \<^verbatim>\<open>RECENT_ROOT_COUNT\<close> heights back.\<close>

definition recent_roots :: "('db, 'sdb) node_env \<Rightarrow> 'db \<Rightarrow> BlockHeight \<Rightarrow> (NodeError, element list) outcome" where
  "recent_roots E store h =
     (let next_block = height_next h;
          first = (if next_block < RECENT_ROOT_COUNT then 0 else next_block - RECENT_ROOT_COUNT)
      in collect_results
           (map (\<lambda>r. omap (\<lambda>(_, f). broot (into_block f)) (omap_err NodeBlockStore r))
             (store_list (store_db E) (store_ops E) store (Included first, Excluded next_block) LowestToHighest)))"

fun check_leaves :: "'sdb note_tree \<Rightarrow> (element \<Rightarrow> NodeError) \<Rightarrow> element list \<Rightarrow> (NodeError, unit) outcome" where
  "check_leaves p found [] = Ok ()"
| "check_leaves p found (leaf # ls) =
     (if MODULUS \<le> leaf then Err (InvalidElementSize leaf)
      else if leaf \<noteq> ZERO \<and> contains_element (ptree p) leaf then Err (found leaf)
      else check_leaves p found ls)"

definition validate_txn ::
    "('db, 'sdb) node_env \<Rightarrow> UTXOProof \<Rightarrow> BlockHeight \<Rightarrow> 'db \<Rightarrow> 'sdb note_tree \<Rightarrow> (NodeError, unit) outcome" where
  "validate_txn E utxo h store p =
     obind (utxo_verify (snark_verify E) utxo) (\<lambda>valid.
     if \<not> valid then Err InvalidProof
     else
       obind (if recent_root utxo = ZERO then Ok ()
              else obind (recent_roots E store h) (\<lambda>roots.
                if recent_root utxo \<notin> set roots \<and> \<not> is_prover (mode (config E))
                then Err (UtxoRootIsNotRecentEnough (recent_root utxo) roots (txn_key E utxo))
                else Ok ())) (\<lambda>_.
       obind (check_leaves p (\<lambda>leaf. NoteAlreadySpent leaf (txn_key E utxo)) (pair_list (input_leaves utxo))) (\<lambda>_.
       check_leaves p OutputNoteExists (pair_list (output_leaves utxo)))))"

text \<open>The leaves of a transaction are added to the leaves seen in the block.\<close>

fun insert_leaves ::
    "CryptoHash \<Rightarrow> element list \<Rightarrow> (element, CryptoHash) hashmap \<Rightarrow> (NodeError, (element, CryptoHash) hashmap) outcome" where
  "insert_leaves x [] seen = Ok seen"
| "insert_leaves x (leaf # ls) seen =
     (if leaf = ZERO then insert_leaves x ls seen
      else case map_of seen leaf of
             Some y \<Rightarrow> Err (LeafAlreadyInsertedInTheSameBlock leaf y x)
           | None \<Rightarrow> insert_leaves x ls (AList.update leaf x seen))"

fun validate_txns ::
    "('db, 'sdb) node_env \<Rightarrow> BlockHeight \<Rightarrow> 'db \<Rightarrow> 'sdb note_tree \<Rightarrow> UTXOProof list \<Rightarrow> (element, CryptoHash) hashmap
      \<Rightarrow> (NodeError, (element, CryptoHash) hashmap) outcome" where
  "validate_txns E h store p [] seen = Ok seen"
| "validate_txns E h store p (txn # ts) seen =
     obind (insert_leaves (txn_key E txn) (utxo_leaves txn) seen) (\<lambda>seen'.
     obind (validate_txn E txn h store p) (\<lambda>_.
     validate_txns E h store p ts seen'))"

text \<open>The what-if root hash of the notes tree; the tree's hash cache records the hashes it computes.\<close>

definition notes_root_with ::
    "('db, 'sdb) node_env \<Rightarrow> 'sdb note_tree \<Rightarrow> element list \<Rightarrow> 'sdb note_tree \<times> (NodeError, element) outcome" where
  "notes_root_with E p extra =
     (case root_hash_with (hash_merge2 E) (simple_hash (hash_merge2 E)) MERKLE_TREE_DEPTH (ptree p) extra of
        Ok (r, c) \<Rightarrow> (p\<lparr>ptree := (ptree p)\<lparr>cache := c\<rparr>\<rparr>, Ok r)
      | _ \<Rightarrow> (p, Panic))"

definition notes_root :: "('db, 'sdb) node_env \<Rightarrow> 'sdb note_tree \<Rightarrow> element" where
  "notes_root E p = root_hash (hash_merge2 E) (ptree p)"

text \<open>The root hash after inserting leaves, if there are any.\<close>

definition new_root_hash ::
    "('db, 'sdb) node_env \<Rightarrow> 'sdb note_tree \<Rightarrow> element list \<Rightarrow> 'sdb note_tree \<times> (NodeError, element) outcome" where
  "new_root_hash E p leaves =
     (if leaves = [] then (p, Ok (notes_root E p)) else notes_root_with E p leaves)"

definition content_validate ::
    "('db, 'sdb) node_env \<Rightarrow> BlockContent \<Rightarrow> 'db \<Rightarrow> 'sdb note_tree \<Rightarrow> 'sdb note_tree \<times> (NodeError, unit) outcome" where
  "content_validate E c store p =
     (case validate_txns E (height (header c)) store p (state_txns (state c)) [] of
        Ok txn_leaves \<Rightarrow>
          (let (p', r) = new_root_hash E p (map fst txn_leaves)
           in (p', obind r (\<lambda>got.
                 if got \<noteq> state_root_hash (state c)
                 then Err (InvalidBlockRoot got (state_root_hash (state c))) else Ok ())))
      | Err e \<Rightarrow> (p, Err e)
      | Panic \<Rightarrow> (p, Panic))"

text \<open>An operation on the notes tree alone.\<close>

definition on_tree ::
    "('sdb note_tree \<Rightarrow> 'sdb note_tree \<times> (NodeError, 'a) outcome) \<Rightarrow> ('db, 'sdb, 's, 'l, 'a) node_op" where
  "on_tree f = (\<lambda>st. let (p, r) = f (notes_tree st) in (st\<lparr>notes_tree := p\<rparr>, [], r))"

definition validate_block :: "('db, 'sdb) node_env \<Rightarrow> Block \<Rightarrow> ('db, 'sdb, 's, 'l, unit) node_op" where
  "validate_block E block =
     (if bheight block \<in> set (bad_blocks (config E)) then nret ()
      else
        nbind (nlift (get_leader_for_block_height E (bheight block))) (\<lambda>validator.
        nbind (nlift (verify_signature E (bsignature block) (bhash (henv E) block))) (\<lambda>signed_by.
        case signed_by of
          None \<Rightarrow> nlift (Err InvalidBlockSignature)
        | Some a \<Rightarrow>
            if a \<noteq> validator then nlift (Err InvalidBlockSignature)
            else nbind (nget block_store) (\<lambda>store.
              on_tree (content_validate E (bcontent block) store)))))"

section \<open>Committing a block\<close>

definition nonzero_leaves :: "BlockState \<Rightarrow> element list" where
  "nonzero_leaves s = filter (\<lambda>e. e \<noteq> ZERO) (concat (map utxo_leaves (state_txns s)))"

definition apply_block_to_tree ::
    "('db, 'sdb) node_env \<Rightarrow> BlockState \<Rightarrow> BlockHeight \<Rightarrow> bool \<Rightarrow> 'sdb note_tree \<Rightarrow> 'sdb note_tree \<times> (NodeError, unit) outcome" where
  "apply_block_to_tree E s current_height ignore_collisions p =
     (let leaves = nonzero_leaves s in
      if \<not> ignore_collisions \<and> list_ex (contains_element (ptree p)) leaves then (p, Panic)
      else
        (let with_height = map (\<lambda>e. (e, \<lparr>inserted_in = current_height\<rparr>)) leaves;
             selected = (if ignore_collisions then filter (\<lambda>(e, _). \<not> contains_element (ptree p) e) with_height
                         else with_height)
         in case from_entries MERKLE_TREE_DEPTH selected of
              Err e \<Rightarrow> (p, Err (NodeCollision e))
            | Panic \<Rightarrow> (p, Panic)
            | Ok batch \<Rightarrow>
                apsnd (omap_err NodeSmirk)
                  (persistent_insert_batch (hash_merge2 E) (tree_codec E) MERKLE_TREE_DEPTH (tree_db E) p batch)))"

definition store_block :: "('db, 'sdb) node_env \<Rightarrow> BlockFormat \<Rightarrow> ('db, 'sdb, 's, 'l, unit) node_op" where
  "store_block E f = (\<lambda>st.
     case store_set (store_db E) (store_ops E) (block_store st) f of
       Ok db \<Rightarrow> (st\<lparr>block_store := db\<rparr>, [], Ok ())
     | Err e \<Rightarrow> (st, [], Err (NodeBlockStore e))
     | Panic \<Rightarrow> (st, [], Panic))"

definition commit_mempool ::
    "('db, 'sdb) node_env \<Rightarrow> BlockHeight \<Rightarrow> (CryptoHash \<times> (NodeError, Block) outcome) list
      \<Rightarrow> ('db, 'sdb, 's, 'l, unit) node_op" where
  "commit_mempool E lease krs = (\<lambda>st.
     let (mp, sigs) = mempool_commit (shuffle_keys E) lease krs (mempool st)
     in (st\<lparr>mempool := mp\<rparr>, map Resolved sigs, Ok ()))"

text \<open>
  Committing a block at the instant \<open>now\<close> (the wall-clock second \<open>utc\<close>): the store is written before
  the tree. A listener whose channel is closed (\<open>alive\<close> fails) is dropped.
\<close>

definition commit_proposal ::
    "('db, 'sdb) node_env \<Rightarrow> Instant \<Rightarrow> u64 \<Rightarrow> ('l \<Rightarrow> bool) \<Rightarrow> Block \<Rightarrow> ('db, 'sdb, 's, 'l, unit) node_op" where
  "commit_proposal E now utc alive block =
     (let s = state (bcontent block); h = bheight block;
          keys = map (txn_key E) (state_txns s);
          skip_validation = (h \<in> set (bad_blocks (config E)))
      in nbind (nmod (\<lambda>st. st\<lparr>last_commit := Some now\<rparr>)) (\<lambda>_.
         nbind (nget (\<lambda>st. \<not> skip_validation \<and> list_ex (contains_element (ptree (notes_tree st))) (nonzero_leaves s)))
           (\<lambda>double_spend.
         nbind (nlift (if double_spend then Panic else Ok ())) (\<lambda>_.
         nbind (store_block E (BlockV2 block \<lparr>timestamp_unix_s = Some utc\<rparr>)) (\<lambda>_.
         nbind (on_tree (apply_block_to_tree E s h skip_validation)) (\<lambda>_.
         nbind (commit_mempool E h (map (\<lambda>k. (k, Ok block)) keys)) (\<lambda>_.
         nbind (nget (\<lambda>st. filter alive (listeners st))) (\<lambda>live.
         nbind (nmod (\<lambda>st. st\<lparr>listeners := live\<rparr>)) (\<lambda>_.
         nout (map (\<lambda>l. Notified l block) live))))))))))"

end
