(* ===== verification/Node_Ops.thy ===== *)
theory Node_Ops
  imports Node
begin

text \<open>
  The operations that drive the node: received and submitted transactions (\<^verbatim>\<open>node/transaction.rs\<close>), proposals
  (\<^verbatim>\<open>node/proposal.rs\<close>), accepts, queries (\<^verbatim>\<open>node.rs\<close>), the ticker (\<^verbatim>\<open>node/tick_worker.rs\<close>) and
  the start of the node (\<^verbatim>\<open>node/load.rs\<close>).
\<close>

section \<open>Queries\<close>

fun collect_paths ::
    "('db, 'sdb) node_env \<Rightarrow> (SmirkMetadata, SimpleHashCache) Tree \<Rightarrow> element list \<Rightarrow> (NodeError, element list list) outcome" where
  "collect_paths E t [] = Ok []"
| "collect_paths E t (e # es) =
     (if \<not> contains_element t e then Err (ElementNotInTree e)
      else obind (unwrap (path_for (hash_merge2 E) MERKLE_TREE_DEPTH t e)) (\<lambda>path.
        omap (\<lambda>ps. siblings_deepest_first MERKLE_TREE_DEPTH path # ps) (collect_paths E t es)))"

definition get_merkle_paths ::
    "('db, 'sdb) node_env \<Rightarrow> element list \<Rightarrow> ('db, 'sdb, 's, 'l) NodeShared \<Rightarrow> (NodeError, element list list) outcome" where
  "get_merkle_paths E es st = collect_paths E (ptree (notes_tree st)) es"

definition fetch_blocks ::
    "('db, 'sdb) node_env \<Rightarrow> BlockHeight bound \<times> BlockHeight bound \<Rightarrow> BlockListOrder \<Rightarrow> ('db, 'sdb, 's, 'l) NodeShared
      \<Rightarrow> (NodeError, BlockFormat) outcome list" where
  "fetch_blocks E rng order st =
     map (\<lambda>r. omap snd (omap_err NodeBlockStore r)) (store_list (store_db E) (store_ops E) (block_store st) rng order)"

definition fetch_blocks_paginated ::
    "('db, 'sdb) node_env \<Rightarrow> BlockHeight CursorChoice option \<Rightarrow> BlockListOrder \<Rightarrow> nat \<Rightarrow> ('db, 'sdb, 's, 'l) NodeShared
      \<Rightarrow> (NodeError, (NodeError, BlockFormat) outcome list) outcome" where
  "fetch_blocks_paginated E cursor order limit st =
     omap (map (\<lambda>r. omap snd (omap_err NodeBlockStore r)))
       (omap_err NodeBlockStore (store_list_paginated (store_db E) (store_ops E) (block_store st) cursor order limit))"

definition fetch_blocks_non_empty ::
    "('db, 'sdb) node_env \<Rightarrow> BlockHeight bound \<times> BlockHeight bound \<Rightarrow> BlockListOrder \<Rightarrow> ('db, 'sdb, 's, 'l) NodeShared
      \<Rightarrow> (NodeError, BlockFormat) outcome list" where
  "fetch_blocks_non_empty E rng order st =
     map (\<lambda>r. omap snd (omap_err NodeBlockStore r))
       (store_list_non_empty (store_db E) (store_ops E) (block_store st) rng order)"

definition fetch_blocks_non_empty_paginated ::
    "('db, 'sdb) node_env \<Rightarrow> BlockHeight CursorChoice option \<Rightarrow> BlockListOrder \<Rightarrow> nat \<Rightarrow> ('db, 'sdb, 's, 'l) NodeShared
      \<Rightarrow> (NodeError, (NodeError, BlockFormat) outcome list) outcome" where
  "fetch_blocks_non_empty_paginated E cursor order limit st =
     omap (map (\<lambda>r. omap snd (omap_err NodeBlockStore r)))
       (omap_err NodeBlockStore (store_list_non_empty_paginated (store_db E) (store_ops E) (block_store st) cursor order limit))"

definition get_block ::
    "('db, 'sdb) node_env \<Rightarrow> BlockHeight \<Rightarrow> ('db, 'sdb, 's, 'l) NodeShared \<Rightarrow> (NodeError, BlockFormat option) outcome" where
  "get_block E h st = omap_err NodeBlockStore (store_get (store_db E) (store_ops E) (block_store st) h)"

definition get_block_by_hash ::
    "('db, 'sdb) node_env \<Rightarrow> CryptoHash \<Rightarrow> ('db, 'sdb, 's, 'l) NodeShared \<Rightarrow> (NodeError, BlockFormat option) outcome" where
  "get_block_by_hash E x st =
     obind (omap_err NodeBlockStore (get_block_height_by_hash (store_db E) (block_store st) x)) (\<lambda>h.
       case h of None \<Rightarrow> Ok None | Some h \<Rightarrow> get_block E h st)"

definition get_txn ::
    "('db, 'sdb) node_env \<Rightarrow> CryptoHash \<Rightarrow> ('db, 'sdb, 's, 'l) NodeShared
      \<Rightarrow> (NodeError, (UTXOProof \<times> TxnMetadata) option) outcome" where
  "get_txn E x st =
     omap (map_option (\<lambda>f. case f of TxnV1 t m \<Rightarrow> (t, m)))
       (omap_err NodeBlockStore (get_txn_by_hash (store_db E) (store_ops E) (block_store st) x))"

text \<open>The subtraction from the current second saturates at height 0 and wraps below 0.\<close>

definition estimate_block_time :: "u64 \<Rightarrow> BlockHeight \<Rightarrow> BlockHeight \<Rightarrow> u64" where
  "estimate_block_time now_s h max_height = now_s - (if max_height < h then 0 else max_height - h)"

text \<open>
  \<^verbatim>\<open>commit_stream\<close> after its first commit has arrived: the stored blocks from the height on, the first
  commit and then the later commits \<open>rest\<close>, of which blocks below the height are dropped.
\<close>

definition commit_stream ::
    "('db, 'sdb) node_env \<Rightarrow> BlockHeight option \<Rightarrow> Block \<Rightarrow> Block list \<Rightarrow> ('db, 'sdb, 's, 'l) NodeShared
      \<Rightarrow> (NodeError, Block) outcome list" where
  "commit_stream E from_height first_commit rest st =
     (case from_height of
        None \<Rightarrow> Ok first_commit # map Ok rest
      | Some from \<Rightarrow>
          filter (\<lambda>r. case r of Ok b \<Rightarrow> from \<le> bheight b | _ \<Rightarrow> True)
            (map (omap into_block) (fetch_blocks E (Included from, Excluded (bheight first_commit)) LowestToHighest st)
             @ Ok first_commit # map Ok rest))"

section \<open>Transactions\<close>

text \<open>What the Ethereum node answers during a validation; mints and burns are looked up at a height.\<close>

record eth_view =
  eth_block_number :: "(unit, u64) outcome"
  get_mint :: "u64 \<Rightarrow> element \<Rightarrow> (unit, bool) outcome"
  has_burn :: "u64 \<Rightarrow> element \<Rightarrow> (unit, bool) outcome"

definition safe_eth_height :: "Config \<Rightarrow> u64 \<Rightarrow> u64" where
  "safe_eth_height cfg eth_block =
     (if eth_block < safe_eth_height_offset cfg then 0 else eth_block - safe_eth_height_offset cfg)"

definition validate_mint_or_burn :: "eth_view \<Rightarrow> u64 \<Rightarrow> UTXOProof \<Rightarrow> (NodeError, unit) outcome" where
  "validate_mint_or_burn eth h utxo =
     (let (i0, i1) = input_leaves utxo; (o0, o1) = output_leaves utxo in
      if i0 = ZERO \<and> i1 = ZERO \<and> o1 = ZERO
      then obind (omap_err (\<lambda>_. NodeContracts) (get_mint eth h o0)) (\<lambda>found.
             if found then Ok () else Err (MintIsNotInTheContract o0))
      else if i1 = ZERO \<and> o0 = ZERO \<and> o1 = ZERO
      then obind (omap_err (\<lambda>_. NodeContracts) (has_burn eth h i0)) (\<lambda>found.
             if found then Ok () else Err (BurnIsNotInTheContract i0))
      else Err InvalidMintOrBurnLeaves)"

definition validate_transaction ::
    "('db, 'sdb) node_env \<Rightarrow> eth_view \<Rightarrow> UTXOProof \<Rightarrow> ('db, 'sdb, 's, 'l) NodeShared \<Rightarrow> (NodeError, unit) outcome" where
  "validate_transaction E eth utxo st =
     obind (if mb_hash utxo \<noteq> ZERO \<and> mb_value utxo \<noteq> ZERO
            then obind (omap_err (\<lambda>_. FailedToGetEthBlockNumber) (eth_block_number eth)) (\<lambda>eth_block.
                   validate_mint_or_burn eth (safe_eth_height (config E) eth_block) utxo)
            else Ok ()) (\<lambda>_.
     validate_txn E utxo (cheight (block_cache st)) (block_store st) (notes_tree st))"

text \<open>A transaction from a peer; an invalid one is logged and dropped.\<close>

definition receive_transaction ::
    "('db, 'sdb) node_env \<Rightarrow> eth_view \<Rightarrow> UTXOProof \<Rightarrow> ('db, 'sdb, 's, 'l, unit) node_op" where
  "receive_transaction E eth txn =
     nbind (nget (validate_transaction E eth txn)) (\<lambda>r.
       case r of
         Ok _ \<Rightarrow> nmod (\<lambda>st. st\<lparr>mempool := mempool_add (txn_key E txn) txn (utxo_leaves txn) (mempool st)\<rparr>)
       | Err _ \<Rightarrow> nret ()
       | Panic \<Rightarrow> nlift Panic)"

text \<open>
  The wait for a mint or burn to appear in the contract. Each round has the validation's view of
  Ethereum and the block number read afterwards; the loop goes on while the list of rounds lasts,
  and \<open>None\<close> is a wait that is not over.
\<close>

fun is_not_in_contract :: "NodeError \<Rightarrow> bool" where
  "is_not_in_contract (MintIsNotInTheContract _) = True"
| "is_not_in_contract (BurnIsNotInTheContract _) = True"
| "is_not_in_contract _ = False"

fun submit_loop ::
    "('db, 'sdb) node_env \<Rightarrow> UTXOProof \<Rightarrow> ('db, 'sdb, 's, 'l) NodeShared \<Rightarrow> (eth_view \<times> (unit, u64) outcome) list
      \<Rightarrow> u64 option \<Rightarrow> (NodeError, unit) outcome option" where
  "submit_loop E utxo st [] waiting = None"
| "submit_loop E utxo st ((eth, number) # rounds) waiting =
     (case validate_transaction E eth utxo st of
        Ok _ \<Rightarrow> Some (Ok ())
      | Panic \<Rightarrow> Some Panic
      | Err err \<Rightarrow>
          (if is_not_in_contract err
           then (case number of
                   Ok current \<Rightarrow>
                     (let started_at = (case waiting of Some n \<Rightarrow> n | None \<Rightarrow> current) in
                      if safe_eth_height_offset (config E) = 0 \<or> current - started_at > safe_eth_height_offset (config E)
                      then Some (Err err)
                      else submit_loop E utxo st rounds (Some started_at))
                 | Err _ \<Rightarrow> Some (Err FailedToGetEthBlockNumber)
                 | Panic \<Rightarrow> Some Panic)
           else Some (Err err)))"

text \<open>After the loop the transaction is sent to the peers and added with the sender \<open>s\<close>, which is then awaited.\<close>

definition submit_transaction ::
    "('db, 'sdb) node_env \<Rightarrow> UTXOProof \<Rightarrow> 's \<Rightarrow> ('db, 'sdb, 's, 'l, unit) node_op" where
  "submit_transaction E utxo s =
     nbind (nout [SendAll (EvTransaction utxo)]) (\<lambda>_.
     (\<lambda>st. let (mp, sigs) = mempool_add_wait (txn_key E utxo) utxo (utxo_leaves utxo) s (mempool st)
           in (st\<lparr>mempool := mp\<rparr>, map Resolved sigs, Ok ())))"

section \<open>Proposals\<close>

definition receive_proposal :: "('db, 'sdb) node_env \<Rightarrow> Block \<Rightarrow> ('db, 'sdb, 's, 'l, unit) node_op" where
  "receive_proposal E block =
     (if mode (config E) = Validator then nlift Panic
      else
        nmod (\<lambda>st. st\<lparr>block_cache := cache_insert (henv E) block (block_cache st),
                      mempool := lease_txns (bheight block) (map (txn_key E) (btxns block)) (mempool st)\<rparr>))"

text \<open>The validation of the leased transactions; the first failure ends the proposal.\<close>

fun validate_leased ::
    "('db, 'sdb) node_env \<Rightarrow> (nat \<Rightarrow> eth_view) \<Rightarrow> BlockHeight \<Rightarrow> nat \<Rightarrow> (CryptoHash \<times> UTXOProof) list
      \<Rightarrow> ('db, 'sdb, 's, 'l, unit) node_op" where
  "validate_leased E eths h i [] = nret ()"
| "validate_leased E eths h i ((_, txn) # rest) =
     nbind (nget (validate_transaction E (eths i) txn)) (\<lambda>r.
       case r of
         Ok _ \<Rightarrow> validate_leased E eths h (Suc i) rest
       | Panic \<Rightarrow> nlift Panic
       | Err err \<Rightarrow>
           nbind (commit_mempool E h [(txn_key E txn, Err err)]) (\<lambda>_.
           nlift (Err (InvalidTransaction (txn_key E txn)))))"

text \<open>The errors of the repeated validations, one for each transaction; a success there is unreachable.\<close>

fun repeat_validation ::
    "('db, 'sdb) node_env \<Rightarrow> Block \<Rightarrow> CryptoHash list
      \<Rightarrow> ('db, 'sdb, 's, 'l, (CryptoHash \<times> (NodeError, Block) outcome) list) node_op" where
  "repeat_validation E block [] = nret []"
| "repeat_validation E block (k # ks) =
     nbind (ntry (validate_block E block)) (\<lambda>r.
       case r of
         Err e \<Rightarrow> nbind (repeat_validation E block ks) (\<lambda>rest. nret ((k, Err e) # rest))
       | _ \<Rightarrow> nlift Panic)"

text \<open>How a proposal that fails its own validation answers the transactions.\<close>

definition reject_proposal :: "('db, 'sdb) node_env \<Rightarrow> BlockHeight \<Rightarrow> Block \<Rightarrow> NodeError \<Rightarrow> ('db, 'sdb, 's, 'l, unit) node_op" where
  "reject_proposal E h block err =
     (case err of
        LeafAlreadyInsertedInTheSameBlock leaf txn failing \<Rightarrow> commit_mempool E h [(failing, Err err)]
      | NoteAlreadySpent note failing \<Rightarrow> commit_mempool E h [(failing, Err err)]
      | UtxoRootIsNotRecentEnough root roots txn \<Rightarrow> commit_mempool E h [(txn, Err err)]
      | _ \<Rightarrow>
          nbind (repeat_validation E block (map (txn_key E) (btxns block))) (\<lambda>krs.
          commit_mempool E h krs))"

definition lease_block_txns ::
    "('db, 'sdb) node_env \<Rightarrow> BlockHeight \<Rightarrow> ('db, 'sdb, 's, 'l, (CryptoHash \<times> UTXOProof) list) node_op" where
  "lease_block_txns E h = (\<lambda>st.
     case lease_batch h (block_txns_count (config E)) (mempool st) of
       Ok (mp, utxos) \<Rightarrow> (st\<lparr>mempool := mp\<rparr>, [], Ok utxos)
     | _ \<Rightarrow> (st, [], Panic))"

definition create_proposal ::
    "('db, 'sdb) node_env \<Rightarrow> Instant \<Rightarrow> u64 \<Rightarrow> ('l \<Rightarrow> bool) \<Rightarrow> (nat \<Rightarrow> eth_view) \<Rightarrow> CryptoHash \<Rightarrow> BlockHeight
      \<Rightarrow> ApprovalValidated list \<Rightarrow> ('db, 'sdb, 's, 'l, Block) node_op" where
  "create_proposal E now utc alive eths last_hash h accepts =
     nbind (lease_block_txns E h) (\<lambda>utxos.
     nbind (validate_leased E eths h 0 utxos) (\<lambda>_.
     let ts = map snd utxos;
         leaves = filter (\<lambda>leaf. leaf \<noteq> ZERO) (concat (map utxo_leaves ts))
     in nbind (on_tree (\<lambda>p. new_root_hash E p leaves)) (\<lambda>root.
        let c = \<lparr>header = \<lparr>height = h, last_block_hash = last_hash, epoch_id = 0, last_final_block_hash = last_hash,
                           approvals = map signature accepts\<rparr>,
                 state = block_state_new root ts\<rparr>;
            block = to_block (henv E) (sign_hash E) c
        in nbind (ntry (validate_block E block)) (\<lambda>r.
           case r of
             Panic \<Rightarrow> nlift Panic
           | Err err \<Rightarrow> nbind (reject_proposal E h block err) (\<lambda>_. nlift (Err err))
           | Ok _ \<Rightarrow>
               nbind (commit_proposal E now utc alive block) (\<lambda>_.
               nbind (nmod (\<lambda>st. st\<lparr>block_cache := cache_confirm h (cache_insert (henv E) block (block_cache st))\<rparr>)) (\<lambda>_.
               nbind (nout [SendAll (EvBlock block)]) (\<lambda>_.
               nret block)))))))"

section \<open>Accepts\<close>

definition node_out_of_sync :: "('db, 'sdb, 's, 'l, bool) node_op" where
  "node_out_of_sync = (\<lambda>st. (st, [], unwrap (is_out_of_sync (block_cache st))))"

definition send_accept :: "('db, 'sdb) node_env \<Rightarrow> ApprovalContent \<Rightarrow> ('db, 'sdb, 's, 'l, unit) node_op" where
  "send_accept E c =
     (if mode (config E) \<noteq> Validator then nret ()
      else nbind node_out_of_sync (\<lambda>out.
        if out then nret ()
        else nbind (nlift (to_approval (keccak (henv E)) (sign_hash E) c)) (\<lambda>approval.
          nout [SendAll (EvApproval approval)])))"

definition accept_stakes :: "Address list \<Rightarrow> (ApprovalStake \<times> bool) list" where
  "accept_stakes validators =
     map (\<lambda>a. (\<lparr>stake_validator = a, stake_this_epoch = 1, stake_next_epoch = 1\<rparr>, False)) validators"

definition doomslug_verify ::
    "('db, 'sdb) node_env \<Rightarrow> Signature \<Rightarrow> CryptoHash \<Rightarrow> (DoomslugError, Address option) outcome" where
  "doomslug_verify E sig x = (case verify_signature E sig x of Ok a \<Rightarrow> Ok a | _ \<Rightarrow> Panic)"

definition receive_accept ::
    "('db, 'sdb) node_env \<Rightarrow> Instant \<Rightarrow> DateTime \<Rightarrow> Approval \<Rightarrow> ('db, 'sdb, 's, 'l, unit) node_op" where
  "receive_accept E now utc msg =
     (if mode (config E) \<noteq> Validator then nret ()
      else
        nbind (nlift (get_leader_for_block_height E (target_height (ap_content msg)))) (\<lambda>leader.
        if leader \<noteq> self_peer E then nret ()
        else
          nbind (nlift (omap_err NodeDoomslugError (approval_validate (keccak (henv E)) (doomslug_verify E) msg))) (\<lambda>approval.
          nbind (nlift (validators_for_height (validator_sets E) (target_height (ap_content msg)))) (\<lambda>validators.
          (\<lambda>st. case on_approval now utc approval (accept_stakes validators) (doomslug st) of
                  Ok d \<Rightarrow> (st\<lparr>doomslug := d\<rparr>, [], Ok ())
                | _ \<Rightarrow> (st, [], Panic))))))"

section \<open>The ticker\<close>

text \<open>
  Committing the next cached blocks. A block that does not validate is removed; a failing commit
  ends the tick (\<open>False\<close>). The value \<open>None\<close> is a loop that never ends. Clock readings do not
  depend on the round.
\<close>

partial_function (option) commit_loop ::
    "('db, 'sdb) node_env \<Rightarrow> Instant \<Rightarrow> u64 \<Rightarrow> ('l \<Rightarrow> bool) \<Rightarrow> ('db, 'sdb, 's, 'l) NodeShared
      \<Rightarrow> (('db, 'sdb, 's, 'l) NodeShared \<times> ('s, 'l) node_output list \<times> (NodeError, bool) outcome) option" where
  "commit_loop E now utc alive st =
     (case get_next_commit_block (block_cache st) of
        None \<Rightarrow> Some (st, [], Ok True)
      | Some block \<Rightarrow>
          (case validate_block E block st of
             (st1, os1, Panic) \<Rightarrow> Some (st1, os1, Panic)
           | (st1, os1, Err _) \<Rightarrow>
               Option.bind (commit_loop E now utc alive
                   (st1\<lparr>block_cache := cache_remove (bhash (henv E) block) (block_cache st1)\<rparr>))
                 (\<lambda>(st2, os2, r). Some (st2, os1 @ os2, r))
           | (st1, os1, Ok _) \<Rightarrow>
               (case commit_proposal E now utc alive block
                       (st1\<lparr>block_cache := cache_confirm (bheight block) (block_cache st1)\<rparr>) of
                  (st2, os2, Panic) \<Rightarrow> Some (st2, os1 @ os2, Panic)
                | (st2, os2, Err _) \<Rightarrow> Some (st2, os1 @ os2, Ok False)
                | (st2, os2, Ok _) \<Rightarrow>
                    Option.bind (commit_loop E now utc alive st2)
                      (\<lambda>(st3, os3, r). Some (st3, os1 @ os2 @ os3, r)))))"

text \<open>What a tick asks for: the delay in seconds until the next one, or none.\<close>

datatype tick_result = NextTick nat | WaitForWake

text \<open>
  A tick; \<open>sync_alive\<close> tells whether the channel to the sync worker is open, and the list of messages
  to it is the last component.
\<close>

definition tick_idle ::
    "('db, 'sdb) node_env \<Rightarrow> Instant \<Rightarrow> u64 \<Rightarrow> ('l \<Rightarrow> bool) \<Rightarrow> ('db, 'sdb, 's, 'l) NodeShared
      \<Rightarrow> (('db, 'sdb, 's, 'l) NodeShared \<times> ('s, 'l) node_output list \<times> (NodeError, tick_result) outcome
           \<times> BlockHeight option) option" where
  "tick_idle E now utc alive st =
     (case commit_loop E now utc alive st of
        None \<Rightarrow> None
      | Some (st1, os, Ok False) \<Rightarrow> Some (st1, os, Ok WaitForWake, None)
      | Some (st1, os, Ok True) \<Rightarrow>
          Some (case is_out_of_sync (block_cache st1) of
             Ok True \<Rightarrow> (st1, os, Ok (NextTick 5), Some (cmax_height (block_cache st1)))
           | Ok False \<Rightarrow> (st1, os, Ok (if mode (config E) = Validator then NextTick 60 else WaitForWake), None)
           | _ \<Rightarrow> (st1, os, Panic, None))
      | Some (st1, os, r) \<Rightarrow> Some (st1, os, omap (\<lambda>_. WaitForWake) r, None))"

definition tick_propose ::
    "('db, 'sdb) node_env \<Rightarrow> Instant \<Rightarrow> u64 \<Rightarrow> ('l \<Rightarrow> bool) \<Rightarrow> (nat \<Rightarrow> eth_view) \<Rightarrow> ('db, 'sdb, 's, 'l, tick_result) node_op" where
  "tick_propose E now utc alive eths =
     nbind (nget (\<lambda>st. cheight (block_cache st))) (\<lambda>h.
     nbind (\<lambda>st. (st, [], unwrap (cache_hash (block_cache st)))) (\<lambda>last_confirmed.
     nbind (nlift (to_approval_validated (keccak (henv E)) (sign_hash E) (self_peer E)
              (new_endorsement last_confirmed (h + 1)))) (\<lambda>approval.
     nbind (ntry (create_proposal E now utc alive eths last_confirmed (h + 1) [approval])) (\<lambda>_.
     nret (NextTick 1)))))"

definition tick ::
    "('db, 'sdb) node_env \<Rightarrow> Instant \<Rightarrow> u64 \<Rightarrow> ('l \<Rightarrow> bool) \<Rightarrow> (nat \<Rightarrow> eth_view) \<Rightarrow> ('db, 'sdb, 's, 'l) NodeShared
      \<Rightarrow> (('db, 'sdb, 's, 'l) NodeShared \<times> ('s, 'l) node_output list \<times> (NodeError, tick_result) outcome
           \<times> BlockHeight option) option" where
  "tick E now utc alive eths st =
     (case is_validator_for_height E (cheight (block_cache st) + 1) of
        Ok False \<Rightarrow> tick_idle E now utc alive st
      | Ok True \<Rightarrow>
          (case tick_propose E now utc alive eths st of (st1, os, r) \<Rightarrow> Some (st1, os, r, None))
      | _ \<Rightarrow> Some (st, [], Panic, None))"

section \<open>Starting the node\<close>

record ('db, 'sdb) LoadedData =
  ld_block_store :: 'db
  ld_persistent_tree :: "'sdb note_tree"
  ld_block :: Block

text \<open>
  The state of the disk as the loading sees it: opening the current databases, and opening the fresh
  ones that \<^verbatim>\<open>reset_db_and_smirk\<close> leaves after moving the current ones away (which may fail with an
  I/O error).
\<close>

record ('db, 'sdb) disk =
  open_store :: "(StoreError, 'db) outcome"
  open_tree :: "(unit, 'sdb) outcome"
  reset_tree :: "(unit, unit) outcome"
  reset_both :: "(unit, unit) outcome"
  fresh_store :: "(StoreError, 'db) outcome"
  fresh_tree :: "(unit, 'sdb) outcome"

definition load_notes :: "('db, 'sdb) node_env \<Rightarrow> (unit, 'sdb) outcome \<Rightarrow> (NodeError, 'sdb note_tree) outcome" where
  "load_notes E opened =
     omap_err NodeSmirk (persistent_load (hash_merge2 E) (tree_codec E) MERKLE_TREE_DEPTH (tree_db E) opened)"

text \<open>A block that must be in the store: a missing one is unwrapped.\<close>

definition stored_block :: "('db, 'sdb) node_env \<Rightarrow> 'db \<Rightarrow> BlockHeight \<Rightarrow> (NodeError, Block) outcome" where
  "stored_block E db h =
     obind (omap_err NodeBlockStore (store_get (store_db E) (store_ops E) db h)) (\<lambda>f.
       case f of None \<Rightarrow> Panic | Some f \<Rightarrow> Ok (into_block f))"

text \<open>The height below 0 panics when overflow is checked; without the check no block is there.\<close>

definition load_db_and_smirk ::
    "('db, 'sdb) node_env \<Rightarrow> ('db, 'sdb) disk \<Rightarrow> (NodeError, ('db, 'sdb) LoadedData) outcome" where
  "load_db_and_smirk E disk =
     obind (omap_err NodeBlockStore (open_store disk)) (\<lambda>db.
     obind (load_notes E (open_tree disk)) (\<lambda>p.
     obind (omap_err NodeBlockStore (get_max_height (store_db E) db)) (\<lambda>max_height.
     case max_height of
       None \<Rightarrow>
         obind (omap_err (\<lambda>_. NodeIo) (reset_tree disk)) (\<lambda>_.
         omap (\<lambda>p'. \<lparr>ld_block_store = db, ld_persistent_tree = p', ld_block = block_genesis\<rparr>)
           (load_notes E (fresh_tree disk)))
     | Some max_h \<Rightarrow>
         obind (stored_block E db max_h) (\<lambda>block.
         if notes_root E p = broot block
         then Ok \<lparr>ld_block_store = db, ld_persistent_tree = p, ld_block = block\<rparr>
         else
           obind (stored_block E db (max_h - 1)) (\<lambda>previous_block.
           if notes_root E p = broot previous_block
           then
             (let (p', r) = apply_block_to_tree E (state (bcontent block)) max_h (max_h \<in> set (bad_blocks (config E))) p
              in obind r (\<lambda>_.
                 if notes_root E p' = broot block
                 then Ok \<lparr>ld_block_store = db, ld_persistent_tree = p', ld_block = block\<rparr>
                 else Panic))
           else
             obind (omap_err (\<lambda>_. NodeIo) (reset_both disk)) (\<lambda>_.
             obind (omap_err NodeBlockStore (fresh_store disk)) (\<lambda>db'.
             omap (\<lambda>p'. \<lparr>ld_block_store = db', ld_persistent_tree = p', ld_block = block_genesis\<rparr>)
               (load_notes E (fresh_tree disk)))))))))"

end
