(* ===== verification/Node_Correct.thy ===== *)
theory Node_Correct
  imports Node_Ops Smirk_Storage_Correct Block_Store_Props Block_Cache_Props
begin

text \<open>
  The lemmas behind the properties of the node: what a successful validation establishes, what
  applying a block does to the notes tree, and how a commit keeps the node's state well-formed.
\<close>

section \<open>The databases of a node\<close>

text \<open>What the node relies on: both databases behave as ordered maps, and the encodings round-trip.\<close>

definition env_ok ::
    "('db, 'sdb) node_env \<Rightarrow> ('db \<Rightarrow> bool) \<Rightarrow> ('db \<Rightarrow> (bytes, bytes) btree)
      \<Rightarrow> ('sdb \<Rightarrow> bool) \<Rightarrow> ('sdb \<Rightarrow> (bytes, bytes) btree) \<Rightarrow> bool" where
  "env_ok E invar contents tinvar tcontents \<longleftrightarrow>
     kv_store (store_db E) invar contents \<and> kv_db (tree_db E) tinvar tcontents
     \<and> codec_ok (store_ops E) \<and> storage_codec_ok (tree_codec E)"

abbreviation notes_ok ::
    "('db, 'sdb) node_env \<Rightarrow> ('sdb \<Rightarrow> bool) \<Rightarrow> ('sdb \<Rightarrow> (bytes, bytes) btree) \<Rightarrow> 'sdb note_tree \<Rightarrow> bool" where
  "notes_ok E tinvar tcontents p \<equiv>
     persistent_ok (hash_merge2 E) (tree_codec E) MERKLE_TREE_DEPTH tinvar tcontents p"

definition node_wf ::
    "('db, 'sdb) node_env \<Rightarrow> ('db \<Rightarrow> bool) \<Rightarrow> ('db \<Rightarrow> (bytes, bytes) btree)
      \<Rightarrow> ('sdb \<Rightarrow> bool) \<Rightarrow> ('sdb \<Rightarrow> (bytes, bytes) btree) \<Rightarrow> ('db, 'sdb, 's, 'l) NodeShared \<Rightarrow> bool" where
  "node_wf E invar contents tinvar tcontents st \<longleftrightarrow>
     notes_ok E tinvar tcontents (notes_tree st) \<and> invar (block_store st) \<and> entries_ok (store_ops E) (contents (block_store st))"

abbreviation note_keys :: "'sdb note_tree \<Rightarrow> element set" where
  "note_keys p \<equiv> tree_keys (ptree p)"

text \<open>The leaves have different free slots in the tree.\<close>

definition slots_free :: "'sdb note_tree \<Rightarrow> element list \<Rightarrow> bool" where
  "slots_free p es \<longleftrightarrow>
     distinct (map (\<lambda>e. lsb_bits e (MERKLE_TREE_DEPTH - 1)) es)
     \<and> (\<forall>k \<in> note_keys p. \<forall>e \<in> set es. \<not> collides_with MERKLE_TREE_DEPTH k e)"

lemma contains_iff: "contains_element t e \<longleftrightarrow> e \<in> tree_keys t"
  by (simp add: contains_element_def tree_keys_def map_of_None_keys)

lemma nonzero_NULL: "NULL_HASH \<notin> set (nonzero_leaves s)"
  by (simp add: nonzero_leaves_def NULL_HASH_def)

section \<open>What validation establishes\<close>

lemma insert_leaves_keys:
  "insert_leaves x ls seen = Ok seen' \<Longrightarrow> map fst seen' = map fst seen @ filter (\<lambda>e. e \<noteq> ZERO) ls"
  by (induction x ls seen rule: insert_leaves.induct) (auto simp: update_fresh split: if_splits option.splits)

lemma insert_leaves_distinct:
  "insert_leaves x ls seen = Ok seen' \<Longrightarrow> distinct (map fst seen) \<Longrightarrow> distinct (map fst seen')"
  by (induction x ls seen rule: insert_leaves.induct) (auto simp: distinct_update split: if_splits option.splits)

lemma check_leaves_Ok:
  "check_leaves p found ls = Ok () \<longleftrightarrow> (\<forall>l \<in> set ls. l < MODULUS \<and> (l \<noteq> ZERO \<longrightarrow> l \<notin> note_keys p))"
  by (induction p found ls rule: check_leaves.induct) (auto simp: contains_iff)

lemma validate_txn_Ok:
  assumes "validate_txn E u h store p = Ok ()"
  shows "utxo_verify (snark_verify E) u = Ok True"
    and "\<forall>l \<in> set (utxo_leaves u). l < MODULUS \<and> (l \<noteq> ZERO \<longrightarrow> l \<notin> note_keys p)"
proof -
  from assms obtain v where v: "utxo_verify (snark_verify E) u = Ok v"
    by (cases "utxo_verify (snark_verify E) u") (simp_all add: validate_txn_def)
  with assms have "v" by (cases v) (simp_all add: validate_txn_def)
  let ?ins = "check_leaves p (\<lambda>leaf. NoteAlreadySpent leaf (txn_key E u)) (pair_list (input_leaves u))"
    and ?outs = "check_leaves p OutputNoteExists (pair_list (output_leaves u))"
  obtain r :: "(NodeError, unit) outcome" where "obind r (\<lambda>_. obind ?ins (\<lambda>_. ?outs)) = Ok ()"
    using assms v \<open>v\<close> unfolding validate_txn_def obind.simps by (simp only: obind.simps not_True_eq_False if_False)
  then have "?ins = Ok ()" "?outs = Ok ()" unfolding obind_eq_Ok by auto
  note v \<open>v\<close> this
  then show "utxo_verify (snark_verify E) u = Ok True"
    and "\<forall>l \<in> set (utxo_leaves u). l < MODULUS \<and> (l \<noteq> ZERO \<longrightarrow> l \<notin> note_keys p)"
    unfolding check_leaves_Ok utxo_leaves_def by simp_all
qed

lemma validate_txns_keys:
  "validate_txns E h store p ts seen = Ok seen' \<Longrightarrow>
    map fst seen' = map fst seen @ filter (\<lambda>e. e \<noteq> ZERO) (concat (map utxo_leaves ts))"
  by (induction ts arbitrary: seen) (auto simp: obind_eq_Ok dest!: insert_leaves_keys)

lemma validate_txns_distinct:
  "validate_txns E h store p ts seen = Ok seen' \<Longrightarrow> distinct (map fst seen) \<Longrightarrow> distinct (map fst seen')"
  by (induction ts arbitrary: seen) (auto simp: obind_eq_Ok dest!: insert_leaves_distinct)

lemma validate_txns_valid:
  "validate_txns E h store p ts seen = Ok seen' \<Longrightarrow> \<forall>t \<in> set ts. validate_txn E t h store p = Ok ()"
  by (induction ts arbitrary: seen) (auto simp: obind_eq_Ok)

lemma content_root:
  assumes "content_validate E c store p = (p', Ok ())"
    and m: "validate_txns E (height (header c)) store p (state_txns (state c)) [] = Ok m" "map fst m = ls"
  shows "new_root_hash E p ls = (p', Ok (state_root_hash (state c)))"
proof -
  obtain q r where n: "new_root_hash E p ls = (q, r)" by (cases "new_root_hash E p ls")
  with assms have "q = p'"
    and r: "obind r (\<lambda>got. if got \<noteq> state_root_hash (state c) then Err (InvalidBlockRoot got (state_root_hash (state c)))
      else Ok ()) = Ok ()" by (simp_all add: content_validate_def)
  from r obtain got where "r = Ok got" by (cases r) auto
  with r have "r = Ok (state_root_hash (state c))" by (cases "got = state_root_hash (state c)") simp_all
  with n \<open>q = p'\<close> show ?thesis by simp
qed

lemma content_validate_Ok:
  assumes "content_validate E c store p = (p', Ok ())"
  shows "distinct (nonzero_leaves (state c)) \<and> (\<forall>l \<in> set (nonzero_leaves (state c)). l < MODULUS \<and> l \<notin> note_keys p)
    \<and> (\<forall>t \<in> set (state_txns (state c)). validate_txn E t (height (header c)) store p = Ok ())
    \<and> new_root_hash E p (nonzero_leaves (state c)) = (p', Ok (state_root_hash (state c)))"
proof -
  let ?ts = "state_txns (state c)"
  obtain m where m: "validate_txns E (height (header c)) store p ?ts [] = Ok m"
    using assms by (auto simp: content_validate_def split: outcome.splits)
  have v: "map fst m = nonzero_leaves (state c)" "distinct (map fst m)"
    "\<forall>t \<in> set ?ts. validate_txn E t (height (header c)) store p = Ok ()"
    using validate_txns_keys [OF m] validate_txns_distinct [OF m] validate_txns_valid [OF m] by (simp_all add: nonzero_leaves_def)
  from assms m v(1) have "new_root_hash E p (nonzero_leaves (state c)) = (p', Ok (state_root_hash (state c)))"
    by (rule content_root)
  moreover have "l < MODULUS \<and> l \<notin> note_keys p" if "l \<in> set (nonzero_leaves (state c))" for l
  proof -
    from that obtain t where t: "t \<in> set ?ts" "l \<in> set (utxo_leaves t)" "l \<noteq> ZERO" by (auto simp: nonzero_leaves_def)
    from bspec [OF validate_txn_Ok(2) [OF bspec [OF v(3) t(1)]] t(2)] t(3) show ?thesis by simp
  qed
  ultimately show ?thesis using v(2,3) unfolding v(1) by blast
qed

section \<open>Roots and insertion\<close>

lemma notes_root_merkle:
  "notes_ok E tinvar tcontents p \<Longrightarrow>
    notes_root E p = merkle (hash_merge2 E) MERKLE_TREE_DEPTH (key_slots MERKLE_TREE_DEPTH (note_keys p))"
  using root_hash_merkle slot_key_slots by (fastforce simp: notes_root_def persistent_ok_def)

lemma cache_update_ok:
  "notes_ok E tinvar tcontents p \<Longrightarrow> simple_sound (hash_merge2 E) c \<Longrightarrow>
    notes_ok E tinvar tcontents (p\<lparr>ptree := (ptree p)\<lparr>cache := c\<rparr>\<rparr>)
    \<and> note_keys (p\<lparr>ptree := (ptree p)\<lparr>cache := c\<rparr>\<rparr>) = note_keys p"
  by (simp add: persistent_ok_def tree_ok_def tree_keys_def tree_get_def [abs_def])

lemma notes_root_with_spec:
  assumes ok: "notes_ok E tinvar tcontents p" and free: "slots_free p es"
  shows "\<exists>c. notes_root_with E p es = (p\<lparr>ptree := (ptree p)\<lparr>cache := c\<rparr>\<rparr>,
      Ok (merkle (hash_merge2 E) MERKLE_TREE_DEPTH (key_slots MERKLE_TREE_DEPTH (note_keys p \<union> set es))))
    \<and> simple_sound (hash_merge2 E) c"
proof -
  let ?hm = "hash_merge2 E" and ?D = MERKLE_TREE_DEPTH
  have "distinct (map (\<lambda>(e, v). lsb_bits e (?D - 1)) (map (\<lambda>e. (e, ())) es))"
    using free by (simp add: slots_free_def comp_def)
  then obtain b where "from_entries ?D (map (\<lambda>e. (e, ())) es) = Ok b" using from_entries_total by blast
  from from_entries_Ok [OF this] have b: "batch_ok ?D b" "elements b = es"
    by (simp_all add: elements_def comp_def)
  from ok have t: "tree_ok ?hm ?D (ptree p)" "simple_sound ?hm (cache (ptree p))" by (simp_all add: persistent_ok_def)
  have "\<forall>k \<in> note_keys p. \<forall>e \<in> set (elements b). \<not> collides_with ?D k e" using free b by (simp add: slots_free_def)
  note free' = this
  have "\<exists>c. root_hash_with ?hm (simple_hash ?hm) ?D (ptree p) es
      = Ok (merkle ?hm ?D (key_slots ?D (note_keys p \<union> set es)), c) \<and> simple_sound ?hm c"
  proof (cases "es = []")
    case True
    have "node_ok ?D (tree (ptree p))" "node_clean ?hm (tree (ptree p))" using t(1) by (simp_all add: tree_ok_def)
    from simple.hash_with_inner_Nil [OF t(2) this, of 0] obtain c where
      "root_hash_with ?hm (simple_hash ?hm) ?D (ptree p) [] = Ok (root_hash ?hm (ptree p), c)" "simple_sound ?hm c"
      by (auto simp: root_hash_with_def hash_with_def root_hash_def)
    with True root_hash_merkle [OF t(1)] slot_key_slots [OF t(1)] show ?thesis by auto
  next
    case False
    with simple.root_hash_with_spec [OF t b(1) _ free'] b(2) show ?thesis by auto
  qed
  then show ?thesis by (auto simp: notes_root_with_def)
qed

lemma new_root_hash_spec:
  assumes ok: "notes_ok E tinvar tcontents p" and free: "slots_free p es"
  shows "\<exists>p'. new_root_hash E p es = (p',
      Ok (merkle (hash_merge2 E) MERKLE_TREE_DEPTH (key_slots MERKLE_TREE_DEPTH (note_keys p \<union> set es))))"
  using notes_root_with_spec [OF ok free] notes_root_merkle [OF ok] by (auto simp: new_root_hash_def)

section \<open>Applying a block\<close>

lemma apply_free:
  assumes env: "env_ok E invar contents tinvar tcontents" and ok: "notes_ok E tinvar tcontents p"
    and free: "slots_free p (nonzero_leaves s)"
  shows "\<exists>p'. apply_block_to_tree E s h False p = (p', Ok ()) \<and> notes_ok E tinvar tcontents p'
    \<and> note_keys p' = note_keys p \<union> set (nonzero_leaves s)"
proof -
  let ?ls = "nonzero_leaves s" and ?D = MERKLE_TREE_DEPTH
  let ?kvs = "map (\<lambda>e. (e, \<lparr>inserted_in = h\<rparr>)) ?ls"
  have "distinct (map (\<lambda>(e, v). lsb_bits e (?D - 1)) ?kvs)" using free by (simp add: slots_free_def comp_def)
  then obtain b where b: "from_entries ?D ?kvs = Ok b" using from_entries_total by blast
  from from_entries_Ok [OF b] have e: "batch_ok ?D b" "elements b = ?ls" by (simp_all add: elements_def comp_def)
  have n: "\<not> list_ex (contains_element (ptree p)) ?ls"
    using free by (auto simp: slots_free_def list_ex_iff contains_iff collides_with_def)
  have env': "kv_db (tree_db E) tinvar tcontents" "storage_codec_ok (tree_codec E)" using env by (simp_all add: env_ok_def)
  have "NULL_HASH \<notin> set (elements b)" unfolding e(2) by (rule nonzero_NULL)
  moreover have "\<forall>k \<in> note_keys p. \<forall>e \<in> set (elements b). \<not> collides_with ?D k e" using free e(2) by (simp add: slots_free_def)
  ultimately obtain p' where "persistent_insert_batch (hash_merge2 E) (tree_codec E) ?D (tree_db E) p b = (p', Ok ())"
    "notes_ok E tinvar tcontents p'" "note_keys p' = note_keys p \<union> set (elements b)"
    using persistent_insert_batch_ok [OF env' ok e(1)] by blast
  with b n e(2) show ?thesis by (intro exI [of _ p']) (simp add: apply_block_to_tree_def)
qed

text \<open>Conversely, a block is applied only if its leaves have free slots.\<close>

lemma apply_Ok_free:
  assumes ap: "apply_block_to_tree E s h False p = (p', Ok ())"
  shows "slots_free p (nonzero_leaves s)"
proof -
  let ?ls = "nonzero_leaves s" and ?D = MERKLE_TREE_DEPTH
  let ?kvs = "map (\<lambda>e. (e, \<lparr>inserted_in = h\<rparr>)) ?ls"
  have n: "\<not> list_ex (contains_element (ptree p)) ?ls" using ap by (auto simp: apply_block_to_tree_def Let_def)
  with ap obtain b where b: "from_entries ?D ?kvs = Ok b"
    by (cases "from_entries ?D ?kvs") (auto simp: apply_block_to_tree_def Let_def)
  from from_entries_Ok [OF b] have e: "batch_ok ?D b" "elements b = ?ls" by (simp_all add: elements_def comp_def)
  have ins: "apsnd (omap_err NodeSmirk) (persistent_insert_batch (hash_merge2 E) (tree_codec E) ?D (tree_db E) p b) = (p', Ok ())"
    using ap n b by (simp add: apply_block_to_tree_def Let_def)
  have "\<not> collides_with ?D k l" if k: "k \<in> note_keys p" "l \<in> set ?ls" for k l
  proof
    assume "collides_with ?D k l"
    from simple.insert_batch_collision [OF e(1) k(1) k(2) [folded e(2)] this, where hm = "hash_merge2 E"] obtain err where
      "insert_batch (hash_merge2 E) (simple_hash (hash_merge2 E)) ?D (ptree p) b = (ptree p, [], Err err)" by blast
    moreover have "\<not> batch_is_empty b" using e(2) k(2) by (auto simp: batch_is_empty_def elements_def)
    ultimately show False using ins by (simp add: persistent_insert_batch_def)
  qed
  with e show ?thesis by (simp add: slots_free_def batch_ok_def)
qed

text \<open>A block that has been validated against the tree and is applied gives the root hash it announces.\<close>

lemma apply_root:
  assumes ok: "notes_ok E tinvar tcontents p" "notes_ok E tinvar tcontents p'"
    and keys: "note_keys p' = note_keys p \<union> set ls" and free: "slots_free p ls"
    and root: "new_root_hash E p ls = (q, Ok r)"
  shows "notes_root E p' = r"
  using new_root_hash_spec [OF ok(1) free] root unfolding notes_root_merkle [OF ok(2)] keys by auto

lemma slots_free_keys: "note_keys q = note_keys p \<Longrightarrow> slots_free q ls = slots_free p ls"
  by (simp add: slots_free_def)

section \<open>Commits\<close>

text \<open>The whole effect of a commit whose steps succeed.\<close>

lemma commit_proposal_run:
  fixes st :: "('db, 'sdb, 's, 'l) NodeShared"
  assumes bad: "bheight b \<notin> set (bad_blocks (config E))"
    and fresh: "\<not> list_ex (contains_element (ptree (notes_tree st))) (nonzero_leaves (state (bcontent b)))"
    and db: "store_set (store_db E) (store_ops E) (block_store st) (BlockV2 b \<lparr>timestamp_unix_s = Some utc\<rparr>) = Ok db"
    and p: "apply_block_to_tree E (state (bcontent b)) (bheight b) False (notes_tree st) = (p, Ok ())"
    and mp: "mempool_commit (shuffle_keys E) (bheight b) (map (\<lambda>k. (k, Ok b)) (map (txn_key E) (btxns b))) (mempool st) = (mp, sigs)"
  shows "commit_proposal E now utc alive b st
    = (st\<lparr>last_commit := Some now, block_store := db, notes_tree := p, mempool := mp, listeners := filter alive (listeners st)\<rparr>,
       map Resolved sigs @ map (\<lambda>l. Notified l b) (filter alive (listeners st)), Ok ())"
  using assms
  by (simp add: commit_proposal_def Let_def nbind_def store_block_def on_tree_def commit_mempool_def split: prod.split)

lemma commit_proposal_Ok:
  assumes bad: "bheight b \<notin> set (bad_blocks (config E))"
    and c: "commit_proposal E now utc alive b st = (st', os, Ok ())"
  shows "\<exists>db p. store_set (store_db E) (store_ops E) (block_store st) (BlockV2 b \<lparr>timestamp_unix_s = Some utc\<rparr>) = Ok db
    \<and> apply_block_to_tree E (state (bcontent b)) (bheight b) False (notes_tree st) = (p, Ok ())
    \<and> block_store st' = db \<and> notes_tree st' = p \<and> block_cache st' = block_cache st"
proof -
  let ?set = "store_set (store_db E) (store_ops E) (block_store st) (BlockV2 b \<lparr>timestamp_unix_s = Some utc\<rparr>)"
  have d: "\<not> list_ex (contains_element (ptree (notes_tree st))) (nonzero_leaves (state (bcontent b)))"
    using c bad by (auto simp: commit_proposal_def nbind_def Let_def)
  obtain db where db: "?set = Ok db"
    using c bad d by (cases ?set) (auto simp: commit_proposal_def nbind_def Let_def store_block_def)
  obtain p r where p: "apply_block_to_tree E (state (bcontent b)) (bheight b) False (notes_tree st) = (p, r)"
    by (cases "apply_block_to_tree E (state (bcontent b)) (bheight b) False (notes_tree st)")
  have "r = Ok ()"
    using c bad d db p by (cases r) (auto simp: commit_proposal_def nbind_def Let_def store_block_def on_tree_def)
  obtain mp sigs where "mempool_commit (shuffle_keys E) (bheight b) (map (\<lambda>k. (k, Ok b :: (NodeError, Block) outcome)) (map (txn_key E) (btxns b))) (mempool st) = (mp, sigs)"
    by fastforce
  note mp = this
  have "(st', os, Ok () :: (NodeError, unit) outcome) = (st\<lparr>last_commit := Some now, block_store := db, notes_tree := p, mempool := mp,
      listeners := filter alive (listeners st)\<rparr>, map Resolved sigs @ map (\<lambda>l. Notified l b) (filter alive (listeners st)), Ok ())"
    unfolding c [symmetric] by (rule commit_proposal_run [OF bad d db p [unfolded \<open>r = Ok ()\<close>] mp])
  with p \<open>r = Ok ()\<close> db show ?thesis by auto
qed

lemma validate_block_Ok:
  assumes "bheight b \<notin> set (bad_blocks (config E))" "validate_block E b st = (st', os, Ok ())"
  shows "\<exists>p. content_validate E (bcontent b) (block_store st) (notes_tree st) = (p, Ok ()) \<and> st' = st\<lparr>notes_tree := p\<rparr> \<and> os = []"
    and "\<exists>leader. get_leader_for_block_height E (bheight b) = (Ok leader :: (NodeError, Address) outcome)
      \<and> verify_signature E (bsignature b) (bhash (henv E) b) = Ok (Some leader)"
  using assms
  by (auto simp: validate_block_def nbind_Ok_iff on_tree_def split: option.splits if_splits prod.splits)

text \<open>Any outcome of a validation leaves everything but the hash cache of the tree as it is.\<close>

definition same_but_cache :: "('db, 'sdb, 's, 'l) NodeShared \<Rightarrow> ('db, 'sdb, 's, 'l) NodeShared \<Rightarrow> bool" where
  "same_but_cache st st' \<longleftrightarrow> (\<exists>c. st' = st\<lparr>notes_tree := (notes_tree st)\<lparr>ptree := (ptree (notes_tree st))\<lparr>cache := c\<rparr>\<rparr>\<rparr>)"

lemma same_but_cache_refl: "same_but_cache st st"
  unfolding same_but_cache_def by (rule exI [of _ "cache (ptree (notes_tree st))"]) simp

lemma new_root_hash_sound:
  assumes "notes_ok E tinvar tcontents p"
  shows "\<exists>c. fst (new_root_hash E p ls) = p\<lparr>ptree := (ptree p)\<lparr>cache := c\<rparr>\<rparr> \<and> simple_sound (hash_merge2 E) c"
proof -
  have s: "simple_sound (hash_merge2 E) (cache (ptree p))" using assms by (simp add: persistent_ok_def)
  then have p: "\<exists>c. p = p\<lparr>ptree := (ptree p)\<lparr>cache := c\<rparr>\<rparr> \<and> simple_sound (hash_merge2 E) c"
    by (intro exI [of _ "cache (ptree p)"]) simp
  let ?rw = "root_hash_with (hash_merge2 E) (simple_hash (hash_merge2 E)) MERKLE_TREE_DEPTH (ptree p) ls"
  show ?thesis
  proof (cases "\<exists>r c. ls \<noteq> [] \<and> ?rw = Ok (r, c)")
    case True
    then obtain r c where "ls \<noteq> []" "?rw = Ok (r, c)" by blast
    moreover from this(2) have "simple_sound (hash_merge2 E) c"
      unfolding root_hash_with_def hash_with_def by (rule simple.hash_with_inner_sound [OF s])
    ultimately show ?thesis by (auto simp: new_root_hash_def notes_root_with_def)
  next
    case False
    then have "fst (new_root_hash E p ls) = p"
      by (auto simp: new_root_hash_def notes_root_with_def split: outcome.split)
    with p show ?thesis by simp
  qed
qed

lemma validate_block_cache:
  assumes wf: "node_wf E invar contents tinvar tcontents st" and v: "validate_block E b st = (st', os, r')"
  shows "same_but_cache st st' \<and> node_wf E invar contents tinvar tcontents st'"
proof -
  let ?p = "notes_tree st"
  have ok: "notes_ok E tinvar tcontents ?p" using wf by (simp add: node_wf_def)
  obtain p r where p: "content_validate E (bcontent b) (block_store st) ?p = (p, r)" by fastforce
  have "p = ?p \<or> (\<exists>ls. p = fst (new_root_hash E ?p ls))"
    using p by (auto simp: content_validate_def split: outcome.splits prod.splits) (metis fst_conv)
  then have "\<exists>c. p = ?p\<lparr>ptree := (ptree ?p)\<lparr>cache := c\<rparr>\<rparr> \<and> simple_sound (hash_merge2 E) c"
  proof
    assume "p = ?p"
    then show ?thesis using ok by (intro exI [of _ "cache (ptree ?p)"]) (simp add: persistent_ok_def)
  qed (use new_root_hash_sound [OF ok] in blast)
  then have "same_but_cache st (st\<lparr>notes_tree := p\<rparr>) \<and> node_wf E invar contents tinvar tcontents (st\<lparr>notes_tree := p\<rparr>)"
    using wf cache_update_ok [OF ok] unfolding same_but_cache_def node_wf_def by auto
  with p same_but_cache_refl [of st] wf v show ?thesis
    by (auto simp: validate_block_def nbind_def on_tree_def split: option.splits outcome.splits if_splits)
qed

lemma same_but_cache_keys:
  "same_but_cache st st' \<Longrightarrow> note_keys (notes_tree st') = note_keys (notes_tree st) \<and> block_store st' = block_store st
    \<and> block_cache st' = block_cache st \<and> mempool st' = mempool st \<and> listeners st' = listeners st"
  by (auto simp: same_but_cache_def tree_keys_def)

text \<open>A validation that succeeds.\<close>

lemma validated_block:
  fixes st :: "('db, 'sdb, 's, 'l) NodeShared"
  assumes wf: "node_wf E invar contents tinvar tcontents st" and bad: "bheight b \<notin> set (bad_blocks (config E))"
    and v: "validate_block E b st = (st1, os1, Ok ())"
  shows "node_wf E invar contents tinvar tcontents st1" "note_keys (notes_tree st1) = note_keys (notes_tree st)"
    "distinct (nonzero_leaves (state (bcontent b)))"
    "set (nonzero_leaves (state (bcontent b))) \<inter> note_keys (notes_tree st) = {}"
    "\<exists>q. new_root_hash E (notes_tree st) (nonzero_leaves (state (bcontent b))) = (q, Ok (broot b))"
proof -
  from validate_block_Ok(1) [OF bad v] obtain p where
    p: "content_validate E (bcontent b) (block_store st) (notes_tree st) = (p, Ok ())" "st1 = st\<lparr>notes_tree := p\<rparr>" by blast
  note c = content_validate_Ok [OF p(1)]
  from c have r: "new_root_hash E (notes_tree st) (nonzero_leaves (state (bcontent b))) = (p, Ok (broot b))" by blast
  from validate_block_cache [OF wf v] same_but_cache_keys [of st st1]
  show "node_wf E invar contents tinvar tcontents st1" "note_keys (notes_tree st1) = note_keys (notes_tree st)" by blast+
  from c show "distinct (nonzero_leaves (state (bcontent b)))"
    "set (nonzero_leaves (state (bcontent b))) \<inter> note_keys (notes_tree st) = {}" by blast+
  from r show "\<exists>q. new_root_hash E (notes_tree st) (nonzero_leaves (state (bcontent b))) = (q, Ok (broot b))" by blast
qed

text \<open>Validating and then committing a block.\<close>

lemma commit_step:
  fixes st :: "('db, 'sdb, 's, 'l) NodeShared"
  assumes env: "env_ok E invar contents tinvar tcontents" and wf: "node_wf E invar contents tinvar tcontents st"
    and bad: "bheight b \<notin> set (bad_blocks (config E))"
    and v: "validate_block E b st = (st1, os1, Ok ())"
    and c: "commit_proposal E now utc alive b st1 = (st2, os2, Ok ())"
  defines "ls \<equiv> nonzero_leaves (state (bcontent b))"
  shows "node_wf E invar contents tinvar tcontents st2" "distinct ls" "set ls \<inter> note_keys (notes_tree st) = {}"
    "note_keys (notes_tree st2) = note_keys (notes_tree st) \<union> set ls" "notes_root E (notes_tree st2) = broot b"
    "store_get (store_db E) (store_ops E) (block_store st2) (bheight b)
      = Ok (Some (BlockV2 b \<lparr>timestamp_unix_s = Some utc\<rparr>))"
    "h \<noteq> bheight b \<Longrightarrow> store_get (store_db E) (store_ops E) (block_store st2) h
      = store_get (store_db E) (store_ops E) (block_store st) h"
    "block_cache st2 = block_cache st"
proof -
  let ?f = "BlockV2 b \<lparr>timestamp_unix_s = Some utc\<rparr>"
  note keep = same_but_cache_keys [OF conjunct1 [OF validate_block_cache [OF wf v]]]
  from commit_proposal_Ok [OF bad c] obtain db p where
    d: "store_set (store_db E) (store_ops E) (block_store st1) ?f = Ok db" "block_store st2 = db"
    and p: "apply_block_to_tree E (state (bcontent b)) (bheight b) False (notes_tree st1) = (p, Ok ())" "notes_tree st2 = p"
    and bc: "block_cache st2 = block_cache st1" by blast
  have st1: "note_keys (notes_tree st1) = note_keys (notes_tree st)" "block_store st1 = block_store st" "block_cache st1 = block_cache st"
    using keep v by simp_all
  have free: "slots_free (notes_tree st1) ls" unfolding ls_def by (rule apply_Ok_free [OF p(1)])
  then have free0: "slots_free (notes_tree st) ls" unfolding slots_free_keys [OF st1(1)] .
  note vf = validated_block [OF wf bad v, folded ls_def]
  have ok1: "notes_ok E tinvar tcontents (notes_tree st1)" using vf(1) by (simp add: node_wf_def)
  from apply_free [OF env ok1 free [unfolded ls_def], of "bheight b"] p have
    ap: "notes_ok E tinvar tcontents (notes_tree st2)" "note_keys (notes_tree st2) = note_keys (notes_tree st1) \<union> set ls"
    by (simp_all add: ls_def)
  have f: "block_height (store_ops E) ?f = bheight b" by (simp add: format_ops_def)
  from store_set_effect [of "store_db E" invar contents "block_store st" "store_ops E" ?f] env wf d st1(2)
  have s: "invar (block_store st2)" "entries_ok (store_ops E) (contents (block_store st2))"
    "store_get (store_db E) (store_ops E) (block_store st2) (bheight b) = Ok (Some ?f)"
    "\<forall>h. h \<noteq> bheight b \<longrightarrow> store_get (store_db E) (store_ops E) (block_store st2) h
      = store_get (store_db E) (store_ops E) (block_store st) h"
    by (auto simp: env_ok_def node_wf_def f)
  show "node_wf E invar contents tinvar tcontents st2" using ap(1) s by (simp add: node_wf_def)
  show "distinct ls" "set ls \<inter> note_keys (notes_tree st) = {}" by (rule vf(3), rule vf(4))
  show "note_keys (notes_tree st2) = note_keys (notes_tree st) \<union> set ls" using ap(2) st1(1) by simp
  from wf have "notes_ok E tinvar tcontents (notes_tree st)" by (simp add: node_wf_def)
  from apply_root [OF this ap(1) _ free0] ap(2) st1(1) vf(5) show "notes_root E (notes_tree st2) = broot b" by auto
  show "store_get (store_db E) (store_ops E) (block_store st2) (bheight b) = Ok (Some ?f)" by (rule s(3))
  show "h \<noteq> bheight b \<Longrightarrow> store_get (store_db E) (store_ops E) (block_store st2) h
      = store_get (store_db E) (store_ops E) (block_store st) h" using s(4) by blast
  show "block_cache st2 = block_cache st" using bc st1(3) by simp
qed

lemma commit_free:
  assumes "env_ok E invar contents tinvar tcontents" "node_wf E invar contents tinvar tcontents st"
    and "bheight b \<notin> set (bad_blocks (config E))" "validate_block E b st = (st1, os1, Ok ())"
    and "slots_free (notes_tree st) (nonzero_leaves (state (bcontent b)))"
  shows "\<exists>st2 os2. commit_proposal E now utc alive b st1 = (st2, os2, Ok ())
    \<and> set (map (\<lambda>l. Notified l b) (filter alive (listeners st1))) \<subseteq> set os2"
proof -
  let ?ls = "nonzero_leaves (state (bcontent b))" and ?f = "BlockV2 b \<lparr>timestamp_unix_s = Some utc\<rparr>"
  note v = validated_block [OF assms(2-4)]
  from v(1) have ok1: "notes_ok E tinvar tcontents (notes_tree st1)" by (simp add: node_wf_def)
  have free: "slots_free (notes_tree st1) ?ls" using assms(5) slots_free_keys [OF v(2)] by simp
  from apply_free [OF assms(1) ok1 free] obtain p where
    p: "apply_block_to_tree E (state (bcontent b)) (bheight b) False (notes_tree st1) = (p, Ok ())" by blast
  from store_set_effect [of "store_db E" invar contents "block_store st1" "store_ops E" ?f] assms(1) v(1)
  obtain db where db: "store_set (store_db E) (store_ops E) (block_store st1) ?f = Ok db"
    by (auto simp: env_ok_def node_wf_def)
  have fresh: "\<not> list_ex (contains_element (ptree (notes_tree st1))) ?ls"
    using v(2,4) by (auto simp: list_ex_iff contains_iff)
  obtain mp sigs where mp: "mempool_commit (shuffle_keys E) (bheight b)
      (map (\<lambda>k. (k, Ok b :: (NodeError, Block) outcome)) (map (txn_key E) (btxns b))) (mempool st1) = (mp, sigs)" by fastforce
  obtain st2 os2 where "commit_proposal E now utc alive b st1 = (st2, os2, Ok ())"
    "os2 = map Resolved sigs @ map (\<lambda>l. Notified l b) (filter alive (listeners st1))"
    using commit_proposal_run [OF assms(3) fresh db p mp, of now alive] by blast
  then show ?thesis by auto
qed

lemma commit_slots_free:
  assumes "env_ok E invar contents tinvar tcontents" "node_wf E invar contents tinvar tcontents st"
    and "bheight b \<notin> set (bad_blocks (config E))" "validate_block E b st = (st1, os1, Ok ())"
    and "commit_proposal E now utc alive b st1 = (st2, os2, Ok ())"
  shows "slots_free (notes_tree st) (nonzero_leaves (state (bcontent b)))"
proof -
  from commit_proposal_Ok [OF assms(3,5)] obtain p where
    "apply_block_to_tree E (state (bcontent b)) (bheight b) False (notes_tree st1) = (p, Ok ())" by blast
  from apply_Ok_free [OF this] show ?thesis unfolding slots_free_keys [OF validated_block(2) [OF assms(2-4)]] .
qed

lemma commit_max_height:
  assumes "env_ok E invar contents tinvar tcontents" "node_wf E invar contents tinvar tcontents st"
    and "bheight b \<notin> set (bad_blocks (config E))" "validate_block E b st = (st1, os1, Ok ())"
    and "commit_proposal E now utc alive b st1 = (st2, os2, Ok ())"
    and "get_max_height (store_db E) (block_store st) = Ok m" "case m of Some h \<Rightarrow> h < bheight b | None \<Rightarrow> True"
  shows "get_max_height (store_db E) (block_store st2) = Ok (Some (bheight b))"
proof -
  let ?f = "BlockV2 b \<lparr>timestamp_unix_s = Some utc\<rparr>"
  have st1: "block_store st1 = block_store st"
    using same_but_cache_keys [OF conjunct1 [OF validate_block_cache [OF assms(2,4)]]] by simp
  from commit_proposal_Ok [OF assms(3,5)] have "store_set (store_db E) (store_ops E) (block_store st) ?f = Ok (block_store st2)"
    unfolding st1 by blast
  with store_set_effect [of "store_db E" invar contents "block_store st" "store_ops E" ?f] assms(1,2)
  have "get_max_height (store_db E) (block_store st2)
    = omap (\<lambda>m. Some (case m of Some m \<Rightarrow> max m (block_height (store_ops E) ?f) | None \<Rightarrow> block_height (store_ops E) ?f))
        (get_max_height (store_db E) (block_store st))"
    by (auto simp: env_ok_def node_wf_def)
  with assms(6,7) show ?thesis by (simp add: format_ops_def max_absorb2 split: option.splits)
qed

end
