(* ===== verification/Node_Sample.thy ===== *)
theory Node_Sample
  imports Node_Correct Smirk_Storage_Props Doomslug "HOL-Library.Countable"
begin

text \<open>
  A concrete node: in-memory databases, an encoding of blocks by enumeration, one validator and a
  linear hash. The properties of the node are applied to it.
\<close>

section \<open>Encodings\<close>

text \<open>A value of a countable type as that many zero bytes.\<close>

definition unary :: "'a::countable \<Rightarrow> bytes" where
  "unary x = replicate (to_nat x) 0"

definition of_unary :: "bytes \<Rightarrow> 'a::countable" where
  "of_unary bs = from_nat (length bs)"

lemma of_unary_unary [simp]: "of_unary (unary x) = x"
  by (simp add: unary_def of_unary_def)

type_synonym utxo_tuple = "element \<times> element \<times> element \<times> (element \<times> element) \<times> (element \<times> element) \<times> bytes"

definition utxo_fields :: "UTXOProof \<Rightarrow> utxo_tuple" where
  "utxo_fields u = (recent_root u, mb_hash u, mb_value u, input_leaves u, output_leaves u, utxo_proof u)"

fun utxo_of :: "utxo_tuple \<Rightarrow> UTXOProof" where
  "utxo_of (r, h, v, i, out, p) =
     \<lparr>recent_root = r, mb_hash = h, mb_value = v, input_leaves = i, output_leaves = out, utxo_proof = p\<rparr>"

lemma utxo_of_fields [simp]: "utxo_of (utxo_fields u) = u"
  by (simp add: utxo_fields_def)

type_synonym block_tuple =
  "(BlockHeight \<times> CryptoHash \<times> u64 \<times> CryptoHash \<times> Signature list) \<times> element \<times> utxo_tuple list \<times> Signature"

definition block_fields :: "Block \<Rightarrow> block_tuple" where
  "block_fields b =
     (let h = header (bcontent b) in
      ((height h, last_block_hash h, epoch_id h, last_final_block_hash h, approvals h),
       broot b, map utxo_fields (btxns b), bsignature b))"

fun block_of :: "block_tuple \<Rightarrow> Block" where
  "block_of ((h, l, e, f, a), r, ts, s) =
     \<lparr>bcontent = \<lparr>header = \<lparr>height = h, last_block_hash = l, epoch_id = e, last_final_block_hash = f, approvals = a\<rparr>,
        state = \<lparr>state_root_hash = r, state_txns = map utxo_of ts\<rparr>\<rparr>, bsignature = s\<rparr>"

lemma block_of_fields [simp]: "block_of (block_fields b) = b"
  by (simp add: block_fields_def Let_def o_def)

fun format_fields :: "BlockFormat \<Rightarrow> block_tuple \<times> u64 option option" where
  "format_fields (BlockV1 b) = (block_fields b, None)"
| "format_fields (BlockV2 b m) = (block_fields b, Some (timestamp_unix_s m))"

fun format_of :: "block_tuple \<times> u64 option option \<Rightarrow> BlockFormat" where
  "format_of (b, None) = BlockV1 (block_of b)"
| "format_of (b, Some t) = BlockV2 (block_of b) \<lparr>timestamp_unix_s = t\<rparr>"

lemma format_of_fields [simp]: "format_of (format_fields f) = f"
  by (cases f) simp_all

type_synonym txn_tuple = "utxo_tuple \<times> BlockHeight \<times> u64 option \<times> CryptoHash \<times> u32"

fun txn_fields :: "TxnFormat \<Rightarrow> txn_tuple" where
  "txn_fields (TxnV1 u m) = (utxo_fields u, tm_block_height m, tm_block_time m, tm_block_hash m, tm_block_txn_index m)"

fun txn_of :: "txn_tuple \<Rightarrow> TxnFormat" where
  "txn_of (u, h, t, b, i) =
     TxnV1 (utxo_of u) \<lparr>tm_block_height = h, tm_block_time = t, tm_block_hash = b, tm_block_txn_index = i\<rparr>"

lemma txn_of_fields [simp]: "txn_of (txn_fields f) = f"
  by (cases f) simp

definition unary_formats :: format_codec where
  "unary_formats =
     \<lparr>bf_to_bytes = (\<lambda>f. Ok (unary (format_fields f))), bf_from_bytes = (\<lambda>bs. Ok (format_of (of_unary bs))),
      tf_to_bytes = (\<lambda>f. Ok (unary (txn_fields f))), tf_from_bytes = (\<lambda>bs. Ok (txn_of (of_unary bs)))\<rparr>"

lemma unary_formats_ok: "codec_ok (format_ops H unary_formats)"
  by (simp add: codec_ok_def format_ops_def unary_formats_def)

text \<open>The metadata of an element is its height, stored as a number.\<close>

definition height_codec :: "SmirkMetadata storage_codec" where
  "height_codec =
     \<lparr>key_to_bytes = key_to_bytes sample_codec, key_from_bytes = key_from_bytes sample_codec,
      value_to_bytes = (\<lambda>v. value_to_bytes sample_codec (map_ValueFormat (\<lambda>m. unat (inserted_in m)) v)),
      value_from_bytes = (\<lambda>bs. omap (map_ValueFormat (\<lambda>n. \<lparr>inserted_in = word_of_nat n\<rparr>)) (value_from_bytes sample_codec bs))\<rparr>"

lemma height_codec_ok: "storage_codec_ok height_codec"
proof -
  have "map_ValueFormat (\<lambda>n. \<lparr>inserted_in = word_of_nat n\<rparr>) (map_ValueFormat (\<lambda>m. unat (inserted_in m)) v) = v" for v
  proof -
    have "(\<lambda>m. \<lparr>inserted_in = word_of_nat (unat (inserted_in m))\<rparr>) = (\<lambda>m. m)" by (rule ext) simp
    then show ?thesis by (simp only: ValueFormat.map_comp o_def ValueFormat.map_ident)
  qed
  moreover have "\<exists>b. value_to_bytes sample_codec w = Ok b \<and> value_from_bytes sample_codec b = Ok w" for w
    using sample_codec_ok by (simp add: storage_codec_ok_def)
  ultimately have "\<exists>b. value_to_bytes height_codec v = Ok b \<and> value_from_bytes height_codec b = Ok v" for v
    by (fastforce simp: height_codec_def)
  then show ?thesis using sample_codec_ok by (simp add: storage_codec_ok_def) (simp add: height_codec_def)
qed

section \<open>The node\<close>

type_synonym mem_db = "(bytes, bytes) btree"

definition sample_env :: "(mem_db, mem_db) node_env" where
  "sample_env =
     \<lparr>config = \<lparr>mode = NodeMode, block_txns_count = 6, sync_chunk_size = 50, fast_sync_threshold = 100,
        bad_blocks = [], safe_eth_height_offset = 0\<rparr>,
      hash_merge2 = (\<lambda>l r. sample_hash l r), henv = height_env, snark_verify = (\<lambda>_. Ok True),
      verify_signature = (\<lambda>_ _. Ok (Some 7)), sign_hash = (\<lambda>_. []), self_peer = 3,
      validator_sets = [\<lparr>vs_validators = [7], valid_from = 0\<rparr>],
      store_db = mem_rocksdb, store_codec = unary_formats, tree_db = mem_smirk_db, tree_codec = height_codec,
      shuffle_keys = (\<lambda>ks. ks)\<rparr>"

definition sample_notes :: "mem_db note_tree" where
  "sample_notes = \<lparr>ptree = new_with_cache MERKLE_TREE_DEPTH simple_new, pdb = []\<rparr>"

definition sample_state :: "(mem_db, mem_db, nat, nat) NodeShared" where
  "sample_state =
     \<lparr>doomslug = doomslug_new 0 0 0 1 2 3 4 TwoThirds, mempool = mempool_default,
      block_cache = cache_new height_env block_genesis 10, block_store = [], notes_tree = sample_notes,
      last_commit = None, listeners = [9]\<rparr>"

text \<open>A transaction that creates the note 5, and blocks with the root hash that they lead to.\<close>

definition sample_txn :: UTXOProof where
  "sample_txn = \<lparr>recent_root = 0, mb_hash = 0, mb_value = 0, input_leaves = (0, 0), output_leaves = (5, 0), utxo_proof = []\<rparr>"

definition root_of :: "element list \<Rightarrow> element" where
  "root_of es = (case snd (new_root_hash sample_env sample_notes es) of Ok r \<Rightarrow> r | _ \<Rightarrow> 0)"

definition block_with :: "BlockHeight \<Rightarrow> UTXOProof list \<Rightarrow> Block" where
  "block_with h ts =
     \<lparr>bcontent = \<lparr>header = \<lparr>height = h, last_block_hash = 0, epoch_id = 0, last_final_block_hash = 0, approvals = []\<rparr>,
        state = \<lparr>state_root_hash = root_of (filter (\<lambda>e. e \<noteq> ZERO) (concat (map utxo_leaves ts))), state_txns = ts\<rparr>\<rparr>,
      bsignature = []\<rparr>"

lemma sample_env_simps [simp]:
  "config sample_env = \<lparr>mode = NodeMode, block_txns_count = 6, sync_chunk_size = 50, fast_sync_threshold = 100,
     bad_blocks = [], safe_eth_height_offset = 0\<rparr>"
  "hash_merge2 sample_env = (\<lambda>l r. sample_hash l r)" "henv sample_env = height_env" "snark_verify sample_env = (\<lambda>_. Ok True)"
  "verify_signature sample_env = (\<lambda>_ _. Ok (Some 7))" "validator_sets sample_env = [\<lparr>vs_validators = [7], valid_from = 0\<rparr>]"
  "store_db sample_env = mem_rocksdb" "store_codec sample_env = unary_formats"
  "tree_db sample_env = mem_smirk_db" "tree_codec sample_env = height_codec"
  by (simp_all add: sample_env_def)

lemma sample_state_simps [simp]:
  "block_store sample_state = []" "notes_tree sample_state = sample_notes" "listeners sample_state = [9]"
  "block_cache sample_state = cache_new height_env block_genesis 10"
  by (simp_all add: sample_state_def)

lemma block_with_simps [simp]:
  "bheight (block_with h ts) = h" "btxns (block_with h ts) = ts"
  "nonzero_leaves (state (bcontent (block_with h ts))) = filter (\<lambda>e. e \<noteq> ZERO) (concat (map utxo_leaves ts))"
  "broot (block_with h ts) = root_of (filter (\<lambda>e. e \<noteq> ZERO) (concat (map utxo_leaves ts)))"
  by (simp_all add: block_with_def nonzero_leaves_def)

lemma sample_leaves [simp]: "utxo_leaves sample_txn = [0, 0, 5, 0]"
  by (simp add: sample_txn_def utxo_leaves_def)

abbreviation mem_env_ok :: "(mem_db, mem_db) node_env \<Rightarrow> bool" where
  "mem_env_ok E \<equiv> env_ok E bt_ok (\<lambda>d. d) bt_ok (\<lambda>d. d)"

abbreviation mem_wf :: "(mem_db, mem_db, 's, 'l) NodeShared \<Rightarrow> bool" where
  "mem_wf st \<equiv> node_wf sample_env bt_ok (\<lambda>d. d) bt_ok (\<lambda>d. d) st"

lemma sample_env_ok: "mem_env_ok sample_env"
  by (simp add: env_ok_def mem.kv_store_axioms mem_db.kv_db_axioms unary_formats_ok height_codec_ok)

lemma sample_notes_ok: "notes_ok sample_env bt_ok (\<lambda>d. d) sample_notes" "note_keys sample_notes = {}"
proof -
  let ?t = "new_with_cache MERKLE_TREE_DEPTH simple_new :: (SmirkMetadata, SimpleHashCache) Tree"
  have "tree_get ?t = (\<lambda>_. None)" by (simp add: fun_eq_iff tree_get_def new_with_cache_def)
  then show "notes_ok sample_env bt_ok (\<lambda>d. d) sample_notes"
    by (simp add: persistent_ok_def sample_notes_def new_with_cache_ok storage_ok_empty MERKLE_TREE_DEPTH_def)
       (simp add: new_with_cache_def simple_new_sound)
  show "note_keys sample_notes = {}" by (simp add: sample_notes_def tree_keys_def new_with_cache_def bt_keys_def)
qed

lemma sample_state_wf: "mem_wf sample_state"
  using sample_notes_ok(1) by (simp add: node_wf_def entries_ok_def)

lemma slots_free_empty: "note_keys p = {} \<Longrightarrow> es = [] \<or> es = [5] \<Longrightarrow> slots_free p es"
  by (auto simp: slots_free_def)

lemma root_of_eq:
  assumes "notes_ok sample_env bt_ok (\<lambda>d. d) p" "note_keys p = {}" "es = [] \<or> es = [5]"
  shows "\<exists>q. new_root_hash sample_env p es = (q, Ok (root_of es))"
proof -
  let ?r = "merkle (hash_merge2 sample_env) MERKLE_TREE_DEPTH (key_slots MERKLE_TREE_DEPTH ({} \<union> set es))"
  from new_root_hash_spec [OF sample_notes_ok(1) slots_free_empty [OF sample_notes_ok(2) assms(3)]]
  have "root_of es = ?r" unfolding root_of_def sample_notes_ok(2) by force
  with new_root_hash_spec [OF assms(1) slots_free_empty [OF assms(2,3)]] show ?thesis unfolding assms(2) by simp
qed

text \<open>An empty block and a block with the sample transaction validate as long as the tree is empty.\<close>

lemma sample_validates:
  fixes st :: "(mem_db, mem_db, 's, 'l) NodeShared"
  assumes "mem_wf st" "note_keys (notes_tree st) = {}" "ts = [] \<or> ts = [sample_txn]"
  shows "\<exists>st1. validate_block sample_env (block_with h ts) st = (st1, [], Ok ())"
proof -
  let ?E = sample_env and ?p = "notes_tree st" and ?es = "filter (\<lambda>e. e \<noteq> ZERO) (concat (map utxo_leaves ts))"
  have es: "?es = [] \<or> ?es = [5]" using assms(3) by (auto simp: ZERO_def)
  have new: "\<exists>q. new_root_hash ?E ?p ?es = (q, Ok (root_of ?es))"
    by (rule root_of_eq [OF _ assms(2) es]) (use assms(1) in \<open>simp add: node_wf_def\<close>)
  have leaf: "\<not> MODULUS \<le> (0 :: element)" "\<not> MODULUS \<le> (5 :: element)" by (simp_all add: MODULUS_def)
  have txn: "validate_txn ?E sample_txn h (block_store st) ?p = Ok ()"
    using leaf by (simp add: validate_txn_def utxo_verify_def to_snark_witness_def sample_txn_def contains_iff assms(2) ZERO_def)
  have "\<exists>m. validate_txns ?E h (block_store st) ?p ts [] = Ok m \<and> map fst m = ?es"
    using assms(3) txn by (auto simp: ZERO_def)
  with new have "\<exists>q. content_validate ?E (bcontent (block_with h ts)) (block_store st) ?p = (q, Ok ())"
    by (auto simp: content_validate_def block_with_def)
  moreover have "get_leader_for_block_height ?E h = (Ok 7 :: (NodeError, Address) outcome)"
    by (simp add: get_leader_for_block_height_def validators_for_height_def)
  ultimately show ?thesis by (auto simp: validate_block_def nbind_def on_tree_def)
qed

text \<open>Committing the block then succeeds.\<close>

lemma sample_commits:
  fixes st :: "(mem_db, mem_db, 's, 'l) NodeShared"
  assumes "mem_wf st" "note_keys (notes_tree st) = {}" "ts = [] \<or> ts = [sample_txn]"
  shows "\<exists>st1 st2 os2. validate_block sample_env (block_with h ts) st = (st1, [], Ok ())
    \<and> commit_proposal sample_env now utc alive (block_with h ts) st1 = (st2, os2, Ok ()) \<and> mem_wf st2
    \<and> note_keys (notes_tree st2) = set (filter (\<lambda>e. e \<noteq> ZERO) (concat (map utxo_leaves ts)))"
proof -
  from sample_validates [OF assms] obtain st1 where v: "validate_block sample_env (block_with h ts) st = (st1, [], Ok ())"
    by blast
  have bad: "bheight (block_with h ts) \<notin> set (bad_blocks (config sample_env))" by simp
  have "slots_free (notes_tree st) (nonzero_leaves (state (bcontent (block_with h ts))))"
    by (rule slots_free_empty [OF assms(2)]) (use assms(3) in \<open>auto simp: ZERO_def\<close>)
  from commit_free [OF sample_env_ok assms(1) bad v this] obtain st2 os2 where
    c: "commit_proposal sample_env now utc alive (block_with h ts) st1 = (st2, os2, Ok ())" by blast
  from commit_step(1,4) [OF sample_env_ok assms(1) bad v c] v c assms(2) show ?thesis by auto
qed

end
