(* ===== verification/Node_Props.thy ===== *)
theory Node_Props
  imports Node_Correct Node_Sample
begin

text \<open>
  Properties of the node that span its components: validation, block store, notes tree, mempool,
  block cache and the start of the node.
\<close>

section \<open>Committing validated blocks\<close>

text \<open>
  C4: a block that validates is committed, when the slots of its leaves in the notes tree are free
  (no two leaves, and no leaf and element of the tree, agree in their lowest 160 bits). Afterwards
  the tree has exactly the leaves of the block in addition and the root hash that the block
  announces, the store returns the block at its height, and every live listener is notified.
\<close>

theorem validated_block_commits:
  assumes "env_ok E invar contents tinvar tcontents" "node_wf E invar contents tinvar tcontents st"
    and "bheight b \<notin> set (bad_blocks (config E))" "validate_block E b st = (st1, os1, Ok ())"
    and "slots_free (notes_tree st) (nonzero_leaves (state (bcontent b)))"
  shows "\<exists>st2 os2. commit_proposal E now utc alive b st1 = (st2, os2, Ok ())
    \<and> node_wf E invar contents tinvar tcontents st2
    \<and> note_keys (notes_tree st2) = note_keys (notes_tree st) \<union> set (nonzero_leaves (state (bcontent b)))
    \<and> notes_root E (notes_tree st2) = broot b
    \<and> store_get (store_db E) (store_ops E) (block_store st2) (bheight b)
        = Ok (Some (BlockV2 b \<lparr>timestamp_unix_s = Some utc\<rparr>))
    \<and> (\<forall>l \<in> set (listeners st). alive l \<longrightarrow> Notified l b \<in> set os2)"
proof -
  have keep: "listeners st1 = listeners st"
    using same_but_cache_keys [OF conjunct1 [OF validate_block_cache [OF assms(2,4)]]] by simp
  from commit_free [OF assms] obtain st2 os2 where run: "commit_proposal E now utc alive b st1 = (st2, os2, Ok ())"
    and "set (map (\<lambda>l. Notified l b) (filter alive (listeners st1))) \<subseteq> set os2" by blast
  then have "\<forall>l \<in> set (listeners st). alive l \<longrightarrow> Notified l b \<in> set os2" using keep by auto
  with run commit_step(1,4,5,6) [OF assms(1-4) run] show ?thesis by blast
qed

text \<open>
  The blocks that a node has committed since it started with an empty tree. Other operations may
  change the mempool, the block cache and the listeners in between, and validations may fail.
\<close>

inductive chain_run ::
    "('db, 'sdb) node_env \<Rightarrow> ('db \<Rightarrow> bool) \<Rightarrow> ('db \<Rightarrow> (bytes, bytes) btree) \<Rightarrow> ('sdb \<Rightarrow> bool) \<Rightarrow> ('sdb \<Rightarrow> (bytes, bytes) btree)
      \<Rightarrow> Block list \<Rightarrow> ('db, 'sdb, 's, 'l) NodeShared \<Rightarrow> bool"
  for E invar contents tinvar tcontents where
  chain_start: "node_wf E invar contents tinvar tcontents st \<Longrightarrow> note_keys (notes_tree st) = {} \<Longrightarrow>
    chain_run E invar contents tinvar tcontents [] st"
| chain_commit: "chain_run E invar contents tinvar tcontents bs st \<Longrightarrow> bheight b \<notin> set (bad_blocks (config E)) \<Longrightarrow>
    validate_block E b st = (st1, os1, Ok ()) \<Longrightarrow> commit_proposal E now utc alive b st1 = (st2, os2, Ok ()) \<Longrightarrow>
    chain_run E invar contents tinvar tcontents (bs @ [b]) st2"
| chain_validate: "chain_run E invar contents tinvar tcontents bs st \<Longrightarrow> validate_block E b st = (st1, os1, r) \<Longrightarrow>
    chain_run E invar contents tinvar tcontents bs st1"
| chain_other: "chain_run E invar contents tinvar tcontents bs st \<Longrightarrow>
    notes_tree st' = notes_tree st \<Longrightarrow> block_store st' = block_store st \<Longrightarrow> chain_run E invar contents tinvar tcontents bs st'"

abbreviation chain_leaves :: "Block list \<Rightarrow> element list" where
  "chain_leaves bs \<equiv> concat (map (\<lambda>b. nonzero_leaves (state (bcontent b))) bs)"

text \<open>
  C1: no double spend. Over the whole chain of committed blocks, every non-zero leaf (the
  nullifier of a spent note or a new note) occurs once; the notes tree has exactly these leaves, its
  root hash is the one that the last block announces, and the store returns the last block.
\<close>

theorem no_double_spend:
  assumes "env_ok E invar contents tinvar tcontents" "chain_run E invar contents tinvar tcontents bs st"
  shows "distinct (chain_leaves bs) \<and> note_keys (notes_tree st) = set (chain_leaves bs)
    \<and> (bs \<noteq> [] \<longrightarrow> notes_root E (notes_tree st) = broot (last bs)
        \<and> (\<exists>m. store_get (store_db E) (store_ops E) (block_store st) (bheight (last bs)) = Ok (Some (BlockV2 (last bs) m))))"
proof -
  have "node_wf E invar contents tinvar tcontents st \<and> distinct (chain_leaves bs) \<and> note_keys (notes_tree st) = set (chain_leaves bs)
    \<and> (bs \<noteq> [] \<longrightarrow> notes_root E (notes_tree st) = broot (last bs)
        \<and> (\<exists>m. store_get (store_db E) (store_ops E) (block_store st) (bheight (last bs)) = Ok (Some (BlockV2 (last bs) m))))"
    using assms(2)
  proof induction
    case (chain_commit bs st b st1 os1 now utc alive st2 os2)
    from chain_commit.IH have wf: "node_wf E invar contents tinvar tcontents st" by simp
    note step = commit_step [OF assms(1) wf chain_commit.hyps(2-4)]
    from chain_commit.IH step(1-6) show ?case by auto
  next
    case (chain_validate bs st b st1 os1 r)
    from chain_validate.IH have wf: "node_wf E invar contents tinvar tcontents st" by simp
    from validate_block_cache [OF wf chain_validate.hyps(2)] have s: "same_but_cache st st1" and wf1: "node_wf E invar contents tinvar tcontents st1"
      by blast+
    from s have "notes_root E (notes_tree st1) = notes_root E (notes_tree st)"
      by (auto simp: same_but_cache_def notes_root_def root_hash_def)
    with same_but_cache_keys [OF s] chain_validate.IH wf1 show ?case by simp
  qed (auto simp: node_wf_def)
  then show ?thesis by blast
qed

section \<open>The ticker\<close>

lemma validate_block_keeps_cache: "validate_block E b st = (st1, os, r) \<Longrightarrow> block_cache st1 = block_cache st"
  by (auto simp: validate_block_def nbind_def on_tree_def split: option.splits outcome.splits if_splits prod.splits)

lemma commit_keeps_cache: "commit_proposal E now utc alive b st = (st1, os, r) \<Longrightarrow> block_cache st1 = block_cache st"
  by (auto simp: commit_proposal_def nbind_def on_tree_def store_block_def commit_mempool_def Let_def
      split: option.splits outcome.splits if_splits prod.splits)

definition heights_left :: "BlockCache \<Rightarrow> BlockHeight set" where
  "heights_left c = {h. map_of (block_hash_heights c) h \<noteq> None \<and> cheight c < h}"

lemma finite_heights: "finite (heights_left c)"
  using finite_dom_map_of [of "block_hash_heights c"] by (rule rev_finite_subset) (auto simp: heights_left_def)

text \<open>Both ways of handling the next block leave fewer heights to handle.\<close>

lemma next_block_progress:
  assumes ok: "cache_ok H c" and b: "get_next_commit_block c = Some b"
  shows "card (heights_left (cache_remove (bhash H b) c)) < card (heights_left c)"
    "card (heights_left (cache_confirm (bheight b) c)) < card (heights_left c)"
proof -
  let ?n = "cheight c + 1"
  from b obtain x where x: "map_of (block_hash_heights c) ?n = Some x" "map_of (cblocks c) x = Some b"
    by (auto simp: get_next_commit_block_def get_by_height_def split: option.splits)
  from cache_okD(4) [OF ok x(1)] x(2) have h: "bheight b = ?n" "cheight c \<le> ?n" by auto
  have lt: "cheight c < ?n"
  proof (rule ccontr)
    assume "\<not> cheight c < ?n"
    with h(2) have "cheight c = cheight c + 1" by simp
    then show False by (metis add_cancel_right_right zero_neq_one)
  qed
  have n: "?n \<in> heights_left c" using x(1) lt by (simp add: heights_left_def)
  have "heights_left (cache_remove (bhash H b) c) \<subseteq> heights_left c - {?n}"
    using cache_okD(3) [OF ok x(2)] x(2) h(1) by (auto simp: heights_left_def cache_remove_def bt_remove_lookup)
  moreover have "heights_left (cache_confirm (bheight b) c) \<subseteq> heights_left c - {?n}"
    using cache_confirm_ok(2,3) [OF ok, where h = "bheight b"] h(1) lt by (auto simp: heights_left_def split: if_splits)
  ultimately show "card (heights_left (cache_remove (bhash H b) c)) < card (heights_left c)"
    "card (heights_left (cache_confirm (bheight b) c)) < card (heights_left c)"
    using n by (auto intro!: psubset_card_mono [OF finite_heights])
qed

text \<open>
  C9: the loop of a tick that commits the next cached blocks ends. It keeps the cache well formed,
  and when it ends without a failing commit and without a panic, no next block is left.
\<close>

theorem commit_loop_terminates:
  assumes "cache_ok (henv E) (block_cache st)"
  shows "\<exists>st' os r. commit_loop E now utc alive st = Some (st', os, r) \<and> cache_ok (henv E) (block_cache st')
    \<and> (r = Ok True \<longrightarrow> get_next_commit_block (block_cache st') = None) \<and> (\<forall>e. r \<noteq> Err e)"
  using assms
proof (induction "card (heights_left (block_cache st))" arbitrary: st rule: less_induct)
  case less
  show ?case
  proof (cases "get_next_commit_block (block_cache st)")
    case None
    with less.prems show ?thesis by (subst commit_loop.simps) simp
  next
    case (Some b)
    note progress = next_block_progress [OF less.prems Some]
    obtain st1 os1 r where v: "validate_block E b st = (st1, os1, r)" by (cases "validate_block E b st") auto
    have c1: "block_cache st1 = block_cache st" by (rule validate_block_keeps_cache [OF v])
    show ?thesis
    proof (cases r)
      case (Ok u)
      let ?st = "st1\<lparr>block_cache := cache_confirm (bheight b) (block_cache st1)\<rparr>"
      obtain st2 os2 r2 where c: "commit_proposal E now utc alive b ?st = (st2, os2, r2)"
        by (cases "commit_proposal E now utc alive b ?st") auto
      have c2: "block_cache st2 = cache_confirm (bheight b) (block_cache st)" using commit_keeps_cache [OF c] c1 by simp
      have ok2: "cache_ok (henv E) (block_cache st2)" unfolding c2 by (rule cache_confirm_ok(1) [OF less.prems])
      show ?thesis
      proof (cases r2)
        case Ok2: (Ok u2)
        have "card (heights_left (block_cache st2)) < card (heights_left (block_cache st))" using progress(2) c2 by simp
        from less.hyps [OF this ok2] Some v Ok c Ok2 show ?thesis by (subst commit_loop.simps) auto
      next
        case (Err e)
        with Some v Ok c ok2 show ?thesis by (subst commit_loop.simps) simp
      next
        case Panic
        with Some v Ok c ok2 show ?thesis by (subst commit_loop.simps) simp
      qed
    next
      case (Err e)
      let ?st = "st1\<lparr>block_cache := cache_remove (bhash (henv E) b) (block_cache st1)\<rparr>"
      have "card (heights_left (block_cache ?st)) < card (heights_left (block_cache st))" using progress(1) c1 by simp
      moreover have "cache_ok (henv E) (block_cache ?st)" using cache_remove_ok [OF less.prems] c1 by simp
      ultimately show ?thesis using less.hyps [of ?st] Some v Err by (subst commit_loop.simps) auto
    next
      case Panic
      with Some v c1 less.prems show ?thesis by (subst commit_loop.simps) simp
    qed
  qed
qed

section \<open>Starting after a crash\<close>

lemma load_notes_spec:
  assumes env: "env_ok E invar contents tinvar tcontents" and ok: "notes_ok E tinvar tcontents p"
  shows "\<exists>q. load_notes E (Ok (pdb p)) = Ok q \<and> notes_ok E tinvar tcontents q \<and> note_keys q = note_keys p
    \<and> notes_root E q = notes_root E p"
proof -
  let ?hm = "hash_merge2 E" and ?D = MERKLE_TREE_DEPTH
  have kv: "kv_db (tree_db E) tinvar tcontents" and C: "storage_codec_ok (tree_codec E)" using env by (simp_all add: env_ok_def)
  have p: "tree_ok ?hm ?D (ptree p)" "tinvar (pdb p)" "storage_ok ?hm (tree_codec E) (tree_get (ptree p)) (tcontents (pdb p))"
    using ok by (simp_all add: persistent_ok_def)
  from load_tree_spec [OF kv p(2) C p(1,3)] obtain t where
    t: "load_tree ?hm (tree_codec E) ?D (tree_db E) (pdb p) = Ok t" "tree_ok ?hm ?D t" "simple_sound ?hm (cache t)"
      "tree_entries t = tree_entries (ptree p)" "root_hash ?hm t = root_hash ?hm (ptree p)" by blast
  have "tree_get t = tree_get (ptree p)" by (simp add: fun_eq_iff tree_get_def t(4))
  with t p show ?thesis
    by (intro exI [of _ "\<lparr>ptree = t, pdb = pdb p\<rparr>"])
       (simp add: load_notes_def persistent_load_def persistent_ok_def notes_root_def tree_keys_def)
qed

lemma stored_block_Some:
  "store_get (store_db E) (store_ops E) db h = Ok (Some f) \<Longrightarrow> stored_block E db h = Ok (into_block f)"
  by (simp add: stored_block_def)

lemma stored_block_None:
  "store_get (store_db E) (store_ops E) db h = Ok None \<Longrightarrow> stored_block E db h = Panic"
  by (simp add: stored_block_def)

text \<open>The node starts with the block and the store, and with a well-formed tree of the given leaves that has the root of the block.\<close>

definition starts_with ::
    "('db, 'sdb) node_env \<Rightarrow> ('sdb \<Rightarrow> bool) \<Rightarrow> ('sdb \<Rightarrow> (bytes, bytes) btree) \<Rightarrow> ('db, 'sdb) disk \<Rightarrow> Block \<Rightarrow> 'db \<Rightarrow> element set \<Rightarrow> bool" where
  "starts_with E tinvar tcontents disk b db K \<longleftrightarrow>
     (\<exists>p. load_db_and_smirk E disk = Ok \<lparr>ld_block_store = db, ld_persistent_tree = p, ld_block = b\<rparr>
        \<and> notes_ok E tinvar tcontents p \<and> notes_root E p = broot b \<and> note_keys p = K)"

text \<open>
  C8: what a start finds after a crash. Let a block above all stored heights be validated and committed, and let the process die
  after the block has been stored. If the tree has been written too, or the block does not change its root, the node starts with the
  block and the tree as it is on disk. If the tree has not been written and the block changes its root, the block stored one height
  below decides: when it has the root of the tree, the node starts with the committed block, its root and all leaves of the
  commit; when it has another root, the node moves both databases away and starts from genesis; and when there is
  none, as after the first commit of a node and after a fast synchronisation, the start panics.
\<close>

theorem load_recovers:
  assumes "env_ok E invar contents tinvar tcontents" "node_wf E invar contents tinvar tcontents st"
    and "bheight b \<notin> set (bad_blocks (config E))" "validate_block E b st = (st1, os1, Ok ())"
    and "commit_proposal E now utc alive b st1 = (st2, os2, Ok ())"
    and "get_max_height (store_db E) (block_store st) = Ok m" "\<And>h. m = Some h \<Longrightarrow> h < bheight b"
    and "open_store disk = Ok (block_store st2)" "d = notes_tree st \<or> d = notes_tree st2" "open_tree disk = Ok (pdb d)"
  defines "below \<equiv> store_get (store_db E) (store_ops E) (block_store st) (bheight b - 1)"
  shows "if notes_root E d = broot b then starts_with E tinvar tcontents disk b (block_store st2) (note_keys d)
    else d = notes_tree st
      \<and> (\<forall>f. below = Ok (Some f) \<and> broot (into_block f) = notes_root E d \<longrightarrow>
           starts_with E tinvar tcontents disk b (block_store st2) (note_keys (notes_tree st2)))
      \<and> (\<forall>f db p. below = Ok (Some f) \<and> broot (into_block f) \<noteq> notes_root E d
           \<and> reset_both disk = Ok () \<and> fresh_store disk = Ok db \<and> load_notes E (fresh_tree disk) = Ok p \<longrightarrow>
           load_db_and_smirk E disk = Ok \<lparr>ld_block_store = db, ld_persistent_tree = p, ld_block = block_genesis\<rparr>)
      \<and> (below = Ok None \<longrightarrow> load_db_and_smirk E disk = Panic)"
proof -
  let ?ls = "nonzero_leaves (state (bcontent b))"
  note step = commit_step [OF assms(1-5)]
  have okd: "notes_ok E tinvar tcontents d" using assms(2,9) step(1) by (auto simp: node_wf_def)
  from load_notes_spec [OF assms(1) okd] obtain q where
    q: "load_notes E (Ok (pdb d)) = Ok q" "notes_ok E tinvar tcontents q" "note_keys q = note_keys d"
      "notes_root E q = notes_root E d" by blast
  have mx: "get_max_height (store_db E) (block_store st2) = Ok (Some (bheight b))"
    by (rule commit_max_height [OF assms(1-6)]) (use assms(7) in \<open>auto split: option.split\<close>)
  have top: "stored_block E (block_store st2) (bheight b) = Ok b" using stored_block_Some [OF step(6)] by simp
  have prev: "store_get (store_db E) (store_ops E) (block_store st2) (bheight b - 1) = below"
    unfolding below_def by (rule commit_step(7) [OF assms(1-5)]) simp
  note load = load_db_and_smirk_def assms(8,10) q(1) mx top
  show ?thesis
  proof (cases "notes_root E d = broot b")
    case True
    with q(2-4) show ?thesis by (simp add: load starts_with_def)
  next
    case ne: False
    with assms(9) step(5) have d: "d = notes_tree st" by auto
    have free: "slots_free q ?ls"
      using commit_slots_free [OF assms(1-5)] slots_free_keys [of q "notes_tree st"] q(3) d by simp
    from apply_free [OF assms(1) q(2) free, of "bheight b"] obtain p where
      p: "apply_block_to_tree E (state (bcontent b)) (bheight b) False q = (p, Ok ())" "notes_ok E tinvar tcontents p"
        "note_keys p = note_keys q \<union> set ?ls" by blast
    have keys: "note_keys p = note_keys (notes_tree st2)" using p(3) q(3) d step(4) by simp
    have ok2: "notes_ok E tinvar tcontents (notes_tree st2)" using step(1) by (simp add: node_wf_def)
    have root: "notes_root E p = broot b" using notes_root_merkle [OF p(2)] notes_root_merkle [OF ok2] keys step(5) by simp
    have "load_db_and_smirk E disk = Panic" if "below = Ok None"
      using ne q(4) stored_block_None [OF prev [unfolded that]] by (simp add: load)
    moreover have "load_db_and_smirk E disk = Ok \<lparr>ld_block_store = db, ld_persistent_tree = p', ld_block = block_genesis\<rparr>"
      if "below = Ok (Some f)" "broot (into_block f) \<noteq> notes_root E d"
        "reset_both disk = Ok ()" "fresh_store disk = Ok db" "load_notes E (fresh_tree disk) = Ok p'" for f db p'
      using ne that(2-5) q(4) stored_block_Some [OF prev [unfolded that(1)]] by (simp add: load)
    moreover have "starts_with E tinvar tcontents disk b (block_store st2) (note_keys (notes_tree st2))"
      if "below = Ok (Some f)" "broot (into_block f) = notes_root E d" for f
      using ne that(2) q(4) p(1,2) root keys assms(3) stored_block_Some [OF prev [unfolded that(1)]] by (simp add: load starts_with_def)
    ultimately show ?thesis using ne d by auto
  qed
qed

section \<open>Applications to the sample node\<close>

theorem validated_block_commits_witness:
  "\<exists>st1 st2 os2. validate_block sample_env (block_with 1 [sample_txn]) sample_state = (st1, [], Ok ())
    \<and> commit_proposal sample_env 0 100 (\<lambda>_. True) (block_with 1 [sample_txn]) st1 = (st2, os2, Ok ())
    \<and> note_keys (notes_tree st2) = {5} \<and> Notified 9 (block_with 1 [sample_txn]) \<in> set os2"
proof -
  let ?b = "block_with 1 [sample_txn]"
  from sample_validates [OF sample_state_wf, of "[sample_txn]" 1] obtain st1 where
    v: "validate_block sample_env ?b sample_state = (st1, [], Ok ())" by (auto simp: sample_notes_ok(2))
  have "slots_free (notes_tree sample_state) (nonzero_leaves (state (bcontent ?b)))"
    by (rule slots_free_empty) (simp_all add: sample_notes_ok(2) ZERO_def)
  from validated_block_commits [OF sample_env_ok sample_state_wf _ v this, of 0 100 "\<lambda>_. True"] v show ?thesis
    by (auto simp: sample_notes_ok(2) ZERO_def)
qed

theorem no_double_spend_witness:
  "\<exists>st. chain_run sample_env bt_ok (\<lambda>d. d) bt_ok (\<lambda>d. d) [block_with 1 [], block_with 2 [sample_txn]]
      (st :: (mem_db, mem_db, nat, nat) NodeShared)
    \<and> note_keys (notes_tree st) = {5} \<and> notes_root sample_env (notes_tree st) = broot (block_with 2 [sample_txn])"
proof -
  let ?run = "chain_run sample_env bt_ok (\<lambda>d. d) bt_ok (\<lambda>d. d)"
  have bad: "bheight (block_with h ts) \<notin> set (bad_blocks (config sample_env))" for h ts by simp
  have "?run [] sample_state" by (rule chain_start [OF sample_state_wf]) (simp add: sample_notes_ok(2))
  moreover from sample_commits [OF sample_state_wf, of "[]"] obtain st1 st2 os2 where
    c1: "validate_block sample_env (block_with 1 []) sample_state = (st1, [], Ok ())"
      "commit_proposal sample_env 0 100 (\<lambda>_. True) (block_with 1 []) st1 = (st2, os2, Ok ())" "mem_wf st2"
      "note_keys (notes_tree st2) = {}" by (fastforce simp: sample_notes_ok(2))
  moreover from sample_commits [OF c1(3,4), of "[sample_txn]"] obtain st3 st4 os4 where
    c2: "validate_block sample_env (block_with 2 [sample_txn]) st2 = (st3, [], Ok ())"
      "commit_proposal sample_env 1 101 (\<lambda>_. True) (block_with 2 [sample_txn]) st3 = (st4, os4, Ok ())" by fastforce
  ultimately have run: "?run (([] @ [block_with 1 []]) @ [block_with 2 [sample_txn]]) st4"
    by (intro chain_commit [OF chain_commit [OF _ bad] bad])
  from no_double_spend [OF sample_env_ok this] have "note_keys (notes_tree st4) = {5}"
    "notes_root sample_env (notes_tree st4) = broot (block_with 2 [sample_txn])" by (simp_all add: ZERO_def)
  with run show ?thesis by (intro exI [of _ st4]) simp
qed

theorem commit_loop_terminates_witness:
  "\<exists>st' os r. commit_loop sample_env 0 100 (\<lambda>_. True)
      (sample_state\<lparr>block_cache := cache_insert height_env (block_with 1 [sample_txn]) (cache_new height_env block_genesis 10)\<rparr>)
      = Some (st', os, r) \<and> (r = Ok True \<longrightarrow> get_next_commit_block (block_cache st') = None)"
proof -
  let ?c = "cache_insert height_env (block_with 1 [sample_txn]) (cache_new height_env block_genesis 10)"
  have "cache_ok height_env ?c"
    using cache_run_ok [OF run_insert [OF run_new [OF UNIV_I] UNIV_I] height_env_bound] by simp
  then have "cache_ok (henv sample_env) (block_cache (sample_state\<lparr>block_cache := ?c\<rparr>))" by simp
  from commit_loop_terminates [OF this, of 0 100 "\<lambda>_. True"] show ?thesis by blast
qed

theorem load_recovers_witness:
  "\<exists>st2 st3 st4 os4 p. validate_block sample_env (block_with 2 [sample_txn]) st2 = (st3, [], Ok ())
    \<and> commit_proposal sample_env 1 101 (\<lambda>_. True) (block_with 2 [sample_txn])
        (st3 :: (mem_db, mem_db, nat, nat) NodeShared) = (st4, os4, Ok ())
    \<and> load_db_and_smirk sample_env \<lparr>open_store = Ok (block_store st4), open_tree = Ok (pdb (notes_tree st2)),
        reset_tree = Err (), reset_both = Err (), fresh_store = Ok [], fresh_tree = Ok []\<rparr>
      = Ok \<lparr>ld_block_store = block_store st4, ld_persistent_tree = p, ld_block = block_with 2 [sample_txn]\<rparr>
    \<and> notes_root sample_env p = root_of [5]"
proof -
  let ?a = "block_with 1 []" and ?b = "block_with 2 [sample_txn]"
  have bad: "bheight (block_with h ts) \<notin> set (bad_blocks (config sample_env))" for h ts by simp
  from sample_commits [OF sample_state_wf, of "[]"] obtain st1 st2 os2 where
    c1: "validate_block sample_env ?a sample_state = (st1, [], Ok ())"
      "commit_proposal sample_env 0 100 (\<lambda>_. True) ?a st1 = (st2, os2, Ok ())" "mem_wf st2"
      "note_keys (notes_tree st2) = {}" by (fastforce simp: sample_notes_ok(2))
  from sample_commits [OF c1(3,4), of "[sample_txn]"] obtain st3 st4 os4 where
    c2: "validate_block sample_env ?b st2 = (st3, [], Ok ())"
      "commit_proposal sample_env 1 101 (\<lambda>_. True) ?b st3 = (st4, os4, Ok ())" by fastforce
  let ?disk = "\<lparr>open_store = Ok (block_store st4), open_tree = Ok (pdb (notes_tree st2)),
    reset_tree = Err (), reset_both = Err (), fresh_store = Ok [], fresh_tree = Ok []\<rparr> :: (mem_db, mem_db) disk"
  note s1 = commit_step(5,6) [OF sample_env_ok sample_state_wf bad c1(1,2)]
  have mx: "get_max_height (store_db sample_env) (block_store st2) = Ok (Some 1)"
    using commit_max_height [OF sample_env_ok sample_state_wf bad c1(1,2), of None]
    by (simp add: get_max_height_def mem_rocksdb_def)
  have "store_get (store_db sample_env) (store_ops sample_env) (block_store st2) (bheight ?b - 1)
      = Ok (Some (BlockV2 ?a \<lparr>timestamp_unix_s = Some 100\<rparr>))" using s1(2) by simp
  with load_recovers [OF sample_env_ok c1(3) bad c2 mx _ _ _ _, of ?disk "notes_tree st2"] s1(1)
  have "\<exists>K. starts_with sample_env bt_ok (\<lambda>d. d) ?disk ?b (block_store st4) K" by (auto split: if_splits)
  with c2 show ?thesis
    by (intro exI [of _ st2] exI [of _ st3] exI [of _ st4] exI [of _ os4]) (auto simp: starts_with_def ZERO_def)
qed

end
