(* ===== verification/Sync.thy ===== *)
theory Sync
  imports Node_Ops
begin

text \<open>
  Synchronisation with other nodes: the sync worker that requests and applies snapshots, the handlers
  that serve them (\<^verbatim>\<open>pkg/node/src/sync.rs\<close>, \<^verbatim>\<open>node/snapshot.rs\<close>) and the dispatch of network events
  (\<^verbatim>\<open>network_handler.rs\<close>). The channel of the worker is the list of messages that it receives; a timeout
  cuts the list off. Random snapshot ids and the answers of the contract are arguments.
\<close>

section \<open>Messages and errors\<close>

datatype SyncError =
    ChannelWasClosed
  | SyncNodeError NodeError
  | SmirkCollisionError CollisionError
  | SmirkStorageError StorageError
  | TokioJoin

datatype Message =
    MsgOutOfSync BlockHeight
  | MsgSnapshotOffer PeerId u64
  | MsgSnapshotChunk PeerId SnapshotChunk

text \<open>Sending to the worker fails when its end of the channel is gone.\<close>

definition channel_send :: "bool \<Rightarrow> Message \<Rightarrow> Message list \<Rightarrow> (SyncError, Message list) outcome" where
  "channel_send open_channel m queue = (if open_channel then Ok (queue @ [m]) else Err ChannelWasClosed)"

definition channel_out_of_sync :: "bool \<Rightarrow> BlockHeight \<Rightarrow> Message list \<Rightarrow> (SyncError, Message list) outcome" where
  "channel_out_of_sync open_channel max_seen = channel_send open_channel (MsgOutOfSync max_seen)"

definition channel_snapshot_offer :: "bool \<Rightarrow> PeerId \<Rightarrow> u64 \<Rightarrow> Message list \<Rightarrow> (SyncError, Message list) outcome" where
  "channel_snapshot_offer open_channel peer sid = channel_send open_channel (MsgSnapshotOffer peer sid)"

definition channel_snapshot_chunk :: "bool \<Rightarrow> PeerId \<Rightarrow> SnapshotChunk \<Rightarrow> Message list \<Rightarrow> (SyncError, Message list) outcome" where
  "channel_snapshot_chunk open_channel peer sc = channel_send open_channel (MsgSnapshotChunk peer sc)"

text \<open>
  The waiting loops drop other messages. The result is the awaited message and the rest of the
  queue; \<open>None\<close> when the messages at hand do not contain it.
\<close>

fun wait_for_out_of_sync :: "Message list \<Rightarrow> (BlockHeight \<times> Message list) option" where
  "wait_for_out_of_sync [] = None"
| "wait_for_out_of_sync (MsgOutOfSync h # ms) = Some (h, ms)"
| "wait_for_out_of_sync (_ # ms) = wait_for_out_of_sync ms"

fun wait_for_snapshot_offer :: "u64 \<Rightarrow> Message list \<Rightarrow> (PeerId \<times> Message list) option" where
  "wait_for_snapshot_offer sid [] = None"
| "wait_for_snapshot_offer sid (MsgSnapshotOffer peer i # ms) =
     (if i = sid then Some (peer, ms) else wait_for_snapshot_offer sid ms)"
| "wait_for_snapshot_offer sid (_ # ms) = wait_for_snapshot_offer sid ms"

fun wait_for_snapshot_chunk :: "PeerId \<Rightarrow> u64 \<Rightarrow> Message list \<Rightarrow> (SnapshotChunk \<times> Message list) option" where
  "wait_for_snapshot_chunk peer sid [] = None"
| "wait_for_snapshot_chunk peer sid (MsgSnapshotChunk p sc # ms) =
     (if p = peer \<and> chunk_snapshot_id sc = sid then Some (sc, ms) else wait_for_snapshot_chunk peer sid ms)"
| "wait_for_snapshot_chunk peer sid (_ # ms) = wait_for_snapshot_chunk peer sid ms"

section \<open>Requesting snapshots\<close>

type_synonym ('db, 'sdb, 's, 'l, 'a) sync_op =
  "(('db, 'sdb, 's, 'l) NodeShared, ('s, 'l) node_output, SyncError, 'a) op"

definition snapshot_request ::
    "('db, 'sdb) node_env \<Rightarrow> u64 \<Rightarrow> (unit, u64) outcome \<Rightarrow> BlockHeight \<Rightarrow> BlockHeight \<Rightarrow> SnapshotRequest" where
  "snapshot_request E sid contract_height own_height max_seen =
     (let from_height = own_height + 1;
          to_height = from_height + sync_chunk_size (config E);
          far_enough = max_seen - own_height > fast_sync_threshold (config E);
          (to_height', kind) =
            (if is_prover (mode (config E)) \<and> far_enough
             then (case contract_height of
                     Ok ch \<Rightarrow> if ch > to_height then (ch, Fast) else (to_height, Slow)
                   | _ \<Rightarrow> (to_height, Slow))
             else (to_height, Slow))
      in \<lparr>sr_snapshot_id = sid, sr_from_height = from_height, sr_to_height = to_height', sr_kind = kind\<rparr>)"

text \<open>A node operation within the worker; its error is boxed.\<close>

definition lift_node :: "('db, 'sdb, 's, 'l, 'a) node_op \<Rightarrow> ('db, 'sdb, 's, 'l, 'a) sync_op" where
  "lift_node m = (\<lambda>st. case m st of (st', os, r) \<Rightarrow> (st', os, omap_err SyncNodeError r))"

text \<open>The blocks of a slow chunk are received in the order of their heights; errors are logged.\<close>

fun receive_blocks :: "('db, 'sdb) node_env \<Rightarrow> Block list \<Rightarrow> ('db, 'sdb, 's, 'l, unit) sync_op" where
  "receive_blocks E [] = nret ()"
| "receive_blocks E (b # bs) =
     nbind (ntry (receive_proposal E b)) (\<lambda>_.
     nbind (nout [WakeTicker]) (\<lambda>_. receive_blocks E bs))"

text \<open>The result is the message to the worker itself, when the node is still behind.\<close>

definition handle_snapshot_chunk_slow ::
    "('db, 'sdb) node_env \<Rightarrow> SnapshotChunkSlow \<Rightarrow> ('db, 'sdb, 's, 'l, Message list) sync_op" where
  "handle_snapshot_chunk_slow E sc =
     nbind (\<lambda>st. case receive_blocks E (sort_key bheight (scs_chunk sc)) st of
              (st', os, Panic) \<Rightarrow> (st', os, Err TokioJoin)
            | (st', os, r) \<Rightarrow> (st', os, r)) (\<lambda>_.
     nbind (lift_node node_out_of_sync) (\<lambda>out.
       if \<not> out then nret []
       else nget (\<lambda>st. [MsgOutOfSync (cmax_height (block_cache st))])))"

text \<open>The batch of a fast chunk: the elements that are not leaves of the block.\<close>

definition fast_batch ::
    "element list \<Rightarrow> element list \<Rightarrow> (CollisionError, SmirkMetadata Batch) outcome" where
  "fast_batch block_elements es =
     ofold (\<lambda>e b. batch_insert MERKLE_TREE_DEPTH e \<lparr>inserted_in = 0\<rparr> b)
       (filter (\<lambda>e. e \<notin> set block_elements) es) batch_new"

datatype fast_result = FastIgnored | FastApplied

text \<open>
  The part of a fast chunk that runs under the lock of the tree. A chunk whose root hash is not the
  block's, or that lacks leaves of the block, is ignored.
\<close>

definition fast_apply ::
    "('db, 'sdb) node_env \<Rightarrow> Block \<Rightarrow> element list \<Rightarrow> ('db, 'sdb, 's, 'l, fast_result) sync_op" where
  "fast_apply E block chunk_elements = (\<lambda>st.
     let p = notes_tree st;
         block_elements = remdups (filter (\<lambda>l. \<not> is_zero l) (concat (map utxo_leaves (btxns block))));
         es = filter (\<lambda>e. \<not> contains_element (ptree p) e) (remdups chunk_elements)
     in case notes_root_with E p es of
          (p1, Ok root) \<Rightarrow>
            if root \<noteq> broot block then (st\<lparr>notes_tree := p1\<rparr>, [], Ok FastIgnored)
            else
              (case fast_batch block_elements es of
                 Err e \<Rightarrow> (st\<lparr>notes_tree := p1\<rparr>, [], Err (SmirkCollisionError e))
               | Panic \<Rightarrow> (st\<lparr>notes_tree := p1\<rparr>, [], Panic)
               | Ok batch \<Rightarrow>
                   if \<not> set block_elements \<subseteq> set es then (st\<lparr>notes_tree := p1\<rparr>, [], Ok FastIgnored)
                   else
                     (case persistent_insert_batch (hash_merge2 E) (tree_codec E) MERKLE_TREE_DEPTH (tree_db E) p1 batch of
                        (p2, Ok _) \<Rightarrow>
                          (st\<lparr>notes_tree := p2, block_cache := cache_confirm (bheight block - 1) (block_cache st)\<rparr>,
                           [], Ok FastApplied)
                      | (p2, Err e) \<Rightarrow> (st\<lparr>notes_tree := p2\<rparr>, [], Err (SmirkStorageError e))
                      | (p2, Panic) \<Rightarrow> (st\<lparr>notes_tree := p2\<rparr>, [], Panic)))
        | (p1, _) \<Rightarrow> (st\<lparr>notes_tree := p1\<rparr>, [], Panic))"

definition handle_snapshot_chunk_fast ::
    "('db, 'sdb) node_env \<Rightarrow> SnapshotChunkFast \<Rightarrow> ('db, 'sdb, 's, 'l, unit) sync_op" where
  "handle_snapshot_chunk_fast E sc =
     (case scf_block sc of
        None \<Rightarrow> nret ()
      | Some block \<Rightarrow>
          nbind (fast_apply E block (scf_elements sc)) (\<lambda>r.
            case r of
              FastIgnored \<Rightarrow> nret ()
            | FastApplied \<Rightarrow>
                nbind (lift_node (receive_proposal E block)) (\<lambda>_. nout [WakeTicker])))"

definition handle_snapshot_chunk ::
    "('db, 'sdb) node_env \<Rightarrow> SnapshotChunk \<Rightarrow> ('db, 'sdb, 's, 'l, Message list) sync_op" where
  "handle_snapshot_chunk E sc =
     (case sc of
        ChunkSlow s \<Rightarrow> handle_snapshot_chunk_slow E s
      | ChunkFast f \<Rightarrow> nbind (handle_snapshot_chunk_fast E f) (\<lambda>_. nret []))"

text \<open>An offer is accepted from the current height on; \<open>ms\<close> are the messages that arrive in time.\<close>

definition handle_snapshot_offer ::
    "('db, 'sdb) node_env \<Rightarrow> SnapshotKind \<Rightarrow> BlockHeight \<Rightarrow> PeerId \<Rightarrow> u64 \<Rightarrow> Message list
      \<Rightarrow> ('db, 'sdb, 's, 'l, Message list) sync_op" where
  "handle_snapshot_offer E kind to_height peer sid ms =
     nbind (nget (\<lambda>st. cheight (block_cache st) + 1)) (\<lambda>from_height.
     nbind (nout [SendTo peer (EvSnapshotAccept
        \<lparr>sa_snapshot_id = sid, sa_from_height = from_height, sa_to_height = to_height, sa_kind = kind\<rparr>)]) (\<lambda>_.
     case wait_for_snapshot_chunk peer sid ms of
       None \<Rightarrow> nret []
     | Some (sc, _) \<Rightarrow> handle_snapshot_chunk E sc))"

definition handle_out_of_sync ::
    "('db, 'sdb) node_env \<Rightarrow> u64 \<Rightarrow> (unit, u64) outcome \<Rightarrow> BlockHeight \<Rightarrow> Message list
      \<Rightarrow> ('db, 'sdb, 's, 'l, Message list) sync_op" where
  "handle_out_of_sync E sid contract_height max_seen ms =
     nbind (lift_node node_out_of_sync) (\<lambda>out.
     if \<not> out then nret []
     else
       nbind (nget (\<lambda>st. snapshot_request E sid contract_height (cheight (block_cache st)) max_seen)) (\<lambda>req.
       nbind (nout [SendAll (EvSnapshotRequest req)]) (\<lambda>_.
       case wait_for_snapshot_offer sid ms of
         None \<Rightarrow> nret []
       | Some (peer, ms') \<Rightarrow> handle_snapshot_offer E (sr_kind req) (sr_to_height req) peer sid ms')))"

section \<open>Serving snapshots\<close>

definition handle_snapshot_request :: "PeerId \<Rightarrow> u64 \<Rightarrow> BlockHeight \<Rightarrow> ('db, 'sdb, 's, 'l, unit) sync_op" where
  "handle_snapshot_request peer sid from_height =
     nbind (lift_node node_out_of_sync) (\<lambda>out.
     nbind (nget (\<lambda>st. cheight (block_cache st))) (\<lambda>h.
       if out \<or> from_height > h then nret () else nout [SendTo peer (EvSnapshotOffer sid)]))"

definition send_snapshot_chunk_slow ::
    "('db, 'sdb) node_env \<Rightarrow> PeerId \<Rightarrow> u64 \<Rightarrow> BlockHeight \<Rightarrow> BlockHeight \<Rightarrow> ('db, 'sdb, 's, 'l, unit) sync_op" where
  "send_snapshot_chunk_slow E peer sid from_height to_height0 =
     nbind (nget (\<lambda>st. min to_height0 (cheight (block_cache st) + 1))) (\<lambda>to_height.
     nbind (lift_node (\<lambda>st. (st, [], collect_results (map (omap into_block)
        (fetch_blocks E (Included from_height, Excluded to_height) LowestToHighest st))))) (\<lambda>blocks.
     nbind (\<lambda>st. (st, [], unwrap (get_range (block_cache st) from_height to_height))) (\<lambda>pending_proposals.
     nout [SendTo peer (EvSnapshotChunk (ChunkSlow \<lparr>scs_snapshot_id = sid, scs_chunk = blocks @ pending_proposals\<rparr>))])))"

definition send_snapshot_chunk_fast ::
    "('db, 'sdb) node_env \<Rightarrow> PeerId \<Rightarrow> u64 \<Rightarrow> BlockHeight \<Rightarrow> ('db, 'sdb, 's, 'l, unit) sync_op" where
  "send_snapshot_chunk_fast E peer sid to_height =
     nbind (lift_node (\<lambda>st. (st, [], get_block E to_height st))) (\<lambda>block.
     nbind (nget (\<lambda>st. map fst (filter (\<lambda>(e, meta). inserted_in meta \<le> to_height) (tree_elements (ptree (notes_tree st)))))) (\<lambda>es.
     nout [SendTo peer (EvSnapshotChunk (ChunkFast
       \<lparr>scf_snapshot_id = sid, scf_block = map_option into_block block, scf_elements = es\<rparr>))]))"

definition handle_snapshot_accept ::
    "('db, 'sdb) node_env \<Rightarrow> PeerId \<Rightarrow> SnapshotAccept \<Rightarrow> ('db, 'sdb, 's, 'l, unit) sync_op" where
  "handle_snapshot_accept E peer a =
     (case sa_kind a of
        Slow \<Rightarrow> send_snapshot_chunk_slow E peer (sa_snapshot_id a) (sa_from_height a) (sa_to_height a)
      | Fast \<Rightarrow> send_snapshot_chunk_fast E peer (sa_snapshot_id a) (sa_to_height a))"

section \<open>Network events\<close>

text \<open>
  The handler of an event; the second component of the result is what is sent to the sync worker,
  whose channel is open as long as \<open>open_channel\<close>.
\<close>

definition handle_event ::
    "('db, 'sdb) node_env \<Rightarrow> Instant \<Rightarrow> DateTime \<Rightarrow> eth_view \<Rightarrow> bool \<Rightarrow> PeerId \<Rightarrow> NetworkEvent
      \<Rightarrow> ('db, 'sdb, 's, 'l, Message list) sync_op" where
  "handle_event E now utc eth open_channel peer event =
     (case event of
        EvApproval approval \<Rightarrow> nbind (lift_node (receive_accept E now utc approval)) (\<lambda>_. nret [])
      | EvBlock block \<Rightarrow>
          nbind (lift_node (receive_proposal E block)) (\<lambda>_. nbind (nout [WakeTicker]) (\<lambda>_. nret []))
      | EvTransaction txn \<Rightarrow> nbind (lift_node (receive_transaction E eth txn)) (\<lambda>_. nret [])
      | EvSnapshotRequest r \<Rightarrow>
          nbind (handle_snapshot_request peer (sr_snapshot_id r) (sr_from_height r)) (\<lambda>_. nret [])
      | EvSnapshotOffer sid \<Rightarrow> nlift (channel_snapshot_offer open_channel peer sid [])
      | EvSnapshotChunk sc \<Rightarrow> nlift (channel_snapshot_chunk open_channel peer sc [])
      | EvSnapshotAccept a \<Rightarrow> nbind (handle_snapshot_accept E peer a) (\<lambda>_. nret []))"

end
