(* ===== verification/Sync_Props.thy ===== *)
theory Sync_Props
  imports Sync Node_Sample
begin

text \<open>Properties of the synchronisation: which fast snapshots are accepted, and what serving a slow one does.\<close>

section \<open>Fast snapshots\<close>

lemma fast_batch_from_entries:
  "fast_batch ls es = from_entries MERKLE_TREE_DEPTH (map (\<lambda>e. (e, \<lparr>inserted_in = 0\<rparr>)) (filter (\<lambda>e. e \<notin> set ls) es))"
proof -
  have "ofold (\<lambda>e b. batch_insert MERKLE_TREE_DEPTH e m b) xs s
      = ofold (\<lambda>(e, v) b. batch_insert MERKLE_TREE_DEPTH e v b) (map (\<lambda>e. (e, m)) xs) s" for m :: SmirkMetadata and xs s
  proof (induction xs arbitrary: s)
    case (Cons x xs)
    have "ofold (\<lambda>e b. batch_insert MERKLE_TREE_DEPTH e m b) xs
        = ofold (\<lambda>(e, v) b. batch_insert MERKLE_TREE_DEPTH e v b) (map (\<lambda>e. (e, m)) xs)" using Cons.IH by blast
    then show ?case by simp
  qed simp
  then show ?thesis unfolding fast_batch_def from_entries_def by simp
qed

lemma insert_null_fails:
  assumes "NULL_HASH \<in> set (elements batch)" "persistent_insert_batch hm C D R p batch = (p', r)"
  shows "r \<noteq> Ok ()"
proof -
  have ne: "\<not> batch_is_empty batch" "\<exists>(e, v) \<in> set (entries batch). e = NULL_HASH"
    using assms(1) by (auto simp: batch_is_empty_def elements_def)
  have "snd (snd (insert_batch hm (simple_hash hm) D (ptree p) batch)) \<noteq> Ok ()"
    using ne by (auto simp: insert_batch_def insert_without_hashing_def batch_is_empty_def split: outcome.splits)
  with assms(2) ne(1) show ?thesis
    by (auto simp: persistent_insert_batch_def Let_def split: prod.splits outcome.splits)
qed

text \<open>Subsets of leaves with free slots have free slots.\<close>

lemma slots_free_filter: "slots_free p es \<Longrightarrow> slots_free p (filter P es)"
  by (auto simp: slots_free_def distinct_map_filter)

text \<open>
  C29: an accepted fast snapshot. When a chunk is applied and the new elements have free slots, the
  node stays well formed, and together with the leaves of the block the tree has the root hash that
  the block announces: the tree has received all elements of the chunk but the leaves of the block,
  which are still to be inserted, and their insertion is known to give the root of the block.
\<close>

theorem fast_apply_sound:
  assumes "env_ok E invar contents tinvar tcontents" "node_wf E invar contents tinvar tcontents st"
    and "fast_apply E block chunk_elements st = (st', os, Ok FastApplied)"
    and "slots_free (notes_tree st) (filter (\<lambda>e. \<not> contains_element (ptree (notes_tree st)) e) (remdups chunk_elements))"
  shows "node_wf E invar contents tinvar tcontents st'
    \<and> note_keys (notes_tree st') = note_keys (notes_tree st) \<union> (set chunk_elements - set (nonzero_leaves (state (bcontent block))))
    \<and> set (nonzero_leaves (state (bcontent block))) \<subseteq> set chunk_elements - note_keys (notes_tree st')
    \<and> (distinct (nonzero_leaves (state (bcontent block))) \<longrightarrow>
        (\<exists>q. new_root_hash E (notes_tree st') (nonzero_leaves (state (bcontent block))) = (q, Ok (broot block))))"
proof -
  let ?p = "notes_tree st" and ?D = MERKLE_TREE_DEPTH and ?hm = "hash_merge2 E"
  let ?ls = "nonzero_leaves (state (bcontent block))"
  let ?bl = "remdups (filter (\<lambda>l. \<not> is_zero l) (concat (map utxo_leaves (btxns block))))"
  let ?es = "filter (\<lambda>e. \<not> contains_element (ptree ?p) e) (remdups chunk_elements)"
  let ?rest = "filter (\<lambda>e. e \<notin> set ?bl) ?es"
  have bl: "set ?bl = set ?ls" by (auto simp: nonzero_leaves_def is_zero_def)
  have ok: "notes_ok E tinvar tcontents ?p" using assms(2) by (simp add: node_wf_def)
  from notes_root_with_spec [OF ok assms(4)] obtain c where
    w: "notes_root_with E ?p ?es = (?p\<lparr>ptree := (ptree ?p)\<lparr>cache := c\<rparr>\<rparr>, Ok (merkle ?hm ?D (key_slots ?D (note_keys ?p \<union> set ?es))))"
    and c: "simple_sound ?hm c" by blast
  let ?p1 = "?p\<lparr>ptree := (ptree ?p)\<lparr>cache := c\<rparr>\<rparr>"
  from cache_update_ok [OF ok c] have p1: "notes_ok E tinvar tcontents ?p1" "note_keys ?p1 = note_keys ?p" by blast+
  note run = assms(3) [unfolded fast_apply_def Let_def w prod.case outcome.case]
  from run have root: "merkle ?hm ?D (key_slots ?D (note_keys ?p \<union> set ?es)) = broot block"
    by (simp split: if_splits)
  with run obtain batch where batch: "fast_batch ?bl ?es = Ok batch" by (cases "fast_batch ?bl ?es") auto
  with run root have sub: "set ?bl \<subseteq> set ?es" by (auto split: if_splits)
  obtain p2 r where ins: "persistent_insert_batch ?hm (tree_codec E) ?D (tree_db E) ?p1 batch = (p2, r)" by fastforce
  with run root batch sub have r: "r = Ok ()"
    and st': "st' = st\<lparr>notes_tree := p2, block_cache := cache_confirm (bheight block - 1) (block_cache st)\<rparr>"
    by (cases r; auto)+
  from from_entries_Ok [OF batch [unfolded fast_batch_from_entries]] have b: "batch_ok ?D batch" "elements batch = ?rest"
    by (simp_all add: elements_def comp_def)
  have free1: "slots_free ?p1 ?es" using assms(4) slots_free_keys [OF p1(2)] by blast
  have kv: "kv_db (tree_db E) tinvar tcontents" and C: "storage_codec_ok (tree_codec E)" using assms(1) by (simp_all add: env_ok_def)
  have "NULL_HASH \<notin> set (elements batch)" using insert_null_fails [OF _ ins] r by blast
  moreover have "\<forall>k \<in> note_keys ?p1. \<forall>e \<in> set (elements batch). \<not> collides_with ?D k e"
    using slots_free_filter [OF free1, of "\<lambda>e. e \<notin> set ?bl"] b(2) by (simp add: slots_free_def)
  ultimately have p2: "notes_ok E tinvar tcontents p2" "note_keys p2 = note_keys ?p \<union> set ?rest"
    using persistent_insert_batch_ok [OF kv C p1(1) b(1)] ins b(2) p1(2) by auto
  have keys: "note_keys p2 = note_keys ?p \<union> (set chunk_elements - set ?ls)" unfolding p2(2) bl by (auto simp: contains_iff)
  have leaves: "set ?ls \<subseteq> set chunk_elements - note_keys p2"
    using sub unfolding bl p2(2) by (auto simp: contains_iff)
  have "\<exists>q. new_root_hash E p2 ?ls = (q, Ok (broot block))" if d: "distinct ?ls"
  proof -
    have inj: "inj_on (\<lambda>e. lsb_bits e (?D - 1)) (set ?es)" using assms(4) unfolding slots_free_def distinct_map by blast
    then have "distinct (map (\<lambda>e. lsb_bits e (?D - 1)) ?ls)"
      unfolding distinct_map using d sub bl inj_on_subset by blast
    moreover have "\<not> collides_with ?D k e" if "k \<in> note_keys p2" "e \<in> set ?ls" for k e
    proof (cases "k \<in> note_keys ?p")
      case True
      with assms(4) sub bl that(2) show ?thesis unfolding slots_free_def by blast
    next
      case False
      with that(1) p2(2) have "k \<in> set ?es" "k \<noteq> e" using that(2) bl by auto
      with inj_onD [OF inj, of k e] sub bl that(2) show ?thesis unfolding collides_with_def by blast
    qed
    ultimately have "slots_free p2 ?ls" unfolding slots_free_def by blast
    from new_root_hash_spec [OF p2(1) this] obtain q where
      "new_root_hash E p2 ?ls = (q, Ok (merkle ?hm ?D (key_slots ?D (note_keys p2 \<union> set ?ls))))" by blast
    moreover have "note_keys p2 \<union> set ?ls = note_keys ?p \<union> set ?es" unfolding p2(2) using sub bl by auto
    ultimately show ?thesis using root by simp
  qed
  with assms(2) p2(1) keys leaves show ?thesis unfolding st' by (simp add: node_wf_def)
qed

section \<open>Slow snapshots\<close>

lemma fetch_range:
  assumes "env_ok E invar contents tinvar tcontents" "node_wf E invar contents tinvar tcontents st"
  shows "\<exists>xs. fetch_blocks E (Included lo, Excluded hi) LowestToHighest st = map (\<lambda>(h, f). Ok f) xs
    \<and> sorted_wrt (<) (map fst xs)
    \<and> (\<forall>h f. (h, f) \<in> set xs \<longleftrightarrow> store_get (store_db E) (store_ops E) (block_store st) h = Ok (Some f) \<and> lo \<le> h \<and> h < hi)"
proof -
  have "kv_store (store_db E) invar contents" "invar (block_store st)" "entries_ok (store_ops E) (contents (block_store st))"
    using assms by (simp_all add: env_ok_def node_wf_def)
  from store_list_blocks [OF this, of "(Included lo, Excluded hi)" LowestToHighest] obtain xs where
    "store_list (store_db E) (store_ops E) (block_store st) (Included lo, Excluded hi) LowestToHighest = map Ok xs"
    "sorted_wrt (<) (map fst xs)"
    "\<forall>h f. (h, f) \<in> set xs \<longleftrightarrow> store_get (store_db E) (store_ops E) (block_store st) h = Ok (Some f) \<and> lo \<le> h \<and> h < hi"
    by auto
  then show ?thesis by (intro exI [of _ xs]) (auto simp: fetch_blocks_def)
qed

lemma collect_into_blocks:
  "collect_results (map (omap into_block) (map (\<lambda>(h, f). Ok f) xs)) = Ok (map (into_block \<circ> snd) xs)"
  by (induction xs) auto

lemma get_range_set:
  assumes "bt_ok (block_hash_heights c)" "\<not> hi < lo"
  shows "\<exists>bs. get_range c lo hi = Ok bs \<and> set bs = {b. \<exists>h. lo \<le> h \<and> h < hi \<and> get_by_height c h = Some b}"
proof -
  have m: "(h, x) \<in> set (block_hash_heights c) \<longleftrightarrow> map_of (block_hash_heights c) h = Some x" for h x
    using bt_keys_distinct [OF assms(1)] by simp
  have "set (List.map_filter (\<lambda>(_, x). map_of (cblocks c) x) (filter (\<lambda>(k, _). lo \<le> k \<and> k < hi) (block_hash_heights c)))
      = {b. \<exists>h x. (h, x) \<in> set (block_hash_heights c) \<and> lo \<le> h \<and> h < hi \<and> map_of (cblocks c) x = Some b}"
    by (force simp: set_map_filter)
  also have "\<dots> = {b. \<exists>h. lo \<le> h \<and> h < hi \<and> get_by_height c h = Some b}"
    unfolding m get_by_height_def by (rule Collect_cong) (auto split: option.splits simp del: map_of_eq_Some_iff)
  finally show ?thesis using assms(2) by (simp add: get_range_def)
qed

text \<open>
  C30: serving a slow snapshot that a peer has accepted. A range that starts above its end (after the
  end has been limited to the next height) panics, since \<^verbatim>\<open>BTreeMap::range\<close> does: a peer chooses
  both heights. Any other range is answered with the stored blocks of the range in the order of their heights
  and the cached blocks of the range.
\<close>

theorem snapshot_accept_slow:
  assumes "env_ok E invar contents tinvar tcontents" "node_wf E invar contents tinvar tcontents st"
    and "cache_ok (henv E) (block_cache st)" "sa_kind a = Slow"
  defines "hi \<equiv> min (sa_to_height a) (cheight (block_cache st) + 1)"
  shows "if hi < sa_from_height a then handle_snapshot_accept E peer a st = (st, [], Panic)
    else \<exists>xs cached. handle_snapshot_accept E peer a st = (st, [SendTo peer (EvSnapshotChunk (ChunkSlow
        \<lparr>scs_snapshot_id = sa_snapshot_id a, scs_chunk = map (into_block \<circ> snd) xs @ cached\<rparr>))], Ok ())
      \<and> sorted_wrt (<) (map fst xs)
      \<and> (\<forall>h f. (h, f) \<in> set xs \<longleftrightarrow> store_get (store_db E) (store_ops E) (block_store st) h = Ok (Some f)
            \<and> sa_from_height a \<le> h \<and> h < hi)
      \<and> set cached = {b. \<exists>h. sa_from_height a \<le> h \<and> h < hi \<and> get_by_height (block_cache st) h = Some b}"
proof -
  from fetch_range [OF assms(1,2), of "sa_from_height a" hi] obtain xs where
    xs: "fetch_blocks E (Included (sa_from_height a), Excluded hi) LowestToHighest st = map (\<lambda>(h, f). Ok f) xs"
      "sorted_wrt (<) (map fst xs)"
      "\<forall>h f. (h, f) \<in> set xs \<longleftrightarrow> store_get (store_db E) (store_ops E) (block_store st) h = Ok (Some f)
            \<and> sa_from_height a \<le> h \<and> h < hi" by (elim exE conjE, intro that)
  have fetched: "lift_node (\<lambda>st. (st, [], collect_results (map (omap into_block)
      (fetch_blocks E (Included (sa_from_height a), Excluded hi) LowestToHighest st)))) st
    = (st, [], Ok (map (into_block \<circ> snd) xs))"
    unfolding lift_node_def xs(1) collect_into_blocks by simp
  have run: "handle_snapshot_accept E peer a st =
      nbind (\<lambda>st. (st, [], unwrap (get_range (block_cache st) (sa_from_height a) hi))) (\<lambda>cached.
        nout [SendTo peer (EvSnapshotChunk (ChunkSlow
          \<lparr>scs_snapshot_id = sa_snapshot_id a, scs_chunk = map (into_block \<circ> snd) xs @ cached\<rparr>))]) st"
    unfolding handle_snapshot_accept_def assms(4) send_snapshot_chunk_slow_def SnapshotKind.case
    by (subst nbind_Ok, rule nget_run, subst nbind_Ok, unfold hi_def [symmetric], rule fetched)
      (simp split: prod.split)
  show ?thesis
  proof (cases "hi < sa_from_height a")
    case True
    then show ?thesis by (simp add: run nbind_def get_range_def)
  next
    case False
    obtain cached where c: "get_range (block_cache st) (sa_from_height a) hi = Ok cached"
      "set cached = {b. \<exists>h. sa_from_height a \<le> h \<and> h < hi \<and> get_by_height (block_cache st) h = Some b}"
      using get_range_set [OF cache_okD(1) [OF assms(3)] False] by blast
    have "handle_snapshot_accept E peer a st = (st, [SendTo peer (EvSnapshotChunk (ChunkSlow
        \<lparr>scs_snapshot_id = sa_snapshot_id a, scs_chunk = map (into_block \<circ> snd) xs @ cached\<rparr>))], Ok ())"
      by (simp add: run nbind_def c(1))
    with False xs(2,3) c(2) show ?thesis unfolding if_not_P [OF False] by (intro exI conjI)
  qed
qed

section \<open>Applications to the sample node\<close>

lemma sample_slots: "slots_free sample_notes [5, 6]" "collides_with MERKLE_TREE_DEPTH 5 6 = False"
proof -
  have "lsb_bits (5 :: element) 160 \<noteq> lsb_bits 6 160" 
  proof
    assume "lsb_bits (5 :: element) 160 = lsb_bits 6 160"
    then have "\<forall>i \<in> set (rev [0..<160]). bit (5 :: element) i = bit (6 :: element) i"
      unfolding lsb_bits_eq [of 160, simplified] map_eq_conv .
    from bspec [OF this, of 0] show False by simp
  qed
  then show "slots_free sample_notes [5, 6]" "collides_with MERKLE_TREE_DEPTH 5 6 = False"
    by (simp_all add: slots_free_def MERKLE_TREE_DEPTH_def sample_notes_ok(2) collides_with_def)
qed

definition fast_block :: Block where
  "fast_block = (block_with 3 [sample_txn])\<lparr>bcontent := (bcontent (block_with 3 [sample_txn]))
     \<lparr>state := \<lparr>state_root_hash = root_of [5, 6], state_txns = [sample_txn]\<rparr>\<rparr>\<rparr>"

lemma fast_block_simps [simp]: "broot fast_block = root_of [5, 6]" "btxns fast_block = [sample_txn]"
  "nonzero_leaves (state (bcontent fast_block)) = [5]"
  by (simp_all add: fast_block_def nonzero_leaves_def ZERO_def)

lemma sample_fast_apply: "\<exists>st'. fast_apply sample_env fast_block [5, 6] sample_state = (st', [], Ok FastApplied)"
proof -
  let ?E = sample_env and ?D = MERKLE_TREE_DEPTH
  have es: "filter (\<lambda>e. \<not> contains_element (ptree sample_notes) e) (remdups [5, 6]) = [5, 6]"
    by (simp add: contains_iff sample_notes_ok(2))
  have bl: "remdups (filter (\<lambda>l. \<not> is_zero l) (concat (map utxo_leaves [sample_txn]))) = [5]" by (simp add: is_zero_def ZERO_def)
  have keep: "filter (\<lambda>e. e \<notin> set [5]) [5, 6] = [6 :: element]" by simp
  from notes_root_with_spec [OF sample_notes_ok(1) sample_slots(1)] obtain c where
    w: "notes_root_with ?E sample_notes [5, 6] = (sample_notes\<lparr>ptree := (ptree sample_notes)\<lparr>cache := c\<rparr>\<rparr>,
        Ok (merkle (hash_merge2 ?E) ?D (key_slots ?D (note_keys sample_notes \<union> set [5, 6]))))"
    and c: "simple_sound (hash_merge2 ?E) c" by blast
  let ?p1 = "sample_notes\<lparr>ptree := (ptree sample_notes)\<lparr>cache := c\<rparr>\<rparr>"
  have root: "root_of [5, 6] = merkle (hash_merge2 ?E) ?D (key_slots ?D (note_keys sample_notes \<union> set [5, 6]))"
    by (simp add: root_of_def new_root_hash_def w del: sample_env_simps)
  from cache_update_ok [OF sample_notes_ok(1) c] have p1: "notes_ok ?E bt_ok (\<lambda>d. d) ?p1" "note_keys ?p1 = {}"
    by (simp_all add: sample_notes_ok(2))
  from from_entries_total [of ?D "[(6 :: element, \<lparr>inserted_in = 0 :: u64\<rparr>)]"] obtain batch where
    b: "from_entries ?D [(6, \<lparr>inserted_in = 0\<rparr>)] = Ok batch" by auto
  from from_entries_Ok [OF this] have bo: "batch_ok ?D batch" "elements batch = [6]" by (simp_all add: elements_def)
  have null: "NULL_HASH \<notin> set (elements batch)" by (simp add: bo(2) NULL_HASH_def ZERO_def)
  have dbs: "kv_db (tree_db ?E) bt_ok (\<lambda>d. d)" "storage_codec_ok (tree_codec ?E)"
    using sample_env_ok unfolding env_ok_def by blast+
  have "\<forall>k \<in> note_keys ?p1. \<forall>e \<in> set (elements batch). \<not> collides_with ?D k e" unfolding p1(2) by blast
  from persistent_insert_batch_ok [OF dbs p1(1) bo(1) null this] obtain p2 where
    i: "persistent_insert_batch (hash_merge2 ?E) (tree_codec ?E) ?D (tree_db ?E) ?p1 batch = (p2, Ok ())" by blast
  have fb: "fast_batch [5] [5, 6] = Ok batch" unfolding fast_batch_from_entries keep using b by simp
  show ?thesis
    unfolding fast_apply_def Let_def sample_state_simps(2) fast_block_simps bl es w prod.case outcome.case root fb i
    by simp
qed

theorem fast_apply_sound_witness:
  "\<exists>st'. fast_apply sample_env fast_block [5, 6] sample_state = (st', [], Ok FastApplied)
    \<and> note_keys (notes_tree st') = {6} \<and> (\<exists>q. new_root_hash sample_env (notes_tree st') [5] = (q, Ok (root_of [5, 6])))"
proof -
  from sample_fast_apply obtain st' where
    a: "fast_apply sample_env fast_block [5, 6] sample_state = (st', [], Ok FastApplied)" by blast
  have "slots_free (notes_tree sample_state) (filter (\<lambda>e. \<not> contains_element (ptree (notes_tree sample_state)) e) (remdups [5, 6]))"
    using sample_slots(1) by (simp add: contains_iff sample_notes_ok(2))
  from fast_apply_sound [OF sample_env_ok sample_state_wf a this] a show ?thesis by (auto simp: sample_notes_ok(2))
qed

theorem snapshot_accept_slow_witness:
  "handle_snapshot_accept sample_env [1] \<lparr>sa_snapshot_id = 4, sa_from_height = 9, sa_to_height = 5, sa_kind = Slow\<rparr> sample_state
    = (sample_state, [], Panic)"
proof -
  let ?a = "\<lparr>sa_snapshot_id = 4, sa_from_height = 9, sa_to_height = 5, sa_kind = Slow\<rparr>"
  have "cache_ok (henv sample_env) (block_cache sample_state)"
    using cache_run_ok [OF run_new [OF UNIV_I] height_env_bound] by simp
  moreover have "min 5 (cheight (block_cache sample_state) + 1) < (9 :: BlockHeight)"
    by (simp add: min_def not_le) (auto intro: order_less_trans)
  ultimately show ?thesis
    using snapshot_accept_slow [OF sample_env_ok sample_state_wf, of ?a "[1]"] by simp
qed

end
