(* ===== verification/Circuit.thy ===== *)
theory Circuit
  imports Node_Effects
begin

text \<open>
  Circuits as the circuit code of \<^verbatim>\<open>pkg/zk-circuits\<close> writes them: a synthesis assigns values to cells
  and records constraints between them. The proof system belongs to other packages; what the circuit code
  relies on is that a proof is accepted when the assignment meets every recorded constraint, and that
  any accepted proof comes from some assignment that does. Both readings of a synthesis are
  given here as calculi of rules: \<open>enforces\<close> (what every assignment that meets the constraints
  satisfies) and \<open>accepts\<close> (the assigned values meet the constraints).
\<close>

section \<open>Cells and constraints\<close>

text \<open>A cell has a position and, as an \<^verbatim>\<open>AssignedCell\<close>, the value that the synthesis assigns.\<close>

type_synonym 'f cell = "nat \<times> 'f"

abbreviation idx :: "'f cell \<Rightarrow> nat" where "idx \<equiv> fst"
abbreviation val :: "'f cell \<Rightarrow> 'f" where "val \<equiv> snd"

text \<open>
  The constraints: a gate's polynomial vanishes on cells, two cells are equal, a cell has a constant or the
  value of a public input, a cell is the Poseidon hash of others.
\<close>

datatype 'f constr =
    Gate "'f list \<Rightarrow> 'f" "nat list"
  | Equal nat nat
  | Constant nat 'f
  | Instance nat nat
  | Hashed "nat list" nat

text \<open>Public inputs that are not given are zero.\<close>

definition instance_at :: "'f::zero list \<Rightarrow> nat \<Rightarrow> 'f" where
  "instance_at I i = (if i < length I then I ! i else 0)"

fun holds :: "('f::field list \<Rightarrow> 'f) \<Rightarrow> 'f list \<Rightarrow> (nat \<Rightarrow> 'f) \<Rightarrow> 'f constr \<Rightarrow> bool" where
  "holds H I \<sigma> (Gate p cs) \<longleftrightarrow> p (map \<sigma> cs) = 0"
| "holds H I \<sigma> (Equal a b) \<longleftrightarrow> \<sigma> a = \<sigma> b"
| "holds H I \<sigma> (Constant c k) \<longleftrightarrow> \<sigma> c = k"
| "holds H I \<sigma> (Instance c i) \<longleftrightarrow> \<sigma> c = instance_at I i"
| "holds H I \<sigma> (Hashed cs c) \<longleftrightarrow> \<sigma> c = H (map \<sigma> cs)"

section \<open>Synthesis\<close>

text \<open>The state is the list of the values of the cells so far, the outputs are the constraints.\<close>

type_synonym ('f, 'a) synth = "('f list, 'f constr, unit, 'a) op"

definition assign_advice :: "'f \<Rightarrow> ('f, 'f cell) synth" where
  "assign_advice v = (\<lambda>s. (s @ [v], [], Ok (length s, v)))"

abbreviation constrain :: "'f constr \<Rightarrow> ('f, unit) synth" where
  "constrain c \<equiv> nout [c]"

abbreviation gate :: "('f list \<Rightarrow> 'f) \<Rightarrow> 'f cell list \<Rightarrow> ('f, unit) synth" where
  "gate p cs \<equiv> constrain (Gate p (map idx cs))"

abbreviation constrain_equal :: "'f cell \<Rightarrow> 'f cell \<Rightarrow> ('f, unit) synth" where
  "constrain_equal a b \<equiv> constrain (Equal (idx a) (idx b))"

abbreviation constrain_constant :: "'f cell \<Rightarrow> 'f \<Rightarrow> ('f, unit) synth" where
  "constrain_constant c k \<equiv> constrain (Constant (idx c) k)"

abbreviation constrain_instance :: "'f cell \<Rightarrow> nat \<Rightarrow> ('f, unit) synth" where
  "constrain_instance c i \<equiv> constrain (Instance (idx c) i)"

definition assign_from_constant :: "'f \<Rightarrow> ('f, 'f cell) synth" where
  "assign_from_constant k = nbind (assign_advice k) (\<lambda>c. nbind (constrain_constant c k) (\<lambda>_. nret c))"

definition copy_advice :: "'f cell \<Rightarrow> ('f, 'f cell) synth" where
  "copy_advice c = nbind (assign_advice (val c)) (\<lambda>d. nbind (constrain_equal c d) (\<lambda>_. nret d))"

text \<open>Loops over a list, with and without results.\<close>

fun nmap :: "('x \<Rightarrow> ('f, 'a) synth) \<Rightarrow> 'x list \<Rightarrow> ('f, 'a list) synth" where
  "nmap f [] = nret []"
| "nmap f (x # xs) = nbind (f x) (\<lambda>r. nbind (nmap f xs) (\<lambda>rs. nret (r # rs)))"

fun nfor :: "('x \<Rightarrow> ('f, unit) synth) \<Rightarrow> 'x list \<Rightarrow> ('f, unit) synth" where
  "nfor f [] = nret ()"
| "nfor f (x # xs) = nbind (f x) (\<lambda>_. nfor f xs)"

section \<open>What the constraints enforce\<close>

definition enforces ::
    "('f::field list \<Rightarrow> 'f) \<Rightarrow> 'f list \<Rightarrow> (nat \<Rightarrow> 'f) \<Rightarrow> ('f, 'a) synth \<Rightarrow> ('a \<Rightarrow> bool) \<Rightarrow> bool" where
  "enforces H I \<sigma> m Q \<longleftrightarrow>
     (\<forall>s s' cs r. m s = (s', cs, Ok r) \<longrightarrow> list_all (holds H I \<sigma>) cs \<longrightarrow> Q r)"

lemma enforcesD:
  "enforces H I \<sigma> m Q \<Longrightarrow> m s = (s', cs, Ok r) \<Longrightarrow> list_all (holds H I \<sigma>) cs \<Longrightarrow> Q r"
  by (auto simp: enforces_def)

lemma enforces_conseq: "enforces H I \<sigma> m P \<Longrightarrow> (\<And>r. P r \<Longrightarrow> Q r) \<Longrightarrow> enforces H I \<sigma> m Q"
  by (auto simp: enforces_def)

lemma enforces_bind:
  assumes "enforces H I \<sigma> m (\<lambda>r. enforces H I \<sigma> (f r) Q)"
  shows "enforces H I \<sigma> (nbind m f) Q"
  unfolding enforces_def
proof (intro allI impI)
  fix s s' cs r
  assume "nbind m f s = (s', cs, Ok r)" "list_all (holds H I \<sigma>) cs"
  then obtain s1 c1 x c2 where "m s = (s1, c1, Ok x)" "f x s1 = (s', c2, Ok r)"
    "list_all (holds H I \<sigma>) c1" "list_all (holds H I \<sigma>) c2" by (auto simp: nbind_Ok_iff)
  with assms show "Q r" by (blast dest: enforcesD)
qed

lemma enforces_ret: "Q r \<Longrightarrow> enforces H I \<sigma> (nret r) Q"
  by (simp add: enforces_def)

lemma enforces_panic: "enforces H I \<sigma> (nlift Panic) Q"
  by (simp add: enforces_def)

lemma enforces_constrain: "(holds H I \<sigma> c \<Longrightarrow> Q ()) \<Longrightarrow> enforces H I \<sigma> (constrain c) Q"
  by (simp add: enforces_def)

lemma enforces_assign: "(\<And>c. Q c) \<Longrightarrow> enforces H I \<sigma> (assign_advice v) Q"
  by (simp add: enforces_def assign_advice_def)

lemma enforces_constant: "(\<And>c. \<sigma> (idx c) = k \<Longrightarrow> Q c) \<Longrightarrow> enforces H I \<sigma> (assign_from_constant k) Q"
  by (auto simp: enforces_def assign_from_constant_def nbind_def assign_advice_def)

lemma enforces_copy: "(\<And>d. \<sigma> (idx d) = \<sigma> (idx c) \<Longrightarrow> Q d) \<Longrightarrow> enforces H I \<sigma> (copy_advice c) Q"
  by (auto simp: enforces_def copy_advice_def nbind_def assign_advice_def)

lemma enforces_map:
  assumes "\<And>x Q. x \<in> set xs \<Longrightarrow> (\<And>r. P x r \<Longrightarrow> Q r) \<Longrightarrow> enforces H I \<sigma> (f x) Q"
    and "\<And>rs. list_all2 P xs rs \<Longrightarrow> Q rs"
  shows "enforces H I \<sigma> (nmap f xs) Q"
  using assms
proof (induction xs arbitrary: Q)
  case (Cons x xs)
  show ?case unfolding nmap.simps
    by (intro enforces_bind Cons.prems(1) Cons.IH enforces_ret Cons.prems(2)) auto
qed (auto intro: enforces_ret)

lemma enforces_for:
  assumes "\<And>x Q. x \<in> set xs \<Longrightarrow> (P x \<Longrightarrow> Q ()) \<Longrightarrow> enforces H I \<sigma> (f x) Q"
    and "list_all P xs \<Longrightarrow> Q ()"
  shows "enforces H I \<sigma> (nfor f xs) Q"
  using assms
proof (induction xs)
  case (Cons x xs)
  show ?case unfolding nfor.simps
    by (intro enforces_bind Cons.prems(1) Cons.IH) (use Cons.prems(2) in auto)
qed (auto intro: enforces_ret)

lemmas enforces_intros = enforces_bind enforces_ret enforces_constrain enforces_assign enforces_constant enforces_copy

section \<open>The assigned values meet the constraints\<close>

definition extends :: "'f list \<Rightarrow> 'f list \<Rightarrow> bool" where
  "extends s s' \<longleftrightarrow> (\<exists>t. s' = s @ t)"

lemma extends_trans: "extends s t \<Longrightarrow> extends t u \<Longrightarrow> extends s u"
  by (auto simp: extends_def)

text \<open>A synthesis only adds cells.\<close>

definition extending :: "('f, 'a) synth \<Rightarrow> bool" where
  "extending m \<longleftrightarrow> (\<forall>s. extends s (fst (m s)))"

named_theorems extending_intros

lemma extending_lift [extending_intros]: "extending (nlift r)"
  by (simp add: extending_def extends_def)

lemma extending_out [extending_intros]: "extending (nout cs)"
  by (simp add: extending_def extends_def)

lemma extending_assign [extending_intros]: "extending (assign_advice v)"
  by (simp add: extending_def extends_def assign_advice_def)

lemma extending_bind [extending_intros]:
  assumes "extending m" "\<And>r. extending (f r)"
  shows "extending (nbind m f)"
  unfolding extending_def
proof
  fix s
  obtain s1 c1 o1 where m: "m s = (s1, c1, o1)" by (cases "m s") auto
  then have e: "extends s s1" using assms(1) by (auto simp: extending_def dest: spec [of _ s])
  have "extends s1 (fst (f x s1))" for x using assms(2) by (auto simp: extending_def)
  with m e show "extends s (fst (nbind m f s))"
    by (auto simp: nbind_def split: outcome.splits prod.splits intro: extends_trans) (metis extends_trans fst_conv)
qed

lemma extending_constant [extending_intros]: "extending (assign_from_constant k)"
  unfolding assign_from_constant_def by (intro extending_intros)

lemma extending_copy [extending_intros]: "extending (copy_advice c)"
  unfolding copy_advice_def by (intro extending_intros)

lemma extending_map [extending_intros]: "(\<And>x. extending (f x)) \<Longrightarrow> extending (nmap f xs)"
  by (induction xs) (auto intro!: extending_intros)

lemma extending_for [extending_intros]: "(\<And>x. extending (f x)) \<Longrightarrow> extending (nfor f xs)"
  by (induction xs) (auto intro!: extending_intros)

lemma extending_if [extending_intros]: "extending m \<Longrightarrow> extending m' \<Longrightarrow> extending (if b then m else m')"
  by simp

lemma extending_prod [extending_intros]: "(\<And>x y. extending (f x y)) \<Longrightarrow> extending (case p of (x, y) \<Rightarrow> f x y)"
  by (simp split: prod.split)

definition agrees :: "(nat \<Rightarrow> 'f) \<Rightarrow> 'f list \<Rightarrow> bool" where
  "agrees \<sigma> s \<longleftrightarrow> (\<forall>i < length s. \<sigma> i = s ! i)"

lemma agrees_extends: "agrees \<sigma> s' \<Longrightarrow> extends s s' \<Longrightarrow> agrees \<sigma> s"
  by (auto simp: agrees_def extends_def nth_append)

abbreviation good :: "(nat \<Rightarrow> 'f) \<Rightarrow> 'f cell \<Rightarrow> bool" where
  "good \<sigma> c \<equiv> \<sigma> (idx c) = val c"

definition accepts ::
    "('f::field list \<Rightarrow> 'f) \<Rightarrow> 'f list \<Rightarrow> (nat \<Rightarrow> 'f) \<Rightarrow> ('f, 'a) synth \<Rightarrow> ('a \<Rightarrow> bool) \<Rightarrow> bool" where
  "accepts H I \<sigma> m Q \<longleftrightarrow>
     (\<forall>s s' cs out. m s = (s', cs, out) \<longrightarrow> agrees \<sigma> s' \<longrightarrow> list_all (holds H I \<sigma>) cs \<and> (\<exists>r. out = Ok r \<and> Q r))"

lemma acceptsD:
  "accepts H I \<sigma> m Q \<Longrightarrow> m s = (s', cs, out) \<Longrightarrow> agrees \<sigma> s' \<Longrightarrow>
    list_all (holds H I \<sigma>) cs \<and> (\<exists>r. out = Ok r \<and> Q r)"
  by (simp add: accepts_def)

lemma accepts_bind:
  assumes "accepts H I \<sigma> m (\<lambda>r. accepts H I \<sigma> (f r) Q)" "\<And>r. extending (f r)"
  shows "accepts H I \<sigma> (nbind m f) Q"
  unfolding accepts_def
proof (intro allI impI)
  fix s s' cs out
  assume n: "nbind m f s = (s', cs, out)" and a: "agrees \<sigma> s'"
  obtain s1 c1 o1 where m: "m s = (s1, c1, o1)" by (cases "m s") auto
  have "extends s1 s'"
    using n m assms(2) by (auto simp: nbind_def extending_def extends_def split: outcome.splits prod.splits) (metis fst_conv)
  with a have "agrees \<sigma> s1" by (rule agrees_extends)
  from acceptsD [OF assms(1) m this] obtain x where
    x: "list_all (holds H I \<sigma>) c1" "o1 = Ok x" "accepts H I \<sigma> (f x) Q" by blast
  obtain s2 c2 o2 where f: "f x s1 = (s2, c2, o2)" by (cases "f x s1") auto
  with n m x(2) have "s2 = s'" "cs = c1 @ c2" "o2 = out" by (simp_all add: nbind_def)
  with acceptsD [OF x(3) f] a x(1) show "list_all (holds H I \<sigma>) cs \<and> (\<exists>r. out = Ok r \<and> Q r)" by simp
qed

lemma accepts_ret: "Q r \<Longrightarrow> accepts H I \<sigma> (nret r) Q"
  by (simp add: accepts_def)

lemma accepts_constrain: "holds H I \<sigma> c \<Longrightarrow> Q () \<Longrightarrow> accepts H I \<sigma> (constrain c) Q"
  by (simp add: accepts_def)

lemma accepts_assign: "(\<And>c. good \<sigma> c \<Longrightarrow> val c = v \<Longrightarrow> Q c) \<Longrightarrow> accepts H I \<sigma> (assign_advice v) Q"
  by (auto simp: accepts_def assign_advice_def agrees_def)

lemma accepts_constant: "(\<And>c. good \<sigma> c \<Longrightarrow> val c = k \<Longrightarrow> Q c) \<Longrightarrow> accepts H I \<sigma> (assign_from_constant k) Q"
  unfolding assign_from_constant_def
  by (intro accepts_bind accepts_assign accepts_constrain accepts_ret extending_intros) auto

lemma accepts_copy:
  "good \<sigma> c \<Longrightarrow> (\<And>d. good \<sigma> d \<Longrightarrow> val d = val c \<Longrightarrow> Q d) \<Longrightarrow> accepts H I \<sigma> (copy_advice c) Q"
  unfolding copy_advice_def
  by (intro accepts_bind accepts_assign accepts_constrain accepts_ret extending_intros) auto

lemma accepts_conseq: "accepts H I \<sigma> m P \<Longrightarrow> (\<And>r. P r \<Longrightarrow> Q r) \<Longrightarrow> accepts H I \<sigma> m Q"
  by (fastforce simp: accepts_def)

lemma accepts_map:
  assumes "\<And>x Q. x \<in> set xs \<Longrightarrow> (\<And>r. P x r \<Longrightarrow> Q r) \<Longrightarrow> accepts H I \<sigma> (f x) Q" "\<And>x. extending (f x)"
    and "\<And>rs. list_all2 P xs rs \<Longrightarrow> Q rs"
  shows "accepts H I \<sigma> (nmap f xs) Q"
  using assms(1,3)
proof (induction xs arbitrary: Q)
  case (Cons x xs)
  show ?case unfolding nmap.simps
    by (intro accepts_bind Cons.prems(1) Cons.IH accepts_ret Cons.prems(2) extending_intros assms(2)) auto
qed (auto intro: accepts_ret)

lemma accepts_for:
  assumes "\<And>x Q. x \<in> set xs \<Longrightarrow> Q () \<Longrightarrow> accepts H I \<sigma> (f x) Q" "\<And>x. extending (f x)" "Q ()"
  shows "accepts H I \<sigma> (nfor f xs) Q"
  using assms(1)
proof (induction xs)
  case Nil
  show ?case unfolding nfor.simps by (rule accepts_ret) (rule assms(3))
next
  case (Cons x xs)
  show ?case unfolding nfor.simps
    by (intro accepts_bind Cons.prems(1) Cons.IH extending_intros assms(2)) auto
qed

lemmas accepts_intros = accepts_bind accepts_ret accepts_constrain accepts_assign accepts_constant accepts_copy

text \<open>The run of a synthesis from no cells, and whether an assignment meets its constraints.\<close>

definition synthesized :: "('f, 'a) synth \<Rightarrow> 'f list \<times> 'f constr list \<times> (unit, 'a) outcome" where
  "synthesized m = m []"

definition met_by ::
    "('f::field list \<Rightarrow> 'f) \<Rightarrow> 'f list \<Rightarrow> ('f, 'a) synth \<Rightarrow> (nat \<Rightarrow> 'f) \<Rightarrow> bool" where
  "met_by H I m \<sigma> \<longleftrightarrow>
     (case synthesized m of (s, cs, Ok _) \<Rightarrow> list_all (holds H I \<sigma>) cs | _ \<Rightarrow> False)"

text \<open>The values that the synthesis assigns.\<close>

definition assigned :: "('f::zero, 'a) synth \<Rightarrow> nat \<Rightarrow> 'f" where
  "assigned m i = instance_at (fst (synthesized m)) i"

lemma met_by_enforces:
  assumes "met_by H I m \<sigma>" "enforces H I \<sigma> m (\<lambda>_. P)"
  shows P
  using assms unfolding met_by_def synthesized_def
  by (auto split: outcome.splits prod.splits dest: enforcesD)

lemma accepts_met_by:
  assumes "\<And>\<sigma>. accepts H I \<sigma> m (\<lambda>_. True)"
  shows "met_by H I m (assigned m)"
proof -
  obtain s cs out where m: "m [] = (s, cs, out)" by (cases "m []") auto
  then have "agrees (assigned m) s" by (simp add: agrees_def assigned_def synthesized_def instance_at_def)
  from acceptsD [OF assms m this] m show ?thesis by (auto simp: met_by_def synthesized_def)
qed

section \<open>The constraints do not depend on the values\<close>

text \<open>
  Two syntheses are alike when they record the same constraints on the same cells, whatever values they assign. The keys
  of a circuit come from a synthesis without the prover's values, so a circuit has to be like itself at all of them.
\<close>

fun like_outcome :: "('a \<Rightarrow> 'b \<Rightarrow> bool) \<Rightarrow> (unit, 'a) outcome \<Rightarrow> (unit, 'b) outcome \<Rightarrow> bool" where
  "like_outcome R (Ok a) (Ok b) \<longleftrightarrow> R a b"
| "like_outcome R Panic Panic \<longleftrightarrow> True"
| "like_outcome R _ _ \<longleftrightarrow> False"

definition alike :: "('a \<Rightarrow> 'b \<Rightarrow> bool) \<Rightarrow> ('f, 'a) synth \<Rightarrow> ('f, 'b) synth \<Rightarrow> bool" where
  "alike R m m' \<longleftrightarrow> (\<forall>s t s1 cs r t1 cs' r'. length s = length t \<longrightarrow> m s = (s1, cs, r) \<longrightarrow> m' t = (t1, cs', r') \<longrightarrow>
     length s1 = length t1 \<and> cs = cs' \<and> like_outcome R r r')"

abbreviation same_cell :: "'f cell \<Rightarrow> 'f cell \<Rightarrow> bool" where
  "same_cell a b \<equiv> idx a = idx b"

abbreviation same_cells :: "'f cell list \<Rightarrow> 'f cell list \<Rightarrow> bool" where
  "same_cells as bs \<equiv> map idx as = map idx bs"

lemma same_cells_iff: "same_cells as bs \<longleftrightarrow> list_all2 same_cell as bs"
  by (simp add: list.rel_map flip: list.rel_eq)

lemma alikeD:
  assumes "alike R m m'" "length s = length t" "m s = (s1, cs, r)" "m' t = (t1, cs', r')"
  shows "length s1 = length t1" "cs = cs'" "like_outcome R r r'"
  using assms unfolding alike_def by blast+

lemma alike_bind:
  assumes "alike R m m'" "\<And>a b. R a b \<Longrightarrow> alike S (f a) (f' b)"
  shows "alike S (nbind m f) (nbind m' f')"
  unfolding alike_def
proof (intro allI impI)
  fix s t u ds q v ds' q'
  assume l: "length s = length t" and run: "nbind m f s = (u, ds, q)" "nbind m' f' t = (v, ds', q')"
  obtain s1 cs r t1 cs' r' where m: "m s = (s1, cs, r)" "m' t = (t1, cs', r')" by (metis prod.collapse)
  note d = alikeD [OF assms(1) l m]
  show "length u = length v \<and> ds = ds' \<and> like_outcome S q q'"
  proof (cases r)
    case r: (Ok a)
    with d(3) obtain b where b: "r' = Ok b" "R a b" by (cases r') auto
    obtain s2 es p t2 es' p' where f: "f a s1 = (s2, es, p)" "f' b t1 = (t2, es', p')" by (metis prod.collapse)
    show ?thesis using run m r b f d(1,2) alikeD [OF assms(2) [OF b(2)] d(1) f] by (auto simp: nbind_def)
  qed (use run m d in \<open>cases r'; auto simp: nbind_def\<close>)+
qed

lemma alike_ret: "R a b \<Longrightarrow> alike R (nret a) (nret b)"
  by (simp add: alike_def)

lemma alike_lift: "like_outcome R r r' \<Longrightarrow> alike R (nlift r) (nlift r')"
  by (simp add: alike_def)

lemma alike_constrain: "c = c' \<Longrightarrow> alike (=) (constrain c) (constrain c')"
  by (simp add: alike_def)

lemma alike_assign: "alike same_cell (assign_advice v) (assign_advice w)"
  by (simp add: alike_def assign_advice_def)

lemma alike_constant: "alike same_cell (assign_from_constant k) (assign_from_constant k)"
  unfolding assign_from_constant_def
  by (rule alike_bind [OF alike_assign], rule alike_bind [OF alike_constrain]) (simp_all add: alike_ret del: nlift_run)

lemma alike_copy: "same_cell c d \<Longrightarrow> alike same_cell (copy_advice c) (copy_advice d)"
  unfolding copy_advice_def
  by (rule alike_bind [OF alike_assign], rule alike_bind [OF alike_constrain]) (simp_all add: alike_ret del: nlift_run)

lemma alike_map:
  assumes "list_all2 (\<lambda>x y. alike R (f x) (g y)) xs ys"
  shows "alike (list_all2 R) (nmap f xs) (nmap g ys)"
  using assms
proof (induction rule: list_all2_induct)
  case Nil
  show ?case unfolding nmap.simps by (rule alike_ret) simp
next
  case (Cons x xs y ys)
  show ?case unfolding nmap.simps
    by (rule alike_bind [OF Cons(1)], rule alike_bind [OF Cons.IH], rule alike_ret) simp
qed

lemma alike_for:
  assumes "list_all2 (\<lambda>x y. alike (=) (f x) (g y)) xs ys"
  shows "alike (=) (nfor f xs) (nfor g ys)"
  using assms
proof (induction rule: list_all2_induct)
  case Nil
  show ?case unfolding nfor.simps by (rule alike_ret) simp
next
  case (Cons x xs y ys)
  show ?case unfolding nfor.simps by (rule alike_bind [OF Cons(1)], rule Cons.IH)
qed

lemma alike_case:
  "(\<And>a b c d. p = (a, b) \<Longrightarrow> q = (c, d) \<Longrightarrow> alike T (f a b) (g c d)) \<Longrightarrow> alike T (case p of (a, b) \<Rightarrow> f a b) (case q of (c, d) \<Rightarrow> g c d)"
  by (simp split: prod.split)

lemma alike_panic: "alike R (nlift Panic) (nlift Panic)"
  by (rule alike_lift) simp

named_theorems alike_intros

lemmas [alike_intros] = alike_ret alike_case alike_constrain alike_assign alike_constant alike_copy
  alike_bind [OF alike_constrain] alike_bind [OF alike_assign] alike_bind [OF alike_constant] alike_bind [OF alike_copy]

text \<open>What is met by an assignment for one synthesis is met for a like one.\<close>

lemma alike_met_by:
  assumes "alike R m m'"
  shows "met_by H I m \<sigma> \<longleftrightarrow> met_by H I m' \<sigma>"
proof -
  obtain s cs r t cs' r' where m: "m [] = (s, cs, r)" "m' [] = (t, cs', r')" by (metis prod.collapse)
  show ?thesis using alikeD [OF assms _ m] m by (cases r; cases r') (auto simp: met_by_def synthesized_def)
qed

lemma alike_synthesized:
  assumes "alike R m m'"
  shows "fst (snd (synthesized m)) = fst (snd (synthesized m')) \<and> length (fst (synthesized m)) = length (fst (synthesized m'))"
proof -
  obtain s cs r t cs' r' where m: "m [] = (s, cs, r)" "m' [] = (t, cs', r')" by (metis prod.collapse)
  show ?thesis using alikeD(1,2) [OF assms _ m] m by (simp add: synthesized_def)
qed

end
