(* ===== verification/Chips.thy ===== *)
theory Chips
  imports Circuit Element
begin

text \<open>
  The chips of \<^verbatim>\<open>pkg/zk-circuits/src/chips\<close> and the assignment helpers of \<^verbatim>\<open>util.rs\<close>: the gates of each chip
  and its assignment, with what the constraints enforce and that the assigned values meet them.
\<close>

lemmas [extending_intros] = extending_lift [where r = "Ok x" for x]

section \<open>Assignment helpers (util.rs)\<close>

definition assign_private_input :: "'f \<Rightarrow> ('f, 'f cell) synth" where
  "assign_private_input v = assign_advice v"

definition assign_constant :: "'f \<Rightarrow> ('f, 'f cell) synth" where
  "assign_constant k = assign_from_constant k"

lemmas enforces_private = enforces_assign [folded assign_private_input_def]
lemmas enforces_assign_constant = enforces_constant [folded assign_constant_def]
lemmas accepts_private = accepts_assign [folded assign_private_input_def]
lemmas accepts_assign_constant = accepts_constant [folded assign_constant_def]
lemmas [extending_intros] =
  extending_assign [folded assign_private_input_def] extending_constant [folded assign_constant_def]

section \<open>Poseidon (poseidon.rs)\<close>

text \<open>The gadget of another package: its output cell is the hash of the input cells.\<close>

definition poseidon_hash_gadget :: "('f list \<Rightarrow> 'f) \<Rightarrow> 'f cell list \<Rightarrow> ('f, 'f cell) synth" where
  "poseidon_hash_gadget H cs =
     nbind (assign_advice (H (map val cs))) (\<lambda>c. nbind (constrain (Hashed (map idx cs) (idx c))) (\<lambda>_. nret c))"

lemma enforces_poseidon:
  "(\<And>c. \<sigma> (idx c) = H (map (\<lambda>c. \<sigma> (idx c)) cs) \<Longrightarrow> Q c) \<Longrightarrow> enforces H I \<sigma> (poseidon_hash_gadget H cs) Q"
  unfolding poseidon_hash_gadget_def by (intro enforces_intros) (simp add: o_def)

lemma extending_poseidon [extending_intros]: "extending (poseidon_hash_gadget H cs)"
  unfolding poseidon_hash_gadget_def by (intro extending_intros)

lemma accepts_poseidon:
  assumes "\<forall>c \<in> set cs. good \<sigma> c" "\<And>c. good \<sigma> c \<Longrightarrow> val c = H (map val cs) \<Longrightarrow> Q c"
  shows "accepts H I \<sigma> (poseidon_hash_gadget H cs) Q"
proof -
  have "H (map \<sigma> (map idx cs)) = H (map val cs)" using assms(1) by (intro arg_cong [of _ _ H]) simp
  then show ?thesis unfolding poseidon_hash_gadget_def
    by (intro accepts_intros extending_intros assms(2)) (simp_all del: map_map)
qed

section \<open>Running sums (add.rs)\<close>

definition add_gate :: "'f::field \<Rightarrow> 'f \<Rightarrow> 'f \<Rightarrow> 'f" where
  "add_gate a b c = a + b - c"

fun add_loop :: "'f::field cell \<Rightarrow> 'f cell list \<Rightarrow> ('f, 'f cell) synth" where
  "add_loop culm [] = nret culm"
| "add_loop culm (cell # cells) =
     nbind (copy_advice cell) (\<lambda>b.
     nbind (assign_advice (val culm + val b)) (\<lambda>c.
     nbind (gate (\<lambda>xs. add_gate (xs ! 0) (xs ! 1) (xs ! 2)) [culm, b, c]) (\<lambda>_.
     add_loop c cells)))"

text \<open>The first cell is accessed by index, which panics without cells.\<close>

definition add_assign :: "'f::field cell list \<Rightarrow> ('f, 'f cell) synth" where
  "add_assign cells =
     (case cells of
        [] \<Rightarrow> nlift Panic
      | first # rest \<Rightarrow> nbind (copy_advice first) (\<lambda>culm. add_loop culm rest))"

lemma enforces_add_loop:
  "(\<And>r. \<sigma> (idx r) = \<sigma> (idx culm) + (\<Sum>c\<leftarrow>cells. \<sigma> (idx c)) \<Longrightarrow> Q r) \<Longrightarrow> enforces H I \<sigma> (add_loop culm cells) Q"
proof (induction cells arbitrary: culm Q)
  case Nil
  then show ?case unfolding add_loop.simps by (intro enforces_ret) simp
next
  case (Cons cell cells)
  show ?case unfolding add_loop.simps
    by (intro enforces_bind enforces_copy enforces_assign enforces_constrain Cons.IH Cons.prems)
      (simp add: add_gate_def algebra_simps)
qed

lemma enforces_add:
  assumes "\<And>r. \<sigma> (idx r) = (\<Sum>c\<leftarrow>cells. \<sigma> (idx c)) \<Longrightarrow> Q r"
  shows "enforces H I \<sigma> (add_assign cells) Q"
proof (cases cells)
  case Nil
  then show ?thesis by (simp add: add_assign_def enforces_panic)
next
  case (Cons first rest)
  then show ?thesis unfolding add_assign_def Cons list.case
    by (intro enforces_bind enforces_copy enforces_add_loop assms) (simp add: Cons)
qed

lemma extending_add_loop [extending_intros]: "extending (add_loop culm cells)"
  by (induction cells arbitrary: culm) (auto intro!: extending_intros)

lemma extending_add [extending_intros]: "extending (add_assign cells)"
  by (cases cells) (auto simp: add_assign_def intro!: extending_intros)

lemma accepts_add_loop:
  "good \<sigma> culm \<Longrightarrow> \<forall>c \<in> set cells. good \<sigma> c \<Longrightarrow>
    (\<And>r. good \<sigma> r \<Longrightarrow> val r = val culm + (\<Sum>c\<leftarrow>cells. val c) \<Longrightarrow> Q r) \<Longrightarrow> accepts H I \<sigma> (add_loop culm cells) Q"
proof (induction cells arbitrary: culm Q)
  case Nil
  then show ?case unfolding add_loop.simps by (intro accepts_ret) simp
next
  case (Cons cell cells)
  show ?case unfolding add_loop.simps
    by (intro accepts_bind accepts_copy accepts_assign accepts_constrain extending_intros Cons.IH Cons.prems(3))
      (use Cons.prems(1,2) in \<open>simp_all add: add_gate_def add.assoc\<close>)
qed

lemma accepts_add:
  assumes "cells \<noteq> []" "\<forall>c \<in> set cells. good \<sigma> c" "\<And>r. good \<sigma> r \<Longrightarrow> val r = (\<Sum>c\<leftarrow>cells. val c) \<Longrightarrow> Q r"
  shows "accepts H I \<sigma> (add_assign cells) Q"
proof -
  obtain first rest where c: "cells = first # rest" using assms(1) by (cases cells) auto
  show ?thesis unfolding add_assign_def c list.case
    by (intro accepts_bind accepts_copy accepts_add_loop extending_intros assms(3)) (use assms(2) c in simp_all)
qed

section \<open>Zero and constants (is\_zero.rs, is\_constant.rs)\<close>

definition is_zero_expr :: "'f::field \<Rightarrow> 'f \<Rightarrow> 'f" where
  "is_zero_expr value value_inv = 1 - value * value_inv"

definition is_zero_gate :: "'f::field \<Rightarrow> 'f \<Rightarrow> 'f" where
  "is_zero_gate value value_inv = value * is_zero_expr value value_inv"

definition is_zero_assign :: "'f::field \<Rightarrow> ('f, 'f cell) synth" where
  "is_zero_assign value = assign_advice (if value = 0 then 0 else inverse value)"

definition is_constant_gate :: "'f::field \<Rightarrow> 'f \<Rightarrow> 'f \<Rightarrow> 'f \<Rightarrow> 'f" where
  "is_constant_gate k z vinv out = out - is_zero_expr (z - k) vinv"

definition is_constant_assign :: "'f::field \<Rightarrow> 'f cell \<Rightarrow> ('f, 'f cell) synth" where
  "is_constant_assign k comparison =
     nbind (copy_advice comparison) (\<lambda>z.
     nbind (is_zero_assign (val z - k)) (\<lambda>vinv.
     nbind (assign_advice (if val z - k = 0 then 1 else 0)) (\<lambda>out.
     nbind (gate (\<lambda>xs. is_zero_gate (xs ! 0 - k) (xs ! 1)) [z, vinv]) (\<lambda>_.
     nbind (gate (\<lambda>xs. is_constant_gate k (xs ! 0) (xs ! 1) (xs ! 2)) [z, vinv, out]) (\<lambda>_.
     nret out)))))"

lemma is_zero_sound: "is_zero_gate v vinv = 0 \<Longrightarrow> is_zero_expr v vinv = (if v = 0 then 1 else 0)"
  by (auto simp: is_zero_gate_def is_zero_expr_def)

lemma enforces_is_constant:
  "(\<And>out. \<sigma> (idx out) = (if \<sigma> (idx c) = k then 1 else 0) \<Longrightarrow> Q out) \<Longrightarrow> enforces H I \<sigma> (is_constant_assign k c) Q"
  unfolding is_constant_assign_def is_zero_assign_def
  by (intro enforces_intros) (auto simp: is_constant_gate_def dest: is_zero_sound)

lemma extending_is_constant [extending_intros]: "extending (is_constant_assign k c)"
  unfolding is_constant_assign_def is_zero_assign_def by (intro extending_intros)

lemma accepts_is_constant:
  "good \<sigma> c \<Longrightarrow> (\<And>out. good \<sigma> out \<Longrightarrow> val out = (if val c = k then 1 else 0) \<Longrightarrow> Q out) \<Longrightarrow>
    accepts H I \<sigma> (is_constant_assign k c) Q"
  unfolding is_constant_assign_def is_zero_assign_def
  by (intro accepts_intros extending_intros)
    (auto simp: is_constant_gate_def is_zero_gate_def is_zero_expr_def split: if_splits)

section \<open>Conditional swap (swap.rs)\<close>

text \<open>The gate \<open>a' = b \<cdot> swap + a \<cdot> (1 - swap)\<close>, its counterpart for \<open>b'\<close>, and that the flag is a bit.\<close>

definition a_check :: "'f::field \<Rightarrow> 'f \<Rightarrow> 'f \<Rightarrow> 'f \<Rightarrow> 'f" where
  "a_check a b swap a_swapped = a_swapped - (b * swap + a * (1 - swap))"

definition b_check :: "'f::field \<Rightarrow> 'f \<Rightarrow> 'f \<Rightarrow> 'f \<Rightarrow> 'f" where
  "b_check a b swap b_swapped = b_swapped - (a * swap + b * (1 - swap))"

definition swap_bool_check :: "'f::field \<Rightarrow> 'f" where
  "swap_bool_check swap = swap * (1 - swap)"

definition swap_in_region :: "'f::field cell \<Rightarrow> 'f cell \<Rightarrow> 'f cell \<Rightarrow> ('f, 'f cell \<times> 'f cell) synth" where
  "swap_in_region a b swap =
     nbind (assign_advice (if val swap = 1 then val b else val a)) (\<lambda>a'.
     nbind (assign_advice (if val swap = 1 then val a else val b)) (\<lambda>b'.
     nbind (gate (\<lambda>xs. a_check (xs ! 0) (xs ! 1) (xs ! 2) (xs ! 3)) [a, b, swap, a']) (\<lambda>_.
     nbind (gate (\<lambda>xs. b_check (xs ! 0) (xs ! 1) (xs ! 2) (xs ! 3)) [a, b, swap, b']) (\<lambda>_.
     nbind (gate (\<lambda>xs. swap_bool_check (xs ! 0)) [swap]) (\<lambda>_.
     nret (a', b'))))))"

definition swap_value :: "'f::field cell \<Rightarrow> 'f \<Rightarrow> 'f \<Rightarrow> ('f, 'f cell \<times> 'f cell) synth" where
  "swap_value pa pb swap =
     nbind (copy_advice pa) (\<lambda>a.
     nbind (assign_advice pb) (\<lambda>b.
     nbind (assign_advice swap) (\<lambda>s.
     swap_in_region a b s)))"

definition swap_assigned :: "'f::field cell \<Rightarrow> 'f cell \<Rightarrow> 'f cell \<Rightarrow> ('f, 'f cell \<times> 'f cell) synth" where
  "swap_assigned pa pb swap =
     nbind (copy_advice pa) (\<lambda>a.
     nbind (copy_advice pb) (\<lambda>b.
     nbind (copy_advice swap) (\<lambda>s.
     swap_in_region a b s)))"

lemma enforces_swap_in_region:
  assumes "\<And>a' b'. \<sigma> (idx s) = 0 \<or> \<sigma> (idx s) = 1 \<Longrightarrow> \<sigma> (idx a') = (if \<sigma> (idx s) = 1 then \<sigma> (idx b) else \<sigma> (idx a)) \<Longrightarrow>
      \<sigma> (idx b') = (if \<sigma> (idx s) = 1 then \<sigma> (idx a) else \<sigma> (idx b)) \<Longrightarrow> Q (a', b')"
  shows "enforces H I \<sigma> (swap_in_region a b s) Q"
  unfolding swap_in_region_def
  by (intro enforces_intros assms) (auto simp: a_check_def b_check_def swap_bool_check_def)

lemma enforces_swap_assigned:
  assumes "\<And>a' b'. \<sigma> (idx s) = 0 \<or> \<sigma> (idx s) = 1 \<Longrightarrow> \<sigma> (idx a') = (if \<sigma> (idx s) = 1 then \<sigma> (idx b) else \<sigma> (idx a)) \<Longrightarrow>
      \<sigma> (idx b') = (if \<sigma> (idx s) = 1 then \<sigma> (idx a) else \<sigma> (idx b)) \<Longrightarrow> Q (a', b')"
  shows "enforces H I \<sigma> (swap_assigned a b s) Q"
  unfolding swap_assigned_def
  by (intro enforces_bind enforces_copy enforces_swap_in_region assms) simp_all

lemma enforces_swap_value:
  fixes \<sigma> :: "nat \<Rightarrow> 'f::field"
  assumes "\<And>b (s :: 'f) a' b'. s = 0 \<or> s = 1 \<Longrightarrow> \<sigma> (idx a') = (if s = 1 then b else \<sigma> (idx a)) \<Longrightarrow>
      \<sigma> (idx b') = (if s = 1 then \<sigma> (idx a) else b) \<Longrightarrow> Q (a', b')"
  shows "enforces H I \<sigma> (swap_value a vb vs) Q"
  unfolding swap_value_def
  apply (intro enforces_bind enforces_copy enforces_assign enforces_swap_in_region)
  subgoal for d c ca a' b' using assms [where s = "\<sigma> (idx ca)" and b = "\<sigma> (idx c)" and a' = a' and b' = b'] by simp
  done

lemma extending_swap [extending_intros]: "extending (swap_in_region a b s)"
  unfolding swap_in_region_def by (intro extending_intros)

lemma extending_swap_assigned [extending_intros]: "extending (swap_assigned a b s)"
  unfolding swap_assigned_def by (intro extending_intros)

lemma extending_swap_value [extending_intros]: "extending (swap_value a vb vs)"
  unfolding swap_value_def by (intro extending_intros)

lemma accepts_swap_in_region:
  assumes "good \<sigma> a" "good \<sigma> b" "good \<sigma> s" "val s = 0 \<or> val s = 1"
    and "\<And>a' b'. good \<sigma> a' \<Longrightarrow> good \<sigma> b' \<Longrightarrow> val a' = (if val s = 1 then val b else val a) \<Longrightarrow>
      val b' = (if val s = 1 then val a else val b) \<Longrightarrow> Q (a', b')"
  shows "accepts H I \<sigma> (swap_in_region a b s) Q"
  unfolding swap_in_region_def
  by (intro accepts_intros extending_intros assms(5))
    (use assms(1-4) in \<open>auto simp: a_check_def b_check_def swap_bool_check_def\<close>)

lemma accepts_swap_assigned:
  assumes "good \<sigma> a" "good \<sigma> b" "good \<sigma> s" "val s = 0 \<or> val s = 1"
    and "\<And>a' b'. good \<sigma> a' \<Longrightarrow> good \<sigma> b' \<Longrightarrow> val a' = (if val s = 1 then val b else val a) \<Longrightarrow>
      val b' = (if val s = 1 then val a else val b) \<Longrightarrow> Q (a', b')"
  shows "accepts H I \<sigma> (swap_assigned a b s) Q"
  unfolding swap_assigned_def
  by (intro accepts_bind accepts_copy accepts_swap_in_region extending_intros assms(5)) (use assms(1-4) in simp_all)

lemma accepts_swap_value:
  assumes "good \<sigma> a" "vs = 0 \<or> vs = 1"
    and "\<And>a' b'. good \<sigma> a' \<Longrightarrow> good \<sigma> b' \<Longrightarrow> val a' = (if vs = 1 then vb else val a) \<Longrightarrow>
      val b' = (if vs = 1 then val a else vb) \<Longrightarrow> Q (a', b')"
  shows "accepts H I \<sigma> (swap_value a vb vs) Q"
  unfolding swap_value_def
  by (intro accepts_bind accepts_copy accepts_assign accepts_swap_in_region extending_intros assms(3))
    (use assms(1,2) in simp_all)

text \<open>The circuits mostly use the swap to choose a cell, and drop the other one.\<close>

lemma enforces_choose:
  assumes "\<And>x. \<sigma> (idx s) = 0 \<or> \<sigma> (idx s) = 1 \<Longrightarrow> \<sigma> (idx x) = (if \<sigma> (idx s) = 1 then \<sigma> (idx b) else \<sigma> (idx a)) \<Longrightarrow>
    enforces H I \<sigma> (f x) Q"
  shows "enforces H I \<sigma> (nbind (swap_assigned a b s) (\<lambda>(x, _). f x)) Q"
  by (rule enforces_bind, rule enforces_swap_assigned) (use assms in simp)

lemma accepts_choose:
  assumes "good \<sigma> a" "good \<sigma> b" "good \<sigma> s" "val s = 0 \<or> val s = 1" "\<And>x. extending (f x)"
    and "\<And>x. good \<sigma> x \<Longrightarrow> val x = (if val s = 1 then val b else val a) \<Longrightarrow> accepts H I \<sigma> (f x) Q"
  shows "accepts H I \<sigma> (nbind (swap_assigned a b s) (\<lambda>(x, _). f x)) Q"
  by (rule accepts_bind, rule accepts_swap_assigned) (use assms in \<open>auto intro!: extending_intros\<close>)

section \<open>The chips record the same constraints at all values\<close>

lemmas alike_private = alike_assign [folded assign_private_input_def]
lemmas alike_assign_constant = alike_constant [folded assign_constant_def]
lemmas [alike_intros] = alike_private alike_bind [OF alike_private] alike_assign_constant alike_bind [OF alike_assign_constant]

lemma alike_poseidon: "same_cells cs ds \<Longrightarrow> alike same_cell (poseidon_hash_gadget H cs) (poseidon_hash_gadget H ds)"
  unfolding poseidon_hash_gadget_def by (intro alike_intros) simp_all

lemma alike_add_loop:
  "same_cell culm culm' \<Longrightarrow> same_cells cs ds \<Longrightarrow> alike same_cell (add_loop culm cs) (add_loop culm' ds)"
proof (induction cs arbitrary: ds culm culm')
  case Nil
  then show ?case by (simp add: alike_ret del: nlift_run)
next
  case (Cons c cs)
  from Cons.prems(2) obtain d dt where "ds = d # dt" "same_cell c d" "same_cells cs dt" by (cases ds) auto
  then show ?case using Cons.prems(1) unfolding \<open>ds = d # dt\<close> add_loop.simps
    by (intro alike_intros Cons.IH) simp_all
qed

lemma alike_add: "same_cells cs ds \<Longrightarrow> alike same_cell (add_assign cs) (add_assign ds)"
  unfolding add_assign_def
  by (cases cs; cases ds) (auto intro!: alike_panic alike_intros alike_add_loop)

lemma alike_is_constant: "same_cell c d \<Longrightarrow> alike same_cell (is_constant_assign k c) (is_constant_assign k d)"
  unfolding is_constant_assign_def is_zero_assign_def by (intro alike_intros) simp_all

abbreviation same_pair :: "'f cell \<times> 'f cell \<Rightarrow> 'f cell \<times> 'f cell \<Rightarrow> bool" where
  "same_pair p q \<equiv> same_cell (fst p) (fst q) \<and> same_cell (snd p) (snd q)"

lemma alike_swap_in_region:
  "same_cell a a' \<Longrightarrow> same_cell b b' \<Longrightarrow> same_cell s s' \<Longrightarrow> alike same_pair (swap_in_region a b s) (swap_in_region a' b' s')"
  unfolding swap_in_region_def by (intro alike_intros) simp_all

lemma alike_swap_assigned:
  "same_cell a a' \<Longrightarrow> same_cell b b' \<Longrightarrow> same_cell s s' \<Longrightarrow> alike same_pair (swap_assigned a b s) (swap_assigned a' b' s')"
  unfolding swap_assigned_def by (intro alike_intros alike_swap_in_region) simp_all

lemma alike_swap_value: "same_cell a a' \<Longrightarrow> alike same_pair (swap_value a v s) (swap_value a' v' s')"
  unfolding swap_value_def by (intro alike_intros alike_swap_in_region) simp_all

lemmas [alike_intros] = alike_poseidon alike_bind [OF alike_poseidon] alike_add alike_bind [OF alike_add]
  alike_is_constant alike_bind [OF alike_is_constant] alike_swap_assigned alike_bind [OF alike_swap_assigned]
  alike_swap_value alike_bind [OF alike_swap_value]

end
