(* ===== verification/Chips_Bits.thy ===== *)
theory Chips_Bits
  imports Chips
begin

text \<open>
  The chips on bits: the decomposition of a field element into windows by a running sum
  (\<^verbatim>\<open>binary_decomposition.rs\<close>), the comparison of two bit strings (\<^verbatim>\<open>is_less_than.rs\<close>) and the Merkle path
  gadgets (\<^verbatim>\<open>merkle_path.rs\<close>).
\<close>

section \<open>The scalar field (fr.rs)\<close>

text \<open>
  Poseidon and the conversions of \<^verbatim>\<open>Fr\<close> belong to other packages. What the circuits rely on: \<^verbatim>\<open>from_raw\<close>
  takes an integer, as four little-endian limbs, into the field; \<^verbatim>\<open>to_repr\<close> gives the 32 little-endian bytes of
  the canonical representative, which is zero for zero; the characteristic is neither 2 nor 3.
\<close>

record 'f Fr =
  poseidon_hash :: "'f list \<Rightarrow> 'f"
  from_raw :: "u64 list \<Rightarrow> 'f"
  to_repr :: "'f \<Rightarrow> bytes"

abbreviation base :: "'f Fr \<Rightarrow> element \<Rightarrow> 'f" where
  "base F \<equiv> to_base (from_raw F)"

abbreviation elem :: "'f Fr \<Rightarrow> 'f \<Rightarrow> element" where
  "elem F \<equiv> from_base (to_repr F)"

abbreviation merge :: "'f Fr \<Rightarrow> element list \<Rightarrow> element" where
  "merge F \<equiv> hash_merge (poseidon_hash F) (from_raw F) (to_repr F)"

definition fr_ok :: "'f::field Fr \<Rightarrow> bool" where
  "fr_ok F \<longleftrightarrow>
     (\<forall>ls. length ls = 4 \<longrightarrow> from_raw F ls = of_nat (limbs_val ls))
   \<and> (\<forall>b. length (to_repr F b) = 32 \<and> of_nat (be_val (rev (to_repr F b))) = b
          \<and> be_val (rev (to_repr F b)) < unat MODULUS)
   \<and> be_val (rev (to_repr F 0)) = 0
   \<and> (2 :: 'f) \<noteq> 0 \<and> (3 :: 'f) \<noteq> 0"

definition to_le_bits :: "'f Fr \<Rightarrow> 'f \<Rightarrow> bool list" where
  "to_le_bits F b = concat (map (\<lambda>limb. map (bit limb) [0..<64]) (u8s_to_u64 (to_repr F b)))"

text \<open>The number that a list of bits, least significant first, stands for.\<close>

abbreviation le_val :: "bool list \<Rightarrow> nat" where
  "le_val \<equiv> horner_sum of_bool 2"

lemma le_val_bits: "le_val (map (bit w) [0..<LENGTH('a)]) = unat w" for w :: "'a::len word"
proof -
  have "map (bit w) [0..<LENGTH('a)] = map (bit (unat w)) [0..<LENGTH('a)]" by (simp add: bit_unsigned_iff)
  then show ?thesis by (simp only: horner_sum_bit_eq_take_bit take_bit_nat_eq_self unsigned_less)
qed

lemma le_val_inject: "length xs = length ys \<Longrightarrow> le_val xs = le_val ys \<longleftrightarrow> xs = ys"
proof (induction xs ys rule: list_induct2)
  case (Cons x xs y ys)
  have "of_bool x + 2 * le_val xs = of_bool y + 2 * le_val ys \<longleftrightarrow> x = y \<and> le_val xs = le_val ys"
    by (cases x; cases y; simp; presburger)
  with Cons.IH show ?case by simp
qed simp

lemma unat_elem: "length (to_repr F b) = 32 \<Longrightarrow> unat (elem F b) = be_val (rev (to_repr F b))"
  using unat_from_be_bytes [of "rev (to_repr F b)"]
  by (simp add: from_base_def from_le_bytes_def from_be_bytes_def)

lemma to_le_bits_eq:
  assumes "length (to_repr F b) = 32"
  shows "to_le_bits F b = map (bit (elem F b)) [0..<256]"
proof -
  have limb: "le_val (map (bit l) [0..<64]) = unat l" for l :: u64
    using le_val_bits [of l] by simp
  have "le_val (to_le_bits F b) = limbs_val (u8s_to_u64 (to_repr F b))"
    by (simp add: to_le_bits_def u8s_to_u64_def limbs_val_def horner_sum_append limb lessThan_nat_numeral)
  also have "\<dots> = le_val (map (bit (elem F b)) [0..<256])"
    using le_val_bits [of "elem F b"] assms by (simp add: limbs_val_u8s_to_u64 unat_elem)
  finally show ?thesis by (subst (asm) le_val_inject) (simp_all add: to_le_bits_def u8s_to_u64_def)
qed

lemma fr_okD:
  fixes F :: "'f::field Fr"
  assumes "fr_ok F"
  shows "length (to_repr F b) = 32" "of_nat (unat (elem F b)) = b" "elem F b < MODULUS"
    "base F e = of_nat (unat e)" "base F (elem F b) = b" "(2 :: 'f) \<noteq> 0" "(3 :: 'f) \<noteq> 0"
    "elem F b = 0 \<longleftrightarrow> b = 0"
proof -
  show l: "length (to_repr F b) = 32" for b using assms by (simp add: fr_ok_def)
  show o: "of_nat (unat (elem F b)) = b" for b
    unfolding unat_elem [OF l] using assms by (simp add: fr_ok_def)
  show "elem F b < MODULUS" using assms by (simp add: word_less_nat_alt unat_elem l) (simp add: fr_ok_def)
  have "length (u8s_to_u64 (to_le_bytes e)) = 4" for e by (simp add: u8s_to_u64_def)
  then show b: "base F e = of_nat (unat e)" for e using assms
    by (simp add: fr_ok_def to_base_def limbs_val_u8s_to_u64 to_le_bytes_def be_val_to_be_bytes)
  show "base F (elem F b) = b" unfolding b o ..
  show "(2 :: 'f) \<noteq> 0" "(3 :: 'f) \<noteq> 0" using assms by (simp_all add: fr_ok_def)
  have "unat (elem F 0) = 0" unfolding unat_elem [OF l] using assms by (simp add: fr_ok_def)
  then show "elem F b = 0 \<longleftrightarrow> b = 0" using o [of b] by (auto simp: unat_eq_0)
qed

section \<open>Decomposition into windows (binary_decomposition.rs)\<close>

definition range_check :: "'f::field \<Rightarrow> nat \<Rightarrow> 'f" where
  "range_check word n = fold (\<lambda>i acc. acc * (of_nat i - word)) [1..<n] word"

text \<open>The windows of the low bits, padded to whole windows; a window is at most a byte.\<close>

definition decompose_word :: "'f Fr \<Rightarrow> 'f \<Rightarrow> nat \<Rightarrow> nat \<Rightarrow> (unit, nat list) outcome" where
  "decompose_word F word word_num_bits window_num_bits =
     (if 8 < window_num_bits \<or> window_num_bits = 0 then Panic
      else
        (let padding = (window_num_bits - word_num_bits mod window_num_bits) mod window_num_bits;
             bs = take word_num_bits (to_le_bits F word) @ replicate padding False
         in if length bs \<noteq> word_num_bits + padding then Panic
            else Ok (map (\<lambda>chunk. foldr (\<lambda>b acc. 2 * acc + of_bool b) chunk 0) (chunks window_num_bits bs))))"

definition window_word :: "nat \<Rightarrow> 'f::field \<Rightarrow> 'f \<Rightarrow> 'f" where
  "window_word K z_cur z_next = z_cur - z_next * of_nat (2 ^ K)"

fun decompose_loop :: "nat \<Rightarrow> 'f::field cell \<Rightarrow> nat list \<Rightarrow> ('f, 'f cell \<times> 'f cell list) synth" where
  "decompose_loop K z [] = nret (z, [])"
| "decompose_loop K z (word # words) =
     nbind (assign_advice ((val z - of_nat word) * inverse (of_nat (2 ^ K)))) (\<lambda>z_next.
     nbind (assign_advice (of_nat word)) (\<lambda>b.
     nbind (gate (\<lambda>xs. range_check (window_word K (xs ! 0) (xs ! 1)) (2 ^ K)) [z, z_next]) (\<lambda>_.
     nbind (gate (\<lambda>xs. xs ! 2 - window_word K (xs ! 0) (xs ! 1)) [z, z_next, b]) (\<lambda>_.
     nbind (decompose_loop K z_next words) (\<lambda>(z_last, zs). nret (z_last, b # zs))))))"

text \<open>
  The decomposition of the cell \<open>z_0\<close>: too many windows panic, and so do a number of windows that differs from
  the expected one and a power of two that is not invertible. The last running sum is constrained to zero.
\<close>

definition decompose ::
    "'f::field Fr \<Rightarrow> nat \<Rightarrow> 'f cell \<Rightarrow> nat \<Rightarrow> nat \<Rightarrow> ('f, 'f cell list) synth" where
  "decompose F K z_0 word_num_bits num_windows =
     (if \<not> K * num_windows < word_num_bits + K then nlift Panic
      else
        nbind (nlift (decompose_word F (val z_0) word_num_bits K)) (\<lambda>words.
        if length words \<noteq> num_windows \<or> (of_nat (2 ^ K) :: 'f) = 0 then nlift Panic
        else
          nbind (decompose_loop K z_0 words) (\<lambda>(z, zs).
          nbind (constrain_constant z 0) (\<lambda>_. nret zs))))"

definition witness_decompose ::
    "'f::field Fr \<Rightarrow> nat \<Rightarrow> 'f \<Rightarrow> nat \<Rightarrow> nat \<Rightarrow> ('f, 'f cell list) synth" where
  "witness_decompose F K alpha word_num_bits num_windows =
     nbind (assign_advice alpha) (\<lambda>z_0. decompose F K z_0 word_num_bits num_windows)"

definition copy_decompose ::
    "'f::field Fr \<Rightarrow> nat \<Rightarrow> 'f cell \<Rightarrow> nat \<Rightarrow> nat \<Rightarrow> ('f, 'f cell list) synth" where
  "copy_decompose F K alpha word_num_bits num_windows =
     nbind (copy_advice alpha) (\<lambda>z_0. decompose F K z_0 word_num_bits num_windows)"

lemma range_check_fold:
  "fold (\<lambda>i acc. acc * (of_nat i - w)) xs a = a * prod_list (map (\<lambda>i. of_nat i - w) xs)" for w :: "'f::field"
  by (induction xs arbitrary: a) (simp_all add: algebra_simps)

lemma range_check_zero_iff: "0 < n \<Longrightarrow> range_check w n = 0 \<longleftrightarrow> (\<exists>k < n. w = of_nat k)" for w :: "'f::field"
proof -
  assume n: "0 < n"
  have "range_check w n = 0 \<longleftrightarrow> w = 0 \<or> (\<exists>k. 1 \<le> k \<and> k < n \<and> w = of_nat k)"
    by (force simp: range_check_def range_check_fold prod_list_zero_iff)
  also have "\<dots> \<longleftrightarrow> (\<exists>k < n. w = of_nat k)"
  proof
    assume "\<exists>k < n. w = of_nat k"
    then obtain k where "k < n" "w = of_nat k" by blast
    then show "w = 0 \<or> (\<exists>k. 1 \<le> k \<and> k < n \<and> w = of_nat k)"
      by (cases "k = 0") (auto intro!: disjI2 exI [of _ k])
  next
    assume "w = 0 \<or> (\<exists>k. 1 \<le> k \<and> k < n \<and> w = of_nat k)"
    then show "\<exists>k < n. w = of_nat k" using n by (auto intro: exI [of _ 0])
  qed
  finally show ?thesis .
qed

text \<open>The cells of a decomposition hold the digits of a number that is the decomposed value.\<close>

definition digits_of :: "nat \<Rightarrow> (nat \<Rightarrow> 'f::field) \<Rightarrow> 'f cell list \<Rightarrow> nat list \<Rightarrow> bool" where
  "digits_of K \<sigma> bs ks \<longleftrightarrow> (\<forall>k \<in> set ks. k < 2 ^ K) \<and> map (\<lambda>b. \<sigma> (idx b)) bs = map of_nat ks"

definition digits_val :: "nat \<Rightarrow> nat list \<Rightarrow> nat" where
  "digits_val K ks = foldr (\<lambda>k acc. k + 2 ^ K * acc) ks 0"

lemma digits_val_simps [simp]: "digits_val K [] = 0" "digits_val K (k # ks) = k + 2 ^ K * digits_val K ks"
  by (simp_all add: digits_val_def)

lemma enforces_decompose_loop:
  assumes "\<And>z' bs ks. length bs = length words \<Longrightarrow> digits_of K \<sigma> bs ks \<Longrightarrow>
    \<sigma> (idx z) = of_nat (digits_val K ks) + of_nat (2 ^ (K * length words)) * \<sigma> (idx z') \<Longrightarrow> Q (z', bs)"
  shows "enforces H I \<sigma> (decompose_loop K z words) Q"
  using assms
proof (induction words arbitrary: z Q)
  case Nil
  then show ?case unfolding decompose_loop.simps
    by (intro enforces_ret) (auto simp: digits_of_def intro!: Nil [of "[]" "[]"])
next
  case (Cons word words)
  have step: "Q (z'', b # bs)"
    if "range_check (window_word K (\<sigma> (idx z)) (\<sigma> (idx z'))) (2 ^ K) = 0" "\<sigma> (idx b) - window_word K (\<sigma> (idx z)) (\<sigma> (idx z')) = 0"
      and rest: "length bs = length words" "digits_of K \<sigma> bs ks"
        "\<sigma> (idx z') = of_nat (digits_val K ks) + of_nat (2 ^ (K * length words)) * \<sigma> (idx z'')" for z' b z'' bs ks
  proof -
    note rc = that(1)
    obtain k where k: "k < 2 ^ K" "window_word K (\<sigma> (idx z)) (\<sigma> (idx z')) = of_nat k"
      using rc by (auto simp: range_check_zero_iff simp del: of_nat_power intro: that)
    then have z: "\<sigma> (idx z) = of_nat k + of_nat (2 ^ K) * \<sigma> (idx z')" by (simp add: window_word_def algebra_simps)
    have "digits_of K \<sigma> (b # bs) (k # ks)" using k that(2) rest(2) by (simp add: digits_of_def)
    moreover have "\<sigma> (idx z) = of_nat (digits_val K (k # ks)) + of_nat (2 ^ (K * length (word # words))) * \<sigma> (idx z'')"
      using z rest(3) by (simp add: algebra_simps power_add)
    ultimately show ?thesis using Cons.prems [of "b # bs" "k # ks" z''] rest(1) by simp
  qed
  show ?case unfolding decompose_loop.simps
    apply (intro enforces_bind enforces_assign enforces_constrain Cons.IH)
    subgoal premises prems for z' b z'' bs ks
      using prems(1,2) step [OF _ _ prems(3-5), of b] by (auto intro!: enforces_ret)
    done
qed

lemma enforces_decompose:
  assumes "\<And>bs ks. length bs = num_windows \<Longrightarrow> digits_of K \<sigma> bs ks \<Longrightarrow> \<sigma> (idx z) = of_nat (digits_val K ks) \<Longrightarrow> Q bs"
  shows "enforces H I \<sigma> (decompose F K z n num_windows) Q"
proof -
  have lift: "enforces H I \<sigma> (nlift r) (\<lambda>_. True)" for r :: "(unit, nat list) outcome"
    by (auto simp: enforces_def)
  have loop: "enforces H I \<sigma> (decompose_loop K z words)
      (\<lambda>p. enforces H I \<sigma> (case p of (z, zs) \<Rightarrow> nbind (constrain_constant z 0) (\<lambda>_. nret zs)) Q)"
    if "length words = num_windows" for words
    by (rule enforces_decompose_loop) (use that assms in \<open>auto intro!: enforces_bind enforces_constrain enforces_ret\<close>)
  show ?thesis unfolding decompose_def
    by (auto intro!: enforces_bind enforces_panic enforces_conseq [OF lift] loop)
qed

lemma enforces_copy_decompose:
  assumes "\<And>bs ks. length bs = num_windows \<Longrightarrow> digits_of K \<sigma> bs ks \<Longrightarrow> \<sigma> (idx c) = of_nat (digits_val K ks) \<Longrightarrow> Q bs"
  shows "enforces H I \<sigma> (copy_decompose F K c n num_windows) Q"
  unfolding copy_decompose_def
  by (intro enforces_bind enforces_copy enforces_decompose assms) (simp_all add: eq_commute [of "\<sigma> (idx c)"])

text \<open>One-bit windows: the cells hold the bits of a number that is the decomposed value.\<close>

abbreviation bits_in :: "(nat \<Rightarrow> 'f::field) \<Rightarrow> 'f cell list \<Rightarrow> bool list \<Rightarrow> bool" where
  "bits_in \<sigma> cs ws \<equiv> map (\<lambda>c. \<sigma> (idx c)) cs = map of_bool ws"

lemma digits_of_bits:
  assumes "digits_of 1 \<sigma> bs ks"
  obtains ws where "length ws = length bs" "bits_in \<sigma> bs ws" "digits_val 1 ks = le_val ws"
proof -
  have k: "k = of_bool (k = 1)" if "k \<in> set ks" for k
    using assms that by (auto simp: digits_of_def)
  let ?ws = "map (\<lambda>k. k = 1) ks"
  have ks: "map of_bool ?ws = ks" using k by (simp add: map_idI o_def)
  have "map of_nat ks = map (of_bool :: bool \<Rightarrow> 'a) ?ws" by (subst ks [symmetric]) simp
  moreover have "digits_val 1 (map of_bool ws) = le_val ws" for ws by (induction ws) simp_all
  ultimately show ?thesis
    using that [of ?ws] assms ks unfolding digits_of_def by (metis length_map)
qed

lemma enforces_copy_bits:
  assumes "\<And>bs ws. length bs = num_windows \<Longrightarrow> length ws = num_windows \<Longrightarrow> bits_in \<sigma> bs ws \<Longrightarrow>
    \<sigma> (idx c) = of_nat (le_val ws) \<Longrightarrow> Q bs"
  shows "enforces H I \<sigma> (copy_decompose F 1 c n num_windows) Q"
proof (rule enforces_copy_decompose)
  fix bs ks
  assume a: "length bs = num_windows" "digits_of 1 \<sigma> bs ks" "\<sigma> (idx c) = of_nat (digits_val 1 ks)"
  from digits_of_bits [OF a(2)] obtain ws where "length ws = length bs" "bits_in \<sigma> bs ws" "digits_val 1 ks = le_val ws" .
  with a assms show "Q bs" by simp
qed

lemma extending_decompose_loop [extending_intros]: "extending (decompose_loop K z words)"
  by (induction words arbitrary: z) (auto intro!: extending_intros)

lemma extending_decompose [extending_intros]: "extending (decompose F K z n m)"
  unfolding decompose_def by (intro extending_intros)

lemma extending_copy_decompose [extending_intros]: "extending (copy_decompose F K c n m)"
  unfolding copy_decompose_def by (intro extending_intros)

abbreviation good_bits :: "(nat \<Rightarrow> 'f::field) \<Rightarrow> 'f cell list \<Rightarrow> bool list \<Rightarrow> bool" where
  "good_bits \<sigma> bs ws \<equiv> (\<forall>b \<in> set bs. good \<sigma> b) \<and> map val bs = map of_bool ws"

lemma accepts_decompose_loop:
  assumes "(2 :: 'f::field) \<noteq> 0"
  shows "good \<sigma> z \<Longrightarrow> val z = of_nat (le_val ws) \<Longrightarrow>
    (\<And>z' bs. good \<sigma> z' \<Longrightarrow> val z' = 0 \<Longrightarrow> good_bits \<sigma> bs ws \<Longrightarrow> Q (z', bs)) \<Longrightarrow>
    accepts H I \<sigma> (decompose_loop 1 (z :: 'f cell) (map of_bool ws)) Q"
proof (induction ws arbitrary: z Q)
  case Nil
  then show ?case unfolding list.map decompose_loop.simps by (intro accepts_ret) simp
next
  case (Cons w ws)
  have half: "(val z - of_nat (of_bool w)) * inverse (of_nat (2 ^ 1)) = of_nat (le_val ws)"
    using Cons.prems(2) assms by (simp add: field_simps)
  have word: "window_word 1 (val z) (of_nat (le_val ws)) = of_bool w"
    using Cons.prems(2) by (simp add: window_word_def)
  have rc: "range_check (of_bool w :: 'f) 2 = 0" by (cases w) (simp_all add: range_check_def numeral_2_eq_2)
  show ?case unfolding list.map decompose_loop.simps half
    apply (intro accepts_bind accepts_assign accepts_constrain extending_intros Cons.IH)
        apply (use Cons.prems(1) word rc in simp_all)
    apply (intro accepts_ret Cons.prems(3); simp)
    done
qed

lemma chunks_one: "chunks 1 xs = map (\<lambda>x. [x]) xs"
  by (induction xs) (simp_all add: chunks.simps)

lemma accepts_decompose:
  assumes "fr_ok F" "good \<sigma> z"
    and "\<And>bs. good_bits \<sigma> bs (to_le_bits F (val z)) \<Longrightarrow> Q bs"
  shows "accepts H I \<sigma> (decompose F 1 z 256 256) Q"
proof -
  let ?ws = "to_le_bits F (val z)"
  have ws: "?ws = map (bit (elem F (val z))) [0..<256]" by (rule to_le_bits_eq) (rule fr_okD(1) [OF assms(1)])
  have len: "length ?ws = 256" by (simp add: ws)
  have words: "decompose_word F (val z) 256 1 = Ok (map of_bool ?ws)"
    by (simp add: decompose_word_def len chunks_one [simplified] o_def)
  have "le_val ?ws = unat (elem F (val z))" unfolding ws using le_val_bits [of "elem F (val z)"] by simp
  then have v: "val z = of_nat (le_val ?ws)" using fr_okD(2) [OF assms(1), of "val z"] by simp
  have "accepts H I \<sigma> (decompose_loop 1 z (map of_bool ?ws))
      (\<lambda>p. accepts H I \<sigma> (case p of (z, zs) \<Rightarrow> nbind (constrain_constant z 0) (\<lambda>_. nret zs)) Q)"
    by (rule accepts_decompose_loop [where z = z and ws = ?ws, OF fr_okD(6) [OF assms(1)] _ v])
      (auto simp del: nlift_run intro!: accepts_bind accepts_ret accepts_constrain extending_intros assms(2,3))
  then show ?thesis unfolding decompose_def words
    using len fr_okD(6) [OF assms(1)]
    by (auto simp del: nlift_run intro!: accepts_bind accepts_ret extending_intros)
qed

lemma accepts_copy_decompose:
  assumes "fr_ok F" "good \<sigma> c"
    and "\<And>bs. good_bits \<sigma> bs (to_le_bits F (val c)) \<Longrightarrow> Q bs"
  shows "accepts H I \<sigma> (copy_decompose F 1 c 256 256) Q"
  unfolding copy_decompose_def
  by (intro accepts_bind accepts_copy accepts_decompose extending_intros) (use assms in auto)

section \<open>Comparison of bit strings (is_less_than.rs)\<close>

definition is_less_gate :: "'f::field \<Rightarrow> 'f \<Rightarrow> 'f \<Rightarrow> 'f \<Rightarrow> 'f \<Rightarrow> 'f" where
  "is_less_gate last_is_less last_can_set m alpha is_less =
     last_is_less - (m * (1 - alpha)) * last_can_set - is_less"

definition can_set_gate :: "'f::field \<Rightarrow> 'f \<Rightarrow> 'f \<Rightarrow> 'f \<Rightarrow> 'f" where
  "can_set_gate last_can_set m alpha can_set =
     (m * alpha + (1 - m) * (1 - alpha)) * last_can_set - can_set"

fun is_less_loop :: "'f::field cell \<Rightarrow> 'f cell \<Rightarrow> ('f cell \<times> 'f cell) list \<Rightarrow> ('f, 'f cell) synth" where
  "is_less_loop is_less can_set [] = nret is_less"
| "is_less_loop is_less can_set ((m_bit, a_bit) # rest) =
     nbind (copy_advice m_bit) (\<lambda>m.
     nbind (copy_advice a_bit) (\<lambda>a.
     nbind (assign_advice (val is_less - val m * (1 - val a) * val can_set)) (\<lambda>is_less'.
     nbind (assign_advice ((val m * val a + (1 - val m) * (1 - val a)) * val can_set)) (\<lambda>can_set'.
     nbind (gate (\<lambda>xs. is_less_gate (xs ! 0) (xs ! 1) (xs ! 2) (xs ! 3) (xs ! 4)) [is_less, can_set, m, a, is_less']) (\<lambda>_.
     nbind (gate (\<lambda>xs. can_set_gate (xs ! 0) (xs ! 1) (xs ! 2) (xs ! 3)) [can_set, m, a, can_set']) (\<lambda>_.
     is_less_loop is_less' can_set' rest))))))"

definition is_less_than_assign :: "'f::field cell list \<Rightarrow> 'f cell list \<Rightarrow> ('f, unit) synth" where
  "is_less_than_assign max_bits alpha_bits =
     (if length max_bits \<noteq> length alpha_bits then nlift Panic
      else
        nbind (assign_from_constant 1) (\<lambda>is_less.
        nbind (assign_from_constant 1) (\<lambda>can_set.
        nbind (is_less_loop is_less can_set (zip max_bits alpha_bits)) (\<lambda>is_less.
        constrain_constant is_less 0))))"

text \<open>The order on bit strings of one length, most significant bit first.\<close>

fun bits_less :: "bool list \<Rightarrow> bool list \<Rightarrow> bool" where
  "bits_less (a # as) (m # ms) \<longleftrightarrow> (\<not> a \<and> m) \<or> (a = m \<and> bits_less as ms)"
| "bits_less as ms \<longleftrightarrow> False"

lemma bits_less_le_val:
  "length as = length ms \<Longrightarrow> bits_less as ms \<longleftrightarrow> le_val (rev as) < le_val (rev ms)"
proof (induction as ms rule: list_induct2)
  case (Cons a as m ms)
  have "le_val (rev as) < 2 ^ length ms" "le_val (rev ms) < 2 ^ length ms"
    using horner_sum_of_bool_2_less [of "rev as", where 'a = nat] horner_sum_of_bool_2_less [of "rev ms", where 'a = nat] Cons.hyps
    by simp_all
  with Cons show ?case by (cases a; cases m) (simp_all add: horner_sum_append)
qed simp

lemma enforces_is_less_loop:
  "length ms = length ms' \<Longrightarrow> length as = length ms' \<Longrightarrow> length as' = length ms' \<Longrightarrow>
    bits_in \<sigma> ms ms' \<Longrightarrow> bits_in \<sigma> as as' \<Longrightarrow>
    (\<And>r. \<sigma> (idx r) = \<sigma> (idx is_less) - \<sigma> (idx can_set) * of_bool (bits_less as' ms') \<Longrightarrow> Q r) \<Longrightarrow>
    enforces H I \<sigma> (is_less_loop is_less can_set (zip ms as)) Q"
proof (induction ms' arbitrary: as' ms as is_less can_set Q)
  case Nil
  then show ?case by (cases is_less) (auto simp del: nlift_run intro!: enforces_ret)
next
  case (Cons m' ms')
  from Cons.prems(1-3) obtain m mt a "at" a' at' where
    e: "ms = m # mt" "as = a # at" "as' = a' # at'" by (metis length_Suc_conv)
  show ?case unfolding e zip_Cons_Cons is_less_loop.simps
    apply (intro enforces_bind enforces_copy enforces_assign enforces_constrain Cons.IH [where as' = at'])
          apply (use Cons.prems(1-5) e in simp_all)
    apply (rule Cons.prems(6))
    apply (cases a'; cases m'; simp add: e is_less_gate_def can_set_gate_def)
    done
qed

lemma enforces_is_less_than:
  assumes "bits_in \<sigma> ms ms'" "bits_in \<sigma> as as'" "bits_less as' ms' \<Longrightarrow> Q ()"
  shows "enforces H I \<sigma> (is_less_than_assign ms as) Q"
proof (cases "length ms = length as")
  case True
  have l: "length ms = length ms'" "length as = length as'" using assms(1,2) map_eq_imp_length_eq by blast+
  have n: "\<not> length ms \<noteq> length as" using True by simp
  show ?thesis unfolding is_less_than_assign_def if_not_P [OF n]
    apply (intro enforces_bind enforces_constant enforces_is_less_loop [where as' = as' and ms' = ms'] enforces_constrain)
         apply (use l True assms in \<open>simp_all split: if_splits\<close>)
    done
qed (simp add: is_less_than_assign_def enforces_panic)

lemma extending_is_less_loop [extending_intros]: "extending (is_less_loop is_less can_set xs)"
  by (induction xs arbitrary: is_less can_set) (auto intro!: extending_intros)

lemma extending_is_less_than [extending_intros]: "extending (is_less_than_assign ms as)"
  unfolding is_less_than_assign_def by (intro extending_intros)

lemma accepts_is_less_loop:
  "length ms = length ms' \<Longrightarrow> length as = length ms' \<Longrightarrow> length as' = length ms' \<Longrightarrow>
    good_bits \<sigma> ms ms' \<Longrightarrow> good_bits \<sigma> as as' \<Longrightarrow> good \<sigma> is_less \<Longrightarrow> good \<sigma> can_set \<Longrightarrow>
    (\<And>r. good \<sigma> r \<Longrightarrow> val r = val is_less - val can_set * of_bool (bits_less as' ms') \<Longrightarrow> Q r) \<Longrightarrow>
    accepts H I \<sigma> (is_less_loop is_less can_set (zip ms as)) Q"
proof (induction ms' arbitrary: as' ms as is_less can_set Q)
  case Nil
  then show ?case by (cases is_less) (auto simp del: nlift_run intro!: accepts_ret)
next
  case (Cons m' ms')
  from Cons.prems(1-3) obtain m mt a "at" a' at' where
    e: "ms = m # mt" "as = a # at" "as' = a' # at'" by (metis length_Suc_conv)
  show ?case unfolding e zip_Cons_Cons is_less_loop.simps
    apply (intro accepts_bind accepts_copy accepts_assign accepts_constrain extending_intros Cons.IH [where as' = at'])
                  apply (use Cons.prems(1-7) e in \<open>simp_all add: is_less_gate_def can_set_gate_def\<close>)
    apply (rule Cons.prems(8))
     apply (cases a'; cases m'; simp add: e)
    apply (cases a'; cases m'; simp add: e)
    done
qed

lemma accepts_is_less_than:
  assumes "good_bits \<sigma> ms ms'" "good_bits \<sigma> as as'" "length ms' = length as'" "bits_less as' ms'" "Q ()"
  shows "accepts H I \<sigma> (is_less_than_assign ms as) Q"
proof -
  have l: "length ms = length ms'" "length as = length as'" using assms(1,2) map_eq_imp_length_eq by blast+
  then have n: "\<not> length ms \<noteq> length as" using assms(3) by simp
  show ?thesis unfolding is_less_than_assign_def if_not_P [OF n]
    apply (intro accepts_bind accepts_constant accepts_is_less_loop [where as' = as' and ms' = ms'] accepts_constrain
        extending_intros)
                 apply (use l assms in simp_all)
    done
qed

section \<open>The chips on bits record the same constraints at all values\<close>

lemma alike_decompose_loop:
  "length ws = length ws' \<Longrightarrow> same_cell z z' \<Longrightarrow>
    alike (\<lambda>p q. same_cell (fst p) (fst q) \<and> same_cells (snd p) (snd q)) (decompose_loop K z ws) (decompose_loop K z' ws')"
proof (induction ws ws' arbitrary: z z' rule: list_induct2)
  case Nil
  then show ?case by (simp add: alike_ret del: nlift_run)
next
  case (Cons w ws w' ws')
  show ?case unfolding decompose_loop.simps
    by (intro alike_intros alike_bind [OF Cons.IH]) (use Cons.prems in auto)
qed

lemma decompose_word_like:
  "like_outcome (\<lambda>ws ws'. length ws = length ws') (decompose_word F v n k) (decompose_word F v' n k)"
proof -
  have "length (chunks k xs) = length (chunks k ys)" if "length xs = length ys" for xs ys :: "bool list"
    using that
  proof (induction k xs arbitrary: ys rule: chunks.induct)
    case (1 k xs)
    then show ?case
      by (cases "xs = [] \<or> k = 0") (auto simp: chunks.simps [of k xs] chunks.simps [of k ys])
  qed
  moreover have "length (to_le_bits F v) = length (to_le_bits F v')" by (simp add: to_le_bits_def u8s_to_u64_def)
  ultimately show ?thesis by (simp add: decompose_word_def Let_def)
qed

lemma alike_decompose:
  assumes "same_cell z z'"
  shows "alike same_cells (decompose F K z n m) (decompose F K z' n m)"
proof (cases "K * m < n + K")
  case True
  have core: "alike same_cells (nbind (decompose_loop K z ws) (\<lambda>(z, zs). nbind (constrain_constant z 0) (\<lambda>_. nret zs)))
      (nbind (decompose_loop K z' ws') (\<lambda>(z, zs). nbind (constrain_constant z 0) (\<lambda>_. nret zs)))"
    if "length ws = length ws'" for ws ws' K
    by (intro alike_intros alike_bind [OF alike_decompose_loop]) (use that assms in auto)
  have n: "\<not> \<not> K * m < n + K" using True by simp
  show ?thesis unfolding decompose_def if_not_P [OF n]
    by (rule alike_bind [OF alike_lift [OF decompose_word_like]])
      (auto simp del: nlift_run intro!: alike_panic core)
qed (simp add: decompose_def alike_panic del: nlift_run)

lemma alike_copy_decompose:
  "same_cell c c' \<Longrightarrow> alike same_cells (copy_decompose F K c n m) (copy_decompose F K c' n m)"
  unfolding copy_decompose_def by (intro alike_intros alike_decompose)

lemma alike_is_less_loop:
  "length xs = length ys \<Longrightarrow> same_cell l l' \<Longrightarrow> same_cell c c' \<Longrightarrow> same_cells (map fst xs) (map fst ys) \<Longrightarrow>
    same_cells (map snd xs) (map snd ys) \<Longrightarrow> alike same_cell (is_less_loop l c xs) (is_less_loop l' c' ys)"
proof (induction xs ys arbitrary: l l' c c' rule: list_induct2)
  case Nil
  then show ?case by (simp add: alike_ret del: nlift_run)
next
  case (Cons x xs y ys)
  obtain m a m' a' where xy: "x = (m, a)" "y = (m', a')" by (metis prod.collapse)
  show ?case unfolding xy is_less_loop.simps
    by (intro alike_intros Cons.IH) (use Cons.prems xy in simp_all)
qed

lemma alike_is_less_than:
  assumes "same_cells ms ms'" "same_cells as as'"
  shows "alike (=) (is_less_than_assign ms as) (is_less_than_assign ms' as')"
proof -
  have l: "length ms = length ms'" "length as = length as'" using assms map_eq_imp_length_eq by blast+
  show ?thesis
  proof (cases "length ms = length as")
    case True
    then show ?thesis unfolding is_less_than_assign_def using l assms
      by (auto simp del: nlift_run intro!: alike_intros alike_bind [OF alike_is_less_loop])
  qed (simp add: is_less_than_assign_def l alike_panic del: nlift_run)
qed

lemmas [alike_intros] = alike_copy_decompose alike_bind [OF alike_copy_decompose]
  alike_is_less_than alike_bind [OF alike_is_less_than]

end
