(* ===== verification/Merkle_Gadget.thy ===== *)
theory Merkle_Gadget
  imports Chips_Bits Smirk_Correct
begin

text \<open>
  Merkle paths of the circuits (\<^verbatim>\<open>chips/merkle_path.rs\<close>): the native computation of the root above a
  leaf, the two gadgets that constrain it, and that both agree with the paths of the Smirk tree.
\<close>

section \<open>Native computation\<close>

record MerklePath =
  path_siblings :: "element list"

definition merkle_path_new :: "nat \<Rightarrow> element list \<Rightarrow> (unit, MerklePath) outcome" where
  "merkle_path_new D sib = (if D - 1 = length sib then Ok \<lparr>path_siblings = sib\<rparr> else Panic)"

text \<open>The default path has the hashes of empty trees as siblings.\<close>

fun empty_hashes :: "hash2 \<Rightarrow> nat list \<Rightarrow> (unit, element list) outcome" where
  "empty_hashes hm [] = Ok []"
| "empty_hashes hm (d # ds) = obind (empty_tree_hash hm d) (\<lambda>h. omap ((#) h) (empty_hashes hm ds))"

definition merkle_path_default :: "hash2 \<Rightarrow> nat \<Rightarrow> (unit, MerklePath) outcome" where
  "merkle_path_default hm D = obind (empty_hashes hm [1..<D]) (merkle_path_new D)"

text \<open>The bits of the leaf, least significant first.\<close>

definition least_significant_bits :: "nat \<Rightarrow> element \<Rightarrow> bool list" where
  "least_significant_bits D e = rev (lsb_bits e (D - 1))"

fun path_step :: "('f list \<Rightarrow> 'f) \<Rightarrow> bool \<Rightarrow> 'f \<Rightarrow> 'f \<Rightarrow> 'f" where
  "path_step H True sibling hash = H [sibling, hash]"
| "path_step H False sibling hash = H [hash, sibling]"

fun path_root :: "('f list \<Rightarrow> 'f) \<Rightarrow> 'f \<Rightarrow> (bool \<times> 'f) list \<Rightarrow> 'f" where
  "path_root H hash [] = hash"
| "path_root H hash ((is_right, sibling) # rest) = path_root H (path_step H is_right sibling hash) rest"

fun path_hashes :: "('f list \<Rightarrow> 'f) \<Rightarrow> 'f \<Rightarrow> (bool \<times> 'f) list \<Rightarrow> 'f list" where
  "path_hashes H hash [] = []"
| "path_hashes H hash ((is_right, sibling) # rest) =
     (let h = path_step H is_right sibling hash in h # path_hashes H h rest)"

definition path_along :: "'f Fr \<Rightarrow> nat \<Rightarrow> MerklePath \<Rightarrow> element \<Rightarrow> (bool \<times> 'f) list" where
  "path_along F D path hash_path =
     zip (least_significant_bits D hash_path) (map (base F) (path_siblings path))"

definition compute_root_from_leaf :: "'f Fr \<Rightarrow> nat \<Rightarrow> MerklePath \<Rightarrow> element \<Rightarrow> element \<Rightarrow> element" where
  "compute_root_from_leaf F D path hash_path leaf =
     elem F (path_root (poseidon_hash F) (base F leaf) (path_along F D path hash_path))"

definition compute_root :: "'f Fr \<Rightarrow> nat \<Rightarrow> MerklePath \<Rightarrow> element \<Rightarrow> element" where
  "compute_root F D path hash = compute_root_from_leaf F D path hash hash"

definition compute_null_root :: "'f Fr \<Rightarrow> nat \<Rightarrow> MerklePath \<Rightarrow> element \<Rightarrow> element" where
  "compute_null_root F D path hash = compute_root_from_leaf F D path hash ZERO"

definition compute_path_from_leaf :: "'f Fr \<Rightarrow> nat \<Rightarrow> MerklePath \<Rightarrow> element \<Rightarrow> element list" where
  "compute_path_from_leaf F D path leaf =
     leaf # map (elem F) (path_hashes (poseidon_hash F) (base F leaf) (path_along F D path leaf))"

definition apply_leaf :: "'f Fr \<Rightarrow> nat \<Rightarrow> MerklePath \<Rightarrow> element \<Rightarrow> (unit, MerklePath) outcome" where
  "apply_leaf F D path leaf =
     (let p = compute_path_from_leaf F D path leaf
      in if length p < D - 1 then Panic else Ok \<lparr>path_siblings = take (D - 1) p\<rparr>)"

section \<open>Gadgets\<close>

fun merkle_root ::
    "('f::field list \<Rightarrow> 'f) \<Rightarrow> 'f cell \<Rightarrow> ('f cell \<times> 'f cell) list \<Rightarrow> ('f, 'f cell) synth" where
  "merkle_root H cur [] = nret cur"
| "merkle_root H cur ((sibling, swap) # rest) =
     nbind (swap_assigned cur sibling swap) (\<lambda>(l, r).
     nbind (poseidon_hash_gadget H [l, r]) (\<lambda>cur. merkle_root H cur rest))"

fun merkle_root_value ::
    "('f::field list \<Rightarrow> 'f) \<Rightarrow> 'f cell \<Rightarrow> ('f \<times> 'f) list \<Rightarrow> ('f, 'f cell) synth" where
  "merkle_root_value H cur [] = nret cur"
| "merkle_root_value H cur ((sibling, swap) # rest) =
     nbind (swap_value cur sibling swap) (\<lambda>(l, r).
     nbind (poseidon_hash_gadget H [l, r]) (\<lambda>cur. merkle_root_value H cur rest))"

definition enforce_inclusion_constraints ::
    "'f::field Fr \<Rightarrow> nat \<Rightarrow> MerklePath \<Rightarrow> 'f \<Rightarrow> 'f cell \<Rightarrow> ('f, 'f cell) synth" where
  "enforce_inclusion_constraints F D path leaf_value leaf_assigned =
     merkle_root_value (poseidon_hash F) leaf_assigned
       (zip (map (base F) (path_siblings path))
          (map (\<lambda>b. if b then 1 else 0) (least_significant_bits D (elem F leaf_value))))"

section \<open>What the gadgets enforce\<close>

lemma enforces_merkle_root:
  "length sib = length ws \<Longrightarrow> length bs = length ws \<Longrightarrow> bits_in \<sigma> bs ws \<Longrightarrow>
    (\<And>r. \<sigma> (idx r) = path_root H (\<sigma> (idx cur)) (zip ws (map (\<lambda>c. \<sigma> (idx c)) sib)) \<Longrightarrow> Q r) \<Longrightarrow>
    enforces H I \<sigma> (merkle_root H cur (zip sib bs)) Q"
proof (induction ws arbitrary: sib bs cur Q)
  case Nil
  then show ?case by (cases cur) (auto simp del: nlift_run intro!: enforces_ret)
next
  case (Cons w ws)
  from Cons.prems(1,2) obtain s st b bt where e: "sib = s # st" "bs = b # bt" by (metis length_Suc_conv)
  have "enforces H I \<sigma> (nbind (poseidon_hash_gadget H [l, r]) (\<lambda>cur. merkle_root H cur (zip st bt))) Q"
    if "\<sigma> (idx l) = (if w then \<sigma> (idx s) else \<sigma> (idx cur))" "\<sigma> (idx r) = (if w then \<sigma> (idx cur) else \<sigma> (idx s))" for l r
    apply (intro enforces_bind enforces_poseidon Cons.IH)
       apply (use Cons.prems(1-3) e in simp_all)
    by (rule Cons.prems(4)) (use that e in \<open>cases w; simp\<close>)
  then show ?case unfolding e zip_Cons_Cons merkle_root.simps
    by (intro enforces_bind enforces_swap_assigned) (use Cons.prems(3) e in \<open>simp split: if_splits\<close>)
qed

lemma enforces_merkle_root_value:
  "(\<And>r path. length path = length sib \<Longrightarrow> \<sigma> (idx r) = path_root H (\<sigma> (idx cur)) path \<Longrightarrow> Q r) \<Longrightarrow>
    enforces H I \<sigma> (merkle_root_value H cur sib) Q"
proof (induction sib arbitrary: cur Q)
  case Nil
  then show ?case by (cases cur) (force simp del: nlift_run intro!: enforces_ret)
next
  case (Cons x sib)
  obtain s b where x: "x = (s, b)" by (cases x)
  have "enforces H I \<sigma> (nbind (poseidon_hash_gadget H [l, r]) (\<lambda>cur. merkle_root_value H cur sib)) Q"
    if "\<sigma> (idx l) = (if w then z else \<sigma> (idx cur))" "\<sigma> (idx r) = (if w then \<sigma> (idx cur) else z)" for l r w z
    apply (intro enforces_bind enforces_poseidon Cons.IH)
    subgoal premises p for c r' path
      using Cons.prems [of "(w, z) # path" r'] p that by (cases w) simp_all
    done
  note step = this
  show ?case unfolding x merkle_root_value.simps
    apply (intro enforces_bind enforces_swap_value)
    subgoal for b s a' b' using step [of a' "s = 1" b b'] by simp
    done
qed

lemma enforces_inclusion:
  assumes "\<And>r path. length path = min (length (path_siblings p)) (length (least_significant_bits D (elem F v))) \<Longrightarrow>
    \<sigma> (idx r) = path_root (poseidon_hash F) (\<sigma> (idx leaf)) path \<Longrightarrow> Q r"
  shows "enforces (poseidon_hash F) I \<sigma> (enforce_inclusion_constraints F D p v leaf) Q"
  unfolding enforce_inclusion_constraints_def
  by (rule enforces_merkle_root_value) (use assms in simp)

section \<open>The assigned values meet the constraints\<close>

lemma extending_merkle_root [extending_intros]: "extending (merkle_root H cur sib)"
  by (induction H cur sib rule: merkle_root.induct) (auto simp del: nlift_run intro!: extending_intros)

lemma extending_merkle_root_value [extending_intros]: "extending (merkle_root_value H cur sib)"
  by (induction H cur sib rule: merkle_root_value.induct) (auto simp del: nlift_run intro!: extending_intros)

lemma extending_inclusion [extending_intros]: "extending (enforce_inclusion_constraints F D p v leaf)"
  unfolding enforce_inclusion_constraints_def by (rule extending_merkle_root_value)

lemma accepts_merkle_root:
  "length sib = length ws \<Longrightarrow> length bs = length ws \<Longrightarrow> good_bits \<sigma> bs ws \<Longrightarrow> \<forall>c \<in> set sib. good \<sigma> c \<Longrightarrow> good \<sigma> cur \<Longrightarrow>
    (\<And>r. good \<sigma> r \<Longrightarrow> val r = path_root H (val cur) (zip ws (map val sib)) \<Longrightarrow> Q r) \<Longrightarrow>
    accepts H I \<sigma> (merkle_root H cur (zip sib bs)) Q"
proof (induction ws arbitrary: sib bs cur Q)
  case Nil
  then show ?case by (cases cur) (auto simp del: nlift_run intro!: accepts_ret)
next
  case (Cons w ws)
  from Cons.prems(1,2) obtain s st b bt where e: "sib = s # st" "bs = b # bt" by (metis length_Suc_conv)
  have "accepts H I \<sigma> (nbind (poseidon_hash_gadget H [l, r]) (\<lambda>cur. merkle_root H cur (zip st bt))) Q"
    if "good \<sigma> l" "good \<sigma> r" "val l = (if w then val s else val cur)" "val r = (if w then val cur else val s)" for l r
    apply (intro accepts_bind accepts_poseidon extending_intros Cons.IH)
          apply (use Cons.prems(1-5) e that(1,2) in simp_all)
    by (rule Cons.prems(6)) (use that e in \<open>cases w; simp\<close>)+
  then show ?case unfolding e zip_Cons_Cons merkle_root.simps
    by (intro accepts_bind accepts_swap_assigned extending_intros)
      (use Cons.prems(3-5) e in \<open>auto split: if_splits\<close>)
qed

lemma accepts_merkle_root_value:
  "length sib = length ws \<Longrightarrow> good \<sigma> cur \<Longrightarrow>
    (\<And>r. good \<sigma> r \<Longrightarrow> val r = path_root H (val cur) (zip ws sib) \<Longrightarrow> Q r) \<Longrightarrow>
    accepts H I \<sigma> (merkle_root_value H cur (zip sib (map (\<lambda>b. if b then 1 else 0) ws))) Q"
proof (induction ws arbitrary: sib cur Q)
  case Nil
  then show ?case by (cases cur) (auto simp del: nlift_run intro!: accepts_ret)
next
  case (Cons w ws)
  from Cons.prems(1) obtain s st where e: "sib = s # st" by (metis length_Suc_conv)
  have "accepts H I \<sigma> (nbind (poseidon_hash_gadget H [l, r])
      (\<lambda>cur. merkle_root_value H cur (zip st (map (\<lambda>b. if b then 1 else 0) ws)))) Q"
    if "good \<sigma> l" "good \<sigma> r" "val l = (if w then s else val cur)" "val r = (if w then val cur else s)" for l r
    apply (intro accepts_bind accepts_poseidon extending_intros Cons.IH)
        apply (use Cons.prems(1,2) e that(1,2) in simp_all)
    by (rule Cons.prems(3)) (use that e in \<open>cases w; simp\<close>)+
  then show ?case unfolding e list.map zip_Cons_Cons merkle_root_value.simps
    by (intro accepts_bind accepts_swap_value extending_intros) (use Cons.prems(2) in \<open>auto split: if_splits\<close>)
qed

lemma accepts_inclusion:
  assumes "length (path_siblings p) = D - 1" "D \<le> 257" "good \<sigma> leaf"
    and "\<And>r. good \<sigma> r \<Longrightarrow> val r = path_root (poseidon_hash F) (val leaf) (path_along F D p (elem F v)) \<Longrightarrow> Q r"
  shows "accepts (poseidon_hash F) I \<sigma> (enforce_inclusion_constraints F D p v leaf) Q"
  unfolding enforce_inclusion_constraints_def
  by (rule accepts_merkle_root_value)
    (use assms in \<open>simp_all add: least_significant_bits_def length_lsb_bits path_along_def\<close>)

section \<open>The gadgets record the same constraints at all values\<close>

lemma alike_merkle_root:
  "length xs = length ys \<Longrightarrow> same_cell c c' \<Longrightarrow> same_cells (map fst xs) (map fst ys) \<Longrightarrow>
    same_cells (map snd xs) (map snd ys) \<Longrightarrow> alike same_cell (merkle_root H c xs) (merkle_root H c' ys)"
proof (induction xs ys arbitrary: c c' rule: list_induct2)
  case Nil
  then show ?case by (simp add: alike_ret del: nlift_run)
next
  case (Cons x xs y ys)
  obtain m a m' a' where xy: "x = (m, a)" "y = (m', a')" by (metis prod.collapse)
  show ?case unfolding xy merkle_root.simps
    by (intro alike_intros Cons.IH) (use Cons.prems xy in simp_all)
qed

lemma alike_merkle_root_value:
  "length xs = length ys \<Longrightarrow> same_cell c c' \<Longrightarrow> alike same_cell (merkle_root_value H c xs) (merkle_root_value H c' ys)"
proof (induction xs ys arbitrary: c c' rule: list_induct2)
  case Nil
  then show ?case by (simp add: alike_ret del: nlift_run)
next
  case (Cons x xs y ys)
  obtain m a m' a' where xy: "x = (m, a)" "y = (m', a')" by (metis prod.collapse)
  show ?case unfolding xy merkle_root_value.simps
    by (intro alike_intros Cons.IH) (use Cons.prems xy in simp_all)
qed

lemma alike_inclusion:
  assumes "length (path_siblings p) = length (path_siblings p')" "same_cell c c'"
  shows "alike same_cell (enforce_inclusion_constraints F D p v c) (enforce_inclusion_constraints F D p' v' c')"
  unfolding enforce_inclusion_constraints_def
  by (rule alike_merkle_root_value) (use assms in \<open>simp_all add: least_significant_bits_def lsb_bits_def to_be_bits_def\<close>)

lemmas [alike_intros] = alike_merkle_root alike_bind [OF alike_merkle_root]
  alike_inclusion alike_bind [OF alike_inclusion]

section \<open>The paths of the Smirk tree\<close>

lemma path_root_merkle:
  assumes "fr_ok F"
  shows "elem F (path_root (poseidon_hash F) (base F x) (zip ws (map (base F) sib))) =
    (if ws = [] \<or> sib = [] then elem F (base F x) else compute_merkle_root (\<lambda>a b. merge F [a, b]) x (zip sib ws))"
proof (induction ws arbitrary: x sib)
  case (Cons w ws)
  show ?case
  proof (cases sib)
    case s: (Cons s st)
    let ?h = "if w then merge F [s, x] else merge F [x, s]"
    have h: "path_step (poseidon_hash F) w (base F s) (base F x) = base F ?h"
      by (cases w) (simp_all add: hash_merge_def fr_okD(5) [OF assms])
    have e: "elem F (base F ?h) = ?h" by (simp add: hash_merge_def fr_okD(5) [OF assms])
    show ?thesis using Cons [of ?h st]
      by (cases w; cases ws; cases st) (simp_all add: s h e [simplified] hash_merge_def fr_okD(5) [OF assms])
  qed simp
qed simp

end
