(* ===== verification/Notes.thy ===== *)
theory Notes
  imports Merkle_Gadget
begin

text \<open>
  Notes and input notes (\<^verbatim>\<open>utxo/note.rs\<close>, \<^verbatim>\<open>utxo/input_note.rs\<close>): commitments and nullifiers, the constraints
  that tie their cells together, what the constraints enforce and that an honest witness meets them.
\<close>

section \<open>Notes\<close>

record Note =
  note_address :: element
  note_psi :: element
  note_value :: element
  note_token :: string
  note_source :: element

definition NOTE_RCM_EXT :: nat where
  "NOTE_RCM_EXT = 0"

definition note_restore :: "element \<Rightarrow> element \<Rightarrow> element \<Rightarrow> element \<Rightarrow> Note" where
  "note_restore address psi value source =
     \<lparr>note_address = address, note_psi = psi, note_value = value, note_token = ''USDC'', note_source = source\<rparr>"

text \<open>The random seed is an argument.\<close>

definition note_new_with_source :: "'f::field Fr \<Rightarrow> 'f \<Rightarrow> element \<Rightarrow> element \<Rightarrow> element \<Rightarrow> Note" where
  "note_new_with_source F rseed address value source =
     note_restore address (elem F (poseidon_hash F [rseed, of_nat NOTE_RCM_EXT])) value source"

definition note_new :: "'f::field Fr \<Rightarrow> 'f \<Rightarrow> element \<Rightarrow> element \<Rightarrow> Note" where
  "note_new F rseed address value = note_new_with_source F rseed address value address"

definition padding_note :: "'f::field Fr \<Rightarrow> Note" where
  "padding_note F =
     (let zero_hash = elem F (poseidon_hash F [0, 0])
      in \<lparr>note_address = zero_hash, note_psi = ZERO, note_value = ZERO, note_token = ''USDC'', note_source = zero_hash\<rparr>)"

definition commitment :: "'f Fr \<Rightarrow> Note \<Rightarrow> element" where
  "commitment F note =
     (if note_value note = ZERO then ZERO
      else merge F [note_value note, note_address note, note_psi note, note_source note, ONE, ONE])"

definition note_is_padding :: "'f::field Fr \<Rightarrow> Note \<Rightarrow> bool" where
  "note_is_padding F note \<longleftrightarrow> commitment F note = commitment F (padding_note F) \<or> commitment F note = ZERO"

definition nullifier :: "'f::field Fr \<Rightarrow> Note \<Rightarrow> element \<Rightarrow> element" where
  "nullifier F note secret_key =
     (if note_is_padding F note then commitment F (padding_note F)
      else merge F [commitment F note, secret_key, note_psi note, ZERO])"

record 'f NoteConstraintCells =
  cell_value :: "'f cell"
  cell_address :: "'f cell"
  cell_cm :: "'f cell"
  cell_is_padding :: "'f cell"
  cell_source :: "'f cell"
  cell_psi :: "'f cell"

text \<open>\<open>k\<close> is the constant with which the circuit configures the chip that detects padding.\<close>

definition note_enforce_constraints :: "'f::field Fr \<Rightarrow> 'f \<Rightarrow> Note \<Rightarrow> ('f, 'f NoteConstraintCells) synth" where
  "note_enforce_constraints F k note =
     nbind (assign_constant 0) (\<lambda>zero.
     nbind (assign_private_input (base F (note_value note))) (\<lambda>value.
     nbind (assign_private_input (base F (note_address note))) (\<lambda>address.
     nbind (assign_private_input (base F (note_psi note))) (\<lambda>psi.
     nbind (assign_private_input (base F (note_source note))) (\<lambda>source.
     nbind (assign_private_input 1) (\<lambda>version.
     nbind (poseidon_hash_gadget (poseidon_hash F) [value, address, psi, source, version, version]) (\<lambda>cm.
     nbind (is_constant_assign k value) (\<lambda>is_value_zero.
     nbind (swap_assigned cm zero is_value_zero) (\<lambda>(cm, _).
     nret \<lparr>cell_value = value, cell_address = address, cell_cm = cm, cell_is_padding = is_value_zero,
           cell_source = source, cell_psi = psi\<rparr>)))))))))"

section \<open>Input notes\<close>

record InputNote =
  in_note :: Note
  in_secret_key :: element
  in_merkle_path :: MerklePath

definition input_note_new :: "Note \<Rightarrow> element \<Rightarrow> MerklePath \<Rightarrow> InputNote" where
  "input_note_new note secret_key merkle_path =
     \<lparr>in_note = note, in_secret_key = secret_key, in_merkle_path = merkle_path\<rparr>"

definition input_padding_note :: "'f::field Fr \<Rightarrow> nat \<Rightarrow> (unit, InputNote) outcome" where
  "input_padding_note F D =
     omap (\<lambda>path. \<lparr>in_note = padding_note F, in_secret_key = ZERO, in_merkle_path = path\<rparr>)
       (merkle_path_default (\<lambda>a b. merge F [a, b]) D)"

definition output_note :: "'f::field Fr \<Rightarrow> 'f \<Rightarrow> InputNote \<Rightarrow> element \<Rightarrow> element \<Rightarrow> Note" where
  "output_note F rseed n address value = note_new_with_source F rseed address value (note_address (in_note n))"

definition input_is_padding :: "'f::field Fr \<Rightarrow> InputNote \<Rightarrow> bool" where
  "input_is_padding F n \<longleftrightarrow> commitment F (in_note n) = commitment F (padding_note F)"

definition input_nullifier :: "'f::field Fr \<Rightarrow> InputNote \<Rightarrow> element" where
  "input_nullifier F n = nullifier F (in_note n) (in_secret_key n)"

definition recent_root :: "'f::field Fr \<Rightarrow> nat \<Rightarrow> InputNote \<Rightarrow> element" where
  "recent_root F D n = compute_root F D (in_merkle_path n) (commitment F (in_note n))"

record 'f InputNoteConstraintCells =
  cell_commitment :: "'f NoteConstraintCells"
  cell_nullifier :: "'f cell"
  cell_root :: "'f cell"
  cell_secret_key :: "'f cell"
  cell_zero :: "'f cell"

definition input_enforce_constraints ::
    "'f::field Fr \<Rightarrow> nat \<Rightarrow> 'f \<Rightarrow> InputNote \<Rightarrow> ('f, 'f InputNoteConstraintCells) synth" where
  "input_enforce_constraints F D k n =
     nbind (note_enforce_constraints F k (in_note n)) (\<lambda>cells.
     nbind (enforce_inclusion_constraints F D (in_merkle_path n) (base F (commitment F (in_note n))) (cell_cm cells)) (\<lambda>root.
     nbind (assign_private_input (base F (in_secret_key n))) (\<lambda>secret_key.
     nbind (assign_constant 0) (\<lambda>padding.
     nbind (poseidon_hash_gadget (poseidon_hash F) [secret_key, padding]) (\<lambda>verified_address.
     nbind (constrain_equal verified_address (cell_address cells)) (\<lambda>_.
     nbind (poseidon_hash_gadget (poseidon_hash F) [cell_cm cells, secret_key, cell_psi cells, padding]) (\<lambda>nullifier.
     nret \<lparr>cell_commitment = cells, cell_nullifier = nullifier, cell_root = root,
           cell_secret_key = secret_key, cell_zero = padding\<rparr>)))))))"

section \<open>What the constraints enforce\<close>

text \<open>The commitment to the fields of a note, as a function of field values.\<close>

definition committed :: "('f::field list \<Rightarrow> 'f) \<Rightarrow> 'f \<Rightarrow> 'f \<Rightarrow> 'f \<Rightarrow> 'f \<Rightarrow> 'f \<Rightarrow> 'f" where
  "committed H value address psi source version =
     (if value = 0 then 0 else H [value, address, psi, source, version, version])"

lemma enforces_note:
  assumes "\<And>c version. \<sigma> (idx (cell_cm c)) = committed (poseidon_hash F) (\<sigma> (idx (cell_value c))) (\<sigma> (idx (cell_address c)))
        (\<sigma> (idx (cell_psi c))) (\<sigma> (idx (cell_source c))) version \<Longrightarrow>
      \<sigma> (idx (cell_is_padding c)) = (if \<sigma> (idx (cell_value c)) = 0 then 1 else 0) \<Longrightarrow> Q c"
  shows "enforces (poseidon_hash F) I \<sigma> (note_enforce_constraints F 0 note) Q"
  unfolding note_enforce_constraints_def
  apply (intro enforces_bind enforces_private enforces_assign_constant enforces_poseidon enforces_is_constant
      enforces_swap_assigned)
  apply (simp only: prod.case)
  apply (rule enforces_ret)
  subgoal for zero v address psi source version cm is_zero cm' rest
    by (rule assms [of _ "\<sigma> (idx version)"]) (auto simp: committed_def split: if_splits)
  done

lemma enforces_input_note:
  assumes "\<And>c version sk path n. n = cell_commitment c \<Longrightarrow>
      \<sigma> (idx (cell_cm n)) = committed (poseidon_hash F) (\<sigma> (idx (cell_value n))) (poseidon_hash F [sk, 0])
        (\<sigma> (idx (cell_psi n))) (\<sigma> (idx (cell_source n))) version \<Longrightarrow>
      \<sigma> (idx (cell_is_padding n)) = (if \<sigma> (idx (cell_value n)) = 0 then 1 else 0) \<Longrightarrow>
      \<sigma> (idx (cell_nullifier c)) = poseidon_hash F [\<sigma> (idx (cell_cm n)), sk, \<sigma> (idx (cell_psi n)), 0] \<Longrightarrow>
      length path = min (length (path_siblings (in_merkle_path i))) (length (least_significant_bits D (elem F (base F (commitment F (in_note i)))))) \<Longrightarrow>
      \<sigma> (idx (cell_root c)) = path_root (poseidon_hash F) (\<sigma> (idx (cell_cm n))) path \<Longrightarrow> Q c"
  shows "enforces (poseidon_hash F) I \<sigma> (input_enforce_constraints F D 0 i) Q"
  unfolding input_enforce_constraints_def
  apply (intro enforces_bind enforces_private enforces_assign_constant enforces_poseidon enforces_note enforces_inclusion
      enforces_constrain enforces_ret)
  subgoal for n version root path sk zero address nul
    by (rule assms [where n = n and version = version and sk = "\<sigma> (idx sk)" and path = path]) simp_all
  done

section \<open>An honest witness meets the constraints\<close>

lemma extending_note [extending_intros]: "extending (note_enforce_constraints F k note)"
  unfolding note_enforce_constraints_def by (intro extending_intros)

lemma extending_input_note [extending_intros]: "extending (input_enforce_constraints F D k n)"
  unfolding input_enforce_constraints_def by (intro extending_intros)

text \<open>The element is the canonical representative of its field value.\<close>

definition represented :: "'f Fr \<Rightarrow> element \<Rightarrow> bool" where
  "represented F e \<longleftrightarrow> elem F (base F e) = e"

lemma base_consts:
  assumes "fr_ok F"
  shows "base F ZERO = 0" "base F ONE = 1" "represented F ZERO"
proof -
  show z: "base F ZERO = 0" "base F ONE = 1" by (simp_all add: fr_okD(4) [OF assms] ZERO_def ONE_def)
  show "represented F ZERO" using fr_okD(8) [OF assms, of 0] by (simp add: represented_def z) (simp add: ZERO_def)
qed

lemma represented_zero: "fr_ok F \<Longrightarrow> represented F e \<Longrightarrow> base F e = 0 \<longleftrightarrow> e = ZERO"
  using base_consts [of F] fr_okD(8) [of F "base F e"] by (auto simp: represented_def ZERO_def)

lemma represented_elem: "fr_ok F \<Longrightarrow> represented F (elem F b)"
  by (simp add: represented_def fr_okD(5))

lemma represented_merge: "fr_ok F \<Longrightarrow> represented F (merge F es)"
  by (simp add: hash_merge_def represented_elem)

lemma represented_commitment: "fr_ok F \<Longrightarrow> represented F (commitment F note)"
  by (simp add: commitment_def represented_merge base_consts)

lemma base_merge: "fr_ok F \<Longrightarrow> base F (merge F es) = poseidon_hash F (map (base F) es)"
  by (simp add: hash_merge_def fr_okD(5))

lemma commitment_padding [simp]: "commitment F (padding_note F) = ZERO"
  by (simp add: commitment_def padding_note_def Let_def)

text \<open>
  A note that can be proved: its value is the canonical representative, and only a note without value has the
  commitment zero.
\<close>

definition note_ok :: "'f Fr \<Rightarrow> Note \<Rightarrow> bool" where
  "note_ok F note \<longleftrightarrow> represented F (note_value note) \<and> (commitment F note = ZERO \<longrightarrow> note_value note = ZERO)"

lemma padding_note_ok: "fr_ok F \<Longrightarrow> note_ok F (padding_note F)"
  by (simp add: note_ok_def padding_note_def Let_def base_consts)

lemma commitment_zero_iff: "note_ok F note \<Longrightarrow> commitment F note = ZERO \<longleftrightarrow> note_value note = ZERO"
  unfolding note_ok_def by (metis commitment_def)

lemma nullifier_eq:
  assumes "fr_ok F" "note_ok F note"
  shows "base F (nullifier F note sk) =
    (if base F (note_value note) = 0 then 0
     else poseidon_hash F [base F (commitment F note), base F sk, base F (note_psi note), 0])"
proof -
  have "represented F (note_value note)" using assms(2) by (simp add: note_ok_def)
  then have "note_is_padding F note \<longleftrightarrow> base F (note_value note) = 0"
    by (simp only: note_is_padding_def commitment_padding commitment_zero_iff [OF assms(2)]
        represented_zero [OF assms(1)] disj_absorb)
  with assms(1) show ?thesis by (simp add: nullifier_def base_merge base_consts)
qed

abbreviation good_note :: "(nat \<Rightarrow> 'f) \<Rightarrow> 'f NoteConstraintCells \<Rightarrow> bool" where
  "good_note \<sigma> c \<equiv> good \<sigma> (cell_value c) \<and> good \<sigma> (cell_address c) \<and> good \<sigma> (cell_cm c) \<and>
    good \<sigma> (cell_is_padding c) \<and> good \<sigma> (cell_source c) \<and> good \<sigma> (cell_psi c)"

definition note_cells_of :: "'f::field Fr \<Rightarrow> Note \<Rightarrow> 'f NoteConstraintCells \<Rightarrow> bool" where
  "note_cells_of F note c \<longleftrightarrow>
     val (cell_value c) = base F (note_value note) \<and> val (cell_address c) = base F (note_address note)
   \<and> val (cell_psi c) = base F (note_psi note) \<and> val (cell_source c) = base F (note_source note)
   \<and> val (cell_cm c) = base F (commitment F note)
   \<and> val (cell_is_padding c) = (if base F (note_value note) = 0 then 1 else 0)"

lemma accepts_note:
  assumes "fr_ok F" "represented F (note_value note)" "\<And>c. good_note \<sigma> c \<Longrightarrow> note_cells_of F note c \<Longrightarrow> Q c"
  shows "accepts (poseidon_hash F) I \<sigma> (note_enforce_constraints F 0 note) Q"
proof -
  have cm: "base F (commitment F note) = (if base F (note_value note) = 0 then 0
      else poseidon_hash F [base F (note_value note), base F (note_address note), base F (note_psi note),
        base F (note_source note), 1, 1])"
  proof (cases "note_value note = ZERO")
    case True
    then show ?thesis by (simp add: commitment_def base_consts [OF assms(1)])
  next
    case False
    then have "base F (note_value note) \<noteq> 0" by (simp only: represented_zero [OF assms(1,2)] not_False_eq_True)
    with False show ?thesis by (simp add: commitment_def base_merge [OF assms(1)] base_consts [OF assms(1)])
  qed
  show ?thesis unfolding note_enforce_constraints_def
    apply (intro accepts_bind accepts_private accepts_assign_constant accepts_poseidon accepts_is_constant
        accepts_swap_assigned extending_intros)
         apply (simp_all del: nlift_run)
    apply (rule accepts_ret)
    apply (rule assms(3))
     apply (simp_all add: note_cells_of_def cm)
    done
qed

text \<open>An input note that can be proved: the owner's key opens the address, and the path has the tree's length.\<close>

definition input_ok :: "'f::field Fr \<Rightarrow> nat \<Rightarrow> InputNote \<Rightarrow> bool" where
  "input_ok F D n \<longleftrightarrow> note_ok F (in_note n) \<and> note_address (in_note n) = merge F [in_secret_key n, ZERO]
   \<and> length (path_siblings (in_merkle_path n)) = D - 1"

lemma accepts_input_note:
  assumes "fr_ok F" "input_ok F D i" "D \<le> 257"
    and "\<And>c. good_note \<sigma> (cell_commitment c) \<Longrightarrow> note_cells_of F (in_note i) (cell_commitment c) \<Longrightarrow>
      good \<sigma> (cell_nullifier c) \<Longrightarrow> good \<sigma> (cell_root c) \<Longrightarrow>
      val (cell_nullifier c) = poseidon_hash F [base F (commitment F (in_note i)), base F (in_secret_key i),
        base F (note_psi (in_note i)), 0] \<Longrightarrow>
      val (cell_root c) = base F (recent_root F D i) \<Longrightarrow> Q c"
  shows "accepts (poseidon_hash F) I \<sigma> (input_enforce_constraints F D 0 i) Q"
  unfolding input_enforce_constraints_def
  apply (intro accepts_bind accepts_private accepts_assign_constant accepts_poseidon accepts_note accepts_inclusion
      accepts_constrain accepts_ret extending_intros assms(4))
  apply (use assms(1-3) in \<open>simp_all add: input_ok_def note_ok_def note_cells_of_def base_merge base_consts
      recent_root_def compute_root_def compute_root_from_leaf_def fr_okD(5)
      represented_commitment [unfolded represented_def]\<close>)
  done

section \<open>The constraints do not depend on the note\<close>

definition same_note :: "'f NoteConstraintCells \<Rightarrow> 'f NoteConstraintCells \<Rightarrow> bool" where
  "same_note c d \<longleftrightarrow> same_cell (cell_value c) (cell_value d) \<and> same_cell (cell_address c) (cell_address d)
   \<and> same_cell (cell_cm c) (cell_cm d) \<and> same_cell (cell_is_padding c) (cell_is_padding d)
   \<and> same_cell (cell_source c) (cell_source d) \<and> same_cell (cell_psi c) (cell_psi d)"

lemma alike_note: "alike same_note (note_enforce_constraints F k n) (note_enforce_constraints F k n')"
  unfolding note_enforce_constraints_def by (intro alike_intros) (simp_all add: same_note_def)

lemmas [alike_intros] = alike_note alike_bind [OF alike_note]

lemma alike_input_note:
  assumes "length (path_siblings (in_merkle_path n)) = length (path_siblings (in_merkle_path n'))"
  shows "alike (\<lambda>c d. same_note (cell_commitment c) (cell_commitment d) \<and> same_cell (cell_nullifier c) (cell_nullifier d)
      \<and> same_cell (cell_root c) (cell_root d))
    (input_enforce_constraints F D k n) (input_enforce_constraints F D k n')"
  unfolding input_enforce_constraints_def by (intro alike_intros) (use assms in \<open>simp_all add: same_note_def\<close>)

lemmas [alike_intros] = alike_bind [OF alike_input_note]

end
