(* ===== verification/Utxo_Circuit.thy ===== *)
theory Utxo_Circuit
  imports Notes
begin

text \<open>
  The transaction circuit (\<^verbatim>\<open>utxo/utxo.rs\<close>, \<^verbatim>\<open>utxo/circuit.rs\<close>): two input notes are spent, two output notes are
  created; the public inputs are the recent root, the hash and the value of a mint or a burn, the nullifiers and the
  commitments.
\<close>

section \<open>Transactions\<close>

definition UTXO_INPUTS :: nat where "UTXO_INPUTS = 2"
definition UTXO_OUTPUTS :: nat where "UTXO_OUTPUTS = 2"

datatype UtxoKind = KNull | KTransfer | KMint | KBurn

fun as_element :: "UtxoKind \<Rightarrow> 'f::field" where
  "as_element KNull = of_nat 0"
| "as_element KTransfer = of_nat 1"
| "as_element KMint = of_nat 2"
| "as_element KBurn = of_nat 3"

record Utxo =
  utxo_inputs :: "InputNote list"
  utxo_outputs :: "Note list"
  utxo_root :: element
  utxo_kind :: UtxoKind

definition utxo_tx_new :: "InputNote list \<Rightarrow> Note list \<Rightarrow> element \<Rightarrow> UtxoKind \<Rightarrow> Utxo" where
  "utxo_tx_new inputs outputs root kind =
     \<lparr>utxo_inputs = inputs, utxo_outputs = outputs, utxo_root = root, utxo_kind = kind\<rparr>"

definition new_transfer :: "InputNote list \<Rightarrow> Note list \<Rightarrow> element \<Rightarrow> Utxo" where
  "new_transfer inputs outputs root = utxo_tx_new inputs outputs root KTransfer"

definition new_mint :: "'f::field Fr \<Rightarrow> nat \<Rightarrow> Note \<Rightarrow> (unit, Utxo) outcome" where
  "new_mint F D output =
     omap (\<lambda>pad. utxo_tx_new (replicate UTXO_INPUTS pad) [output, padding_note F] ZERO KMint) (input_padding_note F D)"

definition new_burn :: "'f::field Fr \<Rightarrow> nat \<Rightarrow> InputNote \<Rightarrow> element \<Rightarrow> (unit, Utxo) outcome" where
  "new_burn F D input root =
     omap (\<lambda>pad. utxo_tx_new [input, pad] (replicate UTXO_OUTPUTS (padding_note F)) root KBurn) (input_padding_note F D)"

definition new_padding :: "'f::field Fr \<Rightarrow> nat \<Rightarrow> (unit, Utxo) outcome" where
  "new_padding F D =
     omap (\<lambda>pad. utxo_tx_new (replicate 2 pad) (replicate UTXO_OUTPUTS (padding_note F)) ZERO KTransfer)
       (input_padding_note F D)"

text \<open>Indexing an array of notes; the arrays of the code have two.\<close>

definition public_inputs :: "'f::field Fr \<Rightarrow> Utxo \<Rightarrow> 'f list" where
  "public_inputs F u =
     [base F (utxo_root u),
      (case utxo_kind u of
         KMint \<Rightarrow> base F (commitment F (utxo_outputs u ! 0))
       | KBurn \<Rightarrow> base F (input_nullifier F (utxo_inputs u ! 0))
       | _ \<Rightarrow> 0),
      (case utxo_kind u of
         KMint \<Rightarrow> base F (note_value (utxo_outputs u ! 0))
       | KBurn \<Rightarrow> base F (note_value (in_note (utxo_inputs u ! 0)))
       | _ \<Rightarrow> 0)]
     @ map (\<lambda>n. base F (input_nullifier F n)) (utxo_inputs u)
     @ map (\<lambda>n. base F (commitment F n)) (utxo_outputs u)"

definition utxo_leafs :: "'f::field Fr \<Rightarrow> Utxo \<Rightarrow> 'f list" where
  "utxo_leafs F u =
     map (\<lambda>n. base F (input_nullifier F n)) (utxo_inputs u) @ map (\<lambda>n. base F (commitment F n)) (utxo_outputs u)"

section \<open>The circuit\<close>

text \<open>The body of the loop over the inputs: the cells of the root, the nullifier and the value.\<close>

definition utxo_input_constraints ::
    "'f::field Fr \<Rightarrow> nat \<Rightarrow> 'f \<Rightarrow> 'f cell \<Rightarrow> 'f cell \<Rightarrow> InputNote \<Rightarrow> ('f, 'f cell \<times> 'f cell \<times> 'f cell) synth" where
  "utxo_input_constraints F D k unverified_root zero n =
     nbind (input_enforce_constraints F D k n) (\<lambda>cells.
     nbind (swap_assigned (cell_root cells) unverified_root (cell_is_padding (cell_commitment cells))) (\<lambda>(root, _).
     nbind (swap_assigned (cell_nullifier cells) zero (cell_is_padding (cell_commitment cells))) (\<lambda>(nullifier, _).
     nret (root, nullifier, cell_value (cell_commitment cells)))))"

text \<open>The body of the loop over the outputs: the value has 256 bits of which the top 16 are zero.\<close>

definition utxo_output_constraints :: "'f::field Fr \<Rightarrow> 'f \<Rightarrow> Note \<Rightarrow> ('f, 'f cell \<times> 'f cell) synth" where
  "utxo_output_constraints F k note =
     nbind (note_enforce_constraints F k note) (\<lambda>cells.
     nbind (copy_decompose F 1 (cell_value cells) 256 256) (\<lambda>decomposed_bits.
     nbind (nfor (\<lambda>b. constrain_constant b 0) (take (256 - 240) (rev decomposed_bits))) (\<lambda>_.
     nret (cell_cm cells, cell_value cells))))"

text \<open>The totals, the mint or burn hash and value, and the balance.\<close>

definition utxo_balance_constraints ::
    "'f::field cell \<Rightarrow> 'f cell \<Rightarrow> 'f cell \<Rightarrow> 'f cell list \<Rightarrow> 'f cell list \<Rightarrow> 'f cell \<Rightarrow> 'f cell
       \<Rightarrow> ('f, 'f cell \<times> 'f cell) synth" where
  "utxo_balance_constraints zero is_mint is_burn in_value out_value input_hash output_hash =
     nbind (add_assign in_value) (\<lambda>total_in.
     nbind (add_assign out_value) (\<lambda>total_out.
     nbind (swap_assigned zero output_hash is_mint) (\<lambda>(mb_hash, _).
     nbind (swap_assigned mb_hash input_hash is_burn) (\<lambda>(mb_hash, _).
     nbind (swap_assigned zero total_out is_mint) (\<lambda>(value, _).
     nbind (swap_assigned value total_in is_burn) (\<lambda>(value, _).
     nbind (swap_assigned total_out zero is_mint) (\<lambda>(total_out, _).
     nbind (swap_assigned total_in zero is_burn) (\<lambda>(total_in, _).
     nbind (constrain_equal total_in total_out) (\<lambda>_.
     nret (mb_hash, value))))))))))"

definition constrain_instances :: "nat \<Rightarrow> 'f cell list \<Rightarrow> ('f, unit) synth" where
  "constrain_instances off cells = nfor (\<lambda>(i, c). constrain_instance c (i + off)) (enumerate 0 cells)"

definition utxo_enforce_constraints :: "'f::field Fr \<Rightarrow> nat \<Rightarrow> 'f \<Rightarrow> 'f \<Rightarrow> 'f \<Rightarrow> Utxo \<Rightarrow> ('f, unit) synth" where
  "utxo_enforce_constraints F D padding mint burn u =
     nbind (assign_private_input (base F (utxo_root u))) (\<lambda>unverified_root.
     nbind (assign_constant 0) (\<lambda>zero.
     nbind (assign_private_input (as_element (utxo_kind u))) (\<lambda>kind.
     nbind (is_constant_assign mint kind) (\<lambda>is_mint.
     nbind (is_constant_assign burn kind) (\<lambda>is_burn.
     nbind (nmap (utxo_input_constraints F D padding unverified_root zero) (utxo_inputs u)) (\<lambda>ins.
     nbind (nmap (utxo_output_constraints F padding) (utxo_outputs u)) (\<lambda>outs.
     if ins = [] \<or> outs = [] then nlift Panic
     else
       nbind (utxo_balance_constraints zero is_mint is_burn (map (snd \<circ> snd) ins) (map snd outs)
          (fst (snd (ins ! 0))) (fst (outs ! 0))) (\<lambda>(mb_hash, value).
       nbind (nfor (\<lambda>root. constrain_instance root 0) (map fst ins)) (\<lambda>_.
       nbind (constrain_instance mb_hash 1) (\<lambda>_.
       nbind (constrain_instance value 2) (\<lambda>_.
       constrain_instances 3 (map (fst \<circ> snd) ins @ map fst outs))))))))))))"

definition utxo_synthesize :: "'f::field Fr \<Rightarrow> nat \<Rightarrow> Utxo \<Rightarrow> ('f, unit) synth" where
  "utxo_synthesize F D u =
     utxo_enforce_constraints F D (base F (commitment F (padding_note F))) (as_element KMint) (as_element KBurn) u"

section \<open>What the circuit enforces\<close>

text \<open>The spending of a note with value \<open>v\<close>: only a note with value has to be in the tree.\<close>

definition spends :: "('f::field list \<Rightarrow> 'f) \<Rightarrow> nat \<Rightarrow> 'f \<Rightarrow> 'f \<Rightarrow> 'f \<Rightarrow> bool" where
  "spends H d root nul v \<longleftrightarrow>
     (\<exists>psi source version sk path cm. cm = committed H v (H [sk, 0]) psi source version
        \<and> nul = (if v = 0 then 0 else H [cm, sk, psi, 0])
        \<and> length path = d \<and> (v \<noteq> 0 \<longrightarrow> path_root H cm path = root))"

definition creates :: "('f::field list \<Rightarrow> 'f) \<Rightarrow> 'f \<Rightarrow> 'f \<Rightarrow> bool" where
  "creates H cm v \<longleftrightarrow>
     (\<exists>n address psi source version. n < 2 ^ 240 \<and> v = of_nat n \<and> cm = committed H v address psi source version)"

definition balanced :: "UtxoKind \<Rightarrow> 'f::field list \<Rightarrow> 'f list \<Rightarrow> 'f list \<Rightarrow> bool" where
  "balanced k I vs ws \<longleftrightarrow>
     (case k of
        KMint \<Rightarrow> sum_list vs = 0 \<and> instance_at I 1 = instance_at I (3 + length vs) \<and> instance_at I 2 = sum_list ws
      | KBurn \<Rightarrow> sum_list ws = 0 \<and> instance_at I 1 = instance_at I 3 \<and> instance_at I 2 = sum_list vs
      | _ \<Rightarrow> sum_list vs = sum_list ws \<and> instance_at I 1 = 0 \<and> instance_at I 2 = 0)"

definition utxo_statement :: "('f::field list \<Rightarrow> 'f) \<Rightarrow> nat \<Rightarrow> 'f list \<Rightarrow> bool" where
  "utxo_statement H d I \<longleftrightarrow>
     (\<exists>k vs ws. length vs = UTXO_INPUTS \<and> length ws = UTXO_OUTPUTS \<and> balanced k I vs ws
        \<and> (\<forall>i < UTXO_INPUTS. spends H d (instance_at I 0) (instance_at I (3 + i)) (vs ! i))
        \<and> (\<forall>i < UTXO_OUTPUTS. creates H (instance_at I (3 + UTXO_INPUTS + i)) (ws ! i)))"

lemma enforces_constrain_instances:
  assumes "(\<And>i. i < length cells \<Longrightarrow> \<sigma> (idx (cells ! i)) = instance_at I (i + off)) \<Longrightarrow> Q ()"
  shows "enforces H I \<sigma> (constrain_instances off cells) Q"
  unfolding constrain_instances_def
  apply (rule enforces_for [where P = "\<lambda>(i, c). \<sigma> (idx c) = instance_at I (i + off)"])
   apply (auto intro!: enforces_constrain) [1]
  apply (rule assms)
  apply (auto simp: list_all_length nth_enumerate_eq)
  done

lemma enforces_utxo_input:
  assumes "\<And>r nul c. spends (poseidon_hash F) d (\<sigma> (idx r)) (\<sigma> (idx nul)) (\<sigma> (idx c)) \<Longrightarrow> Q (r, nul, c)"
    and "\<sigma> (idx zero) = 0"
    and "d = min (length (path_siblings (in_merkle_path n)))
      (length (least_significant_bits D (elem F (base F (commitment F (in_note n))))))"
  shows "enforces (poseidon_hash F) I \<sigma> (utxo_input_constraints F D 0 root zero n) Q"
  unfolding utxo_input_constraints_def
  apply (intro enforces_bind enforces_input_note enforces_swap_assigned)
  apply (simp only: prod.case)
  apply (intro enforces_bind enforces_swap_assigned)
  apply (simp only: prod.case)
  apply (intro enforces_ret assms(1))
  subgoal premises p for c version sk path nc r s nul s'
    unfolding spends_def
    apply (rule exI [of _ "\<sigma> (idx (cell_psi nc))"], rule exI [of _ "\<sigma> (idx (cell_source nc))"], rule exI [of _ version],
        rule exI [of _ sk], rule exI [of _ path], rule exI [of _ "\<sigma> (idx (cell_cm nc))"])
    using p assms(2,3) by (auto split: if_splits)
  done

lemma le_val_high:
  assumes "\<forall>b \<in> set (drop k ws). \<not> b"
  shows "le_val ws < 2 ^ k"
proof -
  have "le_val bs = 0" if "\<forall>b \<in> set bs. \<not> b" for bs using that by (induction bs) auto
  then have z: "le_val (drop k ws) = 0" using assms by blast
  have "le_val ws = le_val (take k ws @ drop k ws)" by simp
  also have "\<dots> = le_val (take k ws)" using z by (simp only: horner_sum_append mult_zero_right add_0_right)
  also have "\<dots> < 2 ^ length (take k ws)" by (rule horner_sum_of_bool_2_less)
  also have "\<dots> \<le> 2 ^ k" by (rule power_increasing) simp_all
  finally show ?thesis .
qed

lemma enforces_utxo_output:
  assumes "\<And>cm c. creates (poseidon_hash F) (\<sigma> (idx cm)) (\<sigma> (idx c)) \<Longrightarrow> Q (cm, c)"
  shows "enforces (poseidon_hash F) I \<sigma> (utxo_output_constraints F 0 note) Q"
proof -
  have step: "enforces (poseidon_hash F) I \<sigma> (nbind (nfor (\<lambda>b. constrain_constant b 0) (take (256 - 240) (rev bs)))
      (\<lambda>_. nret (cell_cm c, cell_value c))) Q"
    if cm: "\<sigma> (idx (cell_cm c)) = committed (poseidon_hash F) (\<sigma> (idx (cell_value c))) (\<sigma> (idx (cell_address c)))
        (\<sigma> (idx (cell_psi c))) (\<sigma> (idx (cell_source c))) version"
      and bs: "length bs = 256" "bits_in \<sigma> bs ws" "\<sigma> (idx (cell_value c)) = of_nat (le_val ws)" for c version bs ws
  proof (rule enforces_bind, rule enforces_for [where P = "\<lambda>b. \<sigma> (idx b) = 0"])
    assume zero: "list_all (\<lambda>b. \<sigma> (idx b) = 0) (take (256 - 240) (rev bs))"
    have "take (256 - 240) (rev bs) = rev (drop 240 bs)" using bs(1) by (simp add: take_rev)
    then have "\<forall>x \<in> set (map (\<lambda>b. \<sigma> (idx b)) (drop 240 bs)). x = 0" using zero by (auto simp: list_all_iff)
    also have "map (\<lambda>b. \<sigma> (idx b)) (drop 240 bs) = map of_bool (drop 240 ws)"
      using bs(2) by (metis drop_map)
    finally have "\<forall>w \<in> set (drop 240 ws). \<not> w" by (auto split: if_splits)
    then have "le_val ws < 2 ^ 240" by (rule le_val_high)
    with cm bs(3) have "creates (poseidon_hash F) (\<sigma> (idx (cell_cm c))) (\<sigma> (idx (cell_value c)))"
      unfolding creates_def by blast
    then show "enforces (poseidon_hash F) I \<sigma> (nret (cell_cm c, cell_value c)) Q" by (intro enforces_ret assms)
  qed (auto intro!: enforces_constrain)
  show ?thesis unfolding utxo_output_constraints_def
    by (rule enforces_bind, rule enforces_note, rule enforces_bind, rule enforces_copy_bits, rule step)
qed

lemma enforces_utxo_balance:
  assumes "\<And>mb v. \<sigma> (idx (mb :: 'f cell)) = (if \<sigma> (idx is_burn) = 1 then \<sigma> (idx ih) else if \<sigma> (idx is_mint) = 1 then \<sigma> (idx oh) else 0) \<Longrightarrow>
      \<sigma> (idx (v :: 'f cell)) = (if \<sigma> (idx is_burn) = 1 then tin else if \<sigma> (idx is_mint) = 1 then tout else 0) \<Longrightarrow>
      (if \<sigma> (idx is_burn) = 1 then 0 else tin) = (if \<sigma> (idx is_mint) = 1 then 0 else tout) \<Longrightarrow> Q (mb, v)"
    and "\<sigma> (idx zero) = (0 :: 'f::field)" "tin = (\<Sum>c\<leftarrow>ins. \<sigma> (idx c))" "tout = (\<Sum>c\<leftarrow>outs. \<sigma> (idx c))"
  shows "enforces H I \<sigma> (utxo_balance_constraints zero is_mint is_burn ins outs ih oh) Q"
  unfolding utxo_balance_constraints_def
  apply (rule enforces_bind, rule enforces_add)
  apply (rule enforces_bind, rule enforces_add)
  apply (rule enforces_choose)+
  apply (intro enforces_bind enforces_constrain enforces_ret assms(1))
    apply (use assms(2-4) in \<open>simp_all split: if_splits\<close>)
  done

definition utxo_shape :: "nat \<Rightarrow> Utxo \<Rightarrow> bool" where
  "utxo_shape D u \<longleftrightarrow> length (utxo_inputs u) = UTXO_INPUTS \<and> length (utxo_outputs u) = UTXO_OUTPUTS
   \<and> (\<forall>n \<in> set (utxo_inputs u). length (path_siblings (in_merkle_path n)) = D - 1)"

lemma as_element_distinct: "as_element KMint \<noteq> (as_element KBurn :: 'f::field)"
proof
  assume "as_element KMint = (as_element KBurn :: 'f)"
  then have "(3 :: 'f) - 2 = 0" by simp
  moreover have "(3 :: 'f) - 2 = 1" by simp
  ultimately show False by (simp only: one_neq_zero)
qed

text \<open>The cells of the loops over the notes, the balance and the public inputs give the statement.\<close>

lemma utxo_statementI:
  fixes \<sigma> :: "nat \<Rightarrow> 'f::field"
  assumes "list_all (\<lambda>(r, nul, c). spends H d (\<sigma> (idx r)) (\<sigma> (idx nul)) (\<sigma> (idx c))) ins"
    and "list_all (\<lambda>(cm, c). creates H (\<sigma> (idx cm)) (\<sigma> (idx c))) outs"
    and len: "length ins = UTXO_INPUTS" "length outs = UTXO_OUTPUTS"
    and roots: "\<And>i. i < length ins \<Longrightarrow> \<sigma> (idx (fst (ins ! i))) = instance_at I 0"
    and leafs: "\<And>i. i < length ins + length outs \<Longrightarrow>
      \<sigma> (idx ((map (fst \<circ> snd) ins @ map fst outs) ! i)) = instance_at I (i + 3)"
    and "balanced k I (map (\<lambda>(r, nul, c). \<sigma> (idx c)) ins) (map (\<lambda>(cm, c). \<sigma> (idx c)) outs)"
  shows "utxo_statement H d I"
proof -
  have "spends H d (instance_at I 0) (instance_at I (3 + i)) (map (\<lambda>(r, nul, c). \<sigma> (idx c)) ins ! i)"
    if "i < UTXO_INPUTS" for i
    using assms(1) roots [of i] leafs [of i] that len
    by (auto simp: list_all_length nth_append add.commute split: prod.splits)
  moreover have "creates H (instance_at I (3 + UTXO_INPUTS + i)) (map (\<lambda>(cm, c). \<sigma> (idx c)) outs ! i)"
    if "i < UTXO_OUTPUTS" for i
    using assms(2) leafs [of "UTXO_INPUTS + i"] that len
    by (auto simp: list_all_length nth_append ac_simps split: prod.splits)
  ultimately show ?thesis unfolding utxo_statement_def using assms(7) len
    by (intro exI [of _ k] exI [of _ "map (\<lambda>(r, nul, c). \<sigma> (idx c)) ins"]
        exI [of _ "map (\<lambda>(cm, c). \<sigma> (idx c)) outs"]) simp
qed

lemma enforces_utxo:
  assumes "fr_ok F" "D \<le> 257" "utxo_shape D u"
  shows "enforces (poseidon_hash F) I \<sigma> (utxo_synthesize F D u) (\<lambda>_. utxo_statement (poseidon_hash F) (D - 1) I)"
proof -
  let ?H = "poseidon_hash F"
  let ?P = "\<lambda>n (r, nul, c). spends ?H (D - 1) (\<sigma> (idx r)) (\<sigma> (idx nul)) (\<sigma> (idx c))"
  let ?R = "\<lambda>n (cm, c). creates ?H (\<sigma> (idx cm)) (\<sigma> (idx c))"
  have k: "base F (commitment F (padding_note F)) = 0" by (simp add: base_consts [OF assms(1)])
  have d: "D - 1 = min (length (path_siblings (in_merkle_path n)))
      (length (least_significant_bits D (elem F (base F (commitment F (in_note n))))))" if "n \<in> set (utxo_inputs u)" for n
    using assms(2,3) that by (auto simp: utxo_shape_def least_significant_bits_def length_lsb_bits)
  show ?thesis unfolding utxo_synthesize_def utxo_enforce_constraints_def k
    apply (intro enforces_bind enforces_private enforces_assign_constant enforces_is_constant)
    apply (rule enforces_map [where P = ?P])
    subgoal for r z kind m b n Q by (rule enforces_utxo_input [OF _ _ d]) auto
    apply (intro enforces_bind)
    apply (rule enforces_map [where P = ?R])
    subgoal by (rule enforces_utxo_output) auto
    subgoal premises p for root zero kind is_mint is_burn ins outs
    proof -
      have len: "length ins = UTXO_INPUTS" "length outs = UTXO_OUTPUTS"
        using p(4,5) assms(3) by (auto simp: utxo_shape_def dest: list_all2_lengthD)
      then have ne: "\<not> (ins = [] \<or> outs = [])" by (auto simp: UTXO_INPUTS_def UTXO_OUTPUTS_def)
      have all: "list_all (\<lambda>(r, nul, c). spends ?H (D - 1) (\<sigma> (idx r)) (\<sigma> (idx nul)) (\<sigma> (idx c))) ins"
        "list_all (\<lambda>(cm, c). creates ?H (\<sigma> (idx cm)) (\<sigma> (idx c))) outs"
        using p(4,5) by (auto simp: list_all2_conv_all_nth list_all_length)
      show ?thesis unfolding if_not_P [OF ne]
        apply (rule enforces_bind, rule enforces_utxo_balance [where \<sigma> = \<sigma>, OF _ p(1) refl refl], simp only: prod.case)
        apply (rule enforces_bind, rule enforces_for [where P = "\<lambda>r. \<sigma> (idx r) = instance_at I 0"])
         apply (auto intro!: enforces_constrain) [1]
        apply (intro enforces_bind enforces_constrain enforces_constrain_instances)
        subgoal premises q for mb v
        proof (rule utxo_statementI [OF all len])
          let ?k = "if \<sigma> (idx is_burn) = 1 then KBurn else if \<sigma> (idx is_mint) = 1 then KMint else KTransfer"
          show "\<sigma> (idx (fst (ins ! i))) = instance_at I 0" if "i < length ins" for i
            using q(4) that by (auto simp: list_all_length)
          show leaf: "\<sigma> (idx ((map (fst \<circ> snd) ins @ map fst outs) ! i)) = instance_at I (i + 3)"
            if "i < length ins + length outs" for i using q(7) that by simp
          have excl: "\<sigma> (idx is_burn) = 1 \<Longrightarrow> \<sigma> (idx is_mint) = 0"
            using p(2,3) as_element_distinct [where 'f = 'a] by (auto split: if_splits)
          have first: "\<sigma> (idx (fst (snd (ins ! 0)))) = instance_at I 3"
              "\<sigma> (idx (fst (outs ! 0))) = instance_at I (3 + length ins)"
            using leaf [of 0] leaf [of "length ins"] ne by (simp_all add: nth_append add.commute)
          show "balanced ?k I (map (\<lambda>(r, nul, c). \<sigma> (idx c)) ins) (map (\<lambda>(cm, c). \<sigma> (idx c)) outs)"
            using q(1-3,5,6) first excl
            by (auto simp: balanced_def o_def case_prod_unfold split: if_splits)
        qed
        done
    qed
    done
qed

section \<open>An honest witness meets the constraints\<close>

lemma extending_utxo_input [extending_intros]: "extending (utxo_input_constraints F D k root zero n)"
  unfolding utxo_input_constraints_def by (intro extending_intros)

lemma extending_utxo_output [extending_intros]: "extending (utxo_output_constraints F k note)"
  unfolding utxo_output_constraints_def by (intro extending_intros)

lemma extending_utxo_balance [extending_intros]: "extending (utxo_balance_constraints zero m b ins outs ih oh)"
  unfolding utxo_balance_constraints_def by (intro extending_intros)

lemma extending_constrain_instances [extending_intros]: "extending (constrain_instances off cells)"
  unfolding constrain_instances_def by (intro extending_intros)

lemma accepts_constrain_instances:
  assumes "\<And>i. i < length cells \<Longrightarrow> good \<sigma> (cells ! i)"
    and "\<And>i. i < length cells \<Longrightarrow> val (cells ! i) = instance_at I (i + off)" "Q ()"
  shows "accepts H I \<sigma> (constrain_instances off cells) Q"
  unfolding constrain_instances_def
proof (rule accepts_for)
  fix x :: "nat \<times> 'a cell" and Q :: "unit \<Rightarrow> bool"
  obtain i c where x: "x = (i, c)" by (rule prod.exhaust)
  assume "x \<in> set (enumerate 0 cells)" "Q ()"
  then show "accepts H I \<sigma> (case x of (i, c) \<Rightarrow> constrain_instance c (i + off)) Q"
    using assms(1,2) [of i] unfolding x prod.case
    by (intro accepts_constrain) (simp_all add: in_set_enumerate_eq)
qed (auto intro!: extending_intros simp: assms(3) split: prod.splits)

lemma accepts_utxo_input:
  assumes "fr_ok F" "input_ok F D n" "D \<le> 257" "good \<sigma> root" "good \<sigma> zero" "val zero = 0"
    and "\<And>r nul c. good \<sigma> r \<Longrightarrow> good \<sigma> nul \<Longrightarrow> good \<sigma> c \<Longrightarrow>
      val r = (if base F (note_value (in_note n)) = 0 then val root else base F (recent_root F D n)) \<Longrightarrow>
      val nul = base F (input_nullifier F n) \<Longrightarrow> val c = base F (note_value (in_note n)) \<Longrightarrow> Q (r, nul, c)"
  shows "accepts (poseidon_hash F) I \<sigma> (utxo_input_constraints F D 0 root zero n) Q"
proof -
  have ok: "note_ok F (in_note n)" using assms(2) by (simp add: input_ok_def)
  show ?thesis unfolding utxo_input_constraints_def
    apply (rule accepts_bind, rule accepts_input_note [OF assms(1-3)])
     apply (rule accepts_bind, rule accepts_swap_assigned)
           apply (simp_all only: prod.case assms(4,5))
       apply (simp add: note_cells_of_def)
      apply (rule accepts_bind, rule accepts_swap_assigned)
            apply (simp_all only: prod.case assms(4,5))
        apply (simp add: note_cells_of_def)
       apply (intro accepts_ret assms(7))
            apply (simp_all add: note_cells_of_def assms(6) input_nullifier_def nullifier_eq [OF assms(1) ok])
      apply (intro extending_intros)+
    done
qed

lemma high_bits_zero:
  assumes "unat v < 2 ^ n" "n \<le> i"
  shows "\<not> bit (v :: element) i"
proof -
  have "bit (take_bit n (unat v)) i \<longleftrightarrow> bit (unat v) i" by (simp only: take_bit_nat_eq_self [OF assms(1)])
  then have "\<not> bit (unat v) i" using assms(2) by (simp add: bit_take_bit_iff)
  then show ?thesis by (auto simp: bit_unsigned_iff dest: bit_imp_le_length)
qed

lemma accepts_utxo_output:
  assumes "fr_ok F" "note_ok F note" "unat (note_value note) < 2 ^ 240"
    and "\<And>cm c. good \<sigma> cm \<Longrightarrow> good \<sigma> c \<Longrightarrow> val cm = base F (commitment F note) \<Longrightarrow>
      val c = base F (note_value note) \<Longrightarrow> Q (cm, c)"
  shows "accepts (poseidon_hash F) I \<sigma> (utxo_output_constraints F 0 note) Q"
proof -
  have v: "to_le_bits F (base F (note_value note)) = map (bit (note_value note)) [0..<256]"
    using assms(2) to_le_bits_eq [OF fr_okD(1) [OF assms(1)], of "base F (note_value note)"]
    by (simp add: note_ok_def represented_def)
  have top: "good \<sigma> b \<and> val b = 0"
    if "good_bits \<sigma> bs (map (bit (note_value note)) [0..<256])" "b \<in> set (take (256 - 240) (rev bs))" for bs b
  proof -
    have l: "length bs = 256" using that(1) map_eq_imp_length_eq [of val bs of_bool "map (bit (note_value note)) [0..<256]"]
      by (metis length_map length_upt diff_zero)
    then have "b \<in> set (drop 240 bs)" using that(2) by (simp add: take_rev)
    then obtain j where "j < 16" "b = drop 240 bs ! j" using l by (auto simp: in_set_conv_nth)
    then obtain i where i: "240 \<le> i" "i < 256" "b = bs ! i" using l by (intro that [of "240 + j"]) simp_all
    have "val b = map val bs ! i" using i l by simp
    also have "\<dots> = of_bool (bit (note_value note) i)" using that(1) i by simp
    finally show ?thesis using high_bits_zero [OF assms(3) i(1)] that(1) i l by simp
  qed
  show ?thesis unfolding utxo_output_constraints_def
    apply (rule accepts_bind, rule accepts_note [OF assms(1)])
      apply (use assms(2) in \<open>simp add: note_ok_def\<close>)
     apply (rule accepts_bind, rule accepts_copy_decompose [OF assms(1)])
       apply simp
      apply (rule accepts_bind, rule accepts_for)
         apply (rule accepts_constrain)
    subgoal premises p for c bs b Q
      using top [of bs b] p(2-4) by (simp add: note_cells_of_def v)
         apply assumption
        apply (intro extending_intros)
       apply (intro accepts_ret assms(4))
          apply (simp_all add: note_cells_of_def)
      apply (intro extending_intros)+
    done
qed

lemma accepts_utxo_balance:
  assumes "good \<sigma> zero" "val zero = (0 :: 'f::field)" "good \<sigma> is_mint" "good \<sigma> is_burn"
    and "val is_mint = 0 \<or> val is_mint = 1" "val is_burn = 0 \<or> val is_burn = 1" "good \<sigma> ih" "good \<sigma> oh"
    and "ins \<noteq> []" "outs \<noteq> []" "\<forall>c \<in> set ins. good \<sigma> c" "\<forall>c \<in> set outs. good \<sigma> c"
    and "(if val is_burn = 1 then 0 else \<Sum>c\<leftarrow>ins. val c) = (if val is_mint = 1 then 0 else \<Sum>c\<leftarrow>outs. val c)"
    and "\<And>mb v. good \<sigma> (mb :: 'f cell) \<Longrightarrow> good \<sigma> (v :: 'f cell) \<Longrightarrow>
      val mb = (if val is_burn = 1 then val ih else if val is_mint = 1 then val oh else 0) \<Longrightarrow>
      val v = (if val is_burn = 1 then \<Sum>c\<leftarrow>ins. val c else if val is_mint = 1 then \<Sum>c\<leftarrow>outs. val c else 0) \<Longrightarrow> Q (mb, v)"
  shows "accepts H I \<sigma> (utxo_balance_constraints zero is_mint is_burn ins outs ih oh) Q"
  unfolding utxo_balance_constraints_def
    apply (rule accepts_bind, rule accepts_add [OF assms(9,11)])
     apply (rule accepts_bind, rule accepts_add [OF assms(10,12)])
      apply (rule accepts_choose [where \<sigma> = \<sigma>, OF _ _ assms(3,5)], (simp_all only: assms) [2], intro extending_intros)
      apply (rule accepts_choose [where \<sigma> = \<sigma>, OF _ _ assms(4,6)], (simp_all only: assms) [2], intro extending_intros)
      apply (rule accepts_choose [where \<sigma> = \<sigma>, OF _ _ assms(3,5)], (simp_all only: assms) [2], intro extending_intros)
      apply (rule accepts_choose [where \<sigma> = \<sigma>, OF _ _ assms(4,6)], (simp_all only: assms) [2], intro extending_intros)
      apply (rule accepts_choose [where \<sigma> = \<sigma>, OF _ _ assms(3,5)], (simp_all only: assms) [2], intro extending_intros)
      apply (rule accepts_choose [where \<sigma> = \<sigma>, OF _ _ assms(4,6)], (simp_all only: assms) [2], intro extending_intros)
      apply (rule accepts_bind, rule accepts_constrain)
        apply (use assms(13) in \<open>simp add: assms(2) split: if_splits\<close>)
       apply (intro accepts_ret assms(14))
          apply (simp_all add: assms(2))
     apply (intro extending_intros)+
  done

text \<open>
  A transaction that can be proved: its notes are, the notes with value are in the tree with the given root, the outputs are
  below \<open>2 ^ 240\<close>, and the values balance; a mint creates one note, a burn spends one.
\<close>

definition utxo_ok :: "'f::field Fr \<Rightarrow> nat \<Rightarrow> Utxo \<Rightarrow> bool" where
  "utxo_ok F D u \<longleftrightarrow> utxo_shape D u
   \<and> list_all (\<lambda>n. input_ok F D n \<and> (note_value (in_note n) \<noteq> ZERO \<longrightarrow> recent_root F D n = utxo_root u)) (utxo_inputs u)
   \<and> list_all (\<lambda>n. note_ok F n \<and> unat (note_value n) < 2 ^ 240) (utxo_outputs u)
   \<and> (let total_in = (\<Sum>n\<leftarrow>utxo_inputs u. base F (note_value (in_note n)));
          total_out = (\<Sum>n\<leftarrow>utxo_outputs u. base F (note_value n))
      in case utxo_kind u of
           KMint \<Rightarrow> total_in = 0 \<and> total_out = base F (note_value (utxo_outputs u ! 0))
         | KBurn \<Rightarrow> total_out = 0 \<and> total_in = base F (note_value (in_note (utxo_inputs u ! 0)))
         | _ \<Rightarrow> total_in = total_out)"

definition input_cells :: "'f::field Fr \<Rightarrow> Utxo \<Rightarrow> (nat \<Rightarrow> 'f) \<Rightarrow> InputNote \<Rightarrow> 'f cell \<times> 'f cell \<times> 'f cell \<Rightarrow> bool" where
  "input_cells F u \<sigma> n = (\<lambda>(r, nul, c). good \<sigma> r \<and> good \<sigma> nul \<and> good \<sigma> c \<and> val r = base F (utxo_root u)
     \<and> val nul = base F (input_nullifier F n) \<and> val c = base F (note_value (in_note n)))"

definition output_cells :: "'f::field Fr \<Rightarrow> (nat \<Rightarrow> 'f) \<Rightarrow> Note \<Rightarrow> 'f cell \<times> 'f cell \<Rightarrow> bool" where
  "output_cells F \<sigma> n = (\<lambda>(cm, c). good \<sigma> cm \<and> good \<sigma> c \<and> val cm = base F (commitment F n)
     \<and> val c = base F (note_value n))"

lemma kind_flags:
  assumes "(2 :: 'f::field) \<noteq> 0" "(3 :: 'f) \<noteq> 0"
  shows "as_element k = (as_element KMint :: 'f) \<longleftrightarrow> k = KMint" "as_element k = (as_element KBurn :: 'f) \<longleftrightarrow> k = KBurn"
proof -
  have "(1 :: 'f) \<noteq> 2" using one_neq_zero [where 'a = 'f] by (metis add_left_cancel one_add_one add_0_right)
  moreover have "(1 :: 'f) \<noteq> 3"
  proof
    assume "(1 :: 'f) = 3"
    then have "(3 :: 'f) - 1 = 0" by simp
    then show False using assms(1) by simp
  qed
  moreover note as_element_distinct [where 'f = 'f]
  ultimately show "as_element k = (as_element KMint :: 'f) \<longleftrightarrow> k = KMint" "as_element k = (as_element KBurn :: 'f) \<longleftrightarrow> k = KBurn"
    using assms by (cases k; auto)+
qed

lemma accepts_utxo:
  assumes F: "fr_ok F" and D: "D \<le> 257" and u: "utxo_ok F D u"
  shows "accepts (poseidon_hash F) (public_inputs F u) \<sigma> (utxo_synthesize F D u) (\<lambda>_. True)"
proof -
  have len: "length (utxo_inputs u) = 2" "length (utxo_outputs u) = 2"
    using u by (auto simp: utxo_ok_def utxo_shape_def UTXO_INPUTS_def UTXO_OUTPUTS_def)
  then obtain i1 i2 o1 o2 where io: "utxo_inputs u = [i1, i2]" "utxo_outputs u = [o1, o2]"
    by (auto simp: numeral_2_eq_2 length_Suc_conv)
  have k: "base F (commitment F (padding_note F)) = 0" by (simp add: base_consts [OF F])
  note flags = kind_flags [OF fr_okD(6,7) [OF F]]
  show ?thesis unfolding utxo_synthesize_def utxo_enforce_constraints_def k
    apply (rule accepts_bind, rule accepts_private)
     apply (rule accepts_bind, rule accepts_assign_constant)
      apply (rule accepts_bind, rule accepts_private)
       apply (rule accepts_bind, rule accepts_is_constant, assumption)
        apply (rule accepts_bind, rule accepts_is_constant, assumption)
         apply (rule accepts_bind, rule accepts_map [where P = "input_cells F u \<sigma>"])
    subgoal premises p for root zero kind is_mint is_burn n Q
    proof (rule accepts_utxo_input [OF F _ D p(1,3,4)])
      have n: "input_ok F D n" "note_value (in_note n) \<noteq> ZERO \<longrightarrow> recent_root F D n = utxo_root u"
        using p(11) u by (auto simp: utxo_ok_def list_all_iff)
      then show "input_ok F D n" by simp
      fix r nul c
      assume "good \<sigma> r" "good \<sigma> nul" "good \<sigma> c"
        "val r = (if base F (note_value (in_note n)) = 0 then val root else base F (recent_root F D n))"
        "val nul = base F (input_nullifier F n)" "val c = base F (note_value (in_note n))"
      moreover have "base F (note_value (in_note n)) \<noteq> 0 \<Longrightarrow> recent_root F D n = utxo_root u"
        using n(2) base_consts(1) [OF F] by auto
      ultimately show "Q (r, nul, c)" using p(2,12) by (auto simp: input_cells_def)
    qed
           apply (intro extending_intros)
          apply (rule accepts_bind, rule accepts_map [where P = "output_cells F \<sigma>"])
    subgoal premises p for root zero kind is_mint is_burn ins n Q
      by (rule accepts_utxo_output [OF F]) (use p(12,13) u in \<open>auto simp: utxo_ok_def list_all_iff output_cells_def\<close>)
            apply (intro extending_intros)
    subgoal premises p for root zero kind is_mint is_burn ins outs
    proof -
      obtain r1 n1 c1 r2 n2 c2 where ins: "ins = [(r1, n1, c1), (r2, n2, c2)]"
          "input_cells F u \<sigma> i1 (r1, n1, c1)" "input_cells F u \<sigma> i2 (r2, n2, c2)"
        using p(11) unfolding io by (auto simp: list_all2_Cons1)
      obtain m1 d1 m2 d2 where outs: "outs = [(m1, d1), (m2, d2)]"
          "output_cells F \<sigma> o1 (m1, d1)" "output_cells F \<sigma> o2 (m2, d2)"
        using p(12) unfolding io by (auto simp: list_all2_Cons1)
      have mint: "val is_mint = (if utxo_kind u = KMint then 1 else 0)"
        and burn: "val is_burn = (if utxo_kind u = KBurn then 1 else 0)"
        using p(6,8,10) flags by simp_all
      have ne: "\<not> (ins = [] \<or> outs = [])" by (simp add: ins outs)
      show ?thesis unfolding if_not_P [OF ne]
        apply (rule accepts_bind, rule accepts_utxo_balance [OF p(3,4,7,9)])
                  apply (use mint burn ins outs in \<open>simp_all add: input_cells_def output_cells_def\<close>) [8]
        subgoal using u ins outs mint burn
          by (cases "utxo_kind u") (simp_all add: utxo_ok_def io input_cells_def output_cells_def)
         apply (simp only: prod.case)
         apply (rule accepts_bind, rule accepts_for)
            apply (rule accepts_constrain)
             apply (use ins in \<open>auto simp: input_cells_def public_inputs_def instance_at_def\<close>) [1]
            apply assumption
           apply (intro extending_intros)
          apply (rule accepts_bind, rule accepts_constrain)
            apply (use mint burn ins outs in \<open>cases "utxo_kind u"; simp add: input_cells_def output_cells_def
              public_inputs_def instance_at_def io\<close>) [1]
           apply (rule accepts_bind, rule accepts_constrain)
             apply (use u mint burn ins outs in \<open>cases "utxo_kind u"; simp add: input_cells_def output_cells_def
              public_inputs_def instance_at_def io utxo_ok_def\<close>) [1]
            apply (rule accepts_constrain_instances)
              apply (use ins outs in \<open>auto simp: less_Suc_eq numeral_eq_Suc input_cells_def output_cells_def
              public_inputs_def instance_at_def io\<close>) [3]
           apply (intro extending_intros)+
        done
    qed
          apply (intro extending_intros)+
    done
qed

section \<open>The constraints do not depend on the transaction\<close>

abbreviation same_triple :: "'f cell \<times> 'f cell \<times> 'f cell \<Rightarrow> 'f cell \<times> 'f cell \<times> 'f cell \<Rightarrow> bool" where
  "same_triple p q \<equiv> same_cell (fst p) (fst q) \<and> same_pair (snd p) (snd q)"

lemma alike_utxo_input:
  assumes "length (path_siblings (in_merkle_path n)) = length (path_siblings (in_merkle_path n'))"
    and "same_cell r r'" "same_cell z z'"
  shows "alike same_triple (utxo_input_constraints F D k r z n) (utxo_input_constraints F D k r' z' n')"
  unfolding utxo_input_constraints_def by (intro alike_intros) (use assms in \<open>simp_all add: same_note_def\<close>)

lemma alike_utxo_output: "alike same_pair (utxo_output_constraints F k n) (utxo_output_constraints F k n')"
proof -
  have bits: "alike (=) (nfor (\<lambda>b. constrain_constant b 0) (take j (rev bs))) (nfor (\<lambda>b. constrain_constant b 0) (take j (rev bs')))"
    if "same_cells bs bs'" for j and bs bs' :: "'a cell list"
  proof (rule alike_for)
    have "list_all2 same_cell (take j (rev bs)) (take j (rev bs'))" using that by (simp add: same_cells_iff list_all2_takeI)
    then show "list_all2 (\<lambda>x y. alike (=) (constrain_constant x 0) (constrain_constant y 0)) (take j (rev bs)) (take j (rev bs'))"
      by (rule list_all2_mono) (simp add: alike_constrain)
  qed
  show ?thesis unfolding utxo_output_constraints_def
    by (intro alike_intros alike_bind [OF bits]) (simp_all add: same_note_def)
qed

lemma alike_utxo_balance:
  assumes "same_cell zero zero'" "same_cell m m'" "same_cell b b'" "same_cells ins ins'" "same_cells outs outs'"
    "same_cell ih ih'" "same_cell oh oh'"
  shows "alike same_pair (utxo_balance_constraints zero m b ins outs ih oh) (utxo_balance_constraints zero' m' b' ins' outs' ih' oh')"
  unfolding utxo_balance_constraints_def by (intro alike_intros) (use assms in simp_all)

lemma alike_constrain_instances:
  assumes "same_cells cs ds"
  shows "alike (=) (constrain_instances off cs) (constrain_instances off ds)"
  unfolding constrain_instances_def
proof (rule alike_for)
  have "length cs = length ds" using assms map_eq_imp_length_eq by blast
  moreover have "idx (cs ! i) = idx (ds ! i)" if "i < length cs" for i
    using assms that calculation by (metis nth_map)
  ultimately show "list_all2 (\<lambda>x y. alike (=) (case x of (i, c) \<Rightarrow> constrain_instance c (i + off))
      (case y of (i, c) \<Rightarrow> constrain_instance c (i + off))) (enumerate 0 cs) (enumerate 0 ds)"
    by (simp add: list_all2_conv_all_nth nth_enumerate_eq alike_constrain)
qed

lemma alike_utxo:
  assumes "utxo_shape D u" "utxo_shape D u'"
  shows "alike (=) (utxo_synthesize F D u) (utxo_synthesize F D u')"
proof -
  have ins: "alike (list_all2 same_triple) (nmap (utxo_input_constraints F D k r z) (utxo_inputs u))
      (nmap (utxo_input_constraints F D k r' z') (utxo_inputs u'))" if "same_cell r r'" "same_cell z z'" for k r z r' z'
    by (rule alike_map, rule list_all2_all_nthI)
      (use assms that in \<open>simp_all add: utxo_shape_def alike_utxo_input\<close>)
  have outs: "alike (list_all2 same_pair) (nmap (utxo_output_constraints F k) (utxo_outputs u))
      (nmap (utxo_output_constraints F k) (utxo_outputs u'))" for k
    by (rule alike_map) (use assms in \<open>simp add: utxo_shape_def list_all2_conv_all_nth alike_utxo_output\<close>)
  have roots: "alike (=) (nfor (\<lambda>root. constrain_instance root 0) cs) (nfor (\<lambda>root. constrain_instance root 0) ds)"
    if "same_cells cs ds" for cs ds :: "'a cell list"
    by (rule alike_for) (use that in \<open>auto simp: same_cells_iff elim!: list_all2_mono intro: alike_constrain\<close>)
  have first: "xs = [] \<longleftrightarrow> ys = []" "xs \<noteq> [] \<Longrightarrow> R (xs ! 0) (ys ! 0)" if "list_all2 R xs ys" for R xs ys
    using that by (auto simp: list_all2_conv_all_nth)
  show ?thesis unfolding utxo_synthesize_def utxo_enforce_constraints_def
    apply (intro alike_intros alike_bind [OF ins] alike_bind [OF outs], assumption+)
    subgoal premises p for root root' zero zero' kind kind' m m' b b' xs js os os'
    proof (cases "xs = [] \<or> os = []")
      case True
      then show ?thesis using first(1) [OF p(6)] first(1) [OF p(7)] by (auto simp del: nlift_run intro!: alike_panic)
    next
      case False
      then have ne: "\<not> (xs = [] \<or> os = [])" "\<not> (js = [] \<or> os' = [])"
        using first(1) [OF p(6)] first(1) [OF p(7)] by auto
      have h: "same_triple (xs ! 0) (js ! 0)" "same_pair (os ! 0) (os' ! 0)"
        using first(2) [OF p(6)] first(2) [OF p(7)] ne by auto
      have cells: "same_cells (map (snd \<circ> snd) xs) (map (snd \<circ> snd) js)" "same_cells (map snd os) (map snd os')"
        "same_cells (map fst xs) (map fst js)" "same_cells (map (fst \<circ> snd) xs) (map (fst \<circ> snd) js)"
        "same_cells (map fst os) (map fst os')"
        using p(6,7) by (auto simp: same_cells_iff list.rel_map simp del: map_map elim!: list_all2_mono)
      show ?thesis unfolding if_not_P [OF ne(1)] if_not_P [OF ne(2)]
        by (intro alike_intros alike_bind [OF alike_utxo_balance] alike_bind [OF roots] alike_constrain_instances)
          (use p h cells in simp_all)
    qed
    done
qed

end
