(* ===== verification/Insert_Circuit.thy ===== *)
theory Insert_Circuit
  imports Utxo_Circuit
begin

text \<open>
  The circuits that insert leaves into the tree (\<^verbatim>\<open>insert/insert.rs\<close>, \<^verbatim>\<open>insert/batch.rs\<close>, \<^verbatim>\<open>insert/circuit.rs\<close>): an
  insert proves the root before and after a leaf is put into an empty slot, a batch chains inserts.
\<close>

section \<open>Inserts\<close>

record Insert =
  insert_leaf :: element
  insert_path :: MerklePath

definition insert_new :: "element \<Rightarrow> MerklePath \<Rightarrow> Insert" where
  "insert_new leaf path = \<lparr>insert_leaf = leaf, insert_path = path\<rparr>"

definition padding_insert :: "'f::field Fr \<Rightarrow> nat \<Rightarrow> (unit, Insert) outcome" where
  "padding_insert F D =
     omap (insert_new (commitment F (padding_note F))) (merkle_path_default (\<lambda>a b. merge F [a, b]) D)"

definition insert_null_root :: "'f::field Fr \<Rightarrow> nat \<Rightarrow> Insert \<Rightarrow> 'f" where
  "insert_null_root F D i = base F (compute_null_root F D (insert_path i) (insert_leaf i))"

definition insert_leaf_root :: "'f::field Fr \<Rightarrow> nat \<Rightarrow> Insert \<Rightarrow> 'f" where
  "insert_leaf_root F D i = base F (compute_root F D (insert_path i) (insert_leaf i))"

definition insert_is_padding :: "'f::field Fr \<Rightarrow> Insert \<Rightarrow> bool" where
  "insert_is_padding F i \<longleftrightarrow> insert_leaf i = commitment F (padding_note F)"

definition insert_public_inputs :: "'f::field Fr \<Rightarrow> nat \<Rightarrow> Insert \<Rightarrow> 'f list" where
  "insert_public_inputs F D i = [base F (insert_leaf i), insert_null_root F D i, insert_leaf_root F D i]"

record 'f InsertConstraintCells =
  cell_new_leaf :: "'f cell"
  cell_old_root :: "'f cell"
  cell_new_root :: "'f cell"
  cell_insert_padding :: "'f cell"

definition insert_enforce_constraints ::
    "'f::field Fr \<Rightarrow> nat \<Rightarrow> 'f \<Rightarrow> Insert \<Rightarrow> ('f, 'f InsertConstraintCells) synth" where
  "insert_enforce_constraints F D k i =
     nbind (assign_private_input (base F (insert_leaf i))) (\<lambda>new_leaf.
     nbind (assign_constant 0) (\<lambda>null_leaf.
     nbind (copy_decompose F 1 new_leaf 256 256) (\<lambda>decomposed_bits.
     nbind (assign_constant (of_nat 0)) (\<lambda>zero.
     nbind (assign_constant (of_nat 1)) (\<lambda>one.
     nbind (is_less_than_assign (map (\<lambda>b. if b then one else zero) (to_be_bits MODULUS)) (rev decomposed_bits)) (\<lambda>_.
     nbind (nmap (\<lambda>w. assign_private_input (base F w)) (path_siblings (insert_path i))) (\<lambda>sibling_witnesses.
     nbind (merkle_root (poseidon_hash F) null_leaf (zip sibling_witnesses (take (D - 1) decomposed_bits))) (\<lambda>old_root.
     nbind (merkle_root (poseidon_hash F) new_leaf (zip sibling_witnesses (take (D - 1) decomposed_bits))) (\<lambda>new_root.
     nbind (is_constant_assign k new_leaf) (\<lambda>is_padding.
     nret \<lparr>cell_new_leaf = new_leaf, cell_old_root = old_root, cell_new_root = new_root,
           cell_insert_padding = is_padding\<rparr>))))))))))"

section \<open>Batches\<close>

text \<open>The body of the loop over the inserts, from the last new root.\<close>

fun batch_loop :: "'f::field Fr \<Rightarrow> nat \<Rightarrow> 'f \<Rightarrow> 'f cell \<Rightarrow> Insert list \<Rightarrow> ('f, 'f cell \<times> 'f cell list) synth" where
  "batch_loop F D k last_new_root [] = nret (last_new_root, [])"
| "batch_loop F D k last_new_root (i # rest) =
     nbind (insert_enforce_constraints F D k i) (\<lambda>cells.
     nbind (swap_assigned (cell_old_root cells) last_new_root (cell_insert_padding cells)) (\<lambda>(old_root, _).
     nbind (swap_assigned (cell_new_root cells) old_root (cell_insert_padding cells)) (\<lambda>(new_root, _).
     nbind (constrain_equal last_new_root old_root) (\<lambda>_.
     nbind (batch_loop F D k new_root rest) (\<lambda>(last, leafs).
     nret (last, cell_new_leaf cells # leafs))))))"

fun batch_old_root :: "'f::field Fr \<Rightarrow> nat \<Rightarrow> Insert list \<Rightarrow> (unit, 'f) outcome" where
  "batch_old_root F D [] = Panic"
| "batch_old_root F D (i # _) = Ok (insert_null_root F D i)"

definition batch_new_root :: "'f::field Fr \<Rightarrow> nat \<Rightarrow> Insert list \<Rightarrow> (unit, 'f) outcome" where
  "batch_new_root F D inserts =
     (case iter_find (\<lambda>i. \<not> insert_is_padding F i) (rev inserts) of
        Some i \<Rightarrow> Ok (insert_leaf_root F D i)
      | None \<Rightarrow> batch_old_root F D inserts)"

definition batch_leafs :: "'f::field Fr \<Rightarrow> Insert list \<Rightarrow> 'f list" where
  "batch_leafs F inserts = map (\<lambda>i. base F (insert_leaf i)) inserts"

definition batch_public_inputs :: "'f::field Fr \<Rightarrow> nat \<Rightarrow> Insert list \<Rightarrow> (unit, 'f list) outcome" where
  "batch_public_inputs F D inserts =
     obind (batch_old_root F D inserts) (\<lambda>old_root.
     obind (batch_new_root F D inserts) (\<lambda>new_root.
     Ok ([old_root, new_root] @ batch_leafs F inserts)))"

record 'f BatchConstraintCells =
  batch_cell_old :: "'f cell"
  batch_cell_new :: "'f cell"
  batch_cell_leafs :: "'f cell list"

definition batch_enforce_constraints ::
    "'f::field Fr \<Rightarrow> nat \<Rightarrow> 'f \<Rightarrow> Insert list \<Rightarrow> ('f, 'f BatchConstraintCells) synth" where
  "batch_enforce_constraints F D k inserts =
     nbind (nlift (batch_old_root F D inserts)) (\<lambda>v.
     nbind (assign_private_input v) (\<lambda>old_root.
     nbind (batch_loop F D k old_root inserts) (\<lambda>(new_root, leafs).
     nret \<lparr>batch_cell_old = old_root, batch_cell_new = new_root, batch_cell_leafs = leafs\<rparr>)))"

definition batch_enforce_instances :: "'f BatchConstraintCells \<Rightarrow> ('f, unit) synth" where
  "batch_enforce_instances cells =
     nbind (constrain_instance (batch_cell_old cells) 0) (\<lambda>_.
     nbind (constrain_instance (batch_cell_new cells) 1) (\<lambda>_.
     constrain_instances 2 (batch_cell_leafs cells)))"

definition batch_synthesize :: "'f::field Fr \<Rightarrow> nat \<Rightarrow> Insert list \<Rightarrow> ('f, unit) synth" where
  "batch_synthesize F D inserts =
     nbind (batch_enforce_constraints F D (base F (commitment F (padding_note F))) inserts) batch_enforce_instances"

section \<open>What an insert enforces\<close>

text \<open>
  The old root has zero and the new root the leaf in the slot of a canonical element, with the same siblings.
\<close>

definition inserts_leaf :: "('f::field list \<Rightarrow> 'f) \<Rightarrow> nat \<Rightarrow> element \<Rightarrow> 'f list \<Rightarrow> 'f \<Rightarrow> 'f \<Rightarrow> bool" where
  "inserts_leaf H D e sib old new \<longleftrightarrow> e < MODULUS \<and> length sib = D - 1
   \<and> old = path_root H 0 (zip (least_significant_bits D e) sib)
   \<and> new = path_root H (of_nat (unat e)) (zip (least_significant_bits D e) sib)"

lemma element_of_bits:
  assumes "length ws = 256"
  obtains e :: element where "ws = map (bit e) [0..<256]" "unat e = le_val ws"
proof -
  let ?e = "word_of_nat (le_val ws) :: element"
  have "le_val ws < 2 ^ 256" using horner_sum_of_bool_2_less [of ws, where 'a = nat] assms by simp
  then have e: "unat ?e = le_val ws" by (simp only: unat_of_nat mod_less len_num0 len_num1 len_bit0 len_bit1) simp
  then have "le_val (map (bit ?e) [0..<256]) = le_val ws" using le_val_bits [of ?e] by simp
  then have "map (bit ?e) [0..<256] = ws" by (subst (asm) le_val_inject) (simp_all add: assms)
  with e show ?thesis using that [of ?e] by simp
qed

lemma least_significant_bits_eq: "D \<le> 257 \<Longrightarrow> least_significant_bits D e = map (bit e) [0..<D - 1]"
  by (simp add: least_significant_bits_def lsb_bits_eq rev_map)

lemma to_be_bits_rev: "to_be_bits e = rev (map (bit e) [0..<256])"
  by (simp add: to_be_bits_def rev_map)

lemma enforces_insert:
  assumes "D \<le> 257" "length (path_siblings (insert_path i)) = D - 1"
    and "\<And>c e sib. inserts_leaf (poseidon_hash F) D e sib (\<sigma> (idx (cell_old_root c))) (\<sigma> (idx (cell_new_root c))) \<Longrightarrow>
      \<sigma> (idx (cell_new_leaf c)) = of_nat (unat e) \<Longrightarrow>
      \<sigma> (idx (cell_insert_padding c)) = (if \<sigma> (idx (cell_new_leaf c)) = 0 then 1 else 0) \<Longrightarrow> Q c"
  shows "enforces (poseidon_hash F) I \<sigma> (insert_enforce_constraints F D 0 i) Q"
  unfolding insert_enforce_constraints_def
  apply (rule enforces_bind, rule enforces_private)
  apply (rule enforces_bind, rule enforces_assign_constant)
  apply (rule enforces_bind, rule enforces_copy_bits)
  apply (rule enforces_bind, rule enforces_assign_constant)
  apply (rule enforces_bind, rule enforces_assign_constant)
  subgoal premises p for leaf null bs ws zero one
  proof -
    obtain e :: element where e: "ws = map (bit e) [0..<256]" "unat e = le_val ws" using element_of_bits [OF p(3)] .
    have ms: "bits_in \<sigma> (map (\<lambda>b. if b then one else zero) (to_be_bits MODULUS)) (to_be_bits MODULUS)"
      using p(6,7) by simp
    have rb: "bits_in \<sigma> (rev bs) (rev ws)" using p(4) by (simp add: rev_map [symmetric])
    have tb: "bits_in \<sigma> (take (D - 1) bs) (least_significant_bits D e)"
      using p(4) assms(1) unfolding least_significant_bits_eq [OF assms(1)] e(1) take_map [symmetric] p(4)
      by (simp add: take_map)
    show ?thesis
      apply (rule enforces_bind, rule enforces_is_less_than [OF ms rb])
      apply (rule enforces_bind, rule enforces_map [where P = "\<lambda>_ _. True"])
       apply (rule enforces_private, simp)
      subgoal premises q for sib
      proof -
        have l: "length sib = D - 1" using q(2) assms(2) by (auto dest: list_all2_lengthD)
        have lw: "length (least_significant_bits D e) = D - 1" "length (take (D - 1) bs) = D - 1"
          using assms(1) p(2) by (auto simp: least_significant_bits_eq)
        have "le_val ws < unat MODULUS"
          using q(1) le_val_bits [of MODULUS] by (simp add: bits_less_le_val p(3) to_be_bits_rev)
        then have lt: "e < MODULUS" by (simp add: word_less_nat_alt e(2))
        show ?thesis
          apply (rule enforces_bind, rule enforces_merkle_root [OF _ _ tb], simp only: l lw, simp only: lw)
          apply (rule enforces_bind, rule enforces_merkle_root [OF _ _ tb], simp only: l lw, simp only: lw)
          apply (rule enforces_bind, rule enforces_is_constant)
          apply (rule enforces_ret, rule assms(3) [of e "map (\<lambda>c. \<sigma> (idx c)) sib"])
            apply (use lt l p(1,5) e(2) in \<open>simp_all add: inserts_leaf_def\<close>)
          done
      qed
      done
  qed
  done

section \<open>What a batch enforces\<close>

text \<open>Leaves that are zero are padding and leave the root as it is.\<close>

fun chained :: "('f::field list \<Rightarrow> 'f) \<Rightarrow> nat \<Rightarrow> 'f \<Rightarrow> (element \<times> 'f list) list \<Rightarrow> 'f \<Rightarrow> bool" where
  "chained H D r [] r' \<longleftrightarrow> r = r'"
| "chained H D r ((e, sib) # steps) r' \<longleftrightarrow>
     (if of_nat (unat e) = (0 :: 'f) then chained H D r steps r'
      else \<exists>new. inserts_leaf H D e sib r new \<and> chained H D new steps r')"

definition batch_statement :: "('f::field list \<Rightarrow> 'f) \<Rightarrow> nat \<Rightarrow> 'f \<Rightarrow> 'f list \<Rightarrow> 'f \<Rightarrow> bool" where
  "batch_statement H D old leafs new \<longleftrightarrow>
     (\<exists>steps. leafs = map (\<lambda>(e, _). of_nat (unat e)) steps \<and> (\<forall>(e, _) \<in> set steps. e < MODULUS) \<and> chained H D old steps new)"

lemma enforces_batch_loop:
  assumes "D \<le> 257"
  shows "\<forall>i \<in> set is. length (path_siblings (insert_path i)) = D - 1 \<Longrightarrow>
    (\<And>r leafs. length leafs = length is \<Longrightarrow>
      batch_statement (poseidon_hash F) D (\<sigma> (idx prev)) (map (\<lambda>c. \<sigma> (idx c)) leafs) (\<sigma> (idx r)) \<Longrightarrow> Q (r, leafs)) \<Longrightarrow>
    enforces (poseidon_hash F) I \<sigma> (batch_loop F D 0 prev is) Q"
proof (induction "is" arbitrary: prev Q)
  case Nil
  have "Q (prev, [])" by (rule Nil.prems(2)) (auto simp: batch_statement_def)
  then show ?case unfolding batch_loop.simps by (rule enforces_ret)
next
  case (Cons i is')
  show ?case unfolding batch_loop.simps
    apply (rule enforces_bind, rule enforces_insert [OF assms])
     apply (use Cons.prems(1) in simp)
    apply (rule enforces_choose)+
    apply (rule enforces_bind, rule enforces_constrain, rule enforces_bind)
    apply (rule Cons.IH)
     apply (use Cons.prems(1) in simp)
    subgoal premises p for c e sib old new r leafs
    proof -
      from p(10) obtain steps where steps: "map (\<lambda>c. \<sigma> (idx c)) leafs = map (\<lambda>(e, _). of_nat (unat e)) steps"
        "\<forall>(e, _) \<in> set steps. e < MODULUS" "chained (poseidon_hash F) D (\<sigma> (idx new)) steps (\<sigma> (idx r))"
        by (auto simp: batch_statement_def)
      have "batch_statement (poseidon_hash F) D (\<sigma> (idx prev)) (map (\<lambda>c. \<sigma> (idx c)) (cell_new_leaf c # leafs)) (\<sigma> (idx r))"
        unfolding batch_statement_def
        by (rule exI [of _ "(e, sib) # steps"])
          (use p(1-3,5,7,8) steps in \<open>auto simp: inserts_leaf_def split: if_splits\<close>)
      then have "Q (r, cell_new_leaf c # leafs)" by (intro Cons.prems(2)) (simp_all add: p(9))
      then show ?thesis by (simp only: prod.case) (rule enforces_ret)
    qed
    done
qed

lemma enforces_batch_cells:
  assumes "D \<le> 257" "\<forall>i \<in> set is. length (path_siblings (insert_path i)) = D - 1"
    and "\<And>c. length (batch_cell_leafs c) = length is \<Longrightarrow> batch_statement (poseidon_hash F) D (\<sigma> (idx (batch_cell_old c)))
      (map (\<lambda>c. \<sigma> (idx c)) (batch_cell_leafs c)) (\<sigma> (idx (batch_cell_new c))) \<Longrightarrow> Q c"
  shows "enforces (poseidon_hash F) I \<sigma> (batch_enforce_constraints F D 0 is) Q"
proof -
  have lift: "enforces (poseidon_hash F) I \<sigma> (nlift r) (\<lambda>_. True)" for r :: "(unit, 'a) outcome"
    by (auto simp: enforces_def)
  show ?thesis
    unfolding batch_enforce_constraints_def
    apply (rule enforces_bind, rule enforces_conseq [OF lift])
    apply (rule enforces_bind, rule enforces_private)
    apply (rule enforces_bind, rule enforces_batch_loop [OF assms(1,2)], simp only: prod.case)
    apply (rule enforces_ret, rule assms(3))
     apply simp_all
    done
qed

lemma enforces_batch:
  assumes "fr_ok F" "D \<le> 257" "\<forall>i \<in> set is. length (path_siblings (insert_path i)) = D - 1"
  shows "enforces (poseidon_hash F) I \<sigma> (batch_synthesize F D is) (\<lambda>_. batch_statement (poseidon_hash F) D
    (instance_at I 0) (map (\<lambda>j. instance_at I (2 + j)) [0..<length is]) (instance_at I 1))"
proof -
  have k: "base F (commitment F (padding_note F)) = 0" by (simp add: base_consts [OF assms(1)])
  show ?thesis
    unfolding batch_synthesize_def k
    apply (rule enforces_bind, rule enforces_batch_cells [OF assms(2,3)])
    unfolding batch_enforce_instances_def
    apply (intro enforces_bind enforces_constrain enforces_constrain_instances)
    subgoal premises p for c
    proof -
      have "map (\<lambda>c. \<sigma> (idx c)) (batch_cell_leafs c) = map (\<lambda>j. instance_at I (2 + j)) [0..<length is]"
        by (rule nth_equalityI) (use p in \<open>simp_all add: add.commute\<close>)
      with p show ?thesis by simp
    qed
    done
qed

section \<open>An honest batch meets the constraints\<close>

lemma extending_insert [extending_intros]: "extending (insert_enforce_constraints F D k i)"
  unfolding insert_enforce_constraints_def by (intro extending_intros)

lemma extending_batch_loop [extending_intros]: "extending (batch_loop F D k prev is)"
  by (induction "is" arbitrary: prev) (auto simp del: nlift_run intro!: extending_intros)

lemma extending_batch [extending_intros]: "extending (batch_enforce_constraints F D k is)"
  unfolding batch_enforce_constraints_def by (intro extending_intros)

lemma extending_batch_instances [extending_intros]: "extending (batch_enforce_instances cells)"
  unfolding batch_enforce_instances_def by (intro extending_intros)

definition insert_ok :: "'f::field Fr \<Rightarrow> nat \<Rightarrow> Insert \<Rightarrow> bool" where
  "insert_ok F D i \<longleftrightarrow> represented F (insert_leaf i) \<and> length (path_siblings (insert_path i)) = D - 1"

lemma assigned_values:
  "list_all2 (\<lambda>w c. P c \<and> f c = g w) ws cs \<Longrightarrow> (\<forall>c \<in> set cs. P c) \<and> map f cs = map g ws"
  by (induction rule: list_all2_induct) auto

lemma accepts_insert:
  assumes F: "fr_ok F" and D: "D \<le> 257" and i: "insert_ok F D i"
    and Q: "\<And>c. good \<sigma> (cell_new_leaf c) \<Longrightarrow> good \<sigma> (cell_old_root c) \<Longrightarrow> good \<sigma> (cell_new_root c) \<Longrightarrow>
      good \<sigma> (cell_insert_padding c) \<Longrightarrow> val (cell_new_leaf c) = base F (insert_leaf i) \<Longrightarrow>
      val (cell_old_root c) = insert_null_root F D i \<Longrightarrow> val (cell_new_root c) = insert_leaf_root F D i \<Longrightarrow>
      val (cell_insert_padding c) = (if base F (insert_leaf i) = 0 then 1 else 0) \<Longrightarrow> Q c"
  shows "accepts (poseidon_hash F) I \<sigma> (insert_enforce_constraints F D 0 i) Q"
proof -
  let ?e = "insert_leaf i"
  let ?sib = "map (base F) (path_siblings (insert_path i))"
  let ?P = "\<lambda>w c. good \<sigma> c \<and> val c = base F w"
  have bits: "to_le_bits F (base F ?e) = map (bit ?e) [0..<256]"
    using i to_le_bits_eq [OF fr_okD(1) [OF F], of "base F ?e"] by (simp add: insert_ok_def represented_def)
  have lt: "?e < MODULUS" using i fr_okD(3) [OF F, of "base F ?e"] by (simp add: insert_ok_def represented_def)
  have less: "bits_less (rev (map (bit ?e) [0..<256])) (to_be_bits MODULUS)"
    using lt le_val_bits [of ?e] le_val_bits [of MODULUS]
    by (simp add: bits_less_le_val to_be_bits_rev word_less_nat_alt)
  have lw: "length (least_significant_bits D ?e) = D - 1" using D by (simp add: least_significant_bits_eq)
  have roots: "insert_null_root F D i = path_root (poseidon_hash F) 0 (zip (least_significant_bits D ?e) ?sib)"
    "insert_leaf_root F D i = path_root (poseidon_hash F) (base F ?e) (zip (least_significant_bits D ?e) ?sib)"
    by (simp_all add: insert_null_root_def insert_leaf_root_def compute_null_root_def compute_root_def
        compute_root_from_leaf_def path_along_def fr_okD(5) [OF F] base_consts [OF F])
  show ?thesis unfolding insert_enforce_constraints_def
    apply (rule accepts_bind, rule accepts_private)
     apply (rule accepts_bind, rule accepts_assign_constant)
      apply (rule accepts_bind, rule accepts_copy_decompose [OF F], assumption)
       apply (rule accepts_bind, rule accepts_assign_constant)
        apply (rule accepts_bind, rule accepts_assign_constant)
         apply (rule accepts_bind)
    subgoal premises p for leaf null bs zero one
    proof (rule accepts_is_less_than [OF _ _ _ less])
      show "good_bits \<sigma> (map (\<lambda>b. if b then one else zero) (to_be_bits MODULUS)) (to_be_bits MODULUS)"
        using p(6-9) by auto
      show "good_bits \<sigma> (rev bs) (rev (map (bit ?e) [0..<256]))" using p(2,5) bits by (simp add: rev_map [symmetric])
      have pb: "good_bits \<sigma> (take (D - 1) bs) (least_significant_bits D ?e)"
        using p(2,5) bits D by (auto simp: least_significant_bits_eq take_map [symmetric] dest: in_set_takeD) (simp add: take_map)
      then have lb: "length (take (D - 1) bs) = D - 1" by (metis length_map lw)
      show "accepts (poseidon_hash F) I \<sigma>
          (nbind (nmap (\<lambda>w. assign_private_input (base F w)) (path_siblings (insert_path i))) (\<lambda>sibling_witnesses.
           nbind (merkle_root (poseidon_hash F) null (zip sibling_witnesses (take (D - 1) bs))) (\<lambda>old_root.
           nbind (merkle_root (poseidon_hash F) leaf (zip sibling_witnesses (take (D - 1) bs))) (\<lambda>new_root.
           nbind (is_constant_assign 0 leaf) (\<lambda>is_padding.
           nret \<lparr>cell_new_leaf = leaf, cell_old_root = old_root, cell_new_root = new_root,
             cell_insert_padding = is_padding\<rparr>))))) Q"
        apply (rule accepts_bind, rule accepts_map [where P = ?P])
           apply (rule accepts_private, simp)
          apply (intro extending_intros)
        subgoal premises q for sib
        proof -
          have l: "length sib = D - 1" using list_all2_lengthD [OF q] i by (simp add: insert_ok_def)
          have v: "map val sib = ?sib" "\<forall>c \<in> set sib. good \<sigma> c" using assigned_values [OF q] by simp_all
          show ?thesis
            apply (rule accepts_bind, rule accepts_merkle_root [OF _ _ pb v(2)], simp only: l lw, simp only: lb lw, rule p(3))
             apply (rule accepts_bind, rule accepts_merkle_root [OF _ _ pb v(2)], simp only: l lw, simp only: lb lw, rule p(1))
              apply (rule accepts_bind, rule accepts_is_constant, rule p(1))
               apply (rule accepts_ret, rule Q)
                      apply (use p(1,2,4) in \<open>simp_all add: roots v(1)\<close>)
             apply (intro extending_intros)+
            done
        qed
        apply (intro extending_intros)
        done
    qed (simp add: to_be_bits_rev)
         apply (intro extending_intros)+
    done
qed

text \<open>
  A batch that can be proved: every insert that is no padding starts from the root that the inserts before it produce.
\<close>

fun batch_links :: "'f::field Fr \<Rightarrow> nat \<Rightarrow> 'f \<Rightarrow> Insert list \<Rightarrow> bool" where
  "batch_links F D r [] \<longleftrightarrow> True"
| "batch_links F D r (i # rest) \<longleftrightarrow> insert_ok F D i
   \<and> (if insert_is_padding F i then batch_links F D r rest
      else insert_null_root F D i = r \<and> batch_links F D (insert_leaf_root F D i) rest)"

fun last_root :: "'f::field Fr \<Rightarrow> nat \<Rightarrow> 'f \<Rightarrow> Insert list \<Rightarrow> 'f" where
  "last_root F D r [] = r"
| "last_root F D r (i # rest) = last_root F D (if insert_is_padding F i then r else insert_leaf_root F D i) rest"

lemma accepts_batch_loop:
  assumes F: "fr_ok F" and D: "D \<le> 257"
  shows "batch_links F D (val prev) is \<Longrightarrow> good \<sigma> prev \<Longrightarrow>
    (\<And>r leafs. good \<sigma> r \<Longrightarrow> \<forall>c \<in> set leafs. good \<sigma> c \<Longrightarrow> val r = last_root F D (val prev) is \<Longrightarrow>
      map val leafs = batch_leafs F is \<Longrightarrow> Q (r, leafs)) \<Longrightarrow>
    accepts (poseidon_hash F) I \<sigma> (batch_loop F D 0 prev is) Q"
proof (induction "is" arbitrary: prev Q)
  case Nil
  have "Q (prev, [])" by (rule Nil.prems(3)) (simp_all add: Nil.prems batch_leafs_def)
  then show ?case unfolding batch_loop.simps by (rule accepts_ret)
next
  case (Cons i is')
  have i: "insert_ok F D i" using Cons.prems(1) by simp
  then have pad: "base F (insert_leaf i) = 0 \<longleftrightarrow> insert_is_padding F i"
    by (simp add: insert_is_padding_def insert_ok_def represented_zero [OF F])
  show ?case unfolding batch_loop.simps
    apply (rule accepts_bind, rule accepts_insert [OF F D i])
     apply (rule accepts_choose, assumption, rule Cons.prems(2), assumption, simp, intro extending_intros)
     apply (rule accepts_choose, assumption, assumption, assumption, simp, intro extending_intros)
     apply (rule accepts_bind, rule accepts_constrain)
    subgoal premises p for c old new
      using p(6,8-10) Cons.prems(1,2) pad by (simp split: if_splits)
        apply (rule accepts_bind, rule Cons.IH)
    subgoal premises p for c old new
      using p(6-8,10,12) Cons.prems(1) pad by (simp split: if_splits)
          apply assumption
    subgoal premises p for c old new r leafs
    proof -
      have "val r = last_root F D (val prev) (i # is')"
        using p(6-8,10,12,15) Cons.prems(1) pad by (simp split: if_splits)
      then have "Q (r, cell_new_leaf c # leafs)"
        by (intro Cons.prems(3)) (use p(1,5,13,14,16) in \<open>simp_all add: batch_leafs_def\<close>)
      then show ?thesis by (simp only: prod.case) (rule accepts_ret)
    qed
         apply (intro extending_intros)+
    done
qed

lemma last_root_find:
  "last_root F D r is = (case iter_find (\<lambda>i. \<not> insert_is_padding F i) (rev is) of
     Some i \<Rightarrow> insert_leaf_root F D i | None \<Rightarrow> r)"
proof (induction "is" rule: rev_induct)
  case (snoc i js)
  have "last_root F D r (js @ [i]) = (if insert_is_padding F i then last_root F D r js else insert_leaf_root F D i)"
    by (induction js arbitrary: r) simp_all
  with snoc show ?case by (simp add: iter_find_def)
qed (simp add: iter_find_def)

lemma accepts_batch_cells:
  assumes F: "fr_ok F" and D: "D \<le> 257" and old: "batch_old_root F D is = Ok r" and "batch_links F D r is"
    and Q: "\<And>c. good \<sigma> (batch_cell_old c) \<Longrightarrow> val (batch_cell_old c) = r \<Longrightarrow> good \<sigma> (batch_cell_new c) \<Longrightarrow>
      val (batch_cell_new c) = last_root F D r is \<Longrightarrow> \<forall>c \<in> set (batch_cell_leafs c). good \<sigma> c \<Longrightarrow>
      map val (batch_cell_leafs c) = batch_leafs F is \<Longrightarrow> Q c"
  shows "accepts (poseidon_hash F) I \<sigma> (batch_enforce_constraints F D 0 is) Q"
  unfolding batch_enforce_constraints_def old
  apply (rule accepts_bind, rule accepts_ret)
   apply (rule accepts_bind, rule accepts_private)
    apply (rule accepts_bind, rule accepts_batch_loop [OF F D])
  subgoal using assms(4) by simp
      apply assumption
     apply (simp only: prod.case)
     apply (rule accepts_ret, rule Q)
          apply simp_all
    apply (intro extending_intros)+
  done

lemma batch_new_root_last: "batch_old_root F D is = Ok r \<Longrightarrow> batch_new_root F D is = Ok (last_root F D r is)"
  by (simp add: batch_new_root_def last_root_find split: option.splits)

lemma accepts_batch:
  assumes F: "fr_ok F" and D: "D \<le> 257" and old: "batch_old_root F D is = Ok r" and "batch_links F D r is"
    and pub: "batch_public_inputs F D is = Ok I"
  shows "accepts (poseidon_hash F) I \<sigma> (batch_synthesize F D is) (\<lambda>_. True)"
proof -
  have k: "base F (commitment F (padding_note F)) = 0" by (simp add: base_consts [OF F])
  have I: "I = [r, last_root F D r is] @ batch_leafs F is"
    using pub by (simp add: batch_public_inputs_def old batch_new_root_last)
  show ?thesis
    unfolding batch_synthesize_def batch_enforce_instances_def k
    apply (rule accepts_bind, rule accepts_batch_cells [OF F D old assms(4)])
     apply (rule accepts_bind, rule accepts_constrain)
       apply (simp add: I instance_at_def)
      apply (rule accepts_bind, rule accepts_constrain)
        apply (simp add: I instance_at_def)
       apply (rule accepts_constrain_instances)
    subgoal by simp
    subgoal premises p for c i
    proof -
      have "length (batch_cell_leafs c) = length (batch_leafs F is)" by (simp flip: p(6))
      moreover have "val (batch_cell_leafs c ! i) = batch_leafs F is ! i" using p(7) by (simp flip: p(6))
      ultimately show ?thesis using p(7) by (simp add: I instance_at_def)
    qed
       apply simp
      apply (intro extending_intros)+
    done
qed

section \<open>The constraints do not depend on the inserts\<close>

definition same_insert :: "'f InsertConstraintCells \<Rightarrow> 'f InsertConstraintCells \<Rightarrow> bool" where
  "same_insert c d \<longleftrightarrow> same_cell (cell_new_leaf c) (cell_new_leaf d) \<and> same_cell (cell_old_root c) (cell_old_root d)
   \<and> same_cell (cell_new_root c) (cell_new_root d) \<and> same_cell (cell_insert_padding c) (cell_insert_padding d)"

lemma alike_insert:
  assumes "length (path_siblings (insert_path i)) = length (path_siblings (insert_path j))"
  shows "alike same_insert (insert_enforce_constraints F D k i) (insert_enforce_constraints F D k j)"
proof -
  have sib: "alike same_cells (nmap (\<lambda>w. assign_private_input (base F w)) xs) (nmap (\<lambda>w. assign_private_input (base F w)) ys)"
    if "length xs = length ys" for xs ys
    unfolding same_cells_iff [abs_def]
    by (rule alike_map, rule list_all2_all_nthI) (simp_all add: that alike_private)
  have pairs: "length (zip as (take n bs)) = length (zip as' (take n bs'))"
      "same_cells (map fst (zip as (take n bs))) (map fst (zip as' (take n bs')))"
      "same_cells (map snd (zip as (take n bs))) (map snd (zip as' (take n bs')))"
    if "same_cells as as'" "same_cells bs bs'" for n and as as' bs bs' :: "'a cell list"
  proof -
    have l: "length as = length as'" "length bs = length bs'" using that map_eq_imp_length_eq by blast+
    show "length (zip as (take n bs)) = length (zip as' (take n bs'))" by (simp add: l)
    show "same_cells (map fst (zip as (take n bs))) (map fst (zip as' (take n bs')))"
      using that l by (simp add: map_fst_zip_take take_map [symmetric])
    show "same_cells (map snd (zip as (take n bs))) (map snd (zip as' (take n bs')))"
      using that l by (simp add: map_snd_zip_take take_map [symmetric])
  qed
  show ?thesis unfolding insert_enforce_constraints_def
    by (intro alike_intros alike_bind [OF sib] pairs)
      (use assms in \<open>simp_all add: same_insert_def rev_map [symmetric]\<close>)
qed

lemma alike_batch_loop:
  "list_all2 (\<lambda>i j. length (path_siblings (insert_path i)) = length (path_siblings (insert_path j))) xs ys \<Longrightarrow>
    same_cell c d \<Longrightarrow> alike (\<lambda>p q. same_cell (fst p) (fst q) \<and> same_cells (snd p) (snd q)) (batch_loop F D k c xs) (batch_loop F D k d ys)"
proof (induction arbitrary: c d rule: list_all2_induct)
  case Nil
  then show ?case by (simp add: alike_ret del: nlift_run)
next
  case (Cons x xs y ys)
  show ?case unfolding batch_loop.simps
    by (intro alike_intros alike_bind [OF alike_insert] alike_bind [OF Cons.IH])
      (use Cons in \<open>auto simp: same_insert_def\<close>)
qed

lemma alike_batch:
  assumes "list_all2 (\<lambda>i j. length (path_siblings (insert_path i)) = length (path_siblings (insert_path j))) xs ys"
  shows "alike (=) (batch_synthesize F D xs) (batch_synthesize F D ys)"
proof -
  have old: "like_outcome (\<lambda>_ _. True) (batch_old_root F D xs) (batch_old_root F D ys)"
    using assms by (cases xs; cases ys) auto
  have cells: "alike (\<lambda>c d. same_cell (batch_cell_old c) (batch_cell_old d) \<and> same_cell (batch_cell_new c) (batch_cell_new d)
      \<and> same_cells (batch_cell_leafs c) (batch_cell_leafs d)) (batch_enforce_constraints F D k xs) (batch_enforce_constraints F D k ys)" for k
    unfolding batch_enforce_constraints_def
    by (intro alike_intros alike_bind [OF alike_lift [OF old]] alike_bind [OF alike_batch_loop]) (use assms in auto)
  show ?thesis unfolding batch_synthesize_def batch_enforce_instances_def
    by (intro alike_intros alike_bind [OF cells] alike_constrain_instances) auto
qed

end
