(* ===== verification/Note_Circuits.thy ===== *)
theory Note_Circuits
  imports Insert_Circuit
begin

text \<open>
  The circuits over notes alone: \<^verbatim>\<open>mint/mint.rs\<close>, \<^verbatim>\<open>burn/burn.rs\<close>, \<^verbatim>\<open>burn_to/burn.rs\<close>, \<^verbatim>\<open>points/points.rs\<close>,
  \<^verbatim>\<open>signature/signature.rs\<close> and \<^verbatim>\<open>compliance/compliance.rs\<close>, with their public inputs.
\<close>

section \<open>Minting\<close>

definition mint_note_constraints :: "'f::field Fr \<Rightarrow> 'f \<Rightarrow> nat \<times> Note \<Rightarrow> ('f, unit) synth" where
  "mint_note_constraints F k = (\<lambda>(i, note).
     nbind (note_enforce_constraints F k note) (\<lambda>cells.
     nbind (constrain_instance (cell_cm cells) (i * 3)) (\<lambda>_.
     nbind (constrain_instance (cell_value cells) (i * 3 + 1)) (\<lambda>_.
     constrain_instance (cell_source cells) (i * 3 + 2)))))"

definition mint_synthesize :: "'f::field Fr \<Rightarrow> Note list \<Rightarrow> ('f, unit) synth" where
  "mint_synthesize F notes = nfor (mint_note_constraints F 0) (enumerate 0 notes)"

definition mint_public_inputs :: "'f::field Fr \<Rightarrow> Note list \<Rightarrow> 'f list" where
  "mint_public_inputs F notes =
     concat (map (\<lambda>note. [base F (commitment F note), base F (note_value note), base F (note_source note)]) notes)"

section \<open>Burning\<close>

record Burn =
  burn_secret_key :: element
  burn_notes :: "Note list"
  burn_to_address :: element

definition burn_note_constraints ::
    "'f::field Fr \<Rightarrow> 'f \<Rightarrow> 'f cell \<Rightarrow> 'f cell \<Rightarrow> 'f cell \<Rightarrow> nat \<times> Note \<Rightarrow> ('f, unit) synth" where
  "burn_note_constraints F k to_address zero secret_key = (\<lambda>(i, note).
     nbind (note_enforce_constraints F k note) (\<lambda>cells.
     nbind (poseidon_hash_gadget (poseidon_hash F) [cell_cm cells, secret_key, cell_psi cells, zero]) (\<lambda>nul.
     nbind (constrain_instance nul (i * 4 + 1)) (\<lambda>_.
     nbind (constrain_instance (cell_value cells) (i * 4 + 2)) (\<lambda>_.
     nbind (constrain_instance (cell_source cells) (i * 4 + 3)) (\<lambda>_.
     nbind (poseidon_hash_gadget (poseidon_hash F) [nul, secret_key, to_address, zero]) (\<lambda>sig.
     constrain_instance sig (i * 4 + 4))))))))"

definition burn_synthesize :: "'f::field Fr \<Rightarrow> Burn \<Rightarrow> ('f, unit) synth" where
  "burn_synthesize F b =
     nbind (assign_private_input (base F (burn_to_address b))) (\<lambda>to_address.
     nbind (assign_constant 0) (\<lambda>zero.
     nbind (constrain_instance to_address 0) (\<lambda>_.
     nbind (assign_private_input (base F (burn_secret_key b))) (\<lambda>secret_key.
     nfor (burn_note_constraints F 0 to_address zero secret_key) (enumerate 0 (burn_notes b))))))"

definition burn_signature :: "'f::field Fr \<Rightarrow> Burn \<Rightarrow> Note \<Rightarrow> element" where
  "burn_signature F b note =
     merge F [nullifier F note (burn_secret_key b), burn_secret_key b, burn_to_address b, ZERO]"

definition burn_public_inputs :: "'f::field Fr \<Rightarrow> Burn \<Rightarrow> 'f list" where
  "burn_public_inputs F b =
     base F (burn_to_address b) # concat (map (\<lambda>note.
       [base F (nullifier F note (burn_secret_key b)), base F (note_value note), base F (note_source note),
        base F (burn_signature F b note)]) (burn_notes b))"

section \<open>Burning to another chain\<close>

record BurnTo = Burn +
  burn_kind :: element

definition burn_to_note_constraints ::
    "'f::field Fr \<Rightarrow> 'f \<Rightarrow> 'f cell \<Rightarrow> 'f cell \<Rightarrow> 'f cell \<Rightarrow> 'f cell \<Rightarrow> nat \<times> Note \<Rightarrow> ('f, unit) synth" where
  "burn_to_note_constraints F k kind to_address zero secret_key = (\<lambda>(i, note).
     nbind (note_enforce_constraints F k note) (\<lambda>cells.
     nbind (poseidon_hash_gadget (poseidon_hash F) [cell_cm cells, secret_key, cell_psi cells, zero]) (\<lambda>nul.
     nbind (constrain_instance nul (i * 4 + 2)) (\<lambda>_.
     nbind (constrain_instance (cell_value cells) (i * 4 + 2 + 1)) (\<lambda>_.
     nbind (constrain_instance (cell_source cells) (i * 4 + 2 + 2)) (\<lambda>_.
     nbind (poseidon_hash_gadget (poseidon_hash F) [nul, secret_key, to_address, kind]) (\<lambda>sig.
     constrain_instance sig (i * 4 + 5))))))))"

definition burn_to_synthesize :: "'f::field Fr \<Rightarrow> BurnTo \<Rightarrow> ('f, unit) synth" where
  "burn_to_synthesize F b =
     nbind (assign_private_input (base F (burn_kind b))) (\<lambda>kind.
     nbind (assign_private_input (base F (burn_to_address b))) (\<lambda>to_address.
     nbind (assign_constant 0) (\<lambda>zero.
     nbind (constrain_instance kind 0) (\<lambda>_.
     nbind (constrain_instance to_address 1) (\<lambda>_.
     nbind (assign_private_input (base F (burn_secret_key b))) (\<lambda>secret_key.
     nfor (burn_to_note_constraints F 0 kind to_address zero secret_key) (enumerate 0 (burn_notes b))))))))"

definition burn_to_signature :: "'f::field Fr \<Rightarrow> BurnTo \<Rightarrow> Note \<Rightarrow> element" where
  "burn_to_signature F b note =
     merge F [nullifier F note (burn_secret_key b), burn_secret_key b, burn_to_address b, burn_kind b]"

definition burn_to_public_inputs :: "'f::field Fr \<Rightarrow> BurnTo \<Rightarrow> 'f list" where
  "burn_to_public_inputs F b =
     base F (burn_kind b) # base F (burn_to_address b) # concat (map (\<lambda>note.
       [base F (nullifier F note (burn_secret_key b)), base F (note_value note), base F (note_source note),
        base F (burn_to_signature F b note)]) (burn_notes b))"

section \<open>Points\<close>

record Points =
  points_secret_key :: element
  points_notes :: "Note list"

definition NUM_NOTES :: nat where "NUM_NOTES = 112"

definition points_new :: "element \<Rightarrow> Note list \<Rightarrow> (unit, Points) outcome" where
  "points_new secret_key notes =
     (if length notes = NUM_NOTES then Ok \<lparr>points_secret_key = secret_key, points_notes = notes\<rparr> else Panic)"

definition points_address :: "'f::field Fr \<Rightarrow> Points \<Rightarrow> 'f" where
  "points_address F p = base F (merge F [points_secret_key p, ZERO])"

text \<open>The sum of elements is a 256-bit sum; the circuit adds in the field.\<close>

definition points_total_value :: "Points \<Rightarrow> element" where
  "points_total_value p = fold (\<lambda>n a. a + note_value n) (points_notes p) ZERO"

definition points_public_inputs :: "'f::field Fr \<Rightarrow> Points \<Rightarrow> 'f list" where
  "points_public_inputs F p =
     [points_address F p, base F (points_total_value p)]
     @ concat (map (\<lambda>n. [base F (commitment F n), base F (nullifier F n (points_secret_key p))]) (points_notes p))"

definition points_note_constraints :: "'f::field Fr \<Rightarrow> 'f \<Rightarrow> 'f cell \<Rightarrow> Note \<Rightarrow> ('f, 'f cell) synth" where
  "points_note_constraints F k unverified_address note =
     nbind (note_enforce_constraints F k note) (\<lambda>cells.
     nbind (swap_assigned (cell_address cells) unverified_address (cell_is_padding cells)) (\<lambda>(address, _).
     nbind (constrain_instance address 0) (\<lambda>_.
     nret (cell_value cells))))"

definition points_synthesize :: "'f::field Fr \<Rightarrow> Points \<Rightarrow> ('f, unit) synth" where
  "points_synthesize F p =
     nbind (assign_private_input (points_address F p)) (\<lambda>unverified_address.
     nbind (nmap (points_note_constraints F (base F (commitment F (padding_note F))) unverified_address) (points_notes p)) (\<lambda>values.
     nbind (add_assign values) (\<lambda>total.
     constrain_instance total 1)))"

section \<open>Signatures\<close>

record Signature =
  sig_secret_key :: element
  sig_message :: element

definition signature_synthesize :: "'f::field Fr \<Rightarrow> Signature \<Rightarrow> ('f, unit) synth" where
  "signature_synthesize F s =
     nbind (assign_private_input (base F (sig_message s))) (\<lambda>message.
     nbind (assign_private_input (base F (sig_secret_key s))) (\<lambda>secret_key.
     nbind (assign_constant 0) (\<lambda>padding.
     nbind (poseidon_hash_gadget (poseidon_hash F) [secret_key, padding]) (\<lambda>address.
     nbind (constrain_instance address 0) (\<lambda>_.
     constrain_instance message 1)))))"

definition signature_address :: "'f::field Fr \<Rightarrow> Signature \<Rightarrow> 'f" where
  "signature_address F s = poseidon_hash F [base F (sig_secret_key s), 0]"

definition signature_public_inputs :: "'f::field Fr \<Rightarrow> Signature \<Rightarrow> 'f list" where
  "signature_public_inputs F s = [signature_address F s, base F (sig_message s)]"

section \<open>Compliance\<close>

record Compliance =
  compliance_note :: Note
  compliance_path :: MerklePath

definition compliance_synthesize :: "'f::field Fr \<Rightarrow> nat \<Rightarrow> Compliance \<Rightarrow> ('f, unit) synth" where
  "compliance_synthesize F D c =
     nbind (note_enforce_constraints F 0 (compliance_note c)) (\<lambda>cells.
     nbind (assign_constant 0) (\<lambda>null_leaf.
     nbind (enforce_inclusion_constraints F D (compliance_path c) (base F (note_source (compliance_note c))) null_leaf) (\<lambda>root.
     nbind (constrain_instance root 0) (\<lambda>_.
     constrain_instance (cell_cm cells) 1))))"

section \<open>What the circuits enforce\<close>

lemma enforces_enumerate:
  assumes "\<And>i x Q. i < length xs \<Longrightarrow> x = xs ! i \<Longrightarrow> (P i \<Longrightarrow> Q ()) \<Longrightarrow> enforces H I \<sigma> (f (i, x)) Q"
    and "(\<And>i. i < length xs \<Longrightarrow> P i) \<Longrightarrow> Q ()"
  shows "enforces H I \<sigma> (nfor f (enumerate 0 xs)) Q"
proof (rule enforces_for [where P = "\<lambda>x. P (fst x)"])
  show "enforces H I \<sigma> (f x) Q" if "x \<in> set (enumerate 0 xs)" "P (fst x) \<Longrightarrow> Q ()" for x Q
    using that assms(1) [of "fst x" "snd x" Q] by (simp add: in_set_enumerate_eq)
  assume "list_all (\<lambda>x. P (fst x)) (enumerate 0 xs)"
  then show "Q ()" by (intro assms(2)) (auto simp: list_all_length nth_enumerate_eq)
qed

lemma accepts_enumerate:
  assumes "\<And>i x Q. i < length xs \<Longrightarrow> x = xs ! i \<Longrightarrow> Q () \<Longrightarrow> accepts H I \<sigma> (f (i, x)) Q" "\<And>x. extending (f x)" "Q ()"
  shows "accepts H I \<sigma> (nfor f (enumerate 0 xs)) Q"
proof (rule accepts_for)
  show "accepts H I \<sigma> (f x) Q" if "x \<in> set (enumerate 0 xs)" "Q ()" for x Q
    using that assms(1) [of "fst x" "snd x" Q] by (simp add: in_set_enumerate_eq)
qed (use assms(2,3) in simp_all)

lemma enforces_mint:
  "enforces (poseidon_hash F) I \<sigma> (mint_synthesize F notes) (\<lambda>_. \<forall>i < length notes. \<exists>address psi version.
     instance_at I (i * 3) = committed (poseidon_hash F) (instance_at I (i * 3 + 1)) address psi (instance_at I (i * 3 + 2)) version)"
  unfolding mint_synthesize_def
  apply (rule enforces_enumerate [where P = "\<lambda>i. \<exists>address psi version. instance_at I (i * 3) =
    committed (poseidon_hash F) (instance_at I (i * 3 + 1)) address psi (instance_at I (i * 3 + 2)) version"])
   apply (simp only: mint_note_constraints_def prod.case)
   apply (intro enforces_bind enforces_note enforces_constrain)
  subgoal premises p for i x Q c version
    by (rule p(3), rule exI [of _ "\<sigma> (idx (cell_address c))"], rule exI [of _ "\<sigma> (idx (cell_psi c))"], rule exI [of _ version])
      (use p(4-) in simp)
  apply simp
  done

text \<open>One key makes the nullifiers and signs the burnt notes for the address.\<close>

definition burnt :: "('f::field list \<Rightarrow> 'f) \<Rightarrow> 'f list \<Rightarrow> nat \<Rightarrow> nat \<Rightarrow> 'f \<Rightarrow> 'f \<Rightarrow> 'f \<Rightarrow> bool" where
  "burnt H I off i sk to kind \<longleftrightarrow>
     (\<exists>address psi version.
        instance_at I (i * 4 + off) =
          H [committed H (instance_at I (i * 4 + (off + 1))) address psi (instance_at I (i * 4 + (off + 2))) version, sk, psi, 0]
      \<and> instance_at I (i * 4 + (off + 3)) = H [instance_at I (i * 4 + off), sk, to, kind])"

text \<open>Both circuits do the same for a note, up to the first public input and the cell of the kind.\<close>

definition signed_note_constraints ::
    "'f::field Fr \<Rightarrow> nat \<Rightarrow> 'f cell \<Rightarrow> 'f cell \<Rightarrow> 'f cell \<Rightarrow> 'f cell \<Rightarrow> nat \<times> Note \<Rightarrow> ('f, unit) synth" where
  "signed_note_constraints F off kind to_address zero secret_key = (\<lambda>(i, note).
     nbind (note_enforce_constraints F 0 note) (\<lambda>cells.
     nbind (poseidon_hash_gadget (poseidon_hash F) [cell_cm cells, secret_key, cell_psi cells, zero]) (\<lambda>nul.
     nbind (constrain_instance nul (i * 4 + off)) (\<lambda>_.
     nbind (constrain_instance (cell_value cells) (i * 4 + (off + 1))) (\<lambda>_.
     nbind (constrain_instance (cell_source cells) (i * 4 + (off + 2))) (\<lambda>_.
     nbind (poseidon_hash_gadget (poseidon_hash F) [nul, secret_key, to_address, kind]) (\<lambda>sig.
     constrain_instance sig (i * 4 + (off + 3)))))))))"

lemma burn_note_signed:
  "burn_note_constraints F 0 to zero sk = signed_note_constraints F 1 zero to zero sk"
  "burn_to_note_constraints F 0 kind to zero sk = signed_note_constraints F 2 kind to zero sk"
  by (simp_all add: burn_note_constraints_def burn_to_note_constraints_def signed_note_constraints_def eval_nat_numeral)

lemma enforces_signed_note:
  assumes "\<sigma> (idx zero) = 0" "burnt (poseidon_hash F) I off i (\<sigma> (idx sk)) (\<sigma> (idx to)) (\<sigma> (idx kind)) \<Longrightarrow> Q ()"
  shows "enforces (poseidon_hash F) I \<sigma> (signed_note_constraints F off kind to zero sk (i, x)) Q"
  unfolding signed_note_constraints_def prod.case
  apply (intro enforces_bind enforces_note enforces_poseidon enforces_constrain assms(2))
  subgoal for c version nul sig
    unfolding burnt_def by (intro exI [of _ "\<sigma> (idx (cell_address c))"] exI [of _ "\<sigma> (idx (cell_psi c))"] exI [of _ version])
      (use assms(1) in simp)
  done

lemma enforces_burn:
  "enforces (poseidon_hash F) I \<sigma> (burn_synthesize F b)
     (\<lambda>_. \<exists>sk. \<forall>i < length (burn_notes b). burnt (poseidon_hash F) I 1 i sk (instance_at I 0) 0)"
  unfolding burn_synthesize_def burn_note_signed
  apply (intro enforces_bind enforces_private enforces_assign_constant enforces_constrain)
  subgoal for to zero sk
    by (rule enforces_enumerate [where P = "\<lambda>i. burnt (poseidon_hash F) I 1 i (\<sigma> (idx sk)) (instance_at I 0) 0"])
      (auto intro: enforces_signed_note)
  done

lemma enforces_burn_to:
  "enforces (poseidon_hash F) I \<sigma> (burn_to_synthesize F b)
     (\<lambda>_. \<exists>sk. \<forall>i < length (burn_notes b). burnt (poseidon_hash F) I 2 i sk (instance_at I 1) (instance_at I 0))"
  unfolding burn_to_synthesize_def burn_note_signed
  apply (intro enforces_bind enforces_private enforces_assign_constant enforces_constrain)
  subgoal for kind to zero sk
    by (rule enforces_enumerate [where P = "\<lambda>i. burnt (poseidon_hash F) I 2 i (\<sigma> (idx sk)) (instance_at I 1) (instance_at I 0)"])
      (auto intro: enforces_signed_note)
  done

lemma enforces_signature:
  "enforces (poseidon_hash F) I \<sigma> (signature_synthesize F s) (\<lambda>_. \<exists>sk. instance_at I 0 = poseidon_hash F [sk, 0])"
  unfolding signature_synthesize_def
  apply (intro enforces_bind enforces_private enforces_assign_constant enforces_poseidon enforces_constrain)
  subgoal for message sk padding address by (rule exI [of _ "\<sigma> (idx sk)"]) simp
  done

section \<open>Honest witnesses meet the constraints\<close>

lemma extending_mint_note [extending_intros]: "extending (mint_note_constraints F k x)"
  unfolding mint_note_constraints_def by (intro extending_intros)

lemma extending_signed_note [extending_intros]: "extending (signed_note_constraints F off kind to zero sk x)"
  unfolding signed_note_constraints_def by (intro extending_intros)

lemma concat_nth:
  "(\<And>x. x \<in> set xs \<Longrightarrow> length (f x) = k) \<Longrightarrow> i < length xs \<Longrightarrow> j < k \<Longrightarrow>
    i * k + j < length (concat (map f xs)) \<and> concat (map f xs) ! (i * k + j) = f (xs ! i) ! j"
proof (induction xs arbitrary: i)
  case (Cons x xs)
  show ?case
  proof (cases i)
    case 0
    then show ?thesis using Cons.prems by (simp add: nth_append)
  next
    case (Suc n)
    then show ?thesis using Cons.IH [of n] Cons.prems by (simp add: nth_append algebra_simps)
  qed
qed simp

lemma accepts_mint:
  assumes "fr_ok F" "\<forall>n \<in> set notes. note_ok F n"
  shows "accepts (poseidon_hash F) (mint_public_inputs F notes) \<sigma> (mint_synthesize F notes) (\<lambda>_. True)"
  unfolding mint_synthesize_def
proof (rule accepts_enumerate)
  fix i x and Q :: "unit \<Rightarrow> bool"
  assume i: "i < length notes" "x = notes ! i" "Q ()"
  let ?f = "\<lambda>note. [base F (commitment F note), base F (note_value note), base F (note_source note)] :: 'a list"
  have inst: "instance_at (mint_public_inputs F notes) (i * 3 + j) = ?f x ! j" if "j < 3" for j
    using concat_nth [where xs = "notes" and f = ?f and k = 3 and i = i and j = j] i that by (simp add: instance_at_def mint_public_inputs_def)
  show "accepts (poseidon_hash F) (mint_public_inputs F notes) \<sigma> (mint_note_constraints F 0 (i, x)) Q"
    unfolding mint_note_constraints_def prod.case
    apply (rule accepts_bind, rule accepts_note [OF assms(1)])
    subgoal using assms(2) i by (simp add: note_ok_def)
     apply (intro accepts_bind accepts_constrain extending_intros i(3))
    using inst [of 0] inst [of 1] inst [of 2] apply (simp_all add: note_cells_of_def)
    apply (intro extending_intros)
    done
qed (auto intro: extending_intros)

lemma accepts_signature:
  assumes "fr_ok F"
  shows "accepts (poseidon_hash F) (signature_public_inputs F s) \<sigma> (signature_synthesize F s) (\<lambda>_. True)"
  unfolding signature_synthesize_def
  apply (intro accepts_bind accepts_private accepts_assign_constant accepts_poseidon accepts_constrain extending_intros)
     apply (simp_all add: signature_public_inputs_def signature_address_def instance_at_def)
  done

lemma nullifier_value:
  assumes "fr_ok F" "note_ok F note" "note_value note \<noteq> ZERO"
  shows "base F (nullifier F note sk) = poseidon_hash F [base F (commitment F note), base F sk, base F (note_psi note), 0]"
proof -
  have "represented F (note_value note)" using assms(2) by (simp add: note_ok_def)
  then have "base F (note_value note) \<noteq> 0" using assms(3) by (simp only: represented_zero [OF assms(1)] not_False_eq_True)
  then show ?thesis by (simp add: nullifier_eq [OF assms(1,2)])
qed

text \<open>The public inputs that follow the first \<open>off\<close>, for one key, address and kind.\<close>

definition signed_inputs :: "'f::field Fr \<Rightarrow> element \<Rightarrow> element \<Rightarrow> element \<Rightarrow> Note \<Rightarrow> 'f list" where
  "signed_inputs F sk to kind note =
     [base F (nullifier F note sk), base F (note_value note), base F (note_source note),
      base F (merge F [nullifier F note sk, sk, to, kind])]"

lemma accepts_signed_notes:
  assumes F: "fr_ok F" and ns: "\<forall>n \<in> set notes. note_ok F n \<and> note_value n \<noteq> ZERO"
    and I: "length front = off" "I = front @ concat (map (signed_inputs F key address kind) notes)"
    and good: "good \<sigma> kc" "good \<sigma> to" "good \<sigma> zero" "good \<sigma> sk" "val kc = base F kind" "val to = base F address" "val zero = 0"
      "val sk = base F key"
  shows "accepts (poseidon_hash F) I \<sigma> (nfor (signed_note_constraints F off kc to zero sk) (enumerate 0 notes)) (\<lambda>_. True)"
proof (rule accepts_enumerate)
  fix i x and Q :: "unit \<Rightarrow> bool"
  assume i: "i < length notes" "x = notes ! i" and Q: "Q ()"
  have inst: "instance_at I (i * 4 + (off + j)) = signed_inputs F key address kind x ! j" if "j < 4" for j
    using concat_nth [where xs = "notes" and f = "signed_inputs F key address kind" and k = 4 and i = i and j = j] i that I
    by (simp add: instance_at_def nth_append signed_inputs_def add.left_commute)
  have x: "note_ok F x" "note_value x \<noteq> ZERO" using ns i by auto
  have at: "instance_at I (i * 4 + off) = base F (nullifier F x key)"
    "instance_at I (i * 4 + (off + 1)) = base F (note_value x)" "instance_at I (i * 4 + (off + 2)) = base F (note_source x)"
    "instance_at I (i * 4 + (off + 3)) = base F (merge F [nullifier F x key, key, address, kind])"
    using inst [of 0] inst [of 1] inst [of 2] inst [of 3] by (simp_all add: signed_inputs_def)
  show "accepts (poseidon_hash F) I \<sigma> (signed_note_constraints F off kc to zero sk (i, x)) Q"
    unfolding signed_note_constraints_def prod.case
    apply (rule accepts_bind, rule accepts_note [OF F], use x(1) in \<open>simp add: note_ok_def\<close>)
     apply (rule accepts_bind, rule accepts_poseidon)
       apply (simp add: good)
      apply (rule accepts_bind, rule accepts_constrain)
        apply (use at(1) good in \<open>simp add: note_cells_of_def nullifier_value [OF F x]\<close>)
       apply (rule accepts_bind, rule accepts_constrain)
         apply (use at(2) in \<open>simp add: note_cells_of_def\<close>)
        apply (rule accepts_bind, rule accepts_constrain)
          apply (use at(3) in \<open>simp add: note_cells_of_def\<close>)
         apply (rule accepts_bind, rule accepts_poseidon)
           apply (simp add: good)
          apply (rule accepts_constrain)
           apply (use at(4) good in \<open>simp add: note_cells_of_def base_merge [OF F] base_consts [OF F] nullifier_value [OF F x]\<close>)
          apply (rule Q)
         apply (intro extending_intros)+
    done
qed (auto intro: extending_intros)

lemma accepts_burn:
  assumes F: "fr_ok F" "\<forall>n \<in> set (burn_notes b). note_ok F n \<and> note_value n \<noteq> ZERO"
  shows "accepts (poseidon_hash F) (burn_public_inputs F b) \<sigma> (burn_synthesize F b) (\<lambda>_. True)"
proof -
  have I: "burn_public_inputs F b =
      [base F (burn_to_address b)] @ concat (map (signed_inputs F (burn_secret_key b) (burn_to_address b) ZERO) (burn_notes b))"
    by (simp add: burn_public_inputs_def signed_inputs_def [abs_def] burn_signature_def)
  show ?thesis unfolding burn_synthesize_def burn_note_signed
    apply (rule accepts_bind, rule accepts_private)
     apply (rule accepts_bind, rule accepts_assign_constant)
      apply (rule accepts_bind, rule accepts_constrain)
        apply (simp add: burn_public_inputs_def instance_at_def)
       apply (rule accepts_bind, rule accepts_private)
        apply (rule accepts_signed_notes [OF F _ I])
                apply (simp_all add: base_consts [OF F(1)])
      apply (intro extending_intros)+
    done
qed

lemma accepts_burn_to:
  assumes F: "fr_ok F" "\<forall>n \<in> set (burn_notes b). note_ok F n \<and> note_value n \<noteq> ZERO"
  shows "accepts (poseidon_hash F) (burn_to_public_inputs F b) \<sigma> (burn_to_synthesize F b) (\<lambda>_. True)"
proof -
  have I: "burn_to_public_inputs F b = [base F (burn_kind b), base F (burn_to_address b)]
      @ concat (map (signed_inputs F (burn_secret_key b) (burn_to_address b) (burn_kind b)) (burn_notes b))"
    by (simp add: burn_to_public_inputs_def signed_inputs_def [abs_def] burn_to_signature_def)
  show ?thesis unfolding burn_to_synthesize_def burn_note_signed
    apply (rule accepts_bind, rule accepts_private)
     apply (rule accepts_bind, rule accepts_private)
      apply (rule accepts_bind, rule accepts_assign_constant)
       apply (rule accepts_bind, rule accepts_constrain)
         apply (simp add: burn_to_public_inputs_def instance_at_def)
        apply (rule accepts_bind, rule accepts_constrain)
          apply (simp add: burn_to_public_inputs_def instance_at_def)
         apply (rule accepts_bind, rule accepts_private)
          apply (rule accepts_signed_notes [OF F _ I])
                  apply simp_all
        apply (intro extending_intros)+
    done
qed

section \<open>Circuits that constrain less than their public inputs suggest\<close>

text \<open>
  The points circuit ties the addresses and values of its notes to nothing that is public: a prover can choose
  one note with the claimed address and total.
\<close>

lemma extending_points_note [extending_intros]: "extending (points_note_constraints F k a n)"
  unfolding points_note_constraints_def by (intro extending_intros)

lemma alike_points_note:
  "same_cell a b \<Longrightarrow> alike same_cell (points_note_constraints F k a n) (points_note_constraints F k b n')"
  unfolding points_note_constraints_def by (intro alike_intros) (simp_all add: same_note_def)

lemma accepts_points_note:
  assumes F: "fr_ok F" and a: "good \<sigma> a" "val a = instance_at I 0" and n: "represented F (note_value n)"
    and addr: "base F (note_address n) = instance_at I 0"
    and Q: "\<And>c. good \<sigma> c \<Longrightarrow> val c = base F (note_value n) \<Longrightarrow> Q c"
  shows "accepts (poseidon_hash F) I \<sigma> (points_note_constraints F 0 a n) Q"
  unfolding points_note_constraints_def
  apply (rule accepts_bind, rule accepts_note [OF F n])
   apply (rule accepts_choose)
        apply (simp_all only: a(1))
    apply (simp add: note_cells_of_def)
    apply (intro extending_intros)
   apply (rule accepts_bind, rule accepts_constrain)
     apply (use a addr in \<open>simp add: note_cells_of_def split: if_splits\<close>)
    apply (intro accepts_ret Q)
     apply (simp_all add: note_cells_of_def)
   apply (intro extending_intros)+
  done

lemma points_forge:
  assumes F: "fr_ok F" and ne: "points_notes p \<noteq> []"
  shows "\<exists>\<sigma>. met_by (poseidon_hash F) (address # amount # rest) (points_synthesize F p) \<sigma>"
proof -
  let ?I = "address # amount # rest"
  let ?note = "\<lambda>v. note_restore (elem F address) ZERO (elem F v) ZERO"
  let ?cheat = "\<lambda>ns. nbind (assign_private_input address) (\<lambda>a.
     nbind (nmap (points_note_constraints F 0 a) ns) (\<lambda>values.
     nbind (add_assign values) (\<lambda>total. constrain_instance total 1)))"
  let ?ns = "?note amount # map (\<lambda>_. ?note 0) (tl (points_notes p))"
  have k: "base F (commitment F (padding_note F)) = 0" by (simp add: base_consts [OF F])
  have "accepts (poseidon_hash F) ?I \<sigma> (?cheat ?ns) (\<lambda>_. True)" for \<sigma>
    apply (rule accepts_bind, rule accepts_private)
     apply (rule accepts_bind, rule accepts_map [where P = "\<lambda>n c. good \<sigma> c \<and> val c = base F (note_value n)"])
        apply (rule accepts_points_note [OF F])
            apply (auto simp: instance_at_def note_restore_def represented_elem [OF F] fr_okD(5) [OF F]) [5]
       apply (intro extending_intros)
      apply (rule accepts_bind, rule accepts_add)
         apply auto [1]
    subgoal using assigned_values by fastforce
       apply (rule accepts_constrain)
    subgoal premises q for a vals t
    proof -
      have "map val vals = map (\<lambda>n. base F (note_value n)) ?ns" using assigned_values [OF q(3)] by simp
      then have "(\<Sum>c\<leftarrow>vals. val c) = amount" by (simp add: note_restore_def fr_okD(5) [OF F] o_def sum_list_triv)
      with q(4,5) show ?thesis by (simp add: instance_at_def)
    qed
       apply simp
      apply (intro extending_intros)+
    done
  then have "met_by (poseidon_hash F) ?I (?cheat ?ns) (assigned (?cheat ?ns))" by (rule accepts_met_by)
  moreover have loop: "alike (list_all2 same_cell) (nmap (points_note_constraints F 0 a) ?ns)
      (nmap (points_note_constraints F 0 b) (points_notes p))" if "same_cell a b" for a b :: "'a cell"
    by (rule alike_map, rule list_all2_all_nthI) (use ne that in \<open>simp_all add: alike_points_note\<close>)
  moreover have "alike (=) (?cheat ?ns) (points_synthesize F p)"
    unfolding points_synthesize_def k
    by (intro alike_intros alike_bind [OF loop]) (simp_all add: same_cells_iff)
  ultimately show ?thesis using alike_met_by by blast
qed

text \<open>
  The compliance circuit takes the directions of its path from the witness and not from the note's source: the empty slot of any
  other element serves for every note.
\<close>

lemma compliance_forge:
  assumes F: "fr_ok F" and D: "D \<le> 257" and n: "represented F (note_value (compliance_note c))" "represented F other"
    and l: "length (path_siblings path) = D - 1" "length (path_siblings (compliance_path c)) = D - 1"
  shows "\<exists>\<sigma>. met_by (poseidon_hash F) [base F (compute_null_root F D path other), base F (commitment F (compliance_note c))]
    (compliance_synthesize F D c) \<sigma>"
proof -
  let ?I = "[base F (compute_null_root F D path other), base F (commitment F (compliance_note c))]"
  let ?cheat = "nbind (note_enforce_constraints F 0 (compliance_note c)) (\<lambda>cells.
     nbind (assign_constant 0) (\<lambda>null_leaf.
     nbind (enforce_inclusion_constraints F D path (base F other) null_leaf) (\<lambda>root.
     nbind (constrain_instance root 0) (\<lambda>_.
     constrain_instance (cell_cm cells) 1))))"
  have "accepts (poseidon_hash F) ?I \<sigma> ?cheat (\<lambda>_. True)" for \<sigma>
    apply (rule accepts_bind, rule accepts_note [OF F n(1)])
     apply (rule accepts_bind, rule accepts_assign_constant)
      apply (rule accepts_bind, rule accepts_inclusion [OF l(1) D], assumption)
       apply (intro accepts_bind accepts_constrain extending_intros)
    using n(2)
         apply (simp_all add: instance_at_def note_cells_of_def compute_null_root_def compute_root_from_leaf_def
        represented_def fr_okD(5) [OF F] base_consts [OF F])
     apply (intro extending_intros)+
    done
  then have "met_by (poseidon_hash F) ?I ?cheat (assigned ?cheat)" by (rule accepts_met_by)
  moreover have "alike (=) ?cheat (compliance_synthesize F D c)"
    unfolding compliance_synthesize_def by (intro alike_intros) (use l in \<open>simp_all add: same_note_def\<close>)
  ultimately show ?thesis using alike_met_by by blast
qed

end
