(* ===== verification/Aggregate_Circuit.thy ===== *)
theory Aggregate_Circuit
  imports Insert_Circuit
begin

text \<open>
  The aggregation circuits (\<^verbatim>\<open>aggregate_utxo/aggregate.rs\<close>, \<^verbatim>\<open>aggregate_agg/aggregate.rs\<close>). The chip that verifies
  proofs inside a circuit (\<^verbatim>\<open>chips/aggregation\<close>) rests on the packages of the proof system and is a parameter: it
  returns the cells of the accumulator, whose check is deferred to the final verifier, and the instance cells of the proofs.
\<close>

record 'f Snark =
  snark_instances :: "'f list list"
  snark_proof :: bytes

type_synonym 'f aggregator = "'f Snark list \<Rightarrow> bytes \<Rightarrow> ('f, 'f cell list \<times> 'f cell list list list) synth"

section \<open>Transactions and their inserts\<close>

record 'f AggregateUtxo =
  agg_utxo :: "'f Snark list"
  agg_insert :: "Insert list"
  agg_utxo_instances :: "'f list"
  agg_utxo_proof :: bytes

definition aggregate_utxo_new ::
    "('f Snark list \<Rightarrow> 'f list \<times> bytes) \<Rightarrow> 'f Snark list \<Rightarrow> Insert list \<Rightarrow> 'f AggregateUtxo" where
  "aggregate_utxo_new accumulator_native utxo inserts =
     (case accumulator_native utxo of
        (agg_instances, proof) \<Rightarrow>
          \<lparr>agg_utxo = utxo, agg_insert = inserts, agg_utxo_instances = agg_instances, agg_utxo_proof = proof\<rparr>)"

text \<open>
  The loop over the instance cells of the proofs: root, mint or burn hash and value go to public inputs, three per
  proof, the rest are the leaves. A proof without an instance column, or with fewer than three instances, panics.
\<close>

fun agg_utxo_loop :: "nat \<Rightarrow> 'f::field cell list list list \<Rightarrow> ('f, 'f cell list) synth" where
  "agg_utxo_loop off [] = nret []"
| "agg_utxo_loop off ([] # rest) = nlift Panic"
| "agg_utxo_loop off (((root # hash # value # leafs) # _) # rest) =
     nbind (constrain_instance root off) (\<lambda>_.
     nbind (constrain_instance hash (off + 1)) (\<lambda>_.
     nbind (constrain_instance value (off + 2)) (\<lambda>_.
     nbind (agg_utxo_loop (off + 3) rest) (\<lambda>ls.
     nret (leafs @ ls)))))"
| "agg_utxo_loop off (_ # rest) = nlift Panic"

definition aggregate_utxo_synthesize ::
    "'f::field aggregator \<Rightarrow> 'f Fr \<Rightarrow> nat \<Rightarrow> nat \<Rightarrow> 'f AggregateUtxo \<Rightarrow> ('f, unit) synth" where
  "aggregate_utxo_synthesize aggregate F D LEAVES a =
     nbind (aggregate (agg_utxo a) (agg_utxo_proof a)) (\<lambda>(agg_cells, utxo_snarks).
     nbind (batch_enforce_constraints F D (base F (commitment F (padding_note F))) (agg_insert a)) (\<lambda>cells.
     nbind (constrain_instances 0 agg_cells) (\<lambda>_.
     nbind (constrain_instance (batch_cell_old cells) (length agg_cells)) (\<lambda>_.
     nbind (constrain_instance (batch_cell_new cells) (length agg_cells + 1)) (\<lambda>_.
     nbind (agg_utxo_loop (length agg_cells + 2) utxo_snarks) (\<lambda>utxo_leafs.
     nfor (\<lambda>(utxo_leaf, insert_leaf). constrain_equal utxo_leaf insert_leaf)
       (take LEAVES (zip utxo_leafs (batch_cell_leafs cells)))))))))"

text \<open>The first three instances of each proof, by index.\<close>

fun utxo_public_inputs :: "'f Snark list \<Rightarrow> (unit, 'f list) outcome" where
  "utxo_public_inputs [] = Ok []"
| "utxo_public_inputs (snark # rest) =
     (case snark_instances snark of
        (root # hash # value # _) # _ \<Rightarrow> omap (\<lambda>is. [root, hash, value] @ is) (utxo_public_inputs rest)
      | _ \<Rightarrow> Panic)"

definition aggregate_utxo_public_inputs :: "'f::field Fr \<Rightarrow> nat \<Rightarrow> 'f AggregateUtxo \<Rightarrow> (unit, 'f list) outcome" where
  "aggregate_utxo_public_inputs F D a =
     obind (batch_old_root F D (agg_insert a)) (\<lambda>old_root.
     obind (batch_new_root F D (agg_insert a)) (\<lambda>new_root.
     obind (utxo_public_inputs (agg_utxo a)) (\<lambda>is.
     Ok (agg_utxo_instances a @ [old_root, new_root] @ is))))"

section \<open>Aggregates of aggregates\<close>

record 'f AggregateAgg =
  aggregates :: "'f Snark list"
  agg_agg_instances :: "element list"
  agg_agg_proof :: bytes

fun agg_chain :: "'f::field cell \<Rightarrow> 'f cell list list list \<Rightarrow> ('f, 'f cell \<times> 'f cell list) synth" where
  "agg_chain last_new_root [] = nret (last_new_root, [])"
| "agg_chain last_new_root (agg # rest) =
     (case agg of
        [] \<Rightarrow> nlift Panic
      | is # _ \<Rightarrow>
          if length is < 14 then nlift Panic
          else
            nbind (constrain_equal last_new_root (is ! 12)) (\<lambda>_.
            nbind (agg_chain (is ! 13) rest) (\<lambda>(r, recent_roots).
            nret (r, drop 14 is @ recent_roots))))"

definition aggregate_agg_synthesize :: "'f::field aggregator \<Rightarrow> 'f AggregateAgg \<Rightarrow> ('f, unit) synth" where
  "aggregate_agg_synthesize aggregate a =
     nbind (aggregate (aggregates a) (agg_agg_proof a)) (\<lambda>(agg_cells, aggs).
     nbind (constrain_instances 0 agg_cells) (\<lambda>_.
     (case aggs of
        (is # _) # _ \<Rightarrow>
          if length is \<le> 12 then nlift Panic
          else
            nbind (agg_chain (is ! 12) aggs) (\<lambda>(new_root, recent_roots).
            nbind (constrain_instance (is ! 12) 12) (\<lambda>_.
            nbind (constrain_instance new_root 13) (\<lambda>_.
            constrain_instances 14 recent_roots)))
      | _ \<Rightarrow> nlift Panic)))"

text \<open>The public inputs, by index into the first instance column of the aggregated proofs.\<close>

definition column_at :: "nat \<Rightarrow> 'f Snark \<Rightarrow> (unit, 'f) outcome" where
  "column_at i snark = (case snark_instances snark of J # _ \<Rightarrow> if i < length J then Ok (J ! i) else Panic | [] \<Rightarrow> Panic)"

definition agg_agg_old_root :: "'f AggregateAgg \<Rightarrow> (unit, 'f) outcome" where
  "agg_agg_old_root a = (case aggregates a of snark # _ \<Rightarrow> column_at 12 snark | [] \<Rightarrow> Panic)"

definition agg_agg_new_root :: "'f AggregateAgg \<Rightarrow> (unit, 'f) outcome" where
  "agg_agg_new_root a = (case rev (aggregates a) of snark # _ \<Rightarrow> column_at 13 snark | [] \<Rightarrow> Panic)"

fun agg_agg_utxo_values :: "'f Snark list \<Rightarrow> (unit, 'f list) outcome" where
  "agg_agg_utxo_values [] = Ok []"
| "agg_agg_utxo_values (snark # rest) =
     (case snark_instances snark of
        J # _ \<Rightarrow> if length J < 14 then Panic else omap (\<lambda>vs. drop 14 J @ vs) (agg_agg_utxo_values rest)
      | [] \<Rightarrow> Panic)"

definition agg_agg_public_inputs :: "'f Fr \<Rightarrow> 'f AggregateAgg \<Rightarrow> (unit, 'f list) outcome" where
  "agg_agg_public_inputs F a =
     obind (agg_agg_old_root a) (\<lambda>old_root.
     obind (agg_agg_new_root a) (\<lambda>new_root.
     obind (agg_agg_utxo_values (aggregates a)) (\<lambda>values.
     Ok (map (base F) (agg_agg_instances a) @ [old_root, new_root] @ values))))"

section \<open>What the circuits enforce\<close>

text \<open>
  The documented behaviour of the chip: twelve accumulator cells, and, if the accumulator passes the deferred check, instances
  for which a proof was verified.
\<close>

definition verifies ::
    "('f::field list \<Rightarrow> 'f) \<Rightarrow> 'f aggregator \<Rightarrow> ('f list \<Rightarrow> bool) \<Rightarrow> ('f list list \<Rightarrow> bool) \<Rightarrow> bool" where
  "verifies H aggregate decides verified \<longleftrightarrow>
     (\<forall>I \<sigma> snarks proof. enforces H I \<sigma> (aggregate snarks proof) (\<lambda>(acc, insts). length acc = 12
        \<and> (decides (map (\<lambda>c. \<sigma> (idx c)) acc) \<longrightarrow>
             length insts = length snarks \<and> (\<forall>is \<in> set insts. verified (map (map (\<lambda>c. \<sigma> (idx c))) is)))))"

text \<open>A transaction proof: the seven public inputs meet the transaction circuit with some assignment.\<close>

definition utxo_verified :: "'f::field Fr \<Rightarrow> nat \<Rightarrow> 'f list list \<Rightarrow> bool" where
  "utxo_verified F D is \<longleftrightarrow>
     (\<exists>J u \<sigma>. is = [J] \<and> length J = 7 \<and> utxo_shape D u \<and> met_by (poseidon_hash F) J (utxo_synthesize F D u) \<sigma>)"

definition aggregate_statement :: "('f::field list \<Rightarrow> 'f) \<Rightarrow> nat \<Rightarrow> nat \<Rightarrow> 'f list \<Rightarrow> bool" where
  "aggregate_statement H D n I \<longleftrightarrow>
     (\<exists>Js. length Js = n \<and> (\<forall>J \<in> set Js. length J = 7 \<and> utxo_statement H (D - 1) J)
        \<and> (\<forall>i < n. \<forall>j < 3. instance_at I (14 + i * 3 + j) = Js ! i ! j)
        \<and> batch_statement H D (instance_at I 12) (concat (map (drop 3) Js)) (instance_at I 13))"

lemma enforces_agg_utxo_loop:
  assumes "\<forall>is \<in> set iss. \<exists>J. is = [J] \<and> length J = 7"
    and "\<And>ls. (\<And>i j. i < length iss \<Longrightarrow> j < 3 \<Longrightarrow> \<sigma> (idx (hd (iss ! i) ! j)) = instance_at I (off + i * 3 + j)) \<Longrightarrow>
      ls = concat (map (\<lambda>is. drop 3 (hd is)) iss) \<Longrightarrow> Q ls"
  shows "enforces H I \<sigma> (agg_utxo_loop off iss) Q"
  using assms
proof (induction iss arbitrary: off Q)
  case Nil
  then show ?case unfolding agg_utxo_loop.simps by (intro enforces_ret) simp
next
  case (Cons js iss)
  obtain r h v ls where js: "js = [r # h # v # ls]"
    using Cons.prems(1) by (auto simp: eval_nat_numeral length_Suc_conv)
  show ?case unfolding js agg_utxo_loop.simps
    apply (intro enforces_bind enforces_constrain Cons.IH)
     apply (use Cons.prems(1) in simp)
    apply (intro enforces_ret Cons.prems(2))
    subgoal premises p for ls' i j
    proof (cases i)
      case 0
      with p(1-3) p(7) show ?thesis by (auto simp: js less_Suc_eq numeral_3_eq_3)
    next
      case (Suc k)
      with p(4) [of k j] p(6,7) show ?thesis by (simp add: algebra_simps)
    qed
    apply (simp add: js)
    done
qed

lemma enforces_equal_zip:
  assumes "length as = length bs" "map (\<lambda>c. \<sigma> (idx c)) as = map (\<lambda>c. \<sigma> (idx c)) bs \<Longrightarrow> Q ()"
  shows "enforces H I \<sigma> (nfor (\<lambda>(a, b). constrain_equal a b) (zip as bs)) Q"
  by (rule enforces_for [where P = "\<lambda>(a, b). \<sigma> (idx a) = \<sigma> (idx b)"])
    (use assms in \<open>auto simp: list_all_length list_eq_iff_nth_eq intro!: enforces_constrain\<close>)

lemma enforces_aggregate_utxo:
  assumes F: "fr_ok F" and D: "D \<le> 257"
    and agg: "verifies (poseidon_hash F) aggregate decides (utxo_verified F D)"
    and dec: "decides (map (instance_at I) [0..<12])"
    and shape: "\<forall>i \<in> set (agg_insert a). length (path_siblings (insert_path i)) = D - 1"
      "length (agg_insert a) = length (agg_utxo a) * 4"
  shows "enforces (poseidon_hash F) I \<sigma> (aggregate_utxo_synthesize aggregate F D (length (agg_insert a)) a)
    (\<lambda>_. aggregate_statement (poseidon_hash F) D (length (agg_utxo a)) I)"
proof -
  have k: "base F (commitment F (padding_note F)) = 0" by (simp add: base_consts [OF F])
  let ?v = "\<lambda>c. \<sigma> (idx c)"
  show ?thesis unfolding aggregate_utxo_synthesize_def k
    apply (rule enforces_bind, rule enforces_conseq [OF agg [unfolded verifies_def, rule_format]])
    apply (erule case_prodE, simp only: prod.case)
    apply (rule enforces_bind, rule enforces_batch_cells [OF D shape(1)])
    apply (rule enforces_bind, rule enforces_constrain_instances)
    apply (intro enforces_bind enforces_constrain)
    subgoal premises p for r acc insts c
    proof -
      have acc: "length acc = 12" using p(2) by simp
      have "map ?v acc = map (instance_at I) [0..<12]"
        by (rule nth_equalityI) (use acc p(5) in simp_all)
      then have v: "length insts = length (agg_utxo a)" "\<forall>js \<in> set insts. utxo_verified F D (map (map ?v) js)"
        using p(2) dec by simp_all
      have one: "\<exists>J. js = [J] \<and> length J = 7" if "js \<in> set insts" for js
        using v(2) that by (force simp: utxo_verified_def)
      have stmt: "utxo_statement (poseidon_hash F) (D - 1) (map ?v (hd js))" if js: "js \<in> set insts" for js
      proof -
        obtain J where J: "js = [J]" using one [OF js] by blast
        from v(2) js obtain u \<tau> where "utxo_shape D u" "met_by (poseidon_hash F) (map ?v J) (utxo_synthesize F D u) \<tau>"
          by (force simp: utxo_verified_def J)
        then show ?thesis unfolding J list.sel using enforces_utxo [OF F D] met_by_enforces by blast
      qed
      show ?thesis
        apply (rule enforces_agg_utxo_loop)
        subgoal using one by blast
        subgoal premises q for ls
        proof -
          have len: "length ls = length (batch_cell_leafs c)"
          proof -
            have "length ls = (\<Sum>js\<leftarrow>insts. length (drop 3 (hd js)))" by (simp add: q(2) length_concat o_def)
            also have "\<dots> = (\<Sum>js\<leftarrow>insts. 4)" by (rule arg_cong [of _ _ sum_list], rule map_cong) (use one in force)+
            finally show ?thesis by (simp add: sum_list_triv v(1) p(3) shape(2))
          qed
          have take: "take (length (agg_insert a)) (zip ls (batch_cell_leafs c)) = zip ls (batch_cell_leafs c)"
            using p(3) len by simp
          show ?thesis unfolding take
          proof (rule enforces_equal_zip [OF len])
            assume eq: "map ?v ls = map ?v (batch_cell_leafs c)"
            let ?Js = "map (\<lambda>js. map ?v (hd js)) insts"
            have "concat (map (drop 3) ?Js) = map ?v ls" by (simp add: q(2) map_concat o_def drop_map)
            then have "batch_statement (poseidon_hash F) D (instance_at I 12) (concat (map (drop 3) ?Js)) (instance_at I 13)"
              using p(4,6,7) eq by (simp add: acc)
            moreover have "instance_at I (14 + i * 3 + j) = ?Js ! i ! j" if "i < length insts" "j < 3" for i j
            proof -
              have "length (hd (insts ! i)) = 7" using one [OF nth_mem [OF that(1)]] by force
              then show ?thesis using q(1) [OF that] that by (simp add: acc)
            qed
            moreover have "\<forall>J \<in> set ?Js. length J = 7 \<and> utxo_statement (poseidon_hash F) (D - 1) J"
              using one stmt by force
            ultimately show "aggregate_statement (poseidon_hash F) D (length (agg_utxo a)) I"
              unfolding aggregate_statement_def using v(1) by (intro exI [of _ ?Js]) simp
          qed
        qed
        done
    qed
    done
qed

text \<open>The aggregated proofs' old and new roots (instances 12 and 13) form a chain.\<close>

fun roots_linked :: "'f \<Rightarrow> 'f list list \<Rightarrow> 'f \<Rightarrow> bool" where
  "roots_linked r [] r' \<longleftrightarrow> r = r'"
| "roots_linked r (J # Js) r' \<longleftrightarrow> J ! 12 = r \<and> roots_linked (J ! 13) Js r'"

definition agg_agg_statement :: "('f::field list \<Rightarrow> bool) \<Rightarrow> nat \<Rightarrow> 'f list \<Rightarrow> bool" where
  "agg_agg_statement P n I \<longleftrightarrow>
     (\<exists>Js. length Js = n \<and> (\<forall>J \<in> set Js. 14 \<le> length J \<and> P J)
        \<and> roots_linked (instance_at I 12) Js (instance_at I 13)
        \<and> (let roots = concat (map (drop 14) Js) in \<forall>i < length roots. instance_at I (14 + i) = roots ! i))"

lemma enforces_agg_chain:
  assumes "\<And>r roots. roots_linked (\<sigma> (idx prev)) (map (\<lambda>js. map (\<lambda>c. \<sigma> (idx c)) (hd js)) aggs) (\<sigma> (idx r)) \<Longrightarrow>
      \<forall>js \<in> set aggs. 14 \<le> length (hd js) \<Longrightarrow> roots = concat (map (\<lambda>js. drop 14 (hd js)) aggs) \<Longrightarrow> Q (r, roots)"
  shows "enforces H I \<sigma> (agg_chain prev aggs) Q"
  using assms
proof (induction aggs arbitrary: prev Q)
  case Nil
  then show ?case unfolding agg_chain.simps by (intro enforces_ret) simp
next
  case (Cons js aggs)
  show ?case
  proof (cases js)
    case Nil
    then show ?thesis by (simp add: enforces_panic del: nlift_run)
  next
    case js: (Cons J rest)
    show ?thesis
    proof (cases "length J < 14")
      case True
      then show ?thesis by (simp add: js enforces_panic del: nlift_run)
    next
      case False
      show ?thesis unfolding agg_chain.simps js list.case if_not_P [OF False]
        apply (rule enforces_bind, rule enforces_constrain, rule enforces_bind, rule Cons.IH)
        apply (simp only: prod.case)
        apply (rule enforces_ret, rule Cons.prems)
          apply (use False in \<open>simp_all add: js\<close>)
        done
    qed
  qed
qed

lemma enforces_aggregate_agg:
  assumes agg: "verifies H aggregate decides (\<lambda>cols. \<exists>J. cols = [J] \<and> P J)"
    and dec: "decides (map (instance_at I) [0..<12])"
  shows "enforces H I \<sigma> (aggregate_agg_synthesize aggregate a) (\<lambda>_. agg_agg_statement P (length (aggregates a)) I)"
proof -
  let ?v = "\<lambda>c. \<sigma> (idx c)"
  show ?thesis unfolding aggregate_agg_synthesize_def
    apply (rule enforces_bind, rule enforces_conseq [OF agg [unfolded verifies_def, rule_format]])
    apply (erule case_prodE, simp only: prod.case)
    apply (rule enforces_bind, rule enforces_constrain_instances)
    subgoal premises p for r acc insts
    proof (cases "insts = [] \<or> hd insts = []")
      case True
      then show ?thesis by (cases insts) (auto simp: enforces_panic simp del: nlift_run)
    next
      case False
      then obtain J cols rest where insts: "insts = (J # cols) # rest" by (cases insts; cases "hd insts") auto
      have "map ?v acc = map (instance_at I) [0..<12]" by (rule nth_equalityI) (use p in simp_all)
      then have v: "length insts = length (aggregates a)" "\<forall>js \<in> set insts. \<exists>J. map (map ?v) js = [J] \<and> P J"
        using p(2) dec by simp_all
      show ?thesis
      proof (cases "length J \<le> 12")
        case True
        then show ?thesis by (simp add: insts enforces_panic del: nlift_run)
      next
        case False
        show ?thesis unfolding insts list.case if_not_P [OF False]
          apply (rule enforces_bind, rule enforces_agg_chain)
          apply (simp only: prod.case)
          apply (intro enforces_bind enforces_constrain enforces_constrain_instances)
          subgoal premises q for new roots
          proof -
            let ?Js = "map (\<lambda>js. map ?v (hd js)) insts"
            have J: "14 \<le> length J' \<and> P J'" if mem: "J' \<in> set ?Js" for J'
            proof -
              obtain js where js: "js \<in> set insts" "J' = map ?v (hd js)" using mem by auto
              obtain K where "map (map ?v) js = [K]" "P K" using bspec [OF v(2) js(1)] by (elim exE conjE)
              then have "J' = K" using js(2) by (cases js) auto
              moreover have "14 \<le> length (hd js)" using bspec [OF q(2)] js(1) by (simp only: insts)
              ultimately show ?thesis using \<open>P K\<close> js(2) by (metis length_map)
            qed
            have roots: "concat (map (drop 14) ?Js) = map ?v roots"
              unfolding q(3) insts [symmetric] by (simp add: map_concat o_def drop_map)
            show ?thesis unfolding agg_agg_statement_def
            proof (intro exI [of _ ?Js] conjI ballI)
              show "roots_linked (instance_at I 12) ?Js (instance_at I 13)"
                using q(1,4,5) by (simp add: insts)
              show "let roots = concat (map (drop 14) ?Js) in \<forall>i < length roots. instance_at I (14 + i) = roots ! i"
                unfolding roots Let_def length_map by (intro allI impI, subst nth_map, assumption) (simp only: q(3,6) add.commute [of 14])
            qed (use v(1) J in auto)
          qed
          done
      qed
    qed
    done
qed

section \<open>An honest aggregate meets the constraints\<close>

text \<open>The chip on honest proofs: its cells have the accumulator's limbs and the instances of the proofs.\<close>

definition completes ::
    "('f::field list \<Rightarrow> 'f) \<Rightarrow> 'f aggregator \<Rightarrow> 'f Snark list \<Rightarrow> bytes \<Rightarrow> 'f list \<Rightarrow> bool" where
  "completes H aggregate snarks proof limbs \<longleftrightarrow>
     (\<forall>I \<sigma>. accepts H I \<sigma> (aggregate snarks proof) (\<lambda>(acc, insts).
        (\<forall>c \<in> set acc. good \<sigma> c) \<and> map val acc = limbs
      \<and> (\<forall>is \<in> set insts. \<forall>cs \<in> set is. \<forall>c \<in> set cs. good \<sigma> c)
      \<and> map (map (map val)) insts = map snark_instances snarks))"

lemma extending_agg_utxo_loop [extending_intros]: "extending (agg_utxo_loop off iss)"
  by (induction off iss rule: agg_utxo_loop.induct) (auto intro!: extending_intros simp del: nlift_run)

lemma accepts_agg_utxo_loop:
  assumes "utxo_public_inputs snarks = Ok pis" "map (map (map val)) iss = map snark_instances snarks"
    "\<forall>is \<in> set iss. \<forall>cs \<in> set is. \<forall>c \<in> set cs. good \<sigma> c"
    "\<And>i. i < length pis \<Longrightarrow> instance_at I (off + i) = pis ! i"
    "\<And>ls. \<forall>c \<in> set ls. good \<sigma> c \<Longrightarrow> map val ls = concat (map (\<lambda>s. drop 3 (hd (snark_instances s))) snarks) \<Longrightarrow> Q ls"
  shows "accepts H I \<sigma> (agg_utxo_loop off iss) Q"
  using assms
proof (induction snarks arbitrary: iss pis off Q)
  case Nil
  then show ?case by (auto simp del: nlift_run intro!: accepts_ret)
next
  case (Cons s snarks)
  obtain root hash v ls cols ps where s: "snark_instances s = (root # hash # v # ls) # cols"
    "utxo_public_inputs snarks = Ok ps" "pis = [root, hash, v] @ ps"
    using Cons.prems(1) by (auto split: list.splits outcome.splits simp: omap_eq_Ok)
  obtain r h w cs js iss' where iss: "iss = ((r # h # w # cs) # js) # iss'"
    "val r = root" "val h = hash" "val w = v" "map val cs = ls" "map (map (map val)) iss' = map snark_instances snarks"
    using Cons.prems(2) s(1) by (auto simp: map_eq_Cons_conv)
  have at: "instance_at I off = root" "instance_at I (off + 1) = hash" "instance_at I (off + 2) = v"
    using Cons.prems(4) [of 0] Cons.prems(4) [of 1] Cons.prems(4) [of 2] by (simp_all add: s)
  have rest: "instance_at I (off + 3 + i) = ps ! i" if "i < length ps" for i
    using Cons.prems(4) [of "3 + i"] that by (simp add: s add.assoc)
  have step: "accepts H I \<sigma> (agg_utxo_loop (off + 3) iss') (\<lambda>ls. accepts H I \<sigma> (nret (cs @ ls)) Q)"
  proof (rule Cons.IH [OF s(2) iss(6) _ rest])
    show "\<forall>is \<in> set iss'. \<forall>cs \<in> set is. \<forall>c \<in> set cs. good \<sigma> c" using Cons.prems(3) iss(1) by simp
    fix ls'
    assume "\<forall>c \<in> set ls'. good \<sigma> c" "map val ls' = concat (map (\<lambda>s. drop 3 (hd (snark_instances s))) snarks)"
    then have "Q (cs @ ls')" using Cons.prems(3) iss(1,5) s(1) by (intro Cons.prems(5)) auto
    then show "accepts H I \<sigma> (nret (cs @ ls')) Q" by (rule accepts_ret)
  qed auto
  show ?case unfolding iss(1) agg_utxo_loop.simps
    apply (intro accepts_bind accepts_constrain extending_intros step)
    using Cons.prems(3) iss at by auto
qed

lemma map_val_nth: "map val cs = vs \<Longrightarrow> i < length cs \<Longrightarrow> val (cs ! i) = vs ! i"
  by auto

lemma accepts_equal_zip:
  assumes "\<forall>c \<in> set as \<union> set bs. good \<sigma> c" "map val as = map val bs" "Q ()"
  shows "accepts H I \<sigma> (nfor (\<lambda>(a, b). constrain_equal a b) (take n (zip as bs))) Q"
proof (rule accepts_for)
  fix x :: "'a cell \<times> 'a cell" and Q :: "unit \<Rightarrow> bool"
  assume "x \<in> set (take n (zip as bs))" "Q ()"
  moreover then obtain i where "i < length as" "i < length bs" "x = (as ! i, bs ! i)"
    by (auto simp: set_zip dest!: in_set_takeD)
  moreover have "val (as ! i) = val (bs ! i)" if "i < length as" "i < length bs" for i
    using arg_cong [OF assms(2), of "\<lambda>xs. xs ! i"] that by simp
  ultimately show "accepts H I \<sigma> (case x of (a, b) \<Rightarrow> constrain_equal a b) Q"
    using assms(1) by (auto intro!: accepts_constrain)
qed (auto intro!: extending_intros simp: assms(3) split: prod.splits)

lemma accepts_aggregate_utxo:
  assumes F: "fr_ok F" and D: "D \<le> 257"
    and agg: "completes (poseidon_hash F) aggregate (agg_utxo a) (agg_utxo_proof a) (agg_utxo_instances a)"
    and old: "batch_old_root F D (agg_insert a) = Ok r" and links: "batch_links F D r (agg_insert a)"
    and leafs: "concat (map (\<lambda>s. drop 3 (hd (snark_instances s))) (agg_utxo a)) = batch_leafs F (agg_insert a)"
    and pub: "aggregate_utxo_public_inputs F D a = Ok I"
  shows "accepts (poseidon_hash F) I \<sigma> (aggregate_utxo_synthesize aggregate F D LEAVES a) (\<lambda>_. True)"
proof -
  have k: "base F (commitment F (padding_note F)) = 0" by (simp add: base_consts [OF F])
  obtain pis where pis: "utxo_public_inputs (agg_utxo a) = Ok pis"
    and I: "I = agg_utxo_instances a @ [r, last_root F D r (agg_insert a)] @ pis"
    using pub by (auto simp: aggregate_utxo_public_inputs_def old batch_new_root_last obind_eq_Ok)
  let ?n = "length (agg_utxo_instances a)"
  have tail: "instance_at I (?n + 2 + i) = pis ! i" if "i < length pis" for i
    using that by (simp add: I instance_at_def nth_append)
  show ?thesis unfolding aggregate_utxo_synthesize_def k
    apply (rule accepts_bind, rule accepts_conseq [OF agg [unfolded completes_def, rule_format]])
     apply (erule case_prodE, simp only: prod.case)
     apply (rule accepts_bind, rule accepts_batch_cells [OF F D old links])
      apply (rule accepts_bind, rule accepts_constrain_instances)
    subgoal by simp
    subgoal premises p for x acc insts c i
    proof -
      have "length acc = ?n" "val (acc ! i) = agg_utxo_instances a ! i"
        using p(2,9) map_val_nth [of acc "agg_utxo_instances a" i] by (auto simp flip: length_map [of val acc])
      then show ?thesis using p(9) by (simp add: I instance_at_def nth_append)
    qed
        apply (rule accepts_bind, rule accepts_constrain)
    subgoal premises p for x acc insts c
    proof -
      have "length acc = ?n" using p(2) by (auto simp flip: length_map [of val acc])
      then show ?thesis using p(3,4) by (simp add: I instance_at_def nth_append)
    qed
         apply (rule accepts_bind, rule accepts_constrain)
    subgoal premises p for x acc insts c
    proof -
      have "length acc = ?n" using p(2) by (auto simp flip: length_map [of val acc])
      then show ?thesis using p(5,6) by (simp add: I instance_at_def nth_append)
    qed
          apply (rule accepts_bind, rule accepts_agg_utxo_loop [OF pis])
    subgoal by simp
    subgoal by simp
    subgoal premises p for x acc insts c i
    proof -
      have "length acc = ?n" using p(2) by (auto simp flip: length_map [of val acc])
      then show ?thesis using tail p(9) by simp
    qed
           apply (rule accepts_equal_zip)
    subgoal by auto
    subgoal premises p for x acc insts c ls
      using p(8,10) leafs by simp
    subgoal by simp
          apply (intro extending_intros)+
    done
qed

abbreviation column :: "'f Snark \<Rightarrow> 'f list" where
  "column snark \<equiv> hd (snark_instances snark)"

lemma agg_agg_utxo_values_Ok:
  "agg_agg_utxo_values snarks = Ok vs \<longleftrightarrow>
    (\<forall>s \<in> set snarks. snark_instances s \<noteq> [] \<and> 14 \<le> length (column s)) \<and> vs = concat (map (\<lambda>s. drop 14 (column s)) snarks)"
  by (induction snarks arbitrary: vs) (auto simp: omap_eq_Ok split: list.splits)

lemma agg_agg_public_inputs_Ok:
  assumes "agg_agg_public_inputs F a = Ok I"
  obtains "aggregates a \<noteq> []" "\<forall>s \<in> set (aggregates a). snark_instances s \<noteq> [] \<and> 14 \<le> length (column s)"
    "I = map (base F) (agg_agg_instances a) @ [column (hd (aggregates a)) ! 12, column (last (aggregates a)) ! 13]
      @ concat (map (\<lambda>s. drop 14 (column s)) (aggregates a))"
  using assms
  by (cases "aggregates a" rule: rev_cases; cases "aggregates a")
    (auto simp: agg_agg_public_inputs_def agg_agg_old_root_def agg_agg_new_root_def column_at_def obind_eq_Ok
      agg_agg_utxo_values_Ok split: list.splits if_splits)

lemma extending_agg_chain [extending_intros]: "extending (agg_chain prev iss)"
  by (induction prev iss rule: agg_chain.induct)
    (auto intro!: extending_intros simp del: nlift_run split: list.split)

lemma roots_linked_last: "roots_linked r Js r' \<Longrightarrow> Js \<noteq> [] \<Longrightarrow> r = hd Js ! 12 \<and> r' = last Js ! 13"
  by (induction r Js r' rule: roots_linked.induct) (auto split: if_splits)

lemma accepts_agg_chain:
  assumes "\<forall>s \<in> set snarks. snark_instances s \<noteq> [] \<and> 14 \<le> length (column s)"
    "map (map (map val)) iss = map snark_instances snarks" "\<forall>is \<in> set iss. \<forall>cs \<in> set is. \<forall>c \<in> set cs. good \<sigma> c"
    "good \<sigma> prev" "roots_linked (val prev) (map column snarks) new"
    "\<And>r roots. good \<sigma> r \<Longrightarrow> val r = new \<Longrightarrow> \<forall>c \<in> set roots. good \<sigma> c \<Longrightarrow>
      map val roots = concat (map (\<lambda>s. drop 14 (column s)) snarks) \<Longrightarrow> Q (r, roots)"
  shows "accepts H I \<sigma> (agg_chain prev iss) Q"
  using assms
proof (induction snarks arbitrary: iss prev Q)
  case Nil
  then have "Q (prev, [])" by simp
  with Nil.prems(2) show ?case by (auto simp del: nlift_run intro: accepts_ret)
next
  case (Cons s snarks)
  obtain J cols js iss' where iss: "iss = (J # js) # iss'" "snark_instances s = map val J # cols"
    "map (map (map val)) iss' = map snark_instances snarks"
    using Cons.prems(1,2) by (cases "snark_instances s") (auto simp: map_eq_Cons_conv)
  have J: "\<not> length J < 14" "val prev = val (J ! 12)" "roots_linked (val (J ! 13)) (map column snarks) new" "\<forall>c \<in> set J. good \<sigma> c"
    using Cons.prems(1,3,5) iss by auto
  have mem: "good \<sigma> (J ! 12)" "good \<sigma> (J ! 13)" using J(1,4) by simp_all
  have step: "accepts H I \<sigma> (agg_chain (J ! 13) iss')
      (\<lambda>p. accepts H I \<sigma> (case p of (r, roots) \<Rightarrow> nret (r, drop 14 J @ roots)) Q)"
  proof (rule Cons.IH [OF _ iss(3) _ mem(2) J(3)])
    fix r roots
    assume "good \<sigma> r" "val r = new" "\<forall>c \<in> set roots. good \<sigma> c" "map val roots = concat (map (\<lambda>s. drop 14 (column s)) snarks)"
    then have "Q (r, drop 14 J @ roots)" using J(4) iss(2) by (intro Cons.prems(6)) (auto simp: drop_map dest: in_set_dropD)
    then show "accepts H I \<sigma> (case (r, roots) of (r, roots) \<Rightarrow> nret (r, drop 14 J @ roots)) Q"
      by (simp only: prod.case) (rule accepts_ret)
  qed (use Cons.prems(1,3) iss(1) in auto)
  show ?case unfolding iss(1) agg_chain.simps list.case if_not_P [OF J(1)]
    by (intro accepts_bind accepts_constrain extending_intros step) (use Cons.prems(4) J(2) mem in simp)
qed

lemma accepts_aggregate_agg:
  assumes agg: "completes H aggregate (aggregates a) (agg_agg_proof a) (map (base F) (agg_agg_instances a))"
    and twelve: "length (agg_agg_instances a) = 12"
    and pub: "agg_agg_public_inputs F a = Ok I"
    and linked: "roots_linked (column (hd (aggregates a)) ! 12) (map column (aggregates a)) (column (last (aggregates a)) ! 13)"
  shows "accepts H I \<sigma> (aggregate_agg_synthesize aggregate a) (\<lambda>_. True)"
proof (rule agg_agg_public_inputs_Ok [OF pub])
  assume ne: "aggregates a \<noteq> []" and cols: "\<forall>s \<in> set (aggregates a). snark_instances s \<noteq> [] \<and> 14 \<le> length (column s)"
    and I: "I = map (base F) (agg_agg_instances a) @ [column (hd (aggregates a)) ! 12, column (last (aggregates a)) ! 13]
      @ concat (map (\<lambda>s. drop 14 (column s)) (aggregates a))"
  show ?thesis unfolding aggregate_agg_synthesize_def
    apply (rule accepts_bind, rule accepts_conseq [OF agg [unfolded completes_def, rule_format]])
     apply (erule case_prodE, simp only: prod.case)
     apply (rule accepts_bind, rule accepts_constrain_instances)
    subgoal by simp
    subgoal premises p for x acc insts i
    proof -
      have "length acc = 12" "val (acc ! i) = map (base F) (agg_agg_instances a) ! i"
        using p(2,3) map_val_nth [of acc "map (base F) (agg_agg_instances a)" i] twelve by (auto simp flip: length_map [of val acc])
      then show ?thesis using p(3) twelve by (simp add: I instance_at_def nth_append)
    qed
    subgoal premises p for x acc insts
    proof -
      obtain s snarks where s: "aggregates a = s # snarks" using ne by (cases "aggregates a") auto
      obtain K rest where K: "snark_instances s = K # rest" using cols s by (cases "snark_instances s") auto
      then obtain J js iss where insts: "insts = (J # js) # iss" "column s = map val J"
        using p(2) s by (auto simp: map_eq_Cons_conv)
      have J: "\<not> length J \<le> 12" "\<forall>c \<in> set J. good \<sigma> c" using cols s insts p(2) by auto
      have first: "good \<sigma> (J ! 12)" "val (J ! 12) = column (hd (aggregates a)) ! 12" using J s insts(2) by auto
      show ?thesis unfolding insts list.case if_not_P [OF J(1)]
        apply (rule accepts_bind, rule accepts_agg_chain [where new = "column (last (aggregates a)) ! 13", OF cols])
        subgoal using p(2) insts(1) by simp
        subgoal using p(2) insts(1) by simp
        subgoal by (rule first(1))
        subgoal using linked first(2) by simp
         apply (simp only: prod.case)
         apply (rule accepts_bind, rule accepts_constrain)
        subgoal using first twelve by (simp add: I instance_at_def nth_append)
          apply (rule accepts_bind, rule accepts_constrain)
        subgoal using twelve by (simp add: I instance_at_def nth_append)
           apply (rule accepts_constrain_instances)
        subgoal by simp
        subgoal premises q for r roots i
        proof -
          have "length roots = length (concat (map (\<lambda>s. drop 14 (column s)) (aggregates a)))" by (simp flip: q(4))
          moreover have "val (roots ! i) = concat (map (\<lambda>s. drop 14 (column s)) (aggregates a)) ! i" using q(5) by (simp flip: q(4))
          ultimately show ?thesis using q(5) twelve by (simp add: I instance_at_def nth_append)
        qed
           apply simp
          apply (intro extending_intros)+
        done
    qed
      apply (auto intro!: extending_intros simp del: nlift_run split: list.split)
    done
qed

end
