(* ===== verification/Circuit_Sample.thy ===== *)
theory Circuit_Sample
  imports Note_Circuits Aggregate_Circuit
begin

text \<open>
  A concrete field and hash at which the assumptions of the circuits hold, and a transaction, a batch of inserts and
  aggregates over it: the inputs of the witnesses of \<open>Circuit_Props\<close>.
\<close>

section \<open>The field with five elements\<close>

typedef gf5 = "{0..<5 :: int}" by (rule exI [of _ 0]) simp

setup_lifting type_definition_gf5

instantiation gf5 :: field
begin

lift_definition zero_gf5 :: gf5 is 0 by simp
lift_definition one_gf5 :: gf5 is 1 by simp
lift_definition plus_gf5 :: "gf5 \<Rightarrow> gf5 \<Rightarrow> gf5" is "\<lambda>a b. (a + b) mod 5" by simp
lift_definition minus_gf5 :: "gf5 \<Rightarrow> gf5 \<Rightarrow> gf5" is "\<lambda>a b. (a - b) mod 5" by simp
lift_definition uminus_gf5 :: "gf5 \<Rightarrow> gf5" is "\<lambda>a. (- a) mod 5" by simp
lift_definition times_gf5 :: "gf5 \<Rightarrow> gf5 \<Rightarrow> gf5" is "\<lambda>a b. (a * b) mod 5" by simp
lift_definition inverse_gf5 :: "gf5 \<Rightarrow> gf5" is "\<lambda>a. a ^ 3 mod 5" by simp

definition divide_gf5 :: "gf5 \<Rightarrow> gf5 \<Rightarrow> gf5" where
  "divide_gf5 a b = a * inverse b"

lemma gf5_inverse: "a \<noteq> 0 \<Longrightarrow> inverse a * a = 1" for a :: gf5
proof transfer
  fix a :: int
  assume "a \<in> {0..<5}" "a \<noteq> 0"
  then have "a = 1 \<or> a = 2 \<or> a = 3 \<or> a = 4" by auto
  then show "a ^ 3 mod 5 * a mod 5 = 1" by auto
qed

instance
proof
  fix a b c :: gf5
  show "a + b + c = a + (b + c)" by transfer (simp add: mod_simps ac_simps)
  show "a + b = b + a" by transfer (simp add: ac_simps)
  show "0 + a = a" by transfer simp
  show "- a + a = 0" by transfer (simp add: mod_simps)
  show "a - b = a + - b" by transfer (simp add: mod_simps)
  show "a * b * c = a * (b * c)" by transfer (simp add: mod_simps ac_simps)
  show "a * b = b * a" by transfer (simp add: ac_simps)
  show "1 * a = a" by transfer simp
  show "(a + b) * c = a * c + b * c" by transfer (simp add: mod_simps algebra_simps)
  show "(0 :: gf5) \<noteq> 1" by transfer simp
  show "a \<noteq> 0 \<Longrightarrow> inverse a * a = 1" by (rule gf5_inverse)
  show "a div b = a * inverse b" by (rule divide_gf5_def)
  show "inverse (0 :: gf5) = 0" by transfer simp
qed

end

lemma Rep_gf5_of_nat: "Rep_gf5 (of_nat n) = int n mod 5"
  by (induction n) (simp_all add: zero_gf5.rep_eq one_gf5.rep_eq plus_gf5.rep_eq mod_simps)

lemma Rep_gf5_numeral: "Rep_gf5 (numeral n) = numeral n mod 5"
  using Rep_gf5_of_nat [of "numeral n"] by simp

lemmas gf5_simps = Rep_gf5_inject [symmetric] zero_gf5.rep_eq one_gf5.rep_eq plus_gf5.rep_eq times_gf5.rep_eq
  minus_gf5.rep_eq Rep_gf5_numeral Rep_gf5_of_nat

section \<open>The conversions and the hash\<close>

definition F5 :: "gf5 Fr" where
  "F5 = \<lparr>poseidon_hash = \<lambda>xs. foldr (\<lambda>x a. x + 2 * a) xs 3,
         from_raw = \<lambda>ls. of_nat (limbs_val ls),
         to_repr = \<lambda>b. rev (be_bytes 32 (nat (Rep_gf5 b)))\<rparr>"

lemma F5_ok: "fr_ok F5"
proof -
  have r: "0 \<le> Rep_gf5 b" "Rep_gf5 b < 5" for b using Rep_gf5 [of b] by simp_all
  have val: "be_val (rev (to_repr F5 b)) = nat (Rep_gf5 b)" for b
    using r [of b] by (simp add: F5_def be_val_be_bytes)
  have "of_nat (nat (Rep_gf5 b)) = b" for b using r [of b] by (simp add: Rep_gf5_inject [symmetric] Rep_gf5_of_nat del: of_nat_nat)
  moreover have "nat (Rep_gf5 b) < unat MODULUS" for b
  proof -
    have "5 < unat MODULUS" by (simp add: MODULUS_def)
    with r [of b] show ?thesis by linarith
  qed
  moreover have "(2 :: gf5) \<noteq> 0" "(3 :: gf5) \<noteq> 0" by (simp_all add: gf5_simps)
  ultimately show ?thesis unfolding fr_ok_def val by (simp add: F5_def zero_gf5.rep_eq)
qed

lemma F5_hash: "poseidon_hash F5 xs = foldr (\<lambda>x a. x + 2 * a) xs 3"
  by (simp add: F5_def)

lemma F5_small:
  assumes "n < 5"
  shows "base F5 (of_nat n) = of_nat n" "represented F5 (of_nat n)"
proof -
  have n: "unat (of_nat n :: element) = n" using assms by (simp add: unat_of_nat)
  then show b: "base F5 (of_nat n) = of_nat n" by (simp only: fr_okD(4) [OF F5_ok])
  have "unat (elem F5 (of_nat n)) = n" unfolding unat_elem [OF fr_okD(1) [OF F5_ok]]
    using assms by (simp add: F5_def Rep_gf5_of_nat be_val_be_bytes nat_mod_distrib)
  then show "represented F5 (of_nat n)" unfolding represented_def b using n by (metis word_unat_eq_iff)
qed

lemma F5_consts [simp]:
  "base F5 ZERO = 0" "base F5 ONE = 1" "base F5 2 = 2" "represented F5 ZERO" "represented F5 ONE" "represented F5 2"
  using F5_small [of 0] F5_small [of 1] F5_small [of 2] by (simp_all add: ZERO_def ONE_def)

section \<open>A transaction and a batch\<close>

text \<open>A note of the key one, in the right slot of a tree of depth two beside an element one.\<close>

definition note5 :: "element \<Rightarrow> Note" where
  "note5 v = note_restore (merge F5 [ONE, ZERO]) ZERO v ZERO"

definition input5 :: "element \<Rightarrow> InputNote" where
  "input5 v = input_note_new (note5 v) ONE \<lparr>path_siblings = [ONE]\<rparr>"

definition utxo5 :: Utxo where
  "utxo5 = utxo_tx_new [input5 ONE, input5 ZERO] [note5 ONE, note5 ZERO] (recent_root F5 2 (input5 ONE)) KTransfer"

lemma note5_fields [simp]:
  "note_value (note5 v) = v" "note_address (note5 v) = merge F5 [ONE, ZERO]" "note_psi (note5 v) = ZERO"
  "note_source (note5 v) = ZERO"
  by (simp_all add: note5_def note_restore_def)

lemma ONE_neq_ZERO: "ONE \<noteq> ZERO"
  by (simp add: ONE_def ZERO_def)

lemma note5_ok: "note_ok F5 (note5 ZERO)" "note_ok F5 (note5 ONE)"
proof -
  show "note_ok F5 (note5 ZERO)" by (simp add: note_ok_def)
  have "base F5 (commitment F5 (note5 ONE)) = 2"
    by (simp add: commitment_def base_merge [OF F5_ok] F5_hash ONE_neq_ZERO) (simp add: gf5_simps)
  moreover have "(2 :: gf5) \<noteq> 0" by (simp add: gf5_simps)
  ultimately have "commitment F5 (note5 ONE) \<noteq> ZERO" by auto
  then show "note_ok F5 (note5 ONE)" by (simp add: note_ok_def)
qed

lemma utxo5_ok: "utxo_ok F5 2 utxo5" "utxo_shape 2 utxo5"
proof -
  show u: "utxo_shape 2 utxo5"
    by (simp add: utxo_shape_def utxo5_def utxo_tx_new_def input5_def input_note_new_def UTXO_INPUTS_def UTXO_OUTPUTS_def)
  have "input_ok F5 2 (input5 ZERO)" "input_ok F5 2 (input5 ONE)"
    by (simp_all add: input_ok_def input5_def input_note_new_def note5_ok)
  moreover have "in_note (input5 v) = note5 v" for v by (simp add: input5_def input_note_new_def)
  moreover have "unat ZERO < 2 ^ 240" "unat ONE < 2 ^ 240" by (simp_all add: ZERO_def ONE_def)
  ultimately show "utxo_ok F5 2 utxo5"
    unfolding utxo_ok_def using u by (simp add: utxo5_def utxo_tx_new_def note5_ok)
qed

text \<open>One goes to the right of zero, then two to the left of one.\<close>

definition insert5 :: "Insert list" where
  "insert5 = [insert_new ONE \<lparr>path_siblings = [ZERO]\<rparr>, insert_new 2 \<lparr>path_siblings = [ONE]\<rparr>]"

lemma insert5_ok:
  "\<forall>i \<in> set insert5. length (path_siblings (insert_path i)) = 1"
  "batch_old_root F5 2 insert5 = Ok (poseidon_hash F5 [0, 0])"
  "batch_links F5 2 (poseidon_hash F5 [0, 0]) insert5"
  "batch_public_inputs F5 2 insert5 = Ok [poseidon_hash F5 [0, 0], poseidon_hash F5 [2, 1], 1, 2]"
proof -
  have b: "least_significant_bits 2 ONE = [True]" "least_significant_bits 2 2 = [False]"
    by (simp_all add: least_significant_bits_eq ONE_def)
  have r: "insert_null_root F5 2 (insert_new ONE \<lparr>path_siblings = [ZERO]\<rparr>) = poseidon_hash F5 [0, 0]"
    "insert_leaf_root F5 2 (insert_new ONE \<lparr>path_siblings = [ZERO]\<rparr>) = poseidon_hash F5 [0, 1]"
    "insert_null_root F5 2 (insert_new 2 \<lparr>path_siblings = [ONE]\<rparr>) = poseidon_hash F5 [0, 1]"
    "insert_leaf_root F5 2 (insert_new 2 \<lparr>path_siblings = [ONE]\<rparr>) = poseidon_hash F5 [2, 1]"
    by (simp_all add: insert_null_root_def insert_leaf_root_def compute_null_root_def compute_root_def insert_new_def
        compute_root_from_leaf_def path_along_def b fr_okD(5) [OF F5_ok])
  have p: "\<not> insert_is_padding F5 (insert_new ONE q)" "\<not> insert_is_padding F5 (insert_new 2 q)" for q
    by (simp_all add: insert_is_padding_def insert_new_def ZERO_def ONE_def)
  show "\<forall>i \<in> set insert5. length (path_siblings (insert_path i)) = 1" by (simp add: insert5_def insert_new_def)
  show old: "batch_old_root F5 2 insert5 = Ok (poseidon_hash F5 [0, 0])" by (simp add: insert5_def r)
  show "batch_links F5 2 (poseidon_hash F5 [0, 0]) insert5"
    by (simp add: insert5_def r p) (simp add: insert_ok_def insert_new_def)
  show "batch_public_inputs F5 2 insert5 = Ok [poseidon_hash F5 [0, 0], poseidon_hash F5 [2, 1], 1, 2]"
    by (simp add: batch_public_inputs_def old batch_new_root_def batch_leafs_def)
      (simp add: insert5_def iter_find_def p r, simp add: insert_new_def)
qed

section \<open>Aggregates\<close>

text \<open>A chip that verifies proofs with one fixed column of instances: all of its cells are constants.\<close>

definition agg5 :: "'f::field list \<Rightarrow> 'f aggregator" where
  "agg5 J snarks proof =
     nbind (nmap assign_from_constant (replicate 12 0)) (\<lambda>acc.
     nbind (nmap (\<lambda>_. nmap assign_from_constant J) snarks) (\<lambda>insts.
     nret (acc, map (\<lambda>cs. [cs]) insts)))"

lemma agg5_verifies:
  assumes "verified [J]"
  shows "verifies H (agg5 J) decides verified"
  unfolding verifies_def agg5_def
proof (intro allI)
  fix I and \<sigma> :: "nat \<Rightarrow> 'a" and snarks :: "'a Snark list"
  have const: "enforces H I \<sigma> (nmap assign_from_constant ks) Q"
    if "\<And>cs. map (\<lambda>c. \<sigma> (idx c)) cs = ks \<Longrightarrow> Q cs" for ks Q
    by (rule enforces_map [where P = "\<lambda>k c. \<sigma> (idx c) = k"])
      (auto intro!: enforces_constant that simp: list_all2_conv_all_nth list_eq_iff_nth_eq)
  show "enforces H I \<sigma> (nbind (nmap assign_from_constant (replicate 12 0)) (\<lambda>acc.
      nbind (nmap (\<lambda>_. nmap assign_from_constant J) snarks) (\<lambda>insts. nret (acc, map (\<lambda>cs. [cs]) insts))))
    (\<lambda>(acc, insts). length acc = 12 \<and> (decides (map (\<lambda>c. \<sigma> (idx c)) acc) \<longrightarrow>
       length insts = length snarks \<and> (\<forall>is \<in> set insts. verified (map (map (\<lambda>c. \<sigma> (idx c))) is))))"
    apply (rule enforces_bind, rule const)
    apply (rule enforces_bind, rule enforces_map [where P = "\<lambda>_ cs. map (\<lambda>c. \<sigma> (idx c)) cs = J"])
     apply (rule const, simp)
    apply (rule enforces_ret)
    using assms by (auto simp: list_all2_conv_all_nth in_set_conv_nth dest: arg_cong [of _ _ length])
qed

lemma agg5_completes:
  assumes "\<forall>s \<in> set snarks. snark_instances s = [J]"
  shows "completes H (agg5 J) snarks proof (replicate 12 0)"
  unfolding completes_def agg5_def
proof (intro allI)
  fix I and \<sigma> :: "nat \<Rightarrow> 'a"
  have const: "accepts H I \<sigma> (nmap assign_from_constant ks) Q"
    if "\<And>cs. \<forall>c \<in> set cs. good \<sigma> c \<Longrightarrow> map val cs = ks \<Longrightarrow> Q cs" for ks Q
  proof (rule accepts_map [where P = "\<lambda>k c. good \<sigma> c \<and> val c = k"])
    show "Q cs" if "list_all2 (\<lambda>k c. good \<sigma> c \<and> val c = k) ks cs" for cs
      using \<open>\<And>cs. _ \<Longrightarrow> _ \<Longrightarrow> Q cs\<close> assigned_values [where g = "\<lambda>k. k", OF that] by simp
  qed (auto intro!: accepts_constant extending_intros)
  show "accepts H I \<sigma> (nbind (nmap assign_from_constant (replicate 12 0)) (\<lambda>acc.
      nbind (nmap (\<lambda>_. nmap assign_from_constant J) snarks) (\<lambda>insts. nret (acc, map (\<lambda>cs. [cs]) insts))))
    (\<lambda>(acc, insts). (\<forall>c \<in> set acc. good \<sigma> c) \<and> map val acc = replicate 12 0
      \<and> (\<forall>is \<in> set insts. \<forall>cs \<in> set is. \<forall>c \<in> set cs. good \<sigma> c) \<and> map (map (map val)) insts = map snark_instances snarks)"
    apply (rule accepts_bind, rule const)
     apply (rule accepts_bind, rule accepts_map [where P = "\<lambda>_ cs. (\<forall>c \<in> set cs. good \<sigma> c) \<and> map val cs = J"])
        apply (rule const, simp)
       apply (intro extending_intros)
      apply (rule accepts_ret)
    subgoal premises p for acc insts
    proof -
      have v: "\<forall>cs \<in> set insts. \<forall>c \<in> set cs. good \<sigma> c" "map (map val) insts = map (\<lambda>_. J) snarks"
        using assigned_values [where g = "\<lambda>_. J", OF p(3)] by simp_all
      have "map (map (map val)) (map (\<lambda>cs. [cs]) insts) = map (\<lambda>K. [K]) (map (map val) insts)" by simp
      also have "\<dots> = map snark_instances snarks" using assms by (simp add: v(2))
      finally show ?thesis using p(1,2) v(1) by (simp del: map_map)
    qed
     apply (intro extending_intros)+
    done
qed

text \<open>A mint of the note, and the inserts of its leaves.\<close>

definition mint5 :: Utxo where
  "mint5 = utxo_tx_new [input5 ZERO, input5 ZERO] [note5 ONE, note5 ZERO] ZERO KMint"

definition agg_utxo5 :: "gf5 AggregateUtxo" where
  "agg_utxo5 =
     \<lparr>agg_utxo = [\<lparr>snark_instances = [[0, 2, 1, 0, 0, 2, 0]], snark_proof = []\<rparr>],
      agg_insert = map (\<lambda>e. insert_new e \<lparr>path_siblings = [ONE]\<rparr>) [ZERO, ZERO, 2, ZERO],
      agg_utxo_instances = replicate 12 0, agg_utxo_proof = []\<rparr>"

lemma commitment5: "base F5 (commitment F5 (note5 ONE)) = 2" "base F5 (commitment F5 (note5 ZERO)) = 0"
  by (simp_all add: commitment_def base_merge [OF F5_ok] F5_hash ONE_neq_ZERO) (simp add: gf5_simps)

lemma mint5_ok: "utxo_ok F5 2 mint5" "utxo_shape 2 mint5" "public_inputs F5 mint5 = [0, 2, 1, 0, 0, 2, 0]"
proof -
  show u: "utxo_shape 2 mint5"
    by (simp add: utxo_shape_def mint5_def utxo_tx_new_def input5_def input_note_new_def UTXO_INPUTS_def UTXO_OUTPUTS_def)
  have "input_ok F5 2 (input5 ZERO)" by (simp add: input_ok_def input5_def input_note_new_def note5_ok)
  moreover have n: "in_note (input5 v) = note5 v" for v by (simp add: input5_def input_note_new_def)
  moreover have "unat ZERO < 2 ^ 240" "unat ONE < 2 ^ 240" by (simp_all add: ZERO_def ONE_def)
  ultimately show "utxo_ok F5 2 mint5"
    unfolding utxo_ok_def using u by (simp add: mint5_def utxo_tx_new_def note5_ok)
  have "base F5 (input_nullifier F5 (input5 ZERO)) = 0"
    by (simp add: input_nullifier_def n nullifier_eq [OF F5_ok note5_ok(1)])
  then show "public_inputs F5 mint5 = [0, 2, 1, 0, 0, 2, 0]"
    by (simp add: public_inputs_def mint5_def utxo_tx_new_def commitment5)
qed

lemma agg_utxo5_ok:
  "length (agg_utxo agg_utxo5) = 1"
  "batch_old_root F5 2 (agg_insert agg_utxo5) = Ok (poseidon_hash F5 [0, 1])"
  "batch_links F5 2 (poseidon_hash F5 [0, 1]) (agg_insert agg_utxo5)"
  "concat (map (\<lambda>s. drop 3 (hd (snark_instances s))) (agg_utxo agg_utxo5)) = batch_leafs F5 (agg_insert agg_utxo5)"
  "aggregate_utxo_public_inputs F5 2 agg_utxo5 = Ok (replicate 12 0 @ [poseidon_hash F5 [0, 1], poseidon_hash F5 [2, 1], 0, 2, 1])"
  "\<forall>i \<in> set (agg_insert agg_utxo5). length (path_siblings (insert_path i)) = 2 - 1"
  "length (agg_insert agg_utxo5) = length (agg_utxo agg_utxo5) * 4"
  "completes H (agg5 [0, 2, 1, 0, 0, 2, 0]) (agg_utxo agg_utxo5) (agg_utxo_proof agg_utxo5) (agg_utxo_instances agg_utxo5)"
proof -
  let ?i = "\<lambda>e. insert_new e \<lparr>path_siblings = [ONE]\<rparr>"
  have i: "agg_insert agg_utxo5 = [?i ZERO, ?i ZERO, ?i 2, ?i ZERO]" by (simp add: agg_utxo5_def)
  have b: "least_significant_bits 2 ZERO = [False]" "least_significant_bits 2 2 = [False]"
    by (simp_all add: least_significant_bits_eq ZERO_def)
  have r: "insert_null_root F5 2 (?i ZERO) = poseidon_hash F5 [0, 1]" "insert_null_root F5 2 (?i 2) = poseidon_hash F5 [0, 1]"
    "insert_leaf_root F5 2 (?i 2) = poseidon_hash F5 [2, 1]"
    by (simp_all add: insert_null_root_def insert_leaf_root_def compute_null_root_def compute_root_def insert_new_def
        compute_root_from_leaf_def path_along_def b fr_okD(5) [OF F5_ok])
  have p: "insert_is_padding F5 (?i ZERO)" "\<not> insert_is_padding F5 (?i 2)"
    by (simp_all add: insert_is_padding_def insert_new_def ZERO_def)
  have ok: "insert_ok F5 2 (?i ZERO)" "insert_ok F5 2 (?i 2)" by (simp_all add: insert_ok_def insert_new_def)
  show "length (agg_utxo agg_utxo5) = 1" by (simp add: agg_utxo5_def)
  show old: "batch_old_root F5 2 (agg_insert agg_utxo5) = Ok (poseidon_hash F5 [0, 1])" by (simp add: i r)
  show "batch_links F5 2 (poseidon_hash F5 [0, 1]) (agg_insert agg_utxo5)" by (simp add: i r p ok)
  show "concat (map (\<lambda>s. drop 3 (hd (snark_instances s))) (agg_utxo agg_utxo5)) = batch_leafs F5 (agg_insert agg_utxo5)"
    by (simp add: i batch_leafs_def insert_new_def) (simp add: agg_utxo5_def)
  show "aggregate_utxo_public_inputs F5 2 agg_utxo5 = Ok (replicate 12 0 @ [poseidon_hash F5 [0, 1], poseidon_hash F5 [2, 1], 0, 2, 1])"
    unfolding aggregate_utxo_public_inputs_def old batch_new_root_def by (simp add: i iter_find_def p r) (simp add: agg_utxo5_def)
  show "\<forall>i \<in> set (agg_insert agg_utxo5). length (path_siblings (insert_path i)) = 2 - 1" by (simp add: i insert_new_def)
  show "length (agg_insert agg_utxo5) = length (agg_utxo agg_utxo5) * 4" by (simp add: agg_utxo5_def)
  have "completes H (agg5 [0, 2, 1, 0, 0, 2, 0]) (agg_utxo agg_utxo5) (agg_utxo_proof agg_utxo5) (replicate 12 0)"
    by (rule agg5_completes) (simp add: agg_utxo5_def)
  then show "completes H (agg5 [0, 2, 1, 0, 0, 2, 0]) (agg_utxo agg_utxo5) (agg_utxo_proof agg_utxo5) (agg_utxo_instances agg_utxo5)"
    by (simp add: agg_utxo5_def)
qed

text \<open>Two equal proofs whose old and new root agree form a chain.\<close>

definition agg_agg5 :: "gf5 AggregateAgg" where
  "agg_agg5 =
     \<lparr>aggregates = replicate 2 \<lparr>snark_instances = [replicate 12 0 @ [1, 1, 3]], snark_proof = []\<rparr>,
      agg_agg_instances = replicate 12 ZERO, agg_agg_proof = []\<rparr>"

lemma agg_agg5_ok:
  "agg_agg_public_inputs F5 agg_agg5 = Ok (replicate 12 0 @ [1, 1, 3, 3])"
  "length (agg_agg_instances agg_agg5) = 12"
  "roots_linked (column (hd (aggregates agg_agg5)) ! 12) (map column (aggregates agg_agg5)) (column (last (aggregates agg_agg5)) ! 13)"
  "completes H (agg5 (replicate 12 0 @ [1, 1, 3])) (aggregates agg_agg5) (agg_agg_proof agg_agg5)
     (map (base F5) (agg_agg_instances agg_agg5))"
proof -
  have two: "replicate 2 x = [x, x]" for x :: "gf5 Snark" by (simp add: numeral_2_eq_2)
  show "agg_agg_public_inputs F5 agg_agg5 = Ok (replicate 12 0 @ [1, 1, 3, 3])"
    by (simp add: agg_agg_public_inputs_def agg_agg_old_root_def agg_agg_new_root_def column_at_def agg_agg5_def two nth_append)
  show "length (agg_agg_instances agg_agg5) = 12" by (simp add: agg_agg5_def)
  show "roots_linked (column (hd (aggregates agg_agg5)) ! 12) (map column (aggregates agg_agg5)) (column (last (aggregates agg_agg5)) ! 13)"
    by (simp add: agg_agg5_def two nth_append)
  show "completes H (agg5 (replicate 12 0 @ [1, 1, 3])) (aggregates agg_agg5) (agg_agg_proof agg_agg5)
     (map (base F5) (agg_agg_instances agg_agg5))"
    using agg5_completes [of "aggregates agg_agg5" "replicate 12 0 @ [1, 1, 3]" H "agg_agg_proof agg_agg5"]
    by (simp add: agg_agg5_def)
qed

end
