(* ===== verification/Circuit_Tree.thy ===== *)
theory Circuit_Tree
  imports Insert_Circuit
begin

text \<open>
  What a batch of inserts proved by the circuit means for the Smirk tree: the steps of the batch start from the root hash
  of a tree, so, as long as the hash does not collide on the pairs that are hashed, every leaf goes to a
  free slot of the tree and the last root is the root hash of the tree with the leaves.
\<close>

section \<open>A path to a root determines the slot\<close>

lemma root_pairs_append:
  "root_pairs hm x (ss @ [(s, b)]) =
    root_pairs hm x ss @ [if b then (s, compute_merkle_root hm x ss) else (compute_merkle_root hm x ss, s)]"
  by (induction hm x ss rule: root_pairs.induct) (auto simp: Let_def)

lemma merkle_path_binding:
  assumes "compute_merkle_root hm x (zip sib (rev p)) = merkle hm d f" "length p = d - 1" "length sib = length p" "1 \<le> d"
    and "inj_on (\<lambda>(l, r). hm l r) (set (root_pairs hm x (zip sib (rev p))) \<union> merkle_pairs hm d f)"
  shows "x = slot_value (f p)" "compute_merkle_root hm y (zip sib (rev p)) = merkle hm d (f(p \<mapsto> y))"
proof -
  have "x = slot_value (f p) \<and> compute_merkle_root hm y (zip sib (rev p)) = merkle hm d (f(p \<mapsto> y))"
    using assms
  proof (induction p arbitrary: d f sib)
    case Nil
    then have "d = 1" by simp
    then show ?case using Nil by (simp add: slot_value_def split: option.splits)
  next
    case (Cons b p)
    obtain k where d: "d = Suc (Suc k)" using Cons.prems(2) by (cases d; cases "d - 1") auto
    obtain st s where sib: "sib = st @ [s]" "length st = length p"
      using Cons.prems(3) by (cases sib rule: rev_cases) auto
    let ?ss = "zip st (rev p)" and ?f = "\<lambda>c q. f (c # q)"
    have z: "zip sib (rev (b # p)) = ?ss @ [(s, b)]" by (simp add: sib)
    let ?r = "\<lambda>v. compute_merkle_root hm v ?ss"
    have root: "compute_merkle_root hm v (?ss @ [(s, b)]) = (case if b then (s, ?r v) else (?r v, s) of (l, r) \<Rightarrow> hm l r)" for v
      by (cases b) (simp_all add: compute_merkle_root_append)
    have "(if b then (s, ?r x) else (?r x, s)) = (merkle hm (Suc k) (?f False), merkle hm (Suc k) (?f True))"
      by (rule inj_onD [OF Cons.prems(5) [unfolded z]])
        (use Cons.prems(1) [unfolded z root] in \<open>simp_all add: root_pairs_append d\<close>)
    then have eq: "?r x = merkle hm (Suc k) (?f b)" "s = merkle hm (Suc k) (?f (\<not> b))" by (cases b; simp)+
    have "inj_on (\<lambda>(l, r). hm l r) (set (root_pairs hm x ?ss) \<union> merkle_pairs hm (Suc k) (?f b))"
      by (rule inj_on_subset [OF Cons.prems(5)]) (unfold z root_pairs_append d, cases b; auto)
    with Cons.IH [OF eq(1)] Cons.prems(2) sib(2) d have IH: "x = slot_value (f (b # p))"
      "?r y = merkle hm (Suc k) ((?f b)(p \<mapsto> y))" by (simp_all del: fun_upd_apply)
    have view: "(\<lambda>q. (f(b # p \<mapsto> y)) (c # q)) = (if c = b then (?f b)(p \<mapsto> y) else ?f (\<not> b))" for c by auto
    show ?case unfolding z root using IH eq(2) view [of True] view [of False] by (cases b) (simp_all add: d)
  qed
  then show "x = slot_value (f p)" "compute_merkle_root hm y (zip sib (rev p)) = merkle hm d (f(p \<mapsto> y))" by simp_all
qed

section \<open>Steps on a tree\<close>

abbreviation hash_pair :: "'f Fr \<Rightarrow> hash2" where
  "hash_pair F \<equiv> \<lambda>a b. merge F [a, b]"

text \<open>The leaves that are not padding.\<close>

definition new_leafs :: "'f::field Fr \<Rightarrow> (element \<times> 'f list) list \<Rightarrow> element list" where
  "new_leafs F steps = filter (\<lambda>e. base F e \<noteq> 0) (map fst steps)"

text \<open>The pairs that are hashed in the trees before the steps and along the steps' paths.\<close>

fun chain_pairs ::
    "'f::field Fr \<Rightarrow> nat \<Rightarrow> (bool list \<Rightarrow> element option) \<Rightarrow> (element \<times> 'f list) list \<Rightarrow> (element \<times> element) set" where
  "chain_pairs F D f [] = {}"
| "chain_pairs F D f ((e, sib) # steps) =
     (if base F e = 0 then chain_pairs F D f steps
      else set (root_pairs (hash_pair F) ZERO (zip (map (elem F) sib) (rev (lsb_bits e (D - 1)))))
         \<union> merkle_pairs (hash_pair F) D f
         \<union> chain_pairs F D (f(lsb_bits e (D - 1) \<mapsto> e)) steps)"

lemma inserts_leaf_slot:
  assumes F: "fr_ok F" and D: "2 \<le> D" "D \<le> 257" and i: "inserts_leaf (poseidon_hash F) D e sib old new"
    and old: "elem F old = merkle (hash_pair F) D f"
    and inj: "inj_on (\<lambda>(l, r). hash_pair F l r)
      (set (root_pairs (hash_pair F) ZERO (zip (map (elem F) sib) (rev (lsb_bits e (D - 1))))) \<union> merkle_pairs (hash_pair F) D f)"
  shows "slot_value (f (lsb_bits e (D - 1))) = NULL_HASH"
    and "elem F new = merkle (hash_pair F) D (f(lsb_bits e (D - 1) \<mapsto> e))"
proof -
  let ?p = "lsb_bits e (D - 1)" and ?ss = "map (elem F) sib"
  have len: "length ?p = D - 1" "length ?ss = length ?p" using D i by (simp_all add: length_lsb_bits inserts_leaf_def)
  then have ne: "rev ?p \<noteq> []" "?ss \<noteq> []" using D by auto
  have sib: "map (base F) ?ss = sib" by (simp add: fr_okD(5) [OF F] map_idI)
  have roots: "elem F (path_root (poseidon_hash F) (base F x) (zip (rev ?p) sib)) = compute_merkle_root (hash_pair F) x (zip ?ss (rev ?p))" for x
    using path_root_merkle [OF F, of x "rev ?p" ?ss] ne unfolding sib by simp
  have leaf: "of_nat (unat e) = base F e" "(0 :: 'a) = base F ZERO"
    by (simp only: fr_okD(4) [OF F]) (simp only: base_consts [OF F])
  have p: "elem F old = compute_merkle_root (hash_pair F) ZERO (zip ?ss (rev ?p))"
    "elem F new = compute_merkle_root (hash_pair F) e (zip ?ss (rev ?p))"
    using i unfolding inserts_leaf_def least_significant_bits_def leaf roots [symmetric] by simp_all
  note bind = merkle_path_binding [OF p(1) [symmetric, unfolded old] len _ inj]
  show "slot_value (f ?p) = NULL_HASH" "elem F new = merkle (hash_pair F) D (f(?p \<mapsto> e))"
    using bind(1) bind(2) [of e] p(2) D by (simp_all add: NULL_HASH_def)
qed

lemma chained_inserts:
  fixes t :: "('v, 'c) Tree"
  assumes F: "fr_ok F" and D: "2 \<le> D" "D \<le> 257" and cache: "hash_cache (hash_pair F) chash sound"
  shows "tree_ok (hash_pair F) D t \<Longrightarrow> sound (cache t) \<Longrightarrow> elem F r = root_hash (hash_pair F) t \<Longrightarrow>
    chained (poseidon_hash F) D r steps r' \<Longrightarrow>
    inj_on (\<lambda>(a, b). hash_pair F a b) (chain_pairs F D (slot (tree t)) steps) \<Longrightarrow>
    distinct (map (\<lambda>e. lsb_bits e (D - 1)) (new_leafs F steps))
    \<and> (\<forall>k \<in> tree_keys t. \<forall>e \<in> set (new_leafs F steps). \<not> collides_with D k e)
    \<and> elem F r' = merkle (hash_pair F) D (key_slots D (tree_keys t \<union> set (new_leafs F steps)))"
proof (induction steps arbitrary: t r)
  case Nil
  then show ?case using root_hash_merkle [OF Nil.prems(1)] slot_key_slots [OF Nil.prems(1)] by (simp add: new_leafs_def)
next
  case (Cons es steps)
  obtain e sib where es: "es = (e, sib)" by (cases es)
  have leaf: "of_nat (unat e) = base F e" by (simp only: fr_okD(4) [OF F])
  note chain = Cons.prems(4) [unfolded es chained.simps leaf]
  show ?case
  proof (cases "base F e = 0")
    case True
    then have l: "new_leafs F (es # steps) = new_leafs F steps" by (simp add: es new_leafs_def)
    show ?thesis unfolding l
      by (rule Cons.IH [OF Cons.prems(1-3) chain [unfolded if_P [OF True]]])
        (rule Cons.prems(5) [unfolded es chain_pairs.simps if_P [OF True]])
  next
    case False
    from chain [unfolded if_not_P [OF False]] obtain new where new: "inserts_leaf (poseidon_hash F) D e sib r new"
      "chained (poseidon_hash F) D new steps r'" by (elim exE conjE)
    note inj = inj_on_subset [OF Cons.prems(5) [unfolded es chain_pairs.simps if_not_P [OF False]]]
    note slot = inserts_leaf_slot [OF F D new(1) Cons.prems(3) [unfolded root_hash_merkle [OF Cons.prems(1)]] inj [OF Un_upper1]]
    have null: "e \<noteq> NULL_HASH" using False base_consts [OF F] by (auto simp: NULL_HASH_def)
    have free: "\<forall>k \<in> tree_keys t. \<not> collides_with D k e"
    proof -
      have "slot (tree t) (lsb_bits e (D - 1)) = None"
        using slot(1) Cons.prems(1) unfolding tree_ok_def slot_value_def by (auto split: option.splits)
      then show ?thesis using slot_free_iff [OF Cons.prems(1)] by blast
    qed
    from hash_cache.tree_insert_free [OF cache Cons.prems(1,2), of e undefined] null free obtain t1 :: "('v, 'c) Tree" where
      t1: "tree_ok (hash_pair F) D t1" "sound (cache t1)" "tree_keys t1 = Set.insert e (tree_keys t)"
        "slot (tree t1) = (slot (tree t))(lsb_bits e (D - 1) \<mapsto> e)" by auto
    have "elem F new = root_hash (hash_pair F) t1"
      using slot(2) root_hash_merkle [OF t1(1)] t1(4) by simp
    from Cons.IH [OF t1(1,2) this new(2) inj [unfolded t1(4) [symmetric], OF Un_upper2]]
    show ?thesis using False free t1(3) by (auto simp: es new_leafs_def collides_with_def)
  qed
qed

text \<open>The batch of the leaves is inserted, and the root hash is the one that the steps end with.\<close>

lemma chained_insert_batch:
  fixes t :: "('v, 'c) Tree"
  assumes F: "fr_ok F" and D: "2 \<le> D" "D \<le> 257" and cache: "hash_cache (hash_pair F) chash sound"
    and t: "tree_ok (hash_pair F) D t" "sound (cache t)" "elem F r = root_hash (hash_pair F) t"
    and steps: "chained (poseidon_hash F) D r steps r'"
      "inj_on (\<lambda>(a, b). hash_pair F a b) (chain_pairs F D (slot (tree t)) steps)"
  shows "\<exists>batch t' ev. from_elements D v (new_leafs F steps) = Ok batch
    \<and> insert_batch (hash_pair F) chash D t batch = (t', ev, Ok ())
    \<and> tree_ok (hash_pair F) D t' \<and> tree_keys t' = tree_keys t \<union> set (new_leafs F steps)
    \<and> root_hash (hash_pair F) t' = elem F r'"
proof -
  note c = chained_inserts [OF F D cache t steps]
  let ?es = "map (\<lambda>e. (e, v)) (new_leafs F steps)"
  have "distinct (map (\<lambda>(e, v). lsb_bits e (D - 1)) ?es)" using c by (simp add: o_def)
  from from_entries_total [OF this] obtain batch where
    b: "from_entries D ?es = Ok batch" "batch_ok D batch" "elements batch = new_leafs F steps"
    using from_entries_Ok by (fastforce simp: elements_def o_def)
  have "NULL_HASH \<notin> set (new_leafs F steps)" by (auto simp: new_leafs_def NULL_HASH_def base_consts [OF F])
  with hash_cache.insert_batch_spec [OF cache t(1,2) b(2)] b(3) c obtain t' ev where
    t': "insert_batch (hash_pair F) chash D t batch = (t', ev, Ok ())" "tree_ok (hash_pair F) D t'"
      "tree_keys t' = tree_keys t \<union> set (new_leafs F steps)" by auto
  have "root_hash (hash_pair F) t' = elem F r'"
    using root_hash_merkle [OF t'(2)] slot_key_slots [OF t'(2)] t'(3) c by simp
  with b(1) t' show ?thesis unfolding from_elements_def by blast
qed

end
