(* ===== verification/Circuit_Props.thy ===== *)
theory Circuit_Props
  imports Circuit_Sample Circuit_Tree
begin

text \<open>
  The properties of the circuits. An assignment that meets the constraints of a circuit for public inputs is what an
  accepted proof stands for; the soundness properties say what such public inputs are, the completeness properties that
  an honest prover's values meet the constraints for the public inputs that the code computes.
\<close>

section \<open>Transactions\<close>

text \<open>
  C2: the transaction circuit is sound. Public inputs that any assignment meets are those of a transaction in which
  every input with value is a note under the recent root, opened by the key of its address, with its nullifier public;
  every output is a note with a value below 2 to the 240 and its commitment public; and the values balance: inputs equal
  outputs for a transfer, only outputs for a mint and only inputs for a burn, whose hash and value are public.
\<close>

theorem utxo_sound:
  assumes "fr_ok F" "D \<le> 257" "utxo_shape D u" "met_by (poseidon_hash F) I (utxo_synthesize F D u) \<sigma>"
  shows "utxo_statement (poseidon_hash F) (D - 1) I"
  by (rule met_by_enforces [OF assms(4) enforces_utxo [OF assms(1-3)]])

theorem utxo_sound_witness: "utxo_statement (poseidon_hash F5) 1 (public_inputs F5 utxo5)"
  using utxo_sound [OF F5_ok _ utxo5_ok(2) accepts_met_by [OF accepts_utxo [OF F5_ok _ utxo5_ok(1)]]] by simp

text \<open>
  C11: the transaction circuit is complete. The values that the synthesis of a transaction assigns meet the constraints
  for the public inputs that the code computes for it, when its notes are canonical, its inputs are owned and under the
  root, its outputs below 2 to the 240, and its values balance.
\<close>

theorem utxo_complete:
  assumes "fr_ok F" "D \<le> 257" "utxo_ok F D u"
  shows "met_by (poseidon_hash F) (public_inputs F u) (utxo_synthesize F D u) (assigned (utxo_synthesize F D u))"
  by (rule accepts_met_by) (rule accepts_utxo [OF assms])

theorem utxo_complete_witness:
  "met_by (poseidon_hash F5) [0, 2, 1, 0, 0, 2, 0] (utxo_synthesize F5 2 mint5) (assigned (utxo_synthesize F5 2 mint5))"
  using utxo_complete [OF F5_ok _ mint5_ok(1)] by (simp add: mint5_ok(3))

text \<open>
  The constraints of the transaction and of the batch circuit do not depend on the values of their witnesses: two
  transactions, and two batches with paths of equal lengths, record the same constraints on the same number
  of cells. The keys are generated from default values, so proofs for other values verify under them.
\<close>

theorem constraints_value_free:
  assumes "utxo_shape D u" "utxo_shape D u'"
    and "list_all2 (\<lambda>i j. length (path_siblings (insert_path i)) = length (path_siblings (insert_path j))) xs ys"
  shows "fst (snd (synthesized (utxo_synthesize F D u))) = fst (snd (synthesized (utxo_synthesize F D u')))
    \<and> length (fst (synthesized (utxo_synthesize F D u))) = length (fst (synthesized (utxo_synthesize F D u')))
    \<and> fst (snd (synthesized (batch_synthesize F D xs))) = fst (snd (synthesized (batch_synthesize F D ys)))
    \<and> length (fst (synthesized (batch_synthesize F D xs))) = length (fst (synthesized (batch_synthesize F D ys)))"
  using alike_synthesized [OF alike_utxo [OF assms(1,2)]] alike_synthesized [OF alike_batch [OF assms(3)]] by blast

theorem constraints_value_free_witness:
  "fst (snd (synthesized (utxo_synthesize F5 2 utxo5))) = fst (snd (synthesized (utxo_synthesize F5 2 mint5)))"
  using constraints_value_free [OF utxo5_ok(2) mint5_ok(2) list.rel_refl, of F5 insert5] by blast

section \<open>Inserts\<close>

text \<open>In a field of the right characteristic, an element below the modulus is the canonical one of its field value.\<close>

lemma canonical_element:
  fixes F :: "'f::field Fr"
  assumes "fr_ok F" "inj_on (of_nat :: nat \<Rightarrow> 'f) {..<unat MODULUS}" "e < MODULUS"
  shows "elem F (of_nat (unat e)) = e"
proof -
  have "of_nat (unat (elem F (of_nat (unat e)))) = (of_nat (unat e) :: 'f)" by (rule fr_okD(2) [OF assms(1)])
  then have "unat (elem F (of_nat (unat e))) = unat e"
    by (rule inj_onD [OF assms(2)]) (use fr_okD(3) [OF assms(1)] assms(3) in \<open>simp_all add: word_less_nat_alt\<close>)
  then show ?thesis by (rule word_unat_eq_iff [THEN iffD2])
qed

text \<open>
  C3: the batch circuit is sound for the tree. Public inputs that any assignment meets name an old root, a new root and
  leaves. The elements that are inserted are below the modulus and stand for the public leaves, so in a field whose numbers
  below the modulus are different they are the canonical elements of the public leaves and no others. Take any tree with
  the old root, and suppose that the hash does not collide on the pairs hashed in the tree and along the
  proved paths. Then the slots of the leaves that are not padding are free and
  pairwise different, the batch of these leaves is inserted, and the new root is the root hash of the resulting tree.
\<close>

theorem batch_sound:
  fixes t :: "('v, 'c) Tree" and F :: "'f::field Fr"
  assumes "fr_ok F" "2 \<le> D" "D \<le> 257" "\<forall>i \<in> set is. length (path_siblings (insert_path i)) = D - 1"
    and "met_by (poseidon_hash F) I (batch_synthesize F D is) \<sigma>"
    and "hash_cache (hash_pair F) chash sound"
  shows "\<exists>steps. map (base F \<circ> fst) steps = map (\<lambda>j. instance_at I (2 + j)) [0..<length is]
    \<and> (\<forall>(e, _) \<in> set steps. e < MODULUS)
    \<and> (inj_on (of_nat :: nat \<Rightarrow> 'f) {..<unat MODULUS} \<longrightarrow> map fst steps = map (\<lambda>j. elem F (instance_at I (2 + j))) [0..<length is])
    \<and> (\<forall>t :: ('v, 'c) Tree. tree_ok (hash_pair F) D t \<longrightarrow> sound (cache t)
        \<longrightarrow> root_hash (hash_pair F) t = elem F (instance_at I 0)
        \<longrightarrow> inj_on (\<lambda>(a, b). hash_pair F a b) (chain_pairs F D (slot (tree t)) steps)
        \<longrightarrow> (\<exists>batch t' ev. from_elements D v (new_leafs F steps) = Ok batch
              \<and> insert_batch (hash_pair F) chash D t batch = (t', ev, Ok ())
              \<and> tree_keys t' = tree_keys t \<union> set (new_leafs F steps)
              \<and> root_hash (hash_pair F) t' = elem F (instance_at I 1)))"
proof -
  from met_by_enforces [OF assms(5) enforces_batch [OF assms(1,3,4)]] obtain steps where
    steps: "map (\<lambda>j. instance_at I (2 + j)) [0..<length is] = map (\<lambda>(e, _). of_nat (unat e)) steps"
      "chained (poseidon_hash F) D (instance_at I 0) steps (instance_at I 1)" "\<forall>(e, _) \<in> set steps. e < MODULUS"
    by (auto simp: batch_statement_def)
  have canon: "map fst steps = map (\<lambda>j. elem F (instance_at I (2 + j))) [0..<length is]"
    if "inj_on (of_nat :: nat \<Rightarrow> 'f) {..<unat MODULUS}"
  proof -
    have "elem F (of_nat (unat e)) = e" if "e < MODULUS" for e
      using canonical_element [OF assms(1) \<open>inj_on _ _\<close> that] .
    then have "map (elem F) (map (\<lambda>(e, _). of_nat (unat e)) steps) = map fst steps"
      using steps(3) by (auto intro!: map_cong)
    then show ?thesis unfolding steps(1) [symmetric] by (simp add: o_def)
  qed
  have "map (base F \<circ> fst) steps = map (\<lambda>(e, _). of_nat (unat e)) steps"
    by (rule map_cong [OF refl]) (simp only: o_def case_prod_beta fr_okD(4) [OF assms(1)])
  then show ?thesis
    using steps(1,3) canon chained_insert_batch [OF assms(1-3,6) _ _ _ steps(2), where v = v]
    by (intro exI [of _ steps] conjI allI impI) (simp, blast, blast, metis)
qed

theorem batch_sound_witness:
  "\<exists>steps. map (base F5 \<circ> fst) steps = [1, 2] \<and> (\<forall>(e, _) \<in> set steps. e < MODULUS)
    \<and> (\<forall>t :: (nat, NoopHashCache) Tree. tree_ok (hash_pair F5) 2 t \<longrightarrow> root_hash (hash_pair F5) t = elem F5 2
        \<longrightarrow> inj_on (\<lambda>(a, b). hash_pair F5 a b) (chain_pairs F5 2 (slot (tree t)) steps)
        \<longrightarrow> (\<exists>batch t' ev. from_elements 2 0 (new_leafs F5 steps) = Ok batch
              \<and> insert_batch (hash_pair F5) (noop_hash (hash_pair F5)) 2 t batch = (t', ev, Ok ())
              \<and> tree_keys t' = tree_keys t \<union> set (new_leafs F5 steps)
              \<and> root_hash (hash_pair F5) t' = elem F5 (poseidon_hash F5 [2, 1])))
    \<and> tree_ok (hash_pair F5) 2 (new_with_cache 2 NoopHashCache :: (nat, NoopHashCache) Tree)
    \<and> root_hash (hash_pair F5) (new_with_cache 2 NoopHashCache :: (nat, NoopHashCache) Tree) = elem F5 2"
proof -
  let ?I = "[poseidon_hash F5 [0, 0], poseidon_hash F5 [2, 1], 1, 2]"
  have old: "poseidon_hash F5 [0, 0] = 2" by (simp add: F5_hash) (simp add: gf5_simps)
  have met: "met_by (poseidon_hash F5) ?I (batch_synthesize F5 2 insert5) (assigned (batch_synthesize F5 2 insert5))"
    by (rule accepts_met_by) (rule accepts_batch [OF F5_ok _ insert5_ok(2-4)], simp)
  have "map (\<lambda>j. instance_at ?I (2 + j)) [0..<length insert5] = [1, 2]"
    by (simp add: insert5_def upt_rec instance_at_def)
  moreover have "tree_ok (hash_pair F5) 2 (new_with_cache 2 NoopHashCache :: (nat, NoopHashCache) Tree)"
    by (rule new_with_cache_ok) simp_all
  moreover have "root_hash (hash_pair F5) (new_with_cache 2 NoopHashCache :: (nat, NoopHashCache) Tree) = elem F5 2"
    using old by (simp add: root_hash_def new_with_cache_def hash_merge_def NULL_HASH_def numeral_2_eq_2)
  ultimately show ?thesis
    using batch_sound [where v = 0 and 'v = nat and 'c = NoopHashCache, OF F5_ok _ _ _ met noop.hash_cache_axioms [of "hash_pair F5"]]
      insert5_ok(1) old by (simp add: instance_at_def) (elim exE conjE, intro exI conjI; assumption)
qed

text \<open>
  C12: the batch circuit is complete. The values that the synthesis of a batch assigns meet the constraints for the
  public inputs that the code computes, when the leaves are canonical and every insert that is not padding starts from
  the root that the inserts before it produce.
\<close>

theorem batch_complete:
  assumes "fr_ok F" "D \<le> 257" "batch_old_root F D is = Ok r" "batch_links F D r is" "batch_public_inputs F D is = Ok I"
  shows "met_by (poseidon_hash F) I (batch_synthesize F D is) (assigned (batch_synthesize F D is))"
  by (rule accepts_met_by) (rule accepts_batch [OF assms])

theorem batch_complete_witness:
  "met_by (poseidon_hash F5) [poseidon_hash F5 [0, 0], poseidon_hash F5 [2, 1], 1, 2] (batch_synthesize F5 2 insert5)
    (assigned (batch_synthesize F5 2 insert5))"
  using batch_complete [OF F5_ok _ insert5_ok(2-4)] by simp

section \<open>Aggregates\<close>

text \<open>
  C10: the aggregation of transactions is sound. If the chip that verifies proofs does what it documents and the
  accumulator in the first twelve public inputs passes the deferred check, public inputs that an assignment meets
  come from transactions that each meet the transaction circuit's statement, whose roots, hashes and values are public,
  and the public roots are those of a chain of inserts of exactly the transactions' leaves in order.
\<close>

theorem aggregate_utxo_sound:
  assumes "fr_ok F" "D \<le> 257" "verifies (poseidon_hash F) aggregate decides (utxo_verified F D)"
    and "decides (map (instance_at I) [0..<12])"
    and "\<forall>i \<in> set (agg_insert a). length (path_siblings (insert_path i)) = D - 1"
    and "length (agg_insert a) = length (agg_utxo a) * 4"
    and "met_by (poseidon_hash F) I (aggregate_utxo_synthesize aggregate F D (length (agg_insert a)) a) \<sigma>"
  shows "aggregate_statement (poseidon_hash F) D (length (agg_utxo a)) I"
  by (rule met_by_enforces [OF assms(7) enforces_aggregate_utxo [OF assms(1-6)]])

theorem aggregate_utxo_sound_witness:
  "aggregate_statement (poseidon_hash F5) 2 1
     (replicate 12 0 @ [poseidon_hash F5 [0, 1], poseidon_hash F5 [2, 1], 0, 2, 1])"
proof -
  have "met_by (poseidon_hash F5) [0, 2, 1, 0, 0, 2, 0] (utxo_synthesize F5 2 mint5) (assigned (utxo_synthesize F5 2 mint5))"
    using accepts_met_by [OF accepts_utxo [OF F5_ok _ mint5_ok(1)]] by (simp add: mint5_ok(3))
  then have "utxo_verified F5 2 [[0, 2, 1, 0, 0, 2, 0]]"
    unfolding utxo_verified_def using mint5_ok(2) by (intro exI [of _ mint5] exI) auto
  note agg = agg5_verifies [where verified = "utxo_verified F5 2" and J = "[0, 2, 1, 0, 0, 2, 0]", OF this,
    where H = "poseidon_hash F5" and decides = "\<lambda>_. True"]
  note met = accepts_met_by [OF accepts_aggregate_utxo [OF F5_ok _ agg_utxo5_ok(8) agg_utxo5_ok(2-5)]]
  show ?thesis
    using aggregate_utxo_sound [OF F5_ok _ agg _ agg_utxo5_ok(6,7) met] agg_utxo5_ok(1) by simp
qed

text \<open>
  C13: the aggregation of aggregates is sound. Under the same assumptions on the chip, public inputs that an assignment
  meets come from as many verified proofs as are aggregated, whose old and new roots form a chain from the public
  old root to the public new root, and whose further instances follow in order.
\<close>

theorem aggregate_agg_sound:
  assumes "verifies H aggregate decides (\<lambda>cols. \<exists>J. cols = [J] \<and> P J)"
    and "decides (map (instance_at I) [0..<12])"
    and "met_by H I (aggregate_agg_synthesize aggregate a) \<sigma>"
  shows "agg_agg_statement P (length (aggregates a)) I"
  by (rule met_by_enforces [OF assms(3) enforces_aggregate_agg [OF assms(1,2)]])

theorem aggregate_agg_sound_witness:
  "agg_agg_statement (\<lambda>J. J = replicate 12 0 @ [1, 1, 3]) 2 (replicate 12 0 @ [1, 1, 3, 3 :: gf5])"
proof -
  let ?J = "replicate 12 0 @ [1, 1, 3 :: gf5]"
  note met = accepts_met_by [OF accepts_aggregate_agg [OF agg_agg5_ok(4,2,1,3)]]
  have "verifies (poseidon_hash F5) (agg5 ?J) (\<lambda>_. True) (\<lambda>cols. \<exists>J. cols = [J] \<and> J = ?J)"
    by (rule agg5_verifies) simp
  from aggregate_agg_sound [OF this _ met] show ?thesis by (simp add: agg_agg5_def)
qed

section \<open>Circuits over notes\<close>

text \<open>
  C31: minting and burning. The public inputs of a mint that an assignment meets are commitments to notes with the public
  values and sources; those of a burn are nullifiers of such notes made with one secret key, each signed with this
  key for the public address, and, for a burn to another chain, for the public kind.
\<close>

theorem mint_burn_sound:
  assumes "met_by (poseidon_hash F) I (mint_synthesize F notes) \<sigma>"
    and "met_by (poseidon_hash F) J (burn_synthesize F b) \<tau>"
    and "met_by (poseidon_hash F) K (burn_to_synthesize F c) \<upsilon>"
  shows "(\<forall>i < length notes. \<exists>address psi version. instance_at I (i * 3) =
      committed (poseidon_hash F) (instance_at I (i * 3 + 1)) address psi (instance_at I (i * 3 + 2)) version)
    \<and> (\<exists>sk. \<forall>i < length (burn_notes b). burnt (poseidon_hash F) J 1 i sk (instance_at J 0) 0)
    \<and> (\<exists>sk. \<forall>i < length (burn_notes c). burnt (poseidon_hash F) K 2 i sk (instance_at K 1) (instance_at K 0))"
  using met_by_enforces [OF assms(1) enforces_mint] met_by_enforces [OF assms(2) enforces_burn]
    met_by_enforces [OF assms(3) enforces_burn_to] by (intro conjI) assumption

theorem mint_burn_sound_witness:
  "\<exists>sk. \<forall>i < 1. burnt (poseidon_hash F5) (burn_to_public_inputs F5 \<lparr>burn_secret_key = ONE, burn_notes = [note5 ONE],
     burn_to_address = ONE, burn_kind = ONE\<rparr>) 2 i sk 1 1"
proof -
  let ?b = "\<lparr>burn_secret_key = ONE, burn_notes = [note5 ONE], burn_to_address = ONE\<rparr>"
  let ?c = "\<lparr>burn_secret_key = ONE, burn_notes = [note5 ONE], burn_to_address = ONE, burn_kind = ONE\<rparr>"
  note m = accepts_met_by [OF accepts_mint [OF F5_ok, of "[note5 ONE]"]]
  note b = accepts_met_by [OF accepts_burn [OF F5_ok, of ?b]]
  note c = accepts_met_by [OF accepts_burn_to [OF F5_ok, of ?c]]
  have "instance_at (burn_to_public_inputs F5 ?c) 0 = 1" "instance_at (burn_to_public_inputs F5 ?c) 1 = 1"
    by (simp_all add: burn_to_public_inputs_def instance_at_def)
  then show ?thesis using mint_burn_sound [OF m b c] by (simp add: note5_ok ONE_neq_ZERO)
qed

text \<open>
  The points circuit leaves its public inputs open: whatever notes and key it is built for, any address and any total
  value, with any commitments and nullifiers, are met by some assignment. The circuit ties neither the secret key
  nor the commitments to the public inputs.
\<close>

theorem points_unconstrained:
  assumes "fr_ok F" "points_notes p \<noteq> []"
  shows "\<exists>\<sigma>. met_by (poseidon_hash F) (address # amount # rest) (points_synthesize F p) \<sigma>"
  by (rule points_forge [OF assms])

theorem points_unconstrained_witness:
  "\<exists>\<sigma>. met_by (poseidon_hash F5) [4, 3, 0, 0]
     (points_synthesize F5 \<lparr>points_secret_key = ONE, points_notes = [note5 ONE, note5 ZERO]\<rparr>) \<sigma>"
  by (rule points_unconstrained [OF F5_ok]) simp

text \<open>
  The compliance circuit does not tie the path to the source of the note: the root over an empty slot at the position
  of any other element, together with the commitment of the note, is met by some assignment.
\<close>

theorem compliance_unconstrained:
  assumes "fr_ok F" "D \<le> 257" "represented F (note_value (compliance_note c))" "represented F other"
    and "length (path_siblings path) = D - 1" "length (path_siblings (compliance_path c)) = D - 1"
  shows "\<exists>\<sigma>. met_by (poseidon_hash F) [base F (compute_null_root F D path other), base F (commitment F (compliance_note c))]
    (compliance_synthesize F D c) \<sigma>"
  by (rule compliance_forge [OF assms])

theorem compliance_unconstrained_witness:
  "\<exists>\<sigma>. met_by (poseidon_hash F5) [base F5 (compute_null_root F5 2 \<lparr>path_siblings = [ONE]\<rparr> 2), base F5 (commitment F5 (note5 ONE))]
     (compliance_synthesize F5 2 \<lparr>compliance_note = note5 ONE, compliance_path = \<lparr>path_siblings = [ONE]\<rparr>\<rparr>) \<sigma>"
  using compliance_unconstrained [OF F5_ok, of 2 "\<lparr>compliance_note = note5 ONE, compliance_path = \<lparr>path_siblings = [ONE]\<rparr>\<rparr>" 2
    "\<lparr>path_siblings = [ONE]\<rparr>"] by simp

end
