(* ===== verification/Rollup_Prover.thy ===== *)
theory Rollup_Prover
  imports Circuit_Tree Aggregate_Circuit Node
begin

text \<open>
  The prover (\<^verbatim>\<open>pkg/prover/src/lib.rs\<close>): it inserts the leaves of a block's transactions into a copy of the notes
  tree, records the paths as inserts of the batch circuit, and aggregates the proofs. Creating a
  proof and accumulating proofs belong to the proof system and are parameters; the call of the contract is not modelled.
\<close>

section \<open>Constants, errors and transactions\<close>

definition UTXO_AGGREGATIONS :: nat where "UTXO_AGGREGATIONS = 2"
definition UTXO_AGG_NUMBER :: nat where "UTXO_AGG_NUMBER = 3"
definition UTXO_AGG_LEAVES :: nat where "UTXO_AGG_LEAVES = UTXO_AGG_NUMBER * (UTXO_INPUTS + UTXO_OUTPUTS)"
definition MAXIMUM_TXNS :: nat where "MAXIMUM_TXNS = UTXO_AGG_NUMBER * UTXO_AGGREGATIONS"

text \<open>The variants of the errors that the modelled operations construct.\<close>

datatype ProverError = Zk | SmirkCollision CollisionError

record RollupProof =
  rp_proof :: bytes
  rp_agg_instances :: "element list"
  rp_old_root :: element
  rp_new_root :: element
  rp_utxo_hashes :: "element list"

text \<open>The circuits that proofs are created for.\<close>

datatype 'f prover_circuit = UtxoCircuit Utxo | AggUtxoCircuit "'f AggregateUtxo" | AggAggCircuit "'f AggregateAgg"

record 'f proof_system =
  create_proof :: "'f prover_circuit \<Rightarrow> 'f list list \<Rightarrow> (ProverError, bytes) outcome"
  accumulator_native :: "'f Snark list \<Rightarrow> 'f list \<times> bytes"
  evm_gen_proof :: "'f AggregateAgg \<Rightarrow> 'f list list \<Rightarrow> (ProverError, bytes) outcome"

type_synonym 'a prover = "((SmirkMetadata, SimpleHashCache) Tree, unit, ProverError, 'a) op"

section \<open>Proofs with their instances\<close>

definition snark_create :: "'f proof_system \<Rightarrow> 'f prover_circuit \<Rightarrow> 'f list list \<Rightarrow> (ProverError, 'f Snark) outcome" where
  "snark_create E circuit inst =
     omap (\<lambda>pr. \<lparr>snark_instances = inst, snark_proof = pr\<rparr>) (unwrap (create_proof E circuit inst))"

definition from_witness :: "'f Fr \<Rightarrow> SnarkWitnessV1 \<Rightarrow> 'f Snark" where
  "from_witness F w = \<lparr>snark_instances = map (map (base F)) (sw_instances w), snark_proof = sw_proof w\<rparr>"

definition to_witness :: "'f Fr \<Rightarrow> 'f Snark \<Rightarrow> SnarkWitnessV1" where
  "to_witness F s = \<lparr>sw_instances = map (map (elem F)) (snark_instances s), sw_proof = snark_proof s\<rparr>"

definition utxo_snark :: "'f::field proof_system \<Rightarrow> 'f Fr \<Rightarrow> Utxo \<Rightarrow> (ProverError, 'f Snark) outcome" where
  "utxo_snark E F u = snark_create E (UtxoCircuit u) [public_inputs F u]"

definition note_default :: Note where
  "note_default = \<lparr>note_address = ZERO, note_psi = ZERO, note_value = ZERO, note_token = [], note_source = ZERO\<rparr>"

definition utxo_default :: "'f::field Fr \<Rightarrow> nat \<Rightarrow> (unit, Utxo) outcome" where
  "utxo_default F D =
     omap (\<lambda>path. utxo_tx_new (replicate UTXO_INPUTS (input_note_new note_default ZERO path))
         (replicate UTXO_OUTPUTS note_default) ZERO KTransfer)
       (merkle_path_default (hash_pair F) D)"

definition aggregate_utxo_default ::
    "'f::field proof_system \<Rightarrow> 'f Fr \<Rightarrow> nat \<Rightarrow> nat \<Rightarrow> nat \<Rightarrow> (ProverError, 'f AggregateUtxo) outcome" where
  "aggregate_utxo_default E F D UTXO_N LEAVES =
     obind (unwrap (utxo_default F D)) (\<lambda>u.
     obind (unwrap (utxo_snark E F u)) (\<lambda>s.
     obind (unwrap (merkle_path_default (hash_pair F) D)) (\<lambda>path.
     Ok (aggregate_utxo_new (accumulator_native E) (replicate UTXO_N s) (replicate LEAVES (insert_new ZERO path))))))"

text \<open>The proof of an aggregate of transactions is created for the default aggregate, with the instances of this one.\<close>

definition agg_utxo_snark ::
    "'f::field proof_system \<Rightarrow> 'f Fr \<Rightarrow> nat \<Rightarrow> 'f AggregateUtxo \<Rightarrow> (ProverError, 'f Snark) outcome" where
  "agg_utxo_snark E F D a =
     obind (aggregate_utxo_default E F D (length (agg_utxo a)) (length (agg_insert a))) (\<lambda>circuit.
     obind (unwrap (aggregate_utxo_public_inputs F D a)) (\<lambda>inputs.
     snark_create E (AggUtxoCircuit circuit) [inputs]))"

definition agg_agg_new :: "'f proof_system \<Rightarrow> 'f Fr \<Rightarrow> 'f Snark list \<Rightarrow> 'f AggregateAgg" where
  "agg_agg_new E F snarks =
     (case accumulator_native E snarks of
        (limbs, pr) \<Rightarrow> \<lparr>aggregates = snarks, agg_agg_instances = map (elem F) limbs, agg_agg_proof = pr\<rparr>)"

definition agg_agg_snark :: "'f proof_system \<Rightarrow> 'f Fr \<Rightarrow> 'f AggregateAgg \<Rightarrow> (ProverError, 'f Snark) outcome" where
  "agg_agg_snark E F a =
     obind (unwrap (agg_agg_public_inputs F a)) (\<lambda>inputs. snark_create E (AggAggCircuit a) [inputs])"

section \<open>The batch of a group of transactions\<close>

text \<open>The leaves are the instances after the first three of the first column.\<close>

fun gen_leaves :: "'f Fr \<Rightarrow> SnarkWitnessV1 list \<Rightarrow> (ProverError, element list) outcome" where
  "gen_leaves F [] = Ok []"
| "gen_leaves F (w # ws) =
     (case sw_instances w of
        [] \<Rightarrow> Panic
      | col # _ \<Rightarrow> omap (\<lambda>ls. map (\<lambda>f. elem F (base F f)) (drop 3 col) @ ls) (gen_leaves F ws))"

definition insert_leaf_path ::
    "'f::field Fr \<Rightarrow> nat \<Rightarrow> u64 \<Rightarrow> Path \<Rightarrow> element \<Rightarrow> Path prover" where
  "insert_leaf_path F D current_block padding_path leaf =
     (if leaf = ZERO then nret padding_path
      else
        nbind (\<lambda>t. case tree_insert (hash_pair F) (simple_hash (hash_pair F)) D t leaf \<lparr>inserted_in = current_block\<rparr> of
                     (t', res) \<Rightarrow> (t', [], omap_err SmirkCollision res)) (\<lambda>_.
        (\<lambda>t. (t, [], unwrap (path_for (hash_pair F) D t leaf)))))"

fun gen_inserts :: "'f::field Fr \<Rightarrow> nat \<Rightarrow> u64 \<Rightarrow> Path \<Rightarrow> element list \<Rightarrow> (Insert list) prover" where
  "gen_inserts F D current_block padding_path [] = nret []"
| "gen_inserts F D current_block padding_path (leaf # leaves) =
     nbind (insert_leaf_path F D current_block padding_path leaf) (\<lambda>path.
     nbind (nlift (unwrap (merkle_path_new D (take (D - 1) (siblings_deepest_first D path))))) (\<lambda>mp.
     nbind (gen_inserts F D current_block padding_path leaves) (\<lambda>rest.
     nret (insert_new leaf mp # rest))))"

definition gen_batch ::
    "'f::field Fr \<Rightarrow> nat \<Rightarrow> SnarkWitnessV1 list \<Rightarrow> u64 \<Rightarrow> (nat \<times> element \<times> element \<times> Insert list) prover" where
  "gen_batch F D ts current_block =
     nbind (nget (root_hash (hash_pair F))) (\<lambda>old_tree.
     nbind (\<lambda>t. (t, [], unwrap (path_for (hash_pair F) D t (commitment F (padding_note F))))) (\<lambda>padding_path.
     nbind (nlift (gen_leaves F ts)) (\<lambda>leaves.
     nbind (gen_inserts F D current_block padding_path leaves) (\<lambda>inserts.
     nbind (nget (root_hash (hash_pair F))) (\<lambda>new_tree.
     if length inserts = UTXO_AGG_LEAVES then nret (length inserts, old_tree, new_tree, inserts)
     else nlift Panic)))))"

section \<open>Aggregation\<close>

definition prover_aggregate_utxo ::
    "'f::field proof_system \<Rightarrow> 'f Fr \<Rightarrow> nat \<Rightarrow> SnarkWitnessV1 list \<Rightarrow> u64 \<Rightarrow> ('f AggregateUtxo) prover" where
  "prover_aggregate_utxo E F D utxos current_block =
     nbind (gen_batch F D utxos current_block) (\<lambda>(_, _, _, batch).
     nret (aggregate_utxo_new (accumulator_native E) (map (from_witness F) utxos) batch))"

definition aggregate_aggregate_utxo ::
    "'f::field proof_system \<Rightarrow> 'f Fr \<Rightarrow> nat \<Rightarrow> 'f AggregateUtxo list \<Rightarrow> (ProverError, 'f AggregateAgg) outcome" where
  "aggregate_aggregate_utxo E F D aggregations =
     omap (agg_agg_new E F) (ofold (\<lambda>a ss. omap (\<lambda>s. ss @ [s]) (agg_utxo_snark E F D a)) aggregations [])"

text \<open>A missing transaction is replaced by a padding transaction and its proof.\<close>

definition fill_txn ::
    "'f::field proof_system \<Rightarrow> 'f Fr \<Rightarrow> nat \<Rightarrow> SnarkWitnessV1 option \<Rightarrow> (ProverError, SnarkWitnessV1) outcome" where
  "fill_txn E F D t =
     (case t of
        Some w \<Rightarrow> Ok w
      | None \<Rightarrow> obind (unwrap (new_padding F D)) (\<lambda>u. omap (to_witness F) (utxo_snark E F u)))"

fun fill_txns ::
    "'f::field proof_system \<Rightarrow> 'f Fr \<Rightarrow> nat \<Rightarrow> SnarkWitnessV1 option list \<Rightarrow> (ProverError, SnarkWitnessV1 list) outcome" where
  "fill_txns E F D [] = Ok []"
| "fill_txns E F D (t # ts) = obind (fill_txn E F D t) (\<lambda>w. omap ((#) w) (fill_txns E F D ts))"

fun aggregate_groups ::
    "'f::field proof_system \<Rightarrow> 'f Fr \<Rightarrow> nat \<Rightarrow> u64 \<Rightarrow> nat \<Rightarrow> SnarkWitnessV1 option list \<Rightarrow> ('f AggregateUtxo list) prover" where
  "aggregate_groups E F D current_block 0 ts = nret []"
| "aggregate_groups E F D current_block (Suc n) ts =
     nbind (nlift (fill_txns E F D (take UTXO_AGG_NUMBER ts))) (\<lambda>group.
     if length group \<noteq> UTXO_AGG_NUMBER then nlift Panic
     else
       nbind (prover_aggregate_utxo E F D group current_block) (\<lambda>a.
       nbind (aggregate_groups E F D current_block n (drop UTXO_AGG_NUMBER ts)) (\<lambda>rest.
       nret (a # rest))))"

definition generate_aggregate_proof ::
    "'f::field proof_system \<Rightarrow> 'f Fr \<Rightarrow> nat \<Rightarrow> SnarkWitnessV1 option list \<Rightarrow> u64 \<Rightarrow> ('f AggregateAgg \<times> bytes) prover" where
  "generate_aggregate_proof E F D ts current_block =
     nbind (aggregate_groups E F D current_block UTXO_AGGREGATIONS ts) (\<lambda>utxo_aggregations.
     nlift (obind (aggregate_aggregate_utxo E F D utxo_aggregations) (\<lambda>agg.
            obind (agg_agg_snark E F agg) (\<lambda>s.
            let agg = agg_agg_new E F [s] in
            obind (unwrap (agg_agg_public_inputs F agg)) (\<lambda>inputs.
            omap (\<lambda>pr. (agg, pr)) (evm_gen_proof E agg [inputs]))))))"

text \<open>The proof of a block; the tree of the caller stays as it is.\<close>

definition prove_block ::
    "'f::field proof_system \<Rightarrow> 'f Fr \<Rightarrow> nat \<Rightarrow> (SmirkMetadata, SimpleHashCache) Tree \<Rightarrow> u64 \<Rightarrow> SnarkWitnessV1 option list
       \<Rightarrow> (ProverError, RollupProof) outcome" where
  "prove_block E F D notes current_block ts =
     (case generate_aggregate_proof E F D ts current_block notes of
        (_, _, r) \<Rightarrow>
          obind r (\<lambda>(agg, pr).
          obind (unwrap (agg_agg_old_root agg)) (\<lambda>old_root.
          obind (unwrap (agg_agg_new_root agg)) (\<lambda>new_root.
          obind (unwrap (agg_agg_utxo_values (aggregates agg))) (\<lambda>utxo_values.
          Ok \<lparr>rp_proof = pr, rp_agg_instances = agg_agg_instances agg, rp_old_root = elem F old_root,
              rp_new_root = elem F new_root, rp_utxo_hashes = map (elem F) utxo_values\<rparr>)))))"

section \<open>Paths for clients\<close>

definition get_proof :: "'f Fr \<Rightarrow> nat \<Rightarrow> ('v, 'c) Tree \<Rightarrow> 'f \<Rightarrow> (ProverError, 'f list) outcome" where
  "get_proof F D notes note_cm =
     omap (\<lambda>path. map (base F) (siblings_deepest_first D path)) (unwrap (path_for (hash_pair F) D notes (elem F note_cm)))"

definition compliance_check :: "'f Fr \<Rightarrow> nat \<Rightarrow> ('v, 'c) Tree \<Rightarrow> 'f \<Rightarrow> (ProverError, bool \<times> 'f list) outcome" where
  "compliance_check F D ban_tree address =
     (let el = elem F address;
          is_banned = contains_element ban_tree el
      in omap (\<lambda>path. (is_banned, map (base F) (siblings_deepest_first D path))) (unwrap (path_for (hash_pair F) D ban_tree el)))"

section \<open>The batch of a group inserts its leaves\<close>

lemma compute_root_path:
  assumes "fr_ok F" "2 \<le> D" "tree_ok (hash_pair F) D t" "path_for (hash_pair F) D t e = Ok p"
  shows "length (siblings_deepest_first D p) = D - 1"
    and "compute_root_from_leaf F D \<lparr>path_siblings = siblings_deepest_first D p\<rparr> e x = compute_root_hash (hash_pair F) D p x"
proof -
  let ?s = "rev (sibs (hash_pair F) (tree t) (lsb_bits e (D - 1)))"
  have len: "length ?s = D - 1" using path_for_spec(2) [OF assms(3)] by simp
  have p: "p = \<lparr>siblings = ?s @ [e], path_root_hash = root_hash (hash_pair F) t\<rparr>"
    using path_for_spec(1) [OF assms(3), of e] assms(4) by simp
  have s: "siblings_deepest_first D p = ?s" using len by (simp add: p siblings_deepest_first_def)
  then show "length (siblings_deepest_first D p) = D - 1" using len by simp
  have D: "D \<le> 257" using assms(3) by (simp add: tree_ok_def)
  have ne: "rev (lsb_bits e (D - 1)) \<noteq> []" "?s \<noteq> []" using len assms(2) D length_lsb_bits [of "D - 1" e] by auto
  show "compute_root_from_leaf F D \<lparr>path_siblings = siblings_deepest_first D p\<rparr> e x = compute_root_hash (hash_pair F) D p x"
    unfolding compute_root_from_leaf_def path_along_def least_significant_bits_def MerklePath.simps s path_root_merkle [OF assms(1)]
      if_not_P [of "_ \<or> _", OF conjI [THEN iffD2 [OF de_Morgan_disj], OF ne]] compute_root_hash_eq(1) [OF assms(3,4)] ..
qed

text \<open>The path of a free slot, read with zero, gives the root hash.\<close>

lemma compute_root_hash_free:
  assumes "tree_ok hm D t" "path_for hm D t e = Ok p" "slot (tree u) = (slot (tree t))(lsb_bits e (D - 1) := None)" "tree_ok hm D u"
  shows "compute_root_hash hm D p NULL_HASH = root_hash hm u"
  unfolding compute_root_hash_eq(2) [OF assms(1,2)] merkle_null root_hash_merkle [OF assms(4)] assms(3) ..

lemma insert_leaf_path_spec:
  assumes F: "fr_ok F" and D: "2 \<le> D" and t: "tree_ok (hash_pair F) D t" "simple_sound (hash_pair F) (cache t)"
    and e: "e \<noteq> ZERO" "represented F e" "\<forall>k \<in> tree_keys t. \<not> collides_with D k e"
  shows "\<exists>t' p. insert_leaf_path F D b pad e t = (t', [], Ok p) \<and> tree_ok (hash_pair F) D t' \<and> simple_sound (hash_pair F) (cache t')
    \<and> tree_keys t' = Set.insert e (tree_keys t) \<and> length (siblings_deepest_first D p) = D - 1
    \<and> insert_null_root F D (insert_new e \<lparr>path_siblings = siblings_deepest_first D p\<rparr>) = base F (root_hash (hash_pair F) t)
    \<and> insert_leaf_root F D (insert_new e \<lparr>path_siblings = siblings_deepest_first D p\<rparr>) = base F (root_hash (hash_pair F) t')"
proof -
  have null: "e \<noteq> NULL_HASH" using e(1) by (simp add: NULL_HASH_def)
  from simple.tree_insert_free [OF t e(3) null, of "\<lparr>inserted_in = b\<rparr>"] obtain t' where
    t': "tree_insert (hash_pair F) (simple_hash (hash_pair F)) D t e \<lparr>inserted_in = b\<rparr> = (t', Ok ())" "tree_ok (hash_pair F) D t'"
      "simple_sound (hash_pair F) (cache t')" "tree_keys t' = Set.insert e (tree_keys t)"
      "slot (tree t') = (slot (tree t))(lsb_bits e (D - 1) \<mapsto> e)" by auto
  obtain p where p: "path_for (hash_pair F) D t' e = Ok p" using path_for_spec(1) [OF t'(2)] by blast
  note root = compute_root_path [OF F D t'(2) p]
  have "slot (tree t) = (slot (tree t'))(lsb_bits e (D - 1) := None)"
    using slot_free_iff [OF t(1), of e] e(3) t'(5) by (simp add: fun_upd_idem)
  from compute_root_hash_free [OF t'(2) p this t(1)] root(2) [of NULL_HASH]
  have "compute_root_from_leaf F D \<lparr>path_siblings = siblings_deepest_first D p\<rparr> e ZERO = root_hash (hash_pair F) t"
    by (simp add: NULL_HASH_def)
  moreover have "compute_root_from_leaf F D \<lparr>path_siblings = siblings_deepest_first D p\<rparr> e e = root_hash (hash_pair F) t'"
    using root(2) [of e] compute_root_hash_eq(2) [OF t'(2) p, of e] root_hash_merkle [OF t'(2)] t'(5) by simp
  ultimately show ?thesis using t' p root(1) e(1)
    by (simp add: insert_leaf_path_def nbind_def insert_null_root_def insert_leaf_root_def insert_new_def
        compute_null_root_def compute_root_def)
qed

definition nonzero :: "element list \<Rightarrow> element list" where
  "nonzero es = filter (\<lambda>e. e \<noteq> ZERO) es"

lemma nonzero_simps [simp]: "nonzero [] = []" "nonzero (e # es) = (if e = ZERO then nonzero es else e # nonzero es)"
  "nonzero (es @ fs) = nonzero es @ nonzero fs"
  by (simp_all add: nonzero_def)

lemma gen_inserts_spec:
  assumes F: "fr_ok F" and D: "2 \<le> D" and pad: "length (siblings_deepest_first D pad) = D - 1"
  shows "tree_ok (hash_pair F) D t \<Longrightarrow> simple_sound (hash_pair F) (cache t) \<Longrightarrow> \<forall>e \<in> set leaves. represented F e \<Longrightarrow>
    distinct (map (\<lambda>e. lsb_bits e (D - 1)) (nonzero leaves)) \<Longrightarrow>
    \<forall>k \<in> tree_keys t. \<forall>e \<in> set (nonzero leaves). \<not> collides_with D k e \<Longrightarrow>
    \<exists>t' is. gen_inserts F D b pad leaves t = (t', [], Ok is) \<and> tree_ok (hash_pair F) D t' \<and> simple_sound (hash_pair F) (cache t')
      \<and> tree_keys t' = tree_keys t \<union> set (nonzero leaves) \<and> map insert_leaf is = leaves
      \<and> batch_links F D (base F (root_hash (hash_pair F) t)) is
      \<and> last_root F D (base F (root_hash (hash_pair F) t)) is = base F (root_hash (hash_pair F) t')
      \<and> (\<forall>i \<in> set is. insert_leaf i = ZERO \<longrightarrow> insert_path i = \<lparr>path_siblings = siblings_deepest_first D pad\<rparr>)"
proof (induction leaves arbitrary: t)
  case (Cons e leaves)
  let ?h = "hash_pair F"
  have mp: "merkle_path_new D (take (D - 1) (siblings_deepest_first D p)) = Ok \<lparr>path_siblings = siblings_deepest_first D p\<rparr>"
    if "length (siblings_deepest_first D p) = D - 1" for p using that by (simp add: merkle_path_new_def)
  show ?case
  proof (cases "e = ZERO")
    case True
    with Cons.IH [OF Cons.prems(1,2)] Cons.prems(3-5) obtain t' js where
      r: "gen_inserts F D b pad leaves t = (t', [], Ok js)" "tree_ok ?h D t'" "simple_sound ?h (cache t')"
        "tree_keys t' = tree_keys t \<union> set (nonzero leaves)" "map insert_leaf js = leaves"
        "batch_links F D (base F (root_hash ?h t)) js" "last_root F D (base F (root_hash ?h t)) js = base F (root_hash ?h t')"
        "\<forall>i \<in> set js. insert_leaf i = ZERO \<longrightarrow> insert_path i = \<lparr>path_siblings = siblings_deepest_first D pad\<rparr>" by auto
    have "insert_is_padding F (insert_new e q)" "insert_ok F D (insert_new e \<lparr>path_siblings = siblings_deepest_first D pad\<rparr>)" for q
      using True pad base_consts(3) [OF F] by (simp_all add: insert_is_padding_def insert_new_def insert_ok_def)
    with r True show ?thesis
      by (simp add: insert_leaf_path_def nbind_def mp [OF pad] del: One_nat_def) (simp add: insert_new_def)
  next
    case False
    from insert_leaf_path_spec [OF F D Cons.prems(1,2) False, of b pad] Cons.prems(3,5) False obtain t1 p where
      t1: "insert_leaf_path F D b pad e t = (t1, [], Ok p)" "tree_ok ?h D t1" "simple_sound ?h (cache t1)"
        "tree_keys t1 = Set.insert e (tree_keys t)" "length (siblings_deepest_first D p) = D - 1"
        "insert_null_root F D (insert_new e \<lparr>path_siblings = siblings_deepest_first D p\<rparr>) = base F (root_hash ?h t)"
        "insert_leaf_root F D (insert_new e \<lparr>path_siblings = siblings_deepest_first D p\<rparr>) = base F (root_hash ?h t1)" by auto
    have "\<forall>k \<in> tree_keys t1. \<forall>x \<in> set (nonzero leaves). \<not> collides_with D k x"
      using Cons.prems(4,5) False t1(4) by (force simp: collides_with_def)
    with Cons.IH [OF t1(2,3)] Cons.prems(3,4) False obtain t' js where
      r: "gen_inserts F D b pad leaves t1 = (t', [], Ok js)" "tree_ok ?h D t'" "simple_sound ?h (cache t')"
        "tree_keys t' = tree_keys t1 \<union> set (nonzero leaves)" "map insert_leaf js = leaves"
        "batch_links F D (base F (root_hash ?h t1)) js" "last_root F D (base F (root_hash ?h t1)) js = base F (root_hash ?h t')"
        "\<forall>i \<in> set js. insert_leaf i = ZERO \<longrightarrow> insert_path i = \<lparr>path_siblings = siblings_deepest_first D pad\<rparr>" by auto
    have "\<not> insert_is_padding F (insert_new e q)" "insert_ok F D (insert_new e \<lparr>path_siblings = siblings_deepest_first D p\<rparr>)" for q
      using False t1(5) Cons.prems(3) by (simp_all add: insert_is_padding_def insert_new_def insert_ok_def)
    moreover have "gen_inserts F D b pad (e # leaves) t = (t', [], Ok (insert_new e \<lparr>path_siblings = siblings_deepest_first D p\<rparr> # js))"
      unfolding gen_inserts.simps by (simp add: nbind_def t1(1) r(1) mp [OF t1(5)] del: One_nat_def)
    moreover have "insert_leaf (insert_new e q) = e" for q by (simp add: insert_new_def)
    ultimately show ?thesis using r t1 False by simp
  qed
qed simp

text \<open>The instances of a transaction's proof; a missing transaction is padding, whose instances are zero.\<close>

definition txn_column :: "SnarkWitnessV1 option \<Rightarrow> element list" where
  "txn_column t = (case t of Some w \<Rightarrow> hd (sw_instances w) | None \<Rightarrow> replicate 7 ZERO)"

definition column_leaves :: "'f Fr \<Rightarrow> element list list \<Rightarrow> element list" where
  "column_leaves F cols = concat (map (\<lambda>col. map (\<lambda>f. elem F (base F f)) (drop 3 col)) cols)"

definition column_heads :: "'f Fr \<Rightarrow> element list list \<Rightarrow> element list" where
  "column_heads F cols = concat (map (\<lambda>col. map (\<lambda>f. elem F (base F f)) (take 3 col)) cols)"

text \<open>Witnesses with the given first columns, of seven instances each.\<close>

definition with_columns :: "SnarkWitnessV1 list \<Rightarrow> element list list \<Rightarrow> bool" where
  "with_columns ws cols \<longleftrightarrow> list_all2 (\<lambda>w col. (\<exists>rest. sw_instances w = col # rest) \<and> length col = 7) ws cols"

lemma gen_leaves_columns: "with_columns ws cols \<Longrightarrow> gen_leaves F ws = Ok (column_leaves F cols)"
  unfolding with_columns_def by (induction rule: list_all2_induct) (auto simp: column_leaves_def)

lemma length_column_leaves: "with_columns ws cols \<Longrightarrow> length (column_leaves F cols) = length ws * 4"
  unfolding with_columns_def by (induction rule: list_all2_induct) (auto simp: column_leaves_def)

text \<open>The slots of zero and of the leaves are different and free.\<close>

definition batch_slots_free :: "nat \<Rightarrow> element set \<Rightarrow> element list \<Rightarrow> bool" where
  "batch_slots_free D K es \<longleftrightarrow> distinct (map (\<lambda>e. lsb_bits e (D - 1)) (ZERO # nonzero es))
     \<and> (\<forall>k \<in> K. \<forall>e \<in> set (ZERO # nonzero es). \<not> collides_with D k e)"

lemma batch_slots_free_append:
  assumes "batch_slots_free D K (es @ fs)"
  shows "batch_slots_free D K es" "batch_slots_free D (K \<union> set (nonzero es)) fs"
  using assms by (auto simp: batch_slots_free_def collides_with_def image_iff)

lemma root_hash_represented:
  assumes "fr_ok F" "2 \<le> D" "tree_ok (hash_pair F) D t"
  shows "elem F (base F (root_hash (hash_pair F) t)) = root_hash (hash_pair F) t"
proof -
  obtain d where d: "D = Suc (Suc d)" using assms(2) by (metis add_2_eq_Suc le_Suc_ex)
  have "represented F (root_hash (hash_pair F) t)"
    unfolding root_hash_merkle [OF assms(3)] d merkle.simps by (rule represented_merge [OF assms(1)])
  then show ?thesis by (simp add: represented_def)
qed

lemma gen_batch_spec:
  assumes F: "fr_ok F" and D: "2 \<le> D" and t: "tree_ok (hash_pair F) D t" "simple_sound (hash_pair F) (cache t)"
    and ws: "with_columns ws cols" "length ws = UTXO_AGG_NUMBER" and free: "batch_slots_free D (tree_keys t) (column_leaves F cols)"
  shows "\<exists>t' is. gen_batch F D ws b t = (t', [], Ok (UTXO_AGG_LEAVES, root_hash (hash_pair F) t, root_hash (hash_pair F) t', is))
    \<and> tree_ok (hash_pair F) D t' \<and> simple_sound (hash_pair F) (cache t')
    \<and> tree_keys t' = tree_keys t \<union> set (nonzero (column_leaves F cols)) \<and> map insert_leaf is = column_leaves F cols
    \<and> batch_old_root F D is = Ok (base F (root_hash (hash_pair F) t))
    \<and> batch_links F D (base F (root_hash (hash_pair F) t)) is
    \<and> batch_new_root F D is = Ok (base F (root_hash (hash_pair F) t'))"
proof -
  let ?h = "hash_pair F" and ?ls = "column_leaves F cols"
  obtain pad where pad: "path_for ?h D t ZERO = Ok pad" using path_for_spec(1) [OF t(1)] by blast
  note root = compute_root_path [OF F D t(1) pad]
  have "slot (tree t) (lsb_bits ZERO (D - 1)) = None"
    using slot_free_iff [OF t(1), of ZERO] free by (simp add: batch_slots_free_def)
  then have zero: "compute_root_from_leaf F D \<lparr>path_siblings = siblings_deepest_first D pad\<rparr> ZERO ZERO = root_hash ?h t"
    using compute_root_hash_free [OF t(1) pad _ t(1)] root(2) [of ZERO] by (simp add: NULL_HASH_def fun_upd_idem)
  have "\<forall>e \<in> set ?ls. represented F e" by (auto simp: column_leaves_def represented_elem [OF F])
  from gen_inserts_spec [OF F D root(1) t this, of b] free obtain t' js where
    r: "gen_inserts F D b pad ?ls t = (t', [], Ok js)" "tree_ok ?h D t'" "simple_sound ?h (cache t')"
      "tree_keys t' = tree_keys t \<union> set (nonzero ?ls)" "map insert_leaf js = ?ls"
      "batch_links F D (base F (root_hash ?h t)) js" "last_root F D (base F (root_hash ?h t)) js = base F (root_hash ?h t')"
      "\<forall>i \<in> set js. insert_leaf i = ZERO \<longrightarrow> insert_path i = \<lparr>path_siblings = siblings_deepest_first D pad\<rparr>"
    by (auto simp: batch_slots_free_def)
  have len: "length js = UTXO_AGG_LEAVES"
    using length_column_leaves [OF ws(1), of F] ws(2) r(5) [THEN arg_cong, of length]
    by (simp add: UTXO_AGG_LEAVES_def UTXO_INPUTS_def UTXO_OUTPUTS_def)
  then obtain i js' where js: "js = i # js'" by (cases js) (auto simp: UTXO_AGG_LEAVES_def UTXO_AGG_NUMBER_def UTXO_INPUTS_def)
  have old: "batch_old_root F D js = Ok (base F (root_hash ?h t))"
  proof (cases "insert_leaf i = ZERO")
    case True
    then have "insert_path i = \<lparr>path_siblings = siblings_deepest_first D pad\<rparr>" using r(8) js by simp
    with True zero show ?thesis by (simp add: js insert_null_root_def compute_null_root_def)
  next
    case False
    then show ?thesis using r(6) by (simp add: js insert_is_padding_def)
  qed
  have "gen_batch F D ws b t = (t', [], Ok (UTXO_AGG_LEAVES, root_hash ?h t, root_hash ?h t', js))"
    using pad r(1) len by (simp add: gen_batch_def nbind_def gen_leaves_columns [OF ws(1)])
  with r old batch_new_root_last [OF old] show ?thesis by auto
qed

section \<open>The proof of a block\<close>

text \<open>
  A proof system that creates proofs: creation succeeds, and an accumulator has twelve limbs (four coordinates
  of three limbs).
\<close>

definition proof_system_ok :: "'f proof_system \<Rightarrow> bool" where
  "proof_system_ok E \<longleftrightarrow> (\<forall>c is. is_Ok (create_proof E c is)) \<and> (\<forall>a is. is_Ok (evm_gen_proof E a is))
     \<and> (\<forall>ss. length (fst (accumulator_native E ss)) = 12)"

lemma snark_create_ok:
  "proof_system_ok E \<Longrightarrow> \<exists>pr. snark_create E c inst = Ok \<lparr>snark_instances = inst, snark_proof = pr\<rparr>"
  unfolding proof_system_ok_def snark_create_def by (metis is_Ok.simps(2,3) omap.simps(1) outcome.exhaust unwrap.simps(1))

lemma merkle_path_default_ok: "\<exists>p. merkle_path_default hm D = Ok p"
proof -
  have "\<exists>hs. empty_hashes hm ds = Ok hs \<and> length hs = length ds" if "0 \<notin> set ds" for ds
    using that by (induction ds) (auto simp: empty_tree_hash_eq)
  from this [of "[1..<D]"] show ?thesis by (auto simp: merkle_path_default_def merkle_path_new_def)
qed

lemma aggregate_utxo_default_ok:
  assumes "proof_system_ok E"
  shows "\<exists>a. aggregate_utxo_default E F D n m = Ok a"
proof -
  obtain p where p: "merkle_path_default (hash_pair F) D = Ok p" using merkle_path_default_ok by blast
  then obtain u where u: "utxo_default F D = Ok u" by (simp add: utxo_default_def)
  obtain s where "utxo_snark E F u = Ok s" using snark_create_ok [OF assms] by (auto simp: utxo_snark_def)
  with p u show ?thesis by (simp add: aggregate_utxo_default_def)
qed

lemma new_padding_inputs:
  assumes F: "fr_ok F"
  obtains u where "new_padding F D = Ok u" "public_inputs F u = replicate 7 0"
proof -
  obtain p where p: "merkle_path_default (hash_pair F) D = Ok p" using merkle_path_default_ok by blast
  define u where "u = utxo_tx_new (replicate 2 \<lparr>in_note = padding_note F, in_secret_key = ZERO, in_merkle_path = p\<rparr>)
    (replicate UTXO_OUTPUTS (padding_note F)) ZERO KTransfer"
  have u: "new_padding F D = Ok u" by (simp add: new_padding_def input_padding_note_def p u_def)
  have two: "replicate 2 x = [x, x]" for x :: 'z by (simp add: numeral_2_eq_2)
  have "public_inputs F u = replicate 7 0"
    by (simp add: public_inputs_def u_def utxo_tx_new_def UTXO_OUTPUTS_def two input_nullifier_def nullifier_def note_is_padding_def
        base_consts [OF F] numeral_eq_Suc)
  with u show ?thesis by (rule that)
qed

lemma fill_txn_ok:
  assumes F: "fr_ok F" and E: "proof_system_ok E"
    and t: "\<And>w. t = Some w \<Longrightarrow> sw_instances w \<noteq> [] \<and> length (hd (sw_instances w)) = 7"
  shows "\<exists>w rest. fill_txn E F D t = Ok w \<and> sw_instances w = txn_column t # rest \<and> length (txn_column t) = 7"
proof (cases t)
  case (Some w)
  with t [of w] show ?thesis by (cases "sw_instances w") (auto simp: fill_txn_def txn_column_def)
next
  case None
  obtain u where u: "new_padding F D = Ok u" and pub: "public_inputs F u = replicate 7 0" using new_padding_inputs [OF F] .
  obtain pr where "utxo_snark E F u = Ok \<lparr>snark_instances = [replicate 7 0], snark_proof = pr\<rparr>"
    using snark_create_ok [OF E] by (auto simp: utxo_snark_def pub)
  moreover have "elem F 0 = ZERO" using fr_okD(8) [OF F, of 0] by (simp add: ZERO_def)
  ultimately show ?thesis using None u by (simp add: fill_txn_def to_witness_def txn_column_def)
qed

lemma fill_txns_ok:
  assumes F: "fr_ok F" and E: "proof_system_ok E"
  shows "\<forall>w. Some w \<in> set ts \<longrightarrow> sw_instances w \<noteq> [] \<and> length (hd (sw_instances w)) = 7 \<Longrightarrow>
    \<exists>ws. fill_txns E F D ts = Ok ws \<and> with_columns ws (map txn_column ts)"
proof (induction ts)
  case (Cons t ts)
  obtain w rest where w: "fill_txn E F D t = Ok w" "sw_instances w = txn_column t # rest" "length (txn_column t) = 7"
    using fill_txn_ok [OF F E, of t D] Cons.prems by auto
  from Cons obtain ws where "fill_txns E F D ts = Ok ws" "with_columns ws (map txn_column ts)" by auto
  with w show ?case by (simp add: with_columns_def)
qed (simp add: with_columns_def)

text \<open>The aggregate of a group: its public inputs are the accumulator, the roots and the first three instances of each proof.\<close>

lemma utxo_public_inputs_columns:
  "with_columns ws cols \<Longrightarrow>
    utxo_public_inputs (map (from_witness F) ws) = Ok (concat (map (\<lambda>col. map (base F) (take 3 col)) cols))"
  unfolding with_columns_def
proof (induction rule: list_all2_induct)
  case (Cons w ws col cols)
  then obtain a b c rest where "col = a # b # c # rest" by (auto simp: eval_nat_numeral length_Suc_conv)
  with Cons show ?case by (auto simp: from_witness_def)
qed simp

definition agg_inputs :: "'f Fr \<Rightarrow> 'f \<Rightarrow> 'f \<Rightarrow> element list list \<Rightarrow> 'f list \<Rightarrow> bool" where
  "agg_inputs F old new cols I \<longleftrightarrow>
     (\<exists>limbs. length limbs = 12 \<and> I = limbs @ [old, new] @ concat (map (\<lambda>col. map (base F) (take 3 col)) cols))"

lemma prover_aggregate_utxo_spec:
  assumes F: "fr_ok F" and E: "proof_system_ok E" and D: "2 \<le> D"
    and t: "tree_ok (hash_pair F) D t" "simple_sound (hash_pair F) (cache t)"
    and ws: "with_columns ws cols" "length ws = UTXO_AGG_NUMBER" and free: "batch_slots_free D (tree_keys t) (column_leaves F cols)"
  shows "\<exists>t' a s. prover_aggregate_utxo E F D ws b t = (t', [], Ok a)
    \<and> tree_ok (hash_pair F) D t' \<and> simple_sound (hash_pair F) (cache t')
    \<and> tree_keys t' = tree_keys t \<union> set (nonzero (column_leaves F cols))
    \<and> agg_utxo_snark E F D a = Ok s
    \<and> (\<exists>I. snark_instances s = [I]
         \<and> agg_inputs F (base F (root_hash (hash_pair F) t)) (base F (root_hash (hash_pair F) t')) cols I)"
proof -
  let ?h = "hash_pair F"
  from gen_batch_spec [OF F D t ws free, of b] obtain t' js where
    r: "gen_batch F D ws b t = (t', [], Ok (UTXO_AGG_LEAVES, root_hash ?h t, root_hash ?h t', js))"
      "tree_ok ?h D t'" "simple_sound ?h (cache t')" "tree_keys t' = tree_keys t \<union> set (nonzero (column_leaves F cols))"
      "batch_old_root F D js = Ok (base F (root_hash ?h t))" "batch_new_root F D js = Ok (base F (root_hash ?h t'))" by auto
  obtain limbs pr where acc: "accumulator_native E (map (from_witness F) ws) = (limbs, pr)" by (cases "accumulator_native E (map (from_witness F) ws)") auto
  then have limbs: "length limbs = 12" using E unfolding proof_system_ok_def by (metis fst_conv)
  let ?a = "\<lparr>agg_utxo = map (from_witness F) ws, agg_insert = js, agg_utxo_instances = limbs, agg_utxo_proof = pr\<rparr>"
  let ?I = "limbs @ [base F (root_hash ?h t), base F (root_hash ?h t')] @ concat (map (\<lambda>col. map (base F) (take 3 col)) cols)"
  have a: "prover_aggregate_utxo E F D ws b t = (t', [], Ok ?a)"
    by (simp add: prover_aggregate_utxo_def nbind_def r(1) aggregate_utxo_new_def acc)
  have I: "aggregate_utxo_public_inputs F D ?a = Ok ?I"
    by (simp add: aggregate_utxo_public_inputs_def r(5,6) utxo_public_inputs_columns [OF ws(1)])
  obtain d where d: "aggregate_utxo_default E F D (length ws) (length js) = Ok d"
    using aggregate_utxo_default_ok [OF E] by blast
  obtain q where "snark_create E (AggUtxoCircuit d) [?I] = Ok \<lparr>snark_instances = [?I], snark_proof = q\<rparr>"
    using snark_create_ok [OF E] by blast
  then have "agg_utxo_snark E F D ?a = Ok \<lparr>snark_instances = [?I], snark_proof = q\<rparr>" by (simp add: agg_utxo_snark_def d I)
  with a r(2-4) limbs show ?thesis unfolding agg_inputs_def by fastforce
qed

text \<open>The groups one after the other, each from the tree that the previous one leaves.\<close>

fun group_snarks :: "'f::field Fr \<Rightarrow> element list list list \<Rightarrow> 'f \<Rightarrow> 'f Snark list \<Rightarrow> 'f \<Rightarrow> bool" where
  "group_snarks F [] r [] r' \<longleftrightarrow> r = r'"
| "group_snarks F (cols # groups) r (s # ss) r' \<longleftrightarrow>
     (\<exists>I new. snark_instances s = [I] \<and> agg_inputs F r new cols I \<and> group_snarks F groups new ss r')"
| "group_snarks F _ r _ r' \<longleftrightarrow> False"

definition group_columns :: "nat \<Rightarrow> SnarkWitnessV1 option list \<Rightarrow> element list list list" where
  "group_columns n ts = map (\<lambda>k. map txn_column (take UTXO_AGG_NUMBER (drop (k * UTXO_AGG_NUMBER) ts))) [0..<n]"

lemma group_columns_Suc: "group_columns (Suc n) ts = map txn_column (take UTXO_AGG_NUMBER ts) # group_columns n (drop UTXO_AGG_NUMBER ts)"
  by (simp add: group_columns_def upt_conv_Cons map_Suc_upt [symmetric] o_def add.commute del: upt_Suc)

lemma aggregate_groups_spec:
  assumes F: "fr_ok F" and E: "proof_system_ok E" and D: "2 \<le> D"
  shows "tree_ok (hash_pair F) D t \<Longrightarrow> simple_sound (hash_pair F) (cache t) \<Longrightarrow> length ts = n * UTXO_AGG_NUMBER \<Longrightarrow>
    \<forall>w. Some w \<in> set ts \<longrightarrow> sw_instances w \<noteq> [] \<and> length (hd (sw_instances w)) = 7 \<Longrightarrow>
    batch_slots_free D (tree_keys t) (column_leaves F (map txn_column ts)) \<Longrightarrow>
    \<exists>t' as ss. aggregate_groups E F D b n ts t = (t', [], Ok as) \<and> tree_ok (hash_pair F) D t'
      \<and> tree_keys t' = tree_keys t \<union> set (nonzero (column_leaves F (map txn_column ts)))
      \<and> list_all2 (\<lambda>a s. agg_utxo_snark E F D a = Ok s) as ss
      \<and> group_snarks F (group_columns n ts) (base F (root_hash (hash_pair F) t)) ss (base F (root_hash (hash_pair F) t'))"
proof (induction n arbitrary: t ts)
  case 0
  then show ?case by (simp add: group_columns_def column_leaves_def)
next
  case (Suc n)
  let ?h = "hash_pair F" and ?g = "take UTXO_AGG_NUMBER ts" and ?r = "drop UTXO_AGG_NUMBER ts"
  have wit: "\<forall>w. Some w \<in> set xs \<longrightarrow> sw_instances w \<noteq> [] \<and> length (hd (sw_instances w)) = 7" if "set xs \<subseteq> set ts" for xs
    using Suc.prems(4) that by auto
  have split: "column_leaves F (map txn_column ts) = column_leaves F (map txn_column ?g) @ column_leaves F (map txn_column ?r)"
    unfolding column_leaves_def concat_append [symmetric] map_append [symmetric] append_take_drop_id ..
  note free = batch_slots_free_append [OF Suc.prems(5) [unfolded split]]
  obtain ws where ws: "fill_txns E F D ?g = Ok ws" "with_columns ws (map txn_column ?g)"
    using fill_txns_ok [OF F E wit [OF set_take_subset]] by blast
  have len: "length ws = UTXO_AGG_NUMBER"
    using list_all2_lengthD [OF ws(2) [unfolded with_columns_def]] Suc.prems(3) by simp
  from prover_aggregate_utxo_spec [OF F E D Suc.prems(1,2) ws(2) len free(1), of b] obtain t1 a s I where
    r: "prover_aggregate_utxo E F D ws b t = (t1, [], Ok a)" "tree_ok ?h D t1" "simple_sound ?h (cache t1)"
      "tree_keys t1 = tree_keys t \<union> set (nonzero (column_leaves F (map txn_column ?g)))" "agg_utxo_snark E F D a = Ok s"
      "snark_instances s = [I]" "agg_inputs F (base F (root_hash ?h t)) (base F (root_hash ?h t1)) (map txn_column ?g) I" by auto
  from Suc.IH [OF r(2,3) _ wit [OF set_drop_subset] free(2) [folded r(4)]] Suc.prems(3) obtain t' as ss where
    q: "aggregate_groups E F D b n ?r t1 = (t', [], Ok as)" "tree_ok ?h D t'"
      "tree_keys t' = tree_keys t1 \<union> set (nonzero (column_leaves F (map txn_column ?r)))"
      "list_all2 (\<lambda>a s. agg_utxo_snark E F D a = Ok s) as ss"
      "group_snarks F (group_columns n ?r) (base F (root_hash ?h t1)) ss (base F (root_hash ?h t'))" by auto
  have "aggregate_groups E F D b (Suc n) ts t = (t', [], Ok (a # as))"
    unfolding aggregate_groups.simps by (simp add: nbind_def ws(1) len r(1) q(1))
  moreover have "group_snarks F (group_columns (Suc n) ts) (base F (root_hash ?h t)) (s # ss) (base F (root_hash ?h t'))"
    unfolding group_columns_Suc using r(6,7) q(5) by auto
  ultimately show ?case using q(2-4) r(4,5) split by (intro exI [of _ t'] exI [of _ "a # as"] exI [of _ "s # ss"]) auto
qed

lemma collect_snarks:
  "list_all2 (\<lambda>a s. agg_utxo_snark E F D a = Ok s) as ss \<Longrightarrow>
    ofold (\<lambda>a ss. omap (\<lambda>s. ss @ [s]) (agg_utxo_snark E F D a)) as acc = Ok (acc @ ss)"
  by (induction arbitrary: acc rule: list_all2_induct) simp_all

abbreviation head_values :: "'f Fr \<Rightarrow> element list list \<Rightarrow> 'f list" where
  "head_values F cols \<equiv> concat (map (\<lambda>col. map (base F) (take 3 col)) cols)"

lemma agg_inputs_column:
  assumes "agg_inputs F r r' cols I" "snark_instances s = [I]"
  shows "column_at 12 s = Ok r" "column_at 13 s = Ok r'" "14 \<le> length I" "drop 14 I = head_values F cols"
  using assms by (auto simp: agg_inputs_def column_at_def nth_append)

lemma group_snarks_values:
  "group_snarks F groups r ss r' \<Longrightarrow> agg_agg_utxo_values ss = Ok (head_values F (concat groups))"
proof (induction F groups r ss r' rule: group_snarks.induct)
  case (2 F cols groups r s ss r')
  then obtain I new where "snark_instances s = [I]" "agg_inputs F r new cols I" "group_snarks F groups new ss r'" by auto
  with 2 agg_inputs_column(3,4) [of F r new cols I s] show ?case by auto
qed auto

lemma group_snarks_first: "group_snarks F groups r (s # ss) r' \<Longrightarrow> column_at 12 s = Ok r"
  by (cases groups) (auto dest: agg_inputs_column)

lemma group_snarks_last: "group_snarks F groups r ss r' \<Longrightarrow> ss \<noteq> [] \<Longrightarrow> column_at 13 (last ss) = Ok r'"
proof (induction F groups r ss r' rule: group_snarks.induct)
  case (2 F cols groups r s ss r')
  then obtain I new where s: "snark_instances s = [I]" "agg_inputs F r new cols I" "group_snarks F groups new ss r'" by auto
  show ?case
  proof (cases "ss = []")
    case True
    then have "new = r'" using s(3) by (cases groups) auto
    with True s agg_inputs_column(2) show ?thesis by fastforce
  qed (use 2 s in auto)
qed auto

lemma agg_agg_new_inputs:
  assumes F: "fr_ok F" and E: "proof_system_ok E" and g: "group_snarks F groups r ss r'" "ss \<noteq> []"
  shows "agg_agg_old_root (agg_agg_new E F ss) = Ok r" "agg_agg_new_root (agg_agg_new E F ss) = Ok r'"
    "agg_agg_utxo_values (aggregates (agg_agg_new E F ss)) = Ok (head_values F (concat groups))"
    "\<exists>I. agg_agg_public_inputs F (agg_agg_new E F ss) = Ok I \<and> agg_inputs F r r' (concat groups) I"
proof -
  obtain limbs pr where acc: "accumulator_native E ss = (limbs, pr)" by (cases "accumulator_native E ss")
  then have limbs: "length limbs = 12" using E unfolding proof_system_ok_def by (metis fst_conv)
  have a: "agg_agg_new E F ss = \<lparr>aggregates = ss, agg_agg_instances = map (elem F) limbs, agg_agg_proof = pr\<rparr>"
    by (simp add: agg_agg_new_def acc)
  show old: "agg_agg_old_root (agg_agg_new E F ss) = Ok r"
    unfolding a agg_agg_old_root_def using g group_snarks_first by (cases ss) auto
  show new: "agg_agg_new_root (agg_agg_new E F ss) = Ok r'"
    unfolding a agg_agg_new_root_def using group_snarks_last [OF g] g(2) by (cases ss rule: rev_cases) auto
  show vals: "agg_agg_utxo_values (aggregates (agg_agg_new E F ss)) = Ok (head_values F (concat groups))"
    using group_snarks_values [OF g(1)] by (simp add: a)
  have "map (base F) (map (elem F) limbs) = limbs" by (simp add: fr_okD(5) [OF F] map_idI)
  then show "\<exists>I. agg_agg_public_inputs F (agg_agg_new E F ss) = Ok I \<and> agg_inputs F r r' (concat groups) I"
    using old new vals limbs by (simp add: agg_agg_public_inputs_def agg_inputs_def) (simp add: a)
qed

lemma prove_block_spec:
  assumes F: "fr_ok F" and E: "proof_system_ok E" and D: "2 \<le> D"
    and t: "tree_ok (hash_pair F) D t" "simple_sound (hash_pair F) (cache t)"
    and ts: "length ts = MAXIMUM_TXNS" "\<forall>w. Some w \<in> set ts \<longrightarrow> sw_instances w \<noteq> [] \<and> length (hd (sw_instances w)) = 7"
    and free: "batch_slots_free D (tree_keys t) (column_leaves F (map txn_column ts))"
  shows "\<exists>p. \<exists>t' :: (SmirkMetadata, SimpleHashCache) Tree. prove_block E F D t b ts = Ok p \<and> rp_old_root p = root_hash (hash_pair F) t
    \<and> tree_ok (hash_pair F) D t' \<and> tree_keys t' = tree_keys t \<union> set (nonzero (column_leaves F (map txn_column ts)))
    \<and> rp_new_root p = root_hash (hash_pair F) t' \<and> rp_utxo_hashes p = column_heads F (map txn_column ts)"
proof -
  let ?h = "hash_pair F" and ?g = "group_columns UTXO_AGGREGATIONS ts"
  have len: "length ts = UTXO_AGGREGATIONS * UTXO_AGG_NUMBER" using ts(1) by (simp add: MAXIMUM_TXNS_def)
  from aggregate_groups_spec [OF F E D t len ts(2) free, of b] obtain t' as ss where
    r: "aggregate_groups E F D b UTXO_AGGREGATIONS ts t = (t', [], Ok as)" "tree_ok ?h D t'"
      "tree_keys t' = tree_keys t \<union> set (nonzero (column_leaves F (map txn_column ts)))"
      "list_all2 (\<lambda>a s. agg_utxo_snark E F D a = Ok s) as ss"
      "group_snarks F ?g (base F (root_hash ?h t)) ss (base F (root_hash ?h t'))" by blast
  have g: "concat ?g = map txn_column ts"
    using ts(1) by (simp add: group_columns_def UTXO_AGGREGATIONS_def UTXO_AGG_NUMBER_def MAXIMUM_TXNS_def upt_rec
        take_map [symmetric] drop_map [symmetric] del: take_map drop_map)
  have ne: "ss \<noteq> []" using r(5) by (cases ss) (auto simp: group_columns_def UTXO_AGGREGATIONS_def upt_rec)
  obtain I where I: "agg_agg_public_inputs F (agg_agg_new E F ss) = Ok I"
    "agg_inputs F (base F (root_hash ?h t)) (base F (root_hash ?h t')) (map txn_column ts) I"
    using agg_agg_new_inputs(4) [OF F E r(5) ne] unfolding g by blast
  obtain q where q: "agg_agg_snark E F (agg_agg_new E F ss) = Ok \<lparr>snark_instances = [I], snark_proof = q\<rparr>"
    using snark_create_ok [OF E] by (auto simp: agg_agg_snark_def I(1))
  let ?s = "\<lparr>snark_instances = [I], snark_proof = q\<rparr>"
  have one: "group_snarks F [map txn_column ts] (base F (root_hash ?h t)) [?s] (base F (root_hash ?h t'))" using I(2) by auto
  note top = agg_agg_new_inputs [OF F E one not_Cons_self2]
  obtain J where J: "agg_agg_public_inputs F (agg_agg_new E F [?s]) = Ok J" using top(4) by blast
  obtain pr where pr: "evm_gen_proof E (agg_agg_new E F [?s]) [J] = Ok pr"
    using E unfolding proof_system_ok_def by (metis is_Ok.simps(2,3) outcome.exhaust)
  have gen: "generate_aggregate_proof E F D ts b t = (t', [], Ok (agg_agg_new E F [?s], pr))"
    unfolding generate_aggregate_proof_def aggregate_aggregate_utxo_def
    by (simp add: nbind_def r(1) collect_snarks [OF r(4)] q J pr Let_def)
  have heads: "column_heads F (map txn_column ts) = map (elem F) (head_values F (map txn_column ts))"
    by (simp add: column_heads_def map_concat o_def)
  note roots = root_hash_represented [OF F D t(1)] root_hash_represented [OF F D r(2)]
  obtain p where run: "prove_block E F D t b ts = Ok p" and p: "rp_old_root p = root_hash ?h t" "rp_new_root p = root_hash ?h t'"
      "rp_utxo_hashes p = column_heads F (map txn_column ts)"
    using top(1-3) unfolding heads by (simp add: prove_block_def gen roots)
  show ?thesis by (rule exI [of _ p], rule exI [of _ t'], intro conjI) (rule run p r(2) r(3))+
qed

end
