(* ===== verification/Prover_Props.thy ===== *)
theory Prover_Props
  imports Rollup_Prover Circuit_Sample
begin

text \<open>
  The properties of the prover: the batch that it builds for a group of transactions meets the batch circuit, and the
  proof of a block connects the roots of the trees before and after the block.
\<close>

text \<open>
  C16: the prover's batch can be proved. For three transactions whose leaves have free and pairwise different slots, the
  prover inserts exactly the leaves that are not zero, the roots it returns are those of the tree before and after, and
  the inserts with the paths it recorded meet the batch circuit for these roots and all leaves in order.
\<close>

theorem gen_batch_proves:
  assumes "fr_ok F" "2 \<le> D" "tree_ok (hash_pair F) D t" "simple_sound (hash_pair F) (cache t)"
    and "with_columns ws cols" "length ws = UTXO_AGG_NUMBER" "batch_slots_free D (tree_keys t) (column_leaves F cols)"
  shows "\<exists>t' is. gen_batch F D ws b t = (t', [], Ok (UTXO_AGG_LEAVES, root_hash (hash_pair F) t, root_hash (hash_pair F) t', is))
    \<and> tree_ok (hash_pair F) D t' \<and> tree_keys t' = tree_keys t \<union> set (nonzero (column_leaves F cols))
    \<and> met_by (poseidon_hash F)
        ([base F (root_hash (hash_pair F) t), base F (root_hash (hash_pair F) t')] @ map (base F) (column_leaves F cols))
        (batch_synthesize F D is) (assigned (batch_synthesize F D is))"
proof -
  let ?h = "hash_pair F"
  from gen_batch_spec [OF assms, of b] obtain t' js where
    r: "gen_batch F D ws b t = (t', [], Ok (UTXO_AGG_LEAVES, root_hash ?h t, root_hash ?h t', js))" "tree_ok ?h D t'"
      "tree_keys t' = tree_keys t \<union> set (nonzero (column_leaves F cols))" "map insert_leaf js = column_leaves F cols"
      "batch_old_root F D js = Ok (base F (root_hash ?h t))" "batch_links F D (base F (root_hash ?h t)) js"
      "batch_new_root F D js = Ok (base F (root_hash ?h t'))" by blast
  have D: "D \<le> 257" using assms(3) by (simp add: tree_ok_def)
  have leafs: "batch_leafs F js = map (base F) (column_leaves F cols)" by (simp add: r(4) [symmetric] batch_leafs_def)
  have "batch_public_inputs F D js
      = Ok ([base F (root_hash ?h t), base F (root_hash ?h t')] @ map (base F) (column_leaves F cols))"
    by (simp add: batch_public_inputs_def r(5,7) leafs)
  from accepts_met_by [OF accepts_batch [OF assms(1) D r(5,6) this]] r(1-3) show ?thesis by blast
qed

text \<open>One transaction whose first output is the element one, with others that are missing.\<close>

definition txn5 :: SnarkWitnessV1 where
  "txn5 = \<lparr>sw_instances = [[ZERO, 2, ONE, ZERO, ZERO, ONE, ZERO]], sw_proof = []\<rparr>"

definition empty5 :: "(SmirkMetadata, SimpleHashCache) Tree" where
  "empty5 = new_with_cache 2 simple_new"

definition proofs5 :: "gf5 proof_system" where
  "proofs5 = \<lparr>create_proof = \<lambda>_ _. Ok [], accumulator_native = \<lambda>_. (replicate 12 0, []), evm_gen_proof = \<lambda>_ _. Ok []\<rparr>"

lemma elem5: "elem F5 0 = ZERO" "elem F5 1 = ONE" "elem F5 2 = 2"
  using F5_consts(4-6) by (simp_all add: represented_def)

lemma empty5_ok: "tree_ok (hash_pair F5) 2 empty5" "simple_sound (hash_pair F5) (cache empty5)" "tree_keys empty5 = {}"
  unfolding empty5_def by (simp_all add: new_with_cache_ok) 
    (simp_all add: new_with_cache_def simple_new_sound tree_keys_def bt_keys_def)

lemma slots5:
  assumes "set (nonzero es) \<subseteq> {ONE}" "length (nonzero es) \<le> 1"
  shows "batch_slots_free 2 (tree_keys empty5) es"
proof -
  have "lsb_bits ZERO 1 \<noteq> lsb_bits ONE 1" by (simp add: lsb_bits_eq ZERO_def ONE_def)
  with assms show ?thesis
    by (cases "nonzero es") (auto simp: batch_slots_free_def empty5_ok)
qed

theorem gen_batch_proves_witness:
  "\<exists>t' is. gen_batch F5 2 [txn5, txn5\<lparr>sw_instances := [replicate 7 ZERO]\<rparr>, txn5\<lparr>sw_instances := [replicate 7 ZERO]\<rparr>] 3 empty5
       = (t', [], Ok (UTXO_AGG_LEAVES, root_hash (hash_pair F5) empty5, root_hash (hash_pair F5) t', is))
    \<and> tree_keys t' = {ONE}"
proof -
  let ?z = "replicate 7 ZERO"
  let ?cols = "[[ZERO, 2, ONE, ZERO, ZERO, ONE, ZERO], ?z, ?z]"
  have ls: "column_leaves F5 ?cols = [ZERO, ZERO, ONE, ZERO, ZERO, ZERO, ZERO, ZERO, ZERO, ZERO, ZERO, ZERO]"
    by (simp add: column_leaves_def elem5 numeral_eq_Suc)
  have free: "batch_slots_free 2 (tree_keys empty5) (column_leaves F5 ?cols)"
    unfolding ls by (rule slots5) (simp_all add: ONE_neq_ZERO)
  have "with_columns [txn5, txn5\<lparr>sw_instances := [?z]\<rparr>, txn5\<lparr>sw_instances := [?z]\<rparr>] ?cols"
    by (simp add: with_columns_def txn5_def)
  from gen_batch_proves [OF F5_ok _ empty5_ok(1,2) this _ free, of 3] show ?thesis
    by (simp add: UTXO_AGG_NUMBER_def ls empty5_ok(3) ONE_neq_ZERO) blast
qed

text \<open>
  C15: the proof of a block. For a block's six transactions, some of them missing, whose leaves have free and pairwise different
  slots, the prover returns a proof whose old root is the root of the given tree, whose new root is the root of the tree
  with the leaves that are not zero added, and whose hashes are the root, hash and value of each transaction in order.
\<close>

theorem prove_block_correct:
  assumes "fr_ok F" "proof_system_ok E" "2 \<le> D" "tree_ok (hash_pair F) D t" "simple_sound (hash_pair F) (cache t)"
    and "length ts = MAXIMUM_TXNS" "\<forall>w. Some w \<in> set ts \<longrightarrow> sw_instances w \<noteq> [] \<and> length (hd (sw_instances w)) = 7"
    and "batch_slots_free D (tree_keys t) (column_leaves F (map txn_column ts))"
  shows "\<exists>p. \<exists>t' :: (SmirkMetadata, SimpleHashCache) Tree. prove_block E F D t b ts = Ok p
    \<and> rp_old_root p = root_hash (hash_pair F) t \<and> tree_ok (hash_pair F) D t'
    \<and> tree_keys t' = tree_keys t \<union> set (nonzero (column_leaves F (map txn_column ts)))
    \<and> rp_new_root p = root_hash (hash_pair F) t' \<and> rp_utxo_hashes p = column_heads F (map txn_column ts)"
  by (rule prove_block_spec [OF assms])

theorem prove_block_correct_witness:
  "\<exists>p. \<exists>t' :: (SmirkMetadata, SimpleHashCache) Tree. prove_block proofs5 F5 2 empty5 3 [Some txn5, None, None, None, None, None] = Ok p
    \<and> tree_keys t' = {ONE} \<and> rp_new_root p = root_hash (hash_pair F5) t'
    \<and> rp_utxo_hashes p = [ZERO, 2, ONE] @ replicate 15 ZERO"
proof -
  let ?ts = "[Some txn5, None, None, None, None, None]"
  let ?cols = "map txn_column ?ts"
  have cols: "?cols = [[ZERO, 2, ONE, ZERO, ZERO, ONE, ZERO]] @ replicate 5 (replicate 7 ZERO)"
    by (simp add: txn_column_def txn5_def numeral_eq_Suc)
  have ls: "nonzero (column_leaves F5 ?cols) = [ONE]" "column_heads F5 ?cols = [ZERO, 2, ONE] @ replicate 15 ZERO"
    unfolding cols by (simp_all add: column_leaves_def column_heads_def elem5 ONE_neq_ZERO numeral_eq_Suc)
  have "proof_system_ok proofs5" by (simp add: proof_system_ok_def proofs5_def)
  moreover have "batch_slots_free 2 (tree_keys empty5) (column_leaves F5 ?cols)"
    by (rule slots5) (simp_all only: ls, simp_all)
  ultimately show ?thesis
    using prove_block_correct [OF F5_ok, of proofs5 2 empty5 ?ts 3] empty5_ok ls
    by (simp add: txn5_def MAXIMUM_TXNS_def UTXO_AGG_NUMBER_def UTXO_AGGREGATIONS_def) blast
qed

end
