(* ===== verification/Prover_Db.thy ===== *)
theory Prover_Db
  imports Rollup_Prover Block_Store_Correct
begin

text \<open>
  The database of the prover (\<^verbatim>\<open>pkg/node/src/prover/db.rs\<close>): the last block that the prover has seen, the proofs that wait for
  their roll-up, ordered by height, and the version. The encoding of the values is a parameter.
\<close>

section \<open>Keys and values\<close>

datatype PKey = PLastSeenBlock | PRollup BlockHeight | PProverVersion

fun pkey_kind :: "PKey \<Rightarrow> u8" where
  "pkey_kind PLastSeenBlock = 0"
| "pkey_kind (PRollup _) = 1"
| "pkey_kind PProverVersion = 2"

fun pkey_serialize :: "PKey \<Rightarrow> bytes" where
  "pkey_serialize PLastSeenBlock = [pkey_kind PLastSeenBlock]"
| "pkey_serialize (PRollup h) = pkey_kind (PRollup h) # height_bytes h"
| "pkey_serialize PProverVersion = [pkey_kind PProverVersion]"

datatype ProverDbError = PInvalidKey | PInvalidValue | PRocksDB | PWireMessage ErrorKind | PIo

text \<open>A key of a proof that is too short panics.\<close>

definition pkey_deserialize :: "bytes \<Rightarrow> (ProverDbError, PKey) outcome" where
  "pkey_deserialize bs =
     (case bs of
        [] \<Rightarrow> Err PInvalidKey
      | k # rest \<Rightarrow>
          if k = 0 then Ok PLastSeenBlock
          else if k = 1 then
            (if length rest < 8 then Panic else Ok (PRollup (word_of_nat (be_val (take 8 rest)))))
          else if k = 2 then Ok PProverVersion
          else Err PInvalidKey)"

record LastSeenBlock =
  ls_height :: BlockHeight
  ls_root_hash :: element

record RollupInput =
  ri_proof :: RollupProof
  ri_height :: u64
  ri_other_hash :: CryptoHash
  ri_signatures :: "Signature list"

definition ri_old_root :: "RollupInput \<Rightarrow> element" where
  "ri_old_root i = rp_old_root (ri_proof i)"

datatype ValueV1 = VLastSeenBlock LastSeenBlock | VRollup RollupInput | VProverVersion u64

record pvalue_codec =
  pv_to_bytes :: "ValueV1 \<Rightarrow> (ErrorKind, bytes) outcome"
  pv_from_bytes :: "bytes \<Rightarrow> (ErrorKind, ValueV1) outcome"

section \<open>Operations\<close>

definition LATEST_PROVER_VERSION :: u64 where "LATEST_PROVER_VERSION = 1"

definition pdb_get :: "'db rocksdb \<Rightarrow> 'db \<Rightarrow> PKey \<Rightarrow> (ProverDbError, bytes option) outcome" where
  "pdb_get R db key = omap_err (\<lambda>_. PRocksDB) (db_get R db (pkey_serialize key))"

definition pdb_set :: "'db rocksdb \<Rightarrow> pvalue_codec \<Rightarrow> 'db \<Rightarrow> PKey \<Rightarrow> ValueV1 \<Rightarrow> (ProverDbError, 'db) outcome" where
  "pdb_set R C db key pv =
     obind (omap_err PWireMessage (pv_to_bytes C pv)) (\<lambda>bytes.
     omap_err (\<lambda>_. PRocksDB) (db_put R db (pkey_serialize key) bytes))"

definition get_last_seen_block :: "'db rocksdb \<Rightarrow> pvalue_codec \<Rightarrow> 'db \<Rightarrow> (ProverDbError, LastSeenBlock option) outcome" where
  "get_last_seen_block R C db =
     obind (pdb_get R db PLastSeenBlock) (\<lambda>r.
     case r of
       None \<Rightarrow> Ok None
     | Some bytes \<Rightarrow>
         obind (omap_err PWireMessage (pv_from_bytes C bytes)) (\<lambda>pv.
         case pv of VLastSeenBlock l \<Rightarrow> Ok (Some l) | _ \<Rightarrow> Err PInvalidValue))"

definition set_last_seen_block :: "'db rocksdb \<Rightarrow> pvalue_codec \<Rightarrow> 'db \<Rightarrow> LastSeenBlock \<Rightarrow> (ProverDbError, 'db) outcome" where
  "set_last_seen_block R C db l = pdb_set R C db PLastSeenBlock (VLastSeenBlock l)"

definition set_rollup :: "'db rocksdb \<Rightarrow> pvalue_codec \<Rightarrow> 'db \<Rightarrow> BlockHeight \<Rightarrow> RollupInput \<Rightarrow> (ProverDbError, 'db) outcome" where
  "set_rollup R C db h i = pdb_set R C db (PRollup h) (VRollup i)"

definition rollup_item :: "pvalue_codec \<Rightarrow> (unit, bytes \<times> bytes) outcome \<Rightarrow> (ProverDbError, BlockHeight \<times> RollupInput) outcome" where
  "rollup_item C r =
     obind (omap_err (\<lambda>_. PRocksDB) r) (\<lambda>(key, pv).
     obind (omap_err (\<lambda>_. PInvalidKey) (pkey_deserialize key)) (\<lambda>k.
     case k of
       PRollup h \<Rightarrow>
         obind (omap_err PWireMessage (pv_from_bytes C pv)) (\<lambda>v.
         case v of VRollup i \<Rightarrow> Ok (h, i) | _ \<Rightarrow> Err PInvalidValue)
     | _ \<Rightarrow> Err PInvalidKey))"

definition list_rollups ::
    "'db rocksdb \<Rightarrow> pvalue_codec \<Rightarrow> 'db \<Rightarrow> BlockHeight \<Rightarrow> BlockHeight \<Rightarrow> (ProverDbError, BlockHeight \<times> RollupInput) outcome list" where
  "list_rollups R C db from to =
     map (rollup_item C) (db_iterator R db (pkey_serialize (PRollup from)) (pkey_serialize (PRollup to)) True)"

definition get_prover_version :: "'db rocksdb \<Rightarrow> pvalue_codec \<Rightarrow> 'db \<Rightarrow> (ProverDbError, u64 option) outcome" where
  "get_prover_version R C db =
     obind (pdb_get R db PProverVersion) (\<lambda>r.
     case r of
       None \<Rightarrow> Ok None
     | Some bytes \<Rightarrow>
         obind (omap_err PWireMessage (pv_from_bytes C bytes)) (\<lambda>pv.
         case pv of VProverVersion n \<Rightarrow> Ok (Some n) | _ \<Rightarrow> Err PInvalidValue))"

definition set_prover_version :: "'db rocksdb \<Rightarrow> pvalue_codec \<Rightarrow> 'db \<Rightarrow> u64 \<Rightarrow> (ProverDbError, 'db) outcome" where
  "set_prover_version R C db n = pdb_set R C db PProverVersion (VProverVersion n)"

text \<open>\<open>non_empty\<close> says whether the directory exists with an entry, \<open>open_db\<close> is the result of opening it.\<close>

definition pdb_create_or_load ::
    "'db rocksdb \<Rightarrow> pvalue_codec \<Rightarrow> (unit, bool) outcome \<Rightarrow> (unit, 'db) outcome \<Rightarrow> (ProverDbError, 'db) outcome" where
  "pdb_create_or_load R C non_empty open_db =
     obind (omap_err (\<lambda>_. PIo) non_empty) (\<lambda>exists.
     obind (omap_err (\<lambda>_. PRocksDB) open_db) (\<lambda>db.
     if \<not> exists then set_prover_version R C db LATEST_PROVER_VERSION else Ok db))"

section \<open>Keys\<close>

lemma pkey_round_trip [simp]: "pkey_deserialize (pkey_serialize K) = Ok K"
  by (cases K) (simp_all add: pkey_deserialize_def)

lemma pkey_inj [simp]: "pkey_serialize K = pkey_serialize K' \<longleftrightarrow> K = K'"
  by (metis outcome.inject(1) pkey_round_trip)

section \<open>What the database holds\<close>

fun kind_of_value :: "ValueV1 \<Rightarrow> u8" where
  "kind_of_value (VLastSeenBlock _) = 0"
| "kind_of_value (VRollup _) = 1"
| "kind_of_value (VProverVersion _) = 2"

definition pcodec_ok :: "pvalue_codec \<Rightarrow> bool" where
  "pcodec_ok C \<longleftrightarrow> (\<forall>v. \<exists>bs. pv_to_bytes C v = Ok bs \<and> pv_from_bytes C bs = Ok v)"

text \<open>Every entry is a key with a value of its kind.\<close>

definition pdb_ok :: "pvalue_codec \<Rightarrow> (bytes, bytes) btree \<Rightarrow> bool" where
  "pdb_ok C m \<longleftrightarrow> (\<forall>(k, v) \<in> set m. \<exists>K pv. k = pkey_serialize K \<and> pv_from_bytes C v = Ok pv \<and> kind_of_value pv = pkey_kind K)"

definition pdb_value :: "pvalue_codec \<Rightarrow> (bytes, bytes) btree \<Rightarrow> PKey \<Rightarrow> ValueV1 option" where
  "pdb_value C m K =
     (case map_of m (pkey_serialize K) of
        None \<Rightarrow> None
      | Some bs \<Rightarrow> (case pv_from_bytes C bs of Ok v \<Rightarrow> Some v | _ \<Rightarrow> None))"

context kv_store
begin

lemma pdb_set_spec:
  assumes d: "invar d" "pdb_ok C (contents d)" and C: "pcodec_ok C" and kind: "kind_of_value pv = pkey_kind K"
  shows "\<exists>d'. pdb_set R C d K pv = Ok d' \<and> invar d' \<and> pdb_ok C (contents d')
    \<and> pdb_value C (contents d') = (pdb_value C (contents d))(K \<mapsto> pv)"
proof -
  from C obtain bs where bs: "pv_to_bytes C pv = Ok bs" "pv_from_bytes C bs = Ok pv" by (auto simp: pcodec_ok_def)
  from put_contents [OF d(1), of "pkey_serialize K" bs] obtain d' where
    d': "db_put R d (pkey_serialize K) bs = Ok d'" "invar d'" "contents d' = bt_insert (pkey_serialize K) bs (contents d)" by blast
  have "pdb_ok C (contents d')"
    unfolding pdb_ok_def d'(3)
  proof
    fix kv assume "kv \<in> set (bt_insert (pkey_serialize K) bs (contents d))"
    then consider "kv = (pkey_serialize K, bs)" | "kv \<in> set (contents d)" using set_bt_insert by fastforce
    then show "case kv of (k, v) \<Rightarrow> \<exists>K pv. k = pkey_serialize K \<and> pv_from_bytes C v = Ok pv \<and> kind_of_value pv = pkey_kind K"
      using bs(2) kind d(2) by cases (auto simp: pdb_ok_def)
  qed
  moreover have "pdb_value C (contents d') K' = ((pdb_value C (contents d))(K \<mapsto> pv)) K'" for K'
    using bt_insert_lookup [OF contents_sorted [OF d(1)]] bs(2) by (simp add: pdb_value_def d'(3) fun_upd_apply)
  ultimately show ?thesis using bs(1) d' by (auto simp: pdb_set_def)
qed

lemma pdb_value_kind:
  assumes "pdb_ok C (contents d)" "map_of (contents d) (pkey_serialize K) = Some bs"
  shows "\<exists>pv. pv_from_bytes C bs = Ok pv \<and> pdb_value C (contents d) K = Some pv \<and> kind_of_value pv = pkey_kind K"
proof -
  from map_of_SomeD [OF assms(2)] assms(1) obtain pv where "pv_from_bytes C bs = Ok pv" "kind_of_value pv = pkey_kind K"
    by (auto simp: pdb_ok_def)
  with assms(2) show ?thesis by (simp add: pdb_value_def)
qed

lemma get_last_seen_spec:
  assumes d: "invar d" "pdb_ok C (contents d)"
  shows "get_last_seen_block R C d = Ok (case pdb_value C (contents d) PLastSeenBlock of Some (VLastSeenBlock l) \<Rightarrow> Some l | _ \<Rightarrow> None)"
proof (cases "map_of (contents d) (pkey_serialize PLastSeenBlock)")
  case None
  then show ?thesis by (simp add: get_last_seen_block_def pdb_get_def get_contents [OF d(1)] pdb_value_def)
next
  case (Some bs)
  from pdb_value_kind [OF d(2) Some] obtain pv where
    v: "pv_from_bytes C bs = Ok pv" "pdb_value C (contents d) PLastSeenBlock = Some pv" "kind_of_value pv = 0" by auto
  then show ?thesis using Some
    by (cases pv) (simp_all add: get_last_seen_block_def pdb_get_def get_contents [OF d(1)])
qed

lemma rollup_bounds:
  assumes "lo = pkey_serialize (PRollup a)" "hi = pkey_serialize (PRollup b)"
  shows "lo \<le> pkey_serialize K \<and> pkey_serialize K < hi \<longleftrightarrow> (\<exists>h. K = PRollup h \<and> a \<le> h \<and> h < b)"
  by (cases K) (auto simp: assms)

text \<open>The proofs of a range of heights, in increasing order.\<close>

lemma list_rollups_spec:
  assumes d: "invar d" "pdb_ok C (contents d)"
  shows "\<exists>xs. list_rollups R C d a b = map Ok xs \<and> sorted_wrt (<) (map fst xs)
    \<and> (\<forall>h i. (h, i) \<in> set xs \<longleftrightarrow> pdb_value C (contents d) (PRollup h) = Some (VRollup i) \<and> a \<le> h \<and> h < b)"
proof -
  let ?lo = "pkey_serialize (PRollup a)" and ?hi = "pkey_serialize (PRollup b)"
  let ?rel = "\<lambda>(k, v) (h, i). k = pkey_serialize (PRollup h) \<and> pv_from_bytes C v = Ok (VRollup i)"
  define L where "L = filter (\<lambda>(k, v). ?lo \<le> k \<and> k < ?hi) (contents d)"
  have "\<exists>y. ?rel x y" if x: "x \<in> set L" for x
  proof -
    obtain k v where kv: "x = (k, v)" by fastforce
    with x d(2) obtain K pv where K: "k = pkey_serialize K" "pv_from_bytes C v = Ok pv" "kind_of_value pv = pkey_kind K"
      by (auto simp: L_def pdb_ok_def)
    moreover from x kv K(1) obtain h where "K = PRollup h" using rollup_bounds [OF refl refl, of a K b] by (auto simp: L_def)
    ultimately show ?thesis using kv by (cases pv) auto
  qed
  then obtain xs where xs: "list_all2 ?rel L xs"
    by (metis (no_types, lifting) list_all2_all_nthI list_all2_map2 list.rel_refl_strong length_map nth_map nth_mem)
  have "map (rollup_item C) (map Ok L) = map Ok xs"
    using xs by (induction rule: list_all2_induct) (auto simp: rollup_item_def simp del: pkey_serialize.simps)
  then have run: "list_rollups R C d a b = map Ok xs"
    by (simp add: list_rollups_def iterator_contents [OF d(1)] L_def del: pkey_serialize.simps)
  have bt: "sorted_wrt (<) (map fst (contents d))" using contents_sorted [OF d(1)] by (simp add: bt_ok_def bt_keys_def)
  have keys: "map fst L = map (\<lambda>x. pkey_serialize (PRollup (fst x))) xs"
    using xs by (induction rule: list_all2_induct) auto
  have "sorted_wrt (<) (map fst L)" using bt unfolding L_def by (rule sorted_wrt_map_filter)
  then have sorted: "sorted_wrt (<) (map fst xs)" unfolding keys by (simp add: sorted_wrt_map)
  have "(h, i) \<in> set xs \<longleftrightarrow> (\<exists>v. (pkey_serialize (PRollup h), v) \<in> set L \<and> pv_from_bytes C v = Ok (VRollup i))" for h i
  proof
    assume "(h, i) \<in> set xs"
    then obtain n where "n < length xs" "xs ! n = (h, i)" by (auto simp: in_set_conv_nth)
    with xs have "?rel (L ! n) (h, i)" "n < length L" by (auto simp: list_all2_conv_all_nth)
    then show "\<exists>v. (pkey_serialize (PRollup h), v) \<in> set L \<and> pv_from_bytes C v = Ok (VRollup i)"
      using nth_mem [of n L] by (cases "L ! n") (auto simp del: pkey_serialize.simps)
  next
    assume "\<exists>v. (pkey_serialize (PRollup h), v) \<in> set L \<and> pv_from_bytes C v = Ok (VRollup i)"
    then obtain v n where n: "n < length L" "L ! n = (pkey_serialize (PRollup h), v)" "pv_from_bytes C v = Ok (VRollup i)"
      by (metis in_set_conv_nth)
    with xs have "?rel (L ! n) (xs ! n)" "n < length xs" by (auto simp: list_all2_conv_all_nth)
    with n show "(h, i) \<in> set xs" by (cases "xs ! n") (auto simp del: pkey_serialize.simps dest!: nth_mem)
  qed
  moreover have "(pkey_serialize (PRollup h), v) \<in> set L \<longleftrightarrow> map_of (contents d) (pkey_serialize (PRollup h)) = Some v \<and> a \<le> h \<and> h < b"
    for h v
    using rollup_bounds [OF refl refl, of a "PRollup h" b] contents_sorted [OF d(1)]
    by (auto simp: L_def btree_simps simp del: pkey_serialize.simps intro: map_of_is_SomeI dest: map_of_SomeD)
  ultimately show ?thesis using run sorted
    by (intro exI [of _ xs]) (auto simp: pdb_value_def simp del: pkey_serialize.simps split: option.splits outcome.splits)
qed

end

end
