(* ===== verification/Prover_Worker.thy ===== *)
theory Prover_Worker
  imports Prover_Db Node_Ops
begin

text \<open>
  The workers of a prover node (\<^verbatim>\<open>pkg/node/src/prover/worker.rs\<close>): one follows the commits of the node, proves
  their blocks and stores the proofs; the other sends the stored proofs to the contract. Answers of
  the contract and of the shared database of several provers are arguments; waiting and logging are left out.
\<close>

section \<open>State and errors\<close>

text \<open>The variants of the errors that the modelled operations construct.\<close>

datatype WorkerError =
    FailedToPeekNextCommit
  | ProverTreeRootDoesNotMatchBlockStateRoot element element
  | RootMismatch element element
  | InvalidProverVersion u64
  | FailedToGetNonce
  | RollupTransactionTimeout
  | WDb ProverDbError
  | WNode NodeError
  | WContract
  | WProver ProverError
  | WSmirkStorage StorageError
  | WSmirkCollision CollisionError
  | WPostgres

record ('db, 'sdb, 'pdb, 'f) worker_env =
  wnode :: "('db, 'sdb) node_env"
  wproofs :: "'f proof_system"
  wfield :: "'f Fr"
  wrocks :: "'pdb rocksdb"
  wcodec :: pvalue_codec

text \<open>The tree is removed when it has to be built anew.\<close>

record ('pdb, 'sdb) worker =
  wdb :: 'pdb
  wtree :: "'sdb note_tree option"

datatype worker_output = InsertProof BlockHeight element RollupInput | MigrateProof BlockHeight RollupInput | Unlock BlockHeight | NotifyProof

type_synonym ('pdb, 'sdb, 'a) worker_op = "(('pdb, 'sdb) worker, worker_output, WorkerError, 'a) op"

definition on_db :: "('pdb \<Rightarrow> (ProverDbError, 'pdb) outcome) \<Rightarrow> ('pdb, 'sdb, unit) worker_op" where
  "on_db f = (\<lambda>st.
     case f (wdb st) of
       Ok db \<Rightarrow> (st\<lparr>wdb := db\<rparr>, [], Ok ())
     | Err e \<Rightarrow> (st, [], Err (WDb e))
     | Panic \<Rightarrow> (st, [], Panic))"

abbreviation see_block :: "('db, 'sdb, 'pdb, 'f) worker_env \<Rightarrow> BlockHeight \<Rightarrow> element \<Rightarrow> ('pdb, 'sdb, unit) worker_op" where
  "see_block W h root \<equiv>
     on_db (\<lambda>db. set_last_seen_block (wrocks W) (wcodec W) db \<lparr>ls_height = h, ls_root_hash = root\<rparr>)"

definition worker_tree :: "('pdb, 'sdb, 'sdb note_tree) worker_op" where
  "worker_tree = (\<lambda>st. (st, [], case wtree st of Some p \<Rightarrow> Ok p | None \<Rightarrow> Panic))"

definition worker_apply :: "('db, 'sdb, 'pdb, 'f) worker_env \<Rightarrow> Block \<Rightarrow> bool \<Rightarrow> ('pdb, 'sdb, unit) worker_op" where
  "worker_apply W b is_bad =
     nbind worker_tree (\<lambda>p. (\<lambda>st.
       case apply_block_to_tree (wnode W) (state (bcontent b)) (bheight b) is_bad p of
         (p', r) \<Rightarrow> (st\<lparr>wtree := Some p'\<rparr>, [], omap_err WNode r)))"

section \<open>The start\<close>

text \<open>
  The version of the database; a database without version gets the version one, after its proofs from the height of the
  contract on have been copied to the shared database, if there is one; \<open>pg\<close> is the result of a statement there.
\<close>

fun migrate_proofs ::
    "(unit, unit) outcome option \<Rightarrow> (ProverDbError, BlockHeight \<times> RollupInput) outcome list \<Rightarrow> ('pdb, 'sdb, unit) worker_op" where
  "migrate_proofs pg [] = nret ()"
| "migrate_proofs pg (r # rs) =
     nbind (nlift (omap_err WDb r)) (\<lambda>(h, i).
     nbind (case pg of None \<Rightarrow> nret () | Some q \<Rightarrow> nbind (nlift (omap_err (\<lambda>_. WPostgres) q)) (\<lambda>_. nout [MigrateProof h i])) (\<lambda>_.
     migrate_proofs pg rs))"

definition prover_migrate ::
    "('db, 'sdb, 'pdb, 'f) worker_env \<Rightarrow> (unit, unit) outcome option \<Rightarrow> (unit, u64) outcome \<Rightarrow> ('pdb, 'sdb, unit) worker_op" where
  "prover_migrate W pg contract_height =
     nbind (\<lambda>st. (st, [], omap_err WDb (get_prover_version (wrocks W) (wcodec W) (wdb st)))) (\<lambda>version.
     case version of
       None \<Rightarrow>
         nbind (nlift (omap_err (\<lambda>_. WContract) contract_height)) (\<lambda>h.
         nbind (nget (\<lambda>st. list_rollups (wrocks W) (wcodec W) (wdb st) h (- 1))) (\<lambda>proofs.
         nbind (migrate_proofs pg proofs) (\<lambda>_.
         on_db (\<lambda>db. set_prover_version (wrocks W) (wcodec W) db 1))))
     | Some n \<Rightarrow> if n = 1 then nret () else nlift (Err (InvalidProverVersion n)))"

text \<open>Elements of rolled-up blocks that the prover does not have are taken from the tree of the node.\<close>

definition missing_elements ::
    "BlockHeight \<Rightarrow> (SmirkMetadata, 'c) Tree \<Rightarrow> (SmirkMetadata, 'd) Tree \<Rightarrow> (element \<times> SmirkMetadata) list" where
  "missing_elements contract_height node_tree prover_tree =
     filter (\<lambda>(e, m). inserted_in m \<le> contract_height \<and> \<not> contains_element prover_tree e) (tree_entries node_tree)"

fun highest_height :: "(element \<times> SmirkMetadata) list \<Rightarrow> BlockHeight option \<Rightarrow> BlockHeight option" where
  "highest_height [] acc = acc"
| "highest_height ((_, m) # es) acc =
     highest_height es (case acc of Some h \<Rightarrow> if inserted_in m > h then Some (inserted_in m) else acc | None \<Rightarrow> Some (inserted_in m))"

definition sync_rolled_up ::
    "('db, 'sdb, 'pdb, 'f) worker_env \<Rightarrow> BlockHeight \<Rightarrow> 'sdb note_tree \<Rightarrow> ('pdb, 'sdb, unit) worker_op" where
  "sync_rolled_up W contract_height node_notes =
     nbind worker_tree (\<lambda>p.
     let missing = missing_elements contract_height (ptree node_notes) (ptree p) in
     nbind (nlift (omap_err WSmirkCollision (from_entries MERKLE_TREE_DEPTH missing))) (\<lambda>batch.
     nbind (\<lambda>st. case persistent_insert_batch (hash_merge2 (wnode W)) (tree_codec (wnode W)) MERKLE_TREE_DEPTH (tree_db (wnode W)) p batch of
              (p', r) \<Rightarrow> (st\<lparr>wtree := Some p'\<rparr>, [], omap_err WSmirkStorage r)) (\<lambda>_.
     nbind worker_tree (\<lambda>p'.
     case highest_height missing None of
       None \<Rightarrow> nret ()
     | Some h \<Rightarrow> see_block W h (notes_root (wnode W) p')))))"

text \<open>
  The height of the first commit to follow. A root that differs from the one of the last block means that the process stopped
  between the writes of a block: the tree is deleted and the process ends.
\<close>

definition start_height :: "('db, 'sdb, 'pdb, 'f) worker_env \<Rightarrow> ('pdb, 'sdb, BlockHeight) worker_op" where
  "start_height W =
     nbind (nlift (unwrap (empty_tree_hash (hash_merge2 (wnode W)) MERKLE_TREE_DEPTH))) (\<lambda>empty.
     nbind (\<lambda>st. (st, [], omap_err WDb (get_last_seen_block (wrocks W) (wcodec W) (wdb st)))) (\<lambda>last_seen.
     let seen = (case last_seen of Some l \<Rightarrow> l | None \<Rightarrow> \<lparr>ls_height = 0, ls_root_hash = empty\<rparr>) in
     nbind worker_tree (\<lambda>p.
     if ls_root_hash seen \<noteq> notes_root (wnode W) p then
       nbind (see_block W 0 empty) (\<lambda>_.
       nbind (nmod (\<lambda>st. st\<lparr>wtree := None\<rparr>)) (\<lambda>_.
       nlift Panic))
     else nret (ls_height seen + 1))))"

section \<open>Commits\<close>

text \<open>
  Whether this prover proves a block: without a shared database always, otherwise when the query of the database
  returns that the lock has been taken (it returns nothing when there is a proof).
\<close>

fun takes_block :: "(unit, bool option) outcome option \<Rightarrow> (WorkerError, bool) outcome" where
  "takes_block None = Ok True"
| "takes_block (Some q) = omap_err (\<lambda>_. WPostgres) (omap (\<lambda>r. r = Some True) q)"

definition pad_txns :: "UTXOProof list \<Rightarrow> SnarkWitnessV1 option list" where
  "pad_txns us =
     (let ts = map (\<lambda>u. case to_snark_witness u of SnarkV1 w \<Rightarrow> Some w) us
      in ts @ replicate (MAXIMUM_TXNS - length ts) None)"

text \<open>The first three instances of each transaction, for a prover that creates no proof.\<close>

definition mock_hashes :: "'f::field Fr \<Rightarrow> SnarkWitnessV1 option \<Rightarrow> (WorkerError, element list) outcome" where
  "mock_hashes F t =
     obind (case t of
              Some w \<Rightarrow> index_at (sw_instances w) 0
            | None \<Rightarrow> omap (\<lambda>u. map (elem F) (public_inputs F u)) (unwrap (new_padding F MERKLE_TREE_DEPTH))) (\<lambda>col.
     obind (index_at col 0) (\<lambda>root.
     obind (index_at col 1) (\<lambda>mbh.
     obind (index_at col 2) (\<lambda>mbv.
     Ok [root, mbh, mbv]))))"

definition worker_prove ::
    "('db, 'sdb, 'pdb, 'f::field) worker_env \<Rightarrow> Block \<Rightarrow> 'sdb note_tree \<Rightarrow> (WorkerError, RollupProof) outcome" where
  "worker_prove W b p =
     (let ts = pad_txns (btxns b) in
      if mode (config (wnode W)) = MockProver then
        omap (\<lambda>hs. \<lparr>rp_proof = [], rp_agg_instances = replicate 12 ZERO, rp_old_root = notes_root (wnode W) p,
                   rp_new_root = broot b, rp_utxo_hashes = concat hs\<rparr>)
          (collect_results (map (mock_hashes (wfield W)) ts))
      else if length ts \<noteq> MAXIMUM_TXNS then Panic
      else omap_err WProver (prove_block (wproofs W) (wfield W) MERKLE_TREE_DEPTH (ptree p) (bheight b) ts))"

text \<open>Proving a block and storing the proof; \<open>upcoming\<close> is the next item of the stream, which holds the
  approvals. The statement that adds the proof to the shared database is taken to succeed.\<close>

definition prove_commit ::
    "('db, 'sdb, 'pdb, 'f::field) worker_env \<Rightarrow> bool \<Rightarrow> (NodeError, Block) outcome option \<Rightarrow> Block \<Rightarrow> ('pdb, 'sdb, unit) worker_op" where
  "prove_commit W has_postgres upcoming b =
     nbind (nlift (case upcoming of None \<Rightarrow> Panic | Some (Ok n) \<Rightarrow> Ok n | Some (Err _) \<Rightarrow> Err FailedToPeekNextCommit | Some Panic \<Rightarrow> Panic))
       (\<lambda>next_commit.
     nbind worker_tree (\<lambda>p.
     nbind (nlift (worker_prove W b p)) (\<lambda>pr.
     if rp_new_root pr \<noteq> broot b then nlift (Err (RootMismatch (rp_new_root pr) (broot b)))
     else
       let rollup_input = \<lparr>ri_proof = pr, ri_height = bheight b, ri_other_hash = header_hash (henv (wnode W)) (bcontent b),
                           ri_signatures = approvals (header (bcontent next_commit))\<rparr> in
       nbind (on_db (\<lambda>db. set_rollup (wrocks W) (wcodec W) db (bheight b) rollup_input)) (\<lambda>_.
       nbind (worker_apply W b False) (\<lambda>_.
       nbind (see_block W (bheight b) (broot b)) (\<lambda>_.
       nbind (nout (if has_postgres then [InsertProof (bheight b) (ri_old_root rollup_input) rollup_input] else [])) (\<lambda>_.
       nbind worker_tree (\<lambda>p'.
       if broot b \<noteq> notes_root (wnode W) p' then
         nlift (Err (ProverTreeRootDoesNotMatchBlockStateRoot (notes_root (wnode W) p') (broot b)))
       else nout [NotifyProof]))))))))"

text \<open>A commit; a taken lock is released at the end, whatever the result.\<close>

definition process_commit ::
    "('db, 'sdb, 'pdb, 'f::field) worker_env \<Rightarrow> BlockHeight \<Rightarrow> (unit, bool option) outcome option \<Rightarrow> (NodeError, Block) outcome option
      \<Rightarrow> Block \<Rightarrow> ('pdb, 'sdb, unit) worker_op" where
  "process_commit W contract_height pg upcoming b =
     (if btxns b = [] then see_block W (bheight b) (broot b)
      else
        let is_bad = bheight b \<in> set (bad_blocks (config (wnode W)));
            skip = nbind (worker_apply W b is_bad) (\<lambda>_. see_block W (bheight b) (broot b))
        in if contract_height \<ge> bheight b \<or> is_bad then skip
           else nbind (nlift (takes_block pg)) (\<lambda>ours.
             if \<not> ours then skip
             else (\<lambda>st. case prove_commit W (pg \<noteq> None) upcoming b st of
                (st', os, r) \<Rightarrow> (st', os @ (if pg = None then [] else [Unlock (bheight b)]), r))))"

text \<open>The commits of the stream in order; the stream does not end.\<close>

fun follow_commits ::
    "('db, 'sdb, 'pdb, 'f::field) worker_env \<Rightarrow> BlockHeight \<Rightarrow> (BlockHeight \<Rightarrow> (unit, bool option) outcome option)
      \<Rightarrow> (NodeError, Block) outcome list \<Rightarrow> ('pdb, 'sdb, unit) worker_op" where
  "follow_commits W contract_height pg [] = nlift Panic"
| "follow_commits W contract_height pg (r # rs) =
     nbind (nlift (omap_err WNode r)) (\<lambda>b.
     nbind (process_commit W contract_height (pg (bheight b)) (case rs of [] \<Rightarrow> None | x # _ \<Rightarrow> Some x) b) (\<lambda>_.
     follow_commits W contract_height pg rs))"

section \<open>Roll-ups\<close>

text \<open>What the contract, the shared database and the Ethereum node answer in a round.\<close>

record rollup_view =
  rv_height :: "(unit, u64) outcome"
  rv_root :: "(unit, element) outcome"
  rv_missed :: "(unit, RollupInput option) outcome option"
  rv_pending_nonce :: "(unit, nat) outcome"
  rv_latest_nonce :: "(unit, nat) outcome"
  rv_send :: "RollupInput \<Rightarrow> (WorkerError, unit) outcome"

text \<open>
  The proof that is sent next, and whether it comes from the shared database, where it is then locked. Of
  the stored proofs only the first one above the height of the contract is looked at.
\<close>

definition choose_rollup ::
    "'pdb rocksdb \<Rightarrow> pvalue_codec \<Rightarrow> rollup_view \<Rightarrow> 'pdb \<Rightarrow> (WorkerError, (RollupInput \<times> bool) option) outcome" where
  "choose_rollup R C v db =
     obind (omap_err (\<lambda>_. WContract) (rv_height v)) (\<lambda>contract_height.
     case list_rollups R C db (height_next contract_height) (- 1) of
       [] \<Rightarrow> Ok None
     | r # _ \<Rightarrow>
         obind (omap_err WDb r) (\<lambda>(_, rollup).
         obind (omap_err (\<lambda>_. WContract) (rv_root v)) (\<lambda>root.
         if ri_old_root rollup \<noteq> root then
           (case rv_missed v of
              None \<Rightarrow> Ok None
            | Some q \<Rightarrow> omap (map_option (\<lambda>i. (i, True))) (omap_err (\<lambda>_. WPostgres) q))
         else Ok (Some (rollup, False)))))"

text \<open>Sending a proof gives the proof, if it was sent, and whether the next round starts without waiting.\<close>

definition send_rollup :: "rollup_view \<Rightarrow> RollupInput \<Rightarrow> (WorkerError, RollupInput option \<times> bool) outcome" where
  "send_rollup v rollup =
     obind (omap_err (\<lambda>_. FailedToGetNonce) (rv_pending_nonce v)) (\<lambda>pending_nonce.
     obind (omap_err (\<lambda>_. FailedToGetNonce) (rv_latest_nonce v)) (\<lambda>latest_nonce.
     if pending_nonce > latest_nonce then Ok (None, False)
     else
       case rv_send v rollup of
         Ok _ \<Rightarrow> Ok (Some rollup, True)
       | Err e \<Rightarrow> if e = RollupTransactionTimeout then Err e else Ok (Some rollup, False)
       | Panic \<Rightarrow> Panic))"

definition rollup_round ::
    "'pdb rocksdb \<Rightarrow> pvalue_codec \<Rightarrow> rollup_view \<Rightarrow> 'pdb \<Rightarrow> worker_output list \<times> (WorkerError, RollupInput option \<times> bool) outcome" where
  "rollup_round R C v db =
     (case choose_rollup R C v db of
        Ok None \<Rightarrow> ([], Ok (None, False))
      | Ok (Some (rollup, missed)) \<Rightarrow> (if missed then [Unlock (ri_height rollup)] else [], send_rollup v rollup)
      | Err e \<Rightarrow> ([], Err e)
      | Panic \<Rightarrow> ([], Panic))"

end
