(* ===== verification/Prover_Worker_Props.thy ===== *)
theory Prover_Worker_Props
  imports Prover_Worker Prover_Props Node_Sample
begin

text \<open>
  The properties of the workers of a prover node: the proofs they store connect the roots of successive blocks, a stop between
  two writes is noticed at the start, and the proof that is sent next continues the root of the contract.
\<close>

section \<open>The proof of a commit\<close>

definition worker_env_ok ::
    "('db, 'sdb, 'pdb, 'f::field) worker_env \<Rightarrow> ('db \<Rightarrow> bool) \<Rightarrow> ('db \<Rightarrow> (bytes, bytes) btree) \<Rightarrow> ('sdb \<Rightarrow> bool)
      \<Rightarrow> ('sdb \<Rightarrow> (bytes, bytes) btree) \<Rightarrow> ('pdb \<Rightarrow> bool) \<Rightarrow> ('pdb \<Rightarrow> (bytes, bytes) btree) \<Rightarrow> bool" where
  "worker_env_ok W invar contents tinvar tcontents pinvar pcontents \<longleftrightarrow>
     env_ok (wnode W) invar contents tinvar tcontents \<and> kv_store (wrocks W) pinvar pcontents \<and> pcodec_ok (wcodec W)
     \<and> fr_ok (wfield W) \<and> proof_system_ok (wproofs W) \<and> hash_merge2 (wnode W) = hash_pair (wfield W)"

text \<open>
  A block that a prover can follow on a tree: at most six transactions, all leaves canonical, the slots of the leaves and of
  zero free and different, and the announced root is that of the tree with the leaves.
\<close>

definition followable :: "('db, 'sdb, 'pdb, 'f::field) worker_env \<Rightarrow> 'sdb note_tree \<Rightarrow> Block \<Rightarrow> bool" where
  "followable W p b \<longleftrightarrow> length (btxns b) \<le> MAXIMUM_TXNS
     \<and> (\<forall>u \<in> set (btxns b). \<forall>e \<in> set (utxo_leaves u). represented (wfield W) e)
     \<and> batch_slots_free MERKLE_TREE_DEPTH (note_keys p) (concat (map utxo_leaves (btxns b)))
     \<and> (\<exists>q. new_root_hash (wnode W) p (nonzero_leaves (state (bcontent b))) = (q, Ok (broot b)))"

lemma nonzero_block: "nonzero (concat (map utxo_leaves (btxns b))) = nonzero_leaves (state (bcontent b))"
  by (simp add: nonzero_def nonzero_leaves_def)

lemma followable_slots: "followable W p b \<Longrightarrow> slots_free p (nonzero_leaves (state (bcontent b)))"
  by (auto simp: followable_def batch_slots_free_def slots_free_def nonzero_block)

lemma length_pad: "length us \<le> MAXIMUM_TXNS \<Longrightarrow> length (pad_txns us) = MAXIMUM_TXNS"
  by (simp add: pad_txns_def Let_def)

lemma pad_witness: "Some w \<in> set (pad_txns us) \<Longrightarrow> \<exists>u \<in> set us. sw_instances w = [utxo_instances u]"
  by (auto simp: pad_txns_def Let_def to_snark_witness_def)

lemma utxo_instances_length: "length (utxo_instances u) = 7" "drop 3 (utxo_instances u) = utxo_leaves u"
  by (simp_all add: utxo_instances_def utxo_leaves_def)

lemma pad_columns: "map txn_column (pad_txns us) = map utxo_instances us @ replicate (MAXIMUM_TXNS - length us) (replicate 7 ZERO)"
  by (simp add: pad_txns_def Let_def txn_column_def to_snark_witness_def)

lemma pad_leaves:
  assumes F: "fr_ok F" and rep: "\<forall>u \<in> set us. \<forall>e \<in> set (utxo_leaves u). represented F e"
  shows "nonzero (column_leaves F (map txn_column (pad_txns us))) = nonzero (concat (map utxo_leaves us))"
proof -
  have z: "elem F (base F ZERO) = ZERO" using base_consts(3) [OF F] by (simp add: represented_def)
  have pads: "nonzero (column_leaves F (replicate n (replicate 7 ZERO))) = []" for n
    by (induction n) (simp_all add: column_leaves_def z nonzero_def)
  have app: "column_leaves F (xs @ ys) = column_leaves F xs @ column_leaves F ys" for xs ys by (simp add: column_leaves_def)
  have txs: "column_leaves F (map utxo_instances us) = concat (map utxo_leaves us)"
    using rep by (induction us) (simp_all add: column_leaves_def utxo_instances_length represented_def map_idI)
  show ?thesis by (simp only: pad_columns app txs nonzero_simps pads append_Nil2)
qed

lemma mock_hashes_ok:
  assumes F: "fr_ok F" and t: "\<And>w. t = Some w \<Longrightarrow> \<exists>u. sw_instances w = [utxo_instances u]"
  shows "mock_hashes F t = Ok (take 3 (txn_column t))"
proof (cases t)
  case (Some w)
  with t obtain u where "sw_instances w = [utxo_instances u]" by blast
  with Some show ?thesis by (simp add: mock_hashes_def index_at_def utxo_instances_def txn_column_def)
next
  case None
  obtain u where "new_padding F MERKLE_TREE_DEPTH = Ok u" "public_inputs F u = replicate 7 0" using new_padding_inputs [OF F] .
  moreover have "elem F 0 = ZERO" using fr_okD(8) [OF F, of 0] by (simp add: ZERO_def)
  ultimately show ?thesis using None by (simp add: mock_hashes_def index_at_def txn_column_def numeral_eq_Suc)
qed

text \<open>The root, the hash and the value of every transaction of a block; missing transactions count as zero.\<close>

definition block_hashes :: "Block \<Rightarrow> element list" where
  "block_hashes b = concat (map (\<lambda>u. [recent_root u, mb_hash u, mb_value u]) (btxns b)) @ concat (replicate (MAXIMUM_TXNS - length (btxns b)) [ZERO, ZERO, ZERO])"

lemma take_columns: "take 3 (utxo_instances u) = [recent_root u, mb_hash u, mb_value u]" "take 3 (replicate 7 ZERO) = [ZERO, ZERO, ZERO]"
  by (simp_all add: utxo_instances_def numeral_eq_Suc)

lemma block_hashes_columns: "concat (map (take 3) (map txn_column (pad_txns (btxns b)))) = block_hashes b"
  by (simp only: pad_columns map_append map_replicate concat_append take_columns map_map o_def block_hashes_def)

lemma block_hashes_heads:
  assumes F: "fr_ok F" and rep: "\<forall>u \<in> set (btxns b). \<forall>e \<in> set [recent_root u, mb_hash u, mb_value u]. represented F e"
  shows "column_heads F (map txn_column (pad_txns (btxns b))) = block_hashes b"
proof -
  have z: "elem F (base F ZERO) = ZERO" using base_consts(3) [OF F] by (simp add: represented_def)
  have "map (\<lambda>f. elem F (base F f)) (block_hashes b) = block_hashes b"
    using rep by (auto simp: block_hashes_def represented_def z intro!: map_idI split: if_splits)
  then show ?thesis unfolding block_hashes_columns [symmetric] by (simp add: column_heads_def map_concat o_def)
qed

lemma worker_prove_ok:
  assumes W: "worker_env_ok W invar contents tinvar tcontents pinvar pcontents" and p: "notes_ok (wnode W) tinvar tcontents p"
    and b: "followable W p b"
  shows "\<exists>pr. worker_prove W b p = Ok pr \<and> rp_old_root pr = notes_root (wnode W) p \<and> rp_new_root pr = broot b
    \<and> ((\<forall>u \<in> set (btxns b). \<forall>e \<in> set [recent_root u, mb_hash u, mb_value u]. represented (wfield W) e) \<longrightarrow>
         rp_utxo_hashes pr = block_hashes b)"
proof -
  let ?E = "wnode W" and ?F = "wfield W" and ?ts = "pad_txns (btxns b)" and ?D = MERKLE_TREE_DEPTH
  have F: "fr_ok ?F" "proof_system_ok (wproofs W)" "hash_merge2 ?E = hash_pair ?F" using W by (simp_all add: worker_env_ok_def)
  note len = length_pad [of "btxns b"]
  show ?thesis
  proof (cases "mode (config ?E) = MockProver")
    case True
    have "\<forall>t \<in> set ?ts. mock_hashes ?F t = Ok (take 3 (txn_column t))"
      using mock_hashes_ok [OF F(1)] pad_witness by metis
    from collect_results_map [OF this] True show ?thesis
      using block_hashes_columns [of b] by (simp add: worker_prove_def Let_def o_def)
  next
    case False
    have t: "tree_ok (hash_pair ?F) ?D (ptree p)" "simple_sound (hash_pair ?F) (cache (ptree p))"
      using p by (simp_all add: persistent_ok_def F(3))
    have ts: "length ?ts = MAXIMUM_TXNS" using b len by (simp add: followable_def)
    have inst: "\<forall>w. Some w \<in> set ?ts \<longrightarrow> sw_instances w \<noteq> [] \<and> length (hd (sw_instances w)) = 7"
      using pad_witness utxo_instances_length(1) by fastforce
    have leaves: "nonzero (column_leaves ?F (map txn_column ?ts)) = nonzero_leaves (state (bcontent b))"
      using pad_leaves [OF F(1)] b by (simp add: followable_def nonzero_block)
    have free: "batch_slots_free ?D (note_keys p) (column_leaves ?F (map txn_column ?ts))"
      using b by (simp add: followable_def batch_slots_free_def leaves nonzero_block)
    from prove_block_spec [OF F(1,2) _ t ts inst free, of "bheight b"] obtain pr and t' :: "(SmirkMetadata, SimpleHashCache) Tree" where
      pr: "prove_block (wproofs W) ?F ?D (ptree p) (bheight b) ?ts = Ok pr" "rp_old_root pr = root_hash (hash_pair ?F) (ptree p)"
        "rp_new_root pr = root_hash (hash_pair ?F) t'" "rp_utxo_hashes pr = column_heads ?F (map txn_column ?ts)"
      and t': "tree_ok (hash_pair ?F) ?D t'" "tree_keys t' = note_keys p \<union> set (nonzero_leaves (state (bcontent b)))"
      by (auto simp: leaves MERKLE_TREE_DEPTH_def)
    from new_root_hash_spec [OF p followable_slots [OF b]] b
    have "broot b = merkle (hash_pair ?F) ?D (key_slots ?D (tree_keys t'))" by (auto simp: followable_def t'(2) F(3))
    with pr root_hash_merkle [OF t'(1)] slot_key_slots [OF t'(1)] False ts block_hashes_heads [OF F(1)] show ?thesis
      by (simp add: worker_prove_def Let_def notes_root_def F(3))
  qed
qed

section \<open>A step of the worker\<close>

lemma see_block_ok:
  assumes "kv_store (wrocks W) pinvar pcontents" "pcodec_ok (wcodec W)" "pinvar (wdb st)" "pdb_ok (wcodec W) (pcontents (wdb st))"
  shows "\<exists>d. see_block W h root st = (st\<lparr>wdb := d\<rparr>, [], Ok ()) \<and> pinvar d \<and> pdb_ok (wcodec W) (pcontents d)
    \<and> pdb_value (wcodec W) (pcontents d)
      = (pdb_value (wcodec W) (pcontents (wdb st)))(PLastSeenBlock \<mapsto> VLastSeenBlock \<lparr>ls_height = h, ls_root_hash = root\<rparr>)"
  using kv_store.pdb_set_spec [OF assms(1,3,4,2), of "VLastSeenBlock \<lparr>ls_height = h, ls_root_hash = root\<rparr>" PLastSeenBlock]
  by (auto simp: on_db_def set_last_seen_block_def)

lemma set_rollup_ok:
  assumes "kv_store (wrocks W) pinvar pcontents" "pcodec_ok (wcodec W)" "pinvar (wdb st)" "pdb_ok (wcodec W) (pcontents (wdb st))"
  shows "\<exists>d. on_db (\<lambda>db. set_rollup (wrocks W) (wcodec W) db h i) st = (st\<lparr>wdb := d\<rparr>, [], Ok ()) \<and> pinvar d
    \<and> pdb_ok (wcodec W) (pcontents d)
    \<and> pdb_value (wcodec W) (pcontents d) = (pdb_value (wcodec W) (pcontents (wdb st)))(PRollup h \<mapsto> VRollup i)"
  using kv_store.pdb_set_spec [OF assms(1,3,4,2), of "VRollup i" "PRollup h"] by (auto simp: on_db_def set_rollup_def)

lemma worker_tree_run [simp]: "wtree st = Some p \<Longrightarrow> worker_tree st = (st, [], Ok p)"
  by (simp add: worker_tree_def)

lemma worker_apply_ok:
  assumes "env_ok (wnode W) invar contents tinvar tcontents" "wtree st = Some p" "notes_ok (wnode W) tinvar tcontents p"
    and "followable W p b"
  shows "\<exists>p'. worker_apply W b False st = (st\<lparr>wtree := Some p'\<rparr>, [], Ok ()) \<and> notes_ok (wnode W) tinvar tcontents p'
    \<and> note_keys p' = note_keys p \<union> set (nonzero_leaves (state (bcontent b))) \<and> notes_root (wnode W) p' = broot b"
proof -
  note free = followable_slots [OF assms(4)]
  from apply_free [OF assms(1,3) free, of "bheight b"] obtain p' where
    p': "apply_block_to_tree (wnode W) (state (bcontent b)) (bheight b) False p = (p', Ok ())" "notes_ok (wnode W) tinvar tcontents p'"
      "note_keys p' = note_keys p \<union> set (nonzero_leaves (state (bcontent b)))" by blast
  from assms(4) obtain q where "new_root_hash (wnode W) p (nonzero_leaves (state (bcontent b))) = (q, Ok (broot b))"
    by (auto simp: followable_def)
  from apply_root [OF assms(3) p'(2,3) free this] p' assms(2) show ?thesis
    by (intro exI [of _ p']) (simp add: worker_apply_def nbind_def)
qed

lemma process_commit_ok:
  assumes W: "worker_env_ok W invar contents tinvar tcontents pinvar pcontents"
    and st: "pinvar (wdb st)" "pdb_ok (wcodec W) (pcontents (wdb st))" "wtree st = Some p" "notes_ok (wnode W) tinvar tcontents p"
    and b: "btxns b \<noteq> []" "bheight b \<notin> set (bad_blocks (config (wnode W)))" "followable W p b"
    and ours: "takes_block pg = Ok ours"
  shows "\<exists>st' os p' i. process_commit W contract_height pg (Some (Ok n)) b st = (st', os, Ok ())
    \<and> wtree st' = Some p' \<and> notes_ok (wnode W) tinvar tcontents p'
    \<and> note_keys p' = note_keys p \<union> set (nonzero_leaves (state (bcontent b))) \<and> notes_root (wnode W) p' = broot b
    \<and> pinvar (wdb st') \<and> pdb_ok (wcodec W) (pcontents (wdb st'))
    \<and> (\<forall>h. pdb_value (wcodec W) (pcontents (wdb st')) (PRollup h) =
         (if h = bheight b \<and> contract_height < bheight b \<and> ours then Some (VRollup i)
          else pdb_value (wcodec W) (pcontents (wdb st)) (PRollup h)))
    \<and> ri_old_root i = notes_root (wnode W) p \<and> rp_new_root (ri_proof i) = broot b
    \<and> ri_signatures i = approvals (header (bcontent n)) \<and> ri_height i = bheight b
    \<and> ri_other_hash i = header_hash (henv (wnode W)) (bcontent b)
    \<and> ((\<forall>u \<in> set (btxns b). \<forall>e \<in> set [recent_root u, mb_hash u, mb_value u]. represented (wfield W) e) \<longrightarrow>
         rp_utxo_hashes (ri_proof i) = block_hashes b)
    \<and> start_height W st' = (st', [], Ok (bheight b + 1))"
proof -
  let ?C = "wcodec W" and ?h = "bheight b" and ?E = "wnode W"
  have k: "env_ok ?E invar contents tinvar tcontents" "kv_store (wrocks W) pinvar pcontents" "pcodec_ok ?C"
    using W by (simp_all add: worker_env_ok_def)
  from worker_prove_ok [OF W st(4) b(3)] obtain pr where
    pr: "worker_prove W b p = Ok pr" "rp_old_root pr = notes_root ?E p" "rp_new_root pr = broot b"
    "(\<forall>u \<in> set (btxns b). \<forall>e \<in> set [recent_root u, mb_hash u, mb_value u]. represented (wfield W) e) \<longrightarrow>
      rp_utxo_hashes pr = block_hashes b" by blast
  define i where "i = \<lparr>ri_proof = pr, ri_height = ?h, ri_other_hash = header_hash (henv ?E) (bcontent b),
    ri_signatures = approvals (header (bcontent n))\<rparr>"
  let ?proved = "contract_height < ?h \<and> ours"
  obtain d where d: "?proved \<Longrightarrow> on_db (\<lambda>db. set_rollup (wrocks W) ?C db ?h i) st = (st\<lparr>wdb := d\<rparr>, [], Ok ())"
    "\<not> ?proved \<Longrightarrow> d = wdb st" "pinvar d" "pdb_ok ?C (pcontents d)"
    "pdb_value ?C (pcontents d) = (if ?proved then (pdb_value ?C (pcontents (wdb st)))(PRollup ?h \<mapsto> VRollup i)
      else pdb_value ?C (pcontents (wdb st)))"
    using set_rollup_ok [OF k(2,3) st(1,2), of ?h i] st(1,2) by (cases ?proved) auto
  from worker_apply_ok [OF k(1) _ st(4) b(3), of "st\<lparr>wdb := d\<rparr>"] st(3) obtain p' where
    p': "worker_apply W b False (st\<lparr>wdb := d\<rparr>) = (st\<lparr>wdb := d, wtree := Some p'\<rparr>, [], Ok ())" "notes_ok ?E tinvar tcontents p'"
      "note_keys p' = note_keys p \<union> set (nonzero_leaves (state (bcontent b)))" "notes_root ?E p' = broot b" by auto
  from see_block_ok [OF k(2,3), of "st\<lparr>wdb := d, wtree := Some p'\<rparr>" ?h "broot b"] d(3,4) obtain d' where
    d': "see_block W ?h (broot b) (st\<lparr>wdb := d, wtree := Some p'\<rparr>) = (st\<lparr>wtree := Some p', wdb := d'\<rparr>, [], Ok ())" "pinvar d'"
      "pdb_ok ?C (pcontents d')" "pdb_value ?C (pcontents d')
        = (pdb_value ?C (pcontents d))(PLastSeenBlock \<mapsto> VLastSeenBlock \<lparr>ls_height = ?h, ls_root_hash = broot b\<rparr>)" by auto
  let ?st = "st\<lparr>wtree := Some p', wdb := d'\<rparr>"
  have "\<exists>os. process_commit W contract_height pg (Some (Ok n)) b st = (?st, os, Ok ())"
  proof (cases ?proved)
    case True
    have "\<exists>os. prove_commit W (pg \<noteq> None) (Some (Ok n)) b st = (?st, os, Ok ())"
      using st(3) pr d(1) [OF True, unfolded i_def] p'(1,4) d'(1)
      by (auto simp: prove_commit_def nbind_def Let_def)
    with True b(1,2) ours show ?thesis by (auto simp: process_commit_def Let_def nbind_def)
  next
    case False
    with d(2) have "d = wdb st" by simp
    with False b(1,2) ours p'(1) d'(1) show ?thesis by (auto simp: process_commit_def Let_def nbind_def)
  qed
  moreover have "start_height W ?st = (?st, [], Ok (?h + 1))"
    using kv_store.get_last_seen_spec [OF k(2) d'(2,3)] p'(4)
    by (simp add: start_height_def nbind_def empty_tree_hash_eq MERKLE_TREE_DEPTH_def d'(4) Let_def)
  ultimately show ?thesis using p'(2-4) d' d(5) pr
    by (intro exI [of _ ?st]) (auto simp: i_def ri_old_root_def intro!: exI [of _ p'] exI [of _ i])
qed

text \<open>
  C14: a prover that follows the commits. For a block with transactions that fits the tree, processing the commit
  succeeds: the tree gets the leaves of the block and its announced root, and the database remembers the block. When the
  block is above the height of the contract and this prover takes it, exactly one proof is stored, under the height
  of the block: it leads from the root of the tree before to the root of the block and carries the approvals of the next block;
  otherwise no proof is stored. A start in this state continues with the next height.
\<close>

theorem process_commit_chains:
  assumes W: "worker_env_ok W invar contents tinvar tcontents pinvar pcontents"
    and st: "pinvar (wdb st)" "pdb_ok (wcodec W) (pcontents (wdb st))" "wtree st = Some p" "notes_ok (wnode W) tinvar tcontents p"
    and b: "btxns b \<noteq> []" "bheight b \<notin> set (bad_blocks (config (wnode W)))" "followable W p b"
    and ours: "takes_block pg = Ok ours"
  shows "\<exists>st' os p' i. process_commit W contract_height pg (Some (Ok n)) b st = (st', os, Ok ())
    \<and> wtree st' = Some p' \<and> notes_ok (wnode W) tinvar tcontents p'
    \<and> note_keys p' = note_keys p \<union> set (nonzero_leaves (state (bcontent b))) \<and> notes_root (wnode W) p' = broot b
    \<and> pinvar (wdb st') \<and> pdb_ok (wcodec W) (pcontents (wdb st'))
    \<and> (\<forall>h. pdb_value (wcodec W) (pcontents (wdb st')) (PRollup h) =
         (if h = bheight b \<and> contract_height < bheight b \<and> ours then Some (VRollup i)
          else pdb_value (wcodec W) (pcontents (wdb st)) (PRollup h)))
    \<and> ri_old_root i = notes_root (wnode W) p \<and> rp_new_root (ri_proof i) = broot b
    \<and> ri_signatures i = approvals (header (bcontent n))
    \<and> start_height W st' = (st', [], Ok (bheight b + 1))"
  using process_commit_ok [OF assms, of contract_height n] by fast

text \<open>
  A stop between two writes. When the root of the last block that the database remembers is not the root of the tree, the start
  forgets the block and the tree and ends the process, but keeps all stored proofs; a start with an empty tree then
  follows the commits from the height one.
\<close>

theorem restart_rebuilds:
  assumes "kv_store (wrocks W) pinvar pcontents" "pcodec_ok (wcodec W)" "pinvar (wdb st)" "pdb_ok (wcodec W) (pcontents (wdb st))"
    and p: "wtree st = Some p" "pdb_value (wcodec W) (pcontents (wdb st)) PLastSeenBlock = Some (VLastSeenBlock l)"
      "ls_root_hash l \<noteq> notes_root (wnode W) p"
    and q: "notes_ok (wnode W) tinvar tcontents q" "note_keys q = {}"
  shows "\<exists>st'. start_height W st = (st', [], Panic) \<and> wtree st' = None
    \<and> (\<forall>h. pdb_value (wcodec W) (pcontents (wdb st')) (PRollup h) = pdb_value (wcodec W) (pcontents (wdb st)) (PRollup h))
    \<and> start_height W (st'\<lparr>wtree := Some q\<rparr>) = (st'\<lparr>wtree := Some q\<rparr>, [], Ok 1)"
proof -
  let ?C = "wcodec W" and ?e = "empty_hash (hash_merge2 (wnode W)) MERKLE_TREE_DEPTH"
  have e: "empty_tree_hash (hash_merge2 (wnode W)) MERKLE_TREE_DEPTH = Ok ?e" by (simp add: empty_tree_hash_eq MERKLE_TREE_DEPTH_def)
  from see_block_ok [OF assms(1-4), of 0 ?e] obtain d where
    d: "see_block W 0 ?e st = (st\<lparr>wdb := d\<rparr>, [], Ok ())" "pinvar d" "pdb_ok ?C (pcontents d)"
      "pdb_value ?C (pcontents d) = (pdb_value ?C (pcontents (wdb st)))(PLastSeenBlock \<mapsto> VLastSeenBlock \<lparr>ls_height = 0, ls_root_hash = ?e\<rparr>)"
    by blast
  have "start_height W st = (st\<lparr>wdb := d, wtree := None\<rparr>, [], Panic)"
    using p d(1) kv_store.get_last_seen_spec [OF assms(1,3,4)] by (simp add: start_height_def nbind_def e Let_def)
  moreover have "notes_root (wnode W) q = ?e" using notes_root_merkle [OF q(1)] by (simp add: q(2) merkle_empty [symmetric] key_slots_def [abs_def])
  then have "start_height W (st\<lparr>wdb := d, wtree := Some q\<rparr>) = (st\<lparr>wdb := d, wtree := Some q\<rparr>, [], Ok 1)"
    using d(4) kv_store.get_last_seen_spec [OF assms(1) d(2,3)] by (simp add: start_height_def nbind_def e Let_def)
  ultimately show ?thesis using d(4) by (intro exI [of _ "st\<lparr>wdb := d, wtree := None\<rparr>"]) simp
qed

section \<open>Roll-ups\<close>

text \<open>
  C33: what is rolled up next. Let the first stored proof above the height of the contract be at the height \<open>h\<close>. If it starts from the
  root of the contract and no transaction is pending, a round sends exactly this proof; if it starts
  from another root, only a proof of the shared database is sent, and without a shared database nothing is.
\<close>

theorem rollup_round_next:
  assumes kv: "kv_store R pinvar pcontents" "pinvar d" "pdb_ok C (pcontents d)"
    and v: "rv_height v = Ok c" "rv_root v = Ok root" "rv_pending_nonce v = Ok n" "rv_latest_nonce v = Ok n" "rv_send v i = Ok ()"
    and i: "pdb_value C (pcontents d) (PRollup h) = Some (VRollup i)" "c < h" "h \<noteq> - 1"
    and first: "\<forall>k. c < k \<and> k < h \<longrightarrow> pdb_value C (pcontents d) (PRollup k) = None"
  shows "rollup_round R C v d =
    (if ri_old_root i = root then ([], Ok (Some i, True))
     else case rv_missed v of
            Some (Ok (Some j)) \<Rightarrow> ([Unlock (ri_height j)], send_rollup v j)
          | Some (Err _) \<Rightarrow> ([], Err WPostgres)
          | Some Panic \<Rightarrow> ([], Panic)
          | _ \<Rightarrow> ([], Ok (None, False)))"
proof -
  have "1 + c \<noteq> 0" using i(2) by (metis add.commute eq_neg_iff_add_eq_0 leD word_max_least)
  from unatSuc [OF this] have c: "height_next c \<le> k \<longleftrightarrow> c < k" for k
    by (simp add: height_next_def add.commute word_le_nat_alt word_less_nat_alt Suc_le_eq)
  from kv_store.list_rollups_spec [OF kv, of "height_next c" "- 1"] obtain xs where
    xs: "list_rollups R C d (height_next c) (- 1) = map Ok xs" "sorted_wrt (<) (map fst xs)"
      "\<forall>k j. (k, j) \<in> set xs \<longleftrightarrow> pdb_value C (pcontents d) (PRollup k) = Some (VRollup j) \<and> height_next c \<le> k \<and> k < - 1" by blast
  have "h < - 1" using i(3) word_max_least [of h] by (simp add: order_less_le)
  then have mem: "(h, i) \<in> set xs" using xs(3) i(1,2) c by simp
  then obtain k j ys where xs': "xs = (k, j) # ys" by (cases xs) auto
  have "(k, j) \<in> set xs" by (simp add: xs')
  with xs(3) c first have "\<not> k < h" by fastforce
  with mem xs(2) have "(k, j) = (h, i)" by (fastforce simp: xs')
  then have run: "list_rollups R C d (height_next c) (- 1) = Ok (h, i) # map Ok ys" by (simp add: xs(1) xs')
  show ?thesis
  proof (cases "ri_old_root i = root")
    case True
    then show ?thesis using run v by (simp add: rollup_round_def choose_rollup_def send_rollup_def)
  next
    case False
    then show ?thesis using run v
      by (cases "rv_missed v") (auto simp: rollup_round_def choose_rollup_def split: outcome.splits option.splits)
  qed
qed

section \<open>A prover with one block\<close>

type_synonym value_tuple =
  "BlockHeight \<times> element + (bytes \<times> element list \<times> element \<times> element \<times> element list) \<times> u64 \<times> CryptoHash \<times> bytes list + u64"

fun value_fields :: "ValueV1 \<Rightarrow> value_tuple" where
  "value_fields (VLastSeenBlock l) = Inl (ls_height l, ls_root_hash l)"
| "value_fields (VRollup i) =
     Inr (Inl ((rp_proof (ri_proof i), rp_agg_instances (ri_proof i), rp_old_root (ri_proof i), rp_new_root (ri_proof i),
       rp_utxo_hashes (ri_proof i)), ri_height i, ri_other_hash i, ri_signatures i))"
| "value_fields (VProverVersion n) = Inr (Inr n)"

fun value_of_fields :: "value_tuple \<Rightarrow> ValueV1" where
  "value_of_fields (Inl (h, r)) = VLastSeenBlock \<lparr>ls_height = h, ls_root_hash = r\<rparr>"
| "value_of_fields (Inr (Inl ((p, a, r, r', us), h, x, ss))) =
     VRollup \<lparr>ri_proof = \<lparr>rp_proof = p, rp_agg_instances = a, rp_old_root = r, rp_new_root = r', rp_utxo_hashes = us\<rparr>,
       ri_height = h, ri_other_hash = x, ri_signatures = ss\<rparr>"
| "value_of_fields (Inr (Inr n)) = VProverVersion n"

lemma value_of_fields_fields [simp]: "value_of_fields (value_fields v) = v"
  by (cases v) simp_all

definition unary_values :: pvalue_codec where
  "unary_values = \<lparr>pv_to_bytes = (\<lambda>v. Ok (unary (value_fields v))), pv_from_bytes = (\<lambda>bs. Ok (value_of_fields (of_unary bs)))\<rparr>"

definition worker5 :: "(mem_db, mem_db, mem_db, gf5) worker_env" where
  "worker5 = \<lparr>wnode = sample_env\<lparr>hash_merge2 := hash_pair F5, config := config sample_env\<lparr>mode := Prover\<rparr>\<rparr>,
     wproofs = proofs5, wfield = F5, wrocks = mem_rocksdb, wcodec = unary_values\<rparr>"

definition notes5 :: "mem_db note_tree" where
  "notes5 = \<lparr>ptree = new_with_cache MERKLE_TREE_DEPTH simple_new, pdb = []\<rparr>"

definition block5 :: Block where
  "block5 =
     \<lparr>bcontent = \<lparr>header = \<lparr>height = 1, last_block_hash = 0, epoch_id = 0, last_final_block_hash = 0, approvals = [[7]]\<rparr>,
        state = \<lparr>state_root_hash = merkle (hash_pair F5) MERKLE_TREE_DEPTH (key_slots MERKLE_TREE_DEPTH {ONE}),
          state_txns = [sample_txn\<lparr>output_leaves := (ONE, ZERO), input_leaves := (ZERO, ZERO)\<rparr>]\<rparr>\<rparr>,
      bsignature = []\<rparr>"

lemma worker5_simps [simp]:
  "wfield worker5 = F5" "wrocks worker5 = mem_rocksdb" "wcodec worker5 = unary_values" "hash_merge2 (wnode worker5) = hash_pair F5"
  "bad_blocks (config (wnode worker5)) = []" "tree_codec (wnode worker5) = height_codec"
  by (simp_all add: worker5_def)

lemma unary_values_ok: "pcodec_ok unary_values"
  by (simp add: pcodec_ok_def unary_values_def)

lemma worker5_ok: "worker_env_ok worker5 bt_ok (\<lambda>d. d) bt_ok (\<lambda>d. d) bt_ok (\<lambda>d. d)"
proof -
  have "env_ok (wnode worker5) bt_ok (\<lambda>d. d) bt_ok (\<lambda>d. d)"
    using sample_env_ok by (simp add: env_ok_def worker5_def)
  moreover have "proof_system_ok proofs5" by (simp add: proof_system_ok_def proofs5_def)
  ultimately show ?thesis
    by (simp add: worker_env_ok_def F5_ok unary_values_ok mem.kv_store_axioms) (simp add: worker5_def)
qed

lemma notes5_ok: "notes_ok (wnode worker5) bt_ok (\<lambda>d. d) notes5" "note_keys notes5 = {}"
proof -
  let ?t = "new_with_cache MERKLE_TREE_DEPTH simple_new :: (SmirkMetadata, SimpleHashCache) Tree"
  have "tree_get ?t = (\<lambda>_. None)" by (simp add: fun_eq_iff tree_get_def new_with_cache_def)
  then show "notes_ok (wnode worker5) bt_ok (\<lambda>d. d) notes5"
    by (simp add: persistent_ok_def notes5_def new_with_cache_ok storage_ok_empty MERKLE_TREE_DEPTH_def)
      (simp add: new_with_cache_def simple_new_sound)
  show "note_keys notes5 = {}" by (simp add: notes5_def tree_keys_def new_with_cache_def bt_keys_def)
qed

lemma block5_fields [simp]: "bheight block5 = 1" "approvals (header (bcontent block5)) = [[7]]"
  "nonzero_leaves (state (bcontent block5)) = [ONE]" "concat (map utxo_leaves (btxns block5)) = [ZERO, ZERO, ONE, ZERO]"
  "btxns block5 \<noteq> []" "length (btxns block5) = 1"
  by (simp_all add: block5_def nonzero_leaves_def utxo_leaves_def ONE_neq_ZERO)

lemma block5_ok: "followable worker5 notes5 block5"
proof -
  have d: "lsb_bits ZERO 160 \<noteq> lsb_bits ONE 160"
  proof
    assume "lsb_bits ZERO 160 = lsb_bits ONE 160"
    then have "bit ZERO 0 = bit ONE 0" by (simp add: lsb_bits_eq)
    then show False by (simp add: ZERO_def ONE_def)
  qed
  have "\<forall>u \<in> set (btxns block5). \<forall>e \<in> set (utxo_leaves u). represented F5 e" by (simp add: block5_def utxo_leaves_def)
  moreover have free: "batch_slots_free MERKLE_TREE_DEPTH (note_keys notes5) [ZERO, ZERO, ONE, ZERO]"
    using d by (simp add: batch_slots_free_def notes5_ok(2) ONE_neq_ZERO MERKLE_TREE_DEPTH_def)
  moreover have "slots_free notes5 [ONE]" by (simp add: slots_free_def notes5_ok(2))
  from new_root_hash_spec [OF notes5_ok(1) this] have "\<exists>q. new_root_hash (wnode worker5) notes5 [ONE] = (q, Ok (broot block5))"
    by (simp add: notes5_ok(2) block5_def)
  ultimately show ?thesis by (simp add: followable_def MAXIMUM_TXNS_def UTXO_AGG_NUMBER_def UTXO_AGGREGATIONS_def)
qed

theorem process_commit_chains_witness:
  "\<exists>st' os i. process_commit worker5 0 None (Some (Ok block5)) block5 \<lparr>wdb = [], wtree = Some notes5\<rparr> = (st', os, Ok ())
    \<and> pdb_value unary_values (wdb st') (PRollup 1) = Some (VRollup i) \<and> ri_old_root i = notes_root (wnode worker5) notes5
    \<and> ri_signatures i = [[7]]"
proof -
  have "takes_block None = Ok True" by simp
  from process_commit_chains [OF worker5_ok _ _ _ notes5_ok(1) _ _ block5_ok this,
      of "\<lparr>wdb = [], wtree = Some notes5\<rparr>" 0 block5] show ?thesis
    by (simp add: pdb_ok_def) (metis (no_types, lifting))
qed

theorem restart_rebuilds_witness:
  "\<exists>d. start_height worker5 \<lparr>wdb = [(pkey_serialize PLastSeenBlock, unary (value_fields (VLastSeenBlock
       \<lparr>ls_height = 7, ls_root_hash = notes_root (wnode worker5) notes5 + 1\<rparr>)))], wtree = Some notes5\<rparr> = (d, [], Panic)
    \<and> wtree d = None"
proof -
  let ?l = "\<lparr>ls_height = 7, ls_root_hash = notes_root (wnode worker5) notes5 + 1\<rparr>"
  let ?st = "\<lparr>wdb = [(pkey_serialize PLastSeenBlock, unary (value_fields (VLastSeenBlock ?l)))], wtree = Some notes5\<rparr>"
  have "pdb_value unary_values (wdb ?st) PLastSeenBlock = Some (VLastSeenBlock ?l)"
    by (simp add: pdb_value_def unary_values_def del: value_fields.simps)
  moreover have "pdb_ok unary_values (wdb ?st)"
    unfolding pdb_ok_def by (auto simp: unary_values_def simp del: value_fields.simps intro!: exI [of _ PLastSeenBlock])
  moreover have "bt_ok (wdb ?st)" by (simp add: bt_ok_def bt_keys_def)
  ultimately show ?thesis
    using restart_rebuilds [of worker5 bt_ok "\<lambda>d. d" ?st notes5 ?l bt_ok "\<lambda>d. d" notes5] notes5_ok
    by (auto simp: mem.kv_store_axioms unary_values_ok)
qed

definition rollup5 :: RollupInput where
  "rollup5 = \<lparr>ri_proof = \<lparr>rp_proof = [], rp_agg_instances = [], rp_old_root = 4, rp_new_root = 5, rp_utxo_hashes = []\<rparr>,
     ri_height = 3, ri_other_hash = 0, ri_signatures = []\<rparr>"

theorem rollup_round_next_witness:
  "rollup_round mem_rocksdb unary_values \<lparr>rv_height = Ok 2, rv_root = Ok 4, rv_missed = None, rv_pending_nonce = Ok 0,
     rv_latest_nonce = Ok 0, rv_send = \<lambda>_. Ok ()\<rparr> [(pkey_serialize (PRollup 3), unary (value_fields (VRollup rollup5)))]
   = ([], Ok (Some rollup5, True))"
proof -
  let ?d = "[(pkey_serialize (PRollup 3), unary (value_fields (VRollup rollup5)))]"
  have v: "pdb_value unary_values ?d (PRollup k) = (if k = 3 then Some (VRollup rollup5) else None)" for k
    by (simp add: pdb_value_def unary_values_def del: value_fields.simps pkey_serialize.simps)
  have "pdb_ok unary_values ?d"
    unfolding pdb_ok_def by (auto simp: unary_values_def simp del: value_fields.simps pkey_serialize.simps intro!: exI [of _ "PRollup 3"])
  moreover have "bt_ok ?d" by (simp add: bt_ok_def bt_keys_def)
  moreover have "ri_old_root rollup5 = 4" by (simp add: ri_old_root_def rollup5_def)
  ultimately show ?thesis
    using rollup_round_next [OF mem.kv_store_axioms, of ?d unary_values
        "\<lparr>rv_height = Ok 2, rv_root = Ok 4, rv_missed = None, rv_pending_nonce = Ok 0, rv_latest_nonce = Ok 0, rv_send = \<lambda>_. Ok ()\<rparr>"
        2 4 0 rollup5 3]
    by (simp add: v del: pkey_serialize.simps value_fields.simps)
qed

end
