(* ===== verification/Rpc_Routes.thy ===== *)
theory Rpc_Routes
  imports Node_Ops
begin

text \<open>
  The HTTP routes of the node (\<^verbatim>\<open>pkg/node/src/rpc\<close>): the mapping of errors to responses, blocks and transactions with
  their pages, elements, Merkle paths, health and statistics. A handler is a function of the node's state; parsing of
  requests and encoding of responses belong to the web framework. The clock is an argument.
\<close>

section \<open>Errors\<close>

datatype ErrorCode = BadRequest | NotFound | AlreadyExists | Unavailable | Internal

fun status_code :: "ErrorCode \<Rightarrow> nat" where
  "status_code BadRequest = 400"
| "status_code NotFound = 404"
| "status_code AlreadyExists = 409"
| "status_code Unavailable = 503"
| "status_code Internal = 500"

datatype error_data = ElementData element | HashData CryptoHash

record HTTPError =
  code :: ErrorCode
  reason :: string
  data :: "error_data option"

datatype RouteError = InvalidElement string | OutOfSync | StatisticsNotReady

fun http_of_route :: "RouteError \<Rightarrow> HTTPError" where
  "http_of_route (InvalidElement _) = \<lparr>code = BadRequest, reason = ''invalid-element'', data = None\<rparr>"
| "http_of_route OutOfSync = \<lparr>code = Unavailable, reason = ''out-of-sync'', data = None\<rparr>"
| "http_of_route StatisticsNotReady = \<lparr>code = Unavailable, reason = ''statistics-not-ready'', data = None\<rparr>"

fun http_of_node :: "NodeError \<Rightarrow> HTTPError" where
  "http_of_node InvalidProof = \<lparr>code = BadRequest, reason = ''invalid-proof'', data = None\<rparr>"
| "http_of_node (UtxoRootIsNotRecentEnough root _ _) =
     \<lparr>code = BadRequest, reason = ''utxo-root-not-recent-enough'', data = Some (ElementData root)\<rparr>"
| "http_of_node (ElementNotInTree e) = \<lparr>code = NotFound, reason = ''element-not-found'', data = Some (ElementData e)\<rparr>"
| "http_of_node (NoteAlreadySpent e _) =
     \<lparr>code = AlreadyExists, reason = ''nullifier-conflict'', data = Some (ElementData e)\<rparr>"
| "http_of_node (OutputNoteExists e) =
     \<lparr>code = AlreadyExists, reason = ''commitment-conflict'', data = Some (ElementData e)\<rparr>"
| "http_of_node (MintIsNotInTheContract e) =
     \<lparr>code = NotFound, reason = ''mint-not-in-contract'', data = Some (ElementData e)\<rparr>"
| "http_of_node (BurnIsNotInTheContract e) =
     \<lparr>code = NotFound, reason = ''burn-not-in-contract'', data = Some (ElementData e)\<rparr>"
| "http_of_node (InvalidElementSize e) =
     \<lparr>code = BadRequest, reason = ''invalid-element-modulus'', data = Some (ElementData e)\<rparr>"
| "http_of_node (TxnNotFound t) = \<lparr>code = NotFound, reason = ''txn-not-found'', data = Some (HashData t)\<rparr>"
| "http_of_node _ = \<lparr>code = Internal, reason = ''internal'', data = None\<rparr>"

section \<open>Parsing\<close>

text \<open>An optional prefix is removed; the parser of the digits is a parameter.\<close>

definition strip_0x :: "string \<Rightarrow> string" where
  "strip_0x s = (if take 2 s = ''0x'' then drop 2 s else s)"

definition element_from_str :: "(string \<Rightarrow> (unit, element) outcome) \<Rightarrow> string \<Rightarrow> (unit, element) outcome" where
  "element_from_str from_radix_16 s = from_radix_16 (strip_0x s)"

definition hash_from_str :: "(string \<Rightarrow> (unit, CryptoHash) outcome) \<Rightarrow> string \<Rightarrow> (unit, CryptoHash) outcome" where
  "hash_from_str h256_from_str s = h256_from_str (strip_0x s)"

text \<open>The pieces between commas; the empty string has one empty piece.\<close>

fun split_commas :: "string \<Rightarrow> string list" where
  "split_commas [] = [[]]"
| "split_commas (c # s) =
     (if c = CHR '','' then [] # split_commas s
      else case split_commas s of p # ps \<Rightarrow> (c # p) # ps | [] \<Rightarrow> [[c]])"

definition parse_elements :: "(string \<Rightarrow> (unit, element) outcome) \<Rightarrow> string \<Rightarrow> (HTTPError, element list) outcome" where
  "parse_elements from_radix_16 s =
     collect_results
       (map (\<lambda>c. omap_err (\<lambda>_. http_of_route (InvalidElement c)) (element_from_str from_radix_16 c)) (split_commas s))"

section \<open>Transactions with their block\<close>

record TxnWithInfo =
  ti_proof :: UTXOProof
  ti_index_in_block :: u64
  ti_hash :: CryptoHash
  ti_block_height :: BlockHeight
  ti_time :: u64

text \<open>A stored block is upgraded to the latest format.\<close>

definition format_upgrade :: "BlockFormat \<Rightarrow> ('e, Block \<times> BlockMetadata) outcome" where
  "format_upgrade f =
     (case upgrade block_version (\<lambda>m ctx. (block_upgrade_once m, ctx)) 2 f () of
        Some (Ok (BlockV2 b m), _) \<Rightarrow> Ok (b, m)
      | _ \<Rightarrow> Panic)"

lemma format_upgrade_eq: "format_upgrade f = Ok (into_block f, format_metadata f)"
  by (cases f) (simp_all add: format_upgrade_def upgrade.simps)

definition block_time :: "u64 \<Rightarrow> BlockHeight \<Rightarrow> Block \<Rightarrow> BlockMetadata \<Rightarrow> u64" where
  "block_time now_s max_height b m =
     (case timestamp_unix_s m of Some t \<Rightarrow> t | None \<Rightarrow> estimate_block_time now_s (bheight b) max_height)"

definition txn_infos :: "('db, 'sdb) node_env \<Rightarrow> Block \<Rightarrow> u64 \<Rightarrow> TxnWithInfo list" where
  "txn_infos E b time =
     map (\<lambda>(i, t). \<lparr>ti_proof = t, ti_index_in_block = word_of_nat i, ti_hash = txn_key E t, ti_block_height = bheight b,
           ti_time = time\<rparr>)
       (enumerate 0 (btxns b))"

section \<open>Lists of transactions\<close>

record ListTxnsPosition =
  lp_block :: BlockHeight
  lp_txn :: u64

datatype ListTxnOrder = NewestToOldest | OldestToNewest

fun to_block_list_order :: "ListTxnOrder \<Rightarrow> BlockListOrder" where
  "to_block_list_order NewestToOldest = HighestToLowest"
| "to_block_list_order OldestToNewest = LowestToHighest"

record ListTxnsQuery =
  lt_limit :: "nat option"
  lt_cursor :: "ListTxnsPosition CursorChoice Opaque option"
  lt_order :: ListTxnOrder
  lt_poll :: bool

record ListTxnsResponse =
  ltr_txns :: "TxnWithInfo list"
  ltr_cursor :: "ListTxnsPosition OpaqueCursor"

definition page_limit :: "nat option \<Rightarrow> nat" where
  "page_limit limit = min (case limit of Some n \<Rightarrow> n | None \<Rightarrow> 10) 100"

text \<open>The transactions of the blocks in order; a block that failed to load is one failed item.\<close>

definition flatten_txns ::
    "('db, 'sdb) node_env \<Rightarrow> u64 \<Rightarrow> BlockHeight \<Rightarrow> (NodeError, BlockFormat) outcome list \<Rightarrow> (NodeError, TxnWithInfo) outcome list" where
  "flatten_txns E now_s max_height blocks =
     concat (map (\<lambda>r. case obind r format_upgrade of
                        Ok (b, m) \<Rightarrow> map Ok (txn_infos E b (block_time now_s max_height b m))
                      | Err e \<Rightarrow> [Err e]
                      | Panic \<Rightarrow> [Panic]) blocks)"

text \<open>The transactions of the block of a cursor up to its position.\<close>

fun skipped :: "ListTxnsPosition CursorChoice option \<Rightarrow> (NodeError, TxnWithInfo) outcome \<Rightarrow> bool" where
  "skipped (Some c) (Ok t) \<longleftrightarrow>
     ti_block_height t = lp_block (choice_inner c) \<and> ti_index_in_block t \<le> lp_txn (choice_inner c)"
| "skipped _ _ \<longleftrightarrow> False"

fun txn_position :: "(NodeError, TxnWithInfo) outcome \<Rightarrow> ListTxnsPosition option" where
  "txn_position (Ok t) = Some \<lparr>lp_block = ti_block_height t, lp_txn = ti_index_in_block t\<rparr>"
| "txn_position _ = None"

definition list_txns_inner ::
    "('db, 'sdb) node_env \<Rightarrow> u64 \<Rightarrow>
      (BlockHeight CursorChoice option \<Rightarrow> BlockListOrder \<Rightarrow> nat \<Rightarrow> (NodeError, (NodeError, BlockFormat) outcome list) outcome)
      \<Rightarrow> ListTxnsQuery \<Rightarrow> BlockHeight \<Rightarrow> (HTTPError, ListTxnsPosition Cursor \<times> TxnWithInfo list) outcome" where
  "list_txns_inner E now_s block_fetcher query max_height =
     (let txn_limit = page_limit (lt_limit query); choice = map_option into_inner (lt_cursor query) in
      obind (omap_err http_of_node
        (block_fetcher (map_option (choice_map_pos lp_block) choice) (to_block_list_order (lt_order query)) (txn_limit + 1)))
        (\<lambda>blocks.
      let (cursor, items) = paginator_collect txn_position (paginator_new
            (take txn_limit (filter (\<lambda>r. \<not> skipped choice r) (flatten_txns E now_s max_height blocks))))
      in obind (omap_err http_of_node (collect_results items)) (\<lambda>transactions.
         Ok (\<lparr>after = map_option after_inclusive (after cursor), before = map_option before_inclusive (before cursor)\<rparr>,
             transactions))))"

text \<open>
  A request that polls and finds nothing waits for a block with transactions in the direction of newer blocks; \<open>woken\<close>
  is the state in which such a block arrived, if it arrived in time.
\<close>

fun towards_newer_height :: "ListTxnOrder \<Rightarrow> ListTxnsPosition CursorChoice option \<Rightarrow> BlockHeight option" where
  "towards_newer_height NewestToOldest (Some (ChoiceBefore b)) = Some (height_next (lp_block (before_inner b)))"
| "towards_newer_height OldestToNewest (Some (ChoiceAfter a)) = Some (height_next (lp_block (after_inner a)))"
| "towards_newer_height _ _ = None"

definition list_txns ::
    "('db, 'sdb) node_env \<Rightarrow> u64 \<Rightarrow> ListTxnsQuery \<Rightarrow> ('db, 'sdb, 's, 'l) NodeShared option \<Rightarrow> ('db, 'sdb, 's, 'l) NodeShared
      \<Rightarrow> (HTTPError, ListTxnsResponse) outcome" where
  "list_txns E now_s query woken st =
     (let fetcher = (\<lambda>st cursor order limit. fetch_blocks_non_empty_paginated E cursor order limit st);
          max_height = cmax_height (block_cache st)
      in obind (list_txns_inner E now_s (fetcher st) query max_height) (\<lambda>(cursor, transactions).
         obind (if transactions = [] \<and> lt_poll query
                then (case (towards_newer_height (lt_order query) (map_option into_inner (lt_cursor query)), woken) of
                        (Some _, Some st') \<Rightarrow> list_txns_inner E now_s (fetcher st') query max_height
                      | _ \<Rightarrow> Ok (cursor, transactions))
                else Ok (cursor, transactions)) (\<lambda>(cursor, transactions).
         Ok \<lparr>ltr_txns = transactions, ltr_cursor = into_opaque cursor\<rparr>)))"

section \<open>Single transactions\<close>

definition rpc_get_txn ::
    "('db, 'sdb) node_env \<Rightarrow> (string \<Rightarrow> (unit, CryptoHash) outcome) \<Rightarrow> u64 \<Rightarrow> string \<Rightarrow> ('db, 'sdb, 's, 'l) NodeShared
      \<Rightarrow> (HTTPError, TxnWithInfo) outcome" where
  "rpc_get_txn E h256_from_str now_s path st =
     omap_err http_of_node
       (obind (omap_err (\<lambda>_. FailedToParseHash path) (hash_from_str h256_from_str path)) (\<lambda>txn_hash.
        obind (get_txn E txn_hash st) (\<lambda>found.
        case found of
          None \<Rightarrow> Err (TxnNotFound txn_hash)
        | Some (txn, m) \<Rightarrow>
            Ok \<lparr>ti_proof = txn, ti_index_in_block = ucast (tm_block_txn_index m), ti_hash = txn_hash,
                ti_block_height = tm_block_height m,
                ti_time = (case tm_block_time m of Some t \<Rightarrow> t
                           | None \<Rightarrow> estimate_block_time now_s (tm_block_height m) (cmax_height (block_cache st)))\<rparr>)))"

record SubmitUtxoResp =
  su_height :: BlockHeight
  su_root_hash :: element
  su_txn_hash :: CryptoHash

text \<open>Submission waits for the node's answer, the block that holds the transaction.\<close>

definition submit_txn ::
    "('db, 'sdb) node_env \<Rightarrow> (UTXOProof \<Rightarrow> (NodeError, Block) outcome) \<Rightarrow> SnarkWitness \<Rightarrow> (HTTPError, SubmitUtxoResp) outcome" where
  "submit_txn E submit_and_wait snark =
     obind (unwrap (from_snark_witness snark)) (\<lambda>utxo.
     omap (\<lambda>block. \<lparr>su_height = bheight block, su_root_hash = broot block, su_txn_hash = txn_key E utxo\<rparr>)
       (omap_err http_of_node (submit_and_wait utxo)))"

section \<open>Blocks\<close>

record BlockWithInfo =
  bi_content :: BlockContent
  bi_txns :: "TxnWithInfo list"
  bi_signature :: Signature
  bi_hash :: CryptoHash
  bi_time :: u64

definition block_with_info :: "('db, 'sdb) node_env \<Rightarrow> Block \<Rightarrow> u64 \<Rightarrow> BlockWithInfo" where
  "block_with_info E b time =
     \<lparr>bi_content = bcontent b, bi_txns = txn_infos E b time, bi_signature = bsignature b, bi_hash = bhash (henv E) b, bi_time = time\<rparr>"

datatype BlockIdentifier = ByHash CryptoHash | ByHeight BlockHeight

definition rpc_get_block ::
    "('db, 'sdb) node_env \<Rightarrow> u64 \<Rightarrow> BlockIdentifier \<Rightarrow> ('db, 'sdb, 's, 'l) NodeShared \<Rightarrow> (HTTPError, BlockWithInfo) outcome" where
  "rpc_get_block E now_s ident st =
     omap_err http_of_node
       (obind
         (case ident of
            ByHeight h \<Rightarrow> obind (get_block E h st) (\<lambda>f. case f of None \<Rightarrow> Err (BlockNotFound h) | Some f \<Rightarrow> Ok f)
          | ByHash x \<Rightarrow> obind (get_block_by_hash E x st) (\<lambda>f. case f of None \<Rightarrow> Err (BlockHashNotFound x) | Some f \<Rightarrow> Ok f))
         (\<lambda>f. obind (format_upgrade f) (\<lambda>(b, m).
          Ok (block_with_info E b (block_time now_s (cmax_height (block_cache st)) b m)))))"

record ListBlocksQuery =
  lb_limit :: "nat option"
  lb_cursor :: "BlockHeight CursorChoice Opaque option"
  lb_order :: BlockListOrder
  lb_skip_empty :: bool

record ListBlocksResponse =
  lbr_blocks :: "BlockWithInfo list"
  lbr_cursor :: "BlockHeight OpaqueCursor"

fun block_position :: "(NodeError, BlockWithInfo) outcome \<Rightarrow> BlockHeight option" where
  "block_position (Ok b) = Some (height (header (bi_content b)))"
| "block_position _ = None"

definition list_blocks ::
    "('db, 'sdb) node_env \<Rightarrow> u64 \<Rightarrow> ListBlocksQuery \<Rightarrow> ('db, 'sdb, 's, 'l) NodeShared \<Rightarrow> (HTTPError, ListBlocksResponse) outcome" where
  "list_blocks E now_s query st =
     (let choice = map_option into_inner (lb_cursor query); limit = page_limit (lb_limit query) in
      obind (omap_err http_of_node
        (if lb_skip_empty query then fetch_blocks_non_empty_paginated E choice (lb_order query) limit st
         else fetch_blocks_paginated E choice (lb_order query) limit st)) (\<lambda>blocks.
      let max_height = cmax_height (block_cache st);
          (cursor, items) = paginator_collect block_position (paginator_new
            (map (\<lambda>r. obind (obind r format_upgrade) (\<lambda>(b, m).
               Ok (block_with_info E b (block_time now_s max_height b m)))) blocks))
      in obind (omap_err http_of_node (collect_results items)) (\<lambda>blocks.
         Ok \<lparr>lbr_blocks = blocks, lbr_cursor = into_opaque cursor\<rparr>)))"

section \<open>Elements and Merkle paths\<close>

record ElementResponse =
  er_element :: element
  er_height :: u64
  er_root_hash :: element
  er_txn_hash :: CryptoHash

definition get_element_response ::
    "('db, 'sdb) node_env \<Rightarrow> element \<Rightarrow> ('db, 'sdb, 's, 'l) NodeShared \<Rightarrow> (NodeError, ElementResponse) outcome" where
  "get_element_response E e st =
     (case tree_get (ptree (notes_tree st)) e of
        None \<Rightarrow> Err (ElementNotInTree e)
      | Some meta \<Rightarrow>
          obind (get_block E (inserted_in meta) st) (\<lambda>f.
          case f of
            None \<Rightarrow> Err (BlockNotFound (inserted_in meta))
          | Some f \<Rightarrow>
              (let block = into_block f in
               case find (\<lambda>txn. e \<in> set (utxo_leaves txn)) (btxns block) of
                 None \<Rightarrow> Err (ElementNotInTxn e (bheight block))
               | Some txn \<Rightarrow> Ok \<lparr>er_element = e, er_height = inserted_in meta, er_root_hash = broot block,
                                er_txn_hash = txn_key E txn\<rparr>)))"

definition get_element ::
    "('db, 'sdb) node_env \<Rightarrow> element \<Rightarrow> ('db, 'sdb, 's, 'l) NodeShared \<Rightarrow> (HTTPError, ElementResponse) outcome" where
  "get_element E e st = omap_err http_of_node (get_element_response E e st)"

text \<open>Elements that are not in the tree are left out of a list.\<close>

fun element_items :: "(NodeError, ElementResponse) outcome list \<Rightarrow> (NodeError, ElementResponse) outcome list" where
  "element_items [] = []"
| "element_items (Err (ElementNotInTree e) # rs) = element_items rs"
| "element_items (r # rs) = r # element_items rs"

definition list_elements ::
    "('db, 'sdb) node_env \<Rightarrow> (string \<Rightarrow> (unit, element) outcome) \<Rightarrow> string \<Rightarrow> ('db, 'sdb, 's, 'l) NodeShared
      \<Rightarrow> (HTTPError, ElementResponse list) outcome" where
  "list_elements E from_radix_16 s st =
     (if s = [] then Ok []
      else obind (parse_elements from_radix_16 s) (\<lambda>es.
        omap_err http_of_node (collect_results (element_items (map (\<lambda>e. get_element_response E e st) es)))))"

definition rpc_get_merkle_paths ::
    "('db, 'sdb) node_env \<Rightarrow> (string \<Rightarrow> (unit, element) outcome) \<Rightarrow> string \<Rightarrow> ('db, 'sdb, 's, 'l) NodeShared
      \<Rightarrow> (HTTPError, element list list) outcome" where
  "rpc_get_merkle_paths E from_radix_16 s st =
     obind (parse_elements from_radix_16 s) (\<lambda>es. omap_err http_of_node (get_merkle_paths E es st))"

section \<open>Health, height and statistics\<close>

text \<open>The time since the last commit is counted in whole seconds; an instant is a number of nanoseconds.\<close>

definition get_health :: "u64 \<Rightarrow> Instant \<Rightarrow> ('db, 'sdb, 's, 'l) NodeShared \<Rightarrow> (HTTPError, BlockHeight) outcome" where
  "get_health interval_sec now st =
     obind (unwrap (is_out_of_sync (block_cache st))) (\<lambda>out.
     if out then Err (http_of_route OutOfSync)
     else if (case last_commit st of None \<Rightarrow> True | Some x \<Rightarrow> (now - x) div 1000000000 > unat interval_sec)
     then Err (http_of_route OutOfSync)
     else Ok (cheight (block_cache st)))"

definition get_height :: "('db, 'sdb) node_env \<Rightarrow> ('db, 'sdb, 's, 'l) NodeShared \<Rightarrow> (HTTPError, BlockHeight \<times> element) outcome" where
  "get_height E st = Ok (cheight (block_cache st), notes_root E (notes_tree st))"

record TxnStats =
  stats_ready :: bool
  last_7_days :: "(int \<times> u64) list"

definition stats_new :: TxnStats where
  "stats_new = \<lparr>stats_ready = False, last_7_days = []\<rparr>"

text \<open>
  The transactions of each day, counted from the newest block down to the first block of a day before \<open>earliest\<close>. A
  date is a number of days; \<open>date_of\<close> gives the date of a timestamp in seconds, which the code unwraps.
\<close>

fun count_days ::
    "(int \<Rightarrow> int option) \<Rightarrow> u64 \<Rightarrow> BlockHeight \<Rightarrow> int \<Rightarrow> (NodeError, BlockFormat) outcome list \<Rightarrow> (int \<rightharpoonup> u64)
      \<Rightarrow> (NodeError, int \<rightharpoonup> u64) outcome" where
  "count_days date_of now_s max_height earliest [] m = Ok m"
| "count_days date_of now_s max_height earliest (r # rs) m =
     obind r (\<lambda>f.
     let b = into_block f in
     case date_of (sint (block_time now_s max_height b (format_metadata f))) of
       None \<Rightarrow> Panic
     | Some date \<Rightarrow>
         if date < earliest then Ok m
         else count_days date_of now_s max_height earliest rs
           (m(date \<mapsto> (case m date of Some n \<Rightarrow> n | None \<Rightarrow> 0) + word_of_nat (length (btxns b)))))"

definition refresh_last_7_days ::
    "('db, 'sdb) node_env \<Rightarrow> (int \<Rightarrow> int option) \<Rightarrow> u64 \<Rightarrow> int \<Rightarrow> ('db, 'sdb, 's, 'l) NodeShared \<Rightarrow> TxnStats
      \<Rightarrow> (NodeError, TxnStats) outcome" where
  "refresh_last_7_days E date_of now_s last_day st stats =
     omap (\<lambda>m. stats\<lparr>last_7_days := map (\<lambda>i. (last_day - int i, case m (last_day - int i) of Some n \<Rightarrow> n | None \<Rightarrow> 0)) (rev [0..<7])\<rparr>)
       (count_days date_of now_s (cmax_height (block_cache st)) (last_day - 7)
         (fetch_blocks_non_empty E (Unbounded, Unbounded) HighestToLowest st) Map.empty)"

text \<open>A round of the worker; an error is logged, and the statistics count as ready.\<close>

definition stats_round ::
    "('db, 'sdb) node_env \<Rightarrow> (int \<Rightarrow> int option) \<Rightarrow> u64 \<Rightarrow> int \<Rightarrow> ('db, 'sdb, 's, 'l) NodeShared \<Rightarrow> TxnStats
      \<Rightarrow> (NodeError, TxnStats) outcome" where
  "stats_round E date_of now_s today st stats =
     (case refresh_last_7_days E date_of now_s (today - 1) st stats of
        Ok stats' \<Rightarrow> Ok (stats'\<lparr>stats_ready := True\<rparr>)
      | Err _ \<Rightarrow> Ok (stats\<lparr>stats_ready := True\<rparr>)
      | Panic \<Rightarrow> Panic)"

definition get_stats :: "TxnStats \<Rightarrow> (HTTPError, (int \<times> u64) list) outcome" where
  "get_stats stats = (if \<not> stats_ready stats then Err (http_of_route StatisticsNotReady) else Ok (last_7_days stats))"

end
