(* ===== verification/Rpc_Correct.thy ===== *)
theory Rpc_Correct
  imports Rpc_Routes Node_Correct Block_Store_Correct
begin

text \<open>
  The listing of transactions: its pages are the segments of the transactions of all blocks with transactions, in the
  order of the listing. The blocks come from the pages of the block store.
\<close>

section \<open>Blocks with transactions\<close>

text \<open>Blocks in the order of the listing, each under its height and with at least one transaction.\<close>

definition listed :: "BlockListOrder \<Rightarrow> (BlockHeight \<times> BlockFormat) list \<Rightarrow> bool" where
  "listed order L \<longleftrightarrow> sorted_wrt (if is_indexed_order order then (<) else (>)) (map fst L)
     \<and> (\<forall>(h, f) \<in> set L. bheight (into_block f) = h \<and> btxns (into_block f) \<noteq> [])"

lemma format_txns_Nil: "format_txns H f = [] \<longleftrightarrow> btxns (into_block f) = []"
  by (cases f) (auto simp: plain_txns_def enumerate_eq_zip)

lemma fetch_non_empty_listed:
  assumes kv: "kv_store (store_db E) invar contents"
    and d: "invar (block_store st)" "entries_ok (store_ops E) (contents (block_store st))"
  shows "\<exists>L. listed order L \<and> fetch_blocks_non_empty E (Unbounded, Unbounded) order st = map (Ok \<circ> snd) L
    \<and> (\<forall>cursor limit. fetch_blocks_non_empty_paginated E cursor order limit st = Ok (map (Ok \<circ> snd) (page order cursor limit L)))"
proof -
  let ?C = KeyNonEmptyBlock
  have C: "listable ?C" by (simp add: listable_def)
  from kv_store.into_iterator_spec [OF kv d C, of "(Unbounded, Unbounded)" order] obtain L where
    L: "into_iterator (store_db E) (block_from_bytes (store_ops E)) (block_store st) (listable_list ?C (Unbounded, Unbounded) order)
        = map (\<lambda>(h, b). Ok (?C h, b)) L"
      "sorted_wrt (if is_indexed_order order then (<) else (>)) (map fst L)"
    and m: "\<And>h b. (h, b) \<in> set L \<Longrightarrow> \<exists>bs. map_of (contents (block_store st)) (key_serialize (?C h)) = Some bs
        \<and> block_from_bytes (store_ops E) bs = Ok b" by (elim exE conjE) blast
  have "bheight (into_block f) = h \<and> btxns (into_block f) \<noteq> []" if "(h, f) \<in> set L" for h f
  proof -
    from m [OF that] obtain bs where bs: "map_of (contents (block_store st)) (key_serialize (?C h)) = Some bs"
      "block_from_bytes (store_ops E) bs = Ok f" by blast
    from entries_ok_get [OF d(2) bs(1)] bs(2) show ?thesis by (simp add: format_ops_def format_txns_Nil)
  qed
  then have "listed order L" using L(2) by (auto simp: listed_def)
  moreover have "fetch_blocks_non_empty E (Unbounded, Unbounded) order st = map (Ok \<circ> snd) L"
    by (simp add: fetch_blocks_non_empty_def store_list_non_empty_def L(1) o_def case_prod_beta)
  moreover have "fetch_blocks_non_empty_paginated E cursor order limit st = Ok (map (Ok \<circ> snd) (page order cursor limit L))"
    for cursor limit
    by (simp add: fetch_blocks_non_empty_paginated_def store_list_non_empty_paginated_def
        kv_store.paginated_spec [OF kv d C L(1)] o_def case_prod_beta)
  ultimately show ?thesis by blast
qed

text \<open>A listing is cut in front of an entry by the heights from the entry on.\<close>

lemma listed_cut:
  assumes "listed order (L1 @ (h, f) # L2)"
  shows "filter (\<lambda>(h', b). past order (AfterInclusive h) h') (L1 @ (h, f) # L2) = (h, f) # L2"
    and "h \<notin> fst ` set L1" "h \<notin> fst ` set L2"
proof -
  let ?R = "if is_indexed_order order then (<) else (>) :: BlockHeight \<Rightarrow> BlockHeight \<Rightarrow> bool"
  have R: "\<forall>x \<in> fst ` set L1. ?R x h" "\<forall>x \<in> fst ` set L2. ?R h x"
    using assms by (auto simp: listed_def sorted_wrt_append)
  have l: "filter (\<lambda>(h', b). past order (AfterInclusive h) h') L1 = []"
    using R(1) by (cases order) (auto simp: filter_empty_conv)
  have r: "filter (\<lambda>(h', b). past order (AfterInclusive h) h') L2 = L2"
    using R(2) by (cases order) (force simp: filter_id_conv)+
  have "past order (AfterInclusive h) h" by (cases order) simp_all
  with l r show "filter (\<lambda>(h', b). past order (AfterInclusive h) h') (L1 @ (h, f) # L2) = (h, f) # L2" by simp
  show "h \<notin> fst ` set L1" "h \<notin> fst ` set L2" using R by (cases order; fastforce)+
qed

section \<open>Transactions\<close>

definition infos :: "('db, 'sdb) node_env \<Rightarrow> u64 \<Rightarrow> BlockHeight \<Rightarrow> (BlockHeight \<times> BlockFormat) list \<Rightarrow> TxnWithInfo list" where
  "infos E now_s mh L =
     concat (map (\<lambda>(_, f). txn_infos E (into_block f) (block_time now_s mh (into_block f) (format_metadata f))) L)"

lemma infos_simps [simp]:
  "infos E now_s mh [] = []"
  "infos E now_s mh ((h, f) # L)
     = txn_infos E (into_block f) (block_time now_s mh (into_block f) (format_metadata f)) @ infos E now_s mh L"
  "infos E now_s mh (L1 @ L2) = infos E now_s mh L1 @ infos E now_s mh L2"
  by (simp_all add: infos_def)

lemma flatten_infos: "flatten_txns E now_s mh (map (Ok \<circ> snd) L) = map Ok (infos E now_s mh L)"
  by (induction L) (auto simp: flatten_txns_def format_upgrade_eq)

lemma length_txn_infos [simp]: "length (txn_infos E b t) = length (btxns b)"
  by (simp add: txn_infos_def)

lemma nth_txn_infos:
  "i < length (btxns b) \<Longrightarrow> txn_infos E b t ! i = \<lparr>ti_proof = btxns b ! i, ti_index_in_block = word_of_nat i,
     ti_hash = txn_key E (btxns b ! i), ti_block_height = bheight b, ti_time = t\<rparr>"
  by (simp add: txn_infos_def nth_enumerate_eq)

lemma infos_height: "listed order L \<Longrightarrow> t \<in> set (infos E now_s mh L) \<Longrightarrow> ti_block_height t \<in> fst ` set L"
  by (force simp: infos_def listed_def txn_infos_def in_set_conv_nth)

text \<open>Each block adds a transaction, so \<open>n\<close> blocks are enough for \<open>n\<close> transactions.\<close>

lemma take_concat:
  "\<forall>y \<in> set ys. y \<noteq> [] \<Longrightarrow> take n (xs @ concat (take n ys)) = take n (xs @ concat ys)"
proof (induction ys arbitrary: n xs)
  case (Cons y ys)
  show ?case
  proof (cases n)
    case (Suc m)
    have "take (Suc m) ((xs @ y) @ concat (take m ys)) = take (Suc m) ((xs @ y) @ concat ys)"
    proof (cases "xs @ y")
      case (Cons z zs)
      then show ?thesis using Cons.prems Cons.IH [of m zs] by simp
    qed (use Cons.prems in simp)
    with Suc show ?thesis by simp
  qed simp
qed simp

lemma take_infos:
  assumes "listed order L"
  shows "take n (xs @ infos E now_s mh (take n L)) = take n (xs @ infos E now_s mh L)"
proof -
  have "\<forall>y \<in> set (map (\<lambda>(_, f). txn_infos E (into_block f) (block_time now_s mh (into_block f) (format_metadata f))) L). y \<noteq> []"
    using assms by (auto simp: listed_def txn_infos_def enumerate_eq_zip)
  from take_concat [OF this, of n xs] show ?thesis by (simp add: infos_def take_map)
qed

text \<open>A transaction of a listing lies in one of its blocks.\<close>

lemma infos_split:
  "k < length (infos E now_s mh L) \<Longrightarrow>
    \<exists>L1 h f L2 i. L = L1 @ (h, f) # L2 \<and> i < length (btxns (into_block f)) \<and> k = length (infos E now_s mh L1) + i"
proof (induction L arbitrary: k)
  case (Cons x L)
  obtain h f where x: "x = (h, f)" by fastforce
  let ?n = "length (btxns (into_block f))"
  show ?case
  proof (cases "k < ?n")
    case True
    then show ?thesis unfolding x by (intro exI [of _ "[]"] exI [of _ h] exI [of _ f] exI [of _ L] exI [of _ k]) simp
  next
    case False
    with Cons.prems x have "k - ?n < length (infos E now_s mh L)" by simp
    from Cons.IH [OF this] obtain L1 h' f' L2 i where
      "L = L1 @ (h', f') # L2" "i < length (btxns (into_block f'))" "k - ?n = length (infos E now_s mh L1) + i" by blast
    with False x show ?thesis
      by (intro exI [of _ "x # L1"] exI [of _ h'] exI [of _ f'] exI [of _ L2] exI [of _ i]) simp
  qed
qed simp

abbreviation position_of :: "TxnWithInfo \<Rightarrow> ListTxnsPosition" where
  "position_of t \<equiv> \<lparr>lp_block = ti_block_height t, lp_txn = ti_index_in_block t\<rparr>"

text \<open>The cursor of a page.\<close>

definition page_cursor :: "TxnWithInfo list \<Rightarrow> ListTxnsPosition Cursor" where
  "page_cursor ts =
     (if ts = [] then \<lparr>after = None, before = None\<rparr>
      else \<lparr>after = Some (AfterInclusive (position_of (last ts))), before = Some (BeforeInclusive (position_of (hd ts)))\<rparr>)"

lemma map_filter_position: "List.map_filter txn_position (map Ok ts) = map position_of ts"
  by (induction ts) (simp_all add: List.map_filter_simps)

lemma collect_page:
  "paginator_collect txn_position (paginator_new (map Ok ts)) = (c, items) \<Longrightarrow>
    items = map Ok ts \<and> \<lparr>after = map_option after_inclusive (after c), before = map_option before_inclusive (before c)\<rparr> = page_cursor ts"
  unfolding paginator_collect_spec map_filter_position Let_def page_cursor_def
  by (cases ts rule: rev_cases) (auto simp: hd_map hd_append)

lemma list_txns_inner_eq:
  assumes "block_fetcher (map_option (choice_map_pos lp_block) (map_option into_inner c)) (to_block_list_order order)
      (page_limit limit + 1) = Ok (map (Ok \<circ> snd) L)"
    and ts: "ts = take (page_limit limit) (filter (\<lambda>t. \<not> skipped (map_option into_inner c) (Ok t)) (infos E now_s mh L))"
  shows "list_txns_inner E now_s block_fetcher \<lparr>lt_limit = limit, lt_cursor = c, lt_order = order, lt_poll = poll\<rparr> mh
    = Ok (page_cursor ts, ts)"
proof -
  have "take (page_limit limit) (filter (\<lambda>r. \<not> skipped (map_option into_inner c) r) (flatten_txns E now_s mh (map (Ok \<circ> snd) L)))
      = map Ok ts"
    unfolding flatten_infos ts filter_map take_map by (simp add: o_def)
  then show ?thesis
    using assms(1) collect_page [of ts]
    by (auto simp: list_txns_inner_def Let_def collect_results_map [of _ Ok "\<lambda>x. x", simplified] split: prod.split)
qed

section \<open>Pages\<close>

lemma filter_nth_drop: "(\<And>j. j < length xs \<Longrightarrow> P (xs ! j) \<longleftrightarrow> n \<le> j) \<Longrightarrow> filter P xs = drop n xs"
proof (induction xs arbitrary: n)
  case (Cons x xs)
  show ?case
  proof (cases n)
    case 0
    with Cons.prems have "P (xs ! j)" if "j < length xs" for j using that by (metis Suc_less_eq length_Cons nth_Cons_Suc zero_le)
    then have "filter P xs = xs" by (auto simp: filter_id_conv in_set_conv_nth)
    moreover have "P x" using Cons.prems [of 0] 0 by simp
    ultimately show ?thesis using 0 by simp
  next
    case (Suc m)
    have "P (xs ! j) \<longleftrightarrow> m \<le> j" if "j < length xs" for j using Cons.prems [of "Suc j"] that Suc by simp
    then show ?thesis using Cons.IH [of m] Cons.prems [of 0] Suc by simp
  qed
qed simp

text \<open>Of the block of a cursor, the transactions behind its position are kept.\<close>

lemma kept_in_block:
  assumes "length (btxns b) \<le> 2 ^ 64" "i < length (btxns b)"
    and "choice_inner c = \<lparr>lp_block = bheight b, lp_txn = word_of_nat i\<rparr>"
  shows "filter (\<lambda>t. \<not> skipped (Some c) (Ok t)) (txn_infos E b time) = drop (Suc i) (txn_infos E b time)"
proof (rule filter_nth_drop)
  fix j assume "j < length (txn_infos E b time)"
  then have j: "j < length (btxns b)" by simp
  have "unat (word_of_nat n :: u64) = n" if "n < length (btxns b)" for n
    using that assms(1) by (simp add: unsigned_of_nat take_bit_nat_eq_self_iff)
  with j assms(2) have "(word_of_nat j :: u64) \<le> word_of_nat i \<longleftrightarrow> j \<le> i" by (simp add: word_le_nat_alt)
  then show "\<not> skipped (Some c) (Ok (txn_infos E b time ! j)) \<longleftrightarrow> Suc i \<le> j"
    using j assms(3) by (auto simp: nth_txn_infos)
qed

lemma kept_elsewhere:
  assumes "listed order L" "lp_block (choice_inner c) \<notin> fst ` set L"
  shows "filter (\<lambda>t. \<not> skipped (Some c) (Ok t)) (infos E now_s mh L) = infos E now_s mh L"
proof -
  have "\<not> skipped (Some c) (Ok t)" if "t \<in> set (infos E now_s mh L)" for t
    using infos_height [OF assms(1) that] assms(2) by (cases "ti_block_height t = lp_block (choice_inner c)") simp_all
  then show ?thesis by (simp add: filter_id_conv)
qed

lemma listed_append: "listed order (L1 @ L2) \<Longrightarrow> listed order L1 \<and> listed order L2"
  by (auto simp: listed_def sorted_wrt_append)

lemma listed_take: "listed order L \<Longrightarrow> listed order (take n L)"
  using listed_append [of order "take n L" "drop n L"] by simp

lemma list_txns_first:
  assumes "listed (to_block_list_order order) L"
    and "\<And>cursor n. fetcher cursor (to_block_list_order order) n = Ok (map (Ok \<circ> snd) (page (to_block_list_order order) cursor n L))"
    and "ts = take (page_limit limit) (infos E now_s mh L)"
  shows "list_txns_inner E now_s fetcher \<lparr>lt_limit = limit, lt_cursor = None, lt_order = order, lt_poll = poll\<rparr> mh
    = Ok (page_cursor ts, ts)"
proof (rule list_txns_inner_eq)
  show "fetcher (map_option (choice_map_pos lp_block) (map_option into_inner None)) (to_block_list_order order) (page_limit limit + 1)
      = Ok (map (Ok \<circ> snd) (take (page_limit limit + 1) L))" by (simp add: assms(2))
  have "take (page_limit limit + 1) (infos E now_s mh (take (page_limit limit + 1) L)) = take (page_limit limit + 1) (infos E now_s mh L)"
    using take_infos [OF assms(1), where xs = "[]"] by simp
  from arg_cong [OF this, of "take (page_limit limit)"]
  show "ts = take (page_limit limit) (filter (\<lambda>t. \<not> skipped (map_option into_inner None) (Ok t))
      (infos E now_s mh (take (page_limit limit + 1) L)))" by (simp add: assms(3))
qed

lemma list_txns_after:
  assumes L: "listed (to_block_list_order order) L" "\<forall>(h, f) \<in> set L. length (btxns (into_block f)) \<le> 2 ^ 64"
    and fetch: "\<And>cursor n. fetcher cursor (to_block_list_order order) n
      = Ok (map (Ok \<circ> snd) (page (to_block_list_order order) cursor n L))"
    and k: "k < length (infos E now_s mh L)"
    and ts: "ts = take (page_limit limit) (drop (Suc k) (infos E now_s mh L))"
  shows "list_txns_inner E now_s fetcher
      \<lparr>lt_limit = limit, lt_cursor = Some (Opaque (ChoiceAfter (AfterInclusive (position_of (infos E now_s mh L ! k))))),
       lt_order = order, lt_poll = poll\<rparr> mh
    = Ok (page_cursor ts, ts)"
proof -
  let ?n = "page_limit limit" and ?o = "to_block_list_order order"
  from infos_split [OF k] obtain L1 h f L2 i where
    s: "L = L1 @ (h, f) # L2" "i < length (btxns (into_block f))" "k = length (infos E now_s mh L1) + i" by blast
  let ?b = "into_block f" and ?t = "block_time now_s mh (into_block f) (format_metadata f)"
  have b: "bheight ?b = h" "length (btxns ?b) \<le> 2 ^ 64" using L s(1) by (auto simp: listed_def)
  have at: "position_of (infos E now_s mh L ! k) = \<lparr>lp_block = h, lp_txn = word_of_nat i\<rparr>"
    using s(2,3) b(1) by (simp add: s(1) nth_append nth_txn_infos)
  note cut = listed_cut [OF L(1) [unfolded s(1)]]
  have fetched: "fetcher (map_option (choice_map_pos lp_block)
        (map_option into_inner (Some (Opaque (ChoiceAfter (AfterInclusive (position_of (infos E now_s mh L ! k))))))))
        ?o (?n + 1) = Ok (map (Ok \<circ> snd) ((h, f) # take ?n L2))"
    unfolding at using cut(1) by (simp add: fetch s(1) del: filter_append)
  have L2: "listed ?o (take ?n L2)" "listed ?o L2"
    using listed_append [of ?o "L1 @ [(h, f)]" L2] L(1) by (simp_all add: s(1) listed_take)
  let ?keep = "filter (\<lambda>t. \<not> skipped (Some (ChoiceAfter (AfterInclusive \<lparr>lp_block = h, lp_txn = word_of_nat i\<rparr>))) (Ok t))"
  have "?keep (infos E now_s mh (take ?n L2)) = infos E now_s mh (take ?n L2)"
    using cut(3) by (intro kept_elsewhere [OF L2(1)]) (auto dest: in_set_takeD)
  moreover have "?keep (txn_infos E ?b ?t) = drop (Suc i) (txn_infos E ?b ?t)"
    using b(1) by (intro kept_in_block [OF b(2) s(2)]) simp
  moreover have "drop (Suc k) (infos E now_s mh L) = drop (Suc i) (txn_infos E ?b ?t) @ infos E now_s mh L2"
    using s(2) by (simp add: s(1,3))
  ultimately have "ts = take ?n (filter (\<lambda>t. \<not> skipped (map_option into_inner
      (Some (Opaque (ChoiceAfter (AfterInclusive (position_of (infos E now_s mh L ! k))))))) (Ok t))
      (infos E now_s mh ((h, f) # take ?n L2)))"
    unfolding at ts using take_infos [OF L2(2), of ?n "drop (Suc i) (txn_infos E ?b ?t)" E now_s mh] by simp
  with fetched show ?thesis by (rule list_txns_inner_eq)
qed

text \<open>A client that asks for page after page until a page has no cursor.\<close>

fun read_pages ::
    "nat \<Rightarrow> (ListTxnsPosition CursorChoice Opaque option \<Rightarrow> (HTTPError, ListTxnsPosition Cursor \<times> TxnWithInfo list) outcome)
      \<Rightarrow> ListTxnsPosition CursorChoice Opaque option \<Rightarrow> TxnWithInfo list option" where
  "read_pages 0 serve c = None"
| "read_pages (Suc n) serve c =
     (case serve c of
        Ok (cursor, ts) \<Rightarrow>
          (case after cursor of
             None \<Rightarrow> Some ts
           | Some a \<Rightarrow> map_option ((@) ts) (read_pages n serve (Some (Opaque (ChoiceAfter a)))))
      | _ \<Rightarrow> None)"

lemma read_pages_from:
  assumes "0 < m"
    and serve: "\<And>k. k < length T \<Longrightarrow> serve (Some (Opaque (ChoiceAfter (AfterInclusive (position_of (T ! k))))))
      = Ok (page_cursor (take m (drop (Suc k) T)), take m (drop (Suc k) T))"
  shows "k < length T \<Longrightarrow> length T - Suc k < n \<Longrightarrow>
    read_pages n serve (Some (Opaque (ChoiceAfter (AfterInclusive (position_of (T ! k)))))) = Some (drop (Suc k) T)"
proof (induction n arbitrary: k)
  case (Suc n)
  let ?p = "take m (drop (Suc k) T)"
  show ?case
  proof (cases "Suc k < length T")
    case False
    then show ?thesis by (simp add: serve [OF Suc.prems(1)] page_cursor_def)
  next
    case True
    let ?k = "k + length ?p"
    have k: "?k < length T" "length T - Suc ?k < n" "?p \<noteq> []" "0 < length ?p"
      using True assms(1) Suc.prems(2) by (auto simp: min_def)
    have "last ?p = ?p ! (length ?p - 1)" using k(3) by (rule last_conv_nth)
    also have "\<dots> = drop (Suc k) T ! (length ?p - 1)" using k(4) by (intro nth_take) (simp, arith)
    also have "\<dots> = T ! (Suc k + (length ?p - 1))" using True by (intro nth_drop) simp
    also have "Suc k + (length ?p - 1) = ?k" using k(4) by linarith
    finally have l: "last ?p = T ! ?k" .
    have "?p @ drop (Suc ?k) T = drop (Suc k) T"
      by (metis append_take_drop_id add.commute add_Suc_right drop_drop length_take append_eq_conv_conj)
    with Suc.IH [OF k(1,2)] l k(3) show ?thesis by (simp add: serve [OF Suc.prems(1)] page_cursor_def)
  qed
qed simp

end
