(* ===== verification/Rpc_Props.thy ===== *)
theory Rpc_Props
  imports Rpc_Correct Node_Sample
begin

text \<open>
  The properties of the HTTP routes: pages of transactions, elements of committed blocks and daily statistics.
\<close>

section \<open>Pages of transactions\<close>

text \<open>
  C17: reading the transactions page by page. A client that follows the cursors after each page, with any
  limit but zero and in either order, receives the transactions of all stored blocks exactly once and in order, and
  stops after at most one request more than there are transactions.
\<close>

theorem list_txns_complete:
  assumes "kv_store (store_db E) invar contents" "invar (block_store st)" "entries_ok (store_ops E) (contents (block_store st))"
    and size: "\<forall>f. Ok f \<in> set (fetch_blocks_non_empty E (Unbounded, Unbounded) (to_block_list_order order) st)
      \<longrightarrow> length (btxns (into_block f)) \<le> 2 ^ 64"
    and limit: "0 < page_limit limit"
  shows "\<exists>T. flatten_txns E now_s mh (fetch_blocks_non_empty E (Unbounded, Unbounded) (to_block_list_order order) st) = map Ok T
    \<and> (\<forall>n > length T. read_pages n (\<lambda>c. list_txns_inner E now_s (\<lambda>c o' l. fetch_blocks_non_empty_paginated E c o' l st)
         \<lparr>lt_limit = limit, lt_cursor = c, lt_order = order, lt_poll = poll\<rparr> mh) None = Some T)"
proof -
  let ?o = "to_block_list_order order" and ?m = "page_limit limit"
  let ?fetch = "\<lambda>c o' l. fetch_blocks_non_empty_paginated E c o' l st"
  let ?serve = "\<lambda>c. list_txns_inner E now_s ?fetch \<lparr>lt_limit = limit, lt_cursor = c, lt_order = order, lt_poll = poll\<rparr> mh"
  from fetch_non_empty_listed [OF assms(1-3), of ?o] obtain L where
    L: "listed ?o L" "fetch_blocks_non_empty E (Unbounded, Unbounded) ?o st = map (Ok \<circ> snd) L"
      "\<And>c n. ?fetch c ?o n = Ok (map (Ok \<circ> snd) (page ?o c n L))" by blast
  let ?T = "infos E now_s mh L"
  have s: "\<forall>(h, f) \<in> set L. length (btxns (into_block f)) \<le> 2 ^ 64"
    using size unfolding L(2) by force
  note first = list_txns_first [where fetcher = ?fetch, OF L(1) L(3) refl]
    and next_page = list_txns_after [where fetcher = ?fetch, OF L(1) s L(3) _ refl]
  have "read_pages n ?serve None = Some ?T" if n: "length ?T < n" for n
  proof -
    obtain n' where n': "n = Suc n'" using n by (cases n) auto
    show ?thesis
    proof (cases "?T = []")
      case True
      then show ?thesis by (simp add: n' first page_cursor_def)
    next
      case False
      let ?p = "take ?m ?T"
      have p: "?p \<noteq> []" "length ?p - 1 < length ?T" using False limit by (cases ?T, auto)+
      have l: "last ?p = ?T ! (length ?p - 1)" using p(1) by (subst last_conv_nth) auto
      have "read_pages n' ?serve (Some (Opaque (ChoiceAfter (AfterInclusive (position_of (?T ! (length ?p - 1)))))))
          = Some (drop (Suc (length ?p - 1)) ?T)"
        by (rule read_pages_from [OF limit]) (use next_page p n n' in auto)
      moreover have "Suc (length ?p - 1) = length ?p" using p(1) by simp
      moreover have "?p @ drop (length ?p) ?T = ?T" by (metis append_eq_conv_conj append_take_drop_id)
      ultimately show ?thesis using p(1) l by (simp add: n' first page_cursor_def del: length_take)
    qed
  qed
  then show ?thesis using L(2) flatten_infos by (intro exI [of _ ?T]) auto
qed

text \<open>
  The page before a cursor leaves out the transactions that it should end with. In either order, the page in front of a
  transaction does not hold the transaction that precedes it, when both are in one block: the transactions of
  the block of the cursor up to its position are skipped in both directions.
\<close>

theorem list_txns_before_skips:
  assumes "kv_store (store_db E) invar contents" "invar (block_store st)" "entries_ok (store_ops E) (contents (block_store st))"
    and "fetcher = (\<lambda>c o' l. fetch_blocks_non_empty_paginated E c o' l st)"
    and T: "flatten_txns E now_s mh (fetch_blocks_non_empty E (Unbounded, Unbounded) (to_block_list_order order) st) = map Ok T"
    and k: "Suc k < length T" "ti_block_height (T ! k) = ti_block_height (T ! Suc k)"
      "ti_index_in_block (T ! k) < ti_index_in_block (T ! Suc k)"
  shows "\<exists>c ts. list_txns_inner E now_s fetcher
      \<lparr>lt_limit = limit, lt_cursor = Some (Opaque (ChoiceBefore (BeforeInclusive (position_of (T ! Suc k))))), lt_order = order,
       lt_poll = poll\<rparr> mh = Ok (c, ts) \<and> T ! k \<notin> set ts"
proof -
  let ?o = "to_block_list_order order" and ?c = "ChoiceBefore (BeforeInclusive (position_of (T ! Suc k)))"
  from fetch_non_empty_listed [OF assms(1-3), of ?o] obtain L where
    L: "\<And>c n. fetch_blocks_non_empty_paginated E c ?o n st = Ok (map (Ok \<circ> snd) (page ?o c n L))" by blast
  let ?L = "page ?o (Some (choice_map_pos lp_block ?c)) (page_limit limit + 1) L"
  let ?ts = "take (page_limit limit) (filter (\<lambda>t. \<not> skipped (Some ?c) (Ok t)) (infos E now_s mh ?L))"
  have "list_txns_inner E now_s fetcher
      \<lparr>lt_limit = limit, lt_cursor = Some (Opaque ?c), lt_order = order, lt_poll = poll\<rparr> mh = Ok (page_cursor ?ts, ?ts)"
    by (rule list_txns_inner_eq [where L = ?L]) (simp_all add: assms(4) L)
  moreover have "T ! k \<notin> set ?ts"
    using k(2,3) by (auto dest!: in_set_takeD)
  ultimately show ?thesis by blast
qed

section \<open>Elements\<close>

lemma apply_meta:
  assumes env: "env_ok E invar contents tinvar tcontents" and ok: "notes_ok E tinvar tcontents p"
    and ap: "apply_block_to_tree E s h False p = (p', Ok ())" and e: "e \<in> set (nonzero_leaves s)"
  shows "tree_get (ptree p') e = Some \<lparr>inserted_in = h\<rparr>"
proof -
  let ?ls = "nonzero_leaves s" and ?D = MERKLE_TREE_DEPTH
  let ?kvs = "map (\<lambda>e. (e, \<lparr>inserted_in = h\<rparr>)) ?ls"
  have n: "\<not> list_ex (contains_element (ptree p)) ?ls" using ap by (auto simp: apply_block_to_tree_def Let_def)
  with ap obtain b where b: "from_entries ?D ?kvs = Ok b"
    by (cases "from_entries ?D ?kvs") (auto simp: apply_block_to_tree_def Let_def)
  from from_entries_Ok [OF b] have eb: "batch_ok ?D b" "entries b = ?kvs" by simp_all
  then have el: "elements b = ?ls" by (simp add: elements_def comp_def)
  from apply_Ok_free [OF ap] have free: "\<forall>k \<in> tree_keys (ptree p). \<forall>e \<in> set (elements b). \<not> collides_with ?D k e"
    by (simp add: el slots_free_def)
  have kv: "kv_db (tree_db E) tinvar tcontents" "storage_codec_ok (tree_codec E)" using env by (simp_all add: env_ok_def)
  from persistent_insert_batch_ok [OF kv ok eb(1) _ free] nonzero_NULL [of s] obtain q where
    q: "persistent_insert_batch (hash_merge2 E) (tree_codec E) ?D (tree_db E) p b = (q, Ok ())"
      "tree_get (ptree q) e = (case map_of ?kvs e of Some v \<Rightarrow> Some v | None \<Rightarrow> tree_get (ptree p) e)" by (auto simp: el eb(2))
  have "p' = q" using ap n b q(1) by (simp add: apply_block_to_tree_def Let_def)
  moreover have "map_of ?kvs e = Some \<lparr>inserted_in = h\<rparr>" using e by (simp add: map_of_map_restrict)
  ultimately show ?thesis using q(2) by simp
qed

text \<open>
  C32: elements of a committed block. After a validated block is committed, the route for an element answers for
  every leaf of the block that is not zero: with the height and the announced root of the block and the hash of the
  transaction of the block that has the leaf.
\<close>

theorem committed_element_found:
  fixes st :: "('db, 'sdb, 's, 'l) NodeShared"
  assumes "env_ok E invar contents tinvar tcontents" "node_wf E invar contents tinvar tcontents st"
    and "bheight b \<notin> set (bad_blocks (config E))" "validate_block E b st = (st1, os1, Ok ())"
    and "commit_proposal E now utc alive b st1 = (st2, os2, Ok ())"
    and "e \<in> set (nonzero_leaves (state (bcontent b)))"
  shows "\<exists>t \<in> set (btxns b). e \<in> set (utxo_leaves t)
    \<and> get_element E e st2 = Ok \<lparr>er_element = e, er_height = bheight b, er_root_hash = broot b, er_txn_hash = txn_key E t\<rparr>"
proof -
  from commit_proposal_Ok [OF assms(3,5)] obtain p where
    p: "apply_block_to_tree E (state (bcontent b)) (bheight b) False (notes_tree st1) = (p, Ok ())" "notes_tree st2 = p" by blast
  have "notes_ok E tinvar tcontents (notes_tree st1)" using validated_block(1) [OF assms(2-4)] by (simp add: node_wf_def)
  from apply_meta [OF assms(1) this p(1) assms(6)] p(2)
  have m: "tree_get (ptree (notes_tree st2)) e = Some \<lparr>inserted_in = bheight b\<rparr>" by simp
  obtain t where t: "find (\<lambda>t. e \<in> set (utxo_leaves t)) (btxns b) = Some t"
    using assms(6) by (cases "find (\<lambda>t. e \<in> set (utxo_leaves t)) (btxns b)") (auto simp: nonzero_leaves_def find_None_iff)
  have "get_element E e st2 = Ok \<lparr>er_element = e, er_height = bheight b, er_root_hash = broot b, er_txn_hash = txn_key E t\<rparr>"
    using m t commit_step(6) [OF assms(1-5)] by (simp add: get_element_def get_element_response_def get_block_def)
  with t show ?thesis by (auto simp: find_Some_iff)
qed

theorem committed_element_found_witness:
  "\<exists>st2 os2. commit_proposal sample_env 3 4 (\<lambda>_. True) (block_with 1 [sample_txn]) (fst (validate_block sample_env (block_with 1 [sample_txn]) sample_state))
      = (st2, os2, Ok ())
    \<and> get_element sample_env 5 st2 = Ok \<lparr>er_element = 5, er_height = 1, er_root_hash = broot (block_with 1 [sample_txn]),
        er_txn_hash = txn_key sample_env sample_txn\<rparr>"
proof -
  have k: "note_keys (notes_tree sample_state) = {}" by (simp add: sample_notes_ok)
  from sample_commits [OF sample_state_wf k, of "[sample_txn]" 1 3 4 "\<lambda>_. True"] obtain st1 st2 os2 where
    c: "validate_block sample_env (block_with 1 [sample_txn]) sample_state = (st1, [], Ok ())"
      "commit_proposal sample_env 3 4 (\<lambda>_. True) (block_with 1 [sample_txn]) st1 = (st2, os2, Ok ())" by auto
  have "5 \<in> set (nonzero_leaves (state (bcontent (block_with 1 [sample_txn]))))"
    by (simp add: nonzero_leaves_def ZERO_def)
  from committed_element_found [OF sample_env_ok sample_state_wf _ c this] c show ?thesis by simp
qed

section \<open>Statistics\<close>

text \<open>The number of transactions of the blocks of a day.\<close>

definition txns_on :: "(BlockFormat \<Rightarrow> int option) \<Rightarrow> int \<Rightarrow> BlockFormat list \<Rightarrow> nat" where
  "txns_on date d fs = sum_list (map (\<lambda>f. if date f = Some d then length (btxns (into_block f)) else 0) fs)"

lemma count_days_spec:
  assumes date: "\<And>f. date f = date_of (sint (block_time now_s mh (into_block f) (format_metadata f)))"
  shows "\<forall>f \<in> set fs. date f \<noteq> None \<Longrightarrow> sorted_wrt (\<lambda>f g. the (date g) \<le> the (date f)) fs \<Longrightarrow>
    \<exists>m'. count_days date_of now_s mh earliest (map Ok fs) m = Ok m'
      \<and> (\<forall>d \<ge> earliest. (case m' d of Some n \<Rightarrow> n | None \<Rightarrow> 0)
           = (case m d of Some n \<Rightarrow> n | None \<Rightarrow> 0) + word_of_nat (txns_on date d fs))"
proof (induction fs arbitrary: m)
  case (Cons f fs)
  from Cons.prems(1) obtain d0 where d0: "date f = Some d0" by auto
  show ?case
  proof (cases "d0 < earliest")
    case True
    have "txns_on date d (f # fs) = 0" if "earliest \<le> d" for d
      using Cons.prems True that d0 by (fastforce simp: txns_on_def)
    with True d0 show ?thesis by (simp add: date [symmetric])
  next
    case False
    let ?m = "m(d0 \<mapsto> (case m d0 of Some n \<Rightarrow> n | None \<Rightarrow> 0) + word_of_nat (length (btxns (into_block f))))"
    have fs: "\<forall>f \<in> set fs. date f \<noteq> None" "sorted_wrt (\<lambda>f g. the (date g) \<le> the (date f)) fs" using Cons.prems by simp_all
    from Cons.IH [OF fs, of ?m] obtain m' where
      m': "count_days date_of now_s mh earliest (map Ok fs) ?m = Ok m'"
        "\<forall>d \<ge> earliest. (case m' d of Some n \<Rightarrow> n | None \<Rightarrow> 0) = (case ?m d of Some n \<Rightarrow> n | None \<Rightarrow> 0) + word_of_nat (txns_on date d fs)"
      by blast
    with False d0 show ?thesis by (auto simp: date [symmetric] txns_on_def Let_def)
  qed
qed (simp add: txns_on_def)

text \<open>
  Daily statistics. When the blocks with transactions have dates and the dates do not decrease with
  the height, the statistics hold for each of the seven days up to the given one the number of transactions of all stored
  blocks of that day, although the count stops at the first older block.
\<close>

theorem stats_exact:
  assumes blocks: "fetch_blocks_non_empty E (Unbounded, Unbounded) HighestToLowest st = map Ok fs"
    and date: "date = (\<lambda>f. date_of (sint (block_time now_s (cmax_height (block_cache st)) (into_block f) (format_metadata f))))"
    and "\<forall>f \<in> set fs. date f \<noteq> None" "sorted_wrt (\<lambda>f g. the (date g) \<le> the (date f)) fs"
  shows "\<exists>stats'. refresh_last_7_days E date_of now_s last_day st stats = Ok stats'
    \<and> last_7_days stats' = map (\<lambda>d. (d, word_of_nat (txns_on date d fs))) [last_day - 6 .. last_day]"
proof -
  from count_days_spec [of date date_of now_s "cmax_height (block_cache st)" fs "last_day - 7" Map.empty] assms(2-4) obtain m where
    m: "count_days date_of now_s (cmax_height (block_cache st)) (last_day - 7) (map Ok fs) Map.empty = Ok m"
      "\<forall>d \<ge> last_day - 7. (case m d of Some n \<Rightarrow> n | None \<Rightarrow> 0) = word_of_nat (txns_on date d fs)" by auto
  have "[last_day - 6 .. last_day] = map (\<lambda>i. last_day - int i) (rev [0..<7])"
    by (simp add: upto_rec1 numeral_eq_Suc)
  with m(2) have "map (\<lambda>i. (last_day - int i, case m (last_day - int i) of Some n \<Rightarrow> n | None \<Rightarrow> 0)) (rev [0..<7])
      = map (\<lambda>d. (d, word_of_nat (txns_on date d fs))) [last_day - 6 .. last_day]"
    by (auto simp: o_def)
  then show ?thesis by (simp add: refresh_last_7_days_def blocks m(1))
qed

section \<open>A store with one block\<close>

definition two_txns :: BlockFormat where
  "two_txns = BlockV1 (block_with 1 [sample_txn, sample_txn])"

definition pages_env :: "(mem_db, mem_db) node_env" where
  "pages_env = sample_env\<lparr>store_codec := unary_formats\<lparr>bf_from_bytes := \<lambda>_. Ok two_txns\<rparr>\<rparr>"

definition pages_state :: "(mem_db, mem_db, nat, nat) NodeShared" where
  "pages_state = sample_state\<lparr>block_store := [(key_serialize (KeyNonEmptyBlock 1), [])],
     block_cache := \<lparr>cheight = 1, cmax_height = 1, cblocks = [], block_hash_heights = [], max_cache_size = 10\<rparr>\<rparr>"

lemma pages_ok:
  "kv_store (store_db pages_env) bt_ok (\<lambda>d. d)" "bt_ok (block_store pages_state)"
  "entries_ok (store_ops pages_env) (block_store pages_state)"
proof -
  show "kv_store (store_db pages_env) bt_ok (\<lambda>d. d)" by (simp add: pages_env_def mem.kv_store_axioms)
  show "bt_ok (block_store pages_state)" by (simp add: pages_state_def bt_ok_def bt_keys_def)
  have "value_ok (store_ops pages_env) (KeyNonEmptyBlock 1) []"
    by (simp add: pages_env_def format_ops_def format_txns_Nil) (simp add: two_txns_def)
  then show "entries_ok (store_ops pages_env) (block_store pages_state)" unfolding entries_ok_def pages_state_def by (simp del: key_serialize.simps value_ok.simps)
qed

lemma pages_fetch: "fetch_blocks_non_empty pages_env (Unbounded, Unbounded) order pages_state = [Ok two_txns]"
proof -
  have "key_deserialize (6 # height_bytes 1) = Ok (KeyNonEmptyBlock 1)" using key_round_trip [of "KeyNonEmptyBlock 1"] by simp
  then show ?thesis
    by (simp add: fetch_blocks_non_empty_def store_list_non_empty_def into_iterator_def pages_env_def pages_state_def mem_rocksdb_def
        listable_list_def listing_item_def format_ops_def Let_def serialize_immediate_successor_def less_append_zero)
qed

lemma pages_txns:
  "flatten_txns pages_env 9 1 [Ok two_txns]
     = map Ok (txn_infos pages_env (block_with 1 [sample_txn, sample_txn]) 9)"
  by (simp add: flatten_txns_def format_upgrade_eq block_time_def estimate_block_time_def) 
    (simp add: two_txns_def estimate_block_time_def)

theorem list_txns_complete_witness:
  "read_pages 3 (\<lambda>c. list_txns_inner pages_env 9 (\<lambda>c o' l. fetch_blocks_non_empty_paginated pages_env c o' l pages_state)
      \<lparr>lt_limit = Some 1, lt_cursor = c, lt_order = NewestToOldest, lt_poll = False\<rparr> 1) None
    = Some (txn_infos pages_env (block_with 1 [sample_txn, sample_txn]) 9)"
proof -
  have "\<forall>f. Ok f \<in> set (fetch_blocks_non_empty pages_env (Unbounded, Unbounded) (to_block_list_order NewestToOldest) pages_state)
      \<longrightarrow> length (btxns (into_block f)) \<le> 2 ^ 64" by (simp add: pages_fetch) (simp add: two_txns_def)
  from list_txns_complete [OF pages_ok this, of "Some 1" 9 1 False] show ?thesis
    by (auto simp: pages_fetch pages_txns page_limit_def inj_map_eq_map inj_def)
qed

theorem list_txns_before_skips_witness:
  "\<exists>c ts. list_txns_inner pages_env 9 (\<lambda>c o' l. fetch_blocks_non_empty_paginated pages_env c o' l pages_state)
      \<lparr>lt_limit = Some 5, lt_cursor = Some (Opaque (ChoiceBefore (BeforeInclusive \<lparr>lp_block = 1, lp_txn = 1\<rparr>))),
       lt_order = NewestToOldest, lt_poll = False\<rparr> 1 = Ok (c, ts)
    \<and> txn_infos pages_env (block_with 1 [sample_txn, sample_txn]) 9 ! 0 \<notin> set ts"
proof -
  let ?T = "txn_infos pages_env (block_with 1 [sample_txn, sample_txn]) 9"
  have T: "flatten_txns pages_env 9 1 (fetch_blocks_non_empty pages_env (Unbounded, Unbounded) (to_block_list_order NewestToOldest) pages_state)
      = map Ok ?T" by (simp only: pages_fetch pages_txns)
  have "position_of (?T ! Suc 0) = \<lparr>lp_block = 1, lp_txn = 1\<rparr>" "ti_block_height (?T ! 0) = ti_block_height (?T ! Suc 0)"
    "ti_index_in_block (?T ! 0) < ti_index_in_block (?T ! Suc 0)" "Suc 0 < length ?T" by (simp_all add: nth_txn_infos)
  then show ?thesis
    using list_txns_before_skips [OF pages_ok refl T, of 0 "Some 5" False] by simp
qed

theorem stats_exact_witness:
  "\<exists>stats'. refresh_last_7_days pages_env (\<lambda>s. Some (s div 86400)) 864000 10 pages_state stats_new = Ok stats'
    \<and> last_7_days stats' = [(4, 0), (5, 0), (6, 0), (7, 0), (8, 0), (9, 0), (10, 2)]"
proof -
  let ?date = "\<lambda>f. (\<lambda>s. Some (s div 86400)) (sint (block_time 864000 (cmax_height (block_cache pages_state)) (into_block f) (format_metadata f)))"
  have d: "?date two_txns = Some 10"
    by (simp add: two_txns_def block_time_def estimate_block_time_def pages_state_def)
  have b: "fetch_blocks_non_empty pages_env (Unbounded, Unbounded) HighestToLowest pages_state = map Ok [two_txns]"
    by (simp add: pages_fetch)
  have t: "length (btxns (into_block two_txns)) = 2" by (simp add: two_txns_def)
  have "txns_on ?date x [two_txns] = (if x = 10 then 2 else 0)" for x using d t by (simp add: txns_on_def)
  then show ?thesis
    using stats_exact [OF b refl, where date_of = "\<lambda>s. Some (s div 86400)" and now_s = 864000 and last_day = 10 and stats = stats_new]
    by (simp add: upto_rec1)
qed

end
