(* ===== verification/Contracts.thy ===== *)
theory Contracts
  imports Prover_Worker "HOL-Library.Sublist"
begin

text \<open>
  The client of the roll-up contract (\<^verbatim>\<open>pkg/contracts\<close>): retries after network failures, the price of gas, sending
  and confirming transactions (\<^verbatim>\<open>client.rs\<close>), the calls and queries of the contract with their arguments, the signed
  digest of a mint and the worker that follows the validator sets (\<^verbatim>\<open>rollup.rs\<close>), and sending a proof
  (\<^verbatim>\<open>Prover::rollup\<close>). The JSON-RPC library, the ABI encoding, the process that sends transactions and Keccak are
  parameters; what they answer, call by call, is an argument.
\<close>

section \<open>Conversions\<close>

definition convert_element_to_h256 :: "element \<Rightarrow> CryptoHash" where
  "convert_element_to_h256 e = hash_of_bytes (to_be_bytes e)"

definition convert_fr_to_u256 :: "element \<Rightarrow> 256 word" where
  "convert_fr_to_u256 e = word_of_nat (be_val (rev (to_be_bytes e)))"

definition convert_h160_to_element :: "Address \<Rightarrow> element" where
  "convert_h160_to_element a = from_be_bytes (replicate 12 0 @ address_bytes a)"

section \<open>Errors and retries\<close>

text \<open>The errors of the libraries, as far as the code distinguishes them.\<close>

datatype web3_Error = Transport | Web3Other
datatype contract_Error = Api web3_Error | InvalidOutputType string | ContractOther

datatype ContractsError =
    UnknownTransaction CryptoHash
  | Web3 web3_Error
  | Web3Contract contract_Error
  | Other string

fun is_network_failure :: "web3_Error \<Rightarrow> bool" where
  "is_network_failure Transport \<longleftrightarrow> True"
| "is_network_failure _ \<longleftrightarrow> False"

fun is_network_failure_contract :: "contract_Error \<Rightarrow> bool" where
  "is_network_failure_contract (Api Transport) \<longleftrightarrow> True"
| "is_network_failure_contract _ \<longleftrightarrow> False"

definition DELAYS :: "nat list" where
  "DELAYS = [1, 5, 10]"

text \<open>
  The loop over the delays; \<open>f i\<close> is what the \<open>i\<close>-th call answers. The first component is the time that is slept,
  in seconds; behind the last delay the code is unreachable.
\<close>

fun retry_loop :: "('e \<Rightarrow> bool) \<Rightarrow> (nat \<Rightarrow> ('e, 'a) outcome) \<Rightarrow> nat \<Rightarrow> nat list \<Rightarrow> nat \<times> ('e, 'a) outcome" where
  "retry_loop failed f i [] = (0, Panic)"
| "retry_loop failed f i (delay # delays) =
     (case f i of
        Err e \<Rightarrow>
          if failed e then
            if i = length DELAYS then (0, Err e)
            else (let (slept, r) = retry_loop failed f (Suc i) delays in (delay + slept, r))
          else (0, Err e)
      | r \<Rightarrow> (0, r))"

definition retry_on_network_failure :: "('e \<Rightarrow> bool) \<Rightarrow> (nat \<Rightarrow> ('e, 'a) outcome) \<Rightarrow> nat \<times> ('e, 'a) outcome" where
  "retry_on_network_failure failed f = retry_loop failed f 0 (DELAYS @ [0])"

text \<open>A query of a contract, with the retries, as a value of the errors of the package.\<close>

definition client_query :: "(nat \<Rightarrow> (contract_Error, 'r) outcome) \<Rightarrow> (ContractsError, 'r) outcome" where
  "client_query f = omap_err Web3Contract (snd (retry_on_network_failure is_network_failure_contract f))"

section \<open>The client\<close>

record Client =
  minimum_gas_price :: "256 word option"
  use_latest_for_nonce :: bool

definition client_new :: "u64 option \<Rightarrow> Client" where
  "client_new minimum_gas_price_gwei =
     \<lparr>minimum_gas_price = map_option (\<lambda>gwei. ucast gwei * 1000000000) minimum_gas_price_gwei, use_latest_for_nonce = False\<rparr>"

text \<open>Doubling the price panics when it does not fit.\<close>

definition fast_gas_price :: "Client \<Rightarrow> (nat \<Rightarrow> (web3_Error, 256 word) outcome) \<Rightarrow> (web3_Error, 256 word) outcome" where
  "fast_gas_price c gas_price =
     obind (snd (retry_on_network_failure is_network_failure gas_price)) (\<lambda>price.
       if 2 ^ 256 \<le> unat price * 2 then Panic
       else
         (let fast = price * 2 in
          case minimum_gas_price c of
            Some least \<Rightarrow> if fast < least then Ok least else Ok fast
          | None \<Rightarrow> Ok fast))"

datatype BlockNumber = Latest | Pending

definition client_nonce ::
    "Client \<Rightarrow> (BlockNumber \<Rightarrow> nat \<Rightarrow> (web3_Error, 256 word) outcome) \<Rightarrow> (web3_Error, 256 word) outcome" where
  "client_nonce c get_nonce =
     snd (retry_on_network_failure is_network_failure (get_nonce (if use_latest_for_nonce c then Latest else Pending)))"

text \<open>
  Waiting for a confirmation: per tick, the answers for the transaction (missing, or known with the block that has it)
  and the time since the start in seconds. \<open>None\<close> is a wait that has not ended with the given ticks.
\<close>

fun wait_for_confirm ::
    "CryptoHash \<Rightarrow> ((nat \<Rightarrow> (web3_Error, u64 option option) outcome) \<times> nat) list \<Rightarrow> (ContractsError, u64) outcome option" where
  "wait_for_confirm txn [] = None"
| "wait_for_confirm txn ((answers, elapsed) # ticks) =
     (case omap_err Web3 (snd (retry_on_network_failure is_network_failure answers)) of
        Ok None \<Rightarrow> if 60 < elapsed then Some (Err (UnknownTransaction txn)) else wait_for_confirm txn ticks
      | Ok (Some None) \<Rightarrow> wait_for_confirm txn ticks
      | Ok (Some (Some block_number)) \<Rightarrow> Some (Ok block_number)
      | Err e \<Rightarrow> Some (Err e)
      | Panic \<Rightarrow> Some Panic)"

section \<open>Arguments of contract calls\<close>

text \<open>The tokens of the ABI that the calls build.\<close>

datatype Token =
    AddressToken Address
  | FixedBytes bytes
  | BytesToken bytes
  | Uint "256 word"
  | ArrayToken "Token list"
  | FixedArray "Token list"
  | TupleToken "Token list"

definition h256_token :: "CryptoHash \<Rightarrow> Token" where
  "h256_token h = FixedBytes (hash_bytes32 h)"

definition element_token :: "element \<Rightarrow> Token" where
  "element_token e = h256_token (convert_element_to_h256 e)"

text \<open>
  Sending a call: the ABI knows the function and encodes its arguments, a process is run with the address, the data and
  the key, and prints the hash of the transaction as JSON. Each step fails with a message.
\<close>

record call_api =
  encode_input :: "string \<Rightarrow> Token list \<Rightarrow> (string, bytes) outcome"
  cast_output :: "string list \<Rightarrow> (string, bool \<times> string \<times> string) outcome"
  transaction_hash :: "string \<Rightarrow> (string, string option) outcome"
  h256_parse :: "string \<Rightarrow> (string, CryptoHash) outcome"
  hex_encode :: "bytes \<Rightarrow> string"

definition client_call :: "call_api \<Rightarrow> string \<Rightarrow> bytes \<Rightarrow> string \<Rightarrow> Token list \<Rightarrow> (ContractsError, CryptoHash) outcome" where
  "client_call A contract_addr secret_bytes func params =
     obind (omap_err Other (encode_input A func params)) (\<lambda>calldata.
     obind (omap_err Other (cast_output A
       [''send'', contract_addr, ''0x'' @ hex_encode A calldata, ''--rpc-url'', ''https://rpc.tempo.xyz'',
        ''--private-key'', ''0x'' @ hex_encode A secret_bytes,
        ''--tempo.fee-token'', ''0x20c000000000000000000000b9537d11c60e8b50'', ''--json''])) (\<lambda>(success, stdout, stderr).
     if \<not> success then Err (Other (''cast send failed: '' @ stderr))
     else
       obind (omap_err Other (transaction_hash A stdout)) (\<lambda>tx_hash_str.
       case tx_hash_str of
         None \<Rightarrow> Err (Other ''No transactionHash in cast output'')
       | Some s \<Rightarrow> omap_err Other (h256_parse A s))))"

record RollupContract =
  rc_api :: call_api
  rc_contract :: string
  rc_signer :: bytes
  rc_domain_separator :: CryptoHash
  rc_address :: Address
  rc_block_height :: "u64 option"

definition at_height :: "RollupContract \<Rightarrow> u64 option \<Rightarrow> RollupContract" where
  "at_height c h = c\<lparr>rc_block_height := h\<rparr>"

definition contract_call :: "RollupContract \<Rightarrow> string \<Rightarrow> Token list \<Rightarrow> (ContractsError, CryptoHash) outcome" where
  "contract_call c func params = client_call (rc_api c) (rc_contract c) (rc_signer c) func params"

text \<open>The parts of a signature of 65 bytes; a shorter one panics.\<close>

definition split_signature :: "bytes \<Rightarrow> ('e, bytes \<times> bytes \<times> u8) outcome" where
  "split_signature sig =
     (if length sig < 65 then Panic
      else
        (let v = sig ! 64
         in Ok (take 32 sig, take 32 (drop 32 sig), if v < 27 then v + 27 else v)))"

definition sig_token :: "bytes \<Rightarrow> ('e, Token) outcome" where
  "sig_token sig =
     omap (\<lambda>(r, s, v). TupleToken [FixedBytes r, FixedBytes s, Uint (ucast v)]) (split_signature sig)"

fun sig_tokens :: "bytes list \<Rightarrow> ('e, Token list) outcome" where
  "sig_tokens [] = Ok []"
| "sig_tokens (s # ss) = obind (sig_token s) (\<lambda>t. omap ((#) t) (sig_tokens ss))"

definition AGG_INSTANCES :: nat where "AGG_INSTANCES = 12"
definition UTXO_N :: nat where "UTXO_N = 6"
definition CONTRACT_UTXO_INPUTS :: nat where "CONTRACT_UTXO_INPUTS = 3"

definition verify_block ::
    "RollupContract \<Rightarrow> bytes \<Rightarrow> element list \<Rightarrow> element \<Rightarrow> element \<Rightarrow> element list \<Rightarrow> CryptoHash \<Rightarrow> u64 \<Rightarrow> bytes list \<Rightarrow> u128
      \<Rightarrow> (ContractsError, CryptoHash) outcome" where
  "verify_block c proof agg_instances old_root new_root utxo_hashes other_hash h signatures gas_per_burn_call =
     (if length utxo_hashes \<noteq> UTXO_N * CONTRACT_UTXO_INPUTS then Panic
      else
        obind (sig_tokens signatures) (\<lambda>signatures.
        contract_call c ''verifyBlock2''
          [BytesToken proof, FixedArray (map element_token agg_instances), element_token old_root, element_token new_root,
           FixedArray (map element_token utxo_hashes), h256_token other_hash, Uint (ucast h), ArrayToken signatures,
           Uint (ucast gas_per_burn_call)]))"

definition contract_mint :: "RollupContract \<Rightarrow> bytes \<Rightarrow> element \<Rightarrow> element \<Rightarrow> element \<Rightarrow> (ContractsError, CryptoHash) outcome" where
  "contract_mint c proof cm value src =
     contract_call c ''mint'' [BytesToken proof, element_token cm, element_token value, element_token src]"

definition mint_with_authorization ::
    "RollupContract \<Rightarrow> bytes \<Rightarrow> element \<Rightarrow> element \<Rightarrow> element \<Rightarrow> Address \<Rightarrow> 256 word \<Rightarrow> 256 word \<Rightarrow> CryptoHash \<Rightarrow> bytes \<Rightarrow> bytes
      \<Rightarrow> (ContractsError, CryptoHash) outcome" where
  "mint_with_authorization c proof cm value src frm valid_after valid_before nonce signature_for_receive signature_for_mint =
     obind (split_signature signature_for_receive) (\<lambda>(r, s, v).
     obind (split_signature signature_for_mint) (\<lambda>(r2, s2, v2).
     contract_call c ''mintWithAuthorization''
       [BytesToken proof, element_token cm, element_token value, element_token src, AddressToken frm,
        Uint valid_after, Uint valid_before, h256_token nonce,
        Uint (ucast v), FixedBytes r, FixedBytes s, Uint (ucast v2), FixedBytes r2, FixedBytes s2]))"

definition contract_burn ::
    "RollupContract \<Rightarrow> Address \<Rightarrow> bytes \<Rightarrow> element \<Rightarrow> element \<Rightarrow> element \<Rightarrow> element \<Rightarrow> (ContractsError, CryptoHash) outcome" where
  "contract_burn c to proof nf value src sig =
     contract_call c ''burn''
       [AddressToken to, BytesToken proof, element_token nf, element_token value, element_token src, element_token sig]"

definition burn_to_address ::
    "RollupContract \<Rightarrow> element \<Rightarrow> element \<Rightarrow> bytes \<Rightarrow> element \<Rightarrow> element \<Rightarrow> element \<Rightarrow> element \<Rightarrow> (ContractsError, CryptoHash) outcome" where
  "burn_to_address c kind to proof nf value src sig =
     contract_call c ''burnToAddress''
       [element_token kind, element_token to, BytesToken proof, element_token nf, element_token value, element_token src,
        element_token sig]"

definition burn_to_router ::
    "RollupContract \<Rightarrow> element \<Rightarrow> element \<Rightarrow> bytes \<Rightarrow> element \<Rightarrow> element \<Rightarrow> element \<Rightarrow> element \<Rightarrow> Address \<Rightarrow> bytes \<Rightarrow> Address
      \<Rightarrow> (ContractsError, CryptoHash) outcome" where
  "burn_to_router c kind msg_hash proof nf value src sig router router_calldata return_address =
     contract_call c ''burnToRouter''
       [element_token kind, element_token msg_hash, BytesToken proof, element_token nf, element_token value,
        element_token src, element_token sig, AddressToken router, BytesToken router_calldata, AddressToken return_address]"

definition substitute_burn :: "RollupContract \<Rightarrow> element \<Rightarrow> element \<Rightarrow> (ContractsError, CryptoHash) outcome" where
  "substitute_burn c nf value =
     contract_call c ''substituteBurn'' [element_token nf, Uint (from_le_bytes (to_le_bytes value))]"

definition add_prover :: "RollupContract \<Rightarrow> Address \<Rightarrow> (ContractsError, CryptoHash) outcome" where
  "add_prover c new_prover_address = contract_call c ''addProver'' [AddressToken new_prover_address]"

definition set_validators :: "RollupContract \<Rightarrow> u64 \<Rightarrow> Address list \<Rightarrow> (ContractsError, CryptoHash) outcome" where
  "set_validators c first addresses =
     contract_call c ''setValidators'' [Uint (ucast first), ArrayToken (map AddressToken addresses)]"

definition set_root :: "RollupContract \<Rightarrow> element \<Rightarrow> (ContractsError, CryptoHash) outcome" where
  "set_root c new_root = contract_call c ''setRoot'' [element_token new_root]"

section \<open>Queries\<close>

text \<open>The answer of a contract to a function, its arguments and the block that is asked, call by call.\<close>

type_synonym 'r contract_view = "string \<Rightarrow> Token list \<Rightarrow> u64 option \<Rightarrow> nat \<Rightarrow> (contract_Error, 'r) outcome"

definition contract_query :: "'r contract_view \<Rightarrow> RollupContract \<Rightarrow> string \<Rightarrow> Token list \<Rightarrow> (ContractsError, 'r) outcome" where
  "contract_query view c func params = client_query (view func params (rc_block_height c))"

text \<open>A mint of value zero is no mint.\<close>

definition get_mint :: "256 word contract_view \<Rightarrow> RollupContract \<Rightarrow> element \<Rightarrow> (ContractsError, 256 word option) outcome" where
  "get_mint view c key =
     omap (\<lambda>mint. if mint = 0 then None else Some mint) (contract_query view c ''getMint'' [element_token key])"

definition has_burn :: "bool contract_view \<Rightarrow> RollupContract \<Rightarrow> element \<Rightarrow> (ContractsError, bool) outcome" where
  "has_burn view c key = contract_query view c ''hasBurn'' [element_token key]"

definition was_burn_substituted :: "bool contract_view \<Rightarrow> RollupContract \<Rightarrow> element \<Rightarrow> (ContractsError, bool) outcome" where
  "was_burn_substituted view c nf = contract_query view c ''wasBurnSubstituted'' [element_token nf]"

definition contract_block_height :: "u64 contract_view \<Rightarrow> RollupContract \<Rightarrow> (ContractsError, u64) outcome" where
  "contract_block_height view c = contract_query view c ''blockHeight'' []"

definition contract_root_hash :: "CryptoHash contract_view \<Rightarrow> RollupContract \<Rightarrow> (ContractsError, CryptoHash) outcome" where
  "contract_root_hash view c = contract_query view c ''currentRootHash'' []"

definition contract_root_hashes :: "CryptoHash list contract_view \<Rightarrow> RollupContract \<Rightarrow> (ContractsError, CryptoHash list) outcome" where
  "contract_root_hashes view c = contract_query view c ''getRootHashes'' []"

definition contract_block_hash :: "CryptoHash contract_view \<Rightarrow> RollupContract \<Rightarrow> (ContractsError, CryptoHash) outcome" where
  "contract_block_hash view c = contract_query view c ''blockHash'' []"

definition contract_usdc :: "Address contract_view \<Rightarrow> RollupContract \<Rightarrow> (ContractsError, Address) outcome" where
  "contract_usdc view c = contract_query view c ''usdc'' []"

definition get_validator_sets ::
    "ValidatorSet list contract_view \<Rightarrow> RollupContract \<Rightarrow> u64 \<Rightarrow> (ContractsError, ValidatorSet list) outcome" where
  "get_validator_sets view c frm = contract_query view c ''getValidatorSets'' [Uint (ucast frm)]"


section \<open>Tokens of validator sets and burns\<close>

record ContractBurn =
  cb_to :: CryptoHash
  cb_amount :: "256 word"
  cb_kind :: CryptoHash

definition burn_of_address :: "Address \<times> 256 word \<Rightarrow> ContractBurn" where
  "burn_of_address = (\<lambda>(to, amount). \<lparr>cb_to = ucast to, cb_amount = amount, cb_kind = 0\<rparr>)"

definition burn_into_token :: "ContractBurn \<Rightarrow> Token" where
  "burn_into_token b =
     TupleToken [FixedBytes (hash_bytes32 (cb_to b)), Uint (cb_amount b), FixedBytes (hash_bytes32 (cb_kind b))]"

text \<open>Reading a token of a basic type belongs to the library.\<close>

fun burn_from_token ::
    "(Token \<Rightarrow> (contract_Error, CryptoHash) outcome) \<Rightarrow> (Token \<Rightarrow> (contract_Error, 256 word) outcome) \<Rightarrow> Token
      \<Rightarrow> (contract_Error, ContractBurn) outcome" where
  "burn_from_token h256_from_token u256_from_token (TupleToken tokens) =
     (case tokens of
        [to, amount, kind] \<Rightarrow>
          obind (h256_from_token to) (\<lambda>to.
          obind (u256_from_token amount) (\<lambda>amount.
          obind (h256_from_token kind) (\<lambda>kind. Ok \<lparr>cb_to = to, cb_amount = amount, cb_kind = kind\<rparr>)))
      | _ \<Rightarrow> Err (InvalidOutputType ''expected tuple of length 3''))"
| "burn_from_token _ _ _ = Err (InvalidOutputType ''expected tuple'')"

definition validator_set_into_token :: "ValidatorSet \<Rightarrow> Token" where
  "validator_set_into_token v = TupleToken [ArrayToken (map AddressToken (vs_validators v)), Uint (valid_from v)]"

fun validator_set_from_token ::
    "(Token \<Rightarrow> (contract_Error, Address list) outcome) \<Rightarrow> (Token \<Rightarrow> (contract_Error, 256 word) outcome) \<Rightarrow> Token
      \<Rightarrow> (contract_Error, ValidatorSet) outcome" where
  "validator_set_from_token addresses_from_token u256_from_token (TupleToken tokens) =
     (case tokens of
        [validators, first] \<Rightarrow>
          obind (addresses_from_token validators) (\<lambda>validators.
          obind (u256_from_token first) (\<lambda>first. Ok \<lparr>vs_validators = validators, valid_from = first\<rparr>))
      | _ \<Rightarrow> Err (InvalidOutputType ''expected tuple of length 2''))"
| "validator_set_from_token _ _ _ = Err (InvalidOutputType ''expected tuple'')"

section \<open>The digest of an authorised mint\<close>

definition MINT_TYPE :: string where
  "MINT_TYPE = ''MintWithAuthorization(bytes32 commitment,bytes32 value,bytes32 source,address from,uint256 validAfter,uint256 validBefore,bytes32 nonce)''"

definition mint_data ::
    "(bytes \<Rightarrow> bytes) \<Rightarrow> element \<Rightarrow> 256 word \<Rightarrow> element \<Rightarrow> Address \<Rightarrow> 256 word \<Rightarrow> 256 word \<Rightarrow> CryptoHash \<Rightarrow> bytes" where
  "mint_data digest cm value src frm valid_after valid_before nonce =
     digest (map (\<lambda>c. word_of_nat (of_char c)) MINT_TYPE)
     @ hash_bytes32 (convert_element_to_h256 cm)
     @ be_bytes 32 (unat value)
     @ hash_bytes32 (convert_element_to_h256 src)
     @ hash_bytes32 (ucast frm)
     @ be_bytes 32 (unat valid_after)
     @ be_bytes 32 (unat valid_before)
     @ hash_bytes32 nonce"

definition signature_msg_digest_for_mint ::
    "(bytes \<Rightarrow> bytes) \<Rightarrow> CryptoHash \<Rightarrow> element \<Rightarrow> 256 word \<Rightarrow> element \<Rightarrow> Address \<Rightarrow> 256 word \<Rightarrow> 256 word \<Rightarrow> CryptoHash \<Rightarrow> bytes" where
  "signature_msg_digest_for_mint digest domain_separator cm value src frm valid_after valid_before nonce =
     digest ([0x19, 0x01] @ hash_bytes32 domain_separator
       @ digest (mint_data digest cm value src frm valid_after valid_before nonce))"

definition signature_for_mint ::
    "(bytes \<Rightarrow> bytes) \<Rightarrow> (bytes \<Rightarrow> 'sk \<Rightarrow> 'rs) \<Rightarrow> ('rs \<Rightarrow> nat \<times> bytes) \<Rightarrow> RollupContract \<Rightarrow> element \<Rightarrow> 256 word \<Rightarrow> element \<Rightarrow> Address
      \<Rightarrow> 256 word \<Rightarrow> 256 word \<Rightarrow> CryptoHash \<Rightarrow> 'sk \<Rightarrow> bytes" where
  "signature_for_mint digest sign_ecdsa_recoverable serialize_compact c cm value src frm valid_after valid_before nonce sk =
     (let (recovery_id, signature) = serialize_compact (sign_ecdsa_recoverable
            (signature_msg_digest_for_mint digest (rc_domain_separator c) cm value src frm valid_after valid_before nonce) sk)
      in take 64 signature @ [word_of_nat recovery_id])"

section \<open>Following the validator sets\<close>

definition MAX_CONSECUTIVE_TRANSPORT_ERRORS :: nat where
  "MAX_CONSECUTIVE_TRANSPORT_ERRORS = 5"

text \<open>
  An item of the stream of events: the data of the event or an error, what the attempts to listen again answer after an
  error of the transport, and what the contract answers for the validator sets from an index on.
\<close>

record stream_item =
  si_event :: "(web3_Error, bytes) outcome"
  si_listen :: "nat \<Rightarrow> (web3_Error, unit) outcome"
  si_sets :: "u64 \<Rightarrow> (ContractsError, ValidatorSet list) outcome"

text \<open>Listening again after an error, from the given number of consecutive errors; gives the number at the end.\<close>

function listen_again :: "(nat \<Rightarrow> (web3_Error, unit) outcome) \<Rightarrow> nat \<Rightarrow> nat \<Rightarrow> (ContractsError, nat) outcome" where
  "listen_again listen i errors =
     (case listen i of
        Ok _ \<Rightarrow> Ok errors
      | Err Transport \<Rightarrow>
          if errors + 1 > MAX_CONSECUTIVE_TRANSPORT_ERRORS then Err (Web3 Transport) else listen_again listen (Suc i) (errors + 1)
      | Err e \<Rightarrow> Err (Web3 e)
      | Panic \<Rightarrow> Panic)"
  by pat_completeness auto

termination
  by (relation "measure (\<lambda>(_, _, errors). Suc MAX_CONSECUTIVE_TRANSPORT_ERRORS - errors)") auto

declare listen_again.simps [simp del]

text \<open>
  One item. The index of the last known set wraps when no set is known; an event with too little data and an index that
  does not fit the machine panic.
\<close>

definition worker_item ::
    "stream_item \<Rightarrow> ValidatorSet list \<times> nat \<Rightarrow> (ContractsError, ValidatorSet list \<times> nat) outcome" where
  "worker_item item = (\<lambda>(sets, errors).
     case si_event item of
       Ok data \<Rightarrow>
         if length data < 64 \<or> 2 ^ 64 \<le> be_val (take 32 data) then Panic
         else
           (let index = be_val (take 32 data);
                current_last_index = word_of_nat (length sets) - 1 :: u64
            in if index > unat current_last_index
               then omap (\<lambda>new_validators. (sets @ new_validators, 0)) (si_sets item (current_last_index + 1))
               else Ok (sets, 0))
     | Err Transport \<Rightarrow>
         if errors + 1 > MAX_CONSECUTIVE_TRANSPORT_ERRORS then Err (Web3 Transport)
         else
           obind (listen_again (si_listen item) 0 (errors + 1)) (\<lambda>errors.
             omap (\<lambda>all_validators. (all_validators, errors)) (si_sets item 0))
     | Err e \<Rightarrow> Err (Web3 e)
     | Panic \<Rightarrow> Panic)"

definition validator_worker ::
    "stream_item list \<Rightarrow> ValidatorSet list \<times> nat \<Rightarrow> (ContractsError, ValidatorSet list \<times> nat) outcome" where
  "validator_worker = ofold worker_item"

text \<open>
  One round of the stream of events: the number of the current block and the logs of the blocks since the last round.
  The items that are yielded, and the block from which the next round continues.
\<close>

definition poll_events ::
    "(web3_Error, u64) outcome \<Rightarrow> (u64 \<Rightarrow> u64 \<Rightarrow> (web3_Error, 'log list) outcome) \<Rightarrow> u64 \<Rightarrow> (web3_Error, 'log) outcome list \<times> u64" where
  "poll_events block_number logs last_block =
     (case block_number of
        Ok current_block \<Rightarrow>
          if current_block \<le> last_block then ([], last_block)
          else
            (case logs last_block current_block of
               Ok ls \<Rightarrow> (map Ok ls, current_block + 1)
             | Err e \<Rightarrow> ([Err e], last_block)
             | Panic \<Rightarrow> ([Panic], last_block))
      | Err e \<Rightarrow> ([Err e], last_block)
      | Panic \<Rightarrow> ([Panic], last_block))"

section \<open>Sending a proof\<close>

text \<open>
  Waiting for the receipt of a proof: per round, whether there is a receipt, whether the transaction is known, and the
  time since the start in seconds. A transaction that is no longer known ends the wait. \<open>None\<close> is a wait that goes on.
\<close>

datatype SendError = SendContract ContractsError | SendWeb3 web3_Error | SendTimeout

fun wait_for_receipt ::
    "((web3_Error, bool) outcome \<times> (web3_Error, bool) outcome \<times> nat) list \<Rightarrow> (SendError, unit) outcome option" where
  "wait_for_receipt [] = None"
| "wait_for_receipt ((receipt, known, elapsed) # rounds) =
     (case omap_err SendWeb3 receipt of
        Ok True \<Rightarrow> Some (Ok ())
      | Ok False \<Rightarrow>
          (case omap_err SendWeb3 known of
             Ok False \<Rightarrow> Some (Ok ())
           | Ok True \<Rightarrow> if 5 * 60 < elapsed then Some (Err SendTimeout) else wait_for_receipt rounds
           | Err e \<Rightarrow> Some (Err e)
           | Panic \<Rightarrow> Some Panic)
      | Err e \<Rightarrow> Some (Err e)
      | Panic \<Rightarrow> Some Panic)"

definition prover_rollup ::
    "RollupContract \<Rightarrow> ((web3_Error, bool) outcome \<times> (web3_Error, bool) outcome \<times> nat) list \<Rightarrow> RollupInput
      \<Rightarrow> (SendError, CryptoHash) outcome option" where
  "prover_rollup c rounds input =
     (let p = ri_proof input in
      if length (rp_agg_instances p) \<noteq> AGG_INSTANCES then Some Panic
      else
        (case omap_err SendContract (verify_block c (rp_proof p) (rp_agg_instances p) (rp_old_root p) (rp_new_root p)
            (rp_utxo_hashes p) (ri_other_hash input) (ri_height input) (ri_signatures input) 1000000) of
           Ok tx \<Rightarrow> map_option (omap (\<lambda>_. tx)) (wait_for_receipt rounds)
         | Err e \<Rightarrow> Some (Err e)
         | Panic \<Rightarrow> Some Panic))"

end
