(* ===== verification/Contracts_Props.thy ===== *)
theory Contracts_Props
  imports Contracts
begin

text \<open>
  The properties of the client of the contract: how often a query is repeated, what a signed mint binds, which events the
  stream delivers, and that the validator sets that the node holds are those of the contract.
\<close>

section \<open>Retries\<close>

text \<open>
  A query is asked at most four times. The answer is the first one that is not a failure of the network, or the fourth;
  the waits add up to 16 seconds at most, as the comment of the function says.
\<close>

lemma retry_loop_spec:
  assumes "i + length ds = 4" "ds \<noteq> []"
  shows "\<exists>k. i \<le> k \<and> k \<le> 3 \<and> snd (retry_loop failed f i ds) = f k
      \<and> (\<forall>j. i \<le> j \<and> j < k \<longrightarrow> (\<exists>e. f j = Err e \<and> failed e))
      \<and> (k < 3 \<longrightarrow> \<not> (\<exists>e. f k = Err e \<and> failed e))
      \<and> fst (retry_loop failed f i ds) \<le> sum_list (butlast ds)"
  using assms
proof (induction ds arbitrary: i)
  case (Cons d ds)
  show ?case
  proof (cases "(\<exists>e. f i = Err e \<and> failed e) \<and> i \<noteq> 3")
    case True
    then have n: "Suc i + length ds = 4" "ds \<noteq> []" using Cons.prems by auto
    from Cons.IH [OF this] obtain k where
      k: "Suc i \<le> k" "k \<le> 3" "snd (retry_loop failed f (Suc i) ds) = f k" "\<forall>j. Suc i \<le> j \<and> j < k \<longrightarrow> (\<exists>e. f j = Err e \<and> failed e)"
        "k < 3 \<longrightarrow> \<not> (\<exists>e. f k = Err e \<and> failed e)" "fst (retry_loop failed f (Suc i) ds) \<le> sum_list (butlast ds)" by blast
    have "\<exists>e. f j = Err e \<and> failed e" if "i \<le> j" "j < k" for j
      using that k(4) True by (cases "j = i") auto
    moreover from True have "retry_loop failed f i (d # ds)
        = (d + fst (retry_loop failed f (Suc i) ds), snd (retry_loop failed f (Suc i) ds))"
      by (auto simp: DELAYS_def split: prod.split)
    ultimately show ?thesis using k n(2) by (intro exI [of _ k]) simp
  next
    case False
    moreover from this have "retry_loop failed f i (d # ds) = (0, f i)"
      by (auto simp: DELAYS_def split: outcome.split)
    moreover have "i \<le> 3" using Cons.prems by (cases ds) auto
    ultimately show ?thesis by (intro exI [of _ i]) auto
  qed
qed simp

theorem retry_bounded:
  "\<exists>k \<le> 3. snd (retry_on_network_failure failed f) = f k
     \<and> (\<forall>j < k. \<exists>e. f j = Err e \<and> failed e) \<and> (k < 3 \<longrightarrow> \<not> (\<exists>e. f k = Err e \<and> failed e))
     \<and> fst (retry_on_network_failure failed f) \<le> 16"
  using retry_loop_spec [of 0 "DELAYS @ [0]" failed f] unfolding retry_on_network_failure_def
  by (auto simp: DELAYS_def)

section \<open>Tokens and digests\<close>

lemma hash_bytes32_length [simp]: "length (hash_bytes32 h) = 32"
  by (simp add: hash_bytes32_def)

lemma hash_bytes32_inject [simp]: "hash_bytes32 a = hash_bytes32 b \<longleftrightarrow> a = b"
proof -
  have "be_val (hash_bytes32 h) = unat h" for h :: CryptoHash
  proof -
    have "unat h < 2 ^ LENGTH(256)" by (rule unsigned_less)
    then show ?thesis by (simp add: hash_bytes32_def be_val_be_bytes)
  qed
  then show ?thesis by (metis word_unat_eq_iff)
qed

lemma convert_element_to_h256_id [simp]: "convert_element_to_h256 e = e"
proof -
  have "unat e < 256 ^ 32" using unsigned_less [of e] by simp
  then show ?thesis by (simp add: convert_element_to_h256_def hash_of_bytes_def to_be_bytes_def be_val_be_bytes)
qed

text \<open>Tokens that are read back give the validator set and the burn, when the basic types are read back.\<close>

lemma validator_set_tokens:
  assumes "\<And>as. addresses_from_token (ArrayToken (map AddressToken as)) = Ok as" "\<And>n. u256_from_token (Uint n) = Ok n"
  shows "validator_set_from_token addresses_from_token u256_from_token (validator_set_into_token v) = Ok v"
  using assms by (simp add: validator_set_into_token_def)

lemma burn_tokens:
  assumes "\<And>h. h256_from_token (FixedBytes (hash_bytes32 h)) = Ok h" "\<And>n. u256_from_token (Uint n) = Ok n"
  shows "burn_from_token h256_from_token u256_from_token (burn_into_token b) = Ok b"
  using assms by (simp add: burn_into_token_def)

lemma ucast_address_inject: "(ucast a :: 256 word) = ucast b \<longleftrightarrow> a = (b :: Address)"
proof -
  have "unat (ucast x :: 256 word) = unat x" for x :: Address
  proof -
    have "unat x < 2 ^ LENGTH(160)" by (rule unsigned_less)
    then have "unat x < 2 ^ 256" by simp
    then show ?thesis by (simp add: unsigned_ucast_eq take_bit_nat_eq_self del: take_bit_numeral_numeral)
  qed
  then show ?thesis by (metis word_unat_eq_iff)
qed

lemma be_bytes_word_inject: "be_bytes 32 (unat (a :: 256 word)) = be_bytes 32 (unat b) \<longleftrightarrow> a = b"
  using hash_bytes32_inject [of a b] by (simp add: hash_bytes32_def)


text \<open>
  A signature for a mint binds all its arguments: equal digests belong to equal contracts and arguments, unless Keccak
  collides on the two inputs of the outer or of the inner hash.
\<close>

lemma eip712_binding:
  assumes "\<And>x. length (digest x) = 32"
    and "digest ([0x19, 0x01] @ hash_bytes32 ds @ digest x) = digest ([0x19, 0x01] @ hash_bytes32 ds' @ digest x')"
  shows "(ds = ds' \<and> x = x') \<or> (\<exists>y y'. y \<noteq> y' \<and> digest y = digest y'
    \<and> {y, y'} \<subseteq> {x, x', [0x19, 0x01] @ hash_bytes32 ds @ digest x, [0x19, 0x01] @ hash_bytes32 ds' @ digest x'})"
proof -
  let ?o = "\<lambda>ds x. [0x19, 0x01] @ hash_bytes32 ds @ digest x"
  consider "?o ds x \<noteq> ?o ds' x'" | "?o ds x = ?o ds' x'" "x \<noteq> x'" | "?o ds x = ?o ds' x'" "x = x'" by argo
  then show ?thesis
  proof cases
    case 1
    with assms(2) show ?thesis by (intro disjI2 exI [of _ "?o ds x"] exI [of _ "?o ds' x'"]) simp
  next
    case 2
    then have "digest x = digest x'" by simp
    with 2(2) show ?thesis by (intro disjI2 exI [of _ x] exI [of _ x']) simp
  next
    case 3
    then show ?thesis by (intro disjI1) simp
  qed
qed

theorem mint_digest_binding:
  fixes digest ds ds' cm cm' v v' src src' frm frm' va va' vb vb' nonce nonce'
  defines "x \<equiv> mint_data digest cm v src frm va vb nonce" and "x' \<equiv> mint_data digest cm' v' src' frm' va' vb' nonce'"
  assumes "\<And>x. length (digest x) = 32"
    and "signature_msg_digest_for_mint digest ds cm v src frm va vb nonce = signature_msg_digest_for_mint digest ds' cm' v' src' frm' va' vb' nonce'"
  shows "(ds = ds' \<and> cm = cm' \<and> v = v' \<and> src = src' \<and> frm = frm' \<and> va = va' \<and> vb = vb' \<and> nonce = nonce')
    \<or> (\<exists>y y'. y \<noteq> y' \<and> digest y = digest y'
        \<and> {y, y'} \<subseteq> {x, x', [0x19, 0x01] @ hash_bytes32 ds @ digest x, [0x19, 0x01] @ hash_bytes32 ds' @ digest x'})"
proof -
  have "cm = cm' \<and> v = v' \<and> src = src' \<and> frm = frm' \<and> va = va' \<and> vb = vb' \<and> nonce = nonce'" if "x = x'"
    using that by (simp add: x_def x'_def mint_data_def be_bytes_word_inject ucast_address_inject)
  with eip712_binding [where digest = digest, OF assms(3) assms(4) [unfolded signature_msg_digest_for_mint_def x_def [symmetric] x'_def [symmetric]]]
  show ?thesis by argo
qed

section \<open>Events\<close>

text \<open>Rounds of the stream, each with what the client answers for the current block and for the logs of a range.\<close>

fun poll_run ::
    "((web3_Error, u64) outcome \<times> (u64 \<Rightarrow> u64 \<Rightarrow> (web3_Error, 'log list) outcome)) list \<Rightarrow> u64 \<Rightarrow> (web3_Error, 'log) outcome list \<times> u64" where
  "poll_run [] last_block = ([], last_block)"
| "poll_run ((n, logs) # rounds) last_block =
     (let (items, next) = poll_events n logs last_block; (rest, end_block) = poll_run rounds next in (items @ rest, end_block))"

text \<open>
  The stream delivers the events of every block exactly once and in order, whatever rounds fail: up to the block from
  which it continues, nothing is left out and nothing repeated.
\<close>

theorem poll_run_exact:
  assumes "\<forall>(n, logs) \<in> set rounds. (\<forall>k. n = Ok k \<longrightarrow> k < - 1)
      \<and> (\<forall>a b ls. logs a b = Ok ls \<longrightarrow> ls = concat (map L [unat a..<Suc (unat b)]))"
  shows "unat l \<le> unat (snd (poll_run rounds l))
    \<and> [x. Ok x \<leftarrow> fst (poll_run rounds l)] = concat (map L [unat l..<unat (snd (poll_run rounds l))])"
  using assms
proof (induction rounds arbitrary: l)
  case (Cons r rounds)
  obtain n logs where r: "r = (n, logs)" by (cases r)
  obtain items m where p: "poll_events n logs l = (items, m)" by (cases "poll_events n logs l")
  have "unat l \<le> unat m \<and> [x. Ok x \<leftarrow> items] = concat (map L [unat l..<unat m])"
  proof (cases "\<exists>k ls. n = Ok k \<and> l < k \<and> logs l k = Ok ls")
    case True
    then obtain k ls where k: "n = Ok k" "l < k" "logs l k = Ok ls" by blast
    then have "k < - 1" "ls = concat (map L [unat l..<Suc (unat k)])" using Cons.prems r by auto
    moreover from \<open>k < - 1\<close> have "1 + k \<noteq> 0" by (auto simp: add_eq_0_iff)
    then have "unat (k + 1) = Suc (unat k)" by (simp add: unatSuc add.commute [of k])
    moreover have "items = map Ok ls" "m = k + 1" using p k by (auto simp: poll_events_def split: if_splits)
    moreover have "[x. Ok x \<leftarrow> map Ok ls] = ls" by (induction ls) simp_all
    moreover have "unat l \<le> Suc (unat k)" using k(2) by (simp add: word_less_nat_alt)
    ultimately show ?thesis by metis
  next
    case False
    then have "[x. Ok x \<leftarrow> items] = [] \<and> m = l" using p
      by (auto simp: poll_events_def split: outcome.splits if_splits)
    then show ?thesis by simp
  qed
  then have s: "unat l \<le> unat m" "[x. Ok x \<leftarrow> items] = concat (map L [unat l..<unat m])" by simp_all
  have ih: "unat m \<le> unat (snd (poll_run rounds m))
      \<and> [x. Ok x \<leftarrow> fst (poll_run rounds m)] = concat (map L [unat m..<unat (snd (poll_run rounds m))])"
    using Cons.prems by (intro Cons.IH) simp
  then obtain d where d: "unat (snd (poll_run rounds m)) = unat m + d" using le_Suc_ex by blast
  have "poll_run (r # rounds) l = (items @ fst (poll_run rounds m), snd (poll_run rounds m))"
    by (simp add: r p case_prod_beta)
  then show ?case using s ih by (simp add: d upt_add_eq_append [of "unat l" "unat m" d])
qed simp


section \<open>Validator sets\<close>

text \<open>The sets of the contract over time: they are only added to, and stay countable in 64 bits.\<close>

definition sets_grow :: "(nat \<Rightarrow> ValidatorSet list) \<Rightarrow> bool" where
  "sets_grow S \<longleftrightarrow> (\<forall>i. prefix (S i) (S (Suc i)) \<and> length (S i) < 2 ^ 64)"

text \<open>
  What the contract answers, and which events it emits, while it has the sets \<open>cs\<close>. Every query may fail; a query from an index above the
  number of sets does, since the contract reverts.
\<close>

definition item_from :: "ValidatorSet list \<Rightarrow> stream_item \<Rightarrow> bool" where
  "item_from cs item \<longleftrightarrow>
     (\<forall>k. (\<exists>e. si_sets item k = Err e) \<or> unat k \<le> length cs \<and> si_sets item k = Ok (drop (unat k) cs))
     \<and> (\<forall>d. si_event item = Ok d \<longrightarrow> 64 \<le> length d \<and> be_val (take 32 d) < length cs)
     \<and> si_event item \<noteq> Panic \<and> (\<forall>i. si_listen item i \<noteq> Panic)"

lemma sets_grow_le: "sets_grow S \<Longrightarrow> i \<le> j \<Longrightarrow> prefix (S i) (S j)"
proof (induction j)
  case (Suc j)
  then show ?case by (cases "i = Suc j") (auto simp: sets_grow_def intro: prefix_order.trans)
qed simp

lemma listen_again_no_panic: "(\<forall>i. listen i \<noteq> Panic) \<Longrightarrow> listen_again listen i errors \<noteq> Panic"
proof (induction listen i errors rule: listen_again.induct)
  case (1 listen i errors)
  then show ?case
    by (subst listen_again.simps) (auto split: outcome.split web3_Error.split)
qed

lemma last_index:
  assumes "sets \<noteq> []" "length sets < 2 ^ 64"
  shows "unat (word_of_nat (length sets) - 1 :: u64) = length sets - 1"
    "unat (word_of_nat (length sets) - 1 + 1 :: u64) = length sets"
proof -
  have "(word_of_nat (length sets) :: u64) \<noteq> 0" using assms by (simp add: word_of_nat_eq_0_iff take_bit_nat_eq_self dvd_imp_le nat_dvd_not_less)
  then show "unat (word_of_nat (length sets) - 1 :: u64) = length sets - 1"
    using assms by (simp add: unat_minus_one unsigned_of_nat take_bit_nat_eq_self)
  show "unat (word_of_nat (length sets) - 1 + 1 :: u64) = length sets"
    using assms by (simp add: unsigned_of_nat take_bit_nat_eq_self)
qed

lemma worker_item_prefix:
  assumes "item_from cs item" "prefix sets cs" "sets \<noteq> []" "length cs < 2 ^ 64"
  shows "worker_item item (sets, errors) \<noteq> Panic"
    "worker_item item (sets, errors) = Ok (sets', errors') \<Longrightarrow> prefix sets sets' \<and> prefix sets' cs
      \<and> (\<forall>d. si_event item = Ok d \<longrightarrow> be_val (take 32 d) < length sets')"
    "si_event item = Ok d \<Longrightarrow> \<forall>k. unat k \<le> length cs \<longrightarrow> is_Ok (si_sets item k) \<Longrightarrow> \<exists>sets'. worker_item item (sets, errors) = Ok (sets', 0)"
proof -
  obtain rest where cs: "cs = sets @ rest" using assms(2) by (auto simp: prefix_def)
  have n: "length sets < 2 ^ 64" using assms(4) cs by simp
  note i = last_index [OF assms(3) n]
  let ?i = "word_of_nat (length sets) - 1 :: u64"
  have s: "(\<exists>e. si_sets item (?i + 1) = Err e) \<or> si_sets item (?i + 1) = Ok rest"
    using assms(1) [unfolded item_from_def, THEN conjunct1, THEN spec, of "?i + 1"] unfolding i(2) cs by auto
  have all: "(\<exists>e. si_sets item 0 = Err e) \<or> si_sets item 0 = Ok cs"
    using assms(1) [unfolded item_from_def, THEN conjunct1, THEN spec, of 0] by auto
  have *: "worker_item item (sets, errors) =
      (if be_val (take 32 d) < length sets then Ok (sets, 0) else omap (\<lambda>new. (sets @ new, 0)) (si_sets item (?i + 1)))"
    if d: "si_event item = Ok d" for d
  proof -
    have e: "64 \<le> length d" "be_val (take 32 d) < length cs" using assms(1) d by (auto simp: item_from_def)
    have g: "\<not> (length d < 64 \<or> 2 ^ 64 \<le> be_val (take 32 d))" using e assms(4) by linarith
    have c: "unat ?i < be_val (take 32 d) \<longleftrightarrow> \<not> be_val (take 32 d) < length sets"
      using assms(3) unfolding i(1) by (cases sets) auto
    show ?thesis by (simp only: worker_item_def d outcome.case prod.case g if_False Let_def c split: if_split) simp
  qed
  show "\<exists>sets'. worker_item item (sets, errors) = Ok (sets', 0)"
    if "si_event item = Ok d" "\<forall>k. unat k \<le> length cs \<longrightarrow> is_Ok (si_sets item k)"
  proof -
    have "is_Ok (si_sets item (?i + 1))" using that(2) [rule_format, of "?i + 1"] unfolding i(2) by (simp add: cs)
    then show ?thesis using * [OF that(1)] by (auto simp: is_Ok_iff)
  qed
  show "worker_item item (sets, errors) \<noteq> Panic"
  proof (cases "si_event item")
    case (Err e)
    with listen_again_no_panic [of "si_listen item" 0 "errors + 1"] assms(1) all show ?thesis
      by (cases e) (auto simp: worker_item_def item_from_def obind_eq_Panic)
  next
    case (Ok d)
    with * [OF Ok] s show ?thesis by auto
  qed (use assms(1) in \<open>auto simp: item_from_def\<close>)
  show "prefix sets sets' \<and> prefix sets' cs \<and> (\<forall>d. si_event item = Ok d \<longrightarrow> be_val (take 32 d) < length sets')"
    if w: "worker_item item (sets, errors) = Ok (sets', errors')"
  proof (cases "si_event item")
    case (Ok d)
    have "be_val (take 32 d) < length cs" using assms(1) Ok by (auto simp: item_from_def)
    with * [OF Ok] w s Ok show ?thesis by (auto simp: cs split: if_splits)
  next
    case (Err e)
    with w all show ?thesis by (cases e) (auto simp: worker_item_def outcome_simps cs split: if_splits)
  qed (use w in \<open>simp add: worker_item_def\<close>)
qed

lemma validator_worker_prefix:
  assumes "sets_grow S" "\<forall>i < length items. item_from (S (n + i)) (items ! i)" "prefix sets (S n)" "sets \<noteq> []"
  shows "validator_worker items (sets, errors) \<noteq> Panic"
    "validator_worker items (sets, errors) = Ok (sets', errors') \<Longrightarrow> prefix sets sets' \<and> prefix sets' (S (n + length items))
      \<and> (\<forall>i < length items. \<forall>d. si_event (items ! i) = Ok d \<longrightarrow> be_val (take 32 d) < length sets')"
    "\<forall>i < length items. (\<exists>d. si_event (items ! i) = Ok d) \<and> (\<forall>k. unat k \<le> length (S (n + i)) \<longrightarrow> is_Ok (si_sets (items ! i) k)) \<Longrightarrow>
      \<exists>r. validator_worker items (sets, errors) = Ok r"
  using assms unfolding validator_worker_def
proof (induction items arbitrary: n sets errors)
  case Nil
  { case 1 then show ?case by simp next case 2 then show ?case by simp next case 3 then show ?case by simp }
next
  case (Cons item items)
  have size: "length (S n) < 2 ^ 64" and grow: "prefix (S n) (S (Suc n))" if "sets_grow S" for n using that by (auto simp: sets_grow_def)
  have rest: "\<forall>i < length items. item_from (S (Suc n + i)) (items ! i)" "item_from (S n) item"
    if "\<forall>i < length (item # items). item_from (S (n + i)) ((item # items) ! i)" for n
    using that by (auto simp: nth_Cons split: nat.splits)
  {
    case 1
    note w = worker_item_prefix [OF rest(2) [OF 1(2)] 1(3,4) size [OF 1(1)], where errors = errors]
    show ?case
    proof (cases "worker_item item (sets, errors)")
      case (Ok r)
      obtain s e where r: "r = (s, e)" by (cases r)
      with Ok w(2) have "prefix sets s" "prefix s (S n)" by auto
      then have "prefix s (S (Suc n))" "s \<noteq> []" using grow [OF 1(1)] 1(4) by (auto intro: prefix_order.trans)
      from Cons.IH(1) [OF 1(1) rest(1) [OF 1(2)] this, of e] show ?thesis by (simp add: Ok r)
    qed (use w(1) in simp_all)
  next
    case 2
    note w = worker_item_prefix [OF rest(2) [OF 2(3)] 2(4,5) size [OF 2(2)], where errors = errors]
    from 2(1) obtain s e where s: "worker_item item (sets, errors) = Ok (s, e)" "ofold worker_item items (s, e) = Ok (sets', errors')"
      by (auto simp: outcome_simps)
    from w(2) [OF s(1)] have p: "prefix sets s" "prefix s (S n)" "\<forall>d. si_event item = Ok d \<longrightarrow> be_val (take 32 d) < length s" by auto
    then have "prefix s (S (Suc n))" "s \<noteq> []" using grow [OF 2(2)] 2(5) by (auto intro: prefix_order.trans)
    from Cons.IH(2) [OF s(2) 2(2) rest(1) [OF 2(3)] this]
    have q: "prefix s sets'" "prefix sets' (S (Suc n + length items))"
      "\<forall>i < length items. \<forall>d. si_event (items ! i) = Ok d \<longrightarrow> be_val (take 32 d) < length sets'" by auto
    have "be_val (take 32 d) < length sets'" if "si_event item = Ok d" for d
      using p(3) that prefix_length_le [OF q(1)] by fastforce
    then show ?case using p(1) q by (auto simp: nth_Cons intro: prefix_order.trans split: nat.splits)
  next
    case 3
    note w = worker_item_prefix [OF rest(2) [OF 3(3)] 3(4,5) size [OF 3(2)], where errors = errors]
    obtain d where d: "si_event item = Ok d" "\<forall>k. unat k \<le> length (S n) \<longrightarrow> is_Ok (si_sets item k)" using 3(1) by fastforce
    have later: "\<forall>i < length items. (\<exists>d. si_event (items ! i) = Ok d)
        \<and> (\<forall>k. unat k \<le> length (S (Suc n + i)) \<longrightarrow> is_Ok (si_sets (items ! i) k))"
      using 3(1) by (auto simp: nth_Cons split: nat.splits)
    from w(3) [OF d] obtain s where s: "worker_item item (sets, errors) = Ok (s, 0)" by blast
    from w(2) [OF s] have "prefix sets s" "prefix s (S n)" by auto
    then have "prefix s (S (Suc n))" "s \<noteq> []" using grow [OF 3(2)] 3(5) by (auto intro: prefix_order.trans)
    from Cons.IH(3) [OF later 3(2) rest(1) [OF 3(3)] this, of 0] show ?case by (simp add: s)
  }
qed

text \<open>Sets that are missing do not matter for the heights before they apply.\<close>

lemma validators_for_height_prefix:
  assumes "prefix sets cs" "\<forall>v \<in> set cs. unat (valid_from v) < 2 ^ 64"
    and "\<forall>v \<in> set (drop (length sets) cs). unat h < unat (valid_from v)"
  shows "validators_for_height sets h = validators_for_height cs h"
proof -
  obtain rest where cs: "cs = sets @ rest" using assms(1) by (auto simp: prefix_def)
  have "filter (\<lambda>v. unat (valid_from v) \<le> unat h) rest = []"
    using assms(3) by (auto simp: cs filter_empty_conv)
  moreover have "\<not> list_ex (\<lambda>v. 2 ^ 64 \<le> unat (valid_from v)) cs" "\<not> list_ex (\<lambda>v. 2 ^ 64 \<le> unat (valid_from v)) sets"
    using assms(2) unfolding cs list_ex_iff by (auto simp flip: not_less)
  ultimately show ?thesis by (simp only: validators_for_height_def if_False) (simp add: cs)
qed

text \<open>
  C34: the validator sets of a node. While the contract only adds sets, and whichever queries fail, a node that has loaded at
  least one set never panics in following them; as long as it has not stopped with an error, the sets it holds are a prefix of
  those of the contract and contain every set whose event it has seen, reconnections included; and for every height before the
  sets that it does not know yet apply, it finds the validators of the contract. When neither the events nor the queries that the
  contract can answer fail, it does not stop.
\<close>

theorem validator_worker_tracks:
  assumes grow: "sets_grow S" and items: "\<forall>i < length items. item_from (S i) (items ! i)"
    and start: "prefix sets (S 0)" "sets \<noteq> []"
  shows "validator_worker items (sets, errors) \<noteq> Panic
    \<and> ((\<forall>i < length items. (\<exists>d. si_event (items ! i) = Ok d) \<and> (\<forall>k. unat k \<le> length (S i) \<longrightarrow> is_Ok (si_sets (items ! i) k)))
        \<longrightarrow> (\<exists>r. validator_worker items (sets, errors) = Ok r))
    \<and> (\<forall>sets' errors'. validator_worker items (sets, errors) = Ok (sets', errors') \<longrightarrow>
      prefix sets' (S (length items))
      \<and> (\<forall>i < length items. \<forall>d. si_event (items ! i) = Ok d \<longrightarrow> be_val (take 32 d) < length sets')
      \<and> (\<forall>h. (\<forall>v \<in> set (S (length items)). unat (valid_from v) < 2 ^ 64)
          \<and> (\<forall>v \<in> set (drop (length sets') (S (length items))). unat h < unat (valid_from v))
          \<longrightarrow> validators_for_height sets' h = (validators_for_height (S (length items)) h :: (NodeError, Address list) outcome)))"
proof -
  have i: "\<forall>i < length items. item_from (S (0 + i)) (items ! i)" using items by simp
  note w = validator_worker_prefix [OF grow i start, where errors = errors]
  from w(1,3) show ?thesis
    by (intro conjI) (simp, simp, auto dest: w(2) intro!: validators_for_height_prefix)
qed

text \<open>A contract that has a second set, an event for it, a lost connection, and a query that fails after another event.\<close>

definition two_sets :: "ValidatorSet list" where
  "two_sets = [\<lparr>vs_validators = [1], valid_from = 0\<rparr>, \<lparr>vs_validators = [1, 2], valid_from = 7\<rparr>]"

definition added_event :: stream_item where
  "added_event = \<lparr>si_event = Ok (be_bytes 32 1 @ be_bytes 32 7), si_listen = \<lambda>_. Ok (), 
     si_sets = \<lambda>k. if length two_sets < unat k then Err (Web3Contract ContractOther) else Ok (drop (unat k) two_sets)\<rparr>"

theorem validator_worker_tracks_witness:
  "validator_worker [added_event, added_event\<lparr>si_event := Err Transport\<rparr>, added_event\<lparr>si_sets := \<lambda>_. Err (Web3 Transport)\<rparr>]
     (take 1 two_sets, 0) = Ok (two_sets, 0)
   \<and> validators_for_height two_sets 8 = (Ok [1, 2] :: (NodeError, Address list) outcome)
   \<and> prefix two_sets two_sets"
proof -
  let ?items = "[added_event, added_event\<lparr>si_event := Err Transport\<rparr>, added_event\<lparr>si_sets := \<lambda>_. Err (Web3 Transport)\<rparr>]"
  have "sets_grow (\<lambda>_. two_sets)" by (simp add: sets_grow_def two_sets_def)
  moreover have "\<forall>i < length ?items. item_from two_sets (?items ! i)"
    by (auto simp: item_from_def added_event_def be_val_be_bytes two_sets_def less_Suc_eq)
  moreover have "prefix (take 1 two_sets) two_sets" "take 1 two_sets \<noteq> []" by (simp_all add: two_sets_def)
  moreover have r: "validator_worker ?items (take 1 two_sets, 0) = Ok (two_sets, 0)"
    by (simp add: validator_worker_def worker_item_def added_event_def two_sets_def be_val_be_bytes Let_def
        MAX_CONSECUTIVE_TRANSPORT_ERRORS_def listen_again.simps)
  ultimately have "prefix two_sets two_sets"
    using validator_worker_tracks [of "\<lambda>_. two_sets" ?items "take 1 two_sets" 0] by blast
  then show ?thesis using r by (simp add: validators_for_height_def two_sets_def)
qed

end
