(* ===== verification/Rollup_Contract.thy ===== *)
theory Rollup_Contract
  imports Contracts_Props
begin

text \<open>
  The roll-up contract (\<^verbatim>\<open>src/rollup/RollupV1.sol\<close> to \<^verbatim>\<open>RollupV6.sol\<close>, as the sixth version inherits them): the ring of
  recent roots, validator sets, mints, burns and their substitution, and the verification of a block. A revert is an
  error, which leaves the state of the caller unchanged. The token with the whitelisted routers, the verifiers of proofs, Keccak
  and the recovery of signers are parameters; calls of a router back into the contract are not modelled.
\<close>

section \<open>State\<close>

record BurnEntry =
  burn_to :: Address
  burn_amount :: "256 word"

record RouterEntry =
  router_to :: Address
  router_calldata :: bytes
  router_amount :: "256 word"
  return_address :: Address

datatype contract_event =
    Burned CryptoHash bool bool
  | BurnAdded CryptoHash "256 word"
  | MintAdded CryptoHash "256 word"
  | Minted CryptoHash "256 word"
  | BlockVerified "256 word" CryptoHash
  | ValidatorSetAdded nat "256 word"

record contract_state =
  root_hashes :: "CryptoHash list"
  next_root_hash_index :: nat
  block_hash_of :: CryptoHash
  block_height_of :: "256 word"
  provers :: "Address \<Rightarrow> bool"
  contract_owner :: Address
  mints :: "CryptoHash \<Rightarrow> 256 word"
  burns :: "CryptoHash \<Rightarrow> BurnEntry"
  burns_kind :: "CryptoHash \<Rightarrow> 256 word"
  burns_to_router :: "CryptoHash \<Rightarrow> RouterEntry"
  router_whitelist :: "Address \<Rightarrow> bool"
  substituted_burns :: "CryptoHash \<Rightarrow> bool"
  rolled_up_leafs :: "CryptoHash \<Rightarrow> bool"
  chain_sets :: "ValidatorSet list"
  validator_set_index :: nat
  gas_per_router_call :: "256 word"
  events :: "contract_event list"

text \<open>
  The world around the contract. A transfer that reverts is \<open>None\<close>; otherwise it gives the new state of the token and
  the boolean that the token returns, which this version of the contract ignores.
\<close>

record 'u chain_env =
  self_address :: Address
  transfer_from :: "Address \<Rightarrow> Address \<Rightarrow> 256 word \<Rightarrow> 'u \<Rightarrow> ('u \<times> bool) option"
  transfer :: "Address \<Rightarrow> 256 word \<Rightarrow> 'u \<Rightarrow> ('u \<times> bool) option"
  approve :: "Address \<Rightarrow> 256 word \<Rightarrow> 'u \<Rightarrow> ('u \<times> bool) option"
  is_blacklisted :: "Address \<Rightarrow> 'u \<Rightarrow> bool"
  router_call :: "Address \<Rightarrow> bytes \<Rightarrow> 256 word \<Rightarrow> 'u \<Rightarrow> 'u option"
  receive_with_authorization ::
    "Address \<Rightarrow> Address \<Rightarrow> 256 word \<Rightarrow> 256 word \<Rightarrow> 256 word \<Rightarrow> CryptoHash \<Rightarrow> u8 \<Rightarrow> bytes \<Rightarrow> bytes \<Rightarrow> 'u \<Rightarrow> 'u option"
  domain_separator :: CryptoHash
  has_code :: "Address \<Rightarrow> bool"
  mint_verify :: "bytes \<Rightarrow> CryptoHash list \<Rightarrow> bool"
  burn_verify :: "bytes \<Rightarrow> CryptoHash list \<Rightarrow> bool"
  burn_verify_v2 :: "bytes \<Rightarrow> CryptoHash list \<Rightarrow> bool"
  aggregate_verify :: "bytes \<Rightarrow> CryptoHash list \<Rightarrow> CryptoHash \<Rightarrow> CryptoHash \<Rightarrow> CryptoHash list \<Rightarrow> bool"
  chain_keccak :: "bytes \<Rightarrow> bytes"
  recover :: "bytes \<Rightarrow> u8 \<Rightarrow> bytes \<Rightarrow> bytes \<Rightarrow> Address option"

type_synonym 'u chain = "contract_state \<times> 'u"
type_synonym ('u, 'a) chain_op = "'u chain \<Rightarrow> (string, 'a \<times> 'u chain) outcome"

definition require :: "bool \<Rightarrow> string \<Rightarrow> (string, unit) outcome" where
  "require p msg = (if p then Ok () else Err msg)"

definition reverting :: "string \<Rightarrow> 'a option \<Rightarrow> (string, 'a) outcome" where
  "reverting msg r = (case r of Some x \<Rightarrow> Ok x | None \<Rightarrow> Err msg)"

definition emit :: "contract_event \<Rightarrow> contract_state \<Rightarrow> contract_state" where
  "emit e s = s\<lparr>events := events s @ [e]\<rparr>"

section \<open>Roots\<close>

definition add_root_hash :: "CryptoHash \<Rightarrow> contract_state \<Rightarrow> contract_state" where
  "add_root_hash r s =
     s\<lparr>root_hashes := (root_hashes s)[next_root_hash_index s := r], next_root_hash_index := (next_root_hash_index s + 1) mod 64\<rparr>"

definition current_root_hash :: "contract_state \<Rightarrow> CryptoHash" where
  "current_root_hash s = root_hashes s ! (if 0 < next_root_hash_index s then next_root_hash_index s - 1 else 63)"

text \<open>Since the fourth version, the zero of a padding transaction counts as a known root.\<close>

definition contains_root_hashes :: "contract_state \<Rightarrow> CryptoHash list \<Rightarrow> bool" where
  "contains_root_hashes s hs \<longleftrightarrow> list_all (\<lambda>h. list_ex (\<lambda>r. h = r \<or> h = 0) (root_hashes s)) hs"

section \<open>Validators\<close>

definition set_validators_chain :: "256 word \<Rightarrow> Address list \<Rightarrow> contract_state \<Rightarrow> (string, contract_state) outcome" where
  "set_validators_chain first validators s =
     obind (require (chain_sets s = [] \<or> valid_from (last (chain_sets s)) < first)
       ''New validator set must have a validFrom greater than the last set'') (\<lambda>_.
     obind (require (distinct validators) ''Validator already exists'') (\<lambda>_.
     Ok (emit (ValidatorSetAdded (length (chain_sets s)) first)
       (s\<lparr>chain_sets := chain_sets s @ [\<lparr>vs_validators = validators, valid_from = first\<rparr>]\<rparr>))))"

definition chain_validator_sets :: "nat \<Rightarrow> contract_state \<Rightarrow> (string, ValidatorSet list) outcome" where
  "chain_validator_sets frm s = (if length (chain_sets s) < frm then Err ''underflow'' else Ok (drop frm (chain_sets s)))"

text \<open>The loop over the sets behind the current one, up to the first that applies later.\<close>

fun advance_index :: "256 word \<Rightarrow> nat \<Rightarrow> ValidatorSet list \<Rightarrow> nat" where
  "advance_index h i [] = i"
| "advance_index h i (v # vs) = (if h < valid_from v then i else advance_index h (Suc i) vs)"

definition update_validator_set_index :: "256 word \<Rightarrow> contract_state \<Rightarrow> contract_state" where
  "update_validator_set_index h s =
     s\<lparr>validator_set_index := advance_index h (validator_set_index s) (drop (Suc (validator_set_index s)) (chain_sets s))\<rparr>"

definition get_validators :: "contract_state \<Rightarrow> Address list" where
  "get_validators s =
     (if validator_set_index s < length (chain_sets s) then vs_validators (chain_sets s ! validator_set_index s) else [])"

section \<open>Executing burns\<close>

definition execute_burn_to_address :: "'u chain_env \<Rightarrow> CryptoHash \<Rightarrow> 256 word \<Rightarrow> ('u, bool) chain_op" where
  "execute_burn_to_address C nf value = (\<lambda>(s, u).
     let b = burns s nf in
     if burn_amount b = 0 then Ok (False, s, u)
     else
       obind (require (burn_amount b = value) ''RollupV6: Invalid burn amount'') (\<lambda>_.
       case transfer C (burn_to b) value u of
         Some (u', _) \<Rightarrow> Ok (True, s, u')
       | None \<Rightarrow> Ok (False, s, u)))"

definition execute_burn_to_router :: "'u chain_env \<Rightarrow> CryptoHash \<Rightarrow> 256 word \<Rightarrow> ('u, bool) chain_op" where
  "execute_burn_to_router C nf value = (\<lambda>(s, u).
     let b = burns_to_router s nf in
     obind (require (router_amount b = value) ''RollupV6: Invalid burn amount'') (\<lambda>_.
     obind (reverting ''approve'' (approve C (router_to b) value u)) (\<lambda>(u, _).
     let called = (if router_whitelist s (router_to b) then router_call C (router_to b) (router_calldata b) (gas_per_router_call s) u
                   else None);
         u = (case called of Some u' \<Rightarrow> u' | None \<Rightarrow> u)
     in obind (reverting ''approve'' (approve C (router_to b) 0 u)) (\<lambda>(u, _).
        if called \<noteq> None then Ok (True, s, u)
        else if is_blacklisted C (return_address b) u then Ok (False, s, u)
        else obind (reverting ''transfer'' (transfer C (return_address b) (router_amount b) u)) (\<lambda>(u, _). Ok (True, s, u))))))"

text \<open>Whether the burn was found and whether it was paid.\<close>

definition execute_burn :: "'u chain_env \<Rightarrow> CryptoHash \<Rightarrow> 256 word \<Rightarrow> bool \<Rightarrow> ('u, bool \<times> bool) chain_op" where
  "execute_burn C mb value substitute = (\<lambda>(s, u).
     let found = \<not> (burns_kind s mb = 0 \<and> burn_amount (burns s mb) = 0) in
     obind (if burns_kind s mb = 0 then
              if found then execute_burn_to_address C mb value (s, u) else Ok (False, s, u)
            else if burns_kind s mb = 1 then execute_burn_to_router C mb value (s, u)
            else Ok (False, s, u)) (\<lambda>(success, s, u).
     Ok ((found, success), emit (Burned mb substitute success) s, u)))"

section \<open>Blocks\<close>

definition verify_txn :: "'u chain_env \<Rightarrow> CryptoHash \<Rightarrow> 256 word \<Rightarrow> 'u chain \<Rightarrow> (string, 'u chain) outcome" where
  "verify_txn C mb value = (\<lambda>(s, u).
     if value = 0 then Ok (s, u)
     else
       let s = s\<lparr>rolled_up_leafs := (rolled_up_leafs s)(mb := True)\<rparr> in
       if mints s mb \<noteq> 0 then
         obind (require (mints s mb = value) ''RollupV6: Invalid mint amount'') (\<lambda>_. Ok (emit (Minted mb (mints s mb)) s, u))
       else
         obind (execute_burn C mb value False (s, u)) (\<lambda>((found, _), s, u).
         obind (require found ''RollupV6: Burn was not found'') (\<lambda>_. Ok (s, u))))"

text \<open>The six transactions, three hashes each: root, hash of the mint or burn, value.\<close>

fun verify_txns :: "'u chain_env \<Rightarrow> CryptoHash list \<Rightarrow> 'u chain \<Rightarrow> (string, 'u chain) outcome" where
  "verify_txns C (r # mb # value # hs) su = obind (verify_txn C mb value su) (verify_txns C hs)"
| "verify_txns C _ su = Ok su"

fun txn_roots :: "CryptoHash list \<Rightarrow> CryptoHash list" where
  "txn_roots (r # mb # value # hs) = r # txn_roots hs"
| "txn_roots _ = []"

text \<open>Every signer is a validator, and the signers strictly increase.\<close>

fun check_signers ::
    "'u chain_env \<Rightarrow> bytes \<Rightarrow> Address list \<Rightarrow> Address \<Rightarrow> (bytes \<times> bytes \<times> u8) list \<Rightarrow> (string, unit) outcome" where
  "check_signers C msg validators previous [] = Ok ()"
| "check_signers C msg validators previous ((r, s, v) # sigs) =
     obind (reverting ''ECDSA'' (recover C msg v r s)) (\<lambda>signer.
     obind (require (signer \<in> set validators) ''Signer is not a validator'') (\<lambda>_.
     obind (require (previous < signer) ''Signers are not sorted'') (\<lambda>_.
     check_signers C msg validators signer sigs)))"

definition proposal_hash :: "'u chain_env \<Rightarrow> CryptoHash \<Rightarrow> 256 word \<Rightarrow> CryptoHash \<Rightarrow> CryptoHash" where
  "proposal_hash C new_root h other =
     hash_of_bytes (chain_keccak C (hash_bytes32 new_root @ be_bytes 32 (unat h) @ hash_bytes32 other))"

definition signed_message :: "'u chain_env \<Rightarrow> 256 word \<Rightarrow> CryptoHash \<Rightarrow> bytes" where
  "signed_message C h proposal =
     (let accept_msg = hash_of_bytes (chain_keccak C (be_bytes 32 (unat (h + 1)) @ hash_bytes32 proposal))
      in chain_keccak C (be_bytes 8 5 @ [84, 101, 109, 112, 111] @ hash_bytes32 accept_msg))"

definition verify_block2 ::
    "'u chain_env \<Rightarrow> Address \<Rightarrow> bytes \<Rightarrow> CryptoHash list \<Rightarrow> CryptoHash \<Rightarrow> CryptoHash \<Rightarrow> CryptoHash list \<Rightarrow> CryptoHash \<Rightarrow> 256 word
      \<Rightarrow> (bytes \<times> bytes \<times> u8) list \<Rightarrow> 'u chain \<Rightarrow> (string, 'u chain) outcome" where
  "verify_block2 C sender aggr_proof aggr_instances old_root new_root utxo_hashes other h signatures = (\<lambda>(s, u).
     obind (require (provers s sender) ''You are not a prover'') (\<lambda>_.
     let s = update_validator_set_index h s; validators = get_validators s in
     obind (require (old_root = current_root_hash s) ''Old root does not match the current root'') (\<lambda>_.
     obind (verify_txns C utxo_hashes (s, u)) (\<lambda>(s, u).
     obind (require (contains_root_hashes s (txn_roots utxo_hashes)) ''Invalid recent roots'') (\<lambda>_.
     obind (require (length validators * 2 div 3 + 1 \<le> length signatures) ''Not enough signatures from validators to verify block'') (\<lambda>_.
     let proposal = proposal_hash C new_root h other in
     obind (require (h \<noteq> - 1) ''overflow'') (\<lambda>_.
     obind (require (signatures \<noteq> []) ''No signatures'') (\<lambda>_.
     obind (check_signers C (signed_message C h proposal) validators 0 signatures) (\<lambda>_.
     obind (require (aggregate_verify C aggr_proof aggr_instances old_root new_root utxo_hashes) ''verifier'') (\<lambda>_.
     Ok (emit (BlockVerified h new_root) ((add_root_hash new_root s)\<lparr>block_hash_of := proposal, block_height_of := h\<rparr>), u)))))))))))"

section \<open>Mints and burns\<close>

definition chain_mint ::
    "'u chain_env \<Rightarrow> Address \<Rightarrow> bytes \<Rightarrow> CryptoHash \<Rightarrow> 256 word \<Rightarrow> CryptoHash \<Rightarrow> 'u chain \<Rightarrow> (string, 'u chain) outcome" where
  "chain_mint C sender proof cm value src = (\<lambda>(s, u).
     obind (require (mints s cm = 0) ''Mint already exists'') (\<lambda>_.
     obind (require (mint_verify C proof [cm, value, src]) ''verifier'') (\<lambda>_.
     obind (reverting ''transferFrom'' (transfer_from C sender (self_address C) value u)) (\<lambda>(u, _).
     Ok (emit (MintAdded cm value) (s\<lparr>mints := (mints s)(cm := value)\<rparr>), u)))))"

text \<open>The hash of the arguments under the type of the message, behind the domain.\<close>

definition mint_authorization_hash ::
    "'u chain_env \<Rightarrow> CryptoHash \<Rightarrow> 256 word \<Rightarrow> CryptoHash \<Rightarrow> Address \<Rightarrow> 256 word \<Rightarrow> 256 word \<Rightarrow> CryptoHash \<Rightarrow> bytes" where
  "mint_authorization_hash C cm value src frm valid_after valid_before nonce =
     (let struct_hash = chain_keccak C (chain_keccak C (map (\<lambda>c. word_of_nat (of_char c)) MINT_TYPE) @ hash_bytes32 cm @ hash_bytes32 value
            @ hash_bytes32 src @ hash_bytes32 (ucast frm) @ hash_bytes32 valid_after @ hash_bytes32 valid_before @ hash_bytes32 nonce)
      in chain_keccak C ([0x19, 0x01] @ hash_bytes32 (domain_separator C) @ struct_hash))"

definition chain_mint_with_authorization ::
    "'u chain_env \<Rightarrow> bytes \<Rightarrow> CryptoHash \<Rightarrow> 256 word \<Rightarrow> CryptoHash \<Rightarrow> Address \<Rightarrow> 256 word \<Rightarrow> 256 word \<Rightarrow> CryptoHash
      \<Rightarrow> bytes \<times> bytes \<times> u8 \<Rightarrow> bytes \<times> bytes \<times> u8 \<Rightarrow> 'u chain \<Rightarrow> (string, 'u chain) outcome" where
  "chain_mint_with_authorization C proof cm value src frm valid_after valid_before nonce sig1 sig2 = (\<lambda>(s, u).
     let (r, s1, v) = sig1; (r2, s2, v2) = sig2 in
     obind (require (mints s cm = 0) ''Mint already exists'') (\<lambda>_.
     obind (reverting ''ECDSA'' (recover C (mint_authorization_hash C cm value src frm valid_after valid_before nonce) v2 r2 s2)) (\<lambda>signer.
     obind (require (signer = frm) ''Invalid signer'') (\<lambda>_.
     obind (require (mint_verify C proof [cm, value, src]) ''verifier'') (\<lambda>_.
     obind (reverting ''receiveWithAuthorization'' (receive_with_authorization C frm (self_address C) value valid_after valid_before nonce v r s1 u)) (\<lambda>u.
     Ok (emit (MintAdded cm value) (s\<lparr>mints := (mints s)(cm := value)\<rparr>), u)))))))"

definition set_burns_kind :: "CryptoHash \<Rightarrow> 256 word \<Rightarrow> contract_state \<Rightarrow> (string, contract_state) outcome" where
  "set_burns_kind nf kind s =
     omap (\<lambda>_. s\<lparr>burns_kind := (burns_kind s)(nf := kind)\<rparr>)
       (require (burns_kind s nf = 0 \<and> burn_amount (burns s nf) = 0) ''Burn already exists'')"

definition add_burn :: "CryptoHash \<Rightarrow> Address \<Rightarrow> 256 word \<Rightarrow> contract_state \<Rightarrow> contract_state" where
  "add_burn nf to value s =
     emit (BurnAdded nf value) (s\<lparr>burns := (burns s)(nf := \<lparr>burn_to = to, burn_amount = value\<rparr>)\<rparr>)"

definition chain_burn ::
    "'u chain_env \<Rightarrow> Address \<Rightarrow> bytes \<Rightarrow> CryptoHash \<Rightarrow> 256 word \<Rightarrow> CryptoHash \<Rightarrow> CryptoHash \<Rightarrow> 'u chain \<Rightarrow> (string, 'u chain) outcome" where
  "chain_burn C to proof nf value src sig = (\<lambda>(s, u).
     obind (require (\<not> is_blacklisted C to u) ''account is blacklisted by USDC'') (\<lambda>_.
     obind (require (burn_verify C proof [ucast to, nf, value, src, sig]) ''verifier'') (\<lambda>_.
     omap (\<lambda>s. (add_burn nf to value s, u)) (set_burns_kind nf 0 s))))"

definition chain_burn_to_address ::
    "'u chain_env \<Rightarrow> 256 word \<Rightarrow> CryptoHash \<Rightarrow> bytes \<Rightarrow> CryptoHash \<Rightarrow> 256 word \<Rightarrow> CryptoHash \<Rightarrow> CryptoHash
      \<Rightarrow> 'u chain \<Rightarrow> (string, 'u chain) outcome" where
  "chain_burn_to_address C kind to proof nf value src sig = (\<lambda>(s, u).
     let to_addr = ucast to :: Address in
     obind (require (kind = 0) ''Invalid kind'') (\<lambda>_.
     obind (require (\<not> is_blacklisted C to_addr u) ''account is blacklisted by USDC'') (\<lambda>_.
     obind (require (burn_verify_v2 C proof [kind, to, nf, value, src, sig]) ''verifier'') (\<lambda>_.
     omap (\<lambda>s. (add_burn nf to_addr value s, u)) (set_burns_kind nf kind s)))))"

text \<open>The message of a burn to a router, without its first three bits; \<open>abi_encode\<close> is the encoding of the three arguments.\<close>

definition router_message :: "'u chain_env \<Rightarrow> (Address \<Rightarrow> bytes \<Rightarrow> Address \<Rightarrow> bytes) \<Rightarrow> Address \<Rightarrow> bytes \<Rightarrow> Address \<Rightarrow> CryptoHash" where
  "router_message C abi_encode router calldata ret = take_bit 253 (hash_of_bytes (chain_keccak C (abi_encode router calldata ret)))"

definition chain_burn_to_router ::
    "'u chain_env \<Rightarrow> (Address \<Rightarrow> bytes \<Rightarrow> Address \<Rightarrow> bytes) \<Rightarrow> 256 word \<Rightarrow> CryptoHash \<Rightarrow> bytes \<Rightarrow> CryptoHash \<Rightarrow> 256 word \<Rightarrow> CryptoHash
      \<Rightarrow> CryptoHash \<Rightarrow> Address \<Rightarrow> bytes \<Rightarrow> Address \<Rightarrow> 'u chain \<Rightarrow> (string, 'u chain) outcome" where
  "chain_burn_to_router C abi_encode kind msg_hash proof nf value src sig router calldata ret = (\<lambda>(s, u).
     obind (require (kind = 1) ''Invalid kind'') (\<lambda>_.
     obind (require (ret \<noteq> 0) ''Invalid return address'') (\<lambda>_.
     obind (require (router_whitelist s router) ''Router not whitelisted'') (\<lambda>_.
     obind (require (\<not> is_blacklisted C ret u) ''account is blacklisted by USDC'') (\<lambda>_.
     obind (require (router_message C abi_encode router calldata ret = msg_hash) ''Invalid msg'') (\<lambda>_.
     obind (require (burn_verify_v2 C proof [kind, msg_hash, nf, value, src, sig]) ''verifier'') (\<lambda>_.
     omap (\<lambda>s. (emit (BurnAdded nf value) (s\<lparr>burns_to_router := (burns_to_router s)(nf :=
          \<lparr>router_to = router, router_calldata = calldata, router_amount = value, return_address = ret\<rparr>)\<rparr>), u))
       (set_burns_kind nf kind s))))))))"

definition chain_substitute_burn :: "'u chain_env \<Rightarrow> Address \<Rightarrow> CryptoHash \<Rightarrow> 256 word \<Rightarrow> 'u chain \<Rightarrow> (string, 'u chain) outcome" where
  "chain_substitute_burn C sender nf amount = (\<lambda>(s, u).
     obind (require (\<not> substituted_burns s nf) ''RollupV6: Burn already substituted'') (\<lambda>_.
     obind (require (\<not> rolled_up_leafs s nf) ''RollupV6: Leaf already rolled up'') (\<lambda>_.
     obind (reverting ''transferFrom'' (transfer_from C sender (self_address C) amount u)) (\<lambda>(u, _).
     let s = s\<lparr>substituted_burns := (substituted_burns s)(nf := True)\<rparr> in
     obind (execute_burn C nf amount True (s, u)) (\<lambda>((found, success), s, u).
     obind (require (found \<and> success) ''RollupV6: Burn failed'') (\<lambda>_.
     Ok (s\<lparr>burns_kind := (burns_kind s)(nf := 0), burns := (burns s)(nf := \<lparr>burn_to = sender, burn_amount = amount\<rparr>)\<rparr>, u)))))))"

definition chain_has_burn :: "contract_state \<Rightarrow> CryptoHash \<Rightarrow> bool" where
  "chain_has_burn s nf \<longleftrightarrow> (if burns_kind s nf = 0 then burn_amount (burns s nf) \<noteq> 0 else True)"

definition chain_set_root :: "Address \<Rightarrow> CryptoHash \<Rightarrow> contract_state \<Rightarrow> (string, contract_state) outcome" where
  "chain_set_root sender r s = omap (\<lambda>_. add_root_hash r s) (require (sender = contract_owner s) ''OwnableUnauthorizedAccount'')"

definition chain_set_validators :: "Address \<Rightarrow> 256 word \<Rightarrow> Address list \<Rightarrow> contract_state \<Rightarrow> (string, contract_state) outcome" where
  "chain_set_validators sender first validators s =
     obind (require (sender = contract_owner s) ''OwnableUnauthorizedAccount'') (\<lambda>_. set_validators_chain first validators s)"

definition chain_add_prover :: "Address \<Rightarrow> Address \<Rightarrow> contract_state \<Rightarrow> (string, contract_state) outcome" where
  "chain_add_prover sender prover s =
     omap (\<lambda>_. s\<lparr>provers := (provers s)(prover := True)\<rparr>) (require (sender = contract_owner s) ''OwnableUnauthorizedAccount'')"

definition chain_add_router :: "'u chain_env \<Rightarrow> Address \<Rightarrow> Address \<Rightarrow> contract_state \<Rightarrow> (string, contract_state) outcome" where
  "chain_add_router C sender router s =
     obind (require (sender = contract_owner s) ''OwnableUnauthorizedAccount'') (\<lambda>_.
     omap (\<lambda>_. s\<lparr>router_whitelist := (router_whitelist s)(router := True)\<rparr>) (require (has_code C router) ''Router has no code''))"

definition chain_remove_router :: "Address \<Rightarrow> Address \<Rightarrow> contract_state \<Rightarrow> (string, contract_state) outcome" where
  "chain_remove_router sender router s =
     omap (\<lambda>_. s\<lparr>router_whitelist := (router_whitelist s)(router := False)\<rparr>) (require (sender = contract_owner s) ''OwnableUnauthorizedAccount'')"

definition chain_set_gas :: "Address \<Rightarrow> 256 word \<Rightarrow> contract_state \<Rightarrow> (string, contract_state) outcome" where
  "chain_set_gas sender gas s =
     omap (\<lambda>_. s\<lparr>gas_per_router_call := gas\<rparr>) (require (sender = contract_owner s) ''OwnableUnauthorizedAccount'')"

text \<open>The state after the initializers of all versions.\<close>

definition chain_initialize :: "Address \<Rightarrow> Address \<Rightarrow> Address list \<Rightarrow> CryptoHash \<Rightarrow> (string, contract_state) outcome" where
  "chain_initialize owner_address prover initial_validators empty_root =
     omap (add_root_hash empty_root) (set_validators_chain 0 initial_validators
       \<lparr>root_hashes = replicate 64 0, next_root_hash_index = 0, block_hash_of = 0, block_height_of = 0,
        provers = (\<lambda>a. a = prover), contract_owner = owner_address, mints = (\<lambda>_. 0),
        burns = (\<lambda>_. \<lparr>burn_to = 0, burn_amount = 0\<rparr>), burns_kind = (\<lambda>_. 0),
        burns_to_router = (\<lambda>_. \<lparr>router_to = 0, router_calldata = [], router_amount = 0, return_address = 0\<rparr>),
        router_whitelist = (\<lambda>_. False), substituted_burns = (\<lambda>_. False), rolled_up_leafs = (\<lambda>_. False),
        chain_sets = [], validator_set_index = 0, gas_per_router_call = 500000, events = []\<rparr>)"

end
