(* ===== verification/Rollup_Contract_Props.thy ===== *)
theory Rollup_Contract_Props
  imports Rollup_Contract Node_Sample
begin

text \<open>
  The properties of the roll-up contract and of its agreement with the node: the validators of a height, the message
  that validators sign, what a verified block establishes, and the substitution of burns.
\<close>

section \<open>Reverts\<close>

named_theorems chain_simps \<open>inversion rules for operations of the contract\<close>

lemma require_simps [simp, chain_simps]:
  "require p m = Ok x \<longleftrightarrow> p" "require p m = Err e \<longleftrightarrow> \<not> p \<and> e = m" "require p m \<noteq> Panic"
  by (auto simp: require_def)

lemma reverting_simps [simp, chain_simps]:
  "reverting m r = Ok x \<longleftrightarrow> r = Some x" "reverting m r = Err e \<longleftrightarrow> r = None \<and> e = m" "reverting m r \<noteq> Panic"
  by (auto simp: reverting_def split: option.splits)

lemma emit_simps [simp]:
  "root_hashes (emit e s) = root_hashes s" "next_root_hash_index (emit e s) = next_root_hash_index s"
  "chain_sets (emit e s) = chain_sets s" "validator_set_index (emit e s) = validator_set_index s"
  "mints (emit e s) = mints s" "burns (emit e s) = burns s" "burns_kind (emit e s) = burns_kind s"
  "burns_to_router (emit e s) = burns_to_router s" "substituted_burns (emit e s) = substituted_burns s"
  "rolled_up_leafs (emit e s) = rolled_up_leafs s" "events (emit e s) = events s @ [e]"
  "block_hash_of (emit e s) = block_hash_of s" "block_height_of (emit e s) = block_height_of s" "provers (emit e s) = provers s"
  by (simp_all add: emit_def)

section \<open>Validators\<close>

text \<open>Sets with strictly growing starts, a current set among them, and a full ring of roots.\<close>

definition chain_wf :: "contract_state \<Rightarrow> bool" where
  "chain_wf s \<longleftrightarrow> sorted_wrt (<) (map valid_from (chain_sets s)) \<and> validator_set_index s < length (chain_sets s)
     \<and> (\<forall>v \<in> set (chain_sets s). distinct (vs_validators v))
     \<and> length (root_hashes s) = 64 \<and> next_root_hash_index s < 64"

lemma advance_index_eq: "advance_index h i vs = i + length (takeWhile (\<lambda>v. valid_from v \<le> h) vs)"
  by (induction vs arbitrary: i) (auto simp: not_le)

lemma filter_le_sorted:
  "sorted_wrt (<) (map f xs) \<Longrightarrow> filter (\<lambda>x. f x \<le> (c :: 'a :: linorder)) xs = takeWhile (\<lambda>x. f x \<le> c) xs"
proof (induction xs)
  case (Cons x xs)
  have "filter (\<lambda>x. f x \<le> c) xs = []" if "\<not> f x \<le> c" using Cons.prems that by (auto simp: filter_empty_conv not_le dest: less_trans)
  with Cons show ?case by simp
qed simp

lemma current_set:
  assumes wf: "chain_wf s" and cur: "valid_from (chain_sets s ! validator_set_index s) \<le> h"
  shows "filter (\<lambda>v. valid_from v \<le> h) (chain_sets s) = take (Suc (validator_set_index (update_validator_set_index h s))) (chain_sets s)"
    and "validator_set_index (update_validator_set_index h s) < length (chain_sets s)"
proof -
  let ?P = "\<lambda>v. valid_from v \<le> h" and ?i = "validator_set_index s"
  let ?rest = "drop (Suc ?i) (chain_sets s)"
  have s: "sorted_wrt (<) (map valid_from (chain_sets s))" "?i < length (chain_sets s)" using wf by (simp_all add: chain_wf_def)
  have "valid_from v \<le> h" if "v \<in> set (take (Suc ?i) (chain_sets s))" for v
  proof -
    from that s(2) obtain j where j: "j \<le> ?i" "v = chain_sets s ! j" by (fastforce simp: in_set_conv_nth less_Suc_eq_le)
    have "valid_from (chain_sets s ! j) \<le> valid_from (chain_sets s ! ?i)"
      using j(1) s sorted_wrt_nth_less [of "(<)" "map valid_from (chain_sets s)" j ?i] by (cases "j = ?i") (auto intro: less_imp_le)
    with cur j(2) show ?thesis by simp
  qed
  then have "takeWhile ?P (take (Suc ?i) (chain_sets s) @ ?rest) = take (Suc ?i) (chain_sets s) @ takeWhile ?P ?rest"
    by (rule takeWhile_append2)
  then have f: "filter ?P (chain_sets s) = take (Suc ?i) (chain_sets s) @ takeWhile ?P ?rest"
    using filter_le_sorted [OF s(1)] by simp
  have k: "validator_set_index (update_validator_set_index h s) = ?i + length (takeWhile ?P ?rest)"
    by (simp add: update_validator_set_index_def advance_index_eq)
  have l: "length (takeWhile ?P ?rest) \<le> length ?rest" by (rule length_takeWhile_le)
  then show "validator_set_index (update_validator_set_index h s) < length (chain_sets s)" using k s(2) by simp
  have "takeWhile ?P ?rest = take (length (takeWhile ?P ?rest)) ?rest" by (rule takeWhile_eq_take)
  then show "filter ?P (chain_sets s) = take (Suc (validator_set_index (update_validator_set_index h s))) (chain_sets s)"
    unfolding f k by (metis add_Suc take_add)
qed

text \<open>
  C35: node and contract agree on the validators. For the sets of the contract, whose starts strictly grow, and a height
  from which the contract's current set is valid, the validators against which the contract checks the signatures of a block
  are those that the node computes for the height.
\<close>

theorem contract_validators_agree:
  assumes wf: "chain_wf s" and cur: "valid_from (chain_sets s ! validator_set_index s) \<le> ucast h"
    and fits: "\<forall>v \<in> set (chain_sets s). unat (valid_from v) < 2 ^ 64"
  shows "validators_for_height (chain_sets s) (h :: u64) = Ok (get_validators (update_validator_set_index (ucast h) s))"
proof -
  let ?k = "validator_set_index (update_validator_set_index (ucast h) s)"
  have "unat (ucast h :: 256 word) = unat h"
  proof -
    have "unat h < 2 ^ LENGTH(64)" by (rule unsigned_less)
    then have "unat h < 2 ^ 256" by simp
    then show ?thesis by (simp add: unsigned_ucast_eq take_bit_nat_eq_self del: take_bit_numeral_numeral)
  qed
  then have "filter (\<lambda>v. unat (valid_from v) \<le> unat h) (chain_sets s) = filter (\<lambda>v. valid_from v \<le> ucast h) (chain_sets s)"
    by (simp add: word_le_nat_alt)
  moreover have "\<not> list_ex (\<lambda>v. 2 ^ 64 \<le> unat (valid_from v)) (chain_sets s)"
    using fits unfolding list_ex_iff by (auto simp flip: not_less)
  moreover note c = current_set [OF wf cur]
  moreover have "take (Suc ?k) (chain_sets s) \<noteq> []" "last (take (Suc ?k) (chain_sets s)) = chain_sets s ! ?k"
    using c(2) by (auto simp: take_Suc_conv_app_nth)
  moreover have "chain_sets (update_validator_set_index (ucast h) s) = chain_sets s" by (simp add: update_validator_set_index_def)
  ultimately show ?thesis by (simp add: validators_for_height_def get_validators_def Let_def)
qed


section \<open>What executing burns leaves alone\<close>

lemma execute_burn_to_address_state: "execute_burn_to_address C nf v (s, u) = Ok (b, s', u') \<Longrightarrow> s' = s"
  by (auto simp: execute_burn_to_address_def Let_def outcome_simps split: if_splits option.splits)

lemma execute_burn_to_router_state: "execute_burn_to_router C nf v (s, u) = Ok (b, s', u') \<Longrightarrow> s' = s \<and> router_amount (burns_to_router s nf) = v"
  by (auto simp: execute_burn_to_router_def Let_def outcome_simps split: if_splits)

lemma execute_burn_state:
  assumes "execute_burn C mb v sub (s, u) = Ok ((found, success), s', u')"
  shows "s' = emit (Burned mb sub success) s" "found \<longleftrightarrow> chain_has_burn s mb"
    "success \<and> burns_kind s mb \<in> {0, 1} \<Longrightarrow>
      v = (if burns_kind s mb = 0 then burn_amount (burns s mb) else router_amount (burns_to_router s mb))"
  using assms
  by (auto simp: execute_burn_def Let_def outcome_simps chain_has_burn_def
      dest: execute_burn_to_address_state execute_burn_to_router_state split: if_splits)
    (auto simp: execute_burn_to_address_def Let_def outcome_simps split: if_splits option.splits)

text \<open>What the verification of a transaction keeps.\<close>

definition same_core :: "contract_state \<Rightarrow> contract_state \<Rightarrow> bool" where
  "same_core s s' \<longleftrightarrow> root_hashes s' = root_hashes s \<and> next_root_hash_index s' = next_root_hash_index s \<and> chain_sets s' = chain_sets s
     \<and> validator_set_index s' = validator_set_index s \<and> provers s' = provers s \<and> mints s' = mints s \<and> burns s' = burns s
     \<and> burns_kind s' = burns_kind s \<and> burns_to_router s' = burns_to_router s \<and> substituted_burns s' = substituted_burns s"

lemma same_core_trans: "same_core s1 s2 \<Longrightarrow> same_core s2 s3 \<Longrightarrow> same_core s1 s3"
  by (simp add: same_core_def)

lemma verify_txn_core:
  assumes "verify_txn C mb v (s, u) = Ok (s', u')"
  shows "same_core s s'" "rolled_up_leafs s' = (if v = 0 then rolled_up_leafs s else (rolled_up_leafs s)(mb := True))"
    "filter (\<lambda>e. \<exists>ok. e = Burned nf True ok) (events s') = filter (\<lambda>e. \<exists>ok. e = Burned nf True ok) (events s)"
  using assms
  by (auto simp: verify_txn_def Let_def outcome_simps same_core_def split: if_splits dest!: execute_burn_state(1))

lemma verify_txns_core:
  "verify_txns C hs (s, u) = Ok (s', u') \<Longrightarrow> same_core s s' \<and> (\<forall>nf. rolled_up_leafs s nf \<longrightarrow> rolled_up_leafs s' nf)
    \<and> (\<forall>nf. filter (\<lambda>e. \<exists>ok. e = Burned nf True ok) (events s') = filter (\<lambda>e. \<exists>ok. e = Burned nf True ok) (events s))"
proof (induction C hs "(s, u)" arbitrary: s u rule: verify_txns.induct)
  case (1 C r mb v hs)
  then obtain s1 u1 where s1: "verify_txn C mb v (s, u) = Ok (s1, u1)" "verify_txns C hs (s1, u1) = Ok (s', u')"
    by (auto simp: outcome_simps)
  from 1(1) [OF s1(2)] verify_txn_core [OF s1(1)] show ?case by (auto intro: same_core_trans)
qed (simp_all add: same_core_def)

section \<open>A verified block\<close>

lemma check_signers_Ok:
  "check_signers C msg vs p sigs = Ok () \<longleftrightarrow> (\<exists>signers. list_all2 (\<lambda>(r, s, v) a. recover C msg v r s = Some a) sigs signers
     \<and> set signers \<subseteq> set vs \<and> sorted_wrt (<) (p # signers))"
proof (induction sigs arbitrary: p)
  case (Cons x sigs)
  obtain r s v where x: "x = (r, s, v)" by (cases x)
  show ?case
  proof (cases "recover C msg v r s")
    case (Some a)
    have "(\<exists>signers. list_all2 (\<lambda>(r, s, v) a. recover C msg v r s = Some a) (x # sigs) signers
          \<and> set signers \<subseteq> set vs \<and> sorted_wrt (<) (p # signers))
        \<longleftrightarrow> a \<in> set vs \<and> p < a \<and> (\<exists>signers. list_all2 (\<lambda>(r, s, v) a. recover C msg v r s = Some a) sigs signers
          \<and> set signers \<subseteq> set vs \<and> sorted_wrt (<) (a # signers))" (is "?L \<longleftrightarrow> ?R")
    proof
      assume ?L
      then obtain signers where l: "list_all2 (\<lambda>(r, s, v) a. recover C msg v r s = Some a) (x # sigs) signers"
        "set signers \<subseteq> set vs" "sorted_wrt (<) (p # signers)" by blast
      then obtain rest where "signers = a # rest" by (auto simp: x Some list_all2_Cons1)
      with l show ?R by (auto simp: x Some)
    next
      assume ?R
      then obtain rest where "a \<in> set vs" "p < a" "list_all2 (\<lambda>(r, s, v) a. recover C msg v r s = Some a) sigs rest"
        "set rest \<subseteq> set vs" "sorted_wrt (<) (a # rest)" by blast
      then show ?L by (intro exI [of _ "a # rest"]) (auto simp: x Some dest: less_trans)
    qed
    then show ?thesis using Cons.IH [of a] by (auto simp: x Some outcome_simps reverting_def)
  qed (auto simp: x outcome_simps reverting_def list_all2_Cons1)
qed auto

lemma current_root_added:
  "length (root_hashes s) = 64 \<Longrightarrow> next_root_hash_index s < 64 \<Longrightarrow> current_root_hash (add_root_hash r s) = r"
  by (cases "next_root_hash_index s = 63") (auto simp: current_root_hash_def add_root_hash_def)


lemma update_index_simps [simp]:
  "root_hashes (update_validator_set_index h s) = root_hashes s"
  "next_root_hash_index (update_validator_set_index h s) = next_root_hash_index s"
  "chain_sets (update_validator_set_index h s) = chain_sets s"
  "provers (update_validator_set_index h s) = provers s"
  "mints (update_validator_set_index h s) = mints s" "burns (update_validator_set_index h s) = burns s"
  "burns_kind (update_validator_set_index h s) = burns_kind s"
  "burns_to_router (update_validator_set_index h s) = burns_to_router s"
  "substituted_burns (update_validator_set_index h s) = substituted_burns s"
  "rolled_up_leafs (update_validator_set_index h s) = rolled_up_leafs s" "events (update_validator_set_index h s) = events s"
  "current_root_hash (update_validator_set_index h s) = current_root_hash s"
  by (simp_all add: update_validator_set_index_def current_root_hash_def)

lemma update_index_wf: "chain_wf s \<Longrightarrow> chain_wf (update_validator_set_index h s)"
  using length_takeWhile_le [of "\<lambda>v. valid_from v \<le> h" "drop (Suc (validator_set_index s)) (chain_sets s)"]
  by (auto simp: chain_wf_def) (simp add: update_validator_set_index_def advance_index_eq)

lemma same_core_wf: "same_core s s' \<Longrightarrow> chain_wf s \<Longrightarrow> chain_wf s'"
  by (simp add: same_core_def chain_wf_def)

lemma verify_block2_Ok:
  "verify_block2 C sender proof inst old_root new_root hs other h sigs (s, u) = Ok (s', u') \<longleftrightarrow>
     provers s sender \<and> old_root = current_root_hash s
     \<and> (\<exists>s1 signers. verify_txns C hs (update_validator_set_index h s, u) = Ok (s1, u')
         \<and> contains_root_hashes s1 (txn_roots hs)
         \<and> length (get_validators (update_validator_set_index h s)) * 2 div 3 + 1 \<le> length sigs \<and> h \<noteq> - 1 \<and> sigs \<noteq> []
         \<and> list_all2 (\<lambda>(r, s, v) a. recover C (signed_message C h (proposal_hash C new_root h other)) v r s = Some a) sigs signers
         \<and> set signers \<subseteq> set (get_validators (update_validator_set_index h s)) \<and> sorted_wrt (<) (0 # signers)
         \<and> aggregate_verify C proof inst old_root new_root hs
         \<and> s' = emit (BlockVerified h new_root)
             ((add_root_hash new_root s1)\<lparr>block_hash_of := proposal_hash C new_root h other, block_height_of := h\<rparr>))"
  by (auto simp: verify_block2_def Let_def outcome_simps check_signers_Ok)

lemma verified_root:
  assumes wf: "chain_wf s" and ok: "verify_block2 C sender proof inst old_root new_root hs other h sigs (s, u) = Ok (s', u')"
  shows "current_root_hash s' = new_root" "chain_wf s'" "block_height_of s' = h" "block_hash_of s' = proposal_hash C new_root h other"
proof -
  from ok [unfolded verify_block2_Ok] obtain s1 where
    a: "verify_txns C hs (update_validator_set_index h s, u) = Ok (s1, u')"
      "s' = emit (BlockVerified h new_root)
         ((add_root_hash new_root s1)\<lparr>block_hash_of := proposal_hash C new_root h other, block_height_of := h\<rparr>)" by blast
  from verify_txns_core [OF a(1)] have wf1: "chain_wf s1" using wf by (blast intro: same_core_wf update_index_wf)
  have "current_root_hash s' = current_root_hash (add_root_hash new_root s1)" by (simp add: a(2) current_root_hash_def)
  then show "current_root_hash s' = new_root" using wf1 by (simp add: chain_wf_def current_root_added)
  show "chain_wf s'" "block_height_of s' = h" "block_hash_of s' = proposal_hash C new_root h other"
    using wf1 by (simp_all add: a(2) chain_wf_def add_root_hash_def)
qed

text \<open>
  C6: what a verified block establishes. When the contract accepts a block, the sender is a prover, the old root was the
  current root and the new one is now; a majority of more than two thirds of the validators of the height, each counted once, has
  signed new root, height and header hash; the proof was accepted for these roots and hashes; and every transaction
  refers to one of the last 64 roots, or to the zero of padding. The invariant of the contract is kept.
\<close>

theorem contract_block_verified:
  assumes wf: "chain_wf s" and ok: "verify_block2 C sender proof inst old_root new_root hs other h sigs (s, u) = Ok (s', u')"
  shows "provers s sender \<and> old_root = current_root_hash s \<and> current_root_hash s' = new_root
    \<and> block_height_of s' = h \<and> block_hash_of s' = proposal_hash C new_root h other
    \<and> aggregate_verify C proof inst old_root new_root hs
    \<and> (\<forall>r \<in> set (txn_roots hs). r = 0 \<or> r \<in> set (root_hashes s))
    \<and> (\<exists>signers. distinct signers \<and> set signers \<subseteq> set (get_validators (update_validator_set_index h s))
        \<and> 2 * length (get_validators (update_validator_set_index h s)) < 3 * length signers
        \<and> list_all2 (\<lambda>(r, s, v) a. recover C (signed_message C h (proposal_hash C new_root h other)) v r s = Some a) sigs signers)
    \<and> chain_wf s'"
proof -
  let ?s = "update_validator_set_index h s"
  from ok [unfolded verify_block2_Ok] obtain s1 signers where
    a: "provers s sender" "old_root = current_root_hash s" "verify_txns C hs (?s, u) = Ok (s1, u')" "contains_root_hashes s1 (txn_roots hs)"
      "length (get_validators ?s) * 2 div 3 + 1 \<le> length sigs" "set signers \<subseteq> set (get_validators ?s)" "sorted_wrt (<) (0 # signers)"
      "list_all2 (\<lambda>(r, s, v) a. recover C (signed_message C h (proposal_hash C new_root h other)) v r s = Some a) sigs signers"
      "aggregate_verify C proof inst old_root new_root hs"
    by (elim conjE exE) blast
  from verify_txns_core [OF a(3)] have c: "same_core ?s s1" by blast
  have n: "length sigs = length signers" using a(8) by (rule list_all2_lengthD)
  have "\<forall>r \<in> set (txn_roots hs). r = 0 \<or> r \<in> set (root_hashes s)"
    using a(4) c by (auto simp: contains_root_hashes_def same_core_def list_all_iff list_ex_iff)
  moreover have "distinct signers" using a(7) by (simp add: strict_sorted_iff)
  moreover have "2 * length (get_validators ?s) < 3 * length signers" using a(5) n by linarith
  ultimately show ?thesis using a verified_root [OF wf ok] by auto
qed

section \<open>What validators sign\<close>

lemma unat_ucast_u64: "unat (ucast (h :: u64) :: 256 word) = unat h"
proof -
  have "unat h < 2 ^ LENGTH(64)" by (rule unsigned_less)
  then have "unat h < 2 ^ 256" by simp
  then show ?thesis by (simp add: unsigned_ucast_eq take_bit_nat_eq_self del: take_bit_numeral_numeral)
qed

lemma unat_Suc_u64: "h \<noteq> - 1 \<Longrightarrow> unat (h + 1 :: u64) = Suc (unat h)"
  by (simp add: unatSuc add.commute [of h] add_eq_0_iff)

lemma unat_ucast_Suc:
  assumes "h \<noteq> - 1"
  shows "unat (ucast (h :: u64) + 1 :: 256 word) = unat (h + 1)"
proof -
  have "unat h < 2 ^ LENGTH(64)" by (rule unsigned_less)
  then have "unat h + 1 < 2 ^ 256" by simp
  moreover have "unat (ucast h + 1 :: 256 word) = (unat h + 1) mod 2 ^ 256"
    unfolding unat_word_ariths unat_ucast_u64 by simp
  ultimately show ?thesis using assms by (simp add: unat_Suc_u64)
qed

lemma proposal_hash_agrees:
  assumes "chain_keccak C = keccak H"
  shows "proposal_hash C (broot b) (ucast (bheight b)) (header_hash H (bcontent b)) = bhash H b"
  using assms by (simp add: proposal_hash_def bhash_def content_hash_def unat_ucast_u64 hash_bytes32_def to_be_bytes_def)

lemma sig_digest_eq: "sig_digest k m = k (be_bytes 8 5 @ [84, 101, 109, 112, 111] @ hash_bytes32 m)"
proof -
  have "length NETWORK = 5" by (simp add: NETWORK_def)
  then show ?thesis unfolding sig_digest_def by (simp only:) (simp add: NETWORK_def)
qed

lemma endorsement_digest:
  assumes "chain_keccak C = keccak H" "bheight b \<noteq> - 1" "inner c = Endorsement (bhash H b)" "target_height c = bheight b + 1"
  shows "\<exists>m. approval_hash (keccak H) c = (Ok m :: (unit, CryptoHash) outcome)
    \<and> sig_digest (keccak H) m = signed_message C (ucast (bheight b)) (proposal_hash C (broot b) (ucast (bheight b)) (header_hash H (bcontent b)))"
  using assms
  by (simp add: approval_hash_def sig_digest_eq signed_message_def proposal_hash_agrees unat_ucast_Suc Let_def)

text \<open>
  C36: the message of an endorsement. When a validator endorses a block for the next height, the digest that it signs is the
  message from which the contract recovers the signers of the block: the hashes of block and endorsement and the prefix of the
  network agree.
\<close>

theorem endorsement_message_agrees:
  assumes "chain_keccak C = keccak H" "bheight b \<noteq> - 1"
    and "inner c = Endorsement (bhash H b)" "target_height c = bheight b + 1"
  shows "\<exists>m. approval_hash (keccak H) c = (Ok m :: (unit, CryptoHash) outcome)
    \<and> sig_digest (keccak H) m = signed_message C (ucast (bheight b)) (proposal_hash C (broot b) (ucast (bheight b)) (header_hash H (bcontent b)))"
  using assms by (rule endorsement_digest)

section \<open>Rolling up a block\<close>

text \<open>Every transaction with a value is a mint of this value or a burn of it to an address.\<close>

fun txns_payable :: "contract_state \<Rightarrow> CryptoHash list \<Rightarrow> bool" where
  "txns_payable s (r # mb # value # hs) \<longleftrightarrow>
     (value \<noteq> 0 \<longrightarrow> mints s mb = value \<or> mints s mb = 0 \<and> burns_kind s mb = 0 \<and> burn_amount (burns s mb) = value) \<and> txns_payable s hs"
| "txns_payable s _ \<longleftrightarrow> True"

lemma txns_payable_cong:
  "mints s' = mints s \<Longrightarrow> burns s' = burns s \<Longrightarrow> burns_kind s' = burns_kind s \<Longrightarrow> txns_payable s' hs = txns_payable s hs"
  by (induction s hs rule: txns_payable.induct) simp_all

lemma txns_payable_core: "same_core s s' \<Longrightarrow> txns_payable s hs \<Longrightarrow> txns_payable s' hs"
  using txns_payable_cong [of s' s hs] by (simp add: same_core_def)

lemma verify_txn_payable:
  assumes "value \<noteq> 0 \<longrightarrow> mints s mb = value \<or> mints s mb = 0 \<and> burns_kind s mb = 0 \<and> burn_amount (burns s mb) = value"
  shows "\<exists>s' u'. verify_txn C mb value (s, u) = Ok (s', u')"
  using assms
  by (cases "transfer C (burn_to (burns s mb)) value u")
    (auto simp: verify_txn_def execute_burn_def execute_burn_to_address_def Let_def require_def)

lemma verify_txns_payable: "txns_payable s hs \<Longrightarrow> \<exists>s' u'. verify_txns C hs (s, u) = Ok (s', u')"
proof (induction C hs "(s, u)" arbitrary: s u rule: verify_txns.induct)
  case (1 C r mb v hs)
  from 1(2) verify_txn_payable [of v s mb C u] obtain s1 u1 where s1: "verify_txn C mb v (s, u) = Ok (s1, u1)" by auto
  have "txns_payable s1 hs" using 1(2) verify_txn_core(1) [OF s1] by (auto intro: txns_payable_core)
  from 1(1) [OF this] s1 show ?case by simp
qed simp_all

text \<open>A signature of the node is one that the contract recovers to the address of the node.\<close>

definition signer_recovered :: "'u chain_env \<Rightarrow> ('db, 'sdb) node_env \<Rightarrow> bool" where
  "signer_recovered C E \<longleftrightarrow> (\<forall>m. \<exists>r s v. split_signature (sign_hash E m) = (Ok (r, s, v) :: (unit, bytes \<times> bytes \<times> u8) outcome)
     \<and> recover C (sig_digest (keccak (henv E)) m) v r s = Some (self_peer E))"


text \<open>The call that \<^verbatim>\<open>Prover::rollup\<close> sends for an input, executed by the contract.\<close>

fun split_signatures :: "bytes list \<Rightarrow> ('e, (bytes \<times> bytes \<times> u8) list) outcome" where
  "split_signatures [] = Ok []"
| "split_signatures (sig # sigs) = obind (split_signature sig) (\<lambda>p. omap ((#) p) (split_signatures sigs))"

definition deliver_rollup :: "'u chain_env \<Rightarrow> Address \<Rightarrow> RollupInput \<Rightarrow> 'u chain \<Rightarrow> (string, 'u chain) outcome" where
  "deliver_rollup C sender i su =
     (let p = ri_proof i in
      obind (split_signatures (ri_signatures i)) (\<lambda>sigs.
      verify_block2 C sender (rp_proof p) (map convert_element_to_h256 (rp_agg_instances p)) (convert_element_to_h256 (rp_old_root p))
        (convert_element_to_h256 (rp_new_root p)) (map convert_element_to_h256 (rp_utxo_hashes p)) (ri_other_hash i) (ucast (ri_height i))
        sigs su))"

lemma map_convert [simp]: "map convert_element_to_h256 es = es"
  by (simp add: map_idI)

text \<open>The arguments of the call are those that the contract receives.\<close>

lemma verify_block_call:
  assumes "length (rp_utxo_hashes p) = 18" "sig_tokens (ri_signatures i) = (Ok ts :: (ContractsError, Token list) outcome)" "p = ri_proof i"
  shows "verify_block c (rp_proof p) (rp_agg_instances p) (rp_old_root p) (rp_new_root p) (rp_utxo_hashes p) (ri_other_hash i) (ri_height i)
      (ri_signatures i) gas
    = contract_call c ''verifyBlock2''
        [BytesToken (rp_proof p), FixedArray (map h256_token (map convert_element_to_h256 (rp_agg_instances p))),
         h256_token (convert_element_to_h256 (rp_old_root p)), h256_token (convert_element_to_h256 (rp_new_root p)),
         FixedArray (map h256_token (map convert_element_to_h256 (rp_utxo_hashes p))), h256_token (ri_other_hash i), Uint (ucast (ri_height i)),
         ArrayToken ts, Uint (ucast gas)]"
  using assms by (simp add: verify_block_def UTXO_N_def CONTRACT_UTXO_INPUTS_def element_token_def [abs_def])

text \<open>
  The contract has one validator, the node, and receives an input for a block with the endorsement of the node. When the proof
  starts from the current root, the transactions refer to known roots and their mints and burns are registered, all that
  remains is the verification of the proof, and the new root becomes the current one.
\<close>

lemma deliver_rollup_iff:
  assumes "chain_wf s" "provers s sender" "chain_keccak C = keccak (henv E)" "signer_recovered C E"
    and one: "get_validators (update_validator_set_index (ucast (bheight b)) s) = [self_peer E]" "0 < self_peer E"
    and height: "bheight b \<noteq> - 1"
    and m: "approval_hash (keccak (henv E)) (new_endorsement (bhash (henv E) b) (bheight b + 1)) = (Ok m :: (unit, CryptoHash) outcome)"
    and i: "ri_height i = bheight b" "ri_other_hash i = header_hash (henv E) (bcontent b)" "ri_signatures i = [sign_hash E m]"
    and p: "ri_proof i = p" "rp_old_root p = current_root_hash s" "rp_new_root p = broot b"
    and txns: "txns_payable s (rp_utxo_hashes p)" "\<forall>r \<in> set (txn_roots (rp_utxo_hashes p)). r = 0 \<or> r \<in> set (root_hashes s)"
  shows "(\<exists>su. deliver_rollup C sender i (s, u) = Ok su)
      \<longleftrightarrow> aggregate_verify C (rp_proof p) (rp_agg_instances p) (rp_old_root p) (rp_new_root p) (rp_utxo_hashes p)"
    and "deliver_rollup C sender i (s, u) = Ok (s', u') \<Longrightarrow> current_root_hash s' = broot b"
proof -
  let ?h = "ucast (bheight b) :: 256 word" and ?other = "header_hash (henv E) (bcontent b)"
  let ?s = "update_validator_set_index ?h s"
  from assms(4) obtain r t v where sig: "split_signature (sign_hash E m) = (Ok (r, t, v) :: (unit, bytes \<times> bytes \<times> u8) outcome)"
    "recover C (sig_digest (keccak (henv E)) m) v r t = Some (self_peer E)" unfolding signer_recovered_def by blast
  then have sig': "split_signature (sign_hash E m) = (Ok (r, t, v) :: (string, bytes \<times> bytes \<times> u8) outcome)"
    by (auto simp: split_signature_def Let_def split: if_splits)
  have "sig_digest (keccak (henv E)) m = signed_message C ?h (proposal_hash C (broot b) ?h ?other)"
    using endorsement_digest [OF assms(3) height, of "new_endorsement (bhash (henv E) b) (bheight b + 1)"] m
    by (auto simp: new_endorsement_def)
  with sig(2) have rec: "recover C (signed_message C ?h (proposal_hash C (broot b) ?h ?other)) v r t = Some (self_peer E)" by simp
  have "txns_payable ?s (rp_utxo_hashes p)" using txns(1) by (subst txns_payable_cong [of _ s]) simp_all
  from verify_txns_payable [OF this, of C u] obtain s1 u1 where s1: "verify_txns C (rp_utxo_hashes p) (?s, u) = Ok (s1, u1)" by blast
  have roots: "root_hashes s1 = root_hashes s" using verify_txns_core [OF s1] by (simp add: same_core_def)
  have "root_hashes s1 \<noteq> []" using assms(1) roots by (auto simp: chain_wf_def)
  then have known: "contains_root_hashes s1 (txn_roots (rp_utxo_hashes p))"
    using txns(2) roots by (auto simp: contains_root_hashes_def list_all_iff list_ex_iff ex_in_conv)
  have last: "?h \<noteq> - 1"
  proof
    assume "?h = - 1"
    then have "unat (bheight b) = 2 ^ 256 - 1" using unat_ucast_u64 [of "bheight b"] by (simp add: unsigned_minus_1_eq_mask mask_eq_exp_minus_1)
    moreover have "unat (bheight b) < 2 ^ LENGTH(64)" by (rule unsigned_less)
    ultimately show False by simp
  qed
  have call: "deliver_rollup C sender i (s, u) = verify_block2 C sender (rp_proof p) (rp_agg_instances p) (rp_old_root p) (rp_new_root p)
      (rp_utxo_hashes p) ?other ?h [(r, t, v)] (s, u)" by (simp add: deliver_rollup_def i p(1) sig')
  show "(\<exists>su. deliver_rollup C sender i (s, u) = Ok su)
      \<longleftrightarrow> aggregate_verify C (rp_proof p) (rp_agg_instances p) (rp_old_root p) (rp_new_root p) (rp_utxo_hashes p)"
    unfolding call split_paired_Ex verify_block2_Ok using assms(2) p(2,3) s1 one rec known last
    by (auto intro!: exI [of _ s1] exI [of _ "[self_peer E]"])
  show "current_root_hash s' = broot b" if "deliver_rollup C sender i (s, u) = Ok (s', u')"
    using verified_root(1) [OF assms(1) that [unfolded call]] by (simp add: p(3))
qed

text \<open>
  C37: a single endorsement is not enough for several validators. A block carries one approval, that of its producer; when
  the contract has two validators or more for its height, it refuses the block whatever else holds.
\<close>

theorem single_approval_rejected:
  assumes "length (get_validators (update_validator_set_index (ucast (ri_height i)) s)) \<ge> 2" "length (ri_signatures i) = 1"
  shows "\<nexists>su. deliver_rollup C sender i (s, u) = Ok su"
proof
  assume "\<exists>su. deliver_rollup C sender i (s, u) = Ok su"
  then obtain s' u' where "deliver_rollup C sender i (s, u) = Ok (s', u')" by auto
  then obtain sigs where sigs: "split_signatures (ri_signatures i) = (Ok sigs :: (string, _) outcome)"
    "length (get_validators (update_validator_set_index (ucast (ri_height i)) s)) * 2 div 3 + 1 \<le> length sigs"
    unfolding deliver_rollup_def Let_def by (auto simp: outcome_simps verify_block2_Ok)
  moreover have "length sigs = 1"
    using sigs(1) assms(2) by (cases "ri_signatures i") (auto simp: outcome_simps)
  ultimately show False using assms(1) by simp
qed


section \<open>Runs of the contract\<close>

text \<open>Everything that changes the contract, and everything that changes the token without it.\<close>

inductive chain_step :: "'u chain_env \<Rightarrow> 'u chain \<Rightarrow> 'u chain \<Rightarrow> bool" for C where
  step_block: "verify_block2 C sender pr inst old_root new_root hs other h sigs su = Ok su' \<Longrightarrow> chain_step C su su'"
| step_mint: "chain_mint C sender pr cm v src su = Ok su' \<Longrightarrow> chain_step C su su'"
| step_mint_auth: "chain_mint_with_authorization C pr cm v src frm t1 t2 nonce s1 s2 su = Ok su' \<Longrightarrow> chain_step C su su'"
| step_burn: "chain_burn C to pr nf v src sig su = Ok su' \<Longrightarrow> chain_step C su su'"
| step_burn_address: "chain_burn_to_address C kind dest pr nf v src sig su = Ok su' \<Longrightarrow> chain_step C su su'"
| step_burn_router: "chain_burn_to_router C enc kind msg pr nf v src sig router data ret su = Ok su' \<Longrightarrow> chain_step C su su'"
| step_substitute: "chain_substitute_burn C sender nf v su = Ok su' \<Longrightarrow> chain_step C su su'"
| step_set_root: "chain_set_root sender r s = Ok s' \<Longrightarrow> chain_step C (s, u) (s', u)"
| step_validators: "chain_set_validators sender first vs s = Ok s' \<Longrightarrow> chain_step C (s, u) (s', u)"
| step_prover: "chain_add_prover sender a s = Ok s' \<Longrightarrow> chain_step C (s, u) (s', u)"
| step_add_router: "chain_add_router C sender a s = Ok s' \<Longrightarrow> chain_step C (s, u) (s', u)"
| step_remove_router: "chain_remove_router sender a s = Ok s' \<Longrightarrow> chain_step C (s, u) (s', u)"
| step_gas: "chain_set_gas sender g s = Ok s' \<Longrightarrow> chain_step C (s, u) (s', u)"
| step_token: "chain_step C (s, u) (s, u')"

text \<open>How often the burn of a nullifier was paid ahead by a substitutor.\<close>

definition substitutions :: "CryptoHash \<Rightarrow> contract_state \<Rightarrow> contract_event list" where
  "substitutions nf s = filter (\<lambda>e. \<exists>ok. e = Burned nf True ok) (events s)"

definition burn_value :: "contract_state \<Rightarrow> CryptoHash \<Rightarrow> 256 word" where
  "burn_value s nf = (if burns_kind s nf = 0 then burn_amount (burns s nf) else router_amount (burns_to_router s nf))"

text \<open>
  A burn is of one of two kinds, a substituted burn was paid ahead once and successfully, and otherwise there was no such payment.
\<close>

definition burns_wf :: "contract_state \<Rightarrow> bool" where
  "burns_wf s \<longleftrightarrow> (\<forall>nf. burns_kind s nf \<in> {0, 1}
     \<and> substitutions nf s = (if substituted_burns s nf then [Burned nf True True] else []))"

text \<open>How a step may change the burns.\<close>

definition burns_step :: "contract_state \<Rightarrow> contract_state \<Rightarrow> bool" where
  "burns_step s s' \<longleftrightarrow> burns_wf s'
     \<and> (\<forall>nf. rolled_up_leafs s nf \<longrightarrow> rolled_up_leafs s' nf)
     \<and> (\<forall>nf. substituted_burns s nf \<longrightarrow> substituted_burns s' nf)
     \<and> (\<forall>nf. rolled_up_leafs s nf \<longrightarrow> substitutions nf s' = substitutions nf s)
     \<and> (\<forall>nf. burn_value s nf \<noteq> 0 \<longrightarrow> burn_value s' nf = burn_value s nf)"

lemma burns_step_keep:
  assumes "burns_wf s" "burns s' = burns s" "burns_kind s' = burns_kind s" "burns_to_router s' = burns_to_router s"
    "substituted_burns s' = substituted_burns s" "\<forall>nf. rolled_up_leafs s nf \<longrightarrow> rolled_up_leafs s' nf"
    "\<And>nf. substitutions nf s' = substitutions nf s"
  shows "burns_step s s'"
  using assms by (simp add: burns_step_def burns_wf_def burn_value_def)

lemma substitutions_emit: "(\<And>ok. e \<noteq> Burned nf True ok) \<Longrightarrow> substitutions nf (emit e s) = substitutions nf s"
  by (auto simp: substitutions_def)

lemma substitutions_events: "events s' = events s \<Longrightarrow> substitutions nf s' = substitutions nf s"
  by (simp add: substitutions_def)


lemma block_burns_step:
  assumes "burns_wf s" "verify_block2 C sender pr inst old_root new_root hs other h sigs (s, u) = Ok (s', u')"
  shows "burns_step s s'"
proof -
  from assms(2) [unfolded verify_block2_Ok] obtain s1 where
    a: "verify_txns C hs (update_validator_set_index h s, u) = Ok (s1, u')"
      "s' = emit (BlockVerified h new_root)
         ((add_root_hash new_root s1)\<lparr>block_hash_of := proposal_hash C new_root h other, block_height_of := h\<rparr>)" by blast
  from verify_txns_core [OF a(1)] show ?thesis
    by (intro burns_step_keep [OF assms(1)])
      (auto simp: a(2) same_core_def add_root_hash_def substitutions_def)
qed

lemma new_burn_step:
  assumes "burns_wf s" "burns_kind s nf = 0" "burn_amount (burns s nf) = 0" "k \<in> {0, 1}"
    and "burns_kind s' = (burns_kind s)(nf := k)" "\<forall>x. x \<noteq> nf \<longrightarrow> burns s' x = burns s x \<and> burns_to_router s' x = burns_to_router s x"
    and "substituted_burns s' = substituted_burns s" "rolled_up_leafs s' = rolled_up_leafs s" "\<And>x. substitutions x s' = substitutions x s"
  shows "burns_step s s'"
  using assms by (auto simp: burns_step_def burns_wf_def burn_value_def)

lemma substitute_burns_step:
  assumes wf: "burns_wf s" and ok: "chain_substitute_burn C sender nf v (s, u) = Ok (s', u')"
  shows "burns_step s s'"
proof -
  let ?s = "s\<lparr>substituted_burns := (substituted_burns s)(nf := True)\<rparr>"
  from ok obtain u1 s1 where
    a: "\<not> substituted_burns s nf" "\<not> rolled_up_leafs s nf" "execute_burn C nf v True (?s, u1) = Ok ((True, True), s1, u')"
      "s' = s1\<lparr>burns_kind := (burns_kind s1)(nf := 0), burns := (burns s1)(nf := \<lparr>burn_to = sender, burn_amount = v\<rparr>)\<rparr>"
    by (auto simp: chain_substitute_burn_def Let_def outcome_simps)
  have k: "burns_kind s nf \<in> {0, 1}" using wf by (simp add: burns_wf_def)
  from execute_burn_state(1,3) [OF a(3)] k have b: "s1 = emit (Burned nf True True) ?s" "v = burn_value s nf"
    by (auto simp: burn_value_def)
  have "substitutions x s' = substitutions x s @ (if x = nf then [Burned nf True True] else [])" for x
    by (auto simp: a(4) b(1) substitutions_def)
  then show ?thesis using wf a(1,2) by (auto simp: burns_step_def burns_wf_def burn_value_def a(4) b)
qed

lemma chain_step_burns:
  assumes "chain_step C (s, u) (s', u')" "burns_wf s"
  shows "burns_step s s'"
  using assms(1)
proof cases
  case (step_block sender pr inst old_root new_root hs other h sigs)
  then show ?thesis using assms(2) by (auto intro: block_burns_step)
next
  case (step_burn to pr nf v src sig)
  then show ?thesis
    by (auto simp: chain_burn_def set_burns_kind_def add_burn_def outcome_simps substitutions_def intro!: new_burn_step [OF assms(2), of nf 0])
next
  case (step_burn_address kind dest pr nf v src sig)
  then show ?thesis
    by (auto simp: chain_burn_to_address_def set_burns_kind_def add_burn_def outcome_simps Let_def substitutions_def intro!: new_burn_step [OF assms(2), of nf 0])
next
  case (step_burn_router enc kind msg pr nf v src sig router data ret)
  then show ?thesis
    by (auto simp: chain_burn_to_router_def set_burns_kind_def outcome_simps substitutions_def intro!: new_burn_step [OF assms(2), of nf 1])
next
  case (step_substitute sender nf v)
  then show ?thesis using assms(2) by (auto intro: substitute_burns_step)
next
  case (step_mint sender pr cm v src)
  then show ?thesis
    by (auto simp: chain_mint_def outcome_simps substitutions_def intro!: burns_step_keep [OF assms(2)])
next
  case (step_mint_auth pr cm v src frm t1 t2 nonce s1 s2)
  then show ?thesis
    by (auto simp: chain_mint_with_authorization_def outcome_simps substitutions_def Let_def intro!: burns_step_keep [OF assms(2)] split: prod.splits)
qed (auto simp: chain_set_root_def add_root_hash_def chain_set_validators_def set_validators_chain_def chain_add_prover_def chain_add_router_def
    chain_remove_router_def chain_set_gas_def outcome_simps substitutions_def intro!: burns_step_keep [OF assms(2)])

text \<open>
  C38: the substitution of burns. From a state of the contract in which burns are well formed, such as the initial one, whatever sequence of
  calls follows: the burn of a nullifier is paid ahead at most once, and never after its block was rolled up; the amount of a
  registered burn never changes; and what was rolled up or paid ahead stays so.
\<close>

theorem substituted_once:
  assumes "(chain_step C)\<^sup>*\<^sup>* (s, u) (s', u')" "burns_wf s"
  shows "length (substitutions nf s') \<le> 1
    \<and> (substituted_burns s' nf \<longleftrightarrow> substitutions nf s' = [Burned nf True True])
    \<and> (rolled_up_leafs s nf \<longrightarrow> rolled_up_leafs s' nf \<and> substitutions nf s' = substitutions nf s)
    \<and> (burn_value s nf \<noteq> 0 \<longrightarrow> burn_value s' nf = burn_value s nf)"
proof -
  have "burns_step s s'" using assms(1)
  proof (induction "(s', u')" arbitrary: s' u' rule: rtranclp_induct)
    case base
    then show ?case using assms(2) by (simp add: burns_step_def)
  next
    case (step su)
    obtain s1 u1 where su: "su = (s1, u1)" by (cases su)
    with step have b: "burns_step s s1" by simp
    then have "burns_wf s1" by (simp add: burns_step_def)
    from chain_step_burns [OF step(2) [unfolded su] this] b show ?case by (auto simp: burns_step_def)
  qed
  then show ?thesis by (auto simp: burns_step_def burns_wf_def)
qed


section \<open>The state is kept well formed\<close>

lemma initialize_wf:
  assumes "chain_initialize owner_address prover vs r = Ok s"
  shows "chain_wf s" "burns_wf s" "current_root_hash s = r" "chain_sets s = [\<lparr>vs_validators = vs, valid_from = 0\<rparr>]" "validator_set_index s = 0"
    "provers s = (\<lambda>a. a = prover)"
proof -
  from assms show "chain_wf s" "chain_sets s = [\<lparr>vs_validators = vs, valid_from = 0\<rparr>]" "validator_set_index s = 0" "provers s = (\<lambda>a. a = prover)"
    by (auto simp: chain_initialize_def set_validators_chain_def outcome_simps chain_wf_def add_root_hash_def)
  from assms show "burns_wf s"
    by (auto simp: chain_initialize_def set_validators_chain_def outcome_simps burns_wf_def add_root_hash_def substitutions_def)
  from assms show "current_root_hash s = r"
    by (auto simp: chain_initialize_def set_validators_chain_def outcome_simps current_root_added)
qed

lemma sorted_wrt_snoc: "sorted_wrt (<) (map f xs) \<Longrightarrow> (xs = [] \<or> f (last xs) < (y :: 'a :: linorder)) \<Longrightarrow> sorted_wrt (<) (map f xs @ [y])"
  by (cases xs rule: rev_cases) (auto simp: sorted_wrt_append dest: less_trans)

text \<open>Every step keeps the invariant, and the validator sets are only added to.\<close>

lemma chain_step_wf:
  assumes "chain_step C (s, u) (s', u')" "chain_wf s"
  shows "chain_wf s' \<and> prefix (chain_sets s) (chain_sets s')"
  using assms(1)
proof cases
  case (step_block sender pr inst old_root new_root hs other h sigs)
  then have w: "verify_block2 C sender pr inst old_root new_root hs other h sigs (s, u) = Ok (s', u')" by simp
  then obtain s1 where "verify_txns C hs (update_validator_set_index h s, u) = Ok (s1, u')" "chain_sets s' = chain_sets s1"
    unfolding verify_block2_Ok by (auto simp: add_root_hash_def)
  then show ?thesis using verified_root(2) [OF assms(2) w] verify_txns_core by (fastforce simp: same_core_def)
next
  case (step_substitute sender nf v)
  then show ?thesis using assms(2)
    by (auto simp: chain_substitute_burn_def Let_def outcome_simps chain_wf_def dest!: execute_burn_state(1))
next
  case (step_validators sender first vs)
  then show ?thesis using assms(2)
    by (auto simp: chain_set_validators_def set_validators_chain_def outcome_simps chain_wf_def intro: sorted_wrt_snoc)
qed (use assms(2) in \<open>auto simp: chain_set_root_def add_root_hash_def chain_add_prover_def chain_add_router_def chain_remove_router_def chain_set_gas_def
    chain_mint_def chain_mint_with_authorization_def chain_burn_def chain_burn_to_address_def chain_burn_to_router_def set_burns_kind_def add_burn_def
    outcome_simps chain_wf_def Let_def split: prod.splits\<close>)

text \<open>
  The queries of the worker that follows the validator sets, answered by the contract, are as that worker relies on, whether or not they
  fail on the way; the sets of the contract only grow by \<open>chain_step_wf\<close>.
\<close>

lemma contract_item_from:
  assumes "\<And>k. si_sets item k = (if fails k then Err e else omap_err (\<lambda>_. Web3Contract ContractOther) (chain_validator_sets (unat k) s))"
    and "\<And>d. si_event item = Ok d \<Longrightarrow> 64 \<le> length d \<and> be_val (take 32 d) < length (chain_sets s)"
    and "si_event item \<noteq> Panic" "\<And>i. si_listen item i \<noteq> Panic"
  shows "item_from (chain_sets s) item"
  using assms by (auto simp: item_from_def chain_validator_sets_def)

section \<open>A contract with one validator\<close>

definition paying_env :: "unit chain_env" where
  "paying_env =
     \<lparr>self_address = 99, transfer_from = (\<lambda>_ _ _ u. Some (u, True)), transfer = (\<lambda>_ _ u. Some (u, True)), approve = (\<lambda>_ _ u. Some (u, True)),
      is_blacklisted = (\<lambda>_ _. False), router_call = (\<lambda>_ _ _ u. Some u), receive_with_authorization = (\<lambda>_ _ _ _ _ _ _ _ _ u. Some u),
      domain_separator = 0, has_code = (\<lambda>_. True), mint_verify = (\<lambda>_ _. True), burn_verify = (\<lambda>_ _. True), burn_verify_v2 = (\<lambda>_ _. True),
      aggregate_verify = (\<lambda>_ _ _ _ _. True), chain_keccak = keccak height_env, recover = (\<lambda>_ _ _ _. Some 3)\<rparr>"

definition sample_chain :: "Address list \<Rightarrow> contract_state" where
  "sample_chain vs = (case chain_initialize 1 2 vs 11 of Ok s \<Rightarrow> s)"

lemma sample_chain_ok: "distinct vs \<Longrightarrow> chain_initialize 1 2 vs 11 = Ok (sample_chain vs)"
  by (simp add: sample_chain_def chain_initialize_def set_validators_chain_def require_def)

lemmas sample_chain_wf = initialize_wf [OF sample_chain_ok]

lemma sample_validators: "distinct vs \<Longrightarrow> get_validators (update_validator_set_index h (sample_chain vs)) = vs"
  by (simp add: get_validators_def sample_chain_wf) (simp add: update_validator_set_index_def sample_chain_wf)

theorem contract_validators_agree_witness:
  "validators_for_height (chain_sets (sample_chain [3])) 5 = (Ok [3] :: (NodeError, Address list) outcome)"
  using contract_validators_agree [of "sample_chain [3]" 5] sample_validators [of "[3]" 5] by (simp add: sample_chain_wf)

theorem contract_block_verified_witness:
  "\<exists>s'. verify_block2 paying_env 2 [] [] 11 12 [0, 0, 0] 0 4 [([], [], 27)] (sample_chain [3], ()) = Ok (s', ()) \<and> current_root_hash s' = 12"
proof -
  have "root_hashes (sample_chain [3]) \<noteq> []" using sample_chain_wf(1) [of "[3]"] by (auto simp: chain_wf_def)
  then have "\<exists>s'. verify_block2 paying_env 2 [] [] 11 12 [0, 0, 0] 0 4 [([], [], 27)] (sample_chain [3], ()) = Ok (s', ())"
    by (cases "root_hashes (sample_chain [3])")
      (auto simp: verify_block2_Ok sample_chain_wf sample_validators verify_txn_def contains_root_hashes_def paying_env_def
        intro!: exI [of _ "[3]"])
  then obtain s' where "verify_block2 paying_env 2 [] [] 11 12 [0, 0, 0] 0 4 [([], [], 27)] (sample_chain [3], ()) = Ok (s', ())" by blast
  with contract_block_verified [OF sample_chain_wf(1) this] show ?thesis by auto
qed

theorem endorsement_message_agrees_witness:
  "\<exists>m. approval_hash (keccak height_env) (new_endorsement (bhash height_env (block_with 1 [])) 2) = (Ok m :: (unit, CryptoHash) outcome)
    \<and> sig_digest (keccak height_env) m
      = signed_message paying_env 1 (proposal_hash paying_env (broot (block_with 1 [])) 1 (header_hash height_env (bcontent (block_with 1 []))))"
  using endorsement_message_agrees [of paying_env height_env "block_with 1 []" "new_endorsement (bhash height_env (block_with 1 [])) 2"]
  by (simp add: paying_env_def new_endorsement_def)

theorem single_approval_rejected_witness:
  "\<nexists>su. deliver_rollup paying_env 2 \<lparr>ri_proof = \<lparr>rp_proof = [], rp_agg_instances = [], rp_old_root = 11, rp_new_root = 12, rp_utxo_hashes = []\<rparr>,
      ri_height = 1, ri_other_hash = 0, ri_signatures = [replicate 65 0]\<rparr> (sample_chain [3, 4], ()) = Ok su"
  by (rule single_approval_rejected) (simp_all add: sample_validators)


text \<open>A registered burn of value 4 that is paid ahead.\<close>

definition burn_chain_state :: contract_state where
  "burn_chain_state = add_burn 9 5 4 (sample_chain [3])"

lemma burn_chain_state_simps:
  "burns_wf burn_chain_state" "burns_kind burn_chain_state nf = 0" "burns burn_chain_state 9 = \<lparr>burn_to = 5, burn_amount = 4\<rparr>"
  "substituted_burns burn_chain_state nf \<longleftrightarrow> False" "rolled_up_leafs burn_chain_state nf \<longleftrightarrow> False" "block_height_of burn_chain_state = 0"
proof -
  have k: "burns_kind (sample_chain [3]) x = 0" "\<not> substituted_burns (sample_chain [3]) x" "\<not> rolled_up_leafs (sample_chain [3]) x"
    "block_height_of (sample_chain [3]) = 0" for x
    by (simp_all add: sample_chain_def chain_initialize_def set_validators_chain_def require_def add_root_hash_def)
  then show "burns_kind burn_chain_state nf = 0" "burns burn_chain_state 9 = \<lparr>burn_to = 5, burn_amount = 4\<rparr>"
    "substituted_burns burn_chain_state nf \<longleftrightarrow> False" "rolled_up_leafs burn_chain_state nf \<longleftrightarrow> False" "block_height_of burn_chain_state = 0"
    by (simp_all add: burn_chain_state_def add_burn_def)
  show "burns_wf burn_chain_state"
    using sample_chain_wf(2) [of "[3]"] by (simp add: burns_wf_def burn_chain_state_def add_burn_def substitutions_def)
qed

theorem substituted_once_witness:
  "\<exists>s'. chain_substitute_burn paying_env 6 9 4 (burn_chain_state, ()) = Ok (s', ()) \<and> substitutions 9 s' = [Burned 9 True True] \<and> burn_value s' 9 = 4"
proof -
  have "\<exists>s'. chain_substitute_burn paying_env 6 9 4 (burn_chain_state, ()) = Ok (s', ()) \<and> substituted_burns s' 9"
    by (simp add: chain_substitute_burn_def execute_burn_def execute_burn_to_address_def require_def reverting_def burn_chain_state_simps paying_env_def)
  then obtain s' where s': "chain_substitute_burn paying_env 6 9 4 (burn_chain_state, ()) = Ok (s', ())" "substituted_burns s' 9" by blast
  then have "(chain_step paying_env)\<^sup>*\<^sup>* (burn_chain_state, ()) (s', ())" by (blast intro: step_substitute)
  from substituted_once [OF this burn_chain_state_simps(1), of 9] s' show ?thesis
    by (simp add: burn_value_def burn_chain_state_simps)
qed

end
