(* ===== verification/Rollup_Run.thy ===== *)
theory Rollup_Run
  imports Rollup_Contract_Props Prover_Worker_Props
begin

text \<open>
  From a commit of the node to the contract: what the worker of a prover stores for a block
  (\<^verbatim>\<open>pkg/node/src/prover/worker.rs\<close>), delivered to the roll-up contract.
\<close>

section \<open>The transactions of a block at the contract\<close>

text \<open>A transaction refers to a root that the contract knows, and its mint or burn is registered with its value.\<close>

definition txn_registered :: "contract_state \<Rightarrow> UTXOProof \<Rightarrow> bool" where
  "txn_registered s t \<longleftrightarrow>
     (recent_root t = 0 \<or> recent_root t \<in> set (root_hashes s))
     \<and> (mb_value t \<noteq> 0 \<longrightarrow> mints s (mb_hash t) = mb_value t
         \<or> mints s (mb_hash t) = 0 \<and> burns_kind s (mb_hash t) = 0 \<and> burn_amount (burns s (mb_hash t)) = mb_value t)"

lemma registered_payable:
  assumes "\<forall>t \<in> set ts. txn_registered s t"
  shows "txns_payable s (concat (map (\<lambda>u. [recent_root u, mb_hash u, mb_value u]) ts) @ hs) \<longleftrightarrow> txns_payable s hs"
    "set (txn_roots (concat (map (\<lambda>u. [recent_root u, mb_hash u, mb_value u]) ts) @ hs)) = recent_root ` set ts \<union> set (txn_roots hs)"
  using assms by (induction ts) (auto simp: txn_registered_def)

lemma padding_payable: "txns_payable s (concat (replicate k [ZERO, ZERO, ZERO]))" "set (txn_roots (concat (replicate k [ZERO, ZERO, ZERO]))) \<subseteq> {0}"
  by (induction k) (auto simp: ZERO_def)

lemma block_hashes_payable:
  assumes "\<forall>t \<in> set (btxns b). txn_registered s t"
  shows "txns_payable s (block_hashes b)" "\<forall>r \<in> set (txn_roots (block_hashes b)). r = 0 \<or> r \<in> set (root_hashes s)"
  using registered_payable [OF assms] padding_payable assms unfolding block_hashes_def
  by (simp, fastforce simp: txn_registered_def)

lemma length_block_hashes:
  assumes "length (btxns b) \<le> MAXIMUM_TXNS"
  shows "length (block_hashes b) = UTXO_N * CONTRACT_UTXO_INPUTS"
proof -
  have "length (concat (map (\<lambda>u. [recent_root u, mb_hash u, mb_value u]) ts)) = 3 * length ts" for ts :: "UTXOProof list" by (induction ts) simp_all
  moreover have "length (concat (replicate k [ZERO, ZERO, ZERO])) = 3 * k" for k by (induction k) simp_all
  ultimately have "length (block_hashes b) = 3 * length (btxns b) + 3 * (MAXIMUM_TXNS - length (btxns b))"
    by (simp only: block_hashes_def length_append)
  then show ?thesis using assms
    by (simp add: MAXIMUM_TXNS_def UTXO_AGG_NUMBER_def UTXO_AGGREGATIONS_def UTXO_N_def CONTRACT_UTXO_INPUTS_def)
qed

section \<open>From the commit to the contract\<close>

text \<open>
  C5: what a prover stores for a block, at the contract. A prover follows the commit of a block whose transactions are registered with
  the contract, the next block carries the endorsement that its producer signs, and the contract has one validator, the node, and the
  root of the prover's tree as its current root. Then processing the commit stores an input for the block which the client can send,
  and the contract accepts it exactly when its verifier accepts the proof for the root of the tree, the root of the block and
  the roots, hashes and values of its transactions: roots, signatures, message, mints and burns are as the contract requires.
  When it accepts, the root of the block becomes its current root.
\<close>

theorem rollup_accepted:
  assumes W: "worker_env_ok W invar contents tinvar tcontents pinvar pcontents"
    and st: "pinvar (wdb st)" "pdb_ok (wcodec W) (pcontents (wdb st))" "wtree st = Some p" "notes_ok (wnode W) tinvar tcontents p"
    and b: "btxns b \<noteq> []" "bheight b \<notin> set (bad_blocks (config (wnode W)))" "followable W p b"
      "\<forall>t \<in> set (btxns b). \<forall>e \<in> set [recent_root t, mb_hash t, mb_value t]. represented (wfield W) e"
    and ours: "takes_block pg = Ok True" "contract_height < bheight b" "bheight b \<noteq> - 1"
    and approval: "to_approval_validated (keccak (henv (wnode W))) (sign_hash (wnode W)) (self_peer (wnode W))
        (new_endorsement (bhash (henv (wnode W)) b) (bheight b + 1)) = (Ok a :: (unit, ApprovalValidated) outcome)"
      "approvals (header (bcontent n)) = [signature a]"
    and chain: "chain_wf s" "provers s sender" "chain_keccak C = keccak (henv (wnode W))" "signer_recovered C (wnode W)"
      "get_validators (update_validator_set_index (ucast (bheight b)) s) = [self_peer (wnode W)]" "0 < self_peer (wnode W)"
      "current_root_hash s = notes_root (wnode W) p" "\<forall>t \<in> set (btxns b). txn_registered s t"
  shows "\<exists>st' os i. process_commit W contract_height pg (Some (Ok n)) b st = (st', os, Ok ())
    \<and> pdb_value (wcodec W) (pcontents (wdb st')) (PRollup (bheight b)) = Some (VRollup i)
    \<and> length (rp_utxo_hashes (ri_proof i)) = UTXO_N * CONTRACT_UTXO_INPUTS
    \<and> ((\<exists>su. deliver_rollup C sender i (s, u) = Ok su) \<longleftrightarrow>
         aggregate_verify C (rp_proof (ri_proof i)) (rp_agg_instances (ri_proof i)) (notes_root (wnode W) p) (broot b) (block_hashes b))
    \<and> (\<forall>s' u'. deliver_rollup C sender i (s, u) = Ok (s', u') \<longrightarrow> current_root_hash s' = broot b)"
proof -
  from process_commit_ok [OF W st b(1-3) ours(1), of contract_height n] ours(2) b(4) obtain st' os i where
    run: "process_commit W contract_height pg (Some (Ok n)) b st = (st', os, Ok ())"
      "pdb_value (wcodec W) (pcontents (wdb st')) (PRollup (bheight b)) = Some (VRollup i)"
    and i: "ri_height i = bheight b" "ri_other_hash i = header_hash (henv (wnode W)) (bcontent b)"
      "ri_signatures i = approvals (header (bcontent n))" "ri_old_root i = notes_root (wnode W) p"
      "rp_new_root (ri_proof i) = broot b" "rp_utxo_hashes (ri_proof i) = block_hashes b" by auto
  from approval(1) obtain m where m: "approval_hash (keccak (henv (wnode W))) (new_endorsement (bhash (henv (wnode W)) b) (bheight b + 1))
      = (Ok m :: (unit, CryptoHash) outcome)" "signature a = sign_hash (wnode W) m"
    by (auto simp: to_approval_validated_def omap_eq_Ok)
  have old: "rp_old_root (ri_proof i) = current_root_hash s" using i(4) chain(7) by (simp add: ri_old_root_def)
  note hashes = block_hashes_payable [OF chain(8), folded i(6)]
  have sigs: "ri_signatures i = [sign_hash (wnode W) m]" using i(3) approval(2) m(2) by simp
  note d = deliver_rollup_iff [OF chain(1-6) ours(3) m(1) i(1,2) sigs refl old i(5) hashes]
  have "length (rp_utxo_hashes (ri_proof i)) = UTXO_N * CONTRACT_UTXO_INPUTS"
    using b(3) i(6) length_block_hashes [of b] by (simp add: followable_def)
  with run d [of u] old chain(7) i(5,6) show ?thesis by (intro exI [of _ st'] exI [of _ os] exI [of _ i]) simp
qed

section \<open>A block of the sample prover\<close>

text \<open>The sample prover with signatures of the right length, and a contract that starts from the root of its tree.\<close>

definition signing_worker :: "(mem_db, mem_db, mem_db, gf5) worker_env" where
  "signing_worker = worker5\<lparr>wnode := (wnode worker5)\<lparr>sign_hash := \<lambda>_. replicate 65 0\<rparr>\<rparr>"

definition chain5 :: contract_state where
  "chain5 = (case chain_initialize 1 2 [3] (notes_root (wnode worker5) notes5) of Ok s \<Rightarrow> s)"

lemma chain5_wf: "chain_wf chain5" "current_root_hash chain5 = notes_root (wnode worker5) notes5"
  "chain_sets chain5 = [\<lparr>vs_validators = [3], valid_from = 0\<rparr>]" "validator_set_index chain5 = 0" "provers chain5 = (\<lambda>a. a = 2)"
proof -
  have "chain_initialize 1 2 [3] (notes_root (wnode worker5) notes5) = Ok chain5"
    by (simp add: chain5_def chain_initialize_def set_validators_chain_def require_def)
  note initialize_wf [OF this]
  then show "chain_wf chain5" "current_root_hash chain5 = notes_root (wnode worker5) notes5"
    "chain_sets chain5 = [\<lparr>vs_validators = [3], valid_from = 0\<rparr>]" "validator_set_index chain5 = 0" "provers chain5 = (\<lambda>a. a = 2)"
    by simp_all
qed

lemma signing_worker_ok:
  "worker_env_ok signing_worker bt_ok (\<lambda>d. d) bt_ok (\<lambda>d. d) bt_ok (\<lambda>d. d)"
  "notes_ok (wnode signing_worker) bt_ok (\<lambda>d. d) notes5" "followable signing_worker notes5 block5"
  "notes_root (wnode signing_worker) notes5 = notes_root (wnode worker5) notes5"
proof -
  have E: "wnode signing_worker = (wnode worker5)\<lparr>sign_hash := \<lambda>_. replicate 65 0\<rparr>" by (simp add: signing_worker_def)
  show "worker_env_ok signing_worker bt_ok (\<lambda>d. d) bt_ok (\<lambda>d. d) bt_ok (\<lambda>d. d)"
    using worker5_ok by (simp add: worker_env_ok_def signing_worker_def env_ok_def)
  show "notes_ok (wnode signing_worker) bt_ok (\<lambda>d. d) notes5" using notes5_ok(1) by (simp add: E)
  show "notes_root (wnode signing_worker) notes5 = notes_root (wnode worker5) notes5" by (simp add: E notes_root_def)
  have "new_root_hash (wnode signing_worker) = new_root_hash (wnode worker5)"
    by (simp add: fun_eq_iff E new_root_hash_def notes_root_with_def notes_root_def)
  then show "followable signing_worker notes5 block5" using block5_ok by (simp add: followable_def signing_worker_def)
qed

theorem rollup_accepted_witness:
  "\<exists>st' os i s'. process_commit signing_worker 0 None (Some (Ok (block5\<lparr>bcontent := (bcontent block5)\<lparr>header :=
        (header (bcontent block5))\<lparr>approvals := [replicate 65 0]\<rparr>\<rparr>\<rparr>))) block5 \<lparr>wdb = [], wtree = Some notes5\<rparr> = (st', os, Ok ())
    \<and> pdb_value unary_values (wdb st') (PRollup 1) = Some (VRollup i)
    \<and> deliver_rollup paying_env 2 i (chain5, ()) = Ok (s', ()) \<and> current_root_hash s' = broot block5"
proof -
  let ?n = "block5\<lparr>bcontent := (bcontent block5)\<lparr>header := (header (bcontent block5))\<lparr>approvals := [replicate 65 0]\<rparr>\<rparr>\<rparr>"
  let ?E = "wnode signing_worker"
  have E: "henv ?E = height_env" "self_peer ?E = 3" "sign_hash ?E = (\<lambda>_. replicate 65 0)" "wfield signing_worker = F5"
    "wcodec signing_worker = unary_values" "bad_blocks (config ?E) = []"
    by (simp_all add: signing_worker_def worker5_def sample_env_def)
  obtain a where a: "to_approval_validated (keccak (henv ?E)) (sign_hash ?E) (self_peer ?E) (new_endorsement (bhash (henv ?E) block5) (bheight block5 + 1))
      = (Ok a :: (unit, ApprovalValidated) outcome)" "signature a = replicate 65 0"
    by (simp add: to_approval_validated_def approval_hash_def new_endorsement_def E)
  have rec: "signer_recovered paying_env ?E"
    by (simp add: signer_recovered_def E split_signature_def paying_env_def)
  have vals: "get_validators (update_validator_set_index h chain5) = [3]" for h
    by (simp add: get_validators_def update_validator_set_index_def chain5_wf)
  have heads: "\<forall>t \<in> set (btxns block5). recent_root t = 0 \<and> mb_hash t = 0 \<and> mb_value t = 0"
    by (simp add: block5_def sample_txn_def)
  have "represented F5 0" using base_consts(3) [OF F5_ok] by (simp add: ZERO_def)
  with heads have rep: "\<forall>t \<in> set (btxns block5). \<forall>e \<in> set [recent_root t, mb_hash t, mb_value t]. represented (wfield signing_worker) e"
    by (simp add: E)
  have "\<exists>st' os i. process_commit signing_worker 0 None (Some (Ok ?n)) block5 \<lparr>wdb = [], wtree = Some notes5\<rparr> = (st', os, Ok ())
    \<and> pdb_value (wcodec signing_worker) (wdb st') (PRollup (bheight block5)) = Some (VRollup i)
    \<and> length (rp_utxo_hashes (ri_proof i)) = UTXO_N * CONTRACT_UTXO_INPUTS
    \<and> ((\<exists>su. deliver_rollup paying_env 2 i (chain5, ()) = Ok su) \<longleftrightarrow>
         aggregate_verify paying_env (rp_proof (ri_proof i)) (rp_agg_instances (ri_proof i)) (notes_root ?E notes5) (broot block5) (block_hashes block5))
    \<and> (\<forall>s' u'. deliver_rollup paying_env 2 i (chain5, ()) = Ok (s', u') \<longrightarrow> current_root_hash s' = broot block5)"
    by (rule rollup_accepted [OF signing_worker_ok(1) _ _ _ signing_worker_ok(2) _ _ signing_worker_ok(3) rep _ _ _ a(1) _ chain5_wf(1) _ _ rec])
      (use heads in \<open>simp_all add: pdb_ok_def E a(2) chain5_wf vals signing_worker_ok(4) txn_registered_def, simp_all add: paying_env_def\<close>)
  then obtain st' os i where
    run: "process_commit signing_worker 0 None (Some (Ok ?n)) block5 \<lparr>wdb = [], wtree = Some notes5\<rparr> = (st', os, Ok ())"
      "pdb_value unary_values (wdb st') (PRollup 1) = Some (VRollup i)" "\<exists>su. deliver_rollup paying_env 2 i (chain5, ()) = Ok su"
      "\<forall>s' u'. deliver_rollup paying_env 2 i (chain5, ()) = Ok (s', u') \<longrightarrow> current_root_hash s' = broot block5"
    by (auto simp: E) (auto simp: paying_env_def)
  from run(3) obtain s' where "deliver_rollup paying_env 2 i (chain5, ()) = Ok (s', ())" by auto
  with run show ?thesis by blast
qed

end
