(* ===== verification/Burn_Substitutor.thy ===== *)
theory Burn_Substitutor
  imports Rpc_Correct Contracts
begin

text \<open>
  The burn substitutor (\<^verbatim>\<open>pkg/burn-substitutor/src/lib.rs\<close>): it reads the transactions of the node behind the last block that was
  rolled up, page by page, and pays the burns among them ahead of the roll-up. The contract is an interface of four
  operations on a state; the node is reached through its route for transactions.
\<close>

section \<open>The substitutor\<close>

datatype SubstituteError =
    FailedToFetchRollupBlock ContractsError
  | FailedToFetchTransactions
  | FailedToCheckBurn ContractsError
  | FailedToSubstituteBurn ContractsError
  | FailedToWait ContractsError

record 'c burn_chain =
  bc_height :: "'c \<Rightarrow> (ContractsError, u64) outcome"
  bc_was_substituted :: "'c \<Rightarrow> element \<Rightarrow> (ContractsError, bool) outcome"
  bc_substitute :: "'c \<Rightarrow> element \<Rightarrow> element \<Rightarrow> 'c \<times> (ContractsError, CryptoHash) outcome"
  bc_confirm :: "'c \<Rightarrow> CryptoHash \<Rightarrow> 'c \<times> (ContractsError, u64) outcome"

type_synonym txn_cursor = "ListTxnsPosition CursorChoice Opaque option"

text \<open>A burn has one input, no outputs and both the hash and the value of a burn; its nullifier is the input.\<close>

definition burn_nullifier :: "UTXOProof \<Rightarrow> element option" where
  "burn_nullifier p =
     (let inputs = filter (\<lambda>e. \<not> is_zero e) (pair_list (input_leaves p));
          has_only_one_input = length inputs = 1;
          has_no_outputs = list_all is_zero (pair_list (output_leaves p));
          has_mb = mb_hash p \<noteq> ZERO \<and> mb_value p \<noteq> ZERO
      in if has_only_one_input \<and> has_no_outputs \<and> has_mb then Some (inputs ! 0) else None)"

fun substitute_loop ::
    "'c burn_chain \<Rightarrow> UTXOProof list \<Rightarrow> 'c \<Rightarrow> element list \<Rightarrow> 'c \<times> (SubstituteError, element list) outcome" where
  "substitute_loop B [] c done_burns = (c, Ok done_burns)"
| "substitute_loop B (p # ps) c done_burns =
     (case burn_nullifier p of
        None \<Rightarrow> substitute_loop B ps c done_burns
      | Some nf \<Rightarrow>
          (case omap_err FailedToCheckBurn (bc_was_substituted B c nf) of
             Ok True \<Rightarrow> substitute_loop B ps c done_burns
           | Ok False \<Rightarrow>
               (case bc_substitute B c nf (mb_value p) of
                  (c1, Ok txn) \<Rightarrow>
                    (case bc_confirm B c1 txn of
                       (c2, Ok _) \<Rightarrow> substitute_loop B ps c2 (done_burns @ [nf])
                     | (c2, Err e) \<Rightarrow> (c2, Err (FailedToWait e))
                     | (c2, Panic) \<Rightarrow> (c2, Panic))
                | (c1, Err e) \<Rightarrow> (c1, Err (FailedToSubstituteBurn e))
                | (c1, Panic) \<Rightarrow> (c1, Panic))
           | Err e \<Rightarrow> (c, Err e)
           | Panic \<Rightarrow> (c, Panic)))"

text \<open>The request: no limit, oldest transactions first, no polling. Any answer but a page is an error.\<close>

definition fetch_transactions ::
    "(ListTxnsQuery \<Rightarrow> (HTTPError, ListTxnsResponse) outcome) \<Rightarrow> txn_cursor
      \<Rightarrow> (SubstituteError, UTXOProof list \<times> ListTxnsPosition OpaqueCursor) outcome" where
  "fetch_transactions serve cursor =
     omap (\<lambda>r. (map ti_proof (ltr_txns r), ltr_cursor r))
       (omap_err (\<lambda>_. FailedToFetchTransactions) (serve \<lparr>lt_limit = None, lt_cursor = cursor, lt_order = OldestToNewest, lt_poll = False\<rparr>))"

definition start_cursor :: "u64 \<Rightarrow> txn_cursor" where
  "start_cursor last_rollup = Some (choice_opaque (ChoiceAfter (After \<lparr>lp_block = last_rollup, lp_txn = - 1\<rparr>)))"

definition tick_page ::
    "'c burn_chain \<Rightarrow> (ListTxnsQuery \<Rightarrow> (HTTPError, ListTxnsResponse) outcome) \<Rightarrow> txn_cursor \<Rightarrow> 'c
      \<Rightarrow> txn_cursor \<times> 'c \<times> (SubstituteError, element list) outcome" where
  "tick_page B serve cursor c =
     (case fetch_transactions serve cursor of
        Ok (ps, next) \<Rightarrow>
          (case substitute_loop B ps c [] of
             (c', Ok substituted_burns) \<Rightarrow>
               (if ps \<noteq> [] then map_option (\<lambda>after. choice_opaque (ChoiceAfter (into_inner after))) (opaque_after next) else cursor,
                c', Ok substituted_burns)
           | (c', r) \<Rightarrow> (cursor, c', r))
      | Err e \<Rightarrow> (cursor, c, Err e)
      | Panic \<Rightarrow> (cursor, c, Panic))"

definition substitutor_tick ::
    "'c burn_chain \<Rightarrow> (ListTxnsQuery \<Rightarrow> (HTTPError, ListTxnsResponse) outcome) \<Rightarrow> txn_cursor \<Rightarrow> 'c
      \<Rightarrow> txn_cursor \<times> 'c \<times> (SubstituteError, element list) outcome" where
  "substitutor_tick B serve cursor c =
     (case cursor of
        Some _ \<Rightarrow> tick_page B serve cursor c
      | None \<Rightarrow>
          (case bc_height B c of
             Ok last_rollup \<Rightarrow> tick_page B serve (start_cursor last_rollup) c
           | Err e \<Rightarrow> (None, c, Err (FailedToFetchRollupBlock e))
           | Panic \<Rightarrow> (None, c, Panic)))"

text \<open>The loop of the binary: tick after tick, until one fails. The burns of all ticks, in order.\<close>

fun substitutor_run ::
    "nat \<Rightarrow> 'c burn_chain \<Rightarrow> (ListTxnsQuery \<Rightarrow> (HTTPError, ListTxnsResponse) outcome) \<Rightarrow> txn_cursor \<Rightarrow> 'c
      \<Rightarrow> 'c \<times> (SubstituteError, element list) outcome" where
  "substitutor_run 0 B serve cursor c = (c, Ok [])"
| "substitutor_run (Suc n) B serve cursor c =
     (case substitutor_tick B serve cursor c of
        (cursor', c', Ok burnt) \<Rightarrow>
          (case substitutor_run n B serve cursor' c' of (c'', r) \<Rightarrow> (c'', omap ((@) burnt) r))
      | (cursor', c', r) \<Rightarrow> (c', r))"

section \<open>What the loop over a page does\<close>

text \<open>
  What the substitutor relies on: the contract answers which burns were substituted, and a burn with its value from the set \<open>P\<close> that was
  not substituted can be, while \<open>J\<close> holds; this adds the burn and nothing else.
\<close>

definition burn_chain_ok :: "'c burn_chain \<Rightarrow> ('c \<Rightarrow> element set) \<Rightarrow> ('c \<Rightarrow> bool) \<Rightarrow> (element \<times> element) set \<Rightarrow> bool" where
  "burn_chain_ok B subst J P \<longleftrightarrow>
     (\<forall>c nf. J c \<longrightarrow> bc_was_substituted B c nf = Ok (nf \<in> subst c))
     \<and> (\<forall>c nf v. J c \<longrightarrow> (nf, v) \<in> P \<longrightarrow> nf \<notin> subst c \<longrightarrow>
          (\<exists>c1 txn c2 n. bc_substitute B c nf v = (c1, Ok txn) \<and> bc_confirm B c1 txn = (c2, Ok n) \<and> J c2 \<and> subst c2 = insert nf (subst c)))"

text \<open>The burns of a list of transactions that are not in a set, each once and in order.\<close>

fun new_burns :: "element set \<Rightarrow> UTXOProof list \<Rightarrow> element list" where
  "new_burns S [] = []"
| "new_burns S (p # ps) =
     (case burn_nullifier p of
        Some nf \<Rightarrow> if nf \<in> S then new_burns S ps else nf # new_burns (insert nf S) ps
      | None \<Rightarrow> new_burns S ps)"

definition burns_of :: "UTXOProof list \<Rightarrow> (element \<times> element) set" where
  "burns_of ps = {(nf, mb_value p) | nf p. p \<in> set ps \<and> burn_nullifier p = Some nf}"

lemma new_burns_append: "new_burns S (ps @ qs) = new_burns S ps @ new_burns (S \<union> set (new_burns S ps)) qs"
  by (induction S ps rule: new_burns.induct) (auto split: option.split)

lemma new_burns_distinct: "distinct (new_burns S ps) \<and> set (new_burns S ps) = fst ` burns_of ps - S"
proof (induction S ps rule: new_burns.induct)
  case (2 S p ps)
  have "burns_of (p # ps) = (case burn_nullifier p of Some nf \<Rightarrow> {(nf, mb_value p)} | None \<Rightarrow> {}) \<union> burns_of ps"
    by (auto simp: burns_of_def split: option.split)
  with 2 show ?case by (auto split: option.split)
qed (simp add: burns_of_def)

lemma substitute_loop_spec:
  assumes "burn_chain_ok B subst J P"
  shows "J c \<Longrightarrow> burns_of ps \<subseteq> P \<Longrightarrow> \<exists>c'. substitute_loop B ps c done_burns = (c', Ok (done_burns @ new_burns (subst c) ps))
    \<and> J c' \<and> subst c' = subst c \<union> set (new_burns (subst c) ps)"
proof (induction ps arbitrary: c done_burns)
  case (Cons p ps)
  have P: "burns_of ps \<subseteq> P" using Cons.prems(2) by (auto simp: burns_of_def)
  have w: "bc_was_substituted B c nf = Ok (nf \<in> subst c)" for nf using assms Cons.prems(1) by (simp add: burn_chain_ok_def)
  show ?case
  proof (cases "burn_nullifier p")
    case None
    with Cons.IH [OF Cons.prems(1) P] show ?thesis by simp
  next
    case (Some nf)
    show ?thesis
    proof (cases "nf \<in> subst c")
      case True
      with Some w Cons.IH [OF Cons.prems(1) P] show ?thesis by simp
    next
      case False
      have "(nf, mb_value p) \<in> P" using Some Cons.prems(2) by (auto simp: burns_of_def)
      with assms Cons.prems(1) False obtain c1 txn c2 n where
        c2: "bc_substitute B c nf (mb_value p) = (c1, Ok txn)" "bc_confirm B c1 txn = (c2, Ok n)" "J c2" "subst c2 = insert nf (subst c)"
        unfolding burn_chain_ok_def by blast
      from Cons.IH [OF c2(3) P, of "done_burns @ [nf]"] show ?thesis using Some False w c2 by auto
    qed
  qed
qed simp

end
