(* ===== verification/Burn_Substitutor_Props.thy ===== *)
theory Burn_Substitutor_Props
  imports Burn_Substitutor Rollup_Contract_Props Rpc_Props
begin

text \<open>
  The substitutor composed with the route of the node that lists transactions: every burn behind the last rolled-up block is
  paid ahead exactly once. The roll-up contract is an instance of the interface.
\<close>

section \<open>Pages behind a height\<close>

lemma listed_filter: "listed order L \<Longrightarrow> listed order (filter P L)"
  by (auto simp: listed_def sorted_wrt_map intro: sorted_wrt_filter)

lemma list_txns_start:
  assumes L: "listed LowestToHighest L"
    and fetch: "\<And>cursor n. fetcher cursor LowestToHighest n = Ok (map (Ok \<circ> snd) (page LowestToHighest cursor n L))"
    and ts: "ts = take (page_limit limit) (infos E now_s mh (filter (\<lambda>(h, _). r < h) L))"
  shows "list_txns_inner E now_s fetcher \<lparr>lt_limit = limit, lt_cursor = Some (Opaque (ChoiceAfter (After \<lparr>lp_block = r, lp_txn = x\<rparr>))),
      lt_order = OldestToNewest, lt_poll = poll\<rparr> mh = Ok (page_cursor ts, ts)"
proof (rule list_txns_inner_eq)
  let ?n = "page_limit limit" and ?L = "filter (\<lambda>(h, _). r < h) L"
  let ?c = "Some (Opaque (ChoiceAfter (After \<lparr>lp_block = r, lp_txn = x\<rparr>)))"
  show "fetcher (map_option (choice_map_pos lp_block) (map_option into_inner ?c)) (to_block_list_order OldestToNewest) (?n + 1)
      = Ok (map (Ok \<circ> snd) (take (?n + 1) ?L))" by (simp add: fetch)
  have l: "listed LowestToHighest ?L" by (rule listed_filter [OF L])
  have "filter (\<lambda>t. \<not> skipped (map_option into_inner ?c) (Ok t)) (infos E now_s mh (take (?n + 1) ?L)) = infos E now_s mh (take (?n + 1) ?L)"
    unfolding option.map Opaque.sel
    by (rule kept_elsewhere [OF listed_take [OF l]]) (auto dest!: in_set_takeD)
  moreover have "take (?n + 1) (infos E now_s mh (take (?n + 1) ?L)) = take (?n + 1) (infos E now_s mh ?L)"
    using take_infos [OF l, where xs = "[]"] by simp
  from arg_cong [OF this, of "take ?n"] have "take ?n (infos E now_s mh (take (?n + 1) ?L)) = ts" by (simp add: ts)
  ultimately show "ts = take ?n (filter (\<lambda>t. \<not> skipped (map_option into_inner ?c) (Ok t)) (infos E now_s mh (take (?n + 1) ?L)))" by simp
qed

text \<open>In a listing from low to high, the blocks behind a height are a suffix.\<close>

lemma listed_suffix: "listed LowestToHighest L \<Longrightarrow> L = filter (\<lambda>(h, _). h \<le> r) L @ filter (\<lambda>(h, _). r < h) L"
proof (induction L)
  case (Cons x L)
  obtain h f where x: "x = (h, f)" by fastforce
  have l: "listed LowestToHighest L" using Cons.prems listed_append [of LowestToHighest "[x]" L] by simp
  show ?case
  proof (cases "h \<le> r")
    case False
    have "\<forall>(h', _) \<in> set L. h < h'" using Cons.prems by (auto simp: x listed_def)
    with False have "filter (\<lambda>(h, _). h \<le> r) L = []" "filter (\<lambda>(h, _). r < h) L = L"
      by (auto simp: filter_empty_conv filter_id_conv)
    with False show ?thesis by (simp add: x)
  qed (use Cons.IH [OF l] in \<open>simp add: x\<close>)
qed simp

lemma infos_filter:
  assumes "listed order L"
  shows "infos E now_s mh (filter (\<lambda>(h, _). r < h) L) = filter (\<lambda>t. r < ti_block_height t) (infos E now_s mh L)"
  using assms
proof (induction L)
  case (Cons x L)
  obtain h f where x: "x = (h, f)" by fastforce
  have l: "listed order L" using Cons.prems listed_append [of order "[x]" L] by simp
  have "ti_block_height t = h" if "t \<in> set (txn_infos E (into_block f) z)" for t z
    using that Cons.prems by (auto simp: x listed_def txn_infos_def)
  then have "filter (\<lambda>t. r < ti_block_height t) (txn_infos E (into_block f) z) = (if r < h then txn_infos E (into_block f) z else [])" for z
    by (auto simp: filter_id_conv filter_empty_conv)
  with Cons.IH [OF l] show ?case by (simp add: x)
qed simp

section \<open>Tick after tick\<close>

definition progress_cursor :: "u64 \<Rightarrow> TxnWithInfo list \<Rightarrow> nat \<Rightarrow> txn_cursor" where
  "progress_cursor r T j =
     (if j = 0 then start_cursor r else Some (choice_opaque (ChoiceAfter (AfterInclusive (position_of (T ! (j - 1)))))))"

definition serves_pages :: "(ListTxnsQuery \<Rightarrow> (HTTPError, ListTxnsResponse) outcome) \<Rightarrow> u64 \<Rightarrow> TxnWithInfo list \<Rightarrow> nat \<Rightarrow> bool" where
  "serves_pages serve r T m \<longleftrightarrow> 0 < m \<and> (\<forall>j \<le> length T.
     serve \<lparr>lt_limit = None, lt_cursor = progress_cursor r T j, lt_order = OldestToNewest, lt_poll = False\<rparr>
       = Ok \<lparr>ltr_txns = take m (drop j T), ltr_cursor = into_opaque (page_cursor (take m (drop j T)))\<rparr>)"

lemma tick_page_spec:
  assumes B: "burn_chain_ok B subst J P" "J c" "burns_of (map ti_proof T) \<subseteq> P"
    and serve: "serves_pages serve r T m" and j: "j \<le> length T"
  shows "\<exists>c'. tick_page B serve (progress_cursor r T j) c
      = (progress_cursor r T (min (j + m) (length T)), c', Ok (new_burns (subst c) (map ti_proof (take m (drop j T)))))
    \<and> J c' \<and> subst c' = subst c \<union> set (new_burns (subst c) (map ti_proof (take m (drop j T))))"
proof -
  let ?p = "take m (drop j T)"
  have "burns_of (map ti_proof ?p) \<subseteq> P"
    using B(3) by (auto simp: burns_of_def dest!: in_set_takeD in_set_dropD)
  from substitute_loop_spec [OF B(1,2) this, of "[]"] obtain c' where
    c': "substitute_loop B (map ti_proof ?p) c [] = (c', Ok (new_burns (subst c) (map ti_proof ?p)))" "J c'"
      "subst c' = subst c \<union> set (new_burns (subst c) (map ti_proof ?p))" by auto
  have s: "serve \<lparr>lt_limit = None, lt_cursor = progress_cursor r T j, lt_order = OldestToNewest, lt_poll = False\<rparr>
      = Ok \<lparr>ltr_txns = ?p, ltr_cursor = into_opaque (page_cursor ?p)\<rparr>" and m: "0 < m"
    using serve j by (simp_all add: serves_pages_def)
  have "(if map ti_proof ?p \<noteq> [] then map_option (\<lambda>after. choice_opaque (ChoiceAfter (into_inner after))) (opaque_after (into_opaque (page_cursor ?p)))
      else progress_cursor r T j) = progress_cursor r T (min (j + m) (length T))"
  proof (cases "j < length T")
    case True
    then have n: "?p \<noteq> []" "min (j + m) (length T) \<noteq> 0" using m by auto
    have "last ?p = ?p ! (length ?p - 1)" using n(1) by (rule last_conv_nth)
    also have "\<dots> = T ! (j + (length ?p - 1))" using True m by (subst nth_take) (auto simp: min_def)
    also have "j + (length ?p - 1) = min (j + m) (length T) - 1" using True m by (auto simp: min_def)
    finally have "last ?p = T ! (min (j + m) (length T) - 1)" .
    moreover have "progress_cursor r T (min (j + m) (length T))
        = Some (choice_opaque (ChoiceAfter (AfterInclusive (position_of (T ! (min (j + m) (length T) - 1))))))"
      unfolding progress_cursor_def using n(2) by (simp only: if_False)
    ultimately show ?thesis using n(1) by (simp add: page_cursor_def into_opaque_def)
  qed (use j in \<open>simp add: min_def\<close>)
  then show ?thesis using c' s by (auto simp: tick_page_def fetch_transactions_def)
qed

lemma progress_cursor_Some: "\<exists>x. progress_cursor r T j = Some x"
  by (simp add: progress_cursor_def start_cursor_def)

lemma substitutor_run_spec:
  assumes B: "burn_chain_ok B subst J P" "burns_of (map ti_proof T) \<subseteq> P" and serve: "serves_pages serve r T m"
  shows "J c \<Longrightarrow> j \<le> length T \<Longrightarrow> \<exists>c'. substitutor_run n B serve (progress_cursor r T j) c
      = (c', Ok (new_burns (subst c) (map ti_proof (take (n * m) (drop j T)))))
    \<and> J c' \<and> subst c' = subst c \<union> set (new_burns (subst c) (map ti_proof (take (n * m) (drop j T))))"
proof (induction n arbitrary: c j)
  case (Suc n)
  let ?p = "take m (drop j T)" and ?k = "min (j + m) (length T)"
  let ?q = "take (n * m) (drop ?k T)"
  from tick_page_spec [OF B(1) Suc.prems(1) B(2) serve Suc.prems(2)] obtain c1 where
    c1: "tick_page B serve (progress_cursor r T j) c = (progress_cursor r T ?k, c1, Ok (new_burns (subst c) (map ti_proof ?p)))"
      "J c1" "subst c1 = subst c \<union> set (new_burns (subst c) (map ti_proof ?p))" by blast
  from Suc.IH [OF c1(2), of ?k] obtain c' where
    c': "substitutor_run n B serve (progress_cursor r T ?k) c1 = (c', Ok (new_burns (subst c1) (map ti_proof ?q)))" "J c'"
      "subst c' = subst c1 \<union> set (new_burns (subst c1) (map ti_proof ?q))" by auto
  have "drop ?k T = drop m (drop j T)" by (auto simp: min_def add.commute)
  then have "take (Suc n * m) (drop j T) = ?p @ ?q" by (simp add: take_add)
  moreover obtain x where "progress_cursor r T j = Some x" using progress_cursor_Some by blast
  then have "substitutor_tick B serve (progress_cursor r T j) c = tick_page B serve (progress_cursor r T j) c"
    by (simp add: substitutor_tick_def)
  ultimately show ?case using c1 c' by (auto simp: new_burns_append)
qed simp


section \<open>All burns behind the last rolled-up block\<close>

lemma list_txns_serves:
  assumes kv: "kv_store (store_db E) invar contents" "invar (block_store st)" "entries_ok (store_ops E) (contents (block_store st))"
    and size: "\<forall>f. Ok f \<in> set (fetch_blocks_non_empty E (Unbounded, Unbounded) LowestToHighest st) \<longrightarrow> length (btxns (into_block f)) \<le> 2 ^ 64"
    and T: "flatten_txns E now_s (cmax_height (block_cache st)) (fetch_blocks_non_empty E (Unbounded, Unbounded) LowestToHighest st) = map Ok T"
  shows "serves_pages (\<lambda>q. list_txns E now_s q None st) r (filter (\<lambda>t. r < ti_block_height t) T) 10"
proof -
  let ?mh = "cmax_height (block_cache st)" and ?fetch = "\<lambda>c o' l. fetch_blocks_non_empty_paginated E c o' l st"
  from fetch_non_empty_listed [OF kv, of LowestToHighest] obtain L where
    L: "listed LowestToHighest L" "fetch_blocks_non_empty E (Unbounded, Unbounded) LowestToHighest st = map (Ok \<circ> snd) L"
      "\<And>c n. ?fetch c LowestToHighest n = Ok (map (Ok \<circ> snd) (page LowestToHighest c n L))" by blast
  have "map Ok (infos E now_s ?mh L) = (map Ok T :: (NodeError, TxnWithInfo) outcome list)" using T unfolding L(2) flatten_infos .
  then have T': "T = infos E now_s ?mh L" by (metis injI list.inj_map_strong outcome.inject(1))
  let ?T = "filter (\<lambda>t. r < ti_block_height t) T" and ?L1 = "filter (\<lambda>(h, _). h \<le> r) L"
  have F: "?T = infos E now_s ?mh (filter (\<lambda>(h, _). r < h) L)" unfolding T' by (rule infos_filter [OF L(1), symmetric])
  have app: "infos E now_s ?mh L = infos E now_s ?mh ?L1 @ ?T"
    by (subst listed_suffix [OF L(1), of r]) (simp add: F)
  have s: "\<forall>(h, f) \<in> set L. length (btxns (into_block f)) \<le> 2 ^ 64" using size unfolding L(2) by force
  have inner: "list_txns_inner E now_s ?fetch \<lparr>lt_limit = None, lt_cursor = progress_cursor r ?T j, lt_order = OldestToNewest, lt_poll = False\<rparr> ?mh
      = Ok (page_cursor (take 10 (drop j ?T)), take 10 (drop j ?T))" if j: "j \<le> length ?T" for j
  proof (cases "j = 0")
    case True
    then show ?thesis
      using list_txns_start [where fetcher = ?fetch and E = E and now_s = now_s and mh = ?mh and r = r and limit = None and x = "- 1" and poll = False,
          OF L(1) L(3) refl]
      by (simp add: progress_cursor_def start_cursor_def choice_opaque_def F page_limit_def)
  next
    case False
    let ?k = "length (infos E now_s ?mh ?L1) + (j - 1)"
    have k: "?k < length (infos E now_s ?mh L)" "infos E now_s ?mh L ! ?k = ?T ! (j - 1)" "drop (Suc ?k) (infos E now_s ?mh L) = drop j ?T"
      using False j unfolding app by (simp_all add: nth_append)
    have o: "to_block_list_order OldestToNewest = LowestToHighest" by simp
    have "list_txns_inner E now_s ?fetch \<lparr>lt_limit = None,
        lt_cursor = Some (Opaque (ChoiceAfter (AfterInclusive (position_of (infos E now_s ?mh L ! ?k))))), lt_order = OldestToNewest, lt_poll = False\<rparr> ?mh
      = Ok (page_cursor (take 10 (drop j ?T)), take 10 (drop j ?T))"
      by (rule list_txns_after [where fetcher = ?fetch and L = L]) (use L s k in \<open>simp_all add: page_limit_def\<close>)
    then show ?thesis unfolding k(2) using False by (simp add: progress_cursor_def choice_opaque_def)
  qed
  show ?thesis unfolding serves_pages_def
    by (auto simp: list_txns_def Let_def inner)
qed

text \<open>
  C7: the substitutor pays every burn behind the last rolled-up block. Let the node have the transactions \<open>T\<close>, and let the contract
  accept a substitution of each of their burns behind its height that was not substituted. A substitutor that starts and ticks
  often enough, once per ten transactions, substitutes exactly the burns of the blocks behind the height of the contract that were not substituted before,
  each once and in the order of the blocks; no tick fails.
\<close>

theorem substitutor_complete:
  assumes kv: "kv_store (store_db E) invar contents" "invar (block_store st)" "entries_ok (store_ops E) (contents (block_store st))"
    and size: "\<forall>f. Ok f \<in> set (fetch_blocks_non_empty E (Unbounded, Unbounded) LowestToHighest st) \<longrightarrow> length (btxns (into_block f)) \<le> 2 ^ 64"
    and T: "flatten_txns E now_s (cmax_height (block_cache st)) (fetch_blocks_non_empty E (Unbounded, Unbounded) LowestToHighest st) = map Ok T"
    and ps: "ps = map ti_proof (filter (\<lambda>t. r < ti_block_height t) T)"
    and B: "burn_chain_ok B subst J (burns_of ps)" "J c" "bc_height B c = Ok r" and n: "0 < n" "length ps \<le> n * 10"
  shows "\<exists>c'. substitutor_run n B (\<lambda>q. list_txns E now_s q None st) None c = (c', Ok (new_burns (subst c) ps))
    \<and> distinct (new_burns (subst c) ps) \<and> set (new_burns (subst c) ps) = fst ` burns_of ps - subst c
    \<and> subst c' = subst c \<union> fst ` burns_of ps"
proof -
  let ?T = "filter (\<lambda>t. r < ti_block_height t) T" and ?serve = "\<lambda>q. list_txns E now_s q None st"
  note serve = list_txns_serves [OF kv size T, of r]
  have P: "burns_of (map ti_proof ?T) \<subseteq> burns_of ps" by (simp add: ps)
  from substitutor_run_spec [OF B(1) P serve B(2), of 0 n] obtain c' where
    c': "substitutor_run n B ?serve (progress_cursor r ?T 0) c = (c', Ok (new_burns (subst c) ps))"
      "subst c' = subst c \<union> set (new_burns (subst c) ps)"
    using n(2) by (auto simp: ps)
  obtain n' where n': "n = Suc n'" using n(1) by (cases n) auto
  have "substitutor_tick B ?serve None c = substitutor_tick B ?serve (progress_cursor r ?T 0) c"
    by (simp add: substitutor_tick_def B(3) progress_cursor_def start_cursor_def)
  then have "substitutor_run n B ?serve None c = (c', Ok (new_burns (subst c) ps))" using c'(1) by (simp add: n')
  with c'(2) new_burns_distinct [of "subst c" ps] show ?thesis by auto
qed


section \<open>The contract as the other side\<close>

text \<open>The contract behind the interface of the substitutor, for transactions that are confirmed when they are sent.\<close>

definition contract_market :: "'u chain_env \<Rightarrow> Address \<Rightarrow> 'u chain burn_chain" where
  "contract_market C sender =
     \<lparr>bc_height = (\<lambda>(s, u). Ok (ucast (block_height_of s))),
      bc_was_substituted = (\<lambda>(s, u) nf. Ok (substituted_burns s nf)),
      bc_substitute = (\<lambda>su nf v. case chain_substitute_burn C sender nf v su of
          Ok su' \<Rightarrow> (su', Ok 0) | Err e \<Rightarrow> (su, Err (Other e)) | Panic \<Rightarrow> (su, Panic)),
      bc_confirm = (\<lambda>su _. (su, Ok 0))\<rparr>"

text \<open>The burns of a set are registered with their values, and none is rolled up.\<close>

definition registered :: "(element \<times> element) set \<Rightarrow> 'u chain \<Rightarrow> bool" where
  "registered P = (\<lambda>(s, u). \<forall>(nf, v) \<in> P. \<not> rolled_up_leafs s nf
     \<and> (substituted_burns s nf \<or> burns_kind s nf = 0 \<and> burn_amount (burns s nf) = v \<and> v \<noteq> 0))"

text \<open>With a token that pays, the contract is what the substitutor relies on.\<close>

lemma contract_market_ok:
  assumes pays: "\<And>a b v u. transfer_from C a b v u \<noteq> None" "\<And>a v u. transfer C a v u \<noteq> None"
  shows "burn_chain_ok (contract_market C sender) (\<lambda>(s, u). {nf. substituted_burns s nf}) (registered P) P"
proof -
  have "\<exists>s' u'. chain_substitute_burn C sender nf v (s, u) = Ok (s', u') \<and> registered P (s', u')
      \<and> {x. substituted_burns s' x} = insert nf {x. substituted_burns s x}"
    if r: "registered P (s, u)" and P: "(nf, v) \<in> P" and n: "\<not> substituted_burns s nf" for s u nf v
  proof -
    from r P n have b: "\<not> rolled_up_leafs s nf" "burns_kind s nf = 0" "burn_amount (burns s nf) = v" "v \<noteq> 0"
      by (auto simp: registered_def)
    obtain u1 r1 where u1: "transfer_from C sender (self_address C) v u = Some (u1, r1)" using pays(1) by fast
    obtain u2 r2 where u2: "transfer C (burn_to (burns s nf)) v u1 = Some (u2, r2)" using pays(2) by fast
    let ?s = "(emit (Burned nf True True) (s\<lparr>substituted_burns := (substituted_burns s)(nf := True)\<rparr>))
        \<lparr>burns_kind := (burns_kind s)(nf := 0), burns := (burns s)(nf := \<lparr>burn_to = sender, burn_amount = v\<rparr>)\<rparr>"
    have "chain_substitute_burn C sender nf v (s, u) = Ok (?s, u2)"
      using b n u1 u2
      by (simp add: chain_substitute_burn_def execute_burn_def execute_burn_to_address_def require_def reverting_def)
    moreover have "registered P (?s, u2)" using r by (fastforce simp: registered_def split: if_splits)
    ultimately show ?thesis by auto
  qed
  then show ?thesis unfolding burn_chain_ok_def contract_market_def by fastforce
qed

section \<open>A node with one burn\<close>

definition burn_txn :: UTXOProof where
  "burn_txn = utxo_of (0, 9, 4, (9, 0), (0, 0), [])"

definition burn_env :: "(mem_db, mem_db) node_env" where
  "burn_env = sample_env\<lparr>store_codec := unary_formats\<lparr>bf_from_bytes := \<lambda>_. Ok (BlockV1 (block_with 1 [burn_txn]))\<rparr>\<rparr>"

lemma burn_ok:
  "kv_store (store_db burn_env) bt_ok (\<lambda>d. d)" "bt_ok (block_store pages_state)" "entries_ok (store_ops burn_env) (block_store pages_state)"
proof -
  show "kv_store (store_db burn_env) bt_ok (\<lambda>d. d)" by (simp add: burn_env_def mem.kv_store_axioms)
  show "bt_ok (block_store pages_state)" by (simp add: pages_state_def bt_ok_def bt_keys_def)
  have "value_ok (store_ops burn_env) (KeyNonEmptyBlock 1) []"
    by (simp add: burn_env_def format_ops_def format_txns_Nil)
  then show "entries_ok (store_ops burn_env) (block_store pages_state)" unfolding entries_ok_def pages_state_def by (simp del: key_serialize.simps value_ok.simps)
qed

lemma burn_fetch: "fetch_blocks_non_empty burn_env (Unbounded, Unbounded) order pages_state = [Ok (BlockV1 (block_with 1 [burn_txn]))]"
proof -
  have "key_deserialize (6 # height_bytes 1) = Ok (KeyNonEmptyBlock 1)" using key_round_trip [of "KeyNonEmptyBlock 1"] by simp
  then show ?thesis
    by (simp add: fetch_blocks_non_empty_def store_list_non_empty_def into_iterator_def burn_env_def pages_state_def mem_rocksdb_def
        listable_list_def listing_item_def format_ops_def Let_def serialize_immediate_successor_def less_append_zero)
qed

theorem substitutor_complete_witness:
  "\<exists>c'. substitutor_run 1 (contract_market paying_env 6) (\<lambda>q. list_txns burn_env 9 q None pages_state) None (burn_chain_state, ()) = (c', Ok [9])"
proof -
  let ?T = "txn_infos burn_env (block_with 1 [burn_txn]) (block_time 9 1 (block_with 1 [burn_txn]) (format_metadata (BlockV1 (block_with 1 [burn_txn]))))"
  let ?ps = "map ti_proof (filter (\<lambda>t. 0 < ti_block_height t) ?T)"
  have T: "flatten_txns burn_env 9 (cmax_height (block_cache pages_state)) (fetch_blocks_non_empty burn_env (Unbounded, Unbounded) LowestToHighest pages_state)
      = map Ok ?T" unfolding burn_fetch by (simp add: flatten_txns_def format_upgrade_eq) (simp add: pages_state_def)
  have size: "\<forall>f. Ok f \<in> set (fetch_blocks_non_empty burn_env (Unbounded, Unbounded) LowestToHighest pages_state)
      \<longrightarrow> length (btxns (into_block f)) \<le> 2 ^ 64" by (simp add: burn_fetch)
  have ps: "?ps = [burn_txn]" by (simp add: txn_infos_def)
  have nf: "burn_nullifier burn_txn = Some 9" by (simp add: burn_nullifier_def burn_txn_def is_zero_def ZERO_def)
  have "mb_value burn_txn = 4" by (simp add: burn_txn_def)
  with nf have P: "burns_of [burn_txn] = {(9, 4)}" by (auto simp: burns_of_def)
  let ?B = "contract_market paying_env 6" and ?subst = "\<lambda>(s, u). {nf. substituted_burns s nf}" and ?c = "(burn_chain_state, ())"
  have B: "burn_chain_ok ?B ?subst (registered {(9, 4)}) (burns_of [burn_txn])"
    unfolding P by (rule contract_market_ok) (simp_all add: paying_env_def)
  have c: "registered {(9, 4)} ?c" "bc_height ?B ?c = Ok 0" by (simp_all add: registered_def contract_market_def burn_chain_state_simps)
  have "new_burns (?subst ?c) [burn_txn] = [9]" by (simp add: nf burn_chain_state_simps)
  with substitutor_complete [OF burn_ok size T ps [symmetric] B c, of 1] show ?thesis by auto
qed

end
