(* ===== verification/Pool.thy ===== *)
theory Pool
  imports Prelude "HOL-Library.Multiset"
begin

text \<open>
  The pool of values (\<^verbatim>\<open>pkg/primitives/src/pool.rs\<close>): \<^verbatim>\<open>get\<close> takes a value or queues a channel, and dropping a guard
  passes the value to the first channel in the queue whose receiver is there, or back to the pool. Channels are
  numbered; which receivers are gone is part of the state of the world.
\<close>

section \<open>Operations\<close>







section \<open>A pool and its users\<close>






section \<open>No value is lost and no caller waits beside a free value\<close>
















end
