(* ===== verification/Note_Url.thy ===== *)
theory Note_Url
  imports Element
begin

text \<open>
  The payload of the URL of a note (\<^verbatim>\<open>zk-circuits/src/data.rs\<close>, \<^verbatim>\<open>encode_activity_url_payload\<close> and
  \<^verbatim>\<open>decode_activity_url_payload\<close>). Base58 and UTF-8 are parameters.
\<close>

record NoteURLPayload =
  url_version :: u8
  url_private_key :: element
  url_psi :: "element option"
  url_value :: element
  url_referral_code :: string

definition leading_zero_bytes :: "bytes \<Rightarrow> nat" where
  "leading_zero_bytes bs = length (takeWhile (\<lambda>b. b = 0) bs)"

definition payload_bytes :: "(string \<Rightarrow> bytes) \<Rightarrow> NoteURLPayload \<Rightarrow> bytes" where
  "payload_bytes as_bytes p =
     (let value_bytes = to_be_bytes (url_value p); leading_zeros = leading_zero_bytes value_bytes in
      [url_version p] @ to_be_bytes (url_private_key p)
      @ (case url_psi p of Some psi \<Rightarrow> if url_version p = 0 then to_be_bytes psi else [] | None \<Rightarrow> [])
      @ [word_of_nat leading_zeros] @ drop leading_zeros value_bytes @ as_bytes (url_referral_code p))"

definition encode_activity_url_payload :: "(bytes \<Rightarrow> string) \<Rightarrow> (string \<Rightarrow> bytes) \<Rightarrow> NoteURLPayload \<Rightarrow> string" where
  "encode_activity_url_payload bs58_encode as_bytes p = bs58_encode (payload_bytes as_bytes p)"

text \<open>A slice of the front of the rest, which panics when the rest is too short.\<close>

definition split_front :: "nat \<Rightarrow> bytes \<Rightarrow> ('e, bytes \<times> bytes) outcome" where
  "split_front n bs = (if length bs < n then Panic else Ok (take n bs, drop n bs))"

text \<open>More than 32 leading zeros leave a negative length, which panics as well.\<close>

definition decode_value :: "bytes \<Rightarrow> ('e, element \<times> bytes) outcome" where
  "decode_value rest =
     obind (split_front 1 rest) (\<lambda>(z, rest).
       let leading_zeros = unat (hd z) in
       if 32 < leading_zeros then Panic
       else
         omap (\<lambda>(v, rest). (from_be_bytes (replicate leading_zeros 0 @ v), rest)) (split_front (32 - leading_zeros) rest))"

definition decode_activity_url_payload ::
    "(string \<Rightarrow> (unit, bytes) outcome) \<Rightarrow> (bytes \<Rightarrow> (unit, string) outcome) \<Rightarrow> string \<Rightarrow> (unit, NoteURLPayload) outcome" where
  "decode_activity_url_payload bs58_decode from_utf8 payload =
     obind (unwrap (bs58_decode payload)) (\<lambda>payload_bytes.
     obind (split_front 1 payload_bytes) (\<lambda>(v, rest).
     obind (split_front 32 rest) (\<lambda>(private_key_bytes, rest).
     obind (if hd v = 0
            then omap (\<lambda>(psi_bytes, rest). (Some (from_be_bytes psi_bytes), rest)) (split_front 32 rest)
            else Ok (None, rest)) (\<lambda>(psi, rest).
     obind (decode_value rest) (\<lambda>(value, rest).
     obind (unwrap (from_utf8 rest)) (\<lambda>referral_code.
     Ok \<lparr>url_version = hd v, url_private_key = from_be_bytes private_key_bytes, url_psi = psi, url_value = value,
         url_referral_code = referral_code\<rparr>))))))"

section \<open>The round trip\<close>

lemma split_front_append [simp]: "length a = n \<Longrightarrow> split_front n (a @ b) = Ok (a, b)"
  by (simp add: split_front_def)

lemma split_front_Cons [simp]: "split_front (Suc 0) (a # b) = Ok ([a], b)"
  by (simp add: split_front_def)

lemma length_to_be_bytes [simp]: "length (to_be_bytes e) = 32"
  by (simp add: to_be_bytes_def)

declare from_to_be_bytes [simp]

lemma leading_zero_split: "bs = replicate (leading_zero_bytes bs) 0 @ drop (leading_zero_bytes bs) bs"
proof -
  have "takeWhile (\<lambda>b. b = 0) bs = replicate (leading_zero_bytes bs) 0"
    unfolding leading_zero_bytes_def by (rule replicate_eqI) (auto dest: set_takeWhileD)
  then show ?thesis by (metis leading_zero_bytes_def dropWhile_eq_drop takeWhile_dropWhile_id)
qed

lemma leading_zero_le: "leading_zero_bytes bs \<le> length bs"
  unfolding leading_zero_bytes_def by (rule length_takeWhile_le)

lemma decode_value_encoded:
  "decode_value (word_of_nat (leading_zero_bytes (to_be_bytes v)) # drop (leading_zero_bytes (to_be_bytes v)) (to_be_bytes v) @ r) = Ok (v, r)"
proof -
  let ?z = "leading_zero_bytes (to_be_bytes v)"
  have z: "?z \<le> 32" using leading_zero_le [of "to_be_bytes v"] by simp
  then have "unat (word_of_nat ?z :: u8) = ?z" by (simp add: unat_word_of_nat8)
  moreover have "replicate ?z 0 @ drop ?z (to_be_bytes v) = to_be_bytes v" by (rule leading_zero_split [symmetric])
  ultimately show ?thesis using z by (simp add: decode_value_def Let_def)
qed

text \<open>
  C40: the URL of a note. When Base58 and UTF-8 read back what they wrote, decoding an encoded payload
  gives the payload back exactly when its version says whether it has a \<^verbatim>\<open>psi\<close>: version 0 has one, every
  other version has none.
\<close>

theorem note_url_round_trip:
  assumes "\<And>bs. bs58_decode (bs58_encode bs) = Ok bs" "\<And>s. from_utf8 (as_bytes s) = Ok s"
  shows "decode_activity_url_payload bs58_decode from_utf8 (encode_activity_url_payload bs58_encode as_bytes p) = Ok p
    \<longleftrightarrow> (url_version p = 0 \<longleftrightarrow> url_psi p \<noteq> None)"
proof
  let ?d = "decode_activity_url_payload bs58_decode from_utf8 (encode_activity_url_payload bs58_encode as_bytes p)"
  show "url_version p = 0 \<longleftrightarrow> url_psi p \<noteq> None" if "?d = Ok p"
    using that by (auto simp: decode_activity_url_payload_def outcome_simps split_front_def split: if_splits)
  show "?d = Ok p" if "url_version p = 0 \<longleftrightarrow> url_psi p \<noteq> None"
  proof (cases "url_psi p")
    case None
    with that show ?thesis
      by (simp add: decode_activity_url_payload_def encode_activity_url_payload_def payload_bytes_def Let_def assms decode_value_encoded)
  next
    case (Some psi)
    with that show ?thesis
      by (simp add: decode_activity_url_payload_def encode_activity_url_payload_def payload_bytes_def Let_def assms decode_value_encoded)
  qed
qed

text \<open>Strings as their character codes stand in for both encodings.\<close>

definition code_bytes :: "string \<Rightarrow> bytes" where
  "code_bytes s = map (\<lambda>c. word_of_nat (of_char c)) s"

definition code_string :: "bytes \<Rightarrow> string" where
  "code_string bs = map (\<lambda>b. char_of (unat b)) bs"

lemma code_string_bytes: "code_string (code_bytes s) = s" "code_bytes (code_string bs) = bs"
proof -
  show "code_string (code_bytes s) = s"
    by (simp add: code_bytes_def code_string_def comp_def unat_word_of_nat8)
  have "(word_of_nat (of_char (char_of (unat b) :: char)) :: u8) = b" for b :: u8
  proof -
    have "unat b < 2 ^ LENGTH(8)" by (rule unsigned_less)
    then show ?thesis by simp
  qed
  then show "code_bytes (code_string bs) = bs" by (simp add: code_bytes_def code_string_def comp_def)
qed

theorem note_url_round_trip_witness:
  "decode_activity_url_payload (\<lambda>s. Ok (code_bytes s)) (\<lambda>b. Ok (code_string b)) (encode_activity_url_payload code_string code_bytes
      \<lparr>url_version = 0, url_private_key = 7, url_psi = Some 5, url_value = 1000, url_referral_code = ''abc''\<rparr>)
   = Ok \<lparr>url_version = 0, url_private_key = 7, url_psi = Some 5, url_value = 1000, url_referral_code = ''abc''\<rparr>
   \<and> decode_activity_url_payload (\<lambda>s. Ok (code_bytes s)) (\<lambda>b. Ok (code_string b)) (encode_activity_url_payload code_string code_bytes
      \<lparr>url_version = 1, url_private_key = 7, url_psi = Some 5, url_value = 1000, url_referral_code = ''abc''\<rparr>)
   \<noteq> Ok \<lparr>url_version = 1, url_private_key = 7, url_psi = Some 5, url_value = 1000, url_referral_code = ''abc''\<rparr>"
  by (subst (1 2) note_url_round_trip) (simp_all add: code_string_bytes)

end
