(* ===== verification/P2p.thy ===== *)
theory P2p
  imports Prelude
begin

text \<open>
  The peer-to-peer network (\<^verbatim>\<open>pkg/p2p2/src/network.rs\<close>) and the list of allowed addresses (\<^verbatim>\<open>pkg/whitelist-ips\<close>). The swarm is a
  package: its events and the numbers of its requests are arguments. Channels for answers are numbered.
\<close>

section \<open>Allowed addresses\<close>

datatype Protocol = Ip4 u32 | Ip6 u128 | OtherProtocol
datatype IpAddr = V4 u32 | V6 u128

definition ip_allowed :: "Protocol list \<Rightarrow> IpAddr set \<Rightarrow> bool" where
  "ip_allowed multiaddr ips =
     (case multiaddr of
        Ip4 ip4 # _ \<Rightarrow> V4 ip4 \<in> ips
      | Ip6 ip6 # _ \<Rightarrow> V6 ip6 \<in> ips
      | _ \<Rightarrow> False)"

definition handle_established_inbound_connection :: "IpAddr set \<Rightarrow> 'p \<Rightarrow> Protocol list \<Rightarrow> ('p \<times> Protocol list, unit) outcome" where
  "handle_established_inbound_connection ips peer remote_addr =
     (if \<not> ip_allowed remote_addr ips then Err (peer, remote_addr) else Ok ())"

text \<open>An empty list switches the check off.\<close>

definition inbound_allowed :: "IpAddr set \<Rightarrow> 'p \<Rightarrow> Protocol list \<Rightarrow> bool" where
  "inbound_allowed whitelisted_ips peer addr \<longleftrightarrow>
     whitelisted_ips = {} \<or> is_Ok (handle_established_inbound_connection whitelisted_ips peer addr)"

section \<open>The network\<close>

datatype ('p, 'e) Command = Send 'p 'e nat | Dial "Protocol list" nat

datatype ('p, 'e) swarm_event =
    ConnectionEstablished 'p
  | ConnectionClosed 'p nat
  | RrResponse nat
  | RrRequest 'p 'e
  | OtherSwarmEvent

text \<open>What the loop does outside: requests that are sent, addresses that are dialled, answers on channels, responses to peers.\<close>

datatype ('p, 'e) net_output = SendRequest nat 'p 'e | DialAddress "Protocol list" | Complete nat | SendResponse 'p

record ('p, 'e) Network =
  netin :: "('p \<times> 'e) list"
  netout :: "('p, 'e) Command list"
  local_peer_id :: 'p
  connected_peers :: "'p list"
  requests :: "(nat, nat) hashmap"
  next_chan :: nat
  next_request :: nat

definition network_new :: "'p \<Rightarrow> ('p, 'e) Network" where
  "network_new peer =
     \<lparr>netin = [], netout = [], local_peer_id = peer, connected_peers = [], requests = [], next_chan = 0, next_request = 0\<rparr>"

definition add_peer :: "'p \<Rightarrow> ('p, 'e) Network \<Rightarrow> ('p, 'e) Network" where
  "add_peer p n = n\<lparr>connected_peers := List.insert p (connected_peers n)\<rparr>"

definition remove_peer :: "'p \<Rightarrow> ('p, 'e) Network \<Rightarrow> ('p, 'e) Network" where
  "remove_peer p n = n\<lparr>connected_peers := removeAll p (connected_peers n)\<rparr>"

text \<open>Messages to the node itself are not sent; the channel of the answer, if any.\<close>

definition net_send :: "'p \<Rightarrow> 'e \<Rightarrow> ('p, 'e) Network \<Rightarrow> ('p, 'e) Network \<times> nat option" where
  "net_send peer event n =
     (if local_peer_id n = peer then (n, None)
      else (n\<lparr>netout := netout n @ [Send peer event (next_chan n)], next_chan := Suc (next_chan n)\<rparr>, Some (next_chan n)))"

definition send_all :: "'e \<Rightarrow> ('p, 'e) Network \<Rightarrow> ('p, 'e) Network" where
  "send_all event n = fold (\<lambda>p n. fst (net_send p event n)) (connected_peers n) n"

text \<open>A command that the loop takes from the queue; a dial is answered with its result.\<close>

definition handle_command :: "('p, 'e) Command \<Rightarrow> ('p, 'e) Network \<Rightarrow> ('p, 'e) Network \<times> ('p, 'e) net_output list" where
  "handle_command cmd n =
     (case cmd of
        Send p e ch \<Rightarrow>
          (n\<lparr>requests := AList.update (next_request n) ch (requests n), next_request := Suc (next_request n)\<rparr>, [SendRequest (next_request n) p e])
      | Dial addr ch \<Rightarrow> (n, [DialAddress addr, Complete ch]))"

fun handle_swarm_event :: "('p, 'e) swarm_event \<Rightarrow> ('p, 'e) Network \<Rightarrow> ('p, 'e) Network \<times> ('p, 'e) net_output list" where
  "handle_swarm_event (ConnectionEstablished p) n = (add_peer p n, [])"
| "handle_swarm_event (ConnectionClosed p num_established) n = (remove_peer p n, [])"
| "handle_swarm_event (RrResponse request_id) n =
     (case map_of (requests n) request_id of
        Some ch \<Rightarrow> (n\<lparr>requests := AList.delete request_id (requests n)\<rparr>, [Complete ch])
      | None \<Rightarrow> (n, []))"
| "handle_swarm_event (RrRequest peer request) n = (n\<lparr>netin := netin n @ [(peer, request)]\<rparr>, [SendResponse peer])"
| "handle_swarm_event OtherSwarmEvent n = (n, [])"

definition net_next :: "('p, 'e) Network \<Rightarrow> ('p, 'e) Network \<times> ('p \<times> 'e) option" where
  "net_next n = (case netin n of m # ms \<Rightarrow> (n\<lparr>netin := ms\<rparr>, Some m) | [] \<Rightarrow> (n, None))"

section \<open>Connections and peers\<close>

definition handle_events :: "('p, 'e) swarm_event list \<Rightarrow> ('p, 'e) Network \<Rightarrow> ('p, 'e) Network" where
  "handle_events es n = fold (\<lambda>e n. fst (handle_swarm_event e n)) es n"

text \<open>The last event that concerns the connections of a peer says that one was established.\<close>

definition last_established :: "'p \<Rightarrow> ('p, 'e) swarm_event list \<Rightarrow> bool" where
  "last_established p es \<longleftrightarrow>
     (let own = filter (\<lambda>e. e = ConnectionEstablished p \<or> (\<exists>k. e = ConnectionClosed p k)) es
      in own \<noteq> [] \<and> last own = ConnectionEstablished p)"

lemma handle_event_simps [simp]: "local_peer_id (fst (handle_swarm_event e n)) = local_peer_id n"
  by (cases e) (auto simp: add_peer_def remove_peer_def split: option.split)

lemma handle_events_snoc: "handle_events (es @ [e]) n = fst (handle_swarm_event e (handle_events es n))"
  by (simp add: handle_events_def)

lemma handle_events_local: "local_peer_id (handle_events es n) = local_peer_id n"
  by (induction es rule: rev_induct) (simp_all add: handle_events_snoc, simp add: handle_events_def)

lemma connected_last:
  "(p \<in> set (connected_peers (handle_events es (network_new l))) \<longleftrightarrow> last_established p es)
    \<and> distinct (connected_peers (handle_events es (network_new l)))"
proof (induction es rule: rev_induct)
  case (snoc e es)
  then show ?case
    by (cases e) (auto simp: handle_events_snoc add_peer_def remove_peer_def last_established_def Let_def distinct_removeAll split: option.split)
qed (simp add: handle_events_def network_new_def last_established_def)

lemma send_fold:
  assumes "distinct ps"
  shows "\<exists>chs. netout (fold (\<lambda>p n. fst (net_send p e n)) ps n) = netout n @ map2 (\<lambda>p ch. Send p e ch) (filter (\<lambda>p. p \<noteq> local_peer_id n) ps) chs
    \<and> length chs = length (filter (\<lambda>p. p \<noteq> local_peer_id n) ps)"
proof (induction ps arbitrary: n)
  case (Cons p ps)
  show ?case
  proof (cases "local_peer_id n = p")
    case True
    with Cons.IH [of n] show ?thesis by (simp add: net_send_def)
  next
    case False
    let ?n = "fst (net_send p e n)"
    have l: "local_peer_id ?n = local_peer_id n" "netout ?n = netout n @ [Send p e (next_chan n)]" using False by (simp_all add: net_send_def)
    from Cons.IH [of ?n] obtain chs where "netout (fold (\<lambda>p n. fst (net_send p e n)) ps ?n)
        = netout ?n @ map2 (\<lambda>p ch. Send p e ch) (filter (\<lambda>p. p \<noteq> local_peer_id n) ps) chs" "length chs = length (filter (\<lambda>p. p \<noteq> local_peer_id n) ps)"
      unfolding l(1) by blast
    with False l show ?thesis by (intro exI [of _ "next_chan n # chs"]) simp
  qed
qed simp

text \<open>
  A message to all peers is queued once for every peer whose last connection event is an establishment, except for the node
  itself, and for nobody else.
\<close>

theorem send_all_reaches:
  assumes "n = handle_events es (network_new l)"
  shows "\<exists>ps chs. netout (send_all e n) = netout n @ map2 (\<lambda>p ch. Send p e ch) ps chs \<and> length chs = length ps
    \<and> distinct ps \<and> set ps = {p. last_established p es \<and> p \<noteq> l}"
proof -
  let ?ps = "filter (\<lambda>p. p \<noteq> local_peer_id n) (connected_peers n)"
  have d: "distinct (connected_peers n)" "local_peer_id n = l"
    using connected_last [where es = es and l = l] by (auto simp: assms handle_events_local network_new_def)
  from send_fold [OF d(1), of e n] obtain chs where
    "netout (send_all e n) = netout n @ map2 (\<lambda>p ch. Send p e ch) ?ps chs" "length chs = length ?ps" by (auto simp: send_all_def)
  moreover have "distinct ?ps" "set ?ps = {p. last_established p es \<and> p \<noteq> l}"
    using d connected_last [where es = es and l = l] by (auto simp: assms)
  ultimately show ?thesis by blast
qed

text \<open>
  A peer with two connections is forgotten when one of them closes, although the event says that one remains: messages to all peers
  no longer reach it.
\<close>

theorem peer_forgotten:
  "connected_peers (handle_events [ConnectionEstablished p, ConnectionEstablished p, ConnectionClosed p 1] (network_new l)) = []"
  by (simp add: handle_events_def network_new_def add_peer_def remove_peer_def)

end
