(* ===== verification/Spec2Isabelle.thy ===== *)
theory Spec2Isabelle
  imports Smirk_Props Smirk_Storage_Props Doomslug_Props Block_Store_Props Mempool_Props Block_Cache_Props Node_Props Sync_Props
    Circuit_Props Prover_Props Prover_Worker_Props Rpc_Props
    Contracts_Props Rollup_Contract_Props Rollup_Run Burn_Substitutor_Props Pool Note_Url P2p
begin

text \<open>
  Verification of a zero-knowledge roll-up node.

  \<^bold>\<open>The program.\<close> Users hold notes in a sparse Merkle tree. A transaction spends two notes and creates two, and carries a proof of a
  circuit that it is balanced. A validator (\<^verbatim>\<open>pkg/node\<close>) collects transactions in a mempool, proposes blocks and signs endorsements
  (\<^verbatim>\<open>pkg/doomslug\<close>); other nodes receive the blocks, hold them in a cache until they are confirmed, and commit them: the
  block goes to the block store (\<^verbatim>\<open>pkg/block-store\<close>), its leaves go to the persistent notes tree (\<^verbatim>\<open>pkg/smirk\<close>). A node that falls
  behind synchronises by snapshots. A prover node follows the commits, inserts the leaves into its own tree, proves the insertions
  and aggregates the proofs (\<^verbatim>\<open>pkg/prover\<close>, \<^verbatim>\<open>pkg/zk-circuits\<close>), and sends the result through the client of the contract
  (\<^verbatim>\<open>pkg/contracts\<close>) to the roll-up contract (\<^verbatim>\<open>src/rollup\<close>), which checks roots, signatures, mints and burns. The burn
  substitutor (\<^verbatim>\<open>pkg/burn-substitutor\<close>) reads the node's list of transactions and pays burns ahead of the roll-up.

  \<^bold>\<open>Conventions.\<close> A Rust call that can fail has the type \<open>outcome\<close> of \<open>Prelude\<close>: a value, an error or a panic. Operations of the
  node are functions from a state to the new state, the outputs and the outcome (\<open>Node_Effects\<close>); an error keeps the changes made
  before it, as the code does not roll back. Machine integers keep their width. Clock readings, random numbers and answers of other
  systems are arguments. Theories come in pairs or triples: the definitions, the lemmas (\<open>_Correct\<close>), and the properties with their
  witnesses (\<open>_Props\<close>). \<open>Node_Sample\<close> and \<open>Circuit_Sample\<close> hold the concrete inputs of the witnesses.

  \<^bold>\<open>Theories and sources.\<close>
  \<^item> \<open>Prelude\<close>: outcomes, iterators, byte strings, \<^verbatim>\<open>BTreeMap\<close> and \<^verbatim>\<open>HashMap\<close> as association lists. \<open>Element\<close>: \<^verbatim>\<open>pkg/zk-primitives\<close>.
    \<open>Primitives\<close>, \<open>Pagination\<close>, \<open>Pool\<close>: \<^verbatim>\<open>pkg/primitives\<close>. \<open>Wire_Message\<close>: \<^verbatim>\<open>pkg/wire-message\<close>.
  \<^item> \<open>Smirk_Hash\<close>, \<open>Smirk_Node\<close>, \<open>Smirk_Batch\<close>, \<open>Smirk_Tree\<close>, \<open>Smirk_Storage\<close>: \<^verbatim>\<open>pkg/smirk\<close>. Shown: an insertion either reports its
    collisions and changes nothing or gives exactly the union with correct cached hashes; the root hash binds the elements; the
    database always describes the tree, so that loading gives it back.
  \<^item> \<open>Block_Store\<close>: \<^verbatim>\<open>pkg/block-store\<close>. Shown: every page is the segment of the full listing; the migration ends with complete indexes.
  \<^item> \<open>Doomslug\<close>: \<^verbatim>\<open>pkg/doomslug\<close>. Shown: the invariant of all reachable states, at most one parent with enough stake, no
    double endorsement, bounds of the delay.
  \<^item> \<open>Node_Types\<close>, \<open>Mempool\<close>, \<open>Block_Cache\<close>, \<open>Node\<close>, \<open>Node_Ops\<close>, \<open>Sync\<close>: \<^verbatim>\<open>pkg/node/src\<close> (\<^verbatim>\<open>block.rs\<close>, \<^verbatim>\<open>mempool.rs\<close>,
    \<^verbatim>\<open>cache.rs\<close>, \<^verbatim>\<open>node.rs\<close>, \<^verbatim>\<open>node/*.rs\<close>, \<^verbatim>\<open>sync.rs\<close>, \<^verbatim>\<open>network_handler.rs\<close>). Shown: no leaf is committed twice, a validated block commits, what
    a start finds after a crash, the loop that commits cached blocks ends, pool and lease hold each transaction once, the cache
    and the snapshots.
  \<^item> \<open>Rpc_Routes\<close>: \<^verbatim>\<open>pkg/node/src/rpc\<close>. Shown: following the cursors lists every transaction once; committed elements are found.
  \<^item> \<open>Circuit\<close>, \<open>Chips\<close>, \<open>Chips_Bits\<close>, \<open>Merkle_Gadget\<close>, \<open>Notes\<close>, \<open>Utxo_Circuit\<close>, \<open>Insert_Circuit\<close>, \<open>Note_Circuits\<close>, \<open>Aggregate_Circuit\<close>:
    \<^verbatim>\<open>pkg/zk-circuits/src\<close>. A synthesis assigns cells and records constraints. Shown, for every assignment that meets the constraints:
    what the public inputs of each circuit stand for; and that the values of an honest prover meet them. \<open>Circuit_Tree\<close> carries
    the statement of the batch circuit to the tree of \<^verbatim>\<open>pkg/smirk\<close>.
  \<^item> \<open>Rollup_Prover\<close>: \<^verbatim>\<open>pkg/prover\<close>. \<open>Prover_Db\<close>, \<open>Prover_Worker\<close>: \<^verbatim>\<open>pkg/node/src/prover\<close>. Shown: the batch of a group of
    transactions meets the circuit, the stored proofs connect the roots of successive blocks, which proof is sent next.
  \<^item> \<open>Contracts\<close>: \<^verbatim>\<open>pkg/contracts\<close>. \<open>Rollup_Contract\<close>: \<^verbatim>\<open>src/rollup/RollupV1.sol\<close> to \<^verbatim>\<open>RollupV6.sol\<close>. Shown: the node follows the
    validator sets of the contract and both agree on validators and on the signed message, what an accepted block establishes,
    and that a burn is substituted at most once. \<open>Rollup_Run\<close> joins the worker of a prover and the contract.
  \<^item> \<open>Burn_Substitutor\<close>: \<^verbatim>\<open>pkg/burn-substitutor\<close>, composed with the route of the node and with the contract. \<open>P2p\<close>:
    \<^verbatim>\<open>pkg/p2p2/src/network.rs\<close> and \<^verbatim>\<open>pkg/whitelist-ips\<close>. \<open>Note_Url\<close>: the URL of a note in \<^verbatim>\<open>zk-circuits/src/data.rs\<close>.

  \<^bold>\<open>Interfaces.\<close> \<open>std_map\<close> (the maps of the standard library, interpreted as \<open>btree\<close> and \<open>hmap\<close>), \<open>base_field\<close> (the representation of the
    prime field, \<open>fr\<close>), \<open>hash_cache\<close> (the caches of the tree, \<open>noop\<close> and \<open>simple\<close>), \<open>kv_store\<close> and \<open>kv_db\<close> (what the block store and the
    persistent tree need of RocksDB, interpreted on ordered association lists, \<open>mem\<close> and \<open>mem_db\<close>).

  \<^bold>\<open>Loops.\<close> Loops over data are structural recursion or have a measure (\<open>listen_again\<close> counts consecutive failures). The
  migration, the loop that commits cached blocks and the upgrade of messages may run on in principle; they are partial functions in \<open>option\<close>, and
  that they return is proved (in \<open>Block_Store_Props\<close>, \<open>Node_Props\<close> and \<open>Wire_Message\<close>). Loops that wait for
  other systems take the list of the answers. \<open>substitutor_run\<close> has the number of ticks as its argument, and its property holds for
  every number that is large enough to read all pages; no other bound occurs.

  \<^bold>\<open>Parameters.\<close> The prime field and Poseidon, Keccak, the codecs (Borsh, JSON, Base58, UTF-8), signatures and their recovery, RocksDB, the
  clock and Postgres, and the proof system: which statements a proof stands for, the chip that verifies proofs in a circuit
  (\<^verbatim>\<open>chips/aggregation\<close>), the accumulation of proofs (a total function here, which can panic on malformed bytes in the code) and the
  verifier that the contract calls. Properties that rest on one of them name what they need as hypotheses, which their witnesses
  discharge for concrete functions. Nothing here says that an aggregate proof is accepted by the verifier of the contract: \<open>Rollup_Run\<close>
  shows that this is all that is left to be checked.

  \<^bold>\<open>Not modelled.\<close> Command lines, configuration and the web server; creating and verifying proofs, keys, parameters and the generated
  verifiers (Solidity and Yul); the wrapper of the signature circuit (\<^verbatim>\<open>chips/sig.rs\<close>), which no circuit of the node uses; formatting, serde
  and randomness; the clients of the token and of the bridge, long polling and the task that calls the ticker; transport and codec
  of the network; calls of a router back into the contract; tests.
\<close>

end
